(* ===== verification/Prelude.thy ===== *)
theory Prelude
  imports Main "HOL-Library.Word"
begin

text \<open>
  Prelude of the Endfields DB development: the machine types, the error codes of
  \<^verbatim>\<open>enum ef_err\<close>, and the byte-addressed memory in which the mapped database file
  lives, with the little-endian loads and stores the C code performs on it and the
  lemmas that say how a load sees a store.
\<close>

unbundle bit_operations_syntax

named_theorems mem_simps \<open>loads after stores\<close>
named_theorems layout_simps \<open>struct views after field updates\<close>

type_synonym u8 = "8 word"
type_synonym u16 = "16 word"
type_synonym u32 = "32 word"
type_synonym u64 = "64 word"

text \<open>The mapping: every byte of the file, by its offset from \<^verbatim>\<open>mmap_addr\<close>.\<close>

type_synonym mem = "nat \<Rightarrow> u8"

datatype ef_err =
    EF_OK
  | EF_ERR_NULL_ARG
  | EF_ERR_IO
  | EF_ERR_MMAP
  | EF_ERR_OOM
  | EF_ERR_BAD_MAGIC
  | EF_ERR_BAD_VERSION
  | EF_ERR_BAD_CHECKSUM
  | EF_ERR_BAD_SLOT_SIZE
  | EF_ERR_FILE_SIZE
  | EF_ERR_SLOT_ID
  | EF_ERR_OFFSET
  | EF_ERR_PAYLOAD_LEN
  | EF_ERR_OPCODE
  | EF_ERR_SLOT_FREE
  | EF_ERR_SLOT_BUSY
  | EF_ERR_SLOT_FULL
  | EF_ERR_NOT_FOUND
  | EF_ERR_CHASE_DEPTH
  | EF_ERR_CHASE_CYCLE
  | EF_ERR_READONLY
  | EF_ERR_GROW
  | EF_ERR_QUEUE_EMPTY
  | EF_ERR_QUEUE_BUSY
  | EF_ERR_INDEX_FULL
  | EF_ERR_INDEX_BUSY
  | EF_ERR_USER_ABORT
  | EF_ERR_TXN_BUSY
  | EF_ERR_TXN_LOG_FULL

subsection \<open>Bytes and little-endian words\<close>

fun le_word :: "u8 list \<Rightarrow> 'a::len word" where
  "le_word [] = 0"
| "le_word (b # bs) = ucast b OR push_bit 8 (le_word bs)"

fun le_bytes :: "nat \<Rightarrow> 'a::len word \<Rightarrow> u8 list" where
  "le_bytes 0 w = []"
| "le_bytes (Suc n) w = ucast w # le_bytes n (drop_bit 8 w)"

lemma length_le_bytes [simp]: "length (le_bytes n w) = n"
  by (induction n arbitrary: w) auto

lemma bit_le_word:
  "bit (le_word bs :: 'a::len word) k \<longleftrightarrow>
     k < LENGTH('a) \<and> k div 8 < length bs \<and> bit (bs ! (k div 8)) (k mod 8)"
proof (induction bs arbitrary: k)
  case Nil
  then show ?case by simp
next
  case (Cons b bs)
  show ?case
  proof (cases "k < 8")
    case True
    then show ?thesis by (auto simp: bit_simps)
  next
    case False
    then have "k div 8 = Suc ((k - 8) div 8)" "k mod 8 = (k - 8) mod 8"
      by (simp_all add: le_div_geq le_mod_geq)
    moreover from False have "\<not> bit (ucast b :: 'a word) k"
      by (auto simp: bit_simps dest: bit_imp_le_length)
    ultimately show ?thesis
      using False Cons.IH[of "k - 8"] by (auto simp: bit_simps)
  qed
qed

lemma bit_le_bytes_nth:
  "i < n \<Longrightarrow> bit (le_bytes n w ! i) j \<longleftrightarrow> j < 8 \<and> bit w (8 * i + j)"
proof (induction n arbitrary: w i)
  case 0
  then show ?case by simp
next
  case (Suc n)
  then show ?case
    by (cases i) (auto simp: bit_simps ac_simps dest: bit_imp_le_length)
qed

lemma le_word_le_bytes:
  "LENGTH('a) \<le> 8 * n \<Longrightarrow> le_word (le_bytes n w) = (w :: 'a::len word)"
  by (rule bit_word_eqI) (simp add: bit_le_word bit_le_bytes_nth less_mult_imp_div_less mult.commute)

lemma le_bytes_le_word:
  assumes "length bs = n" "LENGTH('a) = 8 * n"
  shows "le_bytes n (le_word bs :: 'a::len word) = bs"
proof (rule nth_equalityI)
  show "length (le_bytes n (le_word bs :: 'a word)) = length bs" using assms by simp
next
  fix i assume "i < length (le_bytes n (le_word bs :: 'a word))"
  then have i: "i < n" by simp
  show "le_bytes n (le_word bs :: 'a word) ! i = bs ! i"
  proof (rule bit_word_eqI)
    fix j assume "j < LENGTH(8)"
    then have "j < 8" by simp
    with i show "bit (le_bytes n (le_word bs :: 'a word) ! i) j = bit (bs ! i) j"
      using assms by (simp add: bit_le_bytes_nth bit_le_word)
  qed
qed

subsection \<open>Loads and stores\<close>

definition load_bytes :: "mem \<Rightarrow> nat \<Rightarrow> nat \<Rightarrow> u8 list" where
  "load_bytes m a n = map (\<lambda>i. m (a + i)) [0..<n]"

text \<open>\<^verbatim>\<open>memcpy\<close> into the mapping, and \<^verbatim>\<open>memset\<close> of a range of it.\<close>

definition store_bytes :: "mem \<Rightarrow> nat \<Rightarrow> u8 list \<Rightarrow> mem" where
  "store_bytes m a bs = (\<lambda>x. if a \<le> x \<and> x < a + length bs then bs ! (x - a) else m x)"

definition mem_set :: "mem \<Rightarrow> nat \<Rightarrow> u8 \<Rightarrow> nat \<Rightarrow> mem" where
  "mem_set m a v n = (\<lambda>x. if a \<le> x \<and> x < a + n then v else m x)"

text \<open>\<^verbatim>\<open>memmove\<close> inside the mapping: the source range is read before any byte is written.\<close>

definition mem_move :: "mem \<Rightarrow> nat \<Rightarrow> nat \<Rightarrow> nat \<Rightarrow> mem" where
  "mem_move m dst src n = (\<lambda>x. if dst \<le> x \<and> x < dst + n then m (src + (x - dst)) else m x)"

definition load_u8 :: "mem \<Rightarrow> nat \<Rightarrow> u8" where
  "load_u8 m a = m a"

definition load_u16 :: "mem \<Rightarrow> nat \<Rightarrow> u16" where
  "load_u16 m a = le_word (load_bytes m a 2)"

definition load_u32 :: "mem \<Rightarrow> nat \<Rightarrow> u32" where
  "load_u32 m a = le_word (load_bytes m a 4)"

definition load_u64 :: "mem \<Rightarrow> nat \<Rightarrow> u64" where
  "load_u64 m a = le_word (load_bytes m a 8)"

definition store_u8 :: "mem \<Rightarrow> nat \<Rightarrow> u8 \<Rightarrow> mem" where
  "store_u8 m a v = store_bytes m a [v]"

definition store_u16 :: "mem \<Rightarrow> nat \<Rightarrow> u16 \<Rightarrow> mem" where
  "store_u16 m a v = store_bytes m a (le_bytes 2 v)"

definition store_u32 :: "mem \<Rightarrow> nat \<Rightarrow> u32 \<Rightarrow> mem" where
  "store_u32 m a v = store_bytes m a (le_bytes 4 v)"

definition store_u64 :: "mem \<Rightarrow> nat \<Rightarrow> u64 \<Rightarrow> mem" where
  "store_u64 m a v = store_bytes m a (le_bytes 8 v)"

lemmas load_defs = load_u8_def load_u16_def load_u32_def load_u64_def
lemmas store_defs = store_u8_def store_u16_def store_u32_def store_u64_def

lemma length_load_bytes [simp]: "length (load_bytes m a n) = n"
  by (simp add: load_bytes_def)

lemma load_bytes_store_same [mem_simps]:
  "n = length bs \<Longrightarrow> load_bytes (store_bytes m a bs) a n = bs"
  by (rule nth_equalityI) (simp_all add: load_bytes_def store_bytes_def)

lemma load_bytes_cong:
  assumes "\<And>x. a \<le> x \<Longrightarrow> x < a + n \<Longrightarrow> m x = m' x"
  shows "load_bytes m a n = load_bytes m' a n"
proof -
  have "m (a + i) = m' (a + i)" if "i < n" for i
    by (rule assms) (use that in simp_all)
  then show ?thesis by (simp add: load_bytes_def)
qed

lemma load_bytes_store_disjoint:
  "b + n \<le> a \<or> a + length bs \<le> b \<Longrightarrow> load_bytes (store_bytes m a bs) b n = load_bytes m b n"
  by (rule load_bytes_cong) (auto simp: store_bytes_def)

lemma load_bytes_mem_set_disjoint:
  "b + n \<le> a \<or> a + k \<le> b \<Longrightarrow> load_bytes (mem_set m a v k) b n = load_bytes m b n"
  by (rule load_bytes_cong) (auto simp: mem_set_def)

lemma load_bytes_mem_set_inside [mem_simps]:
  "a \<le> b \<Longrightarrow> b + n \<le> a + k \<Longrightarrow> load_bytes (mem_set m a v k) b n = replicate n v"
  by (rule nth_equalityI) (simp_all add: load_bytes_def mem_set_def)

lemma unat_u64_bound: "unat (x :: u64) < 2 ^ 64"
  using unsigned_less[of x] by simp

lemma unat_u32_bound: "unat (x :: u32) < 2 ^ 32"
  using unsigned_less[of x] by simp

lemma unat_of_nat_u32: "n < 2 ^ 32 \<Longrightarrow> unat (of_nat n :: u32) = n"
  by (simp add: unsigned_of_nat take_bit_nat_eq_self)

lemma unat_of_nat_u64: "n < 2 ^ 64 \<Longrightarrow> unat (of_nat n :: u64) = n"
  by (simp add: unsigned_of_nat take_bit_nat_eq_self)

lemma mem_set_inside: "a \<le> x \<Longrightarrow> x < a + n \<Longrightarrow> mem_set m a v n x = v"
  by (simp add: mem_set_def)

lemma store_u8_upd: "store_u8 m a v = m(a := v)"
  by (auto simp: store_u8_def store_bytes_def)

lemma load_u8_store_same [simp]: "load_u8 (store_u8 m a v) a = v"
  by (simp add: load_u8_def store_u8_def store_bytes_def)

lemma load_u16_store_same [simp]: "load_u16 (store_u16 m a v) a = v"
  by (simp add: load_u16_def store_u16_def mem_simps le_word_le_bytes)

lemma load_u32_store_same [simp]: "load_u32 (store_u32 m a v) a = v"
  by (simp add: load_u32_def store_u32_def mem_simps le_word_le_bytes)

lemma load_u64_store_same [simp]: "load_u64 (store_u64 m a v) a = v"
  by (simp add: load_u64_def store_u64_def mem_simps le_word_le_bytes)

lemma le_word_zeros [simp]: "le_word (replicate n 0) = 0"
  by (induction n) simp_all

lemma store_bytes_frame: "x < a \<or> a + length bs \<le> x \<Longrightarrow> store_bytes m a bs x = m x"
  by (auto simp: store_bytes_def)

end
