(* ===== verification/Layout.thy ===== *)
theory Layout
  imports Prelude
begin

text \<open>
  The structures of \<^verbatim>\<open>endfields.h\<close> and \<^verbatim>\<open>ef_index.h\<close> as they lie in the mapping:
  the superblock at offset 0, the hash entries after it, the 64-byte slots. Each struct is a
  record; \<open>sb_of\<close>, \<open>entry_at\<close> and \<open>slot_at\<close> decode it from memory, the \<open>set_\<close> operations
  are the field assignments, and the lemmas say what each assignment does to every view.
\<close>

definition EF_SLOT_SIZE :: nat where "EF_SLOT_SIZE = 64"
definition EF_SUPERBLOCK_SIZE :: nat where "EF_SUPERBLOCK_SIZE = 64"
definition EF_HASH_ENTRY_SIZE :: nat where "EF_HASH_ENTRY_SIZE = 16"
definition EF_PAYLOAD_SIZE :: nat where "EF_PAYLOAD_SIZE = 48"
definition EF_PAYLOAD_SIZE_LEGACY :: nat where "EF_PAYLOAD_SIZE_LEGACY = 52"

definition EF_STATUS_FREE :: u32 where "EF_STATUS_FREE = 0"
definition EF_STATUS_USED :: u32 where "EF_STATUS_USED = 1"
definition EF_STATUS_OVERFLOW :: u32 where "EF_STATUS_OVERFLOW = 2"
definition EF_STATUS_QUEUED :: u32 where "EF_STATUS_QUEUED = 3"
definition EF_STATUS_QUEUE_DUMMY :: u32 where "EF_STATUS_QUEUE_DUMMY = 4"
definition EF_STATUS_QUEUE_LINK :: u32 where "EF_STATUS_QUEUE_LINK = 5"
definition EF_STATUS_QUEUE_DEQ :: u32 where "EF_STATUS_QUEUE_DEQ = 6"

lemmas ef_status_defs = EF_STATUS_FREE_def EF_STATUS_USED_def EF_STATUS_OVERFLOW_def
  EF_STATUS_QUEUED_def EF_STATUS_QUEUE_DUMMY_def EF_STATUS_QUEUE_LINK_def EF_STATUS_QUEUE_DEQ_def

definition EF_FLAG_SB_CRC :: u32 where "EF_FLAG_SB_CRC = 1"
definition EF_FLAG_SLOT_CRC :: u32 where "EF_FLAG_SLOT_CRC = 2"

definition EF_SCHEMA_VERSION :: u32 where "EF_SCHEMA_VERSION = 5"
definition EF_SCHEMA_VERSION_V4 :: u32 where "EF_SCHEMA_VERSION_V4 = 4"
definition EF_SCHEMA_VERSION_V3 :: u32 where "EF_SCHEMA_VERSION_V3 = 3"
definition EF_SCHEMA_VERSION_V2 :: u32 where "EF_SCHEMA_VERSION_V2 = 2"
definition EF_SCHEMA_LEGACY :: u32 where "EF_SCHEMA_LEGACY = 1"
definition EF_UNDO_LOG_DEFAULT_SLOTS :: nat where "EF_UNDO_LOG_DEFAULT_SLOTS = 4096"

lemmas ef_version_defs = EF_SCHEMA_VERSION_def EF_SCHEMA_VERSION_V4_def EF_SCHEMA_VERSION_V3_def
  EF_SCHEMA_VERSION_V2_def EF_SCHEMA_LEGACY_def

subsection \<open>The superblock\<close>

text \<open>
  \<^verbatim>\<open>struct ef_superblock\<close>, with the 28 bytes of \<^verbatim>\<open>reserved\<close> decoded by the schema v5
  layout of \<^verbatim>\<open>ef_sb_layout.h\<close>: checksum, queue head and tail, hash capacity and the lock bytes.
\<close>

record ef_superblock =
  magic :: "u8 list"
  slot_size :: u32
  max_slots :: u64
  free_list_head :: u64
  schema_version :: u32
  flags :: u32
  free_count :: u32
  sb_checksum :: u32
  queue_head :: u64
  queue_tail :: u64
  hash_cap16 :: u16
  queue_lock :: u8
  index_write_lock :: u8
  txn_lock :: u8
  sb_txn_state :: u8
  sb_pad :: u16

definition sb_of :: "mem \<Rightarrow> ef_superblock" where
  "sb_of m =
    \<lparr> magic = load_bytes m 0 4,
      slot_size = load_u32 m 4,
      max_slots = load_u64 m 8,
      free_list_head = load_u64 m 16,
      schema_version = load_u32 m 24,
      flags = load_u32 m 28,
      free_count = load_u32 m 32,
      sb_checksum = load_u32 m 36,
      queue_head = load_u64 m 40,
      queue_tail = load_u64 m 48,
      hash_cap16 = load_u16 m 56,
      queue_lock = load_u8 m 58,
      index_write_lock = load_u8 m 59,
      txn_lock = load_u8 m 60,
      sb_txn_state = load_u8 m 61,
      sb_pad = load_u16 m 62 \<rparr>"

definition set_magic :: "mem \<Rightarrow> u8 list \<Rightarrow> mem" where "set_magic m v = store_bytes m 0 v"
definition set_slot_size :: "mem \<Rightarrow> u32 \<Rightarrow> mem" where "set_slot_size m v = store_u32 m 4 v"
definition set_max_slots :: "mem \<Rightarrow> u64 \<Rightarrow> mem" where "set_max_slots m v = store_u64 m 8 v"
definition set_free_list_head :: "mem \<Rightarrow> u64 \<Rightarrow> mem" where
  "set_free_list_head m v = store_u64 m 16 v"
definition set_schema_version :: "mem \<Rightarrow> u32 \<Rightarrow> mem" where
  "set_schema_version m v = store_u32 m 24 v"
definition set_flags :: "mem \<Rightarrow> u32 \<Rightarrow> mem" where "set_flags m v = store_u32 m 28 v"
definition set_free_count :: "mem \<Rightarrow> u32 \<Rightarrow> mem" where "set_free_count m v = store_u32 m 32 v"
definition set_sb_checksum :: "mem \<Rightarrow> u32 \<Rightarrow> mem" where "set_sb_checksum m v = store_u32 m 36 v"
definition set_queue_head :: "mem \<Rightarrow> u64 \<Rightarrow> mem" where "set_queue_head m v = store_u64 m 40 v"
definition set_queue_tail :: "mem \<Rightarrow> u64 \<Rightarrow> mem" where "set_queue_tail m v = store_u64 m 48 v"
definition set_hash_cap16 :: "mem \<Rightarrow> u16 \<Rightarrow> mem" where "set_hash_cap16 m v = store_u16 m 56 v"
definition set_queue_lock :: "mem \<Rightarrow> u8 \<Rightarrow> mem" where "set_queue_lock m v = store_u8 m 58 v"
definition set_index_write_lock :: "mem \<Rightarrow> u8 \<Rightarrow> mem" where
  "set_index_write_lock m v = store_u8 m 59 v"
definition set_txn_lock :: "mem \<Rightarrow> u8 \<Rightarrow> mem" where "set_txn_lock m v = store_u8 m 60 v"
definition set_sb_txn_state :: "mem \<Rightarrow> u8 \<Rightarrow> mem" where "set_sb_txn_state m v = store_u8 m 61 v"
definition set_sb_pad :: "mem \<Rightarrow> u16 \<Rightarrow> mem" where "set_sb_pad m v = store_u16 m 62 v"

lemmas set_sb_defs = set_magic_def set_slot_size_def set_max_slots_def set_free_list_head_def
  set_schema_version_def set_flags_def set_free_count_def set_sb_checksum_def set_queue_head_def
  set_queue_tail_def set_hash_cap16_def set_queue_lock_def set_index_write_lock_def
  set_txn_lock_def set_sb_txn_state_def set_sb_pad_def

text \<open>Each assignment changes its own field of the decoded superblock and no other.\<close>

lemma load_u8_store_bytes_disjoint:
  "b < a \<or> a + length bs \<le> b \<Longrightarrow> load_u8 (store_bytes m a bs) b = load_u8 m b"
  by (auto simp: load_u8_def store_bytes_def)

lemmas disjoint_simps = load_bytes_store_disjoint load_u8_store_bytes_disjoint
lemmas word_loads = load_u16_def load_u32_def load_u64_def

lemma le_word_roundtrips [simp]:
  "le_word (le_bytes 2 (v2 :: u16)) = v2"
  "le_word (le_bytes 4 (v4 :: u32)) = v4"
  "le_word (le_bytes 8 (v8 :: u64)) = v8"
  by (simp_all add: le_word_le_bytes)

lemma load_u8_store_bytes_same [simp]: "load_u8 (store_bytes m a [v]) a = v"
  by (simp add: load_u8_def store_bytes_def)

lemma sb_of_set [layout_simps, simp]:
  "length mg = 4 \<Longrightarrow> sb_of (set_magic m mg) = (sb_of m)\<lparr>magic := mg\<rparr>"
  "sb_of (set_slot_size m w4) = (sb_of m)\<lparr>slot_size := w4\<rparr>"
  "sb_of (set_max_slots m w8) = (sb_of m)\<lparr>max_slots := w8\<rparr>"
  "sb_of (set_free_list_head m w8) = (sb_of m)\<lparr>free_list_head := w8\<rparr>"
  "sb_of (set_schema_version m w4) = (sb_of m)\<lparr>schema_version := w4\<rparr>"
  "sb_of (set_flags m w4) = (sb_of m)\<lparr>flags := w4\<rparr>"
  "sb_of (set_free_count m w4) = (sb_of m)\<lparr>free_count := w4\<rparr>"
  "sb_of (set_sb_checksum m w4) = (sb_of m)\<lparr>sb_checksum := w4\<rparr>"
  "sb_of (set_queue_head m w8) = (sb_of m)\<lparr>queue_head := w8\<rparr>"
  "sb_of (set_queue_tail m w8) = (sb_of m)\<lparr>queue_tail := w8\<rparr>"
  "sb_of (set_hash_cap16 m w2) = (sb_of m)\<lparr>hash_cap16 := w2\<rparr>"
  "sb_of (set_queue_lock m w1) = (sb_of m)\<lparr>queue_lock := w1\<rparr>"
  "sb_of (set_index_write_lock m w1) = (sb_of m)\<lparr>index_write_lock := w1\<rparr>"
  "sb_of (set_txn_lock m w1) = (sb_of m)\<lparr>txn_lock := w1\<rparr>"
  "sb_of (set_sb_txn_state m w1) = (sb_of m)\<lparr>sb_txn_state := w1\<rparr>"
  "sb_of (set_sb_pad m w2) = (sb_of m)\<lparr>sb_pad := w2\<rparr>"
  unfolding sb_of_def set_sb_defs store_defs word_loads
  by (simp_all add: disjoint_simps load_bytes_store_same)

lemma sb_of_cong: "(\<And>x. x < 64 \<Longrightarrow> m x = m' x) \<Longrightarrow> sb_of m = sb_of m'"
  unfolding sb_of_def word_loads load_u8_def
  by (simp cong: load_bytes_cong)

lemma sb_of_store_bytes: "64 \<le> a \<Longrightarrow> sb_of (store_bytes m a bs) = sb_of m"
  by (rule sb_of_cong) (simp add: store_bytes_def)

lemma sb_of_mem_set: "64 \<le> a \<Longrightarrow> sb_of (mem_set m a v n) = sb_of m"
  by (rule sb_of_cong) (simp add: mem_set_def)

lemma sb_of_mem_move: "64 \<le> a \<Longrightarrow> sb_of (mem_move m a b n) = sb_of m"
  by (rule sb_of_cong) (simp add: mem_move_def)

subsection \<open>Slots\<close>

record ef_slot =
  status :: u32
  header_crc :: u32
  payload :: "u8 list"
  next_offset :: u64

text \<open>\<^verbatim>\<open>db->slots + i\<close> for a slot area that starts at \<open>b\<close>.\<close>

definition slot_ptr :: "nat \<Rightarrow> nat \<Rightarrow> nat" where
  "slot_ptr b i = b + EF_SLOT_SIZE * i"

definition slot_at :: "mem \<Rightarrow> nat \<Rightarrow> ef_slot" where
  "slot_at m p =
    \<lparr> status = load_u32 m p,
      header_crc = load_u32 m (p + 4),
      payload = load_bytes m (p + 8) 48,
      next_offset = load_u64 m (p + 56) \<rparr>"

definition set_status :: "mem \<Rightarrow> nat \<Rightarrow> u32 \<Rightarrow> mem" where
  "set_status m p v = store_u32 m p v"
definition set_header_crc :: "mem \<Rightarrow> nat \<Rightarrow> u32 \<Rightarrow> mem" where
  "set_header_crc m p v = store_u32 m (p + 4) v"
definition set_next_offset :: "mem \<Rightarrow> nat \<Rightarrow> u64 \<Rightarrow> mem" where
  "set_next_offset m p v = store_u64 m (p + 56) v"

lemmas set_slot_defs = set_status_def set_header_crc_def set_next_offset_def

text \<open>Bytes copied over part of a list, as \<^verbatim>\<open>memcpy (payload + o, ...)\<close> does.\<close>

definition overwrite :: "'a list \<Rightarrow> nat \<Rightarrow> 'a list \<Rightarrow> 'a list" where
  "overwrite xs k bs = take k xs @ bs @ drop (k + length bs) xs"

lemma length_overwrite [simp]:
  "k + length bs \<le> length xs \<Longrightarrow> length (overwrite xs k bs) = length xs"
  by (simp add: overwrite_def)

lemma overwrite_all [simp]: "length bs = length xs \<Longrightarrow> overwrite xs 0 bs = bs"
  by (simp add: overwrite_def)

lemma take_overwrite_0 [simp]: "take (length bs) (overwrite xs 0 bs) = bs"
  by (simp add: overwrite_def)

lemma load_bytes_store_inside:
  assumes "a \<le> b" "b + length bs \<le> a + n"
  shows "load_bytes (store_bytes m b bs) a n = overwrite (load_bytes m a n) (b - a) bs"
proof (rule nth_equalityI)
  show "length (load_bytes (store_bytes m b bs) a n) =
        length (overwrite (load_bytes m a n) (b - a) bs)"
    using assms by simp
next
  fix i assume "i < length (load_bytes (store_bytes m b bs) a n)"
  then show "load_bytes (store_bytes m b bs) a n ! i = overwrite (load_bytes m a n) (b - a) bs ! i"
    using assms
    by (auto simp: load_bytes_def store_bytes_def overwrite_def nth_append not_less
             intro!: arg_cong[where f = m] arg_cong2[where f = nth])
qed

lemma mem_set_store: "mem_set m a v n = store_bytes m a (replicate n v)"
  by (auto simp: mem_set_def store_bytes_def fun_eq_iff)

lemma length_payload [simp]: "length (payload (slot_at m p)) = 48"
  by (simp add: slot_at_def)

lemma slot_at_set_same [layout_simps, simp]:
  "slot_at (set_status m p v4) p = (slot_at m p)\<lparr>status := v4\<rparr>"
  "slot_at (set_header_crc m p v4) p = (slot_at m p)\<lparr>header_crc := v4\<rparr>"
  "slot_at (set_next_offset m p v8) p = (slot_at m p)\<lparr>next_offset := v8\<rparr>"
  unfolding slot_at_def set_slot_defs store_defs word_loads
  by (simp_all add: disjoint_simps load_bytes_store_same)

lemma slot_at_store_payload [layout_simps]:
  assumes "k + length bs \<le> 48"
  shows "slot_at (store_bytes m (p + (8 + k)) bs) p =
         (slot_at m p)\<lparr>payload := overwrite (payload (slot_at m p)) k bs\<rparr>"
  using assms unfolding slot_at_def word_loads
  by (simp add: disjoint_simps load_bytes_store_inside)

lemma slot_at_cong:
  assumes "\<And>x. p \<le> x \<Longrightarrow> x < p + 64 \<Longrightarrow> m x = m' x"
  shows "slot_at m p = slot_at m' p"
proof -
  have "load_bytes m (p + o') n = load_bytes m' (p + o') n" if "o' + n \<le> 64" for o' n
    by (rule load_bytes_cong) (use assms that in auto)
  from this[of 0 4] this[of 4 4] this[of 8 48] this[of 56 8]
  show ?thesis by (simp add: slot_at_def word_loads)
qed

lemma slot_at_store_disjoint:
  "a + length bs \<le> p \<or> p + 64 \<le> a \<Longrightarrow> slot_at (store_bytes m a bs) p = slot_at m p"
  by (rule slot_at_cong) (auto simp: store_bytes_def)

lemma slot_ptr_ge [simp]: "b \<le> slot_ptr b i"
  by (simp add: slot_ptr_def)

lemma slot_ptr_inj [simp]: "slot_ptr b i = slot_ptr b j \<longleftrightarrow> i = j"
  by (simp add: slot_ptr_def EF_SLOT_SIZE_def)

lemma slot_ptr_less: "i < j \<Longrightarrow> slot_ptr b i + 64 \<le> slot_ptr b j"
  by (simp add: slot_ptr_def EF_SLOT_SIZE_def)

text \<open>A write inside one slot is not seen by any other slot.\<close>

lemma slot_at_store_other:
  assumes "i \<noteq> j" "k + length bs \<le> 64"
  shows "slot_at (store_bytes m (slot_ptr b i + k) bs) (slot_ptr b j) = slot_at m (slot_ptr b j)"
  using assms by (intro slot_at_store_disjoint) (auto simp: slot_ptr_def EF_SLOT_SIZE_def)

lemma slot_at_set [layout_simps, simp]:
  "slot_at (set_status m (slot_ptr b i) v4) (slot_ptr b j) =
     (if i = j then (slot_at m (slot_ptr b j))\<lparr>status := v4\<rparr> else slot_at m (slot_ptr b j))"
  "slot_at (set_header_crc m (slot_ptr b i) v4) (slot_ptr b j) =
     (if i = j then (slot_at m (slot_ptr b j))\<lparr>header_crc := v4\<rparr> else slot_at m (slot_ptr b j))"
  "slot_at (set_next_offset m (slot_ptr b i) v8) (slot_ptr b j) =
     (if i = j then (slot_at m (slot_ptr b j))\<lparr>next_offset := v8\<rparr> else slot_at m (slot_ptr b j))"
proof -
  have other: "slot_at (set_status m (slot_ptr b i) v4) (slot_ptr b j) = slot_at m (slot_ptr b j)"
    "slot_at (set_header_crc m (slot_ptr b i) v4) (slot_ptr b j) = slot_at m (slot_ptr b j)"
    "slot_at (set_next_offset m (slot_ptr b i) v8) (slot_ptr b j) = slot_at m (slot_ptr b j)"
    if "i \<noteq> j"
    using that slot_at_store_other[of i j 0]
    by (simp_all add: set_slot_defs store_defs slot_at_store_other)
  then show
    "slot_at (set_status m (slot_ptr b i) v4) (slot_ptr b j) =
       (if i = j then (slot_at m (slot_ptr b j))\<lparr>status := v4\<rparr> else slot_at m (slot_ptr b j))"
    "slot_at (set_header_crc m (slot_ptr b i) v4) (slot_ptr b j) =
       (if i = j then (slot_at m (slot_ptr b j))\<lparr>header_crc := v4\<rparr> else slot_at m (slot_ptr b j))"
    "slot_at (set_next_offset m (slot_ptr b i) v8) (slot_ptr b j) =
       (if i = j then (slot_at m (slot_ptr b j))\<lparr>next_offset := v8\<rparr> else slot_at m (slot_ptr b j))"
    by simp_all
qed

lemma slot_at_payload [layout_simps]:
  assumes "k + length bs \<le> 48"
  shows "slot_at (store_bytes m (slot_ptr b i + (8 + k)) bs) (slot_ptr b j) =
     (if i = j
      then (slot_at m (slot_ptr b j))
             \<lparr>payload := overwrite (payload (slot_at m (slot_ptr b j))) k bs\<rparr>
      else slot_at m (slot_ptr b j))"
  using assms by (simp add: slot_at_store_payload slot_at_store_other)

lemma sb_of_slot [layout_simps, simp]:
  "64 \<le> p \<Longrightarrow> sb_of (set_status m p v4) = sb_of m"
  "64 \<le> p \<Longrightarrow> sb_of (set_header_crc m p v4) = sb_of m"
  "64 \<le> p \<Longrightarrow> sb_of (set_next_offset m p v8) = sb_of m"
  by (simp_all add: set_slot_defs store_defs sb_of_store_bytes)

lemma slot_at_set_sb [layout_simps, simp]:
  "64 \<le> p \<Longrightarrow> slot_at (set_slot_size m w4) p = slot_at m p"
  "64 \<le> p \<Longrightarrow> slot_at (set_max_slots m w8) p = slot_at m p"
  "64 \<le> p \<Longrightarrow> slot_at (set_free_list_head m w8) p = slot_at m p"
  "64 \<le> p \<Longrightarrow> slot_at (set_schema_version m w4) p = slot_at m p"
  "64 \<le> p \<Longrightarrow> slot_at (set_flags m w4) p = slot_at m p"
  "64 \<le> p \<Longrightarrow> slot_at (set_free_count m w4) p = slot_at m p"
  "64 \<le> p \<Longrightarrow> slot_at (set_sb_checksum m w4) p = slot_at m p"
  "64 \<le> p \<Longrightarrow> slot_at (set_queue_head m w8) p = slot_at m p"
  "64 \<le> p \<Longrightarrow> slot_at (set_queue_tail m w8) p = slot_at m p"
  "64 \<le> p \<Longrightarrow> slot_at (set_hash_cap16 m w2) p = slot_at m p"
  "64 \<le> p \<Longrightarrow> slot_at (set_queue_lock m w1) p = slot_at m p"
  "64 \<le> p \<Longrightarrow> slot_at (set_index_write_lock m w1) p = slot_at m p"
  "64 \<le> p \<Longrightarrow> slot_at (set_txn_lock m w1) p = slot_at m p"
  "64 \<le> p \<Longrightarrow> slot_at (set_sb_txn_state m w1) p = slot_at m p"
  "64 \<le> p \<Longrightarrow> slot_at (set_sb_pad m w2) p = slot_at m p"
  by (simp_all add: set_sb_defs store_defs slot_at_store_disjoint)

subsection \<open>Hash entries\<close>

record ef_hash_entry =
  key_hash :: u64
  slot_offset :: u64

definition entry_at :: "mem \<Rightarrow> nat \<Rightarrow> nat \<Rightarrow> ef_hash_entry" where
  "entry_at m h k =
    \<lparr> key_hash = load_u64 m (h + EF_HASH_ENTRY_SIZE * k),
      slot_offset = load_u64 m (h + EF_HASH_ENTRY_SIZE * k + 8) \<rparr>"

definition set_entry :: "mem \<Rightarrow> nat \<Rightarrow> nat \<Rightarrow> u64 \<Rightarrow> u64 \<Rightarrow> mem" where
  "set_entry m h k kh off =
     store_u64 (store_u64 m (h + EF_HASH_ENTRY_SIZE * k) kh) (h + EF_HASH_ENTRY_SIZE * k + 8) off"

text \<open>The whole table, as the list of its entries.\<close>

definition table_of :: "mem \<Rightarrow> nat \<Rightarrow> nat \<Rightarrow> ef_hash_entry list" where
  "table_of m h cap = map (entry_at m h) [0..<cap]"

lemma entry_at_cong:
  assumes "\<And>x. h + 16 * k \<le> x \<Longrightarrow> x < h + 16 * k + 16 \<Longrightarrow> m x = m' x"
  shows "entry_at m h k = entry_at m' h k"
proof -
  have "load_bytes m (h + 16 * k + o') 8 = load_bytes m' (h + 16 * k + o') 8" if "o' + 8 \<le> 16" for o'
    by (rule load_bytes_cong) (use assms that in auto)
  from this[of 0] this[of 8] show ?thesis
    by (simp add: entry_at_def word_loads EF_HASH_ENTRY_SIZE_def)
qed

lemma entry_at_store_disjoint:
  "a + length bs \<le> h + 16 * k \<or> h + 16 * k + 16 \<le> a \<Longrightarrow>
   entry_at (store_bytes m a bs) h k = entry_at m h k"
  by (rule entry_at_cong) (auto simp: store_bytes_def)

lemma entry_at_set_entry [layout_simps, simp]:
  "entry_at (set_entry m h i kh off) h j =
     (if i = j then \<lparr>key_hash = kh, slot_offset = off\<rparr> else entry_at m h j)"
proof (cases "i = j")
  case True
  then show ?thesis
    unfolding entry_at_def set_entry_def store_defs word_loads
    by (simp add: disjoint_simps load_bytes_store_same)
next
  case False
  then have "i < j \<or> j < i" by auto
  then show ?thesis
    unfolding set_entry_def store_defs EF_HASH_ENTRY_SIZE_def
    by (auto simp: entry_at_store_disjoint)
qed

lemma length_table_of [simp]: "length (table_of m h cap) = cap"
  by (simp add: table_of_def)

lemma nth_table_of [simp]: "k < cap \<Longrightarrow> table_of m h cap ! k = entry_at m h k"
  by (simp add: table_of_def)

lemma table_of_set_entry [layout_simps, simp]:
  "k < cap \<Longrightarrow>
   table_of (set_entry m h k kh off) h cap = (table_of m h cap)[k := \<lparr>key_hash = kh, slot_offset = off\<rparr>]"
  by (rule nth_equalityI) (auto simp: nth_list_update)

lemma table_of_cong:
  assumes "\<And>x. h \<le> x \<Longrightarrow> x < h + 16 * cap \<Longrightarrow> m x = m' x"
  shows "table_of m h cap = table_of m' h cap"
  unfolding table_of_def by (rule map_cong[OF refl], rule entry_at_cong) (use assms in auto)

lemma table_of_store_disjoint:
  "a + length bs \<le> h \<or> h + 16 * cap \<le> a \<Longrightarrow> table_of (store_bytes m a bs) h cap = table_of m h cap"
  by (rule table_of_cong) (auto simp: store_bytes_def)

lemma table_of_set_sb [layout_simps, simp]:
  "64 \<le> h \<Longrightarrow> table_of (set_max_slots m w8) h cap = table_of m h cap"
  "64 \<le> h \<Longrightarrow> table_of (set_free_list_head m w8) h cap = table_of m h cap"
  "64 \<le> h \<Longrightarrow> table_of (set_schema_version m w4) h cap = table_of m h cap"
  "64 \<le> h \<Longrightarrow> table_of (set_flags m w4) h cap = table_of m h cap"
  "64 \<le> h \<Longrightarrow> table_of (set_free_count m w4) h cap = table_of m h cap"
  "64 \<le> h \<Longrightarrow> table_of (set_sb_checksum m w4) h cap = table_of m h cap"
  "64 \<le> h \<Longrightarrow> table_of (set_queue_head m w8) h cap = table_of m h cap"
  "64 \<le> h \<Longrightarrow> table_of (set_queue_tail m w8) h cap = table_of m h cap"
  "64 \<le> h \<Longrightarrow> table_of (set_hash_cap16 m w2) h cap = table_of m h cap"
  "64 \<le> h \<Longrightarrow> table_of (set_queue_lock m w1) h cap = table_of m h cap"
  "64 \<le> h \<Longrightarrow> table_of (set_index_write_lock m w1) h cap = table_of m h cap"
  "64 \<le> h \<Longrightarrow> table_of (set_txn_lock m w1) h cap = table_of m h cap"
  "64 \<le> h \<Longrightarrow> table_of (set_sb_txn_state m w1) h cap = table_of m h cap"
  by (simp_all add: set_sb_defs store_defs table_of_store_disjoint)

lemma table_of_set_slot [layout_simps, simp]:
  "h + 16 * cap \<le> p \<Longrightarrow> table_of (set_status m p w4) h cap = table_of m h cap"
  "h + 16 * cap \<le> p \<Longrightarrow> table_of (set_header_crc m p w4) h cap = table_of m h cap"
  "h + 16 * cap \<le> p \<Longrightarrow> table_of (set_next_offset m p w8) h cap = table_of m h cap"
  by (simp_all add: set_slot_defs store_defs table_of_store_disjoint)

lemma sb_of_set_entry [layout_simps, simp]:
  "64 \<le> h \<Longrightarrow> sb_of (set_entry m h k kh off) = sb_of m"
  by (simp add: set_entry_def store_defs sb_of_store_bytes)

lemma slot_at_set_entry [layout_simps, simp]:
  "h + 16 * Suc k \<le> p \<Longrightarrow> slot_at (set_entry m h k kh off) p = slot_at m p"
  by (simp add: set_entry_def store_defs slot_at_store_disjoint EF_HASH_ENTRY_SIZE_def)

end
