(* ===== verification/Sb_Layout.thy ===== *)
theory Sb_Layout
  imports Layout
begin

text \<open>
  \<^verbatim>\<open>ef_sb_layout.c\<close>: the fields packed into \<^verbatim>\<open>superblock.reserved\<close>. Hash capacity with its
  v3 and v5 encodings, the three one-byte spin locks (queue, index write, transaction), the
  persistent transaction state, and the v3 to v4 to v5 layout migrations. The locks share one
  contract, the locale \<open>spin_lock\<close>, which each of them is shown to meet.
\<close>

definition EF_SB_INDEX_SPIN_MAX :: nat where "EF_SB_INDEX_SPIN_MAX = 65536"

definition ef_sb_uses_v4_index_layout :: "mem \<Rightarrow> bool" where
  "ef_sb_uses_v4_index_layout m \<longleftrightarrow> EF_SCHEMA_VERSION \<le> schema_version (sb_of m)"

subsection \<open>Hash capacity\<close>

definition ef_sb_hash_capacity_load :: "mem \<Rightarrow> u32" where
  "ef_sb_hash_capacity_load m =
     (if ef_sb_uses_v4_index_layout m then ucast (hash_cap16 (sb_of m))
      else if EF_SCHEMA_VERSION_V3 \<le> schema_version (sb_of m) then load_u32 m 56
      else 0)"

text \<open>
  The store replaces the low half of the aligned word that also holds the two lock bytes. With
  no other thread the compare-and-swap succeeds on its first attempt.
\<close>

definition ef_sb_hash_capacity_store :: "mem \<Rightarrow> u32 \<Rightarrow> mem" where
  "ef_sb_hash_capacity_store m hash_capacity =
     (let hash_capacity = (if 0xFFFF < hash_capacity then 0xFFFF else hash_capacity);
          cap16 = ucast hash_capacity :: u16;
          cur = load_u32 m 56
      in store_u32 m 56 ((cur AND 0xFFFF0000) OR ucast cap16))"

subsection \<open>Spin locks\<close>

text \<open>
  The bounded compare-and-swap loops: at most \<open>n\<close> attempts to move the lock word from 0 to 1.
\<close>

fun spin_cas_u8 :: "nat \<Rightarrow> nat \<Rightarrow> mem \<Rightarrow> bool \<times> mem" where
  "spin_cas_u8 0 a m = (False, m)"
| "spin_cas_u8 (Suc n) a m =
     (if load_u8 m a = 0 then (True, store_u8 m a 1) else spin_cas_u8 n a m)"

fun spin_cas_u32 :: "nat \<Rightarrow> nat \<Rightarrow> mem \<Rightarrow> bool \<times> mem" where
  "spin_cas_u32 0 a m = (False, m)"
| "spin_cas_u32 (Suc n) a m =
     (if load_u32 m a = 0 then (True, store_u32 m a 1) else spin_cas_u32 n a m)"

definition ef_sb_queue_lock_acquire :: "mem \<Rightarrow> ef_err \<times> mem" where
  "ef_sb_queue_lock_acquire m =
     (let (ok, m') = (if ef_sb_uses_v4_index_layout m
                      then spin_cas_u8 EF_SB_INDEX_SPIN_MAX 58 m
                      else spin_cas_u32 EF_SB_INDEX_SPIN_MAX 60 m)
      in (if ok then EF_OK else EF_ERR_QUEUE_BUSY, m'))"

definition ef_sb_queue_lock_release :: "mem \<Rightarrow> mem" where
  "ef_sb_queue_lock_release m =
     (if ef_sb_uses_v4_index_layout m then set_queue_lock m 0 else store_u32 m 60 0)"

definition ef_sb_index_write_lock_acquire :: "mem \<Rightarrow> ef_err \<times> mem" where
  "ef_sb_index_write_lock_acquire m =
     (if \<not> ef_sb_uses_v4_index_layout m then (EF_ERR_BAD_VERSION, m)
      else let (ok, m') = spin_cas_u8 EF_SB_INDEX_SPIN_MAX 59 m
           in (if ok then EF_OK else EF_ERR_INDEX_BUSY, m'))"

definition ef_sb_index_write_lock_release :: "mem \<Rightarrow> mem" where
  "ef_sb_index_write_lock_release m =
     (if ef_sb_uses_v4_index_layout m then set_index_write_lock m 0 else m)"

definition ef_sb_txn_lock_try_acquire :: "mem \<Rightarrow> ef_err \<times> mem" where
  "ef_sb_txn_lock_try_acquire m =
     (if schema_version (sb_of m) < EF_SCHEMA_VERSION then (EF_ERR_BAD_VERSION, m)
      else let (ok, m') = spin_cas_u8 EF_SB_INDEX_SPIN_MAX 60 m
           in (if ok then EF_OK else EF_ERR_TXN_BUSY, m'))"

definition ef_sb_txn_lock_release :: "mem \<Rightarrow> mem" where
  "ef_sb_txn_lock_release m =
     (if schema_version (sb_of m) < EF_SCHEMA_VERSION then m else set_txn_lock m 0)"

definition ef_sb_txn_state_load :: "mem \<Rightarrow> u8" where
  "ef_sb_txn_state_load m =
     (if schema_version (sb_of m) < EF_SCHEMA_VERSION then 0 else sb_txn_state (sb_of m))"

definition ef_sb_txn_state_store :: "mem \<Rightarrow> u8 \<Rightarrow> mem" where
  "ef_sb_txn_state_store m st =
     (if schema_version (sb_of m) < EF_SCHEMA_VERSION then m else set_sb_txn_state m st)"

subsection \<open>Layout migrations\<close>

definition ef_sb_migrate_v3_index_layout :: "mem \<Rightarrow> ef_err \<times> mem" where
  "ef_sb_migrate_v3_index_layout m =
     (if EF_SCHEMA_VERSION \<le> schema_version (sb_of m) then (EF_OK, m)
      else if schema_version (sb_of m) < EF_SCHEMA_VERSION_V3 then (EF_OK, m)
      else let hash32 = load_u32 m 56 in
        if 0xFFFF < hash32 then (EF_ERR_BAD_VERSION, m)
        else let queue_lock8 = (if load_u32 m 60 \<noteq> 0 then 1 else 0);
                 m = mem_set m 56 0 8;
                 m = ef_sb_hash_capacity_store m hash32;
                 m = set_queue_lock m queue_lock8;
                 m = set_index_write_lock m 0
             in (EF_OK, set_schema_version m EF_SCHEMA_VERSION_V4))"

definition ef_sb_migrate_v4_txn_layout :: "mem \<Rightarrow> ef_err \<times> mem" where
  "ef_sb_migrate_v4_txn_layout m =
     (if EF_SCHEMA_VERSION \<le> schema_version (sb_of m) then (EF_OK, m)
      else if schema_version (sb_of m) \<noteq> EF_SCHEMA_VERSION_V4 then (EF_OK, m)
      else let m = set_txn_lock m 0;
               m = set_sb_txn_state m 0;
               m = set_sb_pad m 0
           in (EF_OK, set_schema_version m EF_SCHEMA_VERSION))"

subsection \<open>Hash capacity round trip\<close>

lemma and_high_half: "x AND 0xFFFF0000 = push_bit 16 (drop_bit 16 x)" for x :: u32
proof (rule bit_word_eqI)
  fix n assume n: "n < LENGTH(32)"
  have "(0xFFFF0000 :: u32) = push_bit 16 (mask 16)"
    by (simp add: mask_eq_exp_minus_1 push_bit_eq_mult)
  then have "bit (0xFFFF0000 :: u32) n = (16 \<le> n)"
    using n by (simp only: bit_simps) auto
  then show "bit (x AND 0xFFFF0000) n = bit (push_bit 16 (drop_bit 16 x)) n"
    using n by (auto simp: bit_simps)
qed

lemma store_u32_low_half:
  "store_u32 m a ((load_u32 m a AND 0xFFFF0000) OR ucast (v :: u16)) = store_u16 m a v"
proof (rule ext)
  fix x
  have "le_bytes 4 ((load_u32 m a AND 0xFFFF0000) OR ucast v) ! k =
        (if k < 2 then le_bytes 2 v ! k else m (a + k))" if "k < 4" for k
  proof (rule bit_word_eqI)
    fix j assume "j < LENGTH(8)"
    then have j: "j < 8" by simp
    with that have div: "(8 * k + j) div 8 = k" "(8 * k + j) mod 8 = j" by auto
    have "bit (load_u32 m a) (8 * k + j) = bit (m (a + k)) j"
      using that j by (simp add: load_u32_def bit_le_word div load_bytes_def)
    then show "bit (le_bytes 4 ((load_u32 m a AND 0xFFFF0000) OR ucast v) ! k) j =
        bit (if k < 2 then le_bytes 2 v ! k else m (a + k)) j"
      using that j
      by (auto simp: bit_le_bytes_nth and_high_half bit_simps dest: bit_imp_le_length)
  qed
  from this[of "x - a"]
  show "store_u32 m a ((load_u32 m a AND 0xFFFF0000) OR ucast v) x = store_u16 m a v x"
    by (auto simp: store_u32_def store_u16_def store_bytes_def)
qed

text \<open>The word-wide update writes the two capacity bytes only, as the unaligned path does.\<close>

lemma ef_sb_hash_capacity_store_eq:
  "ef_sb_hash_capacity_store m cap = set_hash_cap16 m (ucast (min cap 0xFFFF))"
  by (auto simp: ef_sb_hash_capacity_store_def Let_def store_u32_low_half set_hash_cap16_def min_def)

lemma ucast_u16_u32:
  assumes "cap \<le> (0xFFFF :: u32)"
  shows "ucast (ucast cap :: u16) = cap"
proof -
  from assms have "unat cap < 2 ^ 16" by (simp add: word_le_nat_alt)
  then have "unat (ucast (ucast cap :: u16) :: u32) = unat cap"
    by (simp add: unsigned_ucast_eq unsigned_take_bit_eq take_bit_nat_eq_self)
  then show ?thesis by (simp only: word_unat_eq_iff)
qed

lemma hash_capacity_load_store:
  assumes "ef_sb_uses_v4_index_layout m" "cap \<le> 0xFFFF"
  shows "ef_sb_hash_capacity_load (ef_sb_hash_capacity_store m cap) = cap"
  using assms
  by (simp add: ef_sb_hash_capacity_load_def ef_sb_uses_v4_index_layout_def
      ef_sb_hash_capacity_store_eq ucast_u16_u32 min_def)

subsection \<open>The lock contract\<close>

text \<open>
  What the callers of a lock rely on: acquiring a free lock takes it and touches nothing but the
  lock byte, so a release right after it restores the memory exactly; acquiring a held lock
  fails with the lock's own error and changes nothing.
\<close>

locale spin_lock =
  fixes acquire :: "mem \<Rightarrow> ef_err \<times> mem"
    and release :: "mem \<Rightarrow> mem"
    and held :: "mem \<Rightarrow> bool"
    and usable :: "mem \<Rightarrow> bool"
    and busy :: ef_err
    and lock_addr :: nat
  assumes acquire_free: "usable m \<Longrightarrow> \<not> held m \<Longrightarrow> acquire m = (EF_OK, store_u8 m lock_addr 1)"
    and acquire_held: "usable m \<Longrightarrow> held m \<Longrightarrow> acquire m = (busy, m)"
    and release_eq: "usable m \<Longrightarrow> release m = store_u8 m lock_addr 0"
    and held_iff: "held m \<longleftrightarrow> m lock_addr \<noteq> 0"
    and usable_lock: "usable (store_u8 m lock_addr v) \<longleftrightarrow> usable m"
    and busy_error: "busy \<noteq> EF_OK"
begin

lemma acquire_ok_iff: "usable m \<Longrightarrow> fst (acquire m) = EF_OK \<longleftrightarrow> \<not> held m"
  using acquire_free acquire_held busy_error by (cases "held m") auto

lemma held_after_acquire: "usable m \<Longrightarrow> \<not> held m \<Longrightarrow> held (snd (acquire m))"
  by (simp add: acquire_free held_iff store_u8_upd)

lemma no_double_acquire:
  "usable m \<Longrightarrow> \<not> held m \<Longrightarrow> acquire (snd (acquire m)) = (busy, snd (acquire m))"
  using held_after_acquire[of m] by (simp add: acquire_free acquire_held usable_lock)

lemma release_acquire: "usable m \<Longrightarrow> \<not> held m \<Longrightarrow> release (snd (acquire m)) = m"
  by (simp add: acquire_free release_eq usable_lock held_iff) (simp add: store_u8_upd fun_upd_idem)

lemma free_after_release: "usable m \<Longrightarrow> \<not> held (release m)"
  by (simp add: release_eq held_iff store_u8_upd)

end

lemma spin_cas_u8_eq:
  "spin_cas_u8 n a m = (if n = 0 \<or> load_u8 m a \<noteq> 0 then (False, m) else (True, store_u8 m a 1))"
  by (induction n) auto

lemma schema_store_above [simp]:
  "28 \<le> a \<Longrightarrow> schema_version (sb_of (store_u8 m a v)) = schema_version (sb_of m)"
  by (simp add: sb_of_def store_u8_def load_u32_def load_bytes_store_disjoint)

interpretation queue_lock: spin_lock ef_sb_queue_lock_acquire ef_sb_queue_lock_release
  "\<lambda>m. load_u8 m 58 \<noteq> 0" ef_sb_uses_v4_index_layout EF_ERR_QUEUE_BUSY 58
  by unfold_locales
    (auto simp: ef_sb_queue_lock_acquire_def ef_sb_queue_lock_release_def spin_cas_u8_eq load_u8_def
      EF_SB_INDEX_SPIN_MAX_def ef_sb_uses_v4_index_layout_def set_queue_lock_def)

interpretation index_lock: spin_lock ef_sb_index_write_lock_acquire ef_sb_index_write_lock_release
  "\<lambda>m. load_u8 m 59 \<noteq> 0" ef_sb_uses_v4_index_layout EF_ERR_INDEX_BUSY 59
  by unfold_locales
    (auto simp: ef_sb_index_write_lock_acquire_def ef_sb_index_write_lock_release_def spin_cas_u8_eq
      load_u8_def EF_SB_INDEX_SPIN_MAX_def ef_sb_uses_v4_index_layout_def set_index_write_lock_def)

interpretation txn_lock: spin_lock ef_sb_txn_lock_try_acquire ef_sb_txn_lock_release
  "\<lambda>m. load_u8 m 60 \<noteq> 0" ef_sb_uses_v4_index_layout EF_ERR_TXN_BUSY 60
  by unfold_locales
    (auto simp: ef_sb_txn_lock_try_acquire_def ef_sb_txn_lock_release_def spin_cas_u8_eq
      load_u8_def EF_SB_INDEX_SPIN_MAX_def ef_sb_uses_v4_index_layout_def set_txn_lock_def)

subsection \<open>Migration\<close>

lemma migrate_v3_fields:
  assumes "schema_version (sb_of m) = EF_SCHEMA_VERSION_V3" "load_u32 m 56 \<le> 0xFFFF"
    and "ef_sb_migrate_v3_index_layout m = (err, m')"
  shows "err = EF_OK \<and> sb_of m' = (sb_of m)\<lparr> schema_version := EF_SCHEMA_VERSION_V4,
    hash_cap16 := ucast (load_u32 m 56), queue_lock := (if load_u32 m 60 \<noteq> 0 then 1 else 0),
    index_write_lock := 0, txn_lock := 0, sb_txn_state := 0, sb_pad := 0 \<rparr>"
proof -
  have zero: "sb_of (mem_set m 56 0 8) = (sb_of m)\<lparr> hash_cap16 := 0, queue_lock := 0,
      index_write_lock := 0, txn_lock := 0, sb_txn_state := 0, sb_pad := 0 \<rparr>"
    unfolding sb_of_def word_loads load_u8_def
    by (simp add: load_bytes_mem_set_disjoint load_bytes_mem_set_inside mem_set_inside)
  have small: "\<not> 0xFFFF < load_u32 m 56" using assms(2) by (simp add: not_less)
  have "err = EF_OK \<and> m' = set_schema_version (set_index_write_lock (set_queue_lock
       (set_hash_cap16 (mem_set m 56 0 8) (ucast (load_u32 m 56)))
       (if load_u32 m 60 \<noteq> 0 then 1 else 0)) 0) EF_SCHEMA_VERSION_V4"
    using assms
    by (auto simp: ef_sb_migrate_v3_index_layout_def ef_sb_hash_capacity_store_eq ef_version_defs
        Let_def min_def small)
  then show ?thesis by (simp add: zero)
qed

end
