(* ===== verification/Crc.thy ===== *)
theory Crc
  imports Prelude
begin

text \<open>
  \<^verbatim>\<open>ef_crc.c\<close>: the IEEE CRC-32. The lookup tables are the functions of the index that
  \<^verbatim>\<open>ef_crc32_init_tables\<close> fills in; \<open>crc_bytewise\<close> is the reference that divides by the
  reflected polynomial one bit at a time. The slicing-by-4 loop agrees with it. Every checksum the
  library computes covers fewer than 64 bytes in one call, for which \<^verbatim>\<open>ef_crc32_update\<close> takes this
  loop; the dispatch and the path for longer inputs are in \<^verbatim>\<open>Crc_Pclmul\<close>.
\<close>

definition crc_bit :: "u32 \<Rightarrow> u32" where
  "crc_bit crc = (if crc AND 1 \<noteq> 0 then drop_bit 1 crc XOR 0xEDB88320 else drop_bit 1 crc)"

text \<open>\<^verbatim>\<open>ef_crc32_init_tables\<close>: the byte table, then the four slices.\<close>

definition ef_crc32_table :: "u32 \<Rightarrow> u32" where
  "ef_crc32_table i = (crc_bit ^^ 8) i"

definition ef_crc32_slice0 :: "u32 \<Rightarrow> u32" where
  "ef_crc32_slice0 i = ef_crc32_table i"

definition ef_crc32_next :: "u32 \<Rightarrow> u32" where
  "ef_crc32_next crc = drop_bit 8 crc XOR ef_crc32_table (crc AND 0xFF)"

definition ef_crc32_slice1 :: "u32 \<Rightarrow> u32" where
  "ef_crc32_slice1 i = ef_crc32_next (ef_crc32_slice0 i)"

definition ef_crc32_slice2 :: "u32 \<Rightarrow> u32" where
  "ef_crc32_slice2 i = ef_crc32_next (ef_crc32_slice1 i)"

definition ef_crc32_slice3 :: "u32 \<Rightarrow> u32" where
  "ef_crc32_slice3 i = ef_crc32_next (ef_crc32_slice2 i)"

fun ef_crc32_update_slice4 :: "u32 \<Rightarrow> u8 list \<Rightarrow> u32" where
  "ef_crc32_update_slice4 crc (b0 # b1 # b2 # b3 # bs) =
     (let c = crc XOR le_word [b0, b1, b2, b3] in
      ef_crc32_update_slice4
        (ef_crc32_slice0 (drop_bit 24 c AND 0xFF) XOR
         ef_crc32_slice1 (drop_bit 16 c AND 0xFF) XOR
         ef_crc32_slice2 (drop_bit 8 c AND 0xFF) XOR
         ef_crc32_slice3 (c AND 0xFF)) bs)"
| "ef_crc32_update_slice4 crc (b # bs) =
     ef_crc32_update_slice4 (drop_bit 8 crc XOR ef_crc32_table ((crc XOR ucast b) AND 0xFF)) bs"
| "ef_crc32_update_slice4 crc [] = crc"

subsection \<open>The bit-serial reference\<close>

definition crc_byte :: "u32 \<Rightarrow> u8 \<Rightarrow> u32" where
  "crc_byte crc b = (crc_bit ^^ 8) (crc XOR ucast b)"

definition crc_bytewise :: "u32 \<Rightarrow> u8 list \<Rightarrow> u32" where
  "crc_bytewise crc bs = foldl crc_byte crc bs"

lemma crc_bit_xor: "crc_bit (a XOR b) = crc_bit a XOR crc_bit b"
proof -
  have odd_iff: "(x AND 1 \<noteq> 0) = bit x 0" for x :: u32
    by (simp add: and_one_eq bit_0 odd_iff_mod_2_eq_one)
  show ?thesis
    unfolding crc_bit_def odd_iff
    by (rule bit_word_eqI) (auto simp: bit_simps)
qed

lemma crc_bit_zero [simp]: "crc_bit 0 = 0"
  by (simp add: crc_bit_def)

lemma crc_bits_xor: "(crc_bit ^^ n) (a XOR b) = (crc_bit ^^ n) a XOR (crc_bit ^^ n) b"
  by (induction n) (simp_all add: crc_bit_xor)

lemma crc_bits_zero [simp]: "(crc_bit ^^ n) 0 = 0"
  by (induction n) simp_all

text \<open>Zero low bits are shifted out without a reduction.\<close>

lemma crc_bits_shift:
  assumes "take_bit n x = 0"
  shows "(crc_bit ^^ n) x = drop_bit n x"
  using assms
proof (induction n arbitrary: x)
  case 0
  then show ?case by simp
next
  case (Suc n)
  have bits: "\<not> bit x k" if "k < Suc n" for k
  proof
    assume "bit x k"
    with that have "bit (take_bit (Suc n) x) k" by (simp add: bit_simps)
    with Suc.prems show False by simp
  qed
  then have "even x" using bits[of 0] by (simp add: bit_0)
  then have "x AND 1 = 0" by (simp add: and_one_eq flip: even_iff_mod_2_eq_zero)
  then have "crc_bit x = drop_bit 1 x" by (simp add: crc_bit_def)
  moreover have "take_bit n (drop_bit 1 x) = 0"
    by (rule bit_word_eqI) (use bits in \<open>auto simp: bit_simps\<close>)
  ultimately show ?case
    using Suc.IH[of "drop_bit 1 x"] by (simp add: funpow_swap1 drop_bit_drop_bit ac_simps)
qed

lemma and_FF: "x AND 0xFF = take_bit 8 x" for x :: u32
  by (simp add: take_bit_eq_mask mask_eq_exp_minus_1)

lemma split_byte: "x = take_bit 8 x XOR push_bit 8 (drop_bit 8 x)" for x :: u32
  by (rule bit_word_eqI) (auto simp: bit_simps)

lemma crc_bits_push:
  "(crc_bit ^^ (k + n)) (push_bit k x) = (crc_bit ^^ n) (take_bit (32 - k) x)"
proof -
  have "(crc_bit ^^ k) (push_bit k x) = drop_bit k (push_bit k x)"
    by (rule crc_bits_shift) (simp add: take_bit_push_bit)
  also have "\<dots> = take_bit (32 - k) x"
    by (rule bit_word_eqI) (auto simp: bit_simps)
  finally show ?thesis by (simp add: funpow_add add.commute[of k])
qed

lemma take_bit_length [simp]: "take_bit 32 x = (x :: u32)"
  by (rule bit_word_eqI) (auto simp: bit_simps dest: bit_imp_le_length)

lemma ef_crc32_next_eq: "ef_crc32_next x = (crc_bit ^^ 8) x"
proof -
  have "(crc_bit ^^ 8) x = (crc_bit ^^ 8) (take_bit 8 x) XOR (crc_bit ^^ 8) (push_bit 8 (drop_bit 8 x))"
    by (subst split_byte) (simp only: crc_bits_xor)
  moreover have "(crc_bit ^^ 8) (push_bit 8 (drop_bit 8 x)) = drop_bit 8 x"
    using crc_bits_push[of 8 0 "drop_bit 8 x"] by (simp add: take_bit_drop_bit take_bit_length)
  ultimately show ?thesis
    by (simp add: ef_crc32_next_def ef_crc32_table_def and_FF ac_simps)
qed

text \<open>One table step of the tail loop is one reference byte.\<close>

lemma table_step:
  "drop_bit 8 crc XOR ef_crc32_table ((crc XOR ucast b) AND 0xFF) = crc_byte crc b"
proof -
  have "drop_bit 8 (crc XOR ucast b) = drop_bit 8 crc"
    by (rule bit_word_eqI) (auto simp: bit_simps dest: bit_imp_le_length)
  then show ?thesis
    using ef_crc32_next_eq[of "crc XOR ucast b"] by (simp add: ef_crc32_next_def crc_byte_def)
qed

lemma slice_eqs:
  "ef_crc32_slice0 i = (crc_bit ^^ 8) i"
  "ef_crc32_slice1 i = (crc_bit ^^ 16) i"
  "ef_crc32_slice2 i = (crc_bit ^^ 24) i"
  "ef_crc32_slice3 i = (crc_bit ^^ 32) i"
proof -
  have add: "(crc_bit ^^ 8) ((crc_bit ^^ n) x) = (crc_bit ^^ (8 + n)) x" for n x
    by (simp add: funpow_add)
  show "ef_crc32_slice0 i = (crc_bit ^^ 8) i"
    by (simp add: ef_crc32_slice0_def ef_crc32_table_def)
  then show "ef_crc32_slice1 i = (crc_bit ^^ 16) i"
    by (simp add: ef_crc32_slice1_def ef_crc32_next_eq add)
  then show "ef_crc32_slice2 i = (crc_bit ^^ 24) i"
    by (simp add: ef_crc32_slice2_def ef_crc32_next_eq add)
  then show "ef_crc32_slice3 i = (crc_bit ^^ 32) i"
    by (simp add: ef_crc32_slice3_def ef_crc32_next_eq add)
qed

text \<open>A four-byte step of the sliced loop is four reference bytes.\<close>

lemma split_word:
  "c = take_bit 8 c XOR push_bit 8 (take_bit 8 (drop_bit 8 c)) XOR
       push_bit 16 (take_bit 8 (drop_bit 16 c)) XOR push_bit 24 (take_bit 8 (drop_bit 24 c))"
  for c :: u32
  by (rule bit_word_eqI) (auto simp: bit_simps)

lemma le_word4:
  "le_word [b0, b1, b2, b3] = (ucast b0 :: u32) XOR push_bit 8 (ucast b1) XOR
     push_bit 16 (ucast b2) XOR push_bit 24 (ucast b3)"
  by (rule bit_word_eqI) (auto simp: bit_simps dest: bit_imp_le_length)

lemma take_bit_ucast8 [simp]: "8 \<le> k \<Longrightarrow> take_bit k (ucast (b :: u8) :: u32) = ucast b"
  by (rule bit_word_eqI) (auto simp: bit_simps dest: bit_imp_le_length)

lemma slice_step:
  "ef_crc32_slice0 (drop_bit 24 c AND 0xFF) XOR ef_crc32_slice1 (drop_bit 16 c AND 0xFF) XOR
   ef_crc32_slice2 (drop_bit 8 c AND 0xFF) XOR ef_crc32_slice3 (c AND 0xFF) = (crc_bit ^^ 32) c"
proof -
  have "(crc_bit ^^ 32) c =
     (crc_bit ^^ 32) (take_bit 8 c) XOR
     (crc_bit ^^ (8 + 24)) (push_bit 8 (take_bit 8 (drop_bit 8 c))) XOR
     (crc_bit ^^ (16 + 16)) (push_bit 16 (take_bit 8 (drop_bit 16 c))) XOR
     (crc_bit ^^ (24 + 8)) (push_bit 24 (take_bit 8 (drop_bit 24 c)))"
    by (subst split_word) (simp add: crc_bits_xor)
  then show ?thesis
    unfolding crc_bits_push and_FF slice_eqs by (simp add: ac_simps)
qed

lemma ref_four:
  "foldl crc_byte crc [b0, b1, b2, b3] = (crc_bit ^^ 32) (crc XOR le_word [b0, b1, b2, b3])"
proof -
  have add: "(crc_bit ^^ 8) ((crc_bit ^^ n) x) = (crc_bit ^^ (8 + n)) x" for n x
    by (simp add: funpow_add)
  have "(crc_bit ^^ 32) (crc XOR le_word [b0, b1, b2, b3]) =
     (crc_bit ^^ 32) crc XOR (crc_bit ^^ 32) (ucast b0) XOR
     (crc_bit ^^ (8 + 24)) (push_bit 8 (ucast b1)) XOR
     (crc_bit ^^ (16 + 16)) (push_bit 16 (ucast b2)) XOR
     (crc_bit ^^ (24 + 8)) (push_bit 24 (ucast b3))"
    by (simp add: le_word4 crc_bits_xor ac_simps del: le_word.simps)
  then show ?thesis
    unfolding crc_bits_push by (simp add: crc_byte_def crc_bits_xor add ac_simps del: le_word.simps)
qed

lemma slice4_bytewise: "ef_crc32_update_slice4 crc bs = crc_bytewise crc bs"
proof (induction crc bs rule: ef_crc32_update_slice4.induct)
  case (1 crc b0 b1 b2 b3 bs)
  note IH = "1"[OF refl, unfolded slice_step]
  show ?case
    using ref_four[of crc b0 b1 b2 b3]
    by (simp only: ef_crc32_update_slice4.simps Let_def slice_step IH)
       (simp add: crc_bytewise_def del: le_word.simps)
qed (simp_all add: table_step crc_bytewise_def)

lemma crc_bytewise_append: "crc_bytewise crc (xs @ ys) = crc_bytewise (crc_bytewise crc xs) ys"
  by (simp add: crc_bytewise_def)

text \<open>Evaluation of the reference by rewriting.\<close>

lemma crc_byte_eval:
  "crc_byte c b = crc_bit (crc_bit (crc_bit (crc_bit (crc_bit (crc_bit (crc_bit (crc_bit (c XOR ucast b))))))))"
  by (simp add: crc_byte_def eval_nat_numeral)

lemma foldl_replicate_numeral:
  "foldl f a (replicate (numeral n) x) = foldl f (f a x) (replicate (pred_numeral n) x)"
  by (simp add: numeral_eq_Suc)

subsection \<open>Error detection\<close>

text \<open>
  The polynomial has its top bit set, so a bit step loses no information: registers that differ
  stay different, and so do the registers after one differing byte.
\<close>

lemma xor_cancel_left: "a XOR b = a XOR c \<longleftrightarrow> b = (c :: 'a::len word)"
proof
  assume "a XOR b = a XOR c"
  then have "(a XOR a) XOR b = (a XOR a) XOR c" by (simp only: xor.assoc)
  then show "b = c" by simp
qed simp

lemma xor_cancel_right: "b XOR a = c XOR a \<longleftrightarrow> b = (c :: 'a::len word)"
  using xor_cancel_left[of a b c] by (simp only: xor.commute[of _ a])

lemma crc_bit_eq_0: "crc_bit x = 0 \<Longrightarrow> x = 0"
proof -
  assume zero: "crc_bit x = 0"
  have odd_iff: "(x AND 1 \<noteq> 0) = bit x 0"
    by (simp add: and_one_eq bit_0 odd_iff_mod_2_eq_one)
  have "\<not> bit (crc_bit x) 31" using zero by simp
  then have even: "\<not> bit x 0"
    unfolding crc_bit_def odd_iff by (auto simp: bit_simps dest: bit_imp_le_length split: if_splits)
  then have "drop_bit 1 x = 0" using zero by (simp add: crc_bit_def odd_iff split: if_splits)
  then have "\<not> bit (drop_bit 1 x) n" for n by simp
  then have "\<not> bit x (Suc n)" for n by (simp add: bit_simps)
  then have "\<not> bit x n" for n using even by (cases n) auto
  then show "x = 0" by (intro bit_word_eqI) simp
qed

lemma crc_bits_eq_0: "(crc_bit ^^ n) x = 0 \<Longrightarrow> x = 0"
  by (induction n) (auto dest: crc_bit_eq_0)

lemma crc_bits_inj: "(crc_bit ^^ n) x = (crc_bit ^^ n) y \<longleftrightarrow> x = y"
proof
  assume "(crc_bit ^^ n) x = (crc_bit ^^ n) y"
  then have "(crc_bit ^^ n) (x XOR y) = 0" by (simp add: crc_bits_xor)
  then have "x XOR y = x XOR x" by (simp add: crc_bits_eq_0)
  then show "x = y" by (simp only: xor_cancel_left)
qed simp

lemma crc_bytewise_inj: "crc_bytewise c bs = crc_bytewise c' bs \<longleftrightarrow> c = c'"
proof (induction bs arbitrary: c c')
  case Nil
  then show ?case by (simp add: crc_bytewise_def)
next
  case (Cons b bs)
  have "crc_byte c b = crc_byte c' b \<longleftrightarrow> c = c'"
    unfolding crc_byte_def crc_bits_inj by (rule xor_cancel_right)
  with Cons show ?case by (simp add: crc_bytewise_def)
qed

lemma ucast_u8_u32_inj: "(ucast b :: u32) = ucast b' \<longleftrightarrow> b = (b' :: u8)"
proof
  assume "(ucast b :: u32) = ucast b'"
  then have eq: "bit (ucast b :: u32) n = bit (ucast b' :: u32) n" for n by simp
  show "b = b'"
  proof (rule bit_word_eqI)
    fix n assume "n < LENGTH(8)"
    then show "bit b n = bit b' n" using eq[of n] by (simp add: bit_simps)
  qed
qed simp

lemma crc_byte_inj: "crc_byte c b = crc_byte c b' \<longleftrightarrow> b = b'"
  by (simp add: crc_byte_def crc_bits_inj xor_cancel_left ucast_u8_u32_inj)

lemma crc_bytewise_update:
  assumes "k < length bs" "b \<noteq> bs ! k"
  shows "crc_bytewise c (bs[k := b]) \<noteq> crc_bytewise c bs"
proof -
  have "crc_bytewise c (take k bs @ x # drop (Suc k) bs) =
      crc_bytewise (crc_byte (crc_bytewise c (take k bs)) x) (drop (Suc k) bs)" for x
    by (simp add: crc_bytewise_def)
  note split = this[of b] this[of "bs ! k"]
  show ?thesis
    using assms crc_byte_inj split by (simp add: upd_conv_take_nth_drop id_take_nth_drop[of k bs, symmetric] crc_bytewise_inj)
qed

text \<open>
  C34: the slicing-by-4 loop of \<^verbatim>\<open>ef_crc32_update_slice4\<close> computes the bit-serial CRC-32, for
  every starting register and every byte string.
\<close>

theorem slice4_is_crc32: "ef_crc32_update_slice4 crc bs = crc_bytewise crc bs"
  by (rule slice4_bytewise)

end
