(* ===== verification/Core.thy ===== *)
theory Core
  imports Sb_Layout Crc
begin

text \<open>
  The database handle of \<^verbatim>\<open>endfields.h\<close> and the primitives of \<^verbatim>\<open>endfields.c\<close> that every
  other part is built from: error accounting, the superblock checksum and its deferred commit,
  the slot header checksum, the translation between slot ids and file offsets, checked slot
  access and pointer chasing.

  A handle is a record that carries the mapping itself. A C pointer into the mapping is the
  offset of its target, a \<^verbatim>\<open>struct ef_slot *\<close> result is \<open>None\<close> for \<^verbatim>\<open>NULL\<close>. The field
  \<open>mapped\<close> says that \<^verbatim>\<open>mmap_addr\<close>, \<^verbatim>\<open>sb\<close> and \<^verbatim>\<open>slots\<close> are not \<^verbatim>\<open>NULL\<close> (the code sets
  and clears the three together). \<open>live\<close> is a ghost field: it is cleared when the region at
  \<^verbatim>\<open>mmap_addr\<close> has been unmapped while the handle still points to it, after which any access
  through the handle is undefined in C.

  What the operating system answers is a parameter, the record \<open>ef_env\<close>: whether each of the
  calls the code makes succeeds.
\<close>

datatype ef_backend = EF_BACKEND_NONE | EF_BACKEND_FILE | EF_BACKEND_MEMORY

record ef_db =
  mem :: mem
  mapped :: bool
  live :: bool
  file_size :: u64
  map_capacity :: u64
  last_err :: ef_err
  backend :: ef_backend
  slots_base :: u64
  hash_capacity :: u32
  hash_entry_count :: u32
  hash_index :: "nat option"
  readonly :: bool
  sb_meta_dirty :: bool
  index_seq :: u32
  txn_state :: u8
  txn_active :: bool
  txn_writer_pid :: u32
  undo_log_base :: u64
  undo_log_slots :: u32
  undo_tail :: u64
  undo_record_count :: u32

record ef_env =
  env_open :: bool
  env_fstat :: bool
  env_ftruncate :: "u64 \<Rightarrow> bool"
  env_mmap :: "u64 \<Rightarrow> bool"
  env_msync :: bool
  env_malloc :: "u64 \<Rightarrow> bool"
  env_calloc :: bool

abbreviation sb :: "ef_db \<Rightarrow> ef_superblock" where
  "sb db \<equiv> sb_of (mem db)"

abbreviation upd_mem :: "(mem \<Rightarrow> mem) \<Rightarrow> ef_db \<Rightarrow> ef_db" where
  "upd_mem f db \<equiv> db\<lparr>mem := f (mem db)\<rparr>"

text \<open>\<^verbatim>\<open>db->slots + i\<close>, and the slot stored there.\<close>

abbreviation db_slot_ptr :: "ef_db \<Rightarrow> u64 \<Rightarrow> nat" where
  "db_slot_ptr db i \<equiv> slot_ptr (unat (slots_base db)) (unat i)"

abbreviation db_slot :: "ef_db \<Rightarrow> u64 \<Rightarrow> ef_slot" where
  "db_slot db i \<equiv> slot_at (mem db) (db_slot_ptr db i)"

definition ef_set_error :: "ef_db \<Rightarrow> ef_err \<Rightarrow> ef_db" where
  "ef_set_error db err = db\<lparr>last_err := err\<rparr>"

subsection \<open>Free count\<close>

definition ef_sb_free_count_load :: "mem \<Rightarrow> u32" where
  "ef_sb_free_count_load m = free_count (sb_of m)"

definition ef_sb_free_count_store :: "mem \<Rightarrow> u32 \<Rightarrow> mem" where
  "ef_sb_free_count_store m v = set_free_count m v"

definition ef_sb_free_count_inc :: "mem \<Rightarrow> mem" where
  "ef_sb_free_count_inc m = set_free_count m (free_count (sb_of m) + 1)"

definition ef_sb_free_count_dec :: "mem \<Rightarrow> mem" where
  "ef_sb_free_count_dec m = set_free_count m (free_count (sb_of m) - 1)"

subsection \<open>Superblock checksum\<close>

text \<open>The checksum covers the superblock with its own four bytes read as zero.\<close>

definition ef_sb_checksum_compute :: "mem \<Rightarrow> u32" where
  "ef_sb_checksum_compute m =
     (let crc = ef_crc32_update_slice4 0xFFFFFFFF (load_bytes m 0 36);
          crc = ef_crc32_update_slice4 crc [0, 0, 0, 0];
          crc = ef_crc32_update_slice4 crc (load_bytes m 40 24)
      in crc XOR 0xFFFFFFFF)"

definition ef_sb_checksum_store :: "mem \<Rightarrow> mem" where
  "ef_sb_checksum_store m =
     (if flags (sb_of m) AND EF_FLAG_SB_CRC \<noteq> 0
      then set_sb_checksum m (ef_sb_checksum_compute m)
      else set_sb_checksum m 0)"

definition ef_sb_checksum_valid :: "mem \<Rightarrow> bool" where
  "ef_sb_checksum_valid m =
     (if flags (sb_of m) AND EF_FLAG_SB_CRC = 0 then True
      else if sb_checksum (sb_of m) = 0 then False
      else sb_checksum (sb_of m) = ef_sb_checksum_compute m)"

definition ef_db_mark_meta_dirty :: "ef_db \<Rightarrow> ef_db" where
  "ef_db_mark_meta_dirty db =
     (if \<not> mapped db \<or> readonly db then db
      else if flags (sb db) AND EF_FLAG_SB_CRC \<noteq> 0 then db\<lparr>sb_meta_dirty := True\<rparr>
      else db)"

definition ef_db_commit_meta :: "ef_db \<Rightarrow> ef_err \<times> ef_db" where
  "ef_db_commit_meta db =
     (if \<not> mapped db \<or> readonly db then (EF_OK, ef_set_error db EF_OK)
      else let db = (if sb_meta_dirty db
                     then (upd_mem ef_sb_checksum_store db)\<lparr>sb_meta_dirty := False\<rparr>
                     else db)
           in (EF_OK, ef_set_error db EF_OK))"

definition ef_db_require_write :: "ef_db \<Rightarrow> ef_err \<times> ef_db" where
  "ef_db_require_write db =
     (if readonly db then (EF_ERR_READONLY, ef_set_error db EF_ERR_READONLY) else (EF_OK, db))"

subsection \<open>Slot header checksum\<close>

definition ef_slot_status_uses_link_crc :: "u32 \<Rightarrow> bool" where
  "ef_slot_status_uses_link_crc st \<longleftrightarrow>
     st = EF_STATUS_QUEUED \<or> st = EF_STATUS_QUEUE_DUMMY \<or>
     st = EF_STATUS_QUEUE_LINK \<or> st = EF_STATUS_QUEUE_DEQ"

definition ef_slot_status_has_crc :: "u32 \<Rightarrow> bool" where
  "ef_slot_status_has_crc st \<longleftrightarrow>
     st = EF_STATUS_USED \<or> st = EF_STATUS_OVERFLOW \<or>
     st = EF_STATUS_QUEUED \<or> st = EF_STATUS_QUEUE_DUMMY \<or>
     st = EF_STATUS_QUEUE_LINK \<or> st = EF_STATUS_QUEUE_DEQ"

definition ef_slot_header_crc_compute_full :: "u64 \<Rightarrow> ef_slot \<Rightarrow> u32" where
  "ef_slot_header_crc_compute_full slot_id slot =
     (let crc = ef_crc32_update_slice4 0xFFFFFFFF (le_bytes 8 slot_id);
          crc = ef_crc32_update_slice4 crc (le_bytes 4 (status slot));
          crc = ef_crc32_update_slice4 crc (payload slot);
          crc = ef_crc32_update_slice4 crc (le_bytes 8 (next_offset slot))
      in crc XOR 0xFFFFFFFF)"

definition ef_slot_header_crc_compute_link :: "u64 \<Rightarrow> ef_slot \<Rightarrow> u32" where
  "ef_slot_header_crc_compute_link slot_id slot =
     (let crc = ef_crc32_update_slice4 0xFFFFFFFF (le_bytes 8 slot_id);
          crc = ef_crc32_update_slice4 crc (le_bytes 4 (status slot));
          crc = ef_crc32_update_slice4 crc (le_bytes 8 (next_offset slot))
      in crc XOR 0xFFFFFFFF)"

definition ef_slot_header_crc_compute :: "u64 \<Rightarrow> ef_slot \<Rightarrow> u32" where
  "ef_slot_header_crc_compute slot_id slot =
     (if ef_slot_status_uses_link_crc (status slot)
      then ef_slot_header_crc_compute_link slot_id slot
      else ef_slot_header_crc_compute_full slot_id slot)"

text \<open>\<open>p\<close> is the slot pointer the C function receives.\<close>

definition ef_slot_header_crc_store :: "ef_db \<Rightarrow> u64 \<Rightarrow> nat \<Rightarrow> ef_db" where
  "ef_slot_header_crc_store db slot_id p =
     (if flags (sb db) AND EF_FLAG_SLOT_CRC = 0 then db
      else upd_mem (\<lambda>m. set_header_crc m p (ef_slot_header_crc_compute slot_id (slot_at m p))) db)"

definition ef_slot_header_crc_valid :: "ef_db \<Rightarrow> u64 \<Rightarrow> ef_slot \<Rightarrow> bool" where
  "ef_slot_header_crc_valid db slot_id slot =
     (if flags (sb db) AND EF_FLAG_SLOT_CRC = 0 then True
      else if \<not> ef_slot_status_has_crc (status slot) then True
      else if header_crc slot = 0 then False
      else if header_crc slot = ef_slot_header_crc_compute slot_id slot then True
      else ef_slot_status_uses_link_crc (status slot) \<and>
           header_crc slot = ef_slot_header_crc_compute_full slot_id slot)"

definition refresh_slot_crc :: "nat \<Rightarrow> ef_db \<Rightarrow> ef_db" where
  "refresh_slot_crc i db =
     (if ef_slot_status_has_crc (status (db_slot db (of_nat i)))
      then ef_slot_header_crc_store db (of_nat i) (db_slot_ptr db (of_nat i)) else db)"

definition ef_db_refresh_slot_crcs :: "ef_db \<Rightarrow> ef_db" where
  "ef_db_refresh_slot_crcs db =
     (if \<not> mapped db then db
      else if flags (sb db) AND EF_FLAG_SLOT_CRC = 0 then db
      else fold refresh_slot_crc [0..<unat (max_slots (sb db))] db)"

definition ef_db_refresh_checksums :: "ef_db \<Rightarrow> ef_db" where
  "ef_db_refresh_checksums db =
     (if \<not> mapped db then db
      else let db = (if flags (sb db) AND EF_FLAG_SLOT_CRC \<noteq> 0
                     then fold refresh_slot_crc [0..<unat (max_slots (sb db))] db else db)
           in upd_mem ef_sb_checksum_store db)"

subsection \<open>Layout\<close>

definition ef_hash_capacity_from_sb :: "mem \<Rightarrow> u32" where
  "ef_hash_capacity_from_sb m =
     (if schema_version (sb_of m) < EF_SCHEMA_VERSION_V3 then 0 else ef_sb_hash_capacity_load m)"

definition ef_hash_capacity_valid :: "u32 \<Rightarrow> bool" where
  "ef_hash_capacity_valid cap =
     (if cap = 0 then True else if 0xFFFF < cap then False else cap AND (cap - 1) = 0)"

definition ef_magic_valid :: "mem \<Rightarrow> bool" where
  "ef_magic_valid m \<longleftrightarrow> magic (sb_of m) = [69, 78, 68, 70]"

text \<open>The size of a database file, in the 64-bit arithmetic of the C expression.\<close>

definition ef_expected_file_size :: "u64 \<Rightarrow> u32 \<Rightarrow> u32 \<Rightarrow> u64" where
  "ef_expected_file_size n_slots cap log_slots =
     64 + ucast cap * 16 + n_slots * 64 + 32 + ucast log_slots * 32"

definition ef_db_bind_slots_layout :: "ef_db \<Rightarrow> ef_db" where
  "ef_db_bind_slots_layout db =
     (if \<not> mapped db then db
      else let cap = ef_hash_capacity_from_sb (mem db);
               db = db\<lparr>hash_capacity := cap\<rparr>;
               db = (if 0 < cap
                     then db\<lparr>hash_index := Some 64, slots_base := 64 + ucast cap * 16\<rparr>
                     else db\<lparr>hash_index := None, slots_base := 64\<rparr>);
               slots_end = slots_base db + max_slots (sb db) * 64
           in db\<lparr>undo_log_base := slots_end,
                  undo_log_slots := of_nat EF_UNDO_LOG_DEFAULT_SLOTS\<rparr>)"

definition ef_payload_capacity :: "ef_db \<Rightarrow> nat" where
  "ef_payload_capacity db =
     (if \<not> mapped db then EF_PAYLOAD_SIZE
      else if schema_version (sb db) = 0 \<or> schema_version (sb db) = EF_SCHEMA_LEGACY
      then EF_PAYLOAD_SIZE_LEGACY
      else EF_PAYLOAD_SIZE)"

definition ef_slot_payload_ptr :: "ef_db \<Rightarrow> nat \<Rightarrow> nat" where
  "ef_slot_payload_ptr db p =
     (if schema_version (sb db) = 0 \<or> schema_version (sb db) = EF_SCHEMA_LEGACY
      then p + 4 else p + 8)"

subsection \<open>Offsets and slot ids\<close>

text \<open>\<^verbatim>\<open>ef_slot_at_offset\<close> returns the slot pointer and its id; here the id stands for both.\<close>

definition ef_slot_at_offset :: "ef_db \<Rightarrow> u64 \<Rightarrow> u64 option" where
  "ef_slot_at_offset db offset =
     (if \<not> mapped db then None
      else if offset < slots_base db \<or> file_size db \<le> offset then None
      else let rel = offset - slots_base db in
        if rel AND 63 \<noteq> 0 then None
        else let slot_id = drop_bit 6 rel in
          if max_slots (sb db) \<le> slot_id then None else Some slot_id)"

definition ef_slot_to_offset :: "ef_db \<Rightarrow> u64 \<Rightarrow> u64" where
  "ef_slot_to_offset db slot_id =
     (if \<not> mapped db then 0
      else if max_slots (sb db) \<le> slot_id then 0
      else slots_base db + push_bit 6 slot_id)"

definition ef_offset_to_slot_id :: "ef_db \<Rightarrow> u64 \<Rightarrow> ef_err + u64" where
  "ef_offset_to_slot_id db offset =
     (if \<not> mapped db then Inl EF_ERR_NULL_ARG
      else if offset < slots_base db then Inl EF_ERR_OFFSET
      else let rel = offset - slots_base db in
        if rel AND 63 \<noteq> 0 then Inl EF_ERR_OFFSET
        else let slot_id = drop_bit 6 rel in
          if max_slots (sb db) \<le> slot_id then Inl EF_ERR_SLOT_ID else Inr slot_id)"

definition ef_slot_verify_used :: "ef_db \<Rightarrow> u64 \<Rightarrow> ef_slot \<Rightarrow> ef_err \<times> ef_db" where
  "ef_slot_verify_used db slot_id slot =
     (if \<not> ef_slot_header_crc_valid db slot_id slot
      then (EF_ERR_BAD_CHECKSUM, ef_set_error db EF_ERR_BAD_CHECKSUM) else (EF_OK, db))"

definition ef_peek_slot :: "ef_db \<Rightarrow> u64 \<Rightarrow> nat option \<times> ef_db" where
  "ef_peek_slot db slot_id =
     (if \<not> mapped db then (None, ef_set_error db EF_ERR_NULL_ARG)
      else if max_slots (sb db) \<le> slot_id then (None, ef_set_error db EF_ERR_SLOT_ID)
      else (Some (db_slot_ptr db slot_id), ef_set_error db EF_OK))"

definition ef_get_slot :: "ef_db \<Rightarrow> u64 \<Rightarrow> nat option \<times> ef_db" where
  "ef_get_slot db slot_id =
     (case ef_peek_slot db slot_id of
        (None, db) \<Rightarrow> (None, db)
      | (Some p, db) \<Rightarrow>
          if ef_slot_status_has_crc (status (slot_at (mem db) p))
          then (case ef_slot_verify_used db slot_id (slot_at (mem db) p) of
                  (err, db) \<Rightarrow> if err \<noteq> EF_OK then (None, db) else (Some p, db))
          else (Some p, db))"

definition ef_offset_to_ptr :: "ef_db \<Rightarrow> u64 \<Rightarrow> nat option \<times> ef_db" where
  "ef_offset_to_ptr db offset =
     (if \<not> mapped db then (None, ef_set_error db EF_ERR_NULL_ARG)
      else if offset = 0 \<or> file_size db \<le> offset then (None, ef_set_error db EF_ERR_OFFSET)
      else (Some (unat offset), ef_set_error db EF_OK))"

definition ef_get_field_ptr :: "nat option \<Rightarrow> u8 \<Rightarrow> nat option" where
  "ef_get_field_ptr slot field_offset =
     (case slot of None \<Rightarrow> None
      | Some p \<Rightarrow> if 64 \<le> unat field_offset then None else Some (p + unat field_offset))"

subsection \<open>Well-formed layout\<close>

text \<open>
  What every handle made by \<^verbatim>\<open>ef_open_*\<close> satisfies: the slot area starts right after the hash
  table and lies inside the mapped file.
\<close>

definition layout_ok :: "bool \<Rightarrow> u32 \<Rightarrow> nat option \<Rightarrow> u64 \<Rightarrow> u64 \<Rightarrow> u64 \<Rightarrow> bool" where
  "layout_ok is_mapped cap index base fsize n_slots \<longleftrightarrow>
     is_mapped \<and> cap \<le> 0xFFFF \<and> index = (if cap = 0 then None else Some 64) \<and>
     base = 64 + ucast cap * 16 \<and> slot_ptr (unat base) (unat n_slots) \<le> unat fsize"

definition wf_layout :: "ef_db \<Rightarrow> bool" where
  "wf_layout db \<longleftrightarrow>
     layout_ok (mapped db) (hash_capacity db) (hash_index db) (slots_base db) (file_size db)
       (max_slots (sb db))"

lemma wf_layout_base:
  assumes "wf_layout db"
  shows "unat (slots_base db) = 64 + 16 * unat (hash_capacity db)"
proof -
  have cap: "unat (hash_capacity db) \<le> 0xFFFF"
    using assms by (simp add: wf_layout_def layout_ok_def word_le_nat_alt)
  then have "unat (ucast (hash_capacity db) * 16 :: u64) = 16 * unat (hash_capacity db)"
    by (simp add: unat_word_ariths unsigned_ucast_eq take_bit_nat_eq_self)
  with cap show ?thesis
    using assms by (simp add: wf_layout_def layout_ok_def unat_word_ariths)
qed

lemma wf_layout_mapped [simp]: "wf_layout db \<Longrightarrow> mapped db"
  by (simp add: wf_layout_def layout_ok_def)

lemma wf_layout_end:
  "wf_layout db \<Longrightarrow> slot_ptr (unat (slots_base db)) (unat (max_slots (sb db))) \<le> unat (file_size db)"
  unfolding wf_layout_def layout_ok_def by blast

lemma wf_layout_base_ge [simp]: "wf_layout db \<Longrightarrow> 64 \<le> unat (slots_base db)"
  by (simp add: wf_layout_base)

lemma wf_layout_last_err [simp]:
  "wf_layout (db\<lparr>last_err := e\<rparr>) = wf_layout db"
  "wf_layout (db\<lparr>sb_meta_dirty := d\<rparr>) = wf_layout db"
  "wf_layout (db\<lparr>index_seq := q\<rparr>) = wf_layout db"
  "wf_layout (db\<lparr>hash_entry_count := c\<rparr>) = wf_layout db"
  by (simp_all add: wf_layout_def)

lemma wf_layout_mem:
  "max_slots (sb_of m) = max_slots (sb db) \<Longrightarrow> wf_layout (db\<lparr>mem := m\<rparr>) = wf_layout db"
  by (simp add: wf_layout_def)

lemma slot_ptr_bound:
  assumes "wf_layout db" "i < max_slots (sb db)"
  shows "db_slot_ptr db i + 64 \<le> unat (file_size db)"
proof -
  have "unat i < unat (max_slots (sb db))" using assms(2) by (simp add: word_less_nat_alt)
  from slot_ptr_less[OF this, of "unat (slots_base db)"] wf_layout_end[OF assms(1)]
  show ?thesis by (rule le_trans)
qed

lemma unat_slot_offset:
  assumes "wf_layout db" "i < max_slots (sb db)"
  shows "unat (ef_slot_to_offset db i) = db_slot_ptr db i"
proof -
  let ?b = "unat (slots_base db)"
  have "db_slot_ptr db i + 64 \<le> unat (file_size db)" by (rule slot_ptr_bound[OF assms])
  also have "\<dots> < 2 ^ 64" by (rule unat_u64_bound)
  finally have bound: "?b + 64 * unat i < 2 ^ 64" by (simp add: slot_ptr_def EF_SLOT_SIZE_def)
  then have "unat (push_bit 6 i) = 64 * unat i"
    by (simp add: push_bit_eq_mult unat_word_ariths)
  with bound show ?thesis
    using assms leD by (auto simp: ef_slot_to_offset_def unat_word_ariths slot_ptr_def EF_SLOT_SIZE_def)
qed

lemma slot_offset_neq_0:
  assumes "wf_layout db" "i < max_slots (sb db)"
  shows "ef_slot_to_offset db i \<noteq> 0"
proof
  assume "ef_slot_to_offset db i = 0"
  then have "db_slot_ptr db i = 0" using unat_slot_offset[OF assms] by simp
  moreover have "64 \<le> db_slot_ptr db i" using assms(1) slot_ptr_ge le_trans wf_layout_base_ge by blast
  ultimately show False by simp
qed

lemma and_63: "x AND 63 = take_bit 6 x" for x :: u64
  by (simp add: take_bit_eq_mask mask_eq_exp_minus_1)

lemma slot_offset_rel:
  assumes "wf_layout db" "i < max_slots (sb db)"
  shows "slots_base db \<le> ef_slot_to_offset db i" "ef_slot_to_offset db i < file_size db"
    "(ef_slot_to_offset db i - slots_base db) AND 63 = 0"
    "drop_bit 6 (ef_slot_to_offset db i - slots_base db) = i"
proof -
  note off = unat_slot_offset[OF assms]
  show "slots_base db \<le> ef_slot_to_offset db i"
    by (simp add: word_le_nat_alt off)
  show "ef_slot_to_offset db i < file_size db"
    using slot_ptr_bound[OF assms] by (simp add: word_less_nat_alt off)
  have eq: "ef_slot_to_offset db i - slots_base db = push_bit 6 i"
    using assms leD by (auto simp: ef_slot_to_offset_def)
  show "(ef_slot_to_offset db i - slots_base db) AND 63 = 0"
    by (simp add: eq and_63 take_bit_push_bit)
  have "unat (push_bit 6 i) = 64 * unat i"
  proof -
    have "64 * unat i < 2 ^ 64"
      using slot_ptr_bound[OF assms] unat_u64_bound[of "file_size db"]
      by (simp add: slot_ptr_def EF_SLOT_SIZE_def)
    then show ?thesis by (simp add: push_bit_eq_mult unat_word_ariths)
  qed
  then have "unat (drop_bit 6 (push_bit 6 i)) = unat i"
    by (simp add: drop_bit_eq_div unat_div)
  then show "drop_bit 6 (ef_slot_to_offset db i - slots_base db) = i"
    by (simp only: eq word_unat_eq_iff)
qed

lemma offset_to_slot_id_roundtrip:
  assumes "wf_layout db" "i < max_slots (sb db)"
  shows "ef_offset_to_slot_id db (ef_slot_to_offset db i) = Inr i"
  using slot_offset_rel[OF assms] assms leD
  by (auto simp: ef_offset_to_slot_id_def Let_def)

lemma slot_at_offset_roundtrip:
  assumes "wf_layout db" "i < max_slots (sb db)"
  shows "ef_slot_at_offset db (ef_slot_to_offset db i) = Some i"
  using slot_offset_rel[OF assms] assms leD
  by (auto simp: ef_slot_at_offset_def Let_def)

lemma offset_decompose:
  assumes "b \<le> x" "(x - b) AND 63 = (0 :: u64)"
  shows "b + push_bit 6 (drop_bit 6 (x - b)) = x"
proof -
  have "push_bit 6 (drop_bit 6 (x - b)) = x - b"
  proof (rule bit_word_eqI)
    fix n assume "n < LENGTH(64)"
    have "\<not> bit (x - b) n" if "n < 6"
    proof
      assume "bit (x - b) n"
      with that have "bit ((x - b) AND 63) n" by (simp add: and_63 bit_simps)
      with assms(2) show False by simp
    qed
    then show "bit (push_bit 6 (drop_bit 6 (x - b))) n = bit (x - b) n"
      using \<open>n < LENGTH(64)\<close> by (cases "n < 6") (auto simp: bit_simps)
  qed
  then show ?thesis by simp
qed

lemma offset_to_slot_id_sound:
  assumes "ef_offset_to_slot_id db off = Inr i"
  shows "i < max_slots (sb db) \<and> ef_slot_to_offset db i = off"
  using assms offset_decompose[of "slots_base db" off]
  by (auto simp: ef_offset_to_slot_id_def ef_slot_to_offset_def Let_def not_le not_less split: if_splits)

lemma slot_at_offset_sound:
  assumes "ef_slot_at_offset db off = Some i"
  shows "i < max_slots (sb db) \<and> ef_slot_to_offset db i = off"
  using assms offset_decompose[of "slots_base db" off]
  by (auto simp: ef_slot_at_offset_def ef_slot_to_offset_def Let_def not_le not_less split: if_splits)

lemma slot_at_offset_zero [simp]: "wf_layout db \<Longrightarrow> ef_slot_at_offset db 0 = None"
proof -
  assume "wf_layout db"
  then have "0 < slots_base db" using wf_layout_base[of db] by (simp add: word_less_nat_alt)
  then show ?thesis by (simp add: ef_slot_at_offset_def)
qed

lemma slot_to_offset_inj:
  assumes "wf_layout db" "i < max_slots (sb db)" "j < max_slots (sb db)"
  shows "ef_slot_to_offset db i = ef_slot_to_offset db j \<longleftrightarrow> i = j"
  by (metis assms offset_to_slot_id_roundtrip sum.inject(2))

text \<open>The translations depend on the layout fields and the slot count only.\<close>

lemma offset_cong:
  assumes "mapped db' = mapped db" "slots_base db' = slots_base db" "file_size db' = file_size db"
    "max_slots (sb db') = max_slots (sb db)"
  shows "ef_slot_to_offset db' = ef_slot_to_offset db" "ef_offset_to_slot_id db' = ef_offset_to_slot_id db"
    "ef_slot_at_offset db' = ef_slot_at_offset db"
  by (rule ext, simp only: ef_slot_to_offset_def ef_offset_to_slot_id_def ef_slot_at_offset_def assms)+


subsection \<open>What the handle updates leave alone\<close>

lemma set_error_fields [simp]:
  "mem (ef_set_error db e) = mem db"
  "mapped (ef_set_error db e) = mapped db"
  "live (ef_set_error db e) = live db"
  "file_size (ef_set_error db e) = file_size db"
  "map_capacity (ef_set_error db e) = map_capacity db"
  "backend (ef_set_error db e) = backend db"
  "slots_base (ef_set_error db e) = slots_base db"
  "hash_capacity (ef_set_error db e) = hash_capacity db"
  "hash_entry_count (ef_set_error db e) = hash_entry_count db"
  "hash_index (ef_set_error db e) = hash_index db"
  "readonly (ef_set_error db e) = readonly db"
  "sb_meta_dirty (ef_set_error db e) = sb_meta_dirty db"
  "index_seq (ef_set_error db e) = index_seq db"
  "txn_state (ef_set_error db e) = txn_state db"
  "txn_active (ef_set_error db e) = txn_active db"
  "txn_writer_pid (ef_set_error db e) = txn_writer_pid db"
  "undo_log_base (ef_set_error db e) = undo_log_base db"
  "undo_log_slots (ef_set_error db e) = undo_log_slots db"
  "undo_tail (ef_set_error db e) = undo_tail db"
  "undo_record_count (ef_set_error db e) = undo_record_count db"
  by (simp_all add: ef_set_error_def)

lemma set_error_last [simp]: "last_err (ef_set_error db e) = e"
  by (simp add: ef_set_error_def)

lemma mark_dirty_fields [simp]:
  "mem (ef_db_mark_meta_dirty db) = mem db"
  "mapped (ef_db_mark_meta_dirty db) = mapped db"
  "live (ef_db_mark_meta_dirty db) = live db"
  "file_size (ef_db_mark_meta_dirty db) = file_size db"
  "map_capacity (ef_db_mark_meta_dirty db) = map_capacity db"
  "last_err (ef_db_mark_meta_dirty db) = last_err db"
  "backend (ef_db_mark_meta_dirty db) = backend db"
  "slots_base (ef_db_mark_meta_dirty db) = slots_base db"
  "hash_capacity (ef_db_mark_meta_dirty db) = hash_capacity db"
  "hash_entry_count (ef_db_mark_meta_dirty db) = hash_entry_count db"
  "hash_index (ef_db_mark_meta_dirty db) = hash_index db"
  "readonly (ef_db_mark_meta_dirty db) = readonly db"
  "index_seq (ef_db_mark_meta_dirty db) = index_seq db"
  "txn_state (ef_db_mark_meta_dirty db) = txn_state db"
  "txn_active (ef_db_mark_meta_dirty db) = txn_active db"
  "txn_writer_pid (ef_db_mark_meta_dirty db) = txn_writer_pid db"
  "undo_log_base (ef_db_mark_meta_dirty db) = undo_log_base db"
  "undo_log_slots (ef_db_mark_meta_dirty db) = undo_log_slots db"
  "undo_tail (ef_db_mark_meta_dirty db) = undo_tail db"
  "undo_record_count (ef_db_mark_meta_dirty db) = undo_record_count db"
  by (simp_all add: ef_db_mark_meta_dirty_def)

lemma mark_dirty_keeps [simp]: "sb_meta_dirty db \<Longrightarrow> sb_meta_dirty (ef_db_mark_meta_dirty db)"
  by (simp add: ef_db_mark_meta_dirty_def)

lemma crc_store_fields [simp]:
  "mapped (ef_slot_header_crc_store db i p) = mapped db"
  "live (ef_slot_header_crc_store db i p) = live db"
  "file_size (ef_slot_header_crc_store db i p) = file_size db"
  "map_capacity (ef_slot_header_crc_store db i p) = map_capacity db"
  "last_err (ef_slot_header_crc_store db i p) = last_err db"
  "backend (ef_slot_header_crc_store db i p) = backend db"
  "slots_base (ef_slot_header_crc_store db i p) = slots_base db"
  "hash_capacity (ef_slot_header_crc_store db i p) = hash_capacity db"
  "hash_entry_count (ef_slot_header_crc_store db i p) = hash_entry_count db"
  "hash_index (ef_slot_header_crc_store db i p) = hash_index db"
  "readonly (ef_slot_header_crc_store db i p) = readonly db"
  "sb_meta_dirty (ef_slot_header_crc_store db i p) = sb_meta_dirty db"
  "index_seq (ef_slot_header_crc_store db i p) = index_seq db"
  "txn_state (ef_slot_header_crc_store db i p) = txn_state db"
  "txn_active (ef_slot_header_crc_store db i p) = txn_active db"
  "txn_writer_pid (ef_slot_header_crc_store db i p) = txn_writer_pid db"
  "undo_log_base (ef_slot_header_crc_store db i p) = undo_log_base db"
  "undo_log_slots (ef_slot_header_crc_store db i p) = undo_log_slots db"
  "undo_tail (ef_slot_header_crc_store db i p) = undo_tail db"
  "undo_record_count (ef_slot_header_crc_store db i p) = undo_record_count db"
  by (simp_all add: ef_slot_header_crc_store_def)

lemma mem_crc_store:
  "mem (ef_slot_header_crc_store db i p) =
     (if flags (sb db) AND EF_FLAG_SLOT_CRC = 0 then mem db
      else set_header_crc (mem db) p (ef_slot_header_crc_compute i (slot_at (mem db) p)))"
  by (simp add: ef_slot_header_crc_store_def)

lemma sb_crc_store [simp]: "64 \<le> p \<Longrightarrow> sb_of (mem (ef_slot_header_crc_store db i p)) = sb_of (mem db)"
  by (simp add: mem_crc_store)

lemma slot_crc_store [simp]:
  "status (slot_at (mem (ef_slot_header_crc_store db i (slot_ptr b j))) (slot_ptr b k)) =
   status (slot_at (mem db) (slot_ptr b k))"
  "payload (slot_at (mem (ef_slot_header_crc_store db i (slot_ptr b j))) (slot_ptr b k)) =
   payload (slot_at (mem db) (slot_ptr b k))"
  "next_offset (slot_at (mem (ef_slot_header_crc_store db i (slot_ptr b j))) (slot_ptr b k)) =
   next_offset (slot_at (mem db) (slot_ptr b k))"
  by (simp_all add: mem_crc_store)

text \<open>The slot header checksum does not depend on the stored checksum, so a store makes it match.\<close>

lemma crc_compute_header [simp]:
  "ef_slot_header_crc_compute i (s\<lparr>header_crc := c\<rparr>) = ef_slot_header_crc_compute i s"
  by (simp add: ef_slot_header_crc_compute_def ef_slot_header_crc_compute_full_def
      ef_slot_header_crc_compute_link_def)

lemma crc_store_header:
  "flags (sb db) AND EF_FLAG_SLOT_CRC \<noteq> 0 \<Longrightarrow>
   header_crc (slot_at (mem (ef_slot_header_crc_store db i p)) p) =
   ef_slot_header_crc_compute i (slot_at (mem (ef_slot_header_crc_store db i p)) p)"
  by (simp add: mem_crc_store)

end
