(* ===== verification/Hash_Table.thy ===== *)
theory Hash_Table
  imports Core
begin

text \<open>
  The Robin Hood table of \<^verbatim>\<open>ef_index.c\<close> below its locks: probing, insertion with
  displacement, lookup and backward-shift deletion, on the entries stored at pointer \<open>h\<close>
  (\<^verbatim>\<open>db->hash_index\<close>) with capacity \<open>cap\<close>.
\<close>

definition ef_hash_entry_empty :: "ef_hash_entry \<Rightarrow> bool" where
  "ef_hash_entry_empty e \<longleftrightarrow> slot_offset e = 0"

definition ef_hash_home :: "u32 \<Rightarrow> u64 \<Rightarrow> nat" where
  "ef_hash_home cap kh = unat (kh AND ucast (cap - 1))"

definition ef_hash_probe_dist :: "u32 \<Rightarrow> nat \<Rightarrow> nat \<Rightarrow> nat" where
  "ef_hash_probe_dist cap home pos = (pos + unat cap - home) mod unat cap"

definition fnv_step :: "u64 \<Rightarrow> u8 \<Rightarrow> u64" where
  "fnv_step hash c = (hash XOR ucast c) * 1099511628211"

definition ef_key_hash :: "u8 list \<Rightarrow> u64" where
  "ef_key_hash key =
     (let hash = foldl fnv_step 14695981039346656037 key in if hash = 0 then 1 else hash)"

subsection \<open>Insertion\<close>

text \<open>
  The loop of \<^verbatim>\<open>ef_index_put_entry\<close>. \<open>i\<close> is the C loop variable, which keeps counting past the
  end of the table; \<open>home\<close> and \<open>inc\<close> change when an entry is displaced, while the comparison
  stays with the key being inserted.
\<close>

function put_loop ::
  "nat \<Rightarrow> u32 \<Rightarrow> u64 \<Rightarrow> u64 \<Rightarrow> nat \<Rightarrow> nat \<Rightarrow> ef_hash_entry \<Rightarrow> mem \<Rightarrow> ef_err \<times> bool \<times> mem"
where
  "put_loop h cap kh off i home inc m =
     (if i < home + unat cap then
        let pos = i mod unat cap; cur = entry_at m h pos in
        if ef_hash_entry_empty cur then
          (EF_OK, True, set_entry m h pos (key_hash inc) (slot_offset inc))
        else if key_hash cur = kh then
          (EF_OK, False, set_entry m h pos kh off)
        else if ef_hash_probe_dist cap (ef_hash_home cap (key_hash cur)) pos
                < ef_hash_probe_dist cap home pos then
          put_loop h cap kh off (Suc i) (ef_hash_home cap (key_hash cur)) cur
            (set_entry m h pos (key_hash inc) (slot_offset inc))
        else put_loop h cap kh off (Suc i) home inc m
      else (EF_ERR_INDEX_FULL, False, m))"
  by pat_completeness auto
termination
proof (relation "measure (\<lambda>(h, cap, kh, off, i, home, inc, m). max home (2 ^ 64) + unat cap - i)",
    goal_cases)
  case 1
  then show ?case by simp
next
  case (2 h cap kh off i home inc m pos cur)
  have "ef_hash_home cap (key_hash cur) < 2 ^ 64"
    unfolding ef_hash_home_def by (rule unat_u64_bound)
  with 2 show ?case by simp
next
  case 3
  then show ?case by simp
qed

declare put_loop.simps [simp del]

text \<open>\<^verbatim>\<open>ef_index_put_entry\<close>; the flag is \<^verbatim>\<open>*added_out\<close>.\<close>

definition ef_index_put_entry :: "ef_db \<Rightarrow> u64 \<Rightarrow> u64 \<Rightarrow> ef_err \<times> bool \<times> ef_db" where
  "ef_index_put_entry db kh off =
     (case hash_index db of
        None \<Rightarrow> (EF_ERR_NULL_ARG, False, db)
      | Some h \<Rightarrow>
          let cap = hash_capacity db in
          if cap = 0 then (EF_ERR_NULL_ARG, False, db)
          else if cap AND (cap - 1) \<noteq> 0 then (EF_ERR_BAD_VERSION, False, db)
          else let home = ef_hash_home cap kh in
            (case put_loop h cap kh off home home \<lparr>key_hash = kh, slot_offset = off\<rparr> (mem db) of
               (err, added, m) \<Rightarrow> (err, added, db\<lparr>mem := m\<rparr>)))"

subsection \<open>Lookup\<close>

text \<open>\<open>n\<close> iterations of the probe loop are left.\<close>

fun find_loop :: "mem \<Rightarrow> nat \<Rightarrow> u32 \<Rightarrow> u64 \<Rightarrow> nat \<Rightarrow> nat \<Rightarrow> ef_err + ef_hash_entry" where
  "find_loop m h cap kh i 0 = Inl EF_ERR_NOT_FOUND"
| "find_loop m h cap kh i (Suc n) =
     (let cur = entry_at m h (i mod unat cap) in
      if ef_hash_entry_empty cur then Inl EF_ERR_NOT_FOUND
      else if key_hash cur = kh then Inr cur
      else find_loop m h cap kh (Suc i) n)"

definition ef_index_find_entry_unlocked :: "ef_db \<Rightarrow> u64 \<Rightarrow> ef_err + ef_hash_entry" where
  "ef_index_find_entry_unlocked db kh =
     (case hash_index db of
        None \<Rightarrow> Inl EF_ERR_NULL_ARG
      | Some h \<Rightarrow>
          let cap = hash_capacity db in
          if cap = 0 then Inl EF_ERR_NULL_ARG
          else find_loop (mem db) h cap kh (ef_hash_home cap kh) (unat cap))"

subsection \<open>Deletion\<close>

text \<open>
  The inner loop of \<^verbatim>\<open>ef_index_remove_by_hash\<close> shifts the following entries back by one until
  the next position is empty or holds an entry at its home. Its guard \<open>pos < unat cap\<close> holds at
  every call, \<open>pos\<close> being a remainder by the capacity.
\<close>

definition dist_sum :: "mem \<Rightarrow> nat \<Rightarrow> u32 \<Rightarrow> nat \<Rightarrow> nat" where
  "dist_sum m h cap pos =
     (\<Sum>p \<in> {..<unat cap} - {pos}.
        ef_hash_probe_dist cap (ef_hash_home cap (key_hash (entry_at m h p))) p)"

lemma hash_home_less:
  assumes "cap \<noteq> 0"
  shows "ef_hash_home cap kh < unat cap"
proof -
  have "unat (kh AND ucast (cap - 1)) \<le> unat (ucast (cap - 1) :: u64)"
    by (rule word_and_le1 [THEN word_le_nat_alt [THEN iffD1]])
  also have "\<dots> = unat cap - 1"
    using assms unat_u32_bound[of "cap - 1"]
    by (simp add: unsigned_ucast_eq take_bit_nat_eq_self unat_minus_one)
  also have "\<dots> < unat cap"
    using assms by (simp add: unat_gt_0)
  finally show ?thesis by (simp add: ef_hash_home_def)
qed

lemma probe_dist_less: "cap \<noteq> 0 \<Longrightarrow> ef_hash_probe_dist cap home pos < unat cap"
  by (simp add: ef_hash_probe_dist_def unat_gt_0)

lemma probe_dist_step:
  assumes "home < n" "pos < n" "((Suc pos) mod n + n - home) mod n \<noteq> 0"
  shows "((Suc pos) mod n + n - home) mod n = Suc ((pos + n - home) mod n)"
proof -
  have "((Suc pos) mod n + n - home) mod n = (Suc pos + n - home) mod n"
  proof (cases "Suc pos = n")
    case True
    with assms(1) have "Suc pos + n - home = n + (n - home)" by simp
    with True show ?thesis by (simp only: mod_self add_0 mod_add_self1)
  next
    case False
    then show ?thesis using assms(2) by simp
  qed
  also have "Suc pos + n - home = Suc (pos + n - home)" using assms(1) by simp
  finally have "((Suc pos) mod n + n - home) mod n = Suc (pos + n - home) mod n" .
  with assms(3) show ?thesis by (simp add: mod_Suc split: if_splits)
qed

lemma dist_sum_shift:
  fixes m h cap pos
  defines "next \<equiv> Suc pos mod unat cap"
  assumes pos: "pos < unat cap"
    and away: "ef_hash_probe_dist cap (ef_hash_home cap (key_hash (entry_at m h next))) next \<noteq> 0"
  shows "dist_sum (set_entry m h pos (key_hash (entry_at m h next)) off) h cap next
         < dist_sum m h cap pos"
proof -
  let ?m' = "set_entry m h pos (key_hash (entry_at m h next)) off"
  let ?d = "\<lambda>m p. ef_hash_probe_dist cap (ef_hash_home cap (key_hash (entry_at m h p))) p"
  let ?R = "{..<unat cap} - {pos, next}"
  have cap: "cap \<noteq> 0" using pos by auto
  have next_less: "next < unat cap" using pos by (simp add: next_def)
  have neq: "next \<noteq> pos"
  proof
    assume "next = pos"
    then have "unat cap = 1"
      using pos by (cases "Suc pos = unat cap") (auto simp: next_def)
    with away show False by (simp add: ef_hash_probe_dist_def)
  qed
  have split_pos: "{..<unat cap} - {next} = insert pos ?R" using pos neq by auto
  have split_next: "{..<unat cap} - {pos} = insert next ?R" using next_less neq by auto
  have same: "(\<Sum>p\<in>?R. ?d ?m' p) = (\<Sum>p\<in>?R. ?d m p)"
    by (rule sum.cong) auto
  have "dist_sum ?m' h cap next = ?d ?m' pos + (\<Sum>p\<in>?R. ?d m p)"
    unfolding dist_sum_def split_pos using same by simp
  moreover have "dist_sum m h cap pos = ?d m next + (\<Sum>p\<in>?R. ?d m p)"
    unfolding dist_sum_def split_next by simp
  moreover have "?d m next = Suc (?d ?m' pos)"
    using probe_dist_step[OF hash_home_less[OF cap] pos, of "key_hash (entry_at m h next)"] away
    by (simp add: ef_hash_probe_dist_def next_def)
  ultimately show ?thesis by simp
qed

function shift_loop :: "nat \<Rightarrow> u32 \<Rightarrow> nat \<Rightarrow> mem \<Rightarrow> mem" where
  "shift_loop h cap pos m =
     (if pos < unat cap then
        let next_pos = Suc pos mod unat cap; next_val = entry_at m h next_pos in
        if ef_hash_entry_empty next_val then set_entry m h pos 0 0
        else if ef_hash_probe_dist cap (ef_hash_home cap (key_hash next_val)) next_pos = 0
        then set_entry m h pos 0 0
        else shift_loop h cap next_pos (set_entry m h pos (key_hash next_val) (slot_offset next_val))
      else m)"
  by pat_completeness auto
termination
  by (relation "measure (\<lambda>(h, cap, pos, m). dist_sum m h cap pos)")
     (auto intro: dist_sum_shift)

declare shift_loop.simps [simp del]

text \<open>The outer loop: find the key, then shift; the result is \<open>None\<close> when the key is absent.\<close>

fun remove_loop :: "nat \<Rightarrow> u32 \<Rightarrow> u64 \<Rightarrow> nat \<Rightarrow> nat \<Rightarrow> mem \<Rightarrow> mem option" where
  "remove_loop h cap kh i 0 m = None"
| "remove_loop h cap kh i (Suc n) m =
     (let pos = i mod unat cap; cur = entry_at m h pos in
      if ef_hash_entry_empty cur then None
      else if key_hash cur = kh then Some (shift_loop h cap pos m)
      else remove_loop h cap kh (Suc i) n m)"

definition ef_index_remove_by_hash :: "ef_db \<Rightarrow> u64 \<Rightarrow> ef_err \<times> ef_db" where
  "ef_index_remove_by_hash db kh =
     (case hash_index db of
        None \<Rightarrow> (EF_ERR_NULL_ARG, db)
      | Some h \<Rightarrow>
          let cap = hash_capacity db in
          if cap = 0 then (EF_ERR_NULL_ARG, db)
          else case remove_loop h cap kh (ef_hash_home cap kh) (unat cap) (mem db) of
            None \<Rightarrow> (EF_ERR_NOT_FOUND, db)
          | Some m \<Rightarrow>
              (EF_OK, db\<lparr>mem := m,
                 hash_entry_count := (if 0 < hash_entry_count db then hash_entry_count db - 1
                                      else hash_entry_count db)\<rparr>))"

end
