(* ===== verification/Robin_Hood.thy ===== *)
theory Robin_Hood
  imports Hash_Table
begin

text \<open>
  Correctness of the Robin Hood table. The table is read as a function from positions to
  entries; \<open>rh_inv\<close> is the invariant the code maintains without stating it: an entry away from
  its home follows an occupied position whose probe distance is at most one smaller, and no key
  occurs twice. Lookup, insertion and deletion are then operations on the set of entries.
\<close>

type_synonym table = "nat \<Rightarrow> ef_hash_entry"

definition occ :: "table \<Rightarrow> nat \<Rightarrow> bool" where
  "occ T p \<longleftrightarrow> \<not> ef_hash_entry_empty (T p)"

definition pdist :: "u32 \<Rightarrow> table \<Rightarrow> nat \<Rightarrow> nat" where
  "pdist cap T p = ef_hash_probe_dist cap (ef_hash_home cap (key_hash (T p))) p"

definition rh_order :: "u32 \<Rightarrow> table \<Rightarrow> bool" where
  "rh_order cap T \<longleftrightarrow>
     (\<forall>p < unat cap. occ T (Suc p mod unat cap) \<and> 0 < pdist cap T (Suc p mod unat cap) \<longrightarrow>
        occ T p \<and> pdist cap T (Suc p mod unat cap) \<le> Suc (pdist cap T p))"

definition rh_distinct :: "u32 \<Rightarrow> table \<Rightarrow> bool" where
  "rh_distinct cap T \<longleftrightarrow>
     (\<forall>p < unat cap. \<forall>q < unat cap. occ T p \<and> occ T q \<and> key_hash (T p) = key_hash (T q) \<longrightarrow> p = q)"

definition rh_inv :: "u32 \<Rightarrow> table \<Rightarrow> bool" where
  "rh_inv cap T \<longleftrightarrow> cap \<noteq> 0 \<and> rh_order cap T \<and> rh_distinct cap T"

definition entries :: "u32 \<Rightarrow> table \<Rightarrow> ef_hash_entry set" where
  "entries cap T = {T p | p. p < unat cap \<and> occ T p}"

subsection \<open>Positions and distances\<close>

lemma probe_dist_index:
  assumes "home < unat cap" "home \<le> i" "i < home + unat cap"
  shows "ef_hash_probe_dist cap home (i mod unat cap) = i - home"
proof -
  let ?N = "unat cap"
  have "(i mod ?N + ?N - home) mod ?N = (i mod ?N + (?N - home)) mod ?N" using assms(1) by simp
  also have "\<dots> = (i + (?N - home)) mod ?N" by (simp only: mod_add_left_eq)
  also have "i + (?N - home) = i - home + ?N" using assms(1,2) by simp
  also have "(i - home + ?N) mod ?N = i - home"
    by (simp only: mod_add_self2) (use assms in simp)
  finally show ?thesis by (simp add: ef_hash_probe_dist_def)
qed

lemma probe_dist_position:
  assumes "home < unat cap" "p < unat cap"
  shows "(home + ef_hash_probe_dist cap home p) mod unat cap = p"
proof (cases "home \<le> p")
  case True
  then have "ef_hash_probe_dist cap home p = p - home"
    using probe_dist_index[of home cap p] assms by simp
  with True assms show ?thesis by simp
next
  case False
  then have "ef_hash_probe_dist cap home p = p + unat cap - home"
    using probe_dist_index[of home cap "p + unat cap"] assms by simp
  with False assms show ?thesis by simp
qed

lemma rh_order_back:
  assumes "rh_order cap T" "0 < unat cap" "occ T (Suc i mod unat cap)"
    "0 < pdist cap T (Suc i mod unat cap)"
  shows "occ T (i mod unat cap) \<and> pdist cap T (Suc i mod unat cap) \<le> Suc (pdist cap T (i mod unat cap))"
proof -
  have "Suc (i mod unat cap) mod unat cap = Suc i mod unat cap" by (simp add: mod_Suc_eq)
  then show ?thesis
    using assms unfolding rh_order_def by (metis mod_less_divisor)
qed

text \<open>
  Every position from an entry's home up to the entry is occupied, and the distances along the
  way grow by at least one per step.
\<close>

lemma rh_chain:
  assumes inv: "rh_order cap T" "cap \<noteq> 0"
    and q: "q < unat cap" "occ T q"
    and s: "s = ef_hash_home cap (key_hash (T q))"
    and i: "s \<le> i" "i \<le> s + pdist cap T q"
  shows "occ T (i mod unat cap) \<and> i - s \<le> pdist cap T (i mod unat cap)"
  using i(2,1)
proof (induction rule: inc_induct)
  case base
  have "(s + pdist cap T q) mod unat cap = q"
    using probe_dist_position[OF hash_home_less[OF inv(2)] q(1)] by (simp add: s pdist_def)
  with q show ?case by simp
next
  case (step n)
  then have IH: "occ T (Suc n mod unat cap)" "Suc n - s \<le> pdist cap T (Suc n mod unat cap)"
    by auto
  with step.prems have "0 < pdist cap T (Suc n mod unat cap)" by simp
  with IH(1) inv have "occ T (n mod unat cap) \<and>
      pdist cap T (Suc n mod unat cap) \<le> Suc (pdist cap T (n mod unat cap))"
    by (intro rh_order_back) (simp_all add: unat_gt_0)
  moreover have "Suc n - s = Suc (n - s)" using step.prems by (simp add: Suc_diff_le)
  ultimately show ?case using IH(2) by linarith
qed

subsection \<open>Lookup\<close>

lemma find_loop_sound:
  "find_loop m h cap kh i n = Inr e \<Longrightarrow> 0 < unat cap \<Longrightarrow>
   e \<in> entries cap (entry_at m h) \<and> key_hash e = kh"
proof (induction n arbitrary: i)
  case 0
  then show ?case by simp
next
  case (Suc n)
  then show ?case
    by (force simp: Let_def entries_def occ_def split: if_splits)
qed

lemma find_loop_fail: "find_loop m h cap kh i n = Inl e \<Longrightarrow> e = EF_ERR_NOT_FOUND"
  by (induction n arbitrary: i) (auto simp: Let_def split: if_splits)

lemma find_loop_complete:
  fixes m h
  defines "T \<equiv> entry_at m h"
  assumes inv: "rh_inv cap T"
    and q: "q < unat cap" "occ T q" "key_hash (T q) = kh"
    and s: "s = ef_hash_home cap kh"
    and i: "s \<le> i" "i \<le> s + pdist cap T q" "s + unat cap \<le> i + n"
  shows "find_loop m h cap kh i n = Inr (T q)"
  using i
proof (induction n arbitrary: i)
  case 0
  have "pdist cap T q < unat cap"
    using inv by (simp add: pdist_def rh_inv_def probe_dist_less)
  with 0 show ?case by simp
next
  case (Suc n)
  note ord = inv[unfolded rh_inv_def]
  have occ_i: "occ T (i mod unat cap)"
    using rh_chain[OF _ _ q(1,2) _ Suc.prems(1,2)] ord q(3) s by simp
  show ?case
  proof (cases "key_hash (T (i mod unat cap)) = kh")
    case True
    then have "i mod unat cap = q"
      using ord q occ_i unfolding rh_distinct_def by (metis mod_less_divisor unat_gt_0)
    with True occ_i show ?thesis by (simp add: T_def occ_def Let_def)
  next
    case False
    then have "i \<noteq> s + pdist cap T q"
      using probe_dist_position[OF hash_home_less q(1)] ord q(3) s by (auto simp: pdist_def)
    then have "find_loop m h cap kh (Suc i) n = Inr (T q)"
      using Suc.prems by (intro Suc.IH) auto
    with False occ_i show ?thesis by (simp add: T_def occ_def Let_def)
  qed
qed

lemma find_loop_iff:
  assumes "rh_inv cap (entry_at m h)"
  shows "find_loop m h cap kh (ef_hash_home cap kh) (unat cap) = Inr e \<longleftrightarrow>
         e \<in> entries cap (entry_at m h) \<and> key_hash e = kh"
proof
  assume "find_loop m h cap kh (ef_hash_home cap kh) (unat cap) = Inr e"
  then show "e \<in> entries cap (entry_at m h) \<and> key_hash e = kh"
    using assms by (intro find_loop_sound) (auto simp: rh_inv_def unat_gt_0)
next
  assume "e \<in> entries cap (entry_at m h) \<and> key_hash e = kh"
  then obtain q where "q < unat cap" "occ (entry_at m h) q" "e = entry_at m h q"
    "key_hash (entry_at m h q) = kh"
    by (auto simp: entries_def)
  then show "find_loop m h cap kh (ef_hash_home cap kh) (unat cap) = Inr e"
    using find_loop_complete[OF assms] by simp
qed

lemma entries_functional:
  "rh_inv cap T \<Longrightarrow> e \<in> entries cap T \<Longrightarrow> e' \<in> entries cap T \<Longrightarrow> key_hash e = key_hash e' \<Longrightarrow> e = e'"
  by (auto simp: entries_def rh_inv_def rh_distinct_def)


subsection \<open>Overwriting one position\<close>

abbreviation edist :: "u32 \<Rightarrow> ef_hash_entry \<Rightarrow> nat \<Rightarrow> nat" where
  "edist cap e p \<equiv> ef_hash_probe_dist cap (ef_hash_home cap (key_hash e)) p"

lemma entry_at_upd:
  "entry_at (set_entry m h pos kh off) h = (entry_at m h)(pos := \<lparr>key_hash = kh, slot_offset = off\<rparr>)"
  by (rule ext) simp

lemma entry_at_upd_entry:
  "entry_at (set_entry m h pos (key_hash e) (slot_offset e)) h = (entry_at m h)(pos := (e :: ef_hash_entry))"
  by (cases e) (simp add: entry_at_upd)

lemma occ_upd [simp]: "occ (T(p := e)) q \<longleftrightarrow> (if q = p then slot_offset e \<noteq> 0 else occ T q)"
  by (simp add: occ_def ef_hash_entry_empty_def)

lemma pdist_upd: "pdist cap (T(p := e)) q = (if q = p then edist cap e p else pdist cap T q)"
  by (simp add: pdist_def)

lemma rh_order_upd:
  assumes ord: "rh_order cap T" and cap: "cap \<noteq> 0" 
    and pred: "\<And>p. p < unat cap \<Longrightarrow> Suc p mod unat cap = pos \<Longrightarrow> 0 < edist cap e pos \<Longrightarrow>
                 occ T p \<and> edist cap e pos \<le> Suc (pdist cap T p)"
    and succ: "\<not> occ T pos \<or> pdist cap T pos \<le> edist cap e pos"
    and e: "slot_offset e \<noteq> 0"
  shows "rh_order cap (T(pos := e))"
  unfolding rh_order_def
proof (intro allI impI, elim conjE)
  let ?T = "T(pos := e)" and ?N = "unat cap"
  fix p assume p: "p < ?N" and o: "occ ?T (Suc p mod ?N)" and d: "0 < pdist cap ?T (Suc p mod ?N)"
  show "occ ?T p \<and> pdist cap ?T (Suc p mod ?N) \<le> Suc (pdist cap ?T p)"
  proof (cases "Suc p mod ?N = pos")
    case True
    with d have pos_d: "0 < edist cap e pos" by (simp add: pdist_upd)
    have "p \<noteq> pos"
    proof
      assume "p = pos"
      with True p have "?N = 1" by (cases "Suc p = ?N") simp_all
      with pos_d probe_dist_less[OF cap, of "ef_hash_home cap (key_hash e)" pos]
      show False by simp
    qed
    with pred[OF p True pos_d] True show ?thesis by (simp add: pdist_upd)
  next
    case False
    from o False have o': "occ T (Suc p mod ?N)" by simp
    from d False have d': "0 < pdist cap T (Suc p mod ?N)" by (simp add: pdist_upd)
    from ord[unfolded rh_order_def, rule_format, OF p conjI[OF o' d']]
    have old: "occ T p \<and> pdist cap T (Suc p mod ?N) \<le> Suc (pdist cap T p)" .
    show ?thesis
    proof (cases "p = pos")
      case True
      with old succ False e show ?thesis by (simp add: pdist_upd)
    next
      case False
      with old \<open>Suc p mod ?N \<noteq> pos\<close> show ?thesis by (simp add: pdist_upd)
    qed
  qed
qed
lemma rh_distinct_upd:
  assumes D: "rh_distinct cap T"
    and K: "\<And>p. p < unat cap \<Longrightarrow> p \<noteq> pos \<Longrightarrow> occ T p \<Longrightarrow> key_hash (T p) \<noteq> key_hash e"
  shows "rh_distinct cap (T(pos := e))"
  unfolding rh_distinct_def
proof (intro allI impI, elim conjE)
  fix p q assume "p < unat cap" "q < unat cap" "occ (T(pos := e)) p" "occ (T(pos := e)) q"
    "key_hash ((T(pos := e)) p) = key_hash ((T(pos := e)) q)"
  then show "p = q"
    using D[unfolded rh_distinct_def, rule_format, of p q] K[of p] K[of q]
    by (cases "p = pos"; cases "q = pos") simp_all
qed

lemma entries_upd_raw:
  assumes "pos < unat cap" "slot_offset e \<noteq> 0"
  shows "entries cap (T(pos := e)) = insert e {T p | p. p < unat cap \<and> occ T p \<and> p \<noteq> pos}" (is "?L = ?R")
proof
  show "?L \<subseteq> ?R" unfolding entries_def by auto
  show "?R \<subseteq> ?L" using assms unfolding entries_def by force
qed

lemma entries_upd:
  assumes "rh_distinct cap T" "pos < unat cap" "slot_offset e \<noteq> 0"
  shows "entries cap (T(pos := e)) = insert e (entries cap T - {x. x = T pos \<and> occ T pos})"
proof -
  have "T p \<noteq> T pos" if "p < unat cap" "occ T p" "p \<noteq> pos" "occ T pos" for p
    using assms(1)[unfolded rh_distinct_def, rule_format, of p pos] assms(2) that by auto
  then have "{T p | p. p < unat cap \<and> occ T p \<and> p \<noteq> pos} =
      entries cap T - {x. x = T pos \<and> occ T pos}"
    unfolding entries_def by auto
  with entries_upd_raw[of pos cap e T] assms(2,3) show ?thesis by simp
qed

lemma mod_pred_unique:
  assumes "p < n" "Suc p mod n = i mod n" "0 < i"
  shows "p = (i - 1) mod (n :: nat)"
proof -
  obtain j where i: "i = Suc j" using assms(3) gr0_implies_Suc by blast
  with assms(2) have "Suc p mod n = Suc j mod n" by simp
  then have "p mod n = j mod n" by (auto simp: mod_Suc split: if_splits)
  with assms(1) i show ?thesis by simp
qed

subsection \<open>Insertion\<close>

text \<open>
  The state of the insertion loop at index \<open>i\<close>, before (\<open>disp\<close> false) and after (\<open>disp\<close> true)
  the first displacement, when the carried entry \<open>inc\<close> is no longer the one being inserted.
\<close>

definition put_inv ::
  "u32 \<Rightarrow> table \<Rightarrow> u64 \<Rightarrow> u64 \<Rightarrow> nat \<Rightarrow> nat \<Rightarrow> ef_hash_entry \<Rightarrow> bool \<Rightarrow> bool"
where
  "put_inv cap T kh off i home inc disp \<longleftrightarrow>
     rh_inv cap T \<and> off \<noteq> 0 \<and> slot_offset inc \<noteq> 0 \<and> home = ef_hash_home cap (key_hash inc) \<and>
     ef_hash_home cap kh \<le> i \<and>
     (\<forall>j. ef_hash_home cap kh \<le> j \<and> j < i \<longrightarrow> occ T (j mod unat cap)) \<and>
     (\<exists>e < unat cap. \<not> occ T e) \<and>
     (i < home + unat cap \<longrightarrow> home \<le> i \<and>
        (i \<noteq> home \<longrightarrow> occ T ((i - 1) mod unat cap) \<and>
                      i - home \<le> Suc (pdist cap T ((i - 1) mod unat cap)))) \<and>
     (if disp
      then key_hash inc \<noteq> kh \<and> (\<forall>p < unat cap. occ T p \<longrightarrow> key_hash (T p) \<noteq> key_hash inc) \<and>
        (\<exists>j. ef_hash_home cap kh \<le> j \<and> j < i \<and>
             T (j mod unat cap) = \<lparr>key_hash = kh, slot_offset = off\<rparr>)
      else inc = \<lparr>key_hash = kh, slot_offset = off\<rparr> \<and>
        (\<forall>j. ef_hash_home cap kh \<le> j \<and> j < i \<longrightarrow> key_hash (T (j mod unat cap)) \<noteq> kh))"

lemma put_inv_bound:
  assumes "put_inv cap T kh off i home inc disp"
  shows "i < ef_hash_home cap kh + unat cap"
proof (rule ccontr)
  let ?s = "ef_hash_home cap kh" and ?N = "unat cap"
  assume "\<not> i < ?s + ?N"
  then have far: "?s + ?N \<le> i" by simp
  from assms obtain e where e: "e < ?N" "\<not> occ T e" by (auto simp: put_inv_def)
  have s: "?s < ?N" using assms by (intro hash_home_less) (simp add: put_inv_def rh_inv_def)
  have "occ T (j mod ?N)" if "?s \<le> j" "j < i" for j using assms that by (simp add: put_inv_def)
  from this[of e] this[of "e + ?N"] far s e show False by (cases "?s \<le> e") simp_all
qed

lemma put_inv_cap: "put_inv cap T kh off i home inc disp \<Longrightarrow> cap \<noteq> 0"
  by (simp add: put_inv_def rh_inv_def)

lemma put_inv_home:
  "put_inv cap T kh off i home inc disp \<Longrightarrow> i < home + unat cap \<Longrightarrow>
   home \<le> i \<and> edist cap inc (i mod unat cap) = i - home"
  using probe_dist_index[of home cap i] hash_home_less[of cap "key_hash inc"]
  by (auto simp: put_inv_def rh_inv_def)

lemma put_inv_absent:
  assumes inv: "put_inv cap T kh off i home inc disp"
    and room: "\<not> occ T (i mod unat cap) \<or> pdist cap T (i mod unat cap) < i - home"
    and p: "p < unat cap" "occ T p"
  shows "key_hash (T p) \<noteq> key_hash inc"
proof (cases disp)
  case True
  with inv p show ?thesis by (simp add: put_inv_def)
next
  case False
  show ?thesis
  proof
    let ?s = "ef_hash_home cap kh"
    assume "key_hash (T p) = key_hash inc"
    with False inv have key: "key_hash (T p) = kh" by (simp add: put_inv_def)
    have home: "home = ?s" "?s \<le> i" and ord: "rh_order cap T" and cap: "cap \<noteq> 0"
      and seen: "\<And>j. ?s \<le> j \<Longrightarrow> j < i \<Longrightarrow> key_hash (T (j mod unat cap)) \<noteq> kh"
      using False inv by (simp_all add: put_inv_def rh_inv_def)
    show False
    proof (cases "i \<le> ?s + pdist cap T p")
      case True
      with rh_chain[OF ord cap p _ home(2)] key room home(1) show False by auto
    next
      case False
      have "(?s + pdist cap T p) mod unat cap = p"
        using probe_dist_position[OF hash_home_less[OF cap] p(1)] key by (simp add: pdist_def)
      with seen[of "?s + pdist cap T p"] False key show False by simp
    qed
  qed
qed

lemma put_inv_store:
  assumes inv: "put_inv cap T kh off i home inc disp" and i: "i < home + unat cap"
    and room: "\<not> occ T (i mod unat cap) \<or> pdist cap T (i mod unat cap) < i - home"
  shows "rh_inv cap (T(i mod unat cap := inc))"
proof -
  note home = put_inv_home[OF inv i]
  have cap: "cap \<noteq> 0" and ord: "rh_order cap T" and dst: "rh_distinct cap T" and inc: "slot_offset inc \<noteq> 0"
    using inv by (simp_all add: put_inv_def rh_inv_def)
  have prev: "i \<noteq> home \<Longrightarrow> occ T ((i - 1) mod unat cap) \<and> i - home \<le> Suc (pdist cap T ((i - 1) mod unat cap))"
    using inv[unfolded put_inv_def] i by blast
  have "rh_order cap (T(i mod unat cap := inc))"
  proof (rule rh_order_upd[OF ord cap _ _ inc])
    fix p assume p: "p < unat cap" "Suc p mod unat cap = i mod unat cap"
      and "0 < edist cap inc (i mod unat cap)"
    with home have "i \<noteq> home" "0 < i" by auto
    with mod_pred_unique[OF p] prev home
    show "occ T p \<and> edist cap inc (i mod unat cap) \<le> Suc (pdist cap T p)" by auto
  next
    show "\<not> occ T (i mod unat cap) \<or> pdist cap T (i mod unat cap) \<le> edist cap inc (i mod unat cap)"
      using room home by auto
  qed
  moreover have "rh_distinct cap (T(i mod unat cap := inc))"
    using put_inv_absent[OF inv room] by (intro rh_distinct_upd[OF dst]) auto
  ultimately show ?thesis using cap by (simp add: rh_inv_def)
qed

text \<open>
  Where the home of a displaced entry lies: before the loop index at the entry's own distance,
  or so far behind it (the index has passed the end of the table, the entry has not) that the
  loop bound \<^verbatim>\<open>home + capacity\<close> is already exceeded.
\<close>

lemma displaced_home:
  assumes inv: "put_inv cap T kh off i home inc disp" and i: "i < home + unat cap"
    and away: "pdist cap T (i mod unat cap) < i - home"
  defines "home' \<equiv> ef_hash_home cap (key_hash (T (i mod unat cap)))"
  shows "home' \<le> i \<and> (i - home' = pdist cap T (i mod unat cap) \<or> home' + unat cap \<le> i)"
proof -
  let ?N = "unat cap" and ?p = "i mod unat cap"
  have cap: "cap \<noteq> 0" using inv by (rule put_inv_cap)
  have "home < ?N" "home' < ?N"
    using inv hash_home_less[OF cap] by (auto simp: put_inv_def home'_def)
  have "i < 2 * ?N" using put_inv_bound[OF inv] hash_home_less[OF cap, of kh] by linarith
  then have pos: "i = ?p \<or> i = ?p + ?N"
  proof (cases "i < ?N")
    case False
    then have "?p = (i - ?N) mod ?N" by (simp add: le_mod_geq)
    also have "\<dots> = i - ?N" using \<open>i < 2 * ?N\<close> False by simp
    finally show ?thesis using False by simp
  qed simp
  have home_le: "home \<le> i" using put_inv_home[OF inv i] by simp
  have p: "?p < ?N" using cap by (simp add: unat_gt_0)
  have dist: "pdist cap T ?p = (if home' \<le> ?p then ?p - home' else ?p + ?N - home')"
    using probe_dist_index[OF \<open>home' < ?N\<close>, of ?p] probe_dist_index[OF \<open>home' < ?N\<close>, of "?p + ?N"] p
      \<open>home' < ?N\<close>
    by (auto simp: pdist_def home'_def)
  show ?thesis
  proof (cases "home' \<le> ?p")
    case True
    with dist pos show ?thesis by auto
  next
    case False
    with dist have d: "pdist cap T ?p = ?p + ?N - home'" by simp
    with away home_le False \<open>home' < ?N\<close> have "i \<noteq> ?p" by linarith
    with pos have "i = ?p + ?N" by simp
    with d \<open>home' < ?N\<close> show ?thesis by auto
  qed
qed

lemma put_inv_displace:
  assumes inv: "put_inv cap T kh off i home inc disp" and i: "i < home + unat cap"
    and cur: "occ T (i mod unat cap)" "key_hash (T (i mod unat cap)) \<noteq> kh"
    and away: "pdist cap T (i mod unat cap) < i - home"
  shows "put_inv cap (T(i mod unat cap := inc)) kh off (Suc i)
           (ef_hash_home cap (key_hash (T (i mod unat cap)))) (T (i mod unat cap)) True"
proof -
  let ?N = "unat cap" and ?p = "i mod unat cap" and ?s = "ef_hash_home cap kh"
  let ?T = "T(?p := inc)" and ?home = "ef_hash_home cap (key_hash (T ?p))"
  have rinv: "rh_inv cap ?T" using away by (intro put_inv_store[OF inv i]) simp
  have inc: "slot_offset inc \<noteq> 0" "off \<noteq> 0" "?s \<le> i" using inv by (simp_all add: put_inv_def)
  have p: "?p < ?N" using put_inv_cap[OF inv] by (simp add: unat_gt_0)
  have occ': "occ ?T (j mod ?N)" if "?s \<le> j" "j < Suc i" for j
    using that inv inc by (auto simp: put_inv_def less_Suc_eq)
  obtain e where e: "e < ?N" "\<not> occ T e" using inv unfolding put_inv_def by blast
  with cur(1) have empty: "\<exists>e < ?N. \<not> occ ?T e" by (intro exI[of _ e]) auto
  have off': "slot_offset (T ?p) \<noteq> 0" using cur(1) by (simp add: occ_def ef_hash_entry_empty_def)
  have bound: "?home \<le> Suc i \<and> (Suc i \<noteq> ?home \<longrightarrow> occ ?T ((Suc i - 1) mod ?N) \<and>
      Suc i - ?home \<le> Suc (pdist cap ?T ((Suc i - 1) mod ?N)))" if "Suc i < ?home + ?N"
  proof -
    have "i - ?home = pdist cap T ?p" "?home \<le> i"
      using displaced_home[OF inv i away] that by auto
    moreover have "pdist cap ?T ?p = i - home"
      using put_inv_home[OF inv i] by (simp add: pdist_upd)
    ultimately show ?thesis using away inc by (simp add: Suc_diff_le)
  qed
  have absent: "key_hash (?T q) \<noteq> key_hash (T ?p)" if "q < ?N" "occ ?T q" for q
  proof (cases "q = ?p")
    case True
    with put_inv_absent[OF inv _ p cur(1)] away show ?thesis by auto
  next
    case False
    have "rh_distinct cap T" using inv by (simp add: put_inv_def rh_inv_def)
    from this[unfolded rh_distinct_def, rule_format, of q ?p] False that cur p show ?thesis by auto
  qed
  have stored: "\<exists>j. ?s \<le> j \<and> j < Suc i \<and> ?T (j mod ?N) = \<lparr>key_hash = kh, slot_offset = off\<rparr>"
  proof (cases disp)
    case True
    with inv obtain j where j: "?s \<le> j" "j < i" "T (j mod ?N) = \<lparr>key_hash = kh, slot_offset = off\<rparr>"
      by (auto simp: put_inv_def)
    with cur(2) have "j mod ?N \<noteq> ?p" by auto
    with j show ?thesis by (intro exI[of _ j]) simp
  next
    case False
    with inv have "inc = \<lparr>key_hash = kh, slot_offset = off\<rparr>" by (simp add: put_inv_def)
    with inc show ?thesis by (intro exI[of _ i]) simp
  qed
  have s: "?s \<le> Suc i" using inc(3) by simp
  have all_occ: "\<forall>j. ?s \<le> j \<and> j < Suc i \<longrightarrow> occ ?T (j mod ?N)" using occ' by blast
  have all_bound: "Suc i < ?home + ?N \<longrightarrow> ?home \<le> Suc i \<and> (Suc i \<noteq> ?home \<longrightarrow>
      occ ?T ((Suc i - 1) mod ?N) \<and> Suc i - ?home \<le> Suc (pdist cap ?T ((Suc i - 1) mod ?N)))"
    by (rule impI) (rule bound)
  have all_absent: "\<forall>q < ?N. occ ?T q \<longrightarrow> key_hash (?T q) \<noteq> key_hash (T ?p)"
    by (intro allI impI) (rule absent)
  show ?thesis
    unfolding put_inv_def if_True
    by (intro conjI rinv inc(2) off' refl s all_occ empty all_bound cur(2) all_absent stored)
qed

lemma put_invD:
  assumes "put_inv cap T kh off i home inc disp"
  shows "rh_inv cap T" "off \<noteq> 0" "slot_offset inc \<noteq> 0" "home = ef_hash_home cap (key_hash inc)"
  using assms unfolding put_inv_def by simp_all

lemma put_inv_skip:
  assumes "put_inv cap T kh off i home inc disp" "occ T (i mod unat cap)"
    "key_hash (T (i mod unat cap)) \<noteq> kh" "i - home \<le> pdist cap T (i mod unat cap)"
  shows "put_inv cap T kh off (Suc i) home inc disp"
proof -
  note parts = assms(1)[unfolded put_inv_def]
  have s: "ef_hash_home cap kh \<le> Suc i" using parts by (elim conjE) simp
  have old_occ: "\<forall>j. ef_hash_home cap kh \<le> j \<and> j < i \<longrightarrow> occ T (j mod unat cap)"
    using parts by (elim conjE)
  have empty: "\<exists>e < unat cap. \<not> occ T e" using parts by (elim conjE)
  have phase: "if disp
      then key_hash inc \<noteq> kh \<and> (\<forall>p < unat cap. occ T p \<longrightarrow> key_hash (T p) \<noteq> key_hash inc) \<and>
        (\<exists>j. ef_hash_home cap kh \<le> j \<and> j < i \<and>
             T (j mod unat cap) = \<lparr>key_hash = kh, slot_offset = off\<rparr>)
      else inc = \<lparr>key_hash = kh, slot_offset = off\<rparr> \<and>
        (\<forall>j. ef_hash_home cap kh \<le> j \<and> j < i \<longrightarrow> key_hash (T (j mod unat cap)) \<noteq> kh)"
    using parts by (elim conjE)
  have new_occ: "\<forall>j. ef_hash_home cap kh \<le> j \<and> j < Suc i \<longrightarrow> occ T (j mod unat cap)"
    using old_occ assms(2) less_Suc_eq by blast
  have next_ok: "Suc i < home + unat cap \<longrightarrow> home \<le> Suc i \<and>
      (Suc i \<noteq> home \<longrightarrow> occ T ((Suc i - 1) mod unat cap) \<and>
        Suc i - home \<le> Suc (pdist cap T ((Suc i - 1) mod unat cap)))"
  proof
    assume "Suc i < home + unat cap"
    then have "home \<le> i" using put_inv_home[OF assms(1)] by simp
    with assms(2,4) show "home \<le> Suc i \<and> (Suc i \<noteq> home \<longrightarrow> occ T ((Suc i - 1) mod unat cap) \<and>
        Suc i - home \<le> Suc (pdist cap T ((Suc i - 1) mod unat cap)))" by (simp add: Suc_diff_le)
  qed
  have new_phase: "if disp
      then key_hash inc \<noteq> kh \<and> (\<forall>p < unat cap. occ T p \<longrightarrow> key_hash (T p) \<noteq> key_hash inc) \<and>
        (\<exists>j. ef_hash_home cap kh \<le> j \<and> j < Suc i \<and>
             T (j mod unat cap) = \<lparr>key_hash = kh, slot_offset = off\<rparr>)
      else inc = \<lparr>key_hash = kh, slot_offset = off\<rparr> \<and>
        (\<forall>j. ef_hash_home cap kh \<le> j \<and> j < Suc i \<longrightarrow> key_hash (T (j mod unat cap)) \<noteq> kh)"
  proof (cases disp)
    case True
    with phase show ?thesis unfolding if_P[OF True] using less_SucI by blast
  next
    case False
    with phase show ?thesis unfolding if_not_P[OF False] using assms(3) less_Suc_eq by blast
  qed
  show ?thesis
    unfolding put_inv_def
    by (intro conjI put_invD[OF assms(1)] s new_occ empty next_ok new_phase)
qed

lemma put_inv_before:
  "put_inv cap T kh off i home inc False \<Longrightarrow> inc = \<lparr>key_hash = kh, slot_offset = off\<rparr>"
  unfolding put_inv_def by simp

lemma put_inv_after:
  assumes "put_inv cap T kh off i home inc True"
  shows "key_hash inc \<noteq> kh" "inc \<notin> entries cap T" "\<lparr>key_hash = kh, slot_offset = off\<rparr> \<in> entries cap T"
proof -
  from assms have rest: "key_hash inc \<noteq> kh" "\<forall>p < unat cap. occ T p \<longrightarrow> key_hash (T p) \<noteq> key_hash inc"
    "\<exists>j. T (j mod unat cap) = \<lparr>key_hash = kh, slot_offset = off\<rparr>"
    unfolding put_inv_def if_True by (simp, simp, elim conjE) blast
  then show "key_hash inc \<noteq> kh" by simp
  show "inc \<notin> entries cap T" using rest(2) unfolding entries_def by blast
  from rest(3) obtain j where j: "T (j mod unat cap) = \<lparr>key_hash = kh, slot_offset = off\<rparr>" by blast
  have "j mod unat cap < unat cap" using put_inv_cap[OF assms] by (simp add: unat_gt_0)
  moreover have "occ T (j mod unat cap)"
    using j put_invD(2)[OF assms] by (simp add: occ_def ef_hash_entry_empty_def)
  ultimately show "\<lparr>key_hash = kh, slot_offset = off\<rparr> \<in> entries cap T"
    unfolding entries_def using j by (intro CollectI exI[of _ "j mod unat cap"]) simp
qed

lemma put_inv_exit:
  assumes "put_inv cap T kh off i home inc disp" "\<not> i < home + unat cap"
  shows disp
proof (rule ccontr)
  assume "\<not> disp"
  then have "home = ef_hash_home cap kh"
    using put_inv_before[of cap T kh off i home inc] put_invD(4)[OF assms(1)] assms(1) by simp
  with put_inv_bound[OF assms(1)] assms(2) show False by simp
qed

lemma put_inv_key_seen:
  assumes inv: "put_inv cap T kh off i home inc disp"
    and cur: "occ T (i mod unat cap)" "key_hash (T (i mod unat cap)) = kh"
  shows "\<not> disp"
proof
  let ?N = "unat cap"
  assume disp
  with inv obtain j where j: "ef_hash_home cap kh \<le> j" "j < i"
      "T (j mod ?N) = \<lparr>key_hash = kh, slot_offset = off\<rparr>" and off: "off \<noteq> 0"
    by (auto simp: put_inv_def)
  have N: "0 < ?N" using put_inv_cap[OF inv] by (simp add: unat_gt_0)
  have "rh_distinct cap T" using inv by (simp add: put_inv_def rh_inv_def)
  from this[unfolded rh_distinct_def, rule_format, of "i mod ?N" "j mod ?N"] cur j off N
  have "i mod ?N = j mod ?N" by (simp add: occ_def ef_hash_entry_empty_def)
  then have "i = j \<or> j + ?N \<le> i"
    using j(2) by (metis le_add_diff_inverse less_imp_le_nat mod_eq_dvd_iff_nat nat_dvd_not_less
        nat_add_left_cancel_le not_le zero_less_diff)
  with j put_inv_bound[OF inv] show False by linarith
qed

text \<open>
  The table after the loop, in terms of the entries: the new pair replaces every pair with its
  key, and the carried entry is added; if the loop gives up, one entry of another key is gone.
\<close>

definition put_result :: "u64 \<Rightarrow> u64 \<Rightarrow> ef_hash_entry \<Rightarrow> ef_hash_entry set \<Rightarrow> ef_hash_entry set" where
  "put_result kh off inc E = {e \<in> E. key_hash e \<noteq> kh} \<union> {\<lparr>key_hash = kh, slot_offset = off\<rparr>, inc}"

lemma put_result_displace:
  assumes inv: "put_inv cap T kh off i home inc disp" and i: "i < home + unat cap"
    and cur: "occ T (i mod unat cap)" "key_hash (T (i mod unat cap)) \<noteq> kh"
  shows "put_result kh off (T (i mod unat cap)) (entries cap (T(i mod unat cap := inc))) =
         put_result kh off inc (entries cap T)"
proof -
  have p: "i mod unat cap < unat cap" using put_inv_cap[OF inv] by (simp add: unat_gt_0)
  have "T (i mod unat cap) \<in> entries cap T" using p cur(1) by (auto simp: entries_def)
  moreover have "entries cap (T(i mod unat cap := inc)) = insert inc (entries cap T - {T (i mod unat cap)})"
    using inv cur p by (subst entries_upd) (auto simp: put_inv_def rh_inv_def)
  moreover have "key_hash inc = kh \<Longrightarrow> inc = \<lparr>key_hash = kh, slot_offset = off\<rparr>"
    using inv by (cases disp) (auto simp: put_inv_def)
  ultimately show ?thesis using cur(2) by (auto simp: put_result_def)
qed


definition put_outcome ::
  "u64 \<Rightarrow> ef_hash_entry set \<Rightarrow> bool \<Rightarrow> ef_err \<Rightarrow> bool \<Rightarrow> ef_hash_entry set \<Rightarrow> bool"
where
  "put_outcome kh U new err added E' \<longleftrightarrow>
     (err = EF_OK \<and> added = new \<and> E' = U) \<or>
     (err = EF_ERR_INDEX_FULL \<and> \<not> added \<and> (\<exists>v \<in> U. key_hash v \<noteq> kh \<and> E' = U - {v}))"

lemma put_result_after:
  assumes "put_inv cap T kh off i home inc True"
  shows "put_result kh off inc (entries cap T) = insert inc (entries cap T)"
proof -
  let ?new = "\<lparr>key_hash = kh, slot_offset = off\<rparr>"
  note new = put_inv_after(3)[OF assms]
  have "e = ?new" if "e \<in> entries cap T" "key_hash e = kh" for e
    using entries_functional[OF put_invD(1)[OF assms] that(1) new] that(2) by simp
  with new show ?thesis unfolding put_result_def by blast
qed

lemma put_store_outcome:
  assumes inv: "put_inv cap T kh off i home inc disp" and empty: "\<not> occ T (i mod unat cap)"
  shows "put_outcome kh (put_result kh off inc (entries cap T))
           (disp \<or> (\<forall>e \<in> entries cap T. key_hash e \<noteq> kh)) EF_OK True
           (entries cap (T(i mod unat cap := inc)))"
proof -
  have p: "i mod unat cap < unat cap" using put_inv_cap[OF inv] by (simp add: unat_gt_0)
  have absent: "key_hash e \<noteq> key_hash inc" if "e \<in> entries cap T" for e
    using that put_inv_absent[OF inv disjI1[OF empty]] unfolding entries_def by blast
  have E: "entries cap (T(i mod unat cap := inc)) = insert inc (entries cap T)"
    using entries_upd[OF _ p put_invD(3)[OF inv], of T] put_invD(1)[OF inv] empty
    by (simp add: rh_inv_def)
  show ?thesis
  proof (cases disp)
    case True
    with inv have "put_result kh off inc (entries cap T) = insert inc (entries cap T)"
      by (intro put_result_after) simp
    with True E show ?thesis by (simp add: put_outcome_def)
  next
    case False
    with inv have inc: "inc = \<lparr>key_hash = kh, slot_offset = off\<rparr>" by (intro put_inv_before) simp
    with absent have all: "\<forall>e \<in> entries cap T. key_hash e \<noteq> kh" by simp
    then have "{e \<in> entries cap T. key_hash e \<noteq> kh} = entries cap T" by blast
    with inc E all False show ?thesis by (simp add: put_outcome_def put_result_def)
  qed
qed

lemma put_replace:
  assumes inv: "put_inv cap T kh off i home inc disp"
    and cur: "occ T (i mod unat cap)" "key_hash (T (i mod unat cap)) = kh"
  defines "new \<equiv> \<lparr>key_hash = kh, slot_offset = off\<rparr>"
  shows "rh_inv cap (T(i mod unat cap := new)) \<and>
         put_outcome kh (put_result kh off inc (entries cap T))
           (disp \<or> (\<forall>e \<in> entries cap T. key_hash e \<noteq> kh)) EF_OK False
           (entries cap (T(i mod unat cap := new)))"
proof -
  have p: "i mod unat cap < unat cap" using put_inv_cap[OF inv] by (simp add: unat_gt_0)
  have nd: "\<not> disp" by (rule put_inv_key_seen[OF inv cur])
  have cap: "cap \<noteq> 0" and ord: "rh_order cap T" and dst: "rh_distinct cap T" and off: "off \<noteq> 0"
    using put_invD[OF inv] by (simp_all add: rh_inv_def)
  have inc: "inc = new" unfolding new_def using inv nd by (intro put_inv_before) simp
  have same: "edist cap new (i mod unat cap) = pdist cap T (i mod unat cap)"
    by (simp add: new_def pdist_def cur(2))
  have "rh_order cap (T(i mod unat cap := new))"
  proof (rule rh_order_upd[OF ord cap])
    fix q assume "q < unat cap" "Suc q mod unat cap = i mod unat cap" "0 < edist cap new (i mod unat cap)"
    then show "occ T q \<and> edist cap new (i mod unat cap) \<le> Suc (pdist cap T q)"
      using ord[unfolded rh_order_def, rule_format, of q] cur(1) same by simp
  qed (use same off in \<open>simp_all add: new_def\<close>)
  moreover have other: "key_hash (T q) \<noteq> key_hash new" if "q < unat cap" "q \<noteq> i mod unat cap" "occ T q" for q
    using dst[unfolded rh_distinct_def, rule_format, of q "i mod unat cap"] that cur p by (auto simp: new_def)
  ultimately have "rh_inv cap (T(i mod unat cap := new))"
    using cap by (simp add: rh_inv_def rh_distinct_upd[OF dst])
  moreover have member: "T (i mod unat cap) \<in> entries cap T"
    unfolding entries_def using p cur(1) by blast
  have only: "e = T (i mod unat cap)" if "e \<in> entries cap T" "key_hash e = kh" for e
    using entries_functional[OF put_invD(1)[OF inv] that(1) member] that(2) cur(2) by simp
  have "entries cap (T(i mod unat cap := new)) = insert new (entries cap T - {T (i mod unat cap)})"
    using entries_upd[OF dst p, of new] off cur(1) by (simp add: new_def)
  moreover have "{e \<in> entries cap T. key_hash e \<noteq> kh} = entries cap T - {T (i mod unat cap)}"
    using only cur(2) by blast
  moreover have "\<not> (disp \<or> (\<forall>e \<in> entries cap T. key_hash e \<noteq> kh))"
    using nd member cur(2) by blast
  ultimately show ?thesis
    using inc by (simp add: put_outcome_def put_result_def new_def[symmetric])
qed

text \<open>One turn of the loop, by what it finds at its position.\<close>

lemma put_loop_turn:
  fixes h cap i m
  defines "T \<equiv> entry_at m h" and "p \<equiv> i mod unat cap"
  shows "\<not> i < home + unat cap \<Longrightarrow> put_loop h cap kh off i home inc m = (EF_ERR_INDEX_FULL, False, m)"
    and "i < home + unat cap \<Longrightarrow> \<not> occ T p \<Longrightarrow>
      put_loop h cap kh off i home inc m = (EF_OK, True, set_entry m h p (key_hash inc) (slot_offset inc))"
    and "i < home + unat cap \<Longrightarrow> occ T p \<Longrightarrow> key_hash (T p) = kh \<Longrightarrow>
      put_loop h cap kh off i home inc m = (EF_OK, False, set_entry m h p kh off)"
    and "i < home + unat cap \<Longrightarrow> occ T p \<Longrightarrow> key_hash (T p) \<noteq> kh \<Longrightarrow>
      pdist cap T p < ef_hash_probe_dist cap home p \<Longrightarrow>
      put_loop h cap kh off i home inc m = put_loop h cap kh off (Suc i)
        (ef_hash_home cap (key_hash (T p))) (T p) (set_entry m h p (key_hash inc) (slot_offset inc))"
    and "i < home + unat cap \<Longrightarrow> occ T p \<Longrightarrow> key_hash (T p) \<noteq> kh \<Longrightarrow>
      \<not> pdist cap T p < ef_hash_probe_dist cap home p \<Longrightarrow>
      put_loop h cap kh off i home inc m = put_loop h cap kh off (Suc i) home inc m"
  unfolding T_def p_def occ_def pdist_def
  by (subst put_loop.simps, simp add: Let_def)+

lemma put_loop_correct:
  "put_inv cap (entry_at m h) kh off i home inc disp \<Longrightarrow>
   put_loop h cap kh off i home inc m = (err, added, m') \<Longrightarrow>
   rh_inv cap (entry_at m' h) \<and>
   put_outcome kh (put_result kh off inc (entries cap (entry_at m h)))
     (disp \<or> (\<forall>e \<in> entries cap (entry_at m h). key_hash e \<noteq> kh)) err added
     (entries cap (entry_at m' h))"
proof (induction h cap kh off i home inc m arbitrary: disp rule: put_loop.induct)
  case (1 h cap kh off i home inc m)
  let ?T = "entry_at m h" and ?p = "i mod unat cap"
  note inv = 1(3) and run = 1(4)
  show ?case
  proof (cases "i < home + unat cap")
    case False
    then have res: "err = EF_ERR_INDEX_FULL" "\<not> added" "m' = m"
      using run[unfolded put_loop_turn(1)[OF False]] by simp_all
    have inv': "put_inv cap ?T kh off i home inc True"
      using put_inv_exit[OF inv False] inv by simp
    have "put_result kh off inc (entries cap ?T) - {inc} = entries cap ?T"
      using put_result_after[OF inv'] put_inv_after(2)[OF inv'] by simp
    then show ?thesis
      using res put_invD(1)[OF inv] put_inv_after(1)[OF inv'] put_result_after[OF inv']
      by (simp add: put_outcome_def)
  next
    case i: True
    have dist: "ef_hash_probe_dist cap home ?p = i - home"
      using put_inv_home[OF inv i] put_invD(4)[OF inv] by simp
    consider (empty) "\<not> occ ?T ?p" | (found) "occ ?T ?p" "key_hash (?T ?p) = kh"
      | (displace) "occ ?T ?p" "key_hash (?T ?p) \<noteq> kh" "pdist cap ?T ?p < i - home"
      | (skip) "occ ?T ?p" "key_hash (?T ?p) \<noteq> kh" "i - home \<le> pdist cap ?T ?p"
      using not_le_imp_less by blast
    then show ?thesis
    proof cases
      case empty
      have "err = EF_OK" "added = True" and m': "m' = set_entry m h ?p (key_hash inc) (slot_offset inc)"
        using run[unfolded put_loop_turn(2)[OF i empty]] by simp_all
      note res = this(1,2) entry_at_upd_entry[of m h ?p inc, folded m']
      show ?thesis
        unfolding res using put_inv_store[OF inv i] put_store_outcome[OF inv] empty by blast
    next
      case found
      have "err = EF_OK" "added = False" and m': "m' = set_entry m h ?p kh off"
        using run[unfolded put_loop_turn(3)[OF i found]] by simp_all
      note res = this(1,2) entry_at_upd[of m h ?p kh off, folded m']
      show ?thesis unfolding res using put_replace[OF inv] found by blast
    next
      case displace
      let ?m = "set_entry m h ?p (key_hash inc) (slot_offset inc)"
      have mT: "entry_at ?m h = ?T(?p := inc)" by (rule entry_at_upd_entry)
      note away = displace(3)[folded dist]
      note inv' = put_inv_displace[OF inv i displace, folded mT]
      have "disp \<or> (\<forall>e \<in> entries cap ?T. key_hash e \<noteq> kh)"
      proof (cases disp)
        case False
        with inv have "inc = \<lparr>key_hash = kh, slot_offset = off\<rparr>" by (intro put_inv_before) simp
        then have "key_hash (?T q) \<noteq> kh" if "q < unat cap" "occ ?T q" for q
          using put_inv_absent[OF inv disjI2[OF displace(3)] that] by simp
        then show ?thesis unfolding entries_def by blast
      qed simp
      then show ?thesis
        using 1(1)[OF i refl refl displace(1)[unfolded occ_def] displace(2) away[unfolded pdist_def]
            inv' run[unfolded put_loop_turn(4)[OF i displace(1,2) away]]]
        unfolding mT put_result_displace[OF inv i displace(1,2)] by simp
    next
      case skip
      note near = skip(3)[folded dist, folded not_less]
      show ?thesis
        by (rule 1(2)[OF i refl refl skip(1)[unfolded occ_def] skip(2) near[unfolded pdist_def]
            put_inv_skip[OF inv skip] run[unfolded put_loop_turn(5)[OF i skip(1,2) near]]])
    qed
  qed
qed
end
