(* ===== verification/Hash_Delete.thy ===== *)
theory Hash_Delete
  imports Robin_Hood
begin

text \<open>
  Correctness of the backward-shift deletion. While the loop runs, the table still satisfies
  \<open>rh_order\<close>; the position being vacated holds a stale copy, so distinctness and the set of
  entries are stated for the table without that position.
\<close>

definition hole_distinct :: "u32 \<Rightarrow> table \<Rightarrow> nat \<Rightarrow> bool" where
  "hole_distinct cap T pos \<longleftrightarrow>
     (\<forall>p < unat cap. \<forall>q < unat cap. p \<noteq> pos \<and> q \<noteq> pos \<and> occ T p \<and> occ T q \<and>
        key_hash (T p) = key_hash (T q) \<longrightarrow> p = q)"

definition hole_entries :: "u32 \<Rightarrow> table \<Rightarrow> nat \<Rightarrow> ef_hash_entry set" where
  "hole_entries cap T pos = {T p | p. p < unat cap \<and> occ T p \<and> p \<noteq> pos}"

definition empty_entry :: ef_hash_entry where
  "empty_entry = \<lparr>key_hash = 0, slot_offset = 0\<rparr>"

lemma next_pos:
  assumes "pos < unat cap" "0 < pdist cap T (Suc pos mod unat cap)"
  shows "Suc pos mod unat cap \<noteq> pos" "Suc pos mod unat cap < unat cap"
    "edist cap (T (Suc pos mod unat cap)) pos = pdist cap T (Suc pos mod unat cap) - 1"
proof -
  let ?n = "Suc pos mod unat cap"
  have cap: "cap \<noteq> 0" using assms(1) by auto
  show "?n < unat cap" using assms(1) by simp
  show "?n \<noteq> pos"
  proof
    assume "?n = pos"
    then have "unat cap = 1" using assms(1) by (cases "Suc pos = unat cap") simp_all
    with probe_dist_less[OF cap] assms(2) show False by (simp add: pdist_def)
  qed
  show "edist cap (T ?n) pos = pdist cap T ?n - 1"
    using probe_dist_step[OF hash_home_less[OF cap] assms(1), of "key_hash (T ?n)"] assms(2)
    by (simp add: pdist_def ef_hash_probe_dist_def)
qed

lemma shift_order:
  assumes ord: "rh_order cap T" and pos: "pos < unat cap" "occ T pos"
    and nxt: "occ T (Suc pos mod unat cap)" "0 < pdist cap T (Suc pos mod unat cap)"
  shows "rh_order cap (T(pos := T (Suc pos mod unat cap)))"
proof -
  let ?n = "Suc pos mod unat cap" and ?T = "T(pos := T (Suc pos mod unat cap))"
  have cap: "cap \<noteq> 0" using pos by auto
  note next_facts = next_pos[OF pos(1) nxt(2)]
  have step: "pdist cap T ?n \<le> Suc (pdist cap T pos)"
    using ord[unfolded rh_order_def, rule_format, of pos] pos nxt by blast
  have off: "slot_offset (T ?n) \<noteq> 0" using nxt(1) by (simp add: occ_def ef_hash_entry_empty_def)
  show ?thesis
    unfolding rh_order_def
  proof (intro allI impI, elim conjE)
    fix p assume p: "p < unat cap" and o: "occ ?T (Suc p mod unat cap)"
      and d: "0 < pdist cap ?T (Suc p mod unat cap)"
    consider (into) "Suc p mod unat cap = pos" | (leave) "Suc p mod unat cap \<noteq> pos" "p = pos"
      | (other) "Suc p mod unat cap \<noteq> pos" "p \<noteq> pos" by blast
    then show "occ ?T p \<and> pdist cap ?T (Suc p mod unat cap) \<le> Suc (pdist cap ?T p)"
    proof cases
      case into
      have neq: "p \<noteq> pos" using into next_facts(1) by blast
      have d': "0 < pdist cap T ?n - 1" "pdist cap ?T pos = pdist cap T ?n - 1"
        using d into next_facts(3) by (simp_all add: pdist_upd)
      then have "0 < pdist cap T pos" using step by linarith
      then have "occ T p \<and> pdist cap T pos \<le> Suc (pdist cap T p)"
        using ord[unfolded rh_order_def, rule_format, of p] p into pos(2) by simp
      moreover from this d'(1) step have "pdist cap T ?n - 1 \<le> Suc (pdist cap T p)" by linarith
      ultimately show ?thesis using neq d'(2) into by (simp add: pdist_upd)
    next
      case leave
      then show ?thesis using next_facts(3) nxt(2) off by (simp add: pdist_upd)
    next
      case other
      then show ?thesis
        using ord[unfolded rh_order_def, rule_format, of p] p o d by (simp add: pdist_upd)
    qed
  qed
qed

lemma clear_order:
  assumes ord: "rh_order cap T"
    and nxt: "\<not> (occ T (Suc pos mod unat cap) \<and> 0 < pdist cap T (Suc pos mod unat cap))"
  shows "rh_order cap (T(pos := empty_entry))"
  unfolding rh_order_def
proof (intro allI impI, elim conjE)
  let ?T = "T(pos := empty_entry)"
  fix p assume p: "p < unat cap" and o: "occ ?T (Suc p mod unat cap)"
    and d: "0 < pdist cap ?T (Suc p mod unat cap)"
  have neq: "Suc p mod unat cap \<noteq> pos" using o by (auto simp: empty_entry_def)
  with o d have old: "occ T (Suc p mod unat cap)" "0 < pdist cap T (Suc p mod unat cap)"
    by (simp_all add: pdist_upd)
  with nxt have "p \<noteq> pos" by blast
  with ord[unfolded rh_order_def, rule_format, OF p conjI[OF old]] neq
  show "occ ?T p \<and> pdist cap ?T (Suc p mod unat cap) \<le> Suc (pdist cap ?T p)"
    by (simp add: pdist_upd)
qed

lemma shift_hole:
  assumes pos: "pos < unat cap" and nxt: "occ T (Suc pos mod unat cap)" "0 < pdist cap T (Suc pos mod unat cap)"
  defines "n \<equiv> Suc pos mod unat cap"
  shows "hole_distinct cap T pos \<Longrightarrow> hole_distinct cap (T(pos := T n)) n"
    and "hole_entries cap (T(pos := T n)) n = hole_entries cap T pos"
proof -
  note next_facts = next_pos[OF pos nxt(2), folded n_def]
  have off: "slot_offset (T n) \<noteq> 0" using nxt(1) by (simp add: occ_def ef_hash_entry_empty_def n_def)
  have occ': "occ (T(pos := T n)) p \<longleftrightarrow> (if p = pos then True else occ T p)" for p using off by simp
  show "hole_distinct cap (T(pos := T n)) n" if "hole_distinct cap T pos"
    unfolding hole_distinct_def
  proof (intro allI impI, elim conjE)
    fix p q assume pq: "p < unat cap" "q < unat cap" "p \<noteq> n" "q \<noteq> n" "occ (T(pos := T n)) p"
      "occ (T(pos := T n)) q" "key_hash ((T(pos := T n)) p) = key_hash ((T(pos := T n)) q)"
    have D: "\<lbrakk>a < unat cap; b < unat cap; a \<noteq> pos; b \<noteq> pos; occ T a; occ T b; key_hash (T a) = key_hash (T b)\<rbrakk>
        \<Longrightarrow> a = b" for a b
      using that unfolding hole_distinct_def by blast
    show "p = q"
      using D[of p q] D[of n q] D[of p n] pq next_facts(1,2) nxt(1)[folded n_def]
      by (cases "p = pos"; cases "q = pos") (simp_all add: occ')
  qed
  show "hole_entries cap (T(pos := T n)) n = hole_entries cap T pos" (is "?L = ?R")
  proof (rule set_eqI, rule iffI)
    fix x assume "x \<in> ?L"
    then obtain p where p: "p < unat cap" "occ (T(pos := T n)) p" "p \<noteq> n" "x = (T(pos := T n)) p"
      unfolding hole_entries_def by blast
    show "x \<in> ?R"
    proof (cases "p = pos")
      case True
      with p(4) show ?thesis unfolding hole_entries_def
        using next_facts(1,2) nxt(1)[folded n_def] by (intro CollectI exI[of _ n]) simp
    next
      case False
      with p show ?thesis unfolding hole_entries_def by (intro CollectI exI[of _ p]) (simp add: occ')
    qed
  next
    fix x assume "x \<in> ?R"
    then obtain p where p: "p < unat cap" "occ T p" "p \<noteq> pos" "x = T p"
      unfolding hole_entries_def by blast
    show "x \<in> ?L"
    proof (cases "p = n")
      case True
      with p(4) show ?thesis unfolding hole_entries_def
        using next_facts(1) pos off by (intro CollectI exI[of _ pos]) simp
    next
      case False
      with p show ?thesis unfolding hole_entries_def by (intro CollectI exI[of _ p]) (simp add: occ')
    qed
  qed
qed

lemma clear_hole:
  shows "hole_distinct cap T pos \<Longrightarrow> rh_distinct cap (T(pos := empty_entry))"
    and "entries cap (T(pos := empty_entry)) = hole_entries cap T pos"
proof -
  have occ': "occ (T(pos := empty_entry)) p \<longleftrightarrow> occ T p \<and> p \<noteq> pos" for p
    by (simp add: empty_entry_def)
  show "rh_distinct cap (T(pos := empty_entry))" if "hole_distinct cap T pos"
    using that unfolding hole_distinct_def rh_distinct_def occ' by (auto split: if_splits)
  show "entries cap (T(pos := empty_entry)) = hole_entries cap T pos"
    unfolding entries_def hole_entries_def occ' by (rule Collect_cong) auto
qed

lemma shift_loop_correct:
  "pos < unat cap \<Longrightarrow> rh_order cap (entry_at m h) \<Longrightarrow> occ (entry_at m h) pos \<Longrightarrow>
   hole_distinct cap (entry_at m h) pos \<Longrightarrow>
   rh_inv cap (entry_at (shift_loop h cap pos m) h) \<and>
   entries cap (entry_at (shift_loop h cap pos m) h) = hole_entries cap (entry_at m h) pos"
proof (induction h cap pos m rule: shift_loop.induct)
  case (1 h cap pos m)
  let ?T = "entry_at m h" and ?n = "Suc pos mod unat cap"
  note pos = 1(2) and ord = 1(3) and here = 1(4) and dst = 1(5)
  show ?case
  proof (cases "occ ?T ?n \<and> 0 < pdist cap ?T ?n")
    case False
    then have "shift_loop h cap pos m = set_entry m h pos 0 0"
      using pos by (subst shift_loop.simps) (auto simp: Let_def occ_def pdist_def)
    then have T': "entry_at (shift_loop h cap pos m) h = ?T(pos := empty_entry)"
      by (simp only: entry_at_upd empty_entry_def)
    have "cap \<noteq> 0" using pos by auto
    with clear_order[OF ord False] clear_hole(1)[OF dst] show ?thesis
      unfolding T' rh_inv_def clear_hole(2) by blast
  next
    case True
    let ?m = "set_entry m h pos (key_hash (?T ?n)) (slot_offset (?T ?n))"
    have T': "entry_at ?m h = ?T(pos := ?T ?n)" by (rule entry_at_upd_entry)
    have go: "shift_loop h cap pos m = shift_loop h cap ?n ?m"
      using pos True by (subst shift_loop.simps) (simp add: Let_def occ_def pdist_def)
    note nxt = next_pos[OF pos conjunct2[OF True]]
    have ne: "\<not> ef_hash_entry_empty (?T ?n)" "edist cap (?T ?n) ?n \<noteq> 0"
      using True by (simp_all add: occ_def pdist_def)
    have occ': "occ (entry_at ?m h) ?n" using True nxt(1) unfolding T' by simp
    from 1(1)[OF pos refl refl ne nxt(2) shift_order[OF ord pos here conjunct1[OF True] conjunct2[OF True], folded T']
        occ' shift_hole(1)[OF pos conjunct1[OF True] conjunct2[OF True] dst, folded T']]
    show ?thesis
      unfolding go shift_hole(2)[OF pos conjunct1[OF True] conjunct2[OF True], folded T'] .
  qed
qed


subsection \<open>Deleting a key\<close>

lemma remove_loop_sound:
  "remove_loop h cap kh i n m = Some m' \<Longrightarrow> 0 < unat cap \<Longrightarrow>
   \<exists>q < unat cap. occ (entry_at m h) q \<and> key_hash (entry_at m h q) = kh \<and> m' = shift_loop h cap q m"
proof (induction n arbitrary: i)
  case 0
  then show ?case by simp
next
  case (Suc n)
  let ?p = "i mod unat cap" and ?T = "entry_at m h"
  show ?case
  proof (cases "occ ?T ?p \<and> key_hash (?T ?p) = kh")
    case True
    then have "m' = shift_loop h cap ?p m" using Suc.prems(1) by (simp add: Let_def occ_def)
    with True Suc.prems(2) show ?thesis by (intro exI[of _ ?p]) simp
  next
    case False
    then have "remove_loop h cap kh (Suc i) n m = Some m'"
      using Suc.prems(1) by (simp add: Let_def occ_def split: if_splits)
    with Suc.IH Suc.prems(2) show ?thesis by blast
  qed
qed

lemma remove_loop_none:
  "remove_loop h cap kh i n m = None \<longleftrightarrow> find_loop m h cap kh i n = Inl EF_ERR_NOT_FOUND"
  by (induction n arbitrary: i) (auto simp: Let_def)

lemma remove_loop_correct:
  assumes inv: "rh_inv cap (entry_at m h)"
    and run: "remove_loop h cap kh i n m = Some m'"
  shows "rh_inv cap (entry_at m' h) \<and>
         entries cap (entry_at m' h) = {e \<in> entries cap (entry_at m h). key_hash e \<noteq> kh}"
proof -
  let ?T = "entry_at m h"
  have cap: "0 < unat cap" using inv by (simp add: rh_inv_def unat_gt_0)
  obtain q where q: "q < unat cap" "occ ?T q" "key_hash (?T q) = kh" "m' = shift_loop h cap q m"
    using remove_loop_sound[OF run cap] by blast
  have dst: "rh_distinct cap ?T" and ord: "rh_order cap ?T" using inv by (simp_all add: rh_inv_def)
  have hole: "hole_distinct cap ?T q"
    using dst unfolding hole_distinct_def rh_distinct_def by blast
  have key: "key_hash (?T p) = kh \<longleftrightarrow> p = q" if "p < unat cap" "occ ?T p" for p
    using dst[unfolded rh_distinct_def, rule_format, of p q] that q by auto
  have "hole_entries cap ?T q = {e \<in> entries cap ?T. key_hash e \<noteq> kh}"
    unfolding hole_entries_def entries_def using key by blast
  with shift_loop_correct[OF q(1) ord q(2) hole] q(4) show ?thesis by simp
qed

end
