(* ===== verification/Hash_Map.thy ===== *)
theory Hash_Map
  imports Hash_Delete
begin

text \<open>
  The hash index as a finite map from key hashes to slot offsets. \<open>key_index\<close> is the contract the
  rest of the library relies on (what a lookup returns after an insertion and a deletion); the
  Robin Hood table of \<open>Hash_Table\<close> is shown to meet it.
\<close>

definition index_lookup :: "ef_db \<Rightarrow> u64 \<Rightarrow> u64 option" where
  "index_lookup db kh =
     (case ef_index_find_entry_unlocked db kh of Inl _ \<Rightarrow> None | Inr e \<Rightarrow> Some (slot_offset e))"

definition index_inv :: "ef_db \<Rightarrow> bool" where
  "index_inv db \<longleftrightarrow>
     (case hash_index db of None \<Rightarrow> False
      | Some h \<Rightarrow> hash_capacity db AND (hash_capacity db - 1) = 0 \<and>
                  rh_inv (hash_capacity db) (entry_at (mem db) h))"

definition index_has_room :: "ef_db \<Rightarrow> bool" where
  "index_has_room db \<longleftrightarrow>
     (case hash_index db of None \<Rightarrow> False
      | Some h \<Rightarrow> \<exists>e < unat (hash_capacity db). \<not> occ (entry_at (mem db) h) e)"

lemma index_invD:
  assumes "index_inv db"
  obtains h where "hash_index db = Some h" "hash_capacity db AND (hash_capacity db - 1) = 0"
    "rh_inv (hash_capacity db) (entry_at (mem db) h)" "hash_capacity db \<noteq> 0"
  using assms by (auto simp: index_inv_def rh_inv_def split: option.splits)

lemma index_lookup_iff:
  assumes "index_inv db" "hash_index db = Some h"
  shows "index_lookup db kh = Some off \<longleftrightarrow>
         \<lparr>key_hash = kh, slot_offset = off\<rparr> \<in> entries (hash_capacity db) (entry_at (mem db) h)"
proof -
  let ?cap = "hash_capacity db"
  have inv: "rh_inv ?cap (entry_at (mem db) h)" "?cap \<noteq> 0"
    using assms by (auto simp: index_inv_def rh_inv_def)
  then have "ef_index_find_entry_unlocked db kh =
      find_loop (mem db) h ?cap kh (ef_hash_home ?cap kh) (unat ?cap)"
    using assms(2) by (simp add: ef_index_find_entry_unlocked_def Let_def)
  note found = find_loop_iff[OF inv(1), of kh, folded this]
  show ?thesis
  proof
    assume "index_lookup db kh = Some off"
    then obtain e where "ef_index_find_entry_unlocked db kh = Inr e" "slot_offset e = off"
      by (auto simp: index_lookup_def split: sum.splits)
    moreover from this(1) have "e \<in> entries ?cap (entry_at (mem db) h) \<and> key_hash e = kh" by (simp only: found)
    ultimately show "\<lparr>key_hash = kh, slot_offset = off\<rparr> \<in> entries ?cap (entry_at (mem db) h)"
      by (cases e) simp
  next
    assume "\<lparr>key_hash = kh, slot_offset = off\<rparr> \<in> entries ?cap (entry_at (mem db) h)"
    then have "ef_index_find_entry_unlocked db kh = Inr \<lparr>key_hash = kh, slot_offset = off\<rparr>"
      by (simp add: found)
    then show "index_lookup db kh = Some off" by (simp add: index_lookup_def)
  qed
qed

lemma index_lookup_none:
  assumes "index_inv db" "hash_index db = Some h"
  shows "index_lookup db kh = None \<longleftrightarrow>
         (\<forall>e \<in> entries (hash_capacity db) (entry_at (mem db) h). key_hash e \<noteq> kh)"
proof -
  have "index_lookup db kh \<noteq> None \<longleftrightarrow>
        (\<exists>off. \<lparr>key_hash = kh, slot_offset = off\<rparr> \<in> entries (hash_capacity db) (entry_at (mem db) h))"
    using index_lookup_iff[OF assms] by auto
  also have "\<dots> \<longleftrightarrow> (\<exists>e \<in> entries (hash_capacity db) (entry_at (mem db) h). key_hash e = kh)"
  proof
    assume "\<exists>e \<in> entries (hash_capacity db) (entry_at (mem db) h). key_hash e = kh"
    then obtain e where "e \<in> entries (hash_capacity db) (entry_at (mem db) h)" "key_hash e = kh" by blast
    then show "\<exists>off. \<lparr>key_hash = kh, slot_offset = off\<rparr> \<in> entries (hash_capacity db) (entry_at (mem db) h)"
      by (cases e) auto
  next
    assume "\<exists>off. \<lparr>key_hash = kh, slot_offset = off\<rparr> \<in> entries (hash_capacity db) (entry_at (mem db) h)"
    then obtain off where "\<lparr>key_hash = kh, slot_offset = off\<rparr> \<in> entries (hash_capacity db) (entry_at (mem db) h)"
      by blast
    then show "\<exists>e \<in> entries (hash_capacity db) (entry_at (mem db) h). key_hash e = kh"
      by (intro bexI[of _ "\<lparr>key_hash = kh, slot_offset = off\<rparr>"]) simp_all
  qed
  finally show ?thesis by blast
qed

text \<open>Lookups are determined by the set of entries.\<close>

lemma index_lookup_eqI:
  assumes "index_inv db" "hash_index db = Some h" "hash_capacity db = cap"
    and "\<And>kh off. \<lparr>key_hash = kh, slot_offset = off\<rparr> \<in> entries cap (entry_at (mem db) h) \<longleftrightarrow> M kh = Some off"
  shows "index_lookup db = M"
proof
  fix kh
  have "index_lookup db kh = Some off \<longleftrightarrow> M kh = Some off" for off
    using index_lookup_iff[OF assms(1,2)] assms(3,4) by simp
  then show "index_lookup db kh = M kh" by (cases "M kh") auto
qed

subsection \<open>Insertion\<close>

lemma put_inv_start:
  assumes "rh_inv cap T" "\<exists>e < unat cap. \<not> occ T e" "off \<noteq> 0"
  shows "put_inv cap T kh off (ef_hash_home cap kh) (ef_hash_home cap kh)
           \<lparr>key_hash = kh, slot_offset = off\<rparr> False"
  using assms by (auto simp: put_inv_def)

lemma put_entry_run:
  assumes "hash_index db = Some h" "hash_capacity db \<noteq> 0"
    "hash_capacity db AND (hash_capacity db - 1) = 0"
    "ef_index_put_entry db kh off = (err, added, db')"
  obtains m' where "put_loop h (hash_capacity db) kh off (ef_hash_home (hash_capacity db) kh)
      (ef_hash_home (hash_capacity db) kh) \<lparr>key_hash = kh, slot_offset = off\<rparr> (mem db) = (err, added, m')"
    "db' = db\<lparr>mem := m'\<rparr>"
  using assms by (auto simp: ef_index_put_entry_def Let_def split: prod.splits)

lemma put_entry_outcome:
  assumes inv: "index_inv db" and room: "index_has_room db" and off: "off \<noteq> 0"
    and run: "ef_index_put_entry db kh off = (err, added, db')"
  obtains h where "hash_index db = Some h" "hash_index db' = Some h" "hash_capacity db' = hash_capacity db"
    "index_inv db'"
    "put_outcome kh (insert \<lparr>key_hash = kh, slot_offset = off\<rparr>
         {e \<in> entries (hash_capacity db) (entry_at (mem db) h). key_hash e \<noteq> kh})
       (index_lookup db kh = None) err added (entries (hash_capacity db) (entry_at (mem db') h))"
proof -
  from inv obtain h where h: "hash_index db = Some h" "hash_capacity db AND (hash_capacity db - 1) = 0"
    "rh_inv (hash_capacity db) (entry_at (mem db) h)" "hash_capacity db \<noteq> 0" by (rule index_invD)
  from put_entry_run[OF h(1,4,2) run] obtain m' where
    loop: "put_loop h (hash_capacity db) kh off (ef_hash_home (hash_capacity db) kh)
      (ef_hash_home (hash_capacity db) kh) \<lparr>key_hash = kh, slot_offset = off\<rparr> (mem db) = (err, added, m')"
    and db': "db' = db\<lparr>mem := m'\<rparr>" .
  have "\<exists>e < unat (hash_capacity db). \<not> occ (entry_at (mem db) h) e"
    using room h(1) by (simp add: index_has_room_def)
  note start = put_inv_start[OF h(3) this off, of kh]
  have res: "put_result kh off \<lparr>key_hash = kh, slot_offset = off\<rparr> E =
      insert \<lparr>key_hash = kh, slot_offset = off\<rparr> {e \<in> E. key_hash e \<noteq> kh}" for E
    by (auto simp: put_result_def)
  from put_loop_correct[OF start loop]
  have out: "rh_inv (hash_capacity db) (entry_at m' h)"
    "put_outcome kh (insert \<lparr>key_hash = kh, slot_offset = off\<rparr>
         {e \<in> entries (hash_capacity db) (entry_at (mem db) h). key_hash e \<noteq> kh})
       (index_lookup db kh = None) err added (entries (hash_capacity db) (entry_at m' h))"
    unfolding res index_lookup_none[OF inv h(1)] simp_thms by blast+
  have "index_inv db'" using out(1) h by (simp add: db' index_inv_def)
  with that[OF h(1)] out(2) db' h(1) show thesis by simp
qed

lemma put_entry_map:
  assumes inv: "index_inv db" and room: "index_has_room db" and off: "off \<noteq> 0"
    and run: "ef_index_put_entry db kh off = (EF_OK, added, db')"
  shows "index_inv db' \<and> index_lookup db' = (index_lookup db)(kh \<mapsto> off) \<and>
         (added \<longleftrightarrow> index_lookup db kh = None)"
proof -
  from put_entry_outcome[OF inv room off run] obtain h where h: "hash_index db = Some h"
    "hash_index db' = Some h" "hash_capacity db' = hash_capacity db" "index_inv db'"
    and out: "put_outcome kh (insert \<lparr>key_hash = kh, slot_offset = off\<rparr>
         {e \<in> entries (hash_capacity db) (entry_at (mem db) h). key_hash e \<noteq> kh})
       (index_lookup db kh = None) EF_OK added (entries (hash_capacity db) (entry_at (mem db') h))" .
  then have E: "entries (hash_capacity db) (entry_at (mem db') h) = insert \<lparr>key_hash = kh, slot_offset = off\<rparr>
         {e \<in> entries (hash_capacity db) (entry_at (mem db) h). key_hash e \<noteq> kh}"
    and added: "added \<longleftrightarrow> index_lookup db kh = None"
    by (simp_all add: put_outcome_def)
  have "index_lookup db' = (index_lookup db)(kh \<mapsto> off)"
    by (rule index_lookup_eqI[OF h(4,2,3)]) (auto simp: E index_lookup_iff[OF inv h(1)])
  with h(4) added show ?thesis by blast
qed

text \<open>
  An insertion that gives up has already stored the new pair and dropped one other key.
\<close>

lemma put_entry_full:
  assumes inv: "index_inv db" and room: "index_has_room db" and off: "off \<noteq> 0"
    and run: "ef_index_put_entry db kh off = (err, added, db')" "err \<noteq> EF_OK"
  shows "err = EF_ERR_INDEX_FULL \<and> index_inv db' \<and>
         (\<exists>victim. victim \<noteq> kh \<and> index_lookup db victim \<noteq> None \<and>
            index_lookup db' = (index_lookup db)(kh \<mapsto> off, victim := None))"
proof -
  from put_entry_outcome[OF inv room off run(1)] obtain h where h: "hash_index db = Some h"
    "hash_index db' = Some h" "hash_capacity db' = hash_capacity db" "index_inv db'"
    and out: "put_outcome kh (insert \<lparr>key_hash = kh, slot_offset = off\<rparr>
         {e \<in> entries (hash_capacity db) (entry_at (mem db) h). key_hash e \<noteq> kh})
       (index_lookup db kh = None) err added (entries (hash_capacity db) (entry_at (mem db') h))" .
  let ?E = "entries (hash_capacity db) (entry_at (mem db) h)"
  from out run(2) obtain v where err: "err = EF_ERR_INDEX_FULL" and v: "v \<in> ?E" "key_hash v \<noteq> kh"
    and E: "entries (hash_capacity db) (entry_at (mem db') h) =
      insert \<lparr>key_hash = kh, slot_offset = off\<rparr> {e \<in> ?E. key_hash e \<noteq> kh} - {v}"
    by (auto simp: put_outcome_def)
  have rinv: "rh_inv (hash_capacity db) (entry_at (mem db) h)" using inv h(1) by (simp add: index_inv_def)
  have only: "e = v" if "e \<in> ?E" "key_hash e = key_hash v" for e
    using entries_functional[OF rinv that(1) v(1) that(2)] .
  have "index_lookup db' = (index_lookup db)(kh \<mapsto> off, key_hash v := None)"
  proof (rule index_lookup_eqI[OF h(4,2,3)])
    fix k x
    show "\<lparr>key_hash = k, slot_offset = x\<rparr> \<in> entries (hash_capacity db) (entry_at (mem db') h) \<longleftrightarrow>
        ((index_lookup db)(kh \<mapsto> off, key_hash v := None)) k = Some x"
      using v only[of "\<lparr>key_hash = k, slot_offset = x\<rparr>"] by (auto simp: E index_lookup_iff[OF inv h(1)])
  qed
  moreover have "index_lookup db (key_hash v) \<noteq> None"
    using v(1) unfolding index_lookup_none[OF inv h(1)] by blast
  ultimately show ?thesis using err h(4) v(2) by blast
qed

text \<open>The insertion succeeds whenever the table has an empty position at or after the key's home.\<close>

lemma put_loop_ok:
  "i \<le> e \<Longrightarrow> e < unat cap \<Longrightarrow> \<not> occ (entry_at m h) e \<Longrightarrow> fst (put_loop h cap kh off i home inc m) = EF_OK"
proof (induction h cap kh off i home inc m rule: put_loop.induct)
  case (1 h cap kh off i home inc m)
  let ?T = "entry_at m h"
  have p: "i mod unat cap = i" and i: "i < home + unat cap" using 1(3,4) by simp_all
  consider (empty) "\<not> occ ?T i" | (found) "occ ?T i" "key_hash (?T i) = kh"
    | (displace) "occ ?T i" "key_hash (?T i) \<noteq> kh" "pdist cap ?T i < ef_hash_probe_dist cap home i"
    | (skip) "occ ?T i" "key_hash (?T i) \<noteq> kh" "\<not> pdist cap ?T i < ef_hash_probe_dist cap home i"
    by blast
  then show ?case
  proof cases
    case empty
    then show ?thesis using put_loop_turn(2)[OF i] p by simp
  next
    case found
    then show ?thesis using put_loop_turn(3)[OF i] p by simp
  next
    case displace
    then have neq: "i \<noteq> e" using 1(5) by blast
    with 1(3) have le: "Suc i \<le> e" by simp
    let ?m = "set_entry m h i (key_hash inc) (slot_offset inc)"
    have "\<not> occ (entry_at ?m h) e" using 1(5) neq by (simp add: entry_at_upd_entry)
    then have "fst (put_loop h cap kh off (Suc i) (ef_hash_home cap (key_hash (?T i))) (?T i) ?m) = EF_OK"
      using 1(1)[OF i refl refl] displace le 1(4) by (simp add: p occ_def pdist_def)
    then show ?thesis using put_loop_turn(4)[OF i] displace p by simp
  next
    case skip
    then have "i \<noteq> e" using 1(5) by blast
    with 1(3) have le: "Suc i \<le> e" by simp
    have "fst (put_loop h cap kh off (Suc i) home inc m) = EF_OK"
      using 1(2)[OF i refl refl] skip le 1(4,5) by (simp add: p occ_def pdist_def)
    then show ?thesis using put_loop_turn(5)[OF i] skip p by simp
  qed
qed

lemma put_entry_ok:
  assumes "index_inv db" "hash_index db = Some h"
    and "ef_hash_home (hash_capacity db) kh \<le> e" "e < unat (hash_capacity db)" "\<not> occ (entry_at (mem db) h) e"
  shows "fst (ef_index_put_entry db kh off) = EF_OK"
proof -
  have "hash_capacity db \<noteq> 0" "hash_capacity db AND (hash_capacity db - 1) = 0"
    using assms(1,2) by (auto simp: index_inv_def rh_inv_def)
  moreover obtain err added m' where
    "put_loop h (hash_capacity db) kh off (ef_hash_home (hash_capacity db) kh)
      (ef_hash_home (hash_capacity db) kh) \<lparr>key_hash = kh, slot_offset = off\<rparr> (mem db) = (err, added, m')"
    using prod_cases3 by blast
  moreover from this have "err = EF_OK"
    using put_loop_ok[OF assms(3,4,5), of kh off "ef_hash_home (hash_capacity db) kh"
        "\<lparr>key_hash = kh, slot_offset = off\<rparr>"] by simp
  ultimately show ?thesis
    using assms(2) by (simp add: ef_index_put_entry_def Let_def)
qed

subsection \<open>Deletion\<close>

lemma remove_map:
  assumes inv: "index_inv db" and run: "ef_index_remove_by_hash db kh = (EF_OK, db')"
  shows "index_inv db' \<and> index_lookup db' = (index_lookup db)(kh := None)"
proof -
  from inv obtain h where h: "hash_index db = Some h" "hash_capacity db AND (hash_capacity db - 1) = 0"
    "rh_inv (hash_capacity db) (entry_at (mem db) h)" "hash_capacity db \<noteq> 0" by (rule index_invD)
  from run h obtain m' where
    loop: "remove_loop h (hash_capacity db) kh (ef_hash_home (hash_capacity db) kh)
             (unat (hash_capacity db)) (mem db) = Some m'"
    and db': "mem db' = m'" "hash_index db' = Some h" "hash_capacity db' = hash_capacity db"
    by (auto simp: ef_index_remove_by_hash_def Let_def split: option.splits)
  note res = remove_loop_correct[OF h(3) loop]
  have inv': "index_inv db'" using res h db' by (simp add: index_inv_def)
  have "index_lookup db' = (index_lookup db)(kh := None)"
    by (rule index_lookup_eqI[OF inv' db'(2,3)])
      (use res db'(1) in \<open>auto simp: index_lookup_iff[OF inv h(1)]\<close>)
  with inv' show ?thesis by blast
qed

lemma remove_result:
  assumes inv: "index_inv db"
  shows "fst (ef_index_remove_by_hash db kh) =
           (if index_lookup db kh = None then EF_ERR_NOT_FOUND else EF_OK)"
    and "index_lookup db kh = None \<Longrightarrow> snd (ef_index_remove_by_hash db kh) = db"
proof -
  from inv obtain h where h: "hash_index db = Some h" "hash_capacity db \<noteq> 0" by (rule index_invD)
  let ?cap = "hash_capacity db"
  have find: "ef_index_find_entry_unlocked db kh =
      find_loop (mem db) h ?cap kh (ef_hash_home ?cap kh) (unat ?cap)"
    using h by (simp add: ef_index_find_entry_unlocked_def Let_def)
  have none: "remove_loop h ?cap kh (ef_hash_home ?cap kh) (unat ?cap) (mem db) = None \<longleftrightarrow>
      index_lookup db kh = None"
    unfolding remove_loop_none index_lookup_def find[symmetric]
    using find_loop_fail[of "mem db" h ?cap kh] find by (auto split: sum.splits)
  show "fst (ef_index_remove_by_hash db kh) =
      (if index_lookup db kh = None then EF_ERR_NOT_FOUND else EF_OK)"
    using none h by (auto simp: ef_index_remove_by_hash_def Let_def split: option.splits)
  show "index_lookup db kh = None \<Longrightarrow> snd (ef_index_remove_by_hash db kh) = db"
    using none h by (auto simp: ef_index_remove_by_hash_def Let_def split: option.splits)
qed

subsection \<open>The contract of a key index\<close>

locale key_index =
  fixes lookup :: "'s \<Rightarrow> u64 \<Rightarrow> u64 option"
    and put :: "'s \<Rightarrow> u64 \<Rightarrow> u64 \<Rightarrow> ef_err \<times> bool \<times> 's"
    and remove :: "'s \<Rightarrow> u64 \<Rightarrow> ef_err \<times> 's"
    and inv :: "'s \<Rightarrow> bool"
    and room :: "'s \<Rightarrow> bool"
  assumes put_ok: "inv s \<Longrightarrow> room s \<Longrightarrow> off \<noteq> 0 \<Longrightarrow> put s k off = (EF_OK, added, s') \<Longrightarrow>
      inv s' \<and> lookup s' = (lookup s)(k \<mapsto> off) \<and> (added \<longleftrightarrow> lookup s k = None)"
    and remove_ok: "inv s \<Longrightarrow> remove s k = (EF_OK, s') \<Longrightarrow> inv s' \<and> lookup s' = (lookup s)(k := None)"
    and remove_err: "inv s \<Longrightarrow> fst (remove s k) = (if lookup s k = None then EF_ERR_NOT_FOUND else EF_OK)"
    and remove_absent: "inv s \<Longrightarrow> lookup s k = None \<Longrightarrow> snd (remove s k) = s"
begin

lemma remove_lookup: "inv s \<Longrightarrow> inv (snd (remove s k)) \<and> lookup (snd (remove s k)) = (lookup s)(k := None)"
  using remove_ok[of s k "snd (remove s k)"] remove_err[of s k] remove_absent[of s k]
  by (cases "lookup s k"; cases "remove s k") (auto simp: fun_upd_idem)

lemma put_remove:
  assumes "inv s" "room s" "off \<noteq> 0" "put s k off = (EF_OK, added, s')"
  shows "lookup (snd (remove s' k)) = (lookup s)(k := None)"
  using put_ok[OF assms] remove_lookup[of s' k] by simp

text \<open>Taking back a fresh insertion, as a transaction abort does, restores the map.\<close>

lemma put_undo:
  assumes "inv s" "room s" "off \<noteq> 0" "put s k off = (EF_OK, True, s')"
  shows "lookup (snd (remove s' k)) = lookup s"
  using put_remove[OF assms] put_ok[OF assms] by (simp add: fun_upd_idem)

end

interpretation rh_index: key_index index_lookup ef_index_put_entry ef_index_remove_by_hash
  index_inv index_has_room
  by unfold_locales (use put_entry_map remove_map remove_result in blast)+

end
