(* ===== verification/Index_Policy.thy ===== *)
theory Index_Policy
  imports Hash_Map
begin

text \<open>
  The capacity policy of \<^verbatim>\<open>ef_index.c\<close>: when the table must grow, to which capacity, and to which
  capacity it may shrink.
\<close>

definition EF_INDEX_REHASH_LOAD_FACTOR_NUM :: u32 where "EF_INDEX_REHASH_LOAD_FACTOR_NUM = 3"
definition EF_INDEX_REHASH_LOAD_FACTOR_DEN :: u32 where "EF_INDEX_REHASH_LOAD_FACTOR_DEN = 4"
definition EF_INDEX_SHRINK_LOAD_FACTOR_NUM :: u32 where "EF_INDEX_SHRINK_LOAD_FACTOR_NUM = 1"
definition EF_INDEX_SHRINK_LOAD_FACTOR_DEN :: u32 where "EF_INDEX_SHRINK_LOAD_FACTOR_DEN = 8"
definition EF_INDEX_MAX_CAPACITY :: u32 where "EF_INDEX_MAX_CAPACITY = 0xFFFF"
definition EF_DEFAULT_HASH_MIN :: u32 where "EF_DEFAULT_HASH_MIN = 16"

lemmas ef_policy_defs = EF_INDEX_REHASH_LOAD_FACTOR_NUM_def EF_INDEX_REHASH_LOAD_FACTOR_DEN_def
  EF_INDEX_SHRINK_LOAD_FACTOR_NUM_def EF_INDEX_SHRINK_LOAD_FACTOR_DEN_def EF_INDEX_MAX_CAPACITY_def
  EF_DEFAULT_HASH_MIN_def

text \<open>The product is taken in 64 bits, the sum \<^verbatim>\<open>count + 1U\<close> in 32.\<close>

definition ef_index_needs_grow :: "u32 \<Rightarrow> u32 \<Rightarrow> bool" where
  "ef_index_needs_grow count cap \<longleftrightarrow>
     (ucast cap :: u64) * ucast EF_INDEX_REHASH_LOAD_FACTOR_NUM
     < ucast (count + 1) * ucast EF_INDEX_REHASH_LOAD_FACTOR_DEN"

text \<open>
  The doubling loop. Its guard \<open>cap \<noteq> 0\<close> holds at every call: the first capacity is at least 16
  and no later one wraps.
\<close>

function pick_loop :: "u32 \<Rightarrow> u32 \<Rightarrow> u32" where
  "pick_loop n_ent cap =
     (if cap \<noteq> 0 \<and>
         (ucast cap * ucast EF_INDEX_REHASH_LOAD_FACTOR_NUM :: u64) div ucast EF_INDEX_REHASH_LOAD_FACTOR_DEN
         < ucast n_ent
      then if drop_bit 1 EF_INDEX_MAX_CAPACITY < cap then 0 else pick_loop n_ent (push_bit 1 cap)
      else cap)"
  by pat_completeness auto
termination
proof (relation "measure (\<lambda>(n_ent, cap). 2 ^ 16 - unat cap)", goal_cases)
  case 1
  then show ?case by simp
next
  case (2 n_ent cap)
  then have small: "unat cap \<le> 0x7FFF" "0 < unat cap"
    by (simp_all add: EF_INDEX_MAX_CAPACITY_def not_less word_le_nat_alt drop_bit_eq_div unat_div unat_gt_0)
  then have "unat (push_bit 1 cap) = 2 * unat cap"
    by (simp add: push_bit_eq_mult unat_word_ariths)
  with small show ?case by simp
qed

declare pick_loop.simps [simp del]

definition ef_index_pick_capacity :: "u32 \<Rightarrow> u32 \<Rightarrow> u32" where
  "ef_index_pick_capacity n_ent min_capacity =
     (let cap = (if min_capacity < EF_DEFAULT_HASH_MIN then EF_DEFAULT_HASH_MIN else min_capacity);
          max_entries = (ucast EF_INDEX_MAX_CAPACITY * ucast EF_INDEX_REHASH_LOAD_FACTOR_NUM :: u64)
                          div ucast EF_INDEX_REHASH_LOAD_FACTOR_DEN
      in if max_entries < ucast n_ent then 0 else pick_loop n_ent cap)"

text \<open>
  The rounding loop of \<^verbatim>\<open>ef_index_pick_shrink_capacity\<close>. The bound below \<open>2 ^ 31\<close> holds whenever
  the loop body is entered, the requirement being at most a third of \<open>2 ^ 32\<close>.
\<close>

function round_up_loop :: "u32 \<Rightarrow> u32 \<Rightarrow> u32" where
  "round_up_loop min_required cap =
     (if cap < min_required \<and> 0 < cap \<and> cap < 0x80000000
      then round_up_loop min_required (push_bit 1 cap) else cap)"
  by pat_completeness auto
termination
proof (relation "measure (\<lambda>(r, cap). 2 ^ 32 - unat cap)", goal_cases)
  case 1
  then show ?case by simp
next
  case (2 r cap)
  then have small: "unat cap < 2 ^ 31" "0 < unat cap"
    by (simp_all add: word_less_nat_alt)
  then have "unat (push_bit 1 cap) = 2 * unat cap"
    by (simp add: push_bit_eq_mult unat_word_ariths)
  with small show ?case by simp
qed

declare round_up_loop.simps [simp del]

function shrink_loop :: "u32 \<Rightarrow> u32 \<Rightarrow> u32" where
  "shrink_loop n_ent cap =
     (if EF_DEFAULT_HASH_MIN < cap then
        if n_ent = 0 then cap
        else if (ucast n_ent * ucast EF_INDEX_SHRINK_LOAD_FACTOR_NUM :: u64)
                \<le> ucast cap * ucast EF_INDEX_SHRINK_LOAD_FACTOR_DEN then cap
        else shrink_loop n_ent (drop_bit 1 cap)
      else EF_DEFAULT_HASH_MIN)"
  by pat_completeness auto
termination
  by (relation "measure (\<lambda>(n, cap). unat cap)")
     (auto simp: EF_DEFAULT_HASH_MIN_def drop_bit_eq_div unat_div word_less_nat_alt)

declare shrink_loop.simps [simp del]

text \<open>\<open>min_required\<close> is computed in 32-bit arithmetic, as in the source.\<close>

definition ef_index_pick_shrink_capacity :: "u32 \<Rightarrow> u32 \<Rightarrow> u32" where
  "ef_index_pick_shrink_capacity n_ent current_capacity =
     (if current_capacity = 0 \<or> current_capacity AND (current_capacity - 1) \<noteq> 0 then 0
      else if 0xFFFF < current_capacity then 0
      else
        let min_required = n_ent * EF_INDEX_REHASH_LOAD_FACTOR_DEN div EF_INDEX_REHASH_LOAD_FACTOR_NUM;
            min_required = (if min_required * EF_INDEX_REHASH_LOAD_FACTOR_NUM
                               < n_ent * EF_INDEX_REHASH_LOAD_FACTOR_DEN
                            then min_required + 1 else min_required);
            cap = (if 0 < n_ent then round_up_loop min_required EF_DEFAULT_HASH_MIN
                   else EF_DEFAULT_HASH_MIN)
        in if current_capacity \<le> cap then 0
           else if n_ent \<noteq> 0 \<and>
                   (ucast current_capacity * ucast EF_INDEX_SHRINK_LOAD_FACTOR_NUM :: u64)
                   \<le> ucast n_ent * ucast EF_INDEX_SHRINK_LOAD_FACTOR_DEN then 0
           else shrink_loop n_ent cap)"

subsection \<open>What the policy guarantees\<close>

lemma unat_ucast_u32 [simp]: "unat (ucast (x :: u32) :: u64) = unat x"
  using unat_u32_bound[of x] by (simp add: unsigned_ucast_eq take_bit_nat_eq_self)

lemma unat_mult_u64:
  "unat x * unat y < 2 ^ 64 \<Longrightarrow> unat (x * y :: u64) = unat x * unat y"
  by (simp add: unat_word_ariths)

lemma pick_loop_cond:
  "(ucast cap * ucast EF_INDEX_REHASH_LOAD_FACTOR_NUM :: u64) div ucast EF_INDEX_REHASH_LOAD_FACTOR_DEN
     < ucast n_ent \<longleftrightarrow> unat cap * 3 div 4 < unat n_ent" for cap n_ent :: u32
proof -
  have "unat (ucast cap * ucast EF_INDEX_REHASH_LOAD_FACTOR_NUM :: u64) = unat cap * 3"
    using unat_u32_bound[of cap] by (subst unat_mult_u64) (simp_all add: ef_policy_defs)
  then show ?thesis by (simp add: word_less_nat_alt unat_div ef_policy_defs)
qed

lemma pick_loop_result:
  assumes "pick_loop n_ent cap = r" "r \<noteq> 0"
  shows "unat n_ent \<le> unat r * 3 div 4 \<and> (\<exists>k. unat r = unat cap * 2 ^ k) \<and>
         (cap = r \<or> unat r \<le> 0xFFFF)"
  using assms
proof (induction n_ent cap arbitrary: r rule: pick_loop.induct)
  case (1 n_ent cap)
  show ?case
  proof (cases "cap \<noteq> 0 \<and> unat cap * 3 div 4 < unat n_ent")
    case False
    then have "r = cap" "cap \<noteq> 0"
      using 1(2,3) by (subst (asm) pick_loop.simps, auto simp: pick_loop_cond)+
    with False show ?thesis by (auto intro: exI[of _ 0])
  next
    case True
    with 1(2,3) have le: "\<not> drop_bit 1 EF_INDEX_MAX_CAPACITY < cap"
      and rec: "pick_loop n_ent (push_bit 1 cap) = r"
      by (subst (asm) pick_loop.simps, simp add: pick_loop_cond split: if_splits)+
    have small: "unat cap \<le> 0x7FFF"
      using le by (simp add: EF_INDEX_MAX_CAPACITY_def not_less word_le_nat_alt drop_bit_eq_div unat_div)
    then have dbl: "unat (push_bit 1 cap) = 2 * unat cap"
      by (simp add: push_bit_eq_mult unat_word_ariths)
    have IH: "unat n_ent \<le> unat r * 3 div 4 \<and> (\<exists>k. unat r = unat (push_bit 1 cap) * 2 ^ k) \<and>
        (push_bit 1 cap = r \<or> unat r \<le> 0xFFFF)"
      by (rule 1(1)[OF _ le rec 1(3)]) (use True in \<open>simp add: pick_loop_cond\<close>)
    then obtain k where "unat r = unat (push_bit 1 cap) * 2 ^ k" by blast
    then have pow: "unat r = unat cap * 2 ^ Suc k" unfolding dbl by simp
    have "unat r \<le> 0xFFFF" using IH dbl small by auto
    with IH pow show ?thesis by blast
  qed
qed


lemma round_up_loop_result:
  assumes "unat min_required \<le> 0x80000000" "0 < cap"
  shows "unat min_required \<le> unat (round_up_loop min_required cap) \<and>
         cap \<le> round_up_loop min_required cap \<and> (\<exists>k. unat (round_up_loop min_required cap) = unat cap * 2 ^ k)"
  using assms
proof (induction min_required cap rule: round_up_loop.induct)
  case (1 min_required cap)
  show ?case
  proof (cases "cap < min_required")
    case False
    then have "round_up_loop min_required cap = cap" by (subst round_up_loop.simps) simp
    with False show ?thesis by (auto simp: not_less word_le_nat_alt intro: exI[of _ 0])
  next
    case True
    then have small: "cap < 0x80000000" "unat cap < 2 ^ 31" using 1(2) by (simp_all add: word_less_nat_alt)
    with True 1(3) have run: "round_up_loop min_required cap = round_up_loop min_required (push_bit 1 cap)"
      by (subst round_up_loop.simps) simp
    have dbl: "unat (push_bit 1 cap) = 2 * unat cap"
      using small(2) by (simp add: push_bit_eq_mult unat_word_ariths)
    have pos: "0 < push_bit 1 cap" using 1(3) by (simp only: word_less_nat_alt dbl)
    from 1(1)[OF conjI[OF True conjI[OF 1(3) small(1)]] 1(2) pos]
    obtain k where k: "unat min_required \<le> unat (round_up_loop min_required cap)"
      "push_bit 1 cap \<le> round_up_loop min_required cap"
      "unat (round_up_loop min_required cap) = unat (push_bit 1 cap) * 2 ^ k"
      unfolding run by blast
    from k(3) have "unat (round_up_loop min_required cap) = unat cap * 2 ^ Suc k" unfolding dbl by simp
    moreover from k(2) have "cap \<le> round_up_loop min_required cap" by (simp only: word_le_nat_alt dbl)
    ultimately show ?thesis using k(1) by blast
  qed
qed

text \<open>The capacity a shrink picks.\<close>

lemma shrink_capacity_fits:
  assumes "ef_index_pick_shrink_capacity n_ent cur = r" "r \<noteq> 0"
  shows "r < cur \<and> 16 \<le> unat r \<and> (\<exists>k. unat r = 16 * 2 ^ k) \<and> unat n_ent * 4 \<le> unat r * 3"
proof -
  let ?req = "n_ent * 4 div 3 :: u32"
  let ?min = "if ?req * 3 < n_ent * 4 then ?req + 1 else ?req"
  let ?cap = "if 0 < n_ent then round_up_loop ?min 16 else 16"
  have cur: "cur \<noteq> 0" "cur AND (cur - 1) = 0" "\<not> 0xFFFF < cur" and less: "?cap < cur"
    and few: "n_ent \<noteq> 0 \<Longrightarrow> \<not> (ucast cur * 1 :: u64) \<le> ucast n_ent * 8"
    and r: "r = shrink_loop n_ent ?cap"
    using assms unfolding ef_index_pick_shrink_capacity_def Let_def ef_policy_defs
    by (auto simp: not_le split: if_splits)
  show ?thesis
  proof (cases "n_ent = 0")
    case True
    then have "r = 16" using r by (subst (asm) shrink_loop.simps) (simp add: ef_policy_defs)
    with True less show ?thesis by (auto intro: exI[of _ 0])
  next
    case False
    have "unat (ucast n_ent * 8 :: u64) = unat n_ent * 8"
      using unat_u32_bound[of n_ent] by (subst unat_mult_u64) simp_all
    with few[OF False] have "unat n_ent * 8 < unat cur" by (simp add: word_le_nat_alt not_le)
    moreover have "unat cur \<le> 0xFFFF" using cur(3) by (simp add: not_less word_le_nat_alt)
    ultimately have n: "unat n_ent < 8192" by linarith
    then have n4: "unat (n_ent * 4) = unat n_ent * 4" by (simp add: unat_word_ariths)
    then have req: "unat ?req = unat n_ent * 4 div 3" by (simp add: unat_div)
    with n have req3: "unat (?req * 3) = unat n_ent * 4 div 3 * 3" by (simp add: unat_word_ariths)
    have min_eq: "unat ?min = (if unat n_ent * 4 div 3 * 3 < unat n_ent * 4 then unat n_ent * 4 div 3 + 1
        else unat n_ent * 4 div 3)"
      using n req by (simp add: word_less_nat_alt req3 n4 unat_word_ariths)
    have min: "unat n_ent * 4 \<le> unat ?min * 3" "unat ?min \<le> 0x80000000"
      unfolding min_eq using n by (auto simp: not_less)
    obtain k where c: "unat ?min \<le> unat ?cap" "(16 :: u32) \<le> ?cap" "unat ?cap = 16 * 2 ^ k"
      using round_up_loop_result[OF min(2), of 16] False by (auto simp: word_neq_0_conv)
    have "r = ?cap"
    proof (cases "16 < ?cap")
      case True
      have "unat (ucast ?cap * 8 :: u64) = unat ?cap * 8"
        using unat_u32_bound[of ?cap] by (subst unat_mult_u64) simp_all
      moreover have "unat n_ent \<le> unat ?cap * 8" using c(1) min(1) by linarith
      ultimately have "(ucast n_ent * 1 :: u64) \<le> ucast ?cap * 8" by (simp add: word_le_nat_alt)
      with True False show ?thesis using r by (subst (asm) shrink_loop.simps) (simp add: ef_policy_defs)
    next
      case False
      with c(2) have "?cap = 16" by simp
      with r show ?thesis by (subst (asm) shrink_loop.simps) (simp add: ef_policy_defs)
    qed
    moreover have "unat n_ent * 4 \<le> unat ?cap * 3" using c(1) min(1) by linarith
    moreover have "16 \<le> unat ?cap" using c(3) by simp
    ultimately show ?thesis using less c(3) by blast
  qed
qed

subsection \<open>When no shrink is due\<close>

lemma shrink_loop_positive: "shrink_loop n cap \<noteq> 0"
  by (induction n cap rule: shrink_loop.induct) (subst shrink_loop.simps, auto simp: EF_DEFAULT_HASH_MIN_def)

lemma round_up_mono:
  assumes "m \<le> m'" "unat m' \<le> 0x80000000" "0 < cap"
  shows "round_up_loop m cap \<le> round_up_loop m' cap"
  using assms
proof (induction m cap rule: round_up_loop.induct)
  case (1 m cap)
  show ?case
  proof (cases "cap < m \<and> cap < 0x80000000")
    case True
    then have "unat (push_bit 1 cap) = 2 * unat cap" "0 < unat cap"
      using 1(4) by (simp_all add: push_bit_eq_mult unat_word_ariths word_less_nat_alt)
    then have "0 < push_bit 1 cap" by (simp add: word_less_nat_alt)
    moreover have "cap < m'" using True 1(2) less_le_trans by blast
    ultimately show ?thesis
      using True 1 by (subst round_up_loop.simps, subst (2) round_up_loop.simps) simp
  next
    case False
    then have "round_up_loop m cap = cap" by (subst round_up_loop.simps) auto
    then show ?thesis using round_up_loop_result[OF 1(3,4)] by simp
  qed
qed

text \<open>The more entries there are, the less is a shrink due.\<close>

lemma pick_shrink_mono:
  assumes none: "ef_index_pick_shrink_capacity n cur = 0" and le: "n \<le> n'"
  shows "ef_index_pick_shrink_capacity n' cur = 0"
proof (rule ccontr)
  assume some: "ef_index_pick_shrink_capacity n' cur \<noteq> 0"
  define req where "req = (\<lambda>n :: u32. if n * 4 div 3 * 3 < n * 4 then n * 4 div 3 + 1 else n * 4 div 3)"
  define cap where "cap = (\<lambda>n. if 0 < n then round_up_loop (req n) 16 else 16)"
  have cur: "cur \<noteq> 0" "cur AND (cur - 1) = 0" "\<not> 0xFFFF < cur" and less: "cap n' < cur"
    and few: "n' \<noteq> 0 \<Longrightarrow> \<not> (ucast cur * 1 :: u64) \<le> ucast n' * 8"
    using some unfolding ef_index_pick_shrink_capacity_def Let_def ef_policy_defs cap_def req_def
    by (auto simp: not_le split: if_splits)
  have mult: "unat (ucast k * 8 :: u64) = unat k * 8" for k :: u32
    using unat_u32_bound[of k] by (subst unat_mult_u64) simp_all
  have few_nat: "unat n' * 8 < unat cur" if "n' \<noteq> 0" using few[OF that] mult by (simp add: word_le_nat_alt not_le)
  have "unat cur \<le> 0xFFFF" using cur(3) by (simp add: not_less word_le_nat_alt)
  then have n': "unat n' < 8192" using few_nat by (cases "n' = 0") simp_all
  have le_nat: "unat n \<le> unat n'" using le by (simp add: word_le_nat_alt)
  have req: "unat (req k) = (unat k * 4 + 2) div 3" if "unat k < 8192" for k
  proof -
    have n4: "unat (k * 4) = unat k * 4" using that by (simp add: unat_word_ariths)
    then have r: "unat (k * 4 div 3) = unat k * 4 div 3" by (simp add: unat_div)
    have "unat (k * 4 div 3 * 3) = unat k * 4 div 3 * 3" "unat (k * 4 div 3 + 1) = unat k * 4 div 3 + 1"
      using that r by (simp_all add: unat_word_ariths)
    then show ?thesis using r n4 by (auto simp: req_def word_less_nat_alt)
  qed
  have "cap n \<le> cap n'"
  proof (cases "0 < n")
    case True
    have "req n \<le> req n'" "unat (req n') \<le> 0x80000000"
      using req[of n] req[OF n'] n' le_nat by (simp_all add: word_le_nat_alt div_le_mono)
    from round_up_mono[OF this, of 16] show ?thesis using True le by (auto simp: cap_def)
  next
    case False
    have "unat (req n') \<le> 0x80000000" using req[OF n'] n' by simp
    then show ?thesis using False round_up_loop_result[of "req n'" 16] by (simp add: cap_def)
  qed
  then have a: "\<not> cur \<le> cap n" using less by simp
  have b: "\<not> (n \<noteq> 0 \<and> (ucast cur * 1 :: u64) \<le> ucast n * 8)"
  proof (intro notI, elim conjE)
    assume n: "n \<noteq> 0" and "(ucast cur * 1 :: u64) \<le> ucast n * 8"
    then have "unat cur \<le> unat n * 8" using mult[of n] by (simp add: word_le_nat_alt)
    moreover have "n' \<noteq> 0" using n le by auto
    ultimately show False using few_nat le_nat by simp
  qed
  have "ef_index_pick_shrink_capacity n cur = shrink_loop n (cap n)"
    using cur a b unfolding ef_index_pick_shrink_capacity_def Let_def ef_policy_defs cap_def req_def by auto
  then show False using none shrink_loop_positive by simp
qed

end
