(* ===== verification/Undo_Log.thy ===== *)
theory Undo_Log
  imports Core
begin

text \<open>
  The undo log of \<^verbatim>\<open>ef_undo.c\<close> and the record builders of \<^verbatim>\<open>ef_txn.c\<close>. The log is a 32-byte
  header followed by 32-byte records, at \<^verbatim>\<open>undo_log_base\<close> in the mapping. While a transaction is
  active every mutating operation appends one record with what is needed to take it back.
\<close>

definition EF_UNDO_HEADER_MAGIC :: u32 where "EF_UNDO_HEADER_MAGIC = 0x4F444E55"
definition EF_UNDO_RECORD_SIZE :: u64 where "EF_UNDO_RECORD_SIZE = 32"
definition EF_UNDO_HEADER_SIZE :: u64 where "EF_UNDO_HEADER_SIZE = 32"

definition EF_UNDO_KIND_SLOT_ALLOC :: u8 where "EF_UNDO_KIND_SLOT_ALLOC = 1"
definition EF_UNDO_KIND_SLOT_FREE :: u8 where "EF_UNDO_KIND_SLOT_FREE = 2"
definition EF_UNDO_KIND_SLOT_STATUS :: u8 where "EF_UNDO_KIND_SLOT_STATUS = 3"
definition EF_UNDO_KIND_SLOT_NEXT :: u8 where "EF_UNDO_KIND_SLOT_NEXT = 4"
definition EF_UNDO_KIND_SLOT_PAYLOAD :: u8 where "EF_UNDO_KIND_SLOT_PAYLOAD = 5"
definition EF_UNDO_KIND_INDEX_PUT :: u8 where "EF_UNDO_KIND_INDEX_PUT = 6"
definition EF_UNDO_KIND_INDEX_REMOVE :: u8 where "EF_UNDO_KIND_INDEX_REMOVE = 7"
definition EF_UNDO_KIND_QUEUE_PUSH :: u8 where "EF_UNDO_KIND_QUEUE_PUSH = 8"
definition EF_UNDO_KIND_QUEUE_POP :: u8 where "EF_UNDO_KIND_QUEUE_POP = 9"
definition EF_UNDO_KIND_FREE_COUNT :: u8 where "EF_UNDO_KIND_FREE_COUNT = 10"

lemmas ef_undo_kind_defs = EF_UNDO_KIND_SLOT_ALLOC_def EF_UNDO_KIND_SLOT_FREE_def
  EF_UNDO_KIND_SLOT_STATUS_def EF_UNDO_KIND_SLOT_NEXT_def EF_UNDO_KIND_SLOT_PAYLOAD_def
  EF_UNDO_KIND_INDEX_PUT_def EF_UNDO_KIND_INDEX_REMOVE_def EF_UNDO_KIND_QUEUE_PUSH_def
  EF_UNDO_KIND_QUEUE_POP_def EF_UNDO_KIND_FREE_COUNT_def
lemmas ef_undo_size_defs = EF_UNDO_RECORD_SIZE_def EF_UNDO_HEADER_SIZE_def

subsection \<open>Header and records\<close>

record ef_undo_record =
  undo_kind :: u8
  undo_flags :: u8
  undo_size :: u16
  target_offset :: u64
  undo_aux :: u64
  before :: "u8 list"

definition undo_record_of :: "mem \<Rightarrow> nat \<Rightarrow> ef_undo_record" where
  "undo_record_of m p =
    \<lparr> undo_kind = load_u8 m p,
      undo_flags = load_u8 m (p + 1),
      undo_size = load_u16 m (p + 2),
      target_offset = load_u64 m (p + 4),
      undo_aux = load_u64 m (p + 12),
      before = load_bytes m (p + 20) 12 \<rparr>"

record ef_undo_header =
  undo_magic :: u32
  undo_crc :: u32
  log_tail :: u64
  record_count :: u32
  undo_reserved :: u32
  undo_pad :: "u8 list"

definition undo_header_of :: "mem \<Rightarrow> nat \<Rightarrow> ef_undo_header" where
  "undo_header_of m p =
    \<lparr> undo_magic = load_u32 m p,
      undo_crc = load_u32 m (p + 4),
      log_tail = load_u64 m (p + 8),
      record_count = load_u32 m (p + 16),
      undo_reserved = load_u32 m (p + 20),
      undo_pad = load_bytes m (p + 24) 8 \<rparr>"

definition ef_undo_header_ptr :: "ef_db \<Rightarrow> nat option" where
  "ef_undo_header_ptr db =
     (if \<not> mapped db \<or> undo_log_base db = 0 then None else Some (unat (undo_log_base db)))"

definition ef_undo_record_at :: "ef_db \<Rightarrow> u64 \<Rightarrow> nat option" where
  "ef_undo_record_at db offset_in_log =
     (if \<not> mapped db \<or> undo_log_base db = 0 then None
      else if offset_in_log < EF_UNDO_HEADER_SIZE then None
      else Some (unat (undo_log_base db) + unat offset_in_log))"

definition ef_undo_header_crc_compute :: "ef_undo_header \<Rightarrow> u32" where
  "ef_undo_header_crc_compute h =
     (let crc = ef_crc32_update_slice4 0xFFFFFFFF (le_bytes 4 (undo_magic h));
          crc = ef_crc32_update_slice4 crc [0, 0, 0, 0];
          crc = ef_crc32_update_slice4 crc (le_bytes 8 (log_tail h));
          crc = ef_crc32_update_slice4 crc (le_bytes 4 (record_count h));
          crc = ef_crc32_update_slice4 crc (le_bytes 4 (undo_reserved h));
          crc = ef_crc32_update_slice4 crc (undo_pad h)
      in crc XOR 0xFFFFFFFF)"

definition ef_undo_header_valid :: "ef_undo_header \<Rightarrow> bool" where
  "ef_undo_header_valid h \<longleftrightarrow>
     (if undo_magic h \<noteq> EF_UNDO_HEADER_MAGIC then False
      else if undo_crc h = 0 then False
      else undo_crc h = ef_undo_header_crc_compute h)"

text \<open>The size of the log, computed in 64-bit arithmetic.\<close>

definition undo_log_bytes :: "ef_db \<Rightarrow> u64" where
  "undo_log_bytes db = EF_UNDO_HEADER_SIZE + ucast (undo_log_slots db) * EF_UNDO_RECORD_SIZE"

definition ef_undo_reset :: "ef_db \<Rightarrow> ef_db" where
  "ef_undo_reset db =
     (case ef_undo_header_ptr db of
        None \<Rightarrow> db
      | Some h \<Rightarrow>
          ef_db_mark_meta_dirty
            (db\<lparr>mem := mem_set (mem db) h 0 (unat (undo_log_bytes db)),
                undo_tail := EF_UNDO_HEADER_SIZE, undo_record_count := 0\<rparr>))"

definition ef_txn_active :: "ef_db \<Rightarrow> bool" where
  "ef_txn_active db \<longleftrightarrow> txn_active db"

subsection \<open>Append\<close>

text \<open>\<open>before_bytes\<close> are the bytes the caller passes; twelve of them are copied.\<close>

definition undo_record_write :: "mem \<Rightarrow> nat \<Rightarrow> u8 \<Rightarrow> u64 \<Rightarrow> u64 \<Rightarrow> u8 list option \<Rightarrow> mem" where
  "undo_record_write m rec kind target aux_v before_bytes =
     (let m = mem_set m rec 0 32;
          m = store_u8 m rec kind;
          m = store_u8 m (rec + 1) 0;
          m = store_u16 m (rec + 2) (ucast EF_UNDO_RECORD_SIZE);
          m = store_u64 m (rec + 4) target;
          m = store_u64 m (rec + 12) aux_v
      in case before_bytes of None \<Rightarrow> m | Some bs \<Rightarrow> store_bytes m (rec + 20) (take 12 bs))"

definition undo_header_write :: "mem \<Rightarrow> nat \<Rightarrow> u64 \<Rightarrow> u32 \<Rightarrow> mem" where
  "undo_header_write m h tail_v count_v =
     (let m = store_u64 m (h + 8) tail_v;
          m = store_u32 m (h + 16) count_v;
          m = (if load_u32 m h \<noteq> EF_UNDO_HEADER_MAGIC then store_u32 m h EF_UNDO_HEADER_MAGIC else m)
      in store_u32 m (h + 4) (ef_undo_header_crc_compute (undo_header_of m h)))"

definition ef_undo_record_append ::
  "ef_db \<Rightarrow> u8 \<Rightarrow> u64 \<Rightarrow> u64 \<Rightarrow> u8 list option \<Rightarrow> ef_err \<times> ef_db"
where
  "ef_undo_record_append db kind target aux_v before_bytes =
     (if \<not> ef_txn_active db then (EF_OK, db)
      else case ef_undo_header_ptr db of
        None \<Rightarrow> (EF_ERR_NULL_ARG, db)
      | Some h \<Rightarrow>
          if undo_log_bytes db < undo_tail db + EF_UNDO_RECORD_SIZE
          then (EF_ERR_TXN_LOG_FULL, ef_set_error db EF_ERR_TXN_LOG_FULL)
          else
            let m = undo_record_write (mem db) (h + unat (undo_tail db)) kind target aux_v before_bytes;
                tail_v = undo_tail db + EF_UNDO_RECORD_SIZE;
                count_v = undo_record_count db + 1;
                m = undo_header_write m h tail_v count_v
            in (EF_OK, ef_db_mark_meta_dirty
                  (db\<lparr>mem := m, undo_tail := tail_v, undo_record_count := count_v\<rparr>)))"

text \<open>The debugging walk counts the records between the stored tail and the header.\<close>

function walk_reverse :: "u64 \<Rightarrow> u32 \<Rightarrow> u32" where
  "walk_reverse pos count =
     (if EF_UNDO_HEADER_SIZE < pos then walk_reverse (pos - EF_UNDO_RECORD_SIZE) (count + 1) else count)"
  by pat_completeness auto
termination
  by (relation "measure (\<lambda>(pos, count). unat pos)")
     (auto simp: ef_undo_size_defs word_less_nat_alt unat_sub word_le_nat_alt)

declare walk_reverse.simps [simp del]

definition ef_undo_walk_reverse :: "ef_db \<Rightarrow> u32" where
  "ef_undo_walk_reverse db =
     (case ef_undo_header_ptr db of
        None \<Rightarrow> 0
      | Some h \<Rightarrow> walk_reverse (log_tail (undo_header_of (mem db) h)) 0)"

subsection \<open>Record builders\<close>

definition ef_txn_record_slot_status :: "ef_db \<Rightarrow> u64 \<Rightarrow> u32 \<Rightarrow> u32 \<Rightarrow> ef_err \<times> ef_db" where
  "ef_txn_record_slot_status db slot_id prior_status prior_crc =
     (if \<not> ef_txn_active db then (EF_OK, db)
      else ef_undo_record_append db EF_UNDO_KIND_SLOT_STATUS (ef_slot_to_offset db slot_id) 0
             (Some (le_bytes 4 prior_status @ le_bytes 4 prior_crc @ replicate 4 0)))"

definition ef_txn_record_slot_next :: "ef_db \<Rightarrow> u64 \<Rightarrow> u64 \<Rightarrow> ef_err \<times> ef_db" where
  "ef_txn_record_slot_next db slot_id prior_next =
     (if \<not> ef_txn_active db then (EF_OK, db)
      else ef_undo_record_append db EF_UNDO_KIND_SLOT_NEXT (ef_slot_to_offset db slot_id) 0
             (Some (le_bytes 8 prior_next @ replicate 4 0)))"

definition ef_txn_record_slot_payload :: "ef_db \<Rightarrow> u64 \<Rightarrow> u8 list option \<Rightarrow> ef_err \<times> ef_db" where
  "ef_txn_record_slot_payload db slot_id prior_payload_first8 =
     (if \<not> ef_txn_active db then (EF_OK, db)
      else ef_undo_record_append db EF_UNDO_KIND_SLOT_PAYLOAD (ef_slot_to_offset db slot_id) 0
             (Some (case prior_payload_first8 of
                      None \<Rightarrow> replicate 12 0
                    | Some bs \<Rightarrow> take 8 bs @ replicate 4 0)))"

definition ef_txn_record_slot_alloc :: "ef_db \<Rightarrow> u64 \<Rightarrow> u32 \<Rightarrow> u32 \<Rightarrow> ef_err \<times> ef_db" where
  "ef_txn_record_slot_alloc db slot_id prior_status prior_crc =
     (if \<not> ef_txn_active db then (EF_OK, db)
      else ef_undo_record_append db EF_UNDO_KIND_SLOT_ALLOC (ef_slot_to_offset db slot_id) 0
             (Some (le_bytes 4 prior_status @ le_bytes 4 prior_crc @ replicate 4 0)))"

definition ef_txn_record_slot_free :: "ef_db \<Rightarrow> u64 \<Rightarrow> u64 \<Rightarrow> u32 \<Rightarrow> ef_err \<times> ef_db" where
  "ef_txn_record_slot_free db slot_id prior_next prior_status =
     (if \<not> ef_txn_active db then (EF_OK, db)
      else ef_undo_record_append db EF_UNDO_KIND_SLOT_FREE (ef_slot_to_offset db slot_id)
             (ucast prior_status) (Some (le_bytes 8 prior_next @ replicate 4 0)))"

definition ef_txn_record_index_put :: "ef_db \<Rightarrow> u64 \<Rightarrow> u64 \<Rightarrow> ef_err \<times> ef_db" where
  "ef_txn_record_index_put db kh off =
     (if \<not> ef_txn_active db then (EF_OK, db)
      else ef_undo_record_append db EF_UNDO_KIND_INDEX_PUT off 0
             (Some (le_bytes 8 kh @ replicate 4 0)))"

definition ef_txn_record_index_remove :: "ef_db \<Rightarrow> u64 \<Rightarrow> u64 \<Rightarrow> ef_err \<times> ef_db" where
  "ef_txn_record_index_remove db kh off =
     (if \<not> ef_txn_active db then (EF_OK, db)
      else ef_undo_record_append db EF_UNDO_KIND_INDEX_REMOVE off 0
             (Some (le_bytes 8 kh @ le_bytes 8 off)))"

definition ef_txn_record_queue_push :: "ef_db \<Rightarrow> u64 \<Rightarrow> u64 \<Rightarrow> ef_err \<times> ef_db" where
  "ef_txn_record_queue_push db new_node_offset saved_tail_next =
     (if \<not> ef_txn_active db then (EF_OK, db)
      else ef_undo_record_append db EF_UNDO_KIND_QUEUE_PUSH new_node_offset 0
             (Some (le_bytes 8 saved_tail_next @ replicate 8 0)))"

definition ef_txn_record_queue_pop :: "ef_db \<Rightarrow> u64 \<Rightarrow> u64 \<Rightarrow> u64 \<Rightarrow> u64 \<Rightarrow> ef_err \<times> ef_db" where
  "ef_txn_record_queue_pop db popped_node_offset saved_dummy_next saved_tail saved_node_next =
     (if \<not> ef_txn_active db then (EF_OK, db)
      else ef_undo_record_append db EF_UNDO_KIND_QUEUE_POP popped_node_offset saved_node_next
             (Some (le_bytes 8 saved_dummy_next @ le_bytes 8 saved_tail)))"

text \<open>\<open>delta\<close> is an \<^verbatim>\<open>int64_t\<close>, stored as its 64-bit pattern.\<close>

definition ef_txn_record_free_count :: "ef_db \<Rightarrow> int \<Rightarrow> ef_err \<times> ef_db" where
  "ef_txn_record_free_count db delta =
     (if \<not> ef_txn_active db then (EF_OK, db)
      else ef_undo_record_append db EF_UNDO_KIND_FREE_COUNT 0 (word_of_int delta) None)"

end
