(* ===== verification/Index.thy ===== *)
theory Index
  imports Index_Policy Undo_Log
begin

text \<open>
  The index operations of \<^verbatim>\<open>ef_index.c\<close> and the index seqlock of \<^verbatim>\<open>ef_sb_layout.c\<close>: insertion
  with automatic growth, lookup, removal with automatic shrinking, rehashing (which relocates the
  slot area and every offset that points into it), clearing and iteration.
\<close>

definition EF_SB_INDEX_SEQ_READ_MAX :: nat where "EF_SB_INDEX_SEQ_READ_MAX = 4096"

subsection \<open>Seqlock\<close>

definition ef_sb_index_seq_load :: "ef_db \<Rightarrow> u32" where
  "ef_sb_index_seq_load db =
     (if \<not> mapped db \<or> \<not> ef_sb_uses_v4_index_layout (mem db) then 0 else index_seq db)"

definition ef_sb_index_write_seq_begin :: "ef_db \<Rightarrow> ef_db" where
  "ef_sb_index_write_seq_begin db =
     (if \<not> mapped db \<or> \<not> ef_sb_uses_v4_index_layout (mem db) then db
      else db\<lparr>index_seq := index_seq db + 1\<rparr>)"

definition ef_sb_index_write_seq_end :: "ef_db \<Rightarrow> ef_db" where
  "ef_sb_index_write_seq_end db =
     (if \<not> mapped db \<or> \<not> ef_sb_uses_v4_index_layout (mem db) then db
      else db\<lparr>index_seq := index_seq db + 1\<rparr>)"

definition ef_sb_index_seq_read_stable :: "ef_db \<Rightarrow> u32 \<Rightarrow> bool" where
  "ef_sb_index_seq_read_stable db seq_before =
     (if \<not> mapped db \<or> \<not> ef_sb_uses_v4_index_layout (mem db) then True
      else let seq_after = ef_sb_index_seq_load db
           in seq_before = seq_after \<and> seq_after AND 1 = 0)"

definition ef_index_has_seqlock :: "ef_db \<Rightarrow> bool" where
  "ef_index_has_seqlock db \<longleftrightarrow> mapped db \<and> EF_SCHEMA_VERSION \<le> schema_version (sb db)"

definition ef_index_require_write :: "ef_db \<Rightarrow> ef_err" where
  "ef_index_require_write db = (if readonly db then EF_ERR_READONLY else EF_OK)"

definition ef_index_write_begin :: "ef_db \<Rightarrow> ef_err \<times> ef_db" where
  "ef_index_write_begin db =
     (if \<not> ef_index_has_seqlock db then (EF_OK, db)
      else let (err, m) = ef_sb_index_write_lock_acquire (mem db); db = db\<lparr>mem := m\<rparr>
           in if err \<noteq> EF_OK then (err, db) else (EF_OK, ef_sb_index_write_seq_begin db))"

definition ef_index_write_end :: "ef_db \<Rightarrow> ef_db" where
  "ef_index_write_end db =
     (if \<not> ef_index_has_seqlock db then db
      else upd_mem ef_sb_index_write_lock_release (ef_sb_index_write_seq_end db))"

subsection \<open>Lookup\<close>

text \<open>
  The bounded optimistic read: \<open>n\<close> attempts are left. With no concurrent writer the counter does
  not move between the two loads.
\<close>

fun find_attempts :: "ef_db \<Rightarrow> u64 \<Rightarrow> nat \<Rightarrow> ef_err + ef_hash_entry" where
  "find_attempts db kh 0 = Inl EF_ERR_INDEX_BUSY"
| "find_attempts db kh (Suc n) =
     (let seq1 = ef_sb_index_seq_load db in
      if seq1 AND 1 \<noteq> 0 then find_attempts db kh n
      else let res = ef_index_find_entry_unlocked db kh in
        (case res of
           Inl err \<Rightarrow> if err = EF_ERR_NOT_FOUND \<and> ef_sb_index_seq_read_stable db seq1
                      then Inl EF_ERR_NOT_FOUND else find_attempts db kh n
         | Inr e \<Rightarrow> if ef_sb_index_seq_read_stable db seq1 then Inr e else find_attempts db kh n))"

definition ef_index_find_entry :: "ef_db \<Rightarrow> u64 \<Rightarrow> ef_err + ef_hash_entry" where
  "ef_index_find_entry db kh =
     (if hash_index db = None \<or> hash_capacity db = 0 then Inl EF_ERR_NULL_ARG
      else if \<not> ef_index_has_seqlock db then ef_index_find_entry_unlocked db kh
      else find_attempts db kh EF_SB_INDEX_SEQ_READ_MAX)"

definition ef_index_get :: "ef_db \<Rightarrow> u8 list \<Rightarrow> ef_err + u64" where
  "ef_index_get db key =
     (case ef_index_find_entry db (ef_key_hash key) of
        Inl err \<Rightarrow> Inl err
      | Inr e \<Rightarrow> ef_offset_to_slot_id db (slot_offset e))"

text \<open>
  \<open>buf_cap\<close> is \<open>None\<close> when the caller passes no buffer. The result carries the slot pointer, the
  payload length, and the bytes copied to the buffer.
\<close>

definition ef_index_get_slot ::
  "ef_db \<Rightarrow> u8 list \<Rightarrow> nat option \<Rightarrow> (ef_err + (nat \<times> nat \<times> u8 list option)) \<times> ef_db"
where
  "ef_index_get_slot db key buf_cap =
     (case ef_index_find_entry db (ef_key_hash key) of
        Inl err \<Rightarrow> (Inl err, db)
      | Inr e \<Rightarrow>
          (case ef_offset_to_slot_id db (slot_offset e) of
             Inl err \<Rightarrow> (Inl err, db)
           | Inr slot_id \<Rightarrow>
               (case ef_peek_slot db slot_id of
                  (None, db) \<Rightarrow> (Inl EF_ERR_SLOT_ID, db)
                | (Some p, db) \<Rightarrow>
                    let cap = ef_payload_capacity db in
                    (case buf_cap of
                       None \<Rightarrow> (Inr (p, cap, None), db)
                     | Some c \<Rightarrow>
                         if c < cap then (Inl EF_ERR_PAYLOAD_LEN, db)
                         else (Inr (p, cap, Some (load_bytes (mem db) (ef_slot_payload_ptr db p) cap)), db)))))"

subsection \<open>Rehash\<close>

definition ef_index_file_size :: "u64 \<Rightarrow> u32 \<Rightarrow> u64" where
  "ef_index_file_size n_slots cap = 64 + ucast cap * 16 + n_slots * 64 + (32 + 4096 * 32)"

definition ef_index_slots_base :: "u32 \<Rightarrow> u64" where
  "ef_index_slots_base cap = 64 + ucast cap * 16"

definition count_entries :: "mem \<Rightarrow> nat \<Rightarrow> u32 \<Rightarrow> u32" where
  "count_entries m h cap =
     of_nat (length (filter (\<lambda>i. \<not> ef_hash_entry_empty (entry_at m h i)) [0..<unat cap]))"

definition ef_index_bind_layout :: "ef_db \<Rightarrow> ef_db" where
  "ef_index_bind_layout db =
     (if \<not> mapped db then db
      else let cap = ef_sb_hash_capacity_load (mem db);
               db = db\<lparr>hash_capacity := cap\<rparr>;
               db = (if 0 < cap
                     then db\<lparr>hash_index := Some 64, slots_base := ef_index_slots_base cap\<rparr>
                     else db\<lparr>hash_index := None, slots_base := 64\<rparr>)
           in (case hash_index db of
                 None \<Rightarrow> db\<lparr>hash_entry_count := 0\<rparr>
               | Some h \<Rightarrow> db\<lparr>hash_entry_count := count_entries (mem db) h cap\<rparr>))"

definition ef_index_fixup_offset :: "u64 \<Rightarrow> u64 \<Rightarrow> u64 \<Rightarrow> u64" where
  "ef_index_fixup_offset offset old_base new_base =
     (if offset = 0 \<or> offset < old_base then offset else offset + (new_base - old_base))"

definition fixup_next :: "nat \<Rightarrow> u64 \<Rightarrow> u64 \<Rightarrow> nat \<Rightarrow> mem \<Rightarrow> mem" where
  "fixup_next b old_base new_base i m =
     (let next_off = next_offset (slot_at m (slot_ptr b i)) in
      if old_base \<le> next_off
      then set_next_offset m (slot_ptr b i) (next_off + (new_base - old_base)) else m)"

definition ef_index_fixup_all_offsets :: "ef_db \<Rightarrow> u64 \<Rightarrow> u64 \<Rightarrow> ef_db" where
  "ef_index_fixup_all_offsets db old_base new_base =
     (let m = mem db;
          m = set_free_list_head m (ef_index_fixup_offset (free_list_head (sb_of m)) old_base new_base);
          q_head = queue_head (sb_of m);
          q_tail = queue_tail (sb_of m);
          m = set_queue_head m (ef_index_fixup_offset q_head old_base new_base);
          m = set_queue_tail m (ef_index_fixup_offset q_tail old_base new_base);
          m = fold (fixup_next (unat (slots_base db)) old_base new_base) [0..<unat (max_slots (sb_of m))] m
      in db\<lparr>mem := m\<rparr>)"

text \<open>
  \<^verbatim>\<open>ef_port_grow_file\<close> on a handle: unmap (the result of \<^verbatim>\<open>munmap\<close> is ignored), extend the file
  (the new bytes read as zero), map it again. When a step after the unmapping fails, the handle
  keeps its stale address.
\<close>

definition ef_port_grow_file :: "ef_env \<Rightarrow> ef_db \<Rightarrow> u64 \<Rightarrow> ef_err \<times> ef_db" where
  "ef_port_grow_file env db new_map_size =
     (if backend db \<noteq> EF_BACKEND_FILE then (EF_ERR_NULL_ARG, db)
      else if readonly db then (EF_ERR_READONLY, db)
      else if new_map_size \<le> file_size db then (EF_ERR_GROW, db)
      else if \<not> env_ftruncate env new_map_size then (EF_ERR_IO, db\<lparr>live := False\<rparr>)
      else if \<not> env_mmap env new_map_size then (EF_ERR_MMAP, db\<lparr>live := False\<rparr>)
      else (EF_OK, db\<lparr>mem := mem_set (mem db) (unat (file_size db)) 0
                              (unat new_map_size - unat (file_size db)),
                      file_size := new_map_size, map_capacity := new_map_size\<rparr>))"

text \<open>The reinsertion loop stops at the first error.\<close>

fun reinsert :: "ef_hash_entry list \<Rightarrow> ef_db \<Rightarrow> ef_err \<times> ef_db" where
  "reinsert [] db = (EF_OK, db)"
| "reinsert (e # es) db =
     (case ef_index_put_entry db (key_hash e) (slot_offset e) of
        (err, _, db) \<Rightarrow> if err \<noteq> EF_OK then (err, db) else reinsert es db)"

definition live_entries :: "mem \<Rightarrow> nat \<Rightarrow> u32 \<Rightarrow> ef_hash_entry list" where
  "live_entries m h cap =
     filter (\<lambda>e. \<not> ef_hash_entry_empty e) (map (entry_at m h) [0..<unat cap])"

text \<open>The part of \<^verbatim>\<open>ef_index_rehash_to\<close> after the checks, with the backup of the entries taken.\<close>

definition rehash_move ::
  "ef_env \<Rightarrow> ef_db \<Rightarrow> nat \<Rightarrow> u32 \<Rightarrow> ef_err \<times> ef_db"
where
  "rehash_move env db h new_capacity =
     (let backup = live_entries (mem db) h (hash_capacity db);
          n_entries = of_nat (length backup) :: u32;
          old_slots_base = slots_base db;
          new_slots_base = ef_index_slots_base new_capacity;
          new_size = ef_index_file_size (max_slots (sb db)) new_capacity
      in
      if 0 < n_entries \<and> \<not> env_malloc env (ucast n_entries * 16)
      then (EF_ERR_OOM, ef_index_write_end db)
      else if backend db = EF_BACKEND_MEMORY \<and> map_capacity db < new_size
      then (EF_ERR_FILE_SIZE, ef_index_write_end db)
      else
        (case (if backend db = EF_BACKEND_FILE then ef_port_grow_file env db new_size
               else (EF_OK, db\<lparr>file_size := new_size\<rparr>)) of
           (err, db) \<Rightarrow>
             if err \<noteq> EF_OK then (err, ef_index_write_end db)
             else
               let slot_bytes = max_slots (sb db) * 64;
                   db = upd_mem (\<lambda>m. mem_move m (unat new_slots_base) (unat old_slots_base) (unat slot_bytes)) db;
                   db = upd_mem (\<lambda>m. ef_sb_hash_capacity_store m new_capacity) db;
                   db = ef_index_bind_layout db;
                   db = ef_index_fixup_all_offsets db old_slots_base new_slots_base;
                   backup = map (\<lambda>e. e\<lparr>slot_offset :=
                       ef_index_fixup_offset (slot_offset e) old_slots_base new_slots_base\<rparr>) backup;
                   db = upd_mem (\<lambda>m. mem_set m 64 0 (16 * unat new_capacity)) db
               in (case reinsert backup db of
                     (err, db) \<Rightarrow>
                       if err \<noteq> EF_OK then (err, ef_index_write_end db)
                       else let db = db\<lparr>hash_entry_count := n_entries\<rparr>;
                                db = ef_db_mark_meta_dirty db;
                                db = ef_db_refresh_slot_crcs db
                            in (EF_OK, ef_index_write_end db))))"

definition ef_index_rehash_to :: "ef_env \<Rightarrow> ef_db \<Rightarrow> u32 \<Rightarrow> bool \<Rightarrow> ef_err \<times> ef_db" where
  "ef_index_rehash_to env db new_capacity allow_shrink =
     (if \<not> mapped db then (EF_ERR_NULL_ARG, db)
      else if ef_index_require_write db \<noteq> EF_OK then (ef_index_require_write db, db)
      else if new_capacity < 1 \<or> new_capacity AND (new_capacity - 1) \<noteq> 0 then (EF_ERR_GROW, db)
      else if 0xFFFF < new_capacity then (EF_ERR_GROW, db)
      else
        (case ef_index_write_begin db of
           (err, db) \<Rightarrow>
             if err \<noteq> EF_OK then (err, db)
             else
               let old_capacity = hash_capacity db in
               (case hash_index db of
                  None \<Rightarrow> (EF_ERR_NULL_ARG, ef_index_write_end db)
                | Some h \<Rightarrow>
                    if old_capacity = 0 then (EF_ERR_NULL_ARG, ef_index_write_end db)
                    else if allow_shrink \<and> old_capacity \<le> new_capacity
                    then (EF_ERR_GROW, ef_index_write_end db)
                    else if \<not> allow_shrink \<and> new_capacity < old_capacity
                    then (EF_OK, ef_index_write_end db)
                    else if new_capacity = old_capacity then (EF_OK, ef_index_write_end db)
                    else if allow_shrink \<and> backend db = EF_BACKEND_FILE
                    then (EF_ERR_GROW, ef_index_write_end db)
                    else if allow_shrink \<and> hash_entry_count db \<noteq> 0 \<and>
                            (ucast new_capacity * ucast EF_INDEX_REHASH_LOAD_FACTOR_NUM :: u64)
                            \<le> ucast (hash_entry_count db) * ucast EF_INDEX_REHASH_LOAD_FACTOR_DEN
                    then (EF_ERR_GROW, ef_index_write_end db)
                    else rehash_move env db h new_capacity)))"

definition ef_index_rehash :: "ef_env \<Rightarrow> ef_db \<Rightarrow> u32 \<Rightarrow> ef_err \<times> ef_db" where
  "ef_index_rehash env db new_capacity = ef_index_rehash_to env db new_capacity False"

definition ef_index_shrink :: "ef_env \<Rightarrow> ef_db \<Rightarrow> u32 \<Rightarrow> ef_err \<times> ef_db" where
  "ef_index_shrink env db new_capacity =
     (if new_capacity = 0 then (EF_ERR_GROW, db) else ef_index_rehash_to env db new_capacity True)"

definition ef_index_grow_for_insert :: "ef_env \<Rightarrow> ef_db \<Rightarrow> ef_err \<times> ef_db" where
  "ef_index_grow_for_insert env db =
     (case ef_index_write_begin db of
        (err, db) \<Rightarrow>
          if err \<noteq> EF_OK then (err, db)
          else if hash_index db = None \<or> hash_capacity db = 0
          then (EF_ERR_NULL_ARG, ef_index_write_end db)
          else let cap = hash_capacity db;
                   target = ef_index_pick_capacity (hash_entry_count db + 1) (push_bit 1 cap);
                   db = ef_index_write_end db
               in if target = 0 \<or> target \<le> cap then (EF_ERR_INDEX_FULL, db)
                  else ef_index_rehash env db target)"

subsection \<open>Insertion\<close>

text \<open>The insertion proper, with the lock held: the entry, the counter, the undo record.\<close>

definition put_locked :: "ef_db \<Rightarrow> u64 \<Rightarrow> u64 \<Rightarrow> ef_err \<times> ef_db" where
  "put_locked db kh off =
     (case ef_index_put_entry db kh off of
        (err, added, db) \<Rightarrow>
          let db = (if err = EF_OK \<and> added then db\<lparr>hash_entry_count := hash_entry_count db + 1\<rparr> else db);
              db = ef_index_write_end db
          in if err = EF_OK
             then let db = ef_db_mark_meta_dirty db
                  in (err, if ef_txn_active db \<and> added then snd (ef_txn_record_index_put db kh off) else db)
             else (err, db))"

definition key_absent :: "ef_db \<Rightarrow> u64 \<Rightarrow> bool" where
  "key_absent db kh \<longleftrightarrow> (case ef_index_find_entry_unlocked db kh of Inl _ \<Rightarrow> True | Inr _ \<Rightarrow> False)"

definition ef_index_put :: "ef_env \<Rightarrow> ef_db \<Rightarrow> u8 list \<Rightarrow> u64 \<Rightarrow> ef_err \<times> ef_db" where
  "ef_index_put env db key slot_id =
     (let kh = ef_key_hash key in
      if ef_index_require_write db \<noteq> EF_OK then (ef_index_require_write db, db)
      else if ef_txn_active db \<and> hash_index db \<noteq> None \<and>
              ef_index_needs_grow (hash_entry_count db) (hash_capacity db) \<and> key_absent db kh
      then (EF_ERR_INDEX_BUSY, ef_set_error db EF_ERR_INDEX_BUSY)
      else
        (case ef_index_write_begin db of
           (err, db) \<Rightarrow>
             if err \<noteq> EF_OK then (err, db)
             else if ef_slot_to_offset db slot_id = 0 then (EF_ERR_SLOT_ID, ef_index_write_end db)
             else if hash_index db \<noteq> None \<and>
                     ef_index_needs_grow (hash_entry_count db) (hash_capacity db) \<and> key_absent db kh
             then
               (case ef_index_grow_for_insert env (ef_index_write_end db) of
                  (err, db) \<Rightarrow>
                    if err \<noteq> EF_OK then (err, db)
                    else
                      (case ef_index_write_begin db of
                         (err, db) \<Rightarrow>
                           if err \<noteq> EF_OK then (err, db)
                           else if ef_slot_to_offset db slot_id = 0
                           then (EF_ERR_SLOT_ID, ef_index_write_end db)
                           else put_locked db kh (ef_slot_to_offset db slot_id)))
             else put_locked db kh (ef_slot_to_offset db slot_id)))"

subsection \<open>Removal\<close>

definition ef_index_should_shrink_snap :: "ef_db \<Rightarrow> u32 \<Rightarrow> u32 \<Rightarrow> bool" where
  "ef_index_should_shrink_snap db n_ent cap =
     (if hash_index db = None \<or> cap = 0 then False
      else if n_ent = 0 then True
      else ucast n_ent * ucast EF_INDEX_SHRINK_LOAD_FACTOR_DEN
           < (ucast cap * ucast EF_INDEX_SHRINK_LOAD_FACTOR_NUM :: u64))"

definition shrink_if_sparse :: "ef_env \<Rightarrow> ef_db \<Rightarrow> u32 \<Rightarrow> u32 \<Rightarrow> ef_db" where
  "shrink_if_sparse env db n_ent cap =
     (if ef_index_should_shrink_snap db n_ent cap
      then snd (ef_index_shrink env db (ef_index_pick_shrink_capacity n_ent cap)) else db)"

definition ef_index_remove :: "ef_env \<Rightarrow> ef_db \<Rightarrow> u8 list \<Rightarrow> ef_err \<times> ef_db" where
  "ef_index_remove env db key =
     (if ef_index_require_write db \<noteq> EF_OK then (ef_index_require_write db, db)
      else
        (case ef_index_write_begin db of
           (err, db) \<Rightarrow>
             if err \<noteq> EF_OK then (err, db)
             else if hash_index db = None \<or> hash_capacity db = 0
             then (EF_ERR_NULL_ARG, ef_index_write_end db)
             else
               let kh = ef_key_hash key;
                   snapshot = (if ef_txn_active db then Some (ef_index_find_entry_unlocked db kh) else None)
               in
               if (case snapshot of Some (Inl _) \<Rightarrow> True | _ \<Rightarrow> False)
               then (EF_ERR_NOT_FOUND, ef_index_write_end db)
               else
                 (case ef_index_remove_by_hash db kh of
                    (err, db) \<Rightarrow>
                      if err \<noteq> EF_OK then (err, ef_index_write_end db)
                      else
                        let n_ent = hash_entry_count db;
                            cap = hash_capacity db;
                            db = ef_index_write_end db;
                            db = ef_db_mark_meta_dirty db;
                            db = (case snapshot of
                                    Some (Inr e) \<Rightarrow> snd (ef_txn_record_index_remove db kh (slot_offset e))
                                  | _ \<Rightarrow> db)
                        in (EF_OK, shrink_if_sparse env db n_ent cap))))"

fun entry_with_offset :: "mem \<Rightarrow> nat \<Rightarrow> nat list \<Rightarrow> u64 \<Rightarrow> ef_hash_entry option" where
  "entry_with_offset m h [] off = None"
| "entry_with_offset m h (i # is) off =
     (if slot_offset (entry_at m h i) = off then Some (entry_at m h i) else entry_with_offset m h is off)"

definition ef_index_remove_by_slot :: "ef_env \<Rightarrow> ef_db \<Rightarrow> u64 \<Rightarrow> ef_err \<times> ef_db" where
  "ef_index_remove_by_slot env db slot_id =
     (if ef_index_require_write db \<noteq> EF_OK then (ef_index_require_write db, db)
      else
        (case ef_index_write_begin db of
           (err, db) \<Rightarrow>
             if err \<noteq> EF_OK then (err, db)
             else
               (case hash_index db of
                  None \<Rightarrow> (EF_OK, ef_index_write_end db)
                | Some h \<Rightarrow>
                    if hash_capacity db = 0 then (EF_OK, ef_index_write_end db)
                    else
                      let off = ef_slot_to_offset db slot_id in
                      if off = 0 then (EF_OK, ef_index_write_end db)
                      else
                        (case (case entry_with_offset (mem db) h [0..<unat (hash_capacity db)] off of
                                 None \<Rightarrow> (EF_OK, db)
                               | Some e \<Rightarrow>
                                   (case ef_index_remove_by_hash db (key_hash e) of
                                      (err, db) \<Rightarrow> (if err = EF_ERR_NOT_FOUND then EF_OK else err, db))) of
                           (err, db) \<Rightarrow>
                             if err \<noteq> EF_OK then (err, ef_index_write_end db)
                             else
                               let n_ent = hash_entry_count db;
                                   cap = hash_capacity db;
                                   db = ef_index_write_end db;
                                   db = ef_db_mark_meta_dirty db
                               in (EF_OK, shrink_if_sparse env db n_ent cap)))))"

definition ef_index_clear :: "ef_env \<Rightarrow> ef_db \<Rightarrow> ef_err \<times> ef_db" where
  "ef_index_clear env db =
     (if ef_index_require_write db \<noteq> EF_OK then (ef_index_require_write db, db)
      else
        (case ef_index_write_begin db of
           (err, db) \<Rightarrow>
             if err \<noteq> EF_OK then (err, db)
             else
               (case hash_index db of
                  None \<Rightarrow> (EF_ERR_NULL_ARG, ef_index_write_end db)
                | Some h \<Rightarrow>
                    if hash_capacity db = 0 then (EF_ERR_NULL_ARG, ef_index_write_end db)
                    else
                      let cap = hash_capacity db;
                          db = upd_mem (\<lambda>m. mem_set m h 0 (16 * unat cap)) db;
                          db = db\<lparr>hash_entry_count := 0\<rparr>;
                          db = ef_db_mark_meta_dirty db;
                          db = ef_index_write_end db
                      in if EF_DEFAULT_HASH_MIN < cap
                         then (EF_OK, snd (ef_index_shrink env db (ef_index_pick_shrink_capacity 0 cap)))
                         else (EF_OK, db))))"

definition ef_index_capacity :: "ef_db \<Rightarrow> u32" where
  "ef_index_capacity db = (if hash_index db = None \<or> hash_capacity db = 0 then 0 else hash_capacity db)"

definition ef_index_count_entries :: "ef_db \<Rightarrow> u32" where
  "ef_index_count_entries db =
     (if hash_index db = None \<or> hash_capacity db = 0 then 0 else hash_entry_count db)"

subsection \<open>Iteration\<close>

text \<open>
  The callback gets the user state, the key hash and the offset, and returns its code and the new
  user state. \<open>seq\<close> gives the counter loaded before the entry at each position is reported, when
  the caller asked to stop on a concurrent writer.
\<close>

fun iterate_loop ::
  "(nat \<Rightarrow> u32 option) \<Rightarrow> u32 \<Rightarrow> ('u \<Rightarrow> u64 \<Rightarrow> u64 \<Rightarrow> int \<times> 'u) \<Rightarrow> mem \<Rightarrow> nat \<Rightarrow> nat list \<Rightarrow> 'u \<Rightarrow> ef_err \<times> 'u"
where
  "iterate_loop seq prev_seq cb m h [] u = (EF_OK, u)"
| "iterate_loop seq prev_seq cb m h (i # is) u =
     (let cur = entry_at m h i in
      if ef_hash_entry_empty cur then iterate_loop seq prev_seq cb m h is u
      else if (case seq i of Some now_seq \<Rightarrow> now_seq \<noteq> prev_seq | None \<Rightarrow> False) then (EF_ERR_INDEX_BUSY, u)
      else (case cb u (key_hash cur) (slot_offset cur) of
              (rc, u) \<Rightarrow> if rc = 1 then (EF_OK, u)
                         else if rc \<noteq> 0 then (EF_ERR_USER_ABORT, u)
                         else iterate_loop seq prev_seq cb m h is u))"

definition ef_index_iterate_impl ::
  "ef_db \<Rightarrow> ('u \<Rightarrow> u64 \<Rightarrow> u64 \<Rightarrow> int \<times> 'u) \<Rightarrow> 'u \<Rightarrow> bool \<Rightarrow> ef_err \<times> 'u"
where
  "ef_index_iterate_impl db cb u stop_on_writer =
     (case hash_index db of
        None \<Rightarrow> (EF_OK, u)
      | Some h \<Rightarrow>
          if hash_capacity db = 0 then (EF_OK, u)
          else let watching = stop_on_writer \<and> ef_index_has_seqlock db in
            iterate_loop (\<lambda>i. if watching then Some (ef_sb_index_seq_load db) else None)
              (ef_sb_index_seq_load db) cb (mem db) h [0..<unat (hash_capacity db)] u)"

definition ef_index_iterate :: "ef_db \<Rightarrow> ('u \<Rightarrow> u64 \<Rightarrow> u64 \<Rightarrow> int \<times> 'u) \<Rightarrow> 'u \<Rightarrow> ef_err \<times> 'u" where
  "ef_index_iterate db cb u = ef_index_iterate_impl db cb u False"

definition ef_index_iterate_until :: "ef_db \<Rightarrow> ('u \<Rightarrow> u64 \<Rightarrow> u64 \<Rightarrow> int \<times> 'u) \<Rightarrow> 'u \<Rightarrow> ef_err \<times> 'u" where
  "ef_index_iterate_until db cb u = ef_index_iterate_impl db cb u True"

end
