(* ===== verification/Slot_Pool.thy ===== *)
theory Slot_Pool
  imports Index
begin

text \<open>
  The pool of free slots of \<^verbatim>\<open>endfields.c\<close>: a singly linked list threaded through
  \<^verbatim>\<open>next_offset\<close> with its head and length in the superblock. Pop and push are
  compare-and-swap loops on the head; with no other thread the first attempt succeeds, and that is
  the iteration modelled here. Also here: unlinking a slot from the middle of the list, claiming a
  given slot, building the list on creation and rebuilding it on open.
\<close>

definition EF_ALLOC_ZERO_PAYLOAD :: u32 where "EF_ALLOC_ZERO_PAYLOAD = 1"

definition ef_slot_next_offset_load :: "ef_db \<Rightarrow> nat \<Rightarrow> u64" where
  "ef_slot_next_offset_load db p = next_offset (slot_at (mem db) p)"

definition ef_slot_next_offset_store :: "ef_db \<Rightarrow> nat \<Rightarrow> u64 \<Rightarrow> ef_db" where
  "ef_slot_next_offset_store db p v = upd_mem (\<lambda>m. set_next_offset m p v) db"

definition ef_slot_status_store :: "ef_db \<Rightarrow> nat \<Rightarrow> u32 \<Rightarrow> ef_db" where
  "ef_slot_status_store db p v = upd_mem (\<lambda>m. set_status m p v) db"

text \<open>\<^verbatim>\<open>memset (ef_slot_payload_ptr (db, slot), 0, ef_payload_capacity (db))\<close>\<close>

definition clear_payload_at :: "ef_db \<Rightarrow> nat \<Rightarrow> ef_db" where
  "clear_payload_at db p = upd_mem (\<lambda>m. mem_set m (ef_slot_payload_ptr db p) 0 (ef_payload_capacity db)) db"

lemmas slot_write_defs = ef_slot_next_offset_load_def ef_slot_next_offset_store_def
  ef_slot_status_store_def clear_payload_at_def

subsection \<open>Pop and push\<close>

definition ef_free_list_pop_atomic :: "ef_db \<Rightarrow> bool \<Rightarrow> (ef_err + u64) \<times> ef_db" where
  "ef_free_list_pop_atomic db clear_payload =
     (let head = free_list_head (sb db) in
      if head = 0 \<or> ef_sb_free_count_load (mem db) = 0
      then (Inl EF_ERR_SLOT_FULL, ef_set_error db EF_ERR_SLOT_FULL)
      else
        (case ef_offset_to_ptr db head of
           (None, db) \<Rightarrow> (Inl (last_err db), db)
         | (Some p, db) \<Rightarrow>
             (case ef_offset_to_slot_id db head of
                Inl err \<Rightarrow> (Inl err, ef_set_error db err)
              | Inr slot_id \<Rightarrow>
                  let nxt = ef_slot_next_offset_load db p;
                      db = upd_mem (\<lambda>m. set_free_list_head m nxt) db;
                      db = ef_slot_next_offset_store db p 0;
                      db = ef_slot_status_store db p EF_STATUS_USED;
                      db = (if clear_payload then clear_payload_at db p else db);
                      db = upd_mem ef_sb_free_count_dec db;
                      db = ef_slot_header_crc_store db slot_id p;
                      db = ef_db_mark_meta_dirty db
                  in (Inr slot_id, ef_set_error db EF_OK))))"

text \<open>\<open>p\<close> is the slot pointer the caller holds; the offset is computed from the id.\<close>

definition ef_free_list_push_atomic :: "ef_db \<Rightarrow> u64 \<Rightarrow> nat \<Rightarrow> ef_err \<times> ef_db" where
  "ef_free_list_push_atomic db slot_id p =
     (let off = ef_slot_to_offset db slot_id;
          db = upd_mem (\<lambda>m. set_header_crc m p 0) db;
          db = clear_payload_at db p;
          head = free_list_head (sb db);
          db = ef_slot_next_offset_store db p head;
          db = ef_slot_status_store db p EF_STATUS_FREE;
          db = upd_mem (\<lambda>m. set_free_list_head m off) db;
          db = upd_mem ef_sb_free_count_inc db;
          db = ef_db_mark_meta_dirty db
      in (EF_OK, ef_set_error db EF_OK))"

definition ef_return_slot_to_pool :: "ef_env \<Rightarrow> ef_db \<Rightarrow> u64 \<Rightarrow> nat \<Rightarrow> ef_err \<times> ef_db" where
  "ef_return_slot_to_pool env db slot_id p =
     (case ef_index_remove_by_slot env db slot_id of
        (err, db) \<Rightarrow>
          if err \<noteq> EF_OK then (err, ef_set_error db err)
          else ef_free_list_push_atomic db slot_id p)"

subsection \<open>Allocation\<close>

definition ef_alloc_slot_ex :: "ef_db \<Rightarrow> u32 \<Rightarrow> (ef_err + u64) \<times> ef_db" where
  "ef_alloc_slot_ex db alloc_flags =
     (let clear_payload = alloc_flags AND EF_ALLOC_ZERO_PAYLOAD \<noteq> 0;
          has_seqlock = mapped db \<and> EF_SCHEMA_VERSION \<le> schema_version (sb db)
      in
      (case ef_db_require_write db of
         (err, db) \<Rightarrow>
           if err \<noteq> EF_OK then (Inl err, db)
           else if \<not> mapped db then (Inl EF_ERR_NULL_ARG, ef_set_error db EF_ERR_NULL_ARG)
           else
             let (err, m) = (if has_seqlock then ef_sb_index_write_lock_acquire (mem db) else (EF_OK, mem db));
                 db = db\<lparr>mem := m\<rparr>
             in
             if err \<noteq> EF_OK then (Inl err, ef_set_error db err)
             else
               let (res, db) = ef_free_list_pop_atomic db clear_payload;
                   db = (case res of
                           Inl _ \<Rightarrow> db
                         | Inr slot_id \<Rightarrow>
                             if ef_txn_active db then
                               (case ef_peek_slot db slot_id of
                                  (None, db) \<Rightarrow> db
                                | (Some p, db) \<Rightarrow>
                                    let prior_crc = header_crc (slot_at (mem db) p);
                                        db = snd (ef_txn_record_slot_alloc db slot_id EF_STATUS_FREE prior_crc)
                                    in snd (ef_txn_record_free_count db (-1)))
                             else db);
                   db = (if has_seqlock then upd_mem ef_sb_index_write_lock_release db else db)
               in (res, db)))"

definition ef_alloc_slot :: "ef_db \<Rightarrow> (ef_err + u64) \<times> ef_db" where
  "ef_alloc_slot db = ef_alloc_slot_ex db EF_ALLOC_ZERO_PAYLOAD"

definition ef_alloc_slot_ptr :: "ef_db \<Rightarrow> nat option \<times> ef_db" where
  "ef_alloc_slot_ptr db =
     (case ef_alloc_slot db of
        (Inl _, db) \<Rightarrow> (None, db)
      | (Inr slot_id, db) \<Rightarrow> ef_peek_slot db slot_id)"

definition ef_count_free_slots :: "ef_db \<Rightarrow> u64" where
  "ef_count_free_slots db = (if \<not> mapped db then 0 else ucast (ef_sb_free_count_load (mem db)))"

subsection \<open>Unlinking and claiming\<close>

text \<open>
  The walk over the list, \<open>n\<close> steps of its guard left; the cursor is the slot id at which the walk
  stands. \<open>None\<close> is the end of the list or of the guard.
\<close>

fun unlink_walk :: "ef_db \<Rightarrow> u64 \<Rightarrow> u64 option \<Rightarrow> nat \<Rightarrow> u64 option" where
  "unlink_walk db slot_off None n = None"
| "unlink_walk db slot_off (Some c) 0 = None"
| "unlink_walk db slot_off (Some c) (Suc n) =
     (if next_offset (db_slot db c) = slot_off then Some c
      else unlink_walk db slot_off (ef_slot_at_offset db (next_offset (db_slot db c))) n)"

definition ef_unlink_free_slot :: "ef_db \<Rightarrow> u64 \<Rightarrow> ef_err \<times> ef_db" where
  "ef_unlink_free_slot db slot_id =
     (case ef_peek_slot db slot_id of
        (None, db) \<Rightarrow> (EF_ERR_SLOT_ID, db)
      | (Some p, db) \<Rightarrow>
          if status (slot_at (mem db) p) \<noteq> EF_STATUS_FREE then (EF_OK, db)
          else
            let slot_off = ef_slot_to_offset db slot_id;
                nxt = next_offset (slot_at (mem db) p)
            in
            if free_list_head (sb db) = slot_off
            then (EF_OK, upd_mem (\<lambda>m. set_next_offset (set_free_list_head m nxt) p 0) db)
            else
              (case unlink_walk db slot_off (ef_slot_at_offset db (free_list_head (sb db)))
                      (unat (max_slots (sb db) + 1)) of
                 None \<Rightarrow> (EF_ERR_NOT_FOUND, db)
               | Some c \<Rightarrow>
                   (EF_OK, upd_mem (\<lambda>m. set_next_offset (set_next_offset m (db_slot_ptr db c) nxt) p 0) db)))"

definition ef_claim_slot :: "ef_db \<Rightarrow> u64 \<Rightarrow> ef_err \<times> ef_db" where
  "ef_claim_slot db slot_id =
     (case ef_peek_slot db slot_id of
        (None, db) \<Rightarrow> (EF_ERR_SLOT_ID, ef_set_error db EF_ERR_SLOT_ID)
      | (Some p, db) \<Rightarrow>
          if status (slot_at (mem db) p) = EF_STATUS_USED then (EF_OK, ef_set_error db EF_OK)
          else
            (case ef_unlink_free_slot db slot_id of
               (err, db) \<Rightarrow>
                 if err \<noteq> EF_OK then (err, ef_set_error db err)
                 else
                   let db = ef_slot_status_store db p EF_STATUS_USED;
                       db = (if 0 < ef_sb_free_count_load (mem db) then upd_mem ef_sb_free_count_dec db else db);
                       db = ef_slot_header_crc_store db slot_id p;
                       db = ef_db_mark_meta_dirty db
                   in (EF_OK, ef_set_error db EF_OK)))"

subsection \<open>Building the list\<close>

definition init_free_slot :: "u64 \<Rightarrow> nat \<Rightarrow> ef_db \<Rightarrow> ef_db" where
  "init_free_slot n_slots i db =
     (let p = slot_ptr (unat (slots_base db)) i;
          nxt = (if of_nat i + 1 < n_slots then ef_slot_to_offset db (of_nat i + 1) else 0)
      in upd_mem (\<lambda>m. set_next_offset (mem_set (set_status m p EF_STATUS_FREE) (p + 8) 0 48) p nxt) db)"

definition ef_build_free_list :: "ef_db \<Rightarrow> ef_err \<times> ef_db" where
  "ef_build_free_list db =
     (if \<not> mapped db then (EF_ERR_NULL_ARG, db)
      else
        let n_slots = max_slots (sb db);
            db = upd_mem (\<lambda>m. set_free_list_head m 0) db
        in
        if n_slots = 0 then (EF_OK, upd_mem (\<lambda>m. ef_sb_free_count_store m 0) db)
        else
          let db = fold (init_free_slot n_slots) [0..<unat n_slots] db;
              db = upd_mem (\<lambda>m. set_free_list_head m (ef_slot_to_offset db 0)) db;
              db = upd_mem (\<lambda>m. ef_sb_free_count_store m (ucast n_slots)) db
          in (EF_OK, ef_db_refresh_checksums db))"

definition relink_free_slot :: "nat \<Rightarrow> ef_db \<times> u64 \<Rightarrow> ef_db \<times> u64" where
  "relink_free_slot i = (\<lambda>(db, count).
     let p = slot_ptr (unat (slots_base db)) i in
     if status (slot_at (mem db) p) = EF_STATUS_FREE
     then (upd_mem (\<lambda>m. set_free_list_head (set_next_offset m p (free_list_head (sb_of m)))
                          (ef_slot_to_offset db (of_nat i))) db, count + 1)
     else (db, count))"

definition ef_upgrade_superblock :: "mem \<Rightarrow> u64 \<Rightarrow> mem" where
  "ef_upgrade_superblock m n_free =
     (let m = (if schema_version (sb_of m) = 0
               then set_flags (set_schema_version m EF_SCHEMA_LEGACY) 0 else m);
          m = ef_sb_free_count_store m (ucast n_free)
      in ef_sb_checksum_store m)"

text \<open>
  The loop counts down with a signed 64-bit index, so that it does not run at all when the slot
  count does not fit in one.
\<close>

definition ef_rebuild_free_list :: "ef_db \<Rightarrow> ef_err \<times> ef_db" where
  "ef_rebuild_free_list db =
     (if \<not> mapped db then (EF_ERR_NULL_ARG, db)
      else
        let db = upd_mem (\<lambda>m. set_free_list_head m 0) db;
            n = unat (max_slots (sb db));
            ids = (if n < 2 ^ 63 then rev [0..<n] else []);
            (db, n_free) = fold relink_free_slot ids (db, 0);
            db = upd_mem (\<lambda>m. ef_upgrade_superblock m n_free) db
        in (EF_OK, ef_db_refresh_checksums db))"

end
