(* ===== verification/Slots.thy ===== *)
theory Slots
  imports Slot_Pool
begin

text \<open>
  Operations on single slots of \<^verbatim>\<open>endfields.c\<close> (status, link, payload and field writes, freeing)
  and pointer chasing, with the release of an overflow chain from \<^verbatim>\<open>ef_blob.c\<close> they depend on.

  The release loop follows links found in memory. It is a \<open>partial_function\<close> into \<open>option\<close>:
  \<open>None\<close> means that the C loop would not return.
\<close>

definition EF_CHASE_MAX_DEPTH :: u32 where "EF_CHASE_MAX_DEPTH = 1024"
definition EF_CHASE_VISIT_CACHE :: nat where "EF_CHASE_VISIT_CACHE = 64"

subsection \<open>Overflow chains\<close>

definition ef_slot_has_overflow_chain :: "ef_db \<Rightarrow> nat \<Rightarrow> bool" where
  "ef_slot_has_overflow_chain db p =
     (let offset = next_offset (slot_at (mem db) p) in
      if offset = 0 then False
      else case ef_offset_to_slot_id db offset of
        Inl _ \<Rightarrow> False
      | Inr slot_id \<Rightarrow>
          if max_slots (sb db) \<le> slot_id then False
          else status (db_slot db slot_id) = EF_STATUS_OVERFLOW)"

partial_function (option) release_loop :: "ef_env \<Rightarrow> ef_db \<Rightarrow> u64 \<Rightarrow> (ef_err \<times> ef_db) option" where
  "release_loop env db offset =
     (if offset = 0 then Some (EF_OK, db)
      else case ef_offset_to_slot_id db offset of
        Inl err \<Rightarrow> Some (err, db)
      | Inr slot_id \<Rightarrow>
          let p = db_slot_ptr db slot_id in
          if status (slot_at (mem db) p) \<noteq> EF_STATUS_OVERFLOW
          then Some (EF_ERR_NOT_FOUND, ef_set_error db EF_ERR_NOT_FOUND)
          else
            let nxt = next_offset (slot_at (mem db) p);
                db = upd_mem (\<lambda>m. set_next_offset m p 0) db
            in (case ef_return_slot_to_pool env db slot_id p of
                  (err, db) \<Rightarrow> if err \<noteq> EF_OK then Some (err, db) else release_loop env db nxt))"

definition ef_blob_release_chain :: "ef_env \<Rightarrow> ef_db \<Rightarrow> u64 \<Rightarrow> nat \<Rightarrow> (ef_err \<times> ef_db) option" where
  "ef_blob_release_chain env db head_id p =
     (let offset = next_offset (slot_at (mem db) p);
          db = upd_mem (\<lambda>m. set_next_offset m p 0) db;
          db = ef_slot_header_crc_store db head_id p
      in release_loop env db offset)"

subsection \<open>Freeing a slot\<close>

definition ef_free_slot :: "ef_env \<Rightarrow> ef_db \<Rightarrow> u64 \<Rightarrow> (ef_err \<times> ef_db) option" where
  "ef_free_slot env db slot_id =
     (case ef_db_require_write db of
        (err, db) \<Rightarrow>
          if err \<noteq> EF_OK then Some (err, db)
          else
            (case ef_peek_slot db slot_id of
               (None, db) \<Rightarrow> Some (last_err db, db)
             | (Some p, db) \<Rightarrow>
                 let slot = slot_at (mem db) p;
                     prior_status = status slot;
                     prior_next = next_offset slot
                 in
                 if status slot = EF_STATUS_FREE
                 then Some (EF_ERR_SLOT_FREE, ef_set_error db EF_ERR_SLOT_FREE)
                 else if status slot = EF_STATUS_QUEUED
                 then Some (EF_ERR_SLOT_BUSY, ef_set_error db EF_ERR_SLOT_BUSY)
                 else if status slot = EF_STATUS_QUEUE_DUMMY \<or> status slot = EF_STATUS_QUEUE_LINK \<or>
                         status slot = EF_STATUS_QUEUE_DEQ
                 then Some (EF_ERR_SLOT_BUSY, ef_set_error db EF_ERR_SLOT_BUSY)
                 else if (status slot = EF_STATUS_USED \<or> status slot = EF_STATUS_OVERFLOW) \<and>
                         \<not> ef_slot_header_crc_valid db slot_id slot
                 then Some (EF_ERR_BAD_CHECKSUM, ef_set_error db EF_ERR_BAD_CHECKSUM)
                 else
                   (case (if status slot = EF_STATUS_USED then ef_blob_release_chain env db slot_id p
                          else Some (EF_OK, db)) of
                      None \<Rightarrow> None
                    | Some (err, db) \<Rightarrow>
                        if err \<noteq> EF_OK then Some (err, ef_set_error db err)
                        else
                          let db = (if ef_txn_active db
                                    then snd (ef_txn_record_free_count
                                           (snd (ef_txn_record_slot_free db slot_id prior_next prior_status)) 1)
                                    else db)
                          in Some (ef_return_slot_to_pool env db slot_id p))))"

subsection \<open>Status, link and payload writes\<close>

definition ef_set_status :: "ef_env \<Rightarrow> ef_db \<Rightarrow> u64 \<Rightarrow> u32 \<Rightarrow> (ef_err \<times> ef_db) option" where
  "ef_set_status env db slot_id st =
     (case ef_db_require_write db of
        (err, db) \<Rightarrow>
          if err \<noteq> EF_OK then Some (err, db)
          else
            (case ef_peek_slot db slot_id of
               (None, db) \<Rightarrow> Some (EF_ERR_SLOT_ID, ef_set_error db EF_ERR_SLOT_ID)
             | (Some p, db) \<Rightarrow>
                 let prior_status = status (slot_at (mem db) p);
                     prior_crc = header_crc (slot_at (mem db) p);
                     recorded = (if ef_txn_active db
                                 then snd (ef_txn_record_slot_status db slot_id prior_status prior_crc)
                                 else db)
                 in
                 if st = EF_STATUS_FREE then
                   if prior_status = EF_STATUS_FREE
                   then Some (EF_ERR_SLOT_FREE, ef_set_error db EF_ERR_SLOT_FREE)
                   else ef_free_slot env db slot_id
                 else if st = EF_STATUS_USED then
                   if prior_status = EF_STATUS_FREE then Some (ef_claim_slot db slot_id)
                   else if prior_status = EF_STATUS_USED then Some (EF_OK, ef_set_error db EF_OK)
                   else
                     let db = ef_slot_status_store recorded p EF_STATUS_USED;
                         db = ef_slot_header_crc_store db slot_id p
                     in Some (EF_OK, ef_set_error db EF_OK)
                 else
                   let db = ef_slot_status_store recorded p st;
                       db = (if ef_slot_status_has_crc st then ef_slot_header_crc_store db slot_id p
                             else upd_mem (\<lambda>m. set_header_crc m p 0) db)
                   in Some (EF_OK, ef_set_error db EF_OK)))"

definition ef_set_next_offset :: "ef_db \<Rightarrow> u64 \<Rightarrow> u64 \<Rightarrow> ef_err \<times> ef_db" where
  "ef_set_next_offset db slot_id new_next =
     (case ef_db_require_write db of
        (err, db) \<Rightarrow>
          if err \<noteq> EF_OK then (err, db)
          else
            (case ef_get_slot db slot_id of
               (None, db) \<Rightarrow> (last_err db, db)
             | (Some p, db) \<Rightarrow>
                 if status (slot_at (mem db) p) \<noteq> EF_STATUS_USED
                 then (EF_ERR_SLOT_FREE, ef_set_error db EF_ERR_SLOT_FREE)
                 else if ef_slot_has_overflow_chain db p
                 then (EF_ERR_SLOT_BUSY, ef_set_error db EF_ERR_SLOT_BUSY)
                 else
                   (case (if new_next \<noteq> 0 then ef_offset_to_slot_id db new_next else Inr 0) of
                      Inl err \<Rightarrow> (err, ef_set_error db err)
                    | Inr _ \<Rightarrow>
                        let prior_next = ef_slot_next_offset_load db p;
                            db = (if ef_txn_active db \<and> prior_next \<noteq> new_next
                                  then snd (ef_txn_record_slot_next db slot_id prior_next) else db);
                            db = ef_slot_next_offset_store db p new_next;
                            db = ef_slot_header_crc_store db slot_id p
                        in (EF_OK, ef_set_error db EF_OK))))"

text \<open>
  \<open>data\<close> holds the \<open>len\<close> bytes the caller passes, \<open>None\<close> a \<^verbatim>\<open>NULL\<close> pointer.
\<close>

definition ef_write_payload :: "ef_db \<Rightarrow> u64 \<Rightarrow> u8 list option \<Rightarrow> u8 \<Rightarrow> ef_err \<times> ef_db" where
  "ef_write_payload db slot_id data len =
     (case ef_db_require_write db of
        (err, db) \<Rightarrow>
          if err \<noteq> EF_OK then (err, db)
          else if data = None \<and> 0 < len then (EF_ERR_NULL_ARG, ef_set_error db EF_ERR_NULL_ARG)
          else if EF_PAYLOAD_SIZE < unat len then (EF_ERR_PAYLOAD_LEN, ef_set_error db EF_ERR_PAYLOAD_LEN)
          else
            let cap = ef_payload_capacity db in
            if cap < unat len then (EF_ERR_PAYLOAD_LEN, ef_set_error db EF_ERR_PAYLOAD_LEN)
            else
              (case ef_peek_slot db slot_id of
                 (None, db) \<Rightarrow> (EF_ERR_SLOT_ID, ef_set_error db EF_ERR_SLOT_ID)
               | (Some p, db) \<Rightarrow>
                   let slot = slot_at (mem db) p;
                       prior_status = status slot;
                       prior_crc = header_crc slot;
                       prior_prefix = (if prior_status \<noteq> EF_STATUS_FREE
                                       then load_bytes (mem db) (ef_slot_payload_ptr db p) 8
                                       else replicate 8 0)
                   in
                   (case (if status slot = EF_STATUS_FREE then ef_claim_slot db slot_id
                          else if ef_slot_status_has_crc (status slot) \<and>
                                  \<not> ef_slot_header_crc_valid db slot_id slot
                          then (EF_ERR_BAD_CHECKSUM, ef_set_error db EF_ERR_BAD_CHECKSUM)
                          else (EF_OK, db)) of
                      (err, db) \<Rightarrow>
                        if err \<noteq> EF_OK then (err, db)
                        else
                          let db = (if prior_status = EF_STATUS_FREE then snd (ef_peek_slot db slot_id) else db);
                              payload_p = ef_slot_payload_ptr db p;
                              db = (if ef_txn_active db
                                    then if prior_status \<noteq> EF_STATUS_FREE
                                         then snd (ef_txn_record_slot_payload db slot_id (Some prior_prefix))
                                         else snd (ef_txn_record_slot_status db slot_id prior_status prior_crc)
                                    else db);
                              db = (if 0 < len
                                    then upd_mem (\<lambda>m. store_bytes m payload_p (take (unat len) (the data))) db
                                    else db);
                              db = (if unat len < cap
                                    then upd_mem (\<lambda>m. mem_set m (payload_p + unat len) 0 (cap - unat len)) db
                                    else db);
                              db = ef_slot_status_store db p EF_STATUS_USED;
                              db = ef_slot_header_crc_store db slot_id p
                          in (EF_OK, ef_set_error db EF_OK))))"

text \<open>
  In a transaction a write of field 0 records an eight-byte prefix taken from a one-byte local;
  \<open>stack\<close> are the seven bytes that follow it on the stack.
\<close>

definition ef_write_field :: "u8 list \<Rightarrow> ef_db \<Rightarrow> u64 \<Rightarrow> u8 \<Rightarrow> u8 \<Rightarrow> ef_err \<times> ef_db" where
  "ef_write_field stack db slot_id field_offset v =
     (case ef_db_require_write db of
        (err, db) \<Rightarrow>
          if err \<noteq> EF_OK then (err, db)
          else
            (case ef_get_slot db slot_id of
               (None, db) \<Rightarrow> (last_err db, db)
             | (Some p, db) \<Rightarrow>
                 (case ef_get_field_ptr (Some p) field_offset of
                    None \<Rightarrow> (EF_ERR_OFFSET, ef_set_error db EF_ERR_OFFSET)
                  | Some field \<Rightarrow>
                      let prior_value = load_u8 (mem db) field;
                          db = (if ef_txn_active db \<and> field_offset = 0
                                then snd (ef_txn_record_slot_payload db slot_id (Some (prior_value # stack)))
                                else db);
                          db = upd_mem (\<lambda>m. store_u8 m field v) db;
                          db = ef_slot_header_crc_store db slot_id p
                      in (EF_OK, ef_set_error db EF_OK))))"

subsection \<open>Chasing links\<close>

definition ef_chase :: "ef_db \<Rightarrow> nat option \<Rightarrow> nat option \<times> ef_db" where
  "ef_chase db current_slot =
     (case current_slot of
        None \<Rightarrow> (None, ef_set_error db EF_ERR_NULL_ARG)
      | Some p \<Rightarrow>
          let nxt = ef_slot_next_offset_load db p in
          if nxt = 0 then (None, ef_set_error db EF_ERR_OFFSET)
          else if nxt < slots_base db \<or> file_size db \<le> nxt then (None, ef_set_error db EF_ERR_OFFSET)
          else if (nxt - slots_base db) AND 63 \<noteq> 0 then (None, ef_set_error db EF_ERR_OFFSET)
          else if status (slot_at (mem db) (unat nxt)) \<noteq> EF_STATUS_USED
          then (None, ef_set_error db EF_ERR_SLOT_FREE)
          else (Some (unat nxt), ef_set_error db EF_OK))"

text \<open>
  The hop loop: \<open>n\<close> hops left, \<open>i\<close> done, \<open>seen\<close> the offsets cached so far. The result is the error,
  the slot at which the chain ended with the number of slots visited, or the offset reached when
  the hops ran out.
\<close>

fun chase_loop :: "ef_db \<Rightarrow> u64 list \<Rightarrow> nat \<Rightarrow> nat \<Rightarrow> u64 \<Rightarrow> ef_err + (nat \<times> nat) + u64" where
  "chase_loop db seen i 0 offset = Inr (Inr offset)"
| "chase_loop db seen i (Suc n) offset =
     (if offset \<in> set seen then Inl EF_ERR_CHASE_CYCLE
      else
        let seen = (if length seen < EF_CHASE_VISIT_CACHE then seen @ [offset] else seen);
            slot = slot_at (mem db) (unat offset)
        in
        if status slot \<noteq> EF_STATUS_USED then Inl EF_ERR_SLOT_FREE
        else if next_offset slot = 0 then Inr (Inl (unat offset, Suc i))
        else chase_loop db seen (Suc i) n (next_offset slot))"

text \<open>The second component of a successful result is \<^verbatim>\<open>*hops_done_out\<close>.\<close>

definition ef_chase_n :: "ef_db \<Rightarrow> u64 \<Rightarrow> u32 \<Rightarrow> (nat \<times> u32) option \<times> ef_db" where
  "ef_chase_n db start_offset hops =
     (if hops = 0 then
        if ef_slot_at_offset db start_offset = None then (None, ef_set_error db EF_ERR_OFFSET)
        else (case ef_offset_to_ptr (ef_set_error db EF_OK) start_offset of
                (None, db) \<Rightarrow> (None, db)
              | (Some p, db) \<Rightarrow> (Some (p, 0), db))
      else
        let limit = (if EF_CHASE_MAX_DEPTH < hops then EF_CHASE_MAX_DEPTH else hops) in
        if start_offset < slots_base db \<or> file_size db \<le> start_offset
        then (None, ef_set_error db EF_ERR_OFFSET)
        else if (start_offset - slots_base db) AND 63 \<noteq> 0 then (None, ef_set_error db EF_ERR_OFFSET)
        else
          (case chase_loop db [] 0 (unat limit) start_offset of
             Inl err \<Rightarrow> (None, ef_set_error db err)
           | Inr (Inl (p, n)) \<Rightarrow> (Some (p, of_nat n), ef_set_error db EF_OK)
           | Inr (Inr offset) \<Rightarrow>
               if EF_CHASE_MAX_DEPTH < hops then (None, ef_set_error db EF_ERR_CHASE_DEPTH)
               else (Some (unat offset, limit), ef_set_error db EF_OK)))"

end
