(* ===== verification/Grow.thy ===== *)
theory Grow
  imports Slots
begin

text \<open>
  \<^verbatim>\<open>ef_grow.c\<close>: iteration over used slots, the upgrade of a legacy file, and growth of the slot
  area; with it \<^verbatim>\<open>ef_alloc_ex\<close>, the allocation that grows the database when the pool is empty.
\<close>

subsection \<open>Iteration\<close>

text \<open>
  The visitor gets the slot id, the slot and its own state, and says whether to go on. It is a
  function of the slot contents: it does not write to the database.
\<close>

fun foreach_loop ::
  "ef_db \<Rightarrow> (u64 \<Rightarrow> ef_slot \<Rightarrow> 'u \<Rightarrow> bool \<times> 'u) \<Rightarrow> nat list \<Rightarrow> 'u \<Rightarrow> ef_err \<times> 'u"
where
  "foreach_loop db fn [] u = (EF_OK, u)"
| "foreach_loop db fn (i # is) u =
     (let slot = db_slot db (of_nat i) in
      if status slot \<noteq> EF_STATUS_USED then foreach_loop db fn is u
      else if \<not> ef_slot_header_crc_valid db (of_nat i) slot then (EF_ERR_BAD_CHECKSUM, u)
      else case fn (of_nat i) slot u of (go, u) \<Rightarrow> if go then foreach_loop db fn is u else (EF_OK, u))"

definition ef_foreach_used ::
  "ef_db \<Rightarrow> (u64 \<Rightarrow> ef_slot \<Rightarrow> 'u \<Rightarrow> bool \<times> 'u) \<Rightarrow> 'u \<Rightarrow> ef_err \<times> 'u \<times> ef_db"
where
  "ef_foreach_used db fn u =
     (if \<not> mapped db then (EF_ERR_NULL_ARG, u, ef_set_error db EF_ERR_NULL_ARG)
      else case foreach_loop db fn [0..<unat (max_slots (sb db))] u of
        (err, u) \<Rightarrow> (err, u, ef_set_error db err))"

datatype iter_result = Iter_End | Iter_Slot u64 | Iter_Bad

text \<open>
  \<^verbatim>\<open>ef_slot_iter_next\<close> from index \<open>i\<close>, with \<open>n\<close> slots left: 0, 1 with the slot, or -1; and the
  index after the call.
\<close>

fun iter_loop :: "ef_db \<Rightarrow> u64 \<Rightarrow> nat \<Rightarrow> iter_result \<times> u64" where
  "iter_loop db i 0 = (Iter_End, i)"
| "iter_loop db i (Suc n) =
     (let slot = db_slot db i in
      if status slot \<noteq> EF_STATUS_USED then iter_loop db (i + 1) n
      else if \<not> ef_slot_header_crc_valid db i slot then (Iter_Bad, i + 1)
      else (Iter_Slot i, i + 1))"

definition ef_slot_iter_init :: "ef_db \<Rightarrow> u64" where
  "ef_slot_iter_init db = 0"

definition ef_slot_iter_next :: "ef_db \<Rightarrow> u64 \<Rightarrow> iter_result \<times> u64 \<times> ef_db" where
  "ef_slot_iter_next db index =
     (if \<not> mapped db then (Iter_End, index, db)
      else case iter_loop db index (unat (max_slots (sb db)) - unat index) of
        (res, i) \<Rightarrow> (res, i, ef_set_error db (if res = Iter_Bad then EF_ERR_BAD_CHECKSUM else EF_OK)))"

subsection \<open>Upgrade\<close>

text \<open>
  The legacy payload starts where the current layout has \<^verbatim>\<open>header_crc\<close>; 48 of its 52 bytes are
  kept.
\<close>

definition upgrade_slot :: "nat \<Rightarrow> ef_db \<Rightarrow> ef_db" where
  "upgrade_slot i db =
     (let p = slot_ptr (unat (slots_base db)) i; st = status (slot_at (mem db) p) in
      if st = EF_STATUS_USED then
        let legacy = load_bytes (mem db) (p + 4) EF_PAYLOAD_SIZE_LEGACY;
            db = upd_mem (\<lambda>m. mem_set m (p + 8) 0 48) db;
            db = upd_mem (\<lambda>m. store_bytes m (p + 8) (take EF_PAYLOAD_SIZE legacy)) db;
            db = upd_mem (\<lambda>m. set_header_crc m p 0) db
        in ef_slot_header_crc_store db (of_nat i) p
      else if st = EF_STATUS_FREE then upd_mem (\<lambda>m. set_header_crc m p 0) db
      else db)"

definition ef_upgrade_slots_v1_to_v2 :: "ef_db \<Rightarrow> ef_err \<times> ef_db" where
  "ef_upgrade_slots_v1_to_v2 db = (EF_OK, fold upgrade_slot [0..<unat (max_slots (sb db))] db)"

definition ef_needs_upgrade :: "ef_db \<Rightarrow> bool" where
  "ef_needs_upgrade db =
     (if \<not> mapped db then False
      else if schema_version (sb db) = EF_SCHEMA_VERSION \<or>
              schema_version (sb db) = EF_SCHEMA_VERSION_V3 \<or>
              schema_version (sb db) = EF_SCHEMA_VERSION_V2
      then flags (sb db) AND (EF_FLAG_SB_CRC OR EF_FLAG_SLOT_CRC) \<noteq> EF_FLAG_SB_CRC OR EF_FLAG_SLOT_CRC
      else schema_version (sb db) = 0 \<or> schema_version (sb db) = EF_SCHEMA_LEGACY)"

definition ef_upgrade :: "ef_db \<Rightarrow> ef_err \<times> ef_db" where
  "ef_upgrade db =
     (case ef_db_require_write db of
        (err, db) \<Rightarrow>
          if err \<noteq> EF_OK then (err, db)
          else if \<not> mapped db then (EF_ERR_NULL_ARG, ef_set_error db EF_ERR_NULL_ARG)
          else if \<not> ef_needs_upgrade db then (EF_OK, ef_set_error db EF_OK)
          else if schema_version (sb db) \<noteq> EF_SCHEMA_VERSION \<and>
                  schema_version (sb db) \<noteq> EF_SCHEMA_VERSION_V3 \<and>
                  schema_version (sb db) \<noteq> EF_SCHEMA_VERSION_V2 \<and>
                  schema_version (sb db) \<noteq> EF_SCHEMA_LEGACY \<and> schema_version (sb db) \<noteq> 0
          then (EF_ERR_BAD_VERSION, ef_set_error db EF_ERR_BAD_VERSION)
          else
            (case ef_upgrade_slots_v1_to_v2 db of
               (err, db) \<Rightarrow>
                 if err \<noteq> EF_OK then (err, ef_set_error db err)
                 else
                   let db = upd_mem (\<lambda>m. set_schema_version m EF_SCHEMA_VERSION) db;
                       db = upd_mem (\<lambda>m. set_flags m (EF_FLAG_SB_CRC OR EF_FLAG_SLOT_CRC)) db;
                       db = ef_db_refresh_checksums db
                   in (EF_OK, ef_set_error db EF_OK)))"

subsection \<open>Growth\<close>

definition append_slot :: "nat \<Rightarrow> ef_db \<Rightarrow> ef_db" where
  "append_slot i db =
     (let p = slot_ptr (unat (slots_base db)) i;
          db = upd_mem (\<lambda>m. mem_set m p 0 64) db;
          db = upd_mem (\<lambda>m. set_status m p EF_STATUS_FREE) db;
          db = upd_mem (\<lambda>m. set_next_offset m p (free_list_head (sb_of m))) db;
          db = upd_mem (\<lambda>m. set_free_list_head m (ef_slot_to_offset db (of_nat i))) db
      in upd_mem ef_sb_free_count_inc db)"

definition ef_grow_append_slots :: "ef_db \<Rightarrow> u64 \<Rightarrow> u64 \<Rightarrow> ef_err \<times> ef_db" where
  "ef_grow_append_slots db old_max new_max =
     (let db = upd_mem (\<lambda>m. set_max_slots m new_max) db;
          db = fold append_slot [unat old_max..<unat new_max] db
      in (EF_OK, ef_db_mark_meta_dirty db))"

text \<open>
  The \<^verbatim>\<open>ef_io\<close> round trip of the file backend (\<^verbatim>\<open>ef_db_to_io\<close>, \<^verbatim>\<open>ef_db_bind_io\<close>) is the handle
  itself, rebound to its layout.
\<close>

definition ef_grow :: "ef_env \<Rightarrow> ef_db \<Rightarrow> u64 \<Rightarrow> ef_err \<times> ef_db" where
  "ef_grow env db new_max_slots =
     (case ef_db_require_write db of
        (err, db) \<Rightarrow>
          if err \<noteq> EF_OK then (err, db)
          else if \<not> mapped db then (EF_ERR_NULL_ARG, ef_set_error db EF_ERR_NULL_ARG)
          else if ef_txn_active db then (EF_ERR_GROW, ef_set_error db EF_ERR_GROW)
          else
            let old_max = max_slots (sb db) in
            if new_max_slots \<le> old_max then (EF_ERR_GROW, ef_set_error db EF_ERR_GROW)
            else
              let new_size = ef_expected_file_size new_max_slots (hash_capacity db) (undo_log_slots db) in
              if backend db = EF_BACKEND_MEMORY \<and> map_capacity db < new_size
              then (EF_ERR_FILE_SIZE, ef_set_error db EF_ERR_FILE_SIZE)
              else
                (case (if backend db = EF_BACKEND_FILE
                       then (case ef_port_grow_file env db new_size of
                               (err, db) \<Rightarrow> (err, if err = EF_OK then ef_db_bind_slots_layout db else db))
                       else (EF_OK, db\<lparr>file_size := new_size\<rparr>)) of
                   (err, db) \<Rightarrow>
                     if err \<noteq> EF_OK then (err, ef_set_error db err)
                     else
                       let old_size = ef_expected_file_size old_max (hash_capacity db) (undo_log_slots db);
                           db = upd_mem (\<lambda>m. mem_set m (unat old_size) 0 (unat (new_size - old_size))) db
                       in (case ef_grow_append_slots db old_max new_max_slots of
                             (err, db) \<Rightarrow> (err, ef_set_error db err))))"

definition ef_alloc_ex :: "ef_env \<Rightarrow> ef_db \<Rightarrow> u32 \<Rightarrow> (ef_err + u64) \<times> ef_db" where
  "ef_alloc_ex env db alloc_flags =
     (case ef_alloc_slot_ex db alloc_flags of
        (res, db) \<Rightarrow>
          if res \<noteq> Inl EF_ERR_SLOT_FULL then (res, db)
          else if \<not> mapped db then (Inl EF_ERR_NULL_ARG, db)
          else
            (case ef_grow env db (max_slots (sb db) + 1) of
               (err, db) \<Rightarrow>
                 if err \<noteq> EF_OK then (Inl err, db) else ef_alloc_slot_ex db alloc_flags))"

definition ef_alloc :: "ef_env \<Rightarrow> ef_db \<Rightarrow> (ef_err + u64) \<times> ef_db" where
  "ef_alloc env db = ef_alloc_ex env db EF_ALLOC_ZERO_PAYLOAD"

end
