(* ===== verification/Blob.thy ===== *)
theory Blob
  imports Grow
begin

text \<open>
  \<^verbatim>\<open>ef_blob.c\<close>: values longer than a payload. The head slot holds an eight-byte header (magic,
  length) and the first bytes, the rest is in a chain of overflow slots linked by
  \<^verbatim>\<open>next_offset\<close>.
\<close>

definition EF_BLOB_LEN_SIZE :: nat where "EF_BLOB_LEN_SIZE = 4"
definition EF_BLOB_MAGIC :: u32 where "EF_BLOB_MAGIC = 0x424F4C42"
definition EF_BLOB_HDR_SIZE :: nat where "EF_BLOB_HDR_SIZE = 8"

lemmas ef_blob_defs = EF_BLOB_LEN_SIZE_def EF_BLOB_MAGIC_def EF_BLOB_HDR_SIZE_def

definition ef_blob_overflow_chunk_cap :: "ef_db \<Rightarrow> nat" where
  "ef_blob_overflow_chunk_cap db = ef_payload_capacity db"

definition ef_blob_inline_capacity :: "ef_db \<Rightarrow> nat" where
  "ef_blob_inline_capacity db =
     (if ef_payload_capacity db \<le> EF_BLOB_HDR_SIZE then 0 else ef_payload_capacity db - EF_BLOB_HDR_SIZE)"

lemma payload_capacity_pos [simp]: "0 < ef_payload_capacity db"
  by (simp add: ef_payload_capacity_def EF_PAYLOAD_SIZE_def EF_PAYLOAD_SIZE_LEGACY_def)

definition ef_blob_magic_valid :: "mem \<Rightarrow> nat \<Rightarrow> bool" where
  "ef_blob_magic_valid m payload_p \<longleftrightarrow> load_u32 m payload_p = EF_BLOB_MAGIC"

definition ef_blob_read_len :: "ef_db \<Rightarrow> nat \<Rightarrow> u32" where
  "ef_blob_read_len db p =
     (let payload_p = ef_slot_payload_ptr db p in
      if \<not> ef_blob_magic_valid (mem db) payload_p then 0
      else load_u32 (mem db) (payload_p + EF_BLOB_LEN_SIZE))"

definition ef_blob_size :: "ef_db \<Rightarrow> u64 \<Rightarrow> nat" where
  "ef_blob_size db slot_id =
     (if \<not> mapped db \<or> max_slots (sb db) \<le> slot_id then 0
      else if status (db_slot db slot_id) \<noteq> EF_STATUS_USED then 0
      else unat (ef_blob_read_len db (db_slot_ptr db slot_id)))"

subsection \<open>Writing\<close>

definition ef_alloc_overflow_slot :: "ef_env \<Rightarrow> ef_db \<Rightarrow> (ef_err + (u64 \<times> nat)) \<times> ef_db" where
  "ef_alloc_overflow_slot env db =
     (case ef_alloc env db of
        (Inl err, db) \<Rightarrow> (Inl err, db)
      | (Inr slot_id, db) \<Rightarrow>
          (case ef_get_slot db slot_id of
             (None, db) \<Rightarrow> (Inl (last_err db), db)
           | (Some p, db) \<Rightarrow>
               let db = ef_slot_status_store db p EF_STATUS_OVERFLOW
               in (Inr (slot_id, p), ef_slot_header_crc_store db slot_id p)))"

text \<open>
  In a transaction the old chain is only unlinked, slot by slot. The loop follows links found in
  memory, so it may be partial; \<open>None\<close> means that it would not return.
\<close>

partial_function (option) unlink_loop :: "ef_db \<Rightarrow> u64 \<Rightarrow> (ef_err \<times> ef_db) option" where
  "unlink_loop db offset =
     (if offset = 0 then Some (EF_OK, db)
      else case ef_offset_to_slot_id db offset of
        Inl _ \<Rightarrow> Some (EF_ERR_OFFSET, db)
      | Inr slot_id \<Rightarrow>
          let p = db_slot_ptr db slot_id in
          if status (slot_at (mem db) p) \<noteq> EF_STATUS_OVERFLOW then Some (EF_ERR_NOT_FOUND, db)
          else
            let nxt = next_offset (slot_at (mem db) p);
                db = upd_mem (\<lambda>m. set_next_offset m p 0) db;
                db = ef_slot_header_crc_store db slot_id p
            in unlink_loop db nxt)"

definition ef_blob_unlink_chain_in_txn :: "ef_db \<Rightarrow> u64 \<Rightarrow> nat \<Rightarrow> (ef_err \<times> ef_db) option" where
  "ef_blob_unlink_chain_in_txn db head_id p =
     (let offset = next_offset (slot_at (mem db) p);
          db = upd_mem (\<lambda>m. set_next_offset m p 0) db;
          db = ef_slot_header_crc_store db head_id p
      in unlink_loop db offset)"

text \<open>The blob header of the slot at \<open>p\<close>: magic and length.\<close>

definition blob_header_write :: "ef_db \<Rightarrow> nat \<Rightarrow> u32 \<Rightarrow> u32 \<Rightarrow> ef_db" where
  "blob_header_write db p magic_v total_len =
     (let payload_p = ef_slot_payload_ptr db p;
          db = upd_mem (\<lambda>m. store_u32 m payload_p magic_v) db
      in upd_mem (\<lambda>m. store_u32 m (payload_p + EF_BLOB_LEN_SIZE) total_len) db)"

text \<open>
  The loop that stores the remaining bytes \<open>src\<close>, one overflow slot per chunk, behind the slot
  \<open>tail_id\<close> at \<open>tail_p\<close>. If an allocation fails the chain built so far is released and the head
  loses its blob header. Its guard on the chunk capacity holds at every call.
\<close>

function blob_append ::
  "ef_env \<Rightarrow> u64 \<Rightarrow> nat \<Rightarrow> u64 \<Rightarrow> nat \<Rightarrow> u8 list \<Rightarrow> ef_db \<Rightarrow> (ef_err \<times> ef_db) option"
where
  "blob_append env head_id head_p tail_id tail_p src db =
     (if src = [] \<or> ef_blob_overflow_chunk_cap db = 0 then Some (EF_OK, db)
      else
        let chunk_cap = ef_blob_overflow_chunk_cap db in
        (case ef_alloc_overflow_slot env db of
           (Inl err, db) \<Rightarrow>
             (case ef_blob_release_chain env db head_id head_p of
                None \<Rightarrow> None
              | Some (_, db) \<Rightarrow>
                  let db = blob_header_write db head_p 0 0;
                      db = upd_mem (\<lambda>m. mem_set m (ef_slot_payload_ptr db head_p + EF_BLOB_HDR_SIZE) 0
                                          (ef_blob_inline_capacity db)) db
                  in Some (err, ef_slot_header_crc_store db head_id head_p))
         | (Inr (ov_id, ov_p), db) \<Rightarrow>
             let chunk = min (length src) chunk_cap;
                 ov_payload = ef_slot_payload_ptr db ov_p;
                 db = upd_mem (\<lambda>m. store_bytes m ov_payload (take chunk src)) db;
                 db = (if chunk < chunk_cap
                       then upd_mem (\<lambda>m. mem_set m (ov_payload + chunk) 0 (chunk_cap - chunk)) db else db);
                 db = upd_mem (\<lambda>m. set_next_offset m tail_p (ef_slot_to_offset db ov_id)) db;
                 db = ef_slot_header_crc_store db tail_id tail_p;
                 db = ef_slot_header_crc_store db ov_id ov_p
             in blob_append env head_id head_p ov_id ov_p (drop chunk src) db))"
  by pat_completeness auto
termination
  by (relation "measure (\<lambda>(env, head_id, head_p, tail_id, tail_p, src, db). length src)") auto

declare blob_append.simps [simp del]

definition ef_write_blob :: "ef_env \<Rightarrow> ef_db \<Rightarrow> u64 \<Rightarrow> u8 list option \<Rightarrow> nat \<Rightarrow> (ef_err \<times> ef_db) option" where
  "ef_write_blob env db slot_id data len =
     (case ef_db_require_write db of
        (err, db) \<Rightarrow>
          if err \<noteq> EF_OK then Some (err, db)
          else if data = None \<and> 0 < len then Some (EF_ERR_NULL_ARG, ef_set_error db EF_ERR_NULL_ARG)
          else if 0xFFFFFFFF < len then Some (EF_ERR_PAYLOAD_LEN, ef_set_error db EF_ERR_PAYLOAD_LEN)
          else if ef_blob_inline_capacity db = 0 \<or> ef_blob_overflow_chunk_cap db = 0
          then Some (EF_ERR_PAYLOAD_LEN, ef_set_error db EF_ERR_PAYLOAD_LEN)
          else
            let inline_cap = ef_blob_inline_capacity db in
            (case ef_get_slot db slot_id of
               (None, db) \<Rightarrow> Some (last_err db, db)
             | (Some p, db) \<Rightarrow>
                 (case (if status (slot_at (mem db) p) = EF_STATUS_FREE
                        then (case ef_claim_slot db slot_id of
                                (err, db) \<Rightarrow>
                                  if err \<noteq> EF_OK then (Inl err, db)
                                  else (case ef_get_slot db slot_id of
                                          (None, db) \<Rightarrow> (Inl (last_err db), db)
                                        | (Some p, db) \<Rightarrow> (Inr p, db)))
                        else (Inr p, db)) of
                    (Inl err, db) \<Rightarrow> Some (err, db)
                  | (Inr p, db) \<Rightarrow>
                      if status (slot_at (mem db) p) \<noteq> EF_STATUS_USED
                      then Some (EF_ERR_SLOT_BUSY, ef_set_error db EF_ERR_SLOT_BUSY)
                      else
                        (case (if ef_txn_active db then ef_blob_unlink_chain_in_txn db slot_id p
                               else ef_blob_release_chain env db slot_id p) of
                           None \<Rightarrow> None
                         | Some (err, db) \<Rightarrow>
                             if err \<noteq> EF_OK then Some (err, db)
                             else
                               (case ef_get_slot db slot_id of
                                  (None, db) \<Rightarrow> Some (last_err db, db)
                                | (Some p, db) \<Rightarrow>
                                    let db = (if ef_txn_active db
                                              then snd (ef_txn_record_slot_payload db slot_id
                                                     (Some (load_bytes (mem db) (ef_slot_payload_ptr db p) 8)))
                                              else db);
                                        db = blob_header_write db p EF_BLOB_MAGIC (of_nat len);
                                        src = take len (case data of None \<Rightarrow> [] | Some bs \<Rightarrow> bs);
                                        inline_bytes = min len inline_cap;
                                        db = (if 0 < len
                                              then upd_mem (\<lambda>m. store_bytes m
                                                     (ef_slot_payload_ptr db p + EF_BLOB_HDR_SIZE)
                                                     (take inline_bytes src)) db
                                              else db)
                                    in
                                    (case blob_append env slot_id p slot_id p (drop inline_bytes src) db of
                                       None \<Rightarrow> None
                                     | Some (err, db) \<Rightarrow>
                                         if err \<noteq> EF_OK then Some (err, db)
                                         else
                                           let db = ef_slot_status_store db p EF_STATUS_USED;
                                               db = ef_slot_header_crc_store db slot_id p
                                           in Some (EF_OK, ef_set_error db EF_OK)))))))"

subsection \<open>Reading\<close>

lemma read_progress:
  "copied < need \<Longrightarrow> copied < buf_cap \<Longrightarrow> 0 < cap \<Longrightarrow>
   need - (copied + min (min (need - copied) cap) (buf_cap - copied)) < (need - copied :: nat)"
  by auto

text \<open>
  The loop over the overflow slots; \<open>copied\<close> bytes of \<open>need\<close> are in the buffer of capacity
  \<open>buf_cap\<close>. The result is the bytes it adds.
\<close>

function read_loop ::
  "ef_db \<Rightarrow> nat \<Rightarrow> nat \<Rightarrow> u64 \<Rightarrow> nat \<Rightarrow> (ef_err + u8 list) \<times> ef_db"
where
  "read_loop db need buf_cap offset copied =
     (if copied < need \<and> copied < buf_cap \<and> offset \<noteq> 0 \<and> 0 < ef_blob_overflow_chunk_cap db then
        (case ef_offset_to_slot_id db offset of
           Inl _ \<Rightarrow> (Inl EF_ERR_OFFSET, ef_set_error db EF_ERR_OFFSET)
         | Inr ov_id \<Rightarrow>
             (case ef_get_slot db ov_id of
                (None, db) \<Rightarrow> (Inl (last_err db), db)
              | (Some p, db) \<Rightarrow>
                  if status (slot_at (mem db) p) \<noteq> EF_STATUS_OVERFLOW
                  then (Inl EF_ERR_NOT_FOUND, ef_set_error db EF_ERR_NOT_FOUND)
                  else
                    let n = min (min (need - copied) (ef_blob_overflow_chunk_cap db)) (buf_cap - copied);
                        bytes = load_bytes (mem db) (ef_slot_payload_ptr db p) n
                    in (case read_loop db need buf_cap (next_offset (slot_at (mem db) p)) (copied + n) of
                          (Inl err, db) \<Rightarrow> (Inl err, db)
                        | (Inr rest, db) \<Rightarrow> (Inr (bytes @ rest), db))))
      else (Inr [], db))"
  by pat_completeness auto
termination
  by (relation "measure (\<lambda>(db, need, buf_cap, offset, copied). need - copied)")
     (auto simp: ef_blob_overflow_chunk_cap_def intro!: read_progress)

declare read_loop.simps [simp del]

text \<open>
  \<open>buf_cap\<close> is \<open>None\<close> when the caller passes no buffer. A successful result is \<^verbatim>\<open>*out_len\<close> and the
  bytes written to the buffer.
\<close>

definition ef_read_blob :: "ef_db \<Rightarrow> u64 \<Rightarrow> nat option \<Rightarrow> (ef_err + (nat \<times> u8 list)) \<times> ef_db" where
  "ef_read_blob db slot_id buf_cap =
     (case ef_get_slot db slot_id of
        (None, db) \<Rightarrow> (Inl (last_err db), db)
      | (Some p, db) \<Rightarrow>
          if status (slot_at (mem db) p) \<noteq> EF_STATUS_USED
          then (Inl EF_ERR_SLOT_FREE, ef_set_error db EF_ERR_SLOT_FREE)
          else if \<not> ef_blob_magic_valid (mem db) (ef_slot_payload_ptr db p)
          then (Inl EF_ERR_NOT_FOUND, ef_set_error db EF_ERR_NOT_FOUND)
          else
            let need = unat (ef_blob_read_len db p) in
            (case buf_cap of
               None \<Rightarrow> (Inr (need, []), ef_set_error db EF_OK)
             | Some bc \<Rightarrow>
                 if bc = 0 then (Inr (need, []), ef_set_error db EF_OK)
                 else
                   let inline_cap = ef_blob_inline_capacity db;
                       n = min (min need inline_cap) bc;
                       inline_part = load_bytes (mem db) (ef_slot_payload_ptr db p + EF_BLOB_HDR_SIZE) n
                   in (case read_loop db need bc (next_offset (slot_at (mem db) p)) n of
                         (Inl err, db) \<Rightarrow> (Inl err, db)
                       | (Inr rest, db) \<Rightarrow> (Inr (need, inline_part @ rest), ef_set_error db EF_OK))))"

end
