(* ===== verification/Queue.thy ===== *)
theory Queue
  imports Grow
begin

text \<open>
  The FIFO of \<^verbatim>\<open>ef_queue.c\<close>: a list of slots behind a dummy slot. \<^verbatim>\<open>queue_head\<close> is the offset of
  the dummy, \<^verbatim>\<open>queue_tail\<close> that of the last node (the dummy when the queue is empty); a node's
  payload is a length byte followed by the data. Linking and unlinking happen under the queue lock.
\<close>

definition ef_queue_lock_acquire :: "ef_db \<Rightarrow> ef_err \<times> ef_db" where
  "ef_queue_lock_acquire db =
     (let (err, m) = ef_sb_queue_lock_acquire (mem db); db = db\<lparr>mem := m\<rparr>
      in if err \<noteq> EF_OK then (err, ef_set_error db err) else (err, db))"

definition ef_queue_lock_release :: "ef_db \<Rightarrow> ef_db" where
  "ef_queue_lock_release db = upd_mem ef_sb_queue_lock_release db"

subsection \<open>Push\<close>

text \<open>The dummy's offset, creating the dummy on first use. The compare-and-swap succeeds iff the head is 0.\<close>

definition ef_queue_dummy_offset :: "ef_env \<Rightarrow> ef_db \<Rightarrow> (ef_err + u64) \<times> ef_db" where
  "ef_queue_dummy_offset env db =
     (let head = queue_head (sb db) in
      if head \<noteq> 0 \<and>
         (case ef_slot_at_offset db head of
            None \<Rightarrow> False | Some d \<Rightarrow> status (db_slot db d) = EF_STATUS_QUEUE_DUMMY)
      then (Inr head, db)
      else
        (case ef_alloc_slot db of
           (Inl err, db) \<Rightarrow> (Inl err, db)
         | (Inr dummy_id, db) \<Rightarrow>
             (case ef_peek_slot db dummy_id of
                (None, db) \<Rightarrow> (Inl (last_err db), db)
              | (Some p, db) \<Rightarrow>
                  let dummy_offset = ef_slot_to_offset db dummy_id;
                      db = ef_slot_status_store db p EF_STATUS_QUEUE_DUMMY;
                      db = ef_slot_next_offset_store db p 0;
                      db = clear_payload_at db p;
                      db = ef_slot_header_crc_store db dummy_id p
                  in
                  if queue_head (sb db) = 0
                  then
                    let db = upd_mem (\<lambda>m. set_queue_head m dummy_offset) db;
                        db = upd_mem (\<lambda>m. set_queue_tail m dummy_offset) db
                    in (Inr dummy_offset, ef_db_mark_meta_dirty db)
                  else
                    let db = ef_slot_status_store db p EF_STATUS_USED;
                        db = snd (ef_return_slot_to_pool env db dummy_id p)
                    in (Inr (queue_head (sb db)), db))))"

definition ef_queue_enqueue_mpmc :: "ef_env \<Rightarrow> ef_db \<Rightarrow> u64 \<Rightarrow> u64 \<Rightarrow> ef_err \<times> ef_db" where
  "ef_queue_enqueue_mpmc env db node_off slot_id =
     (case ef_queue_dummy_offset env db of
        (Inl err, db) \<Rightarrow> (err, db)
      | (Inr _, db) \<Rightarrow>
          (case ef_slot_at_offset db node_off of
             None \<Rightarrow> (EF_ERR_OFFSET, ef_set_error db EF_ERR_OFFSET)
           | Some node \<Rightarrow>
               let p = db_slot_ptr db node;
                   db = ef_slot_next_offset_store db p 0;
                   db = ef_slot_status_store db p EF_STATUS_QUEUED;
                   db = ef_slot_header_crc_store db slot_id p
               in
               (case ef_queue_lock_acquire db of
                  (err, db) \<Rightarrow>
                    if err \<noteq> EF_OK then (err, db)
                    else
                      let tail_off = queue_tail (sb db) in
                      (case ef_slot_at_offset db tail_off of
                         None \<Rightarrow> (EF_ERR_OFFSET, ef_set_error (ef_queue_lock_release db) EF_ERR_OFFSET)
                       | Some tail_id \<Rightarrow>
                           let tp = db_slot_ptr db tail_id;
                               saved_tail_next = ef_slot_next_offset_load db tp;
                               db = ef_slot_next_offset_store db tp node_off;
                               db = ef_slot_header_crc_store db tail_id tp;
                               db = upd_mem (\<lambda>m. set_queue_tail m node_off) db;
                               db = ef_queue_lock_release db;
                               db = ef_db_mark_meta_dirty db;
                               db = (if ef_txn_active db
                                     then snd (ef_txn_record_queue_push db node_off saved_tail_next) else db)
                           in (EF_OK, ef_set_error db EF_OK)))))"

definition ef_queue_push :: "ef_env \<Rightarrow> ef_db \<Rightarrow> u8 list option \<Rightarrow> u8 \<Rightarrow> ef_err \<times> ef_db" where
  "ef_queue_push env db data len =
     (case ef_db_require_write db of
        (err, db) \<Rightarrow>
          if err \<noteq> EF_OK then (err, db)
          else if (data = None \<and> len \<noteq> 0) \<or> \<not> mapped db
          then (EF_ERR_NULL_ARG, ef_set_error db EF_ERR_NULL_ARG)
          else if ef_payload_capacity db < unat len + 1
          then (EF_ERR_PAYLOAD_LEN, ef_set_error db EF_ERR_PAYLOAD_LEN)
          else
            (case ef_alloc_ex env db 0 of
               (Inl err, db) \<Rightarrow> (err, db)
             | (Inr slot_id, db) \<Rightarrow>
                 (case ef_peek_slot db slot_id of
                    (None, db) \<Rightarrow> (EF_ERR_SLOT_ID, ef_set_error db EF_ERR_SLOT_ID)
                  | (Some p, db) \<Rightarrow>
                      let payload_p = ef_slot_payload_ptr db p;
                          db = upd_mem (\<lambda>m. store_u8 m payload_p len) db;
                          db = (if 0 < len
                                then upd_mem (\<lambda>m. store_bytes m (payload_p + 1) (take (unat len) (the data))) db
                                else db)
                      in
                      (case ef_queue_enqueue_mpmc env db (ef_slot_to_offset db slot_id) slot_id of
                         (err, db) \<Rightarrow>
                           (err, if err \<noteq> EF_OK then snd (ef_return_slot_to_pool env db slot_id p) else db)))))"

subsection \<open>Pop\<close>

text \<open>
  \<open>buf_cap\<close> is the size of the caller's buffer. The bytes are \<open>Some\<close> when the buffer and the
  length have been written, which happens before the node is returned to the pool.
\<close>

definition ef_queue_dequeue_mpmc :: "ef_env \<Rightarrow> ef_db \<Rightarrow> nat \<Rightarrow> ef_err \<times> u8 list option \<times> ef_db" where
  "ef_queue_dequeue_mpmc env db buf_cap =
     (let dummy_offset = queue_head (sb db) in
      if dummy_offset = 0 then (EF_ERR_QUEUE_EMPTY, None, ef_set_error db EF_ERR_QUEUE_EMPTY)
      else
        (case ef_queue_lock_acquire db of
           (err, db) \<Rightarrow>
             if err \<noteq> EF_OK then (err, None, db)
             else
               let fail = (\<lambda>e db. (e, None, ef_set_error (ef_queue_lock_release db) e)) in
               (case ef_slot_at_offset db dummy_offset of
                  None \<Rightarrow> fail EF_ERR_NOT_FOUND db
                | Some dummy_id \<Rightarrow>
                    let dp = db_slot_ptr db dummy_id in
                    if status (slot_at (mem db) dp) \<noteq> EF_STATUS_QUEUE_DUMMY then fail EF_ERR_NOT_FOUND db
                    else
                      let first_off = ef_slot_next_offset_load db dp in
                      if first_off = 0 then fail EF_ERR_QUEUE_EMPTY db
                      else
                        (case ef_slot_at_offset db first_off of
                           None \<Rightarrow> fail EF_ERR_NOT_FOUND db
                         | Some first_id \<Rightarrow>
                             let fp = db_slot_ptr db first_id in
                             if status (slot_at (mem db) fp) \<noteq> EF_STATUS_QUEUED then fail EF_ERR_NOT_FOUND db
                             else
                               let tail_off = queue_tail (sb db);
                                   first_next = ef_slot_next_offset_load db fp;
                                   payload_p = ef_slot_payload_ptr db fp;
                                   stored_len = load_u8 (mem db) payload_p
                               in
                               if buf_cap < unat stored_len + 1 then fail EF_ERR_PAYLOAD_LEN db
                               else
                                 let bytes = load_bytes (mem db) (payload_p + 1) (unat stored_len);
                                     db = (if ef_txn_active db
                                           then snd (ef_txn_record_queue_pop db first_off
                                                  (ef_slot_next_offset_load db dp) tail_off first_next)
                                           else db);
                                     db = ef_slot_next_offset_store db dp first_next;
                                     db = (if tail_off = first_off
                                           then upd_mem (\<lambda>m. set_queue_tail m
                                                  (if first_next \<noteq> 0 then first_next else dummy_offset)) db
                                           else db);
                                     db = ef_slot_header_crc_store db dummy_id dp;
                                     (err, db) = ef_return_slot_to_pool env db first_id fp;
                                     db = ef_queue_lock_release db;
                                     db = ef_db_mark_meta_dirty db
                                 in (err, Some bytes, ef_set_error db err)))))"

text \<open>\<open>None\<close> stands for a \<^verbatim>\<open>NULL\<close> buffer or length pointer.\<close>

definition ef_queue_pop :: "ef_env \<Rightarrow> ef_db \<Rightarrow> nat option \<Rightarrow> ef_err \<times> u8 list option \<times> ef_db" where
  "ef_queue_pop env db buf_cap =
     (case ef_db_require_write db of
        (err, db) \<Rightarrow>
          if err \<noteq> EF_OK then (err, None, db)
          else
            (case buf_cap of
               None \<Rightarrow> (EF_ERR_NULL_ARG, None, ef_set_error db EF_ERR_NULL_ARG)
             | Some bc \<Rightarrow>
                 if \<not> mapped db then (EF_ERR_NULL_ARG, None, ef_set_error db EF_ERR_NULL_ARG)
                 else ef_queue_dequeue_mpmc env db bc))"

subsection \<open>Queries\<close>

definition ef_queue_empty :: "ef_db \<Rightarrow> bool \<times> ef_db" where
  "ef_queue_empty db =
     (if \<not> mapped db then (True, db)
      else
        let dummy_offset = queue_head (sb db) in
        if dummy_offset = 0 then (True, db)
        else
          (case ef_offset_to_ptr db dummy_offset of
             (None, db) \<Rightarrow> (queue_head (sb db) = 0, db)
           | (Some p, db) \<Rightarrow>
               if status (slot_at (mem db) p) \<noteq> EF_STATUS_QUEUE_DUMMY then (queue_head (sb db) = 0, db)
               else (ef_slot_next_offset_load db p = 0, db)))"

definition ef_queue_drained :: "ef_db \<Rightarrow> bool \<times> ef_db" where
  "ef_queue_drained db =
     (if \<not> mapped db then (True, db)
      else
        let dummy_offset = queue_head (sb db) in
        if dummy_offset = 0 then (True, db)
        else
          (case ef_queue_lock_acquire db of
             (err, db) \<Rightarrow>
               if err \<noteq> EF_OK then (False, db)
               else
                 (case ef_slot_at_offset db dummy_offset of
                    None \<Rightarrow> (False, ef_queue_lock_release db)
                  | Some d \<Rightarrow>
                      if status (db_slot db d) \<noteq> EF_STATUS_QUEUE_DUMMY then (False, ef_queue_lock_release db)
                      else (next_offset (db_slot db d) = 0, ef_queue_lock_release db))))"

subsection \<open>Taking back a push or a pop\<close>

text \<open>The dummy's checksum is stored with the dummy's offset in the place of its slot id.\<close>

definition ef_queue_restore_before_push :: "ef_db \<Rightarrow> u64 \<Rightarrow> u64 \<Rightarrow> ef_err \<times> ef_db" where
  "ef_queue_restore_before_push db new_node_offset saved_tail_next =
     (case ef_queue_lock_acquire db of
        (err, db) \<Rightarrow>
          if err \<noteq> EF_OK then (err, db)
          else if queue_tail (sb db) \<noteq> new_node_offset then (EF_OK, ef_queue_lock_release db)
          else
            (case ef_slot_at_offset db new_node_offset of
               None \<Rightarrow> (EF_ERR_OFFSET, ef_queue_lock_release db)
             | Some node_id \<Rightarrow>
                 let np = db_slot_ptr db node_id;
                     db = (case ef_slot_at_offset db saved_tail_next of
                             None \<Rightarrow>
                               (case ef_slot_at_offset db (queue_head (sb db)) of
                                  None \<Rightarrow> db
                                | Some d \<Rightarrow>
                                    ef_slot_header_crc_store
                                      (ef_slot_next_offset_store db (db_slot_ptr db d) 0)
                                      (queue_head (sb db)) (db_slot_ptr db d))
                           | Some old_tail_id \<Rightarrow>
                               ef_slot_header_crc_store
                                 (ef_slot_next_offset_store db (db_slot_ptr db old_tail_id) 0)
                                 old_tail_id (db_slot_ptr db old_tail_id));
                     db = upd_mem (\<lambda>m. set_queue_tail m saved_tail_next) db;
                     db = ef_slot_status_store db np EF_STATUS_USED;
                     db = ef_slot_header_crc_store db node_id np;
                     db = ef_queue_lock_release db
                 in (EF_OK, ef_db_mark_meta_dirty db)))"

definition ef_queue_restore_before_pop :: "ef_db \<Rightarrow> u64 \<Rightarrow> u64 \<Rightarrow> u64 \<Rightarrow> u64 \<Rightarrow> ef_err \<times> ef_db" where
  "ef_queue_restore_before_pop db popped_node_offset saved_dummy_next saved_tail saved_node_next =
     (case ef_queue_lock_acquire db of
        (err, db) \<Rightarrow>
          if err \<noteq> EF_OK then (err, db)
          else
            (case ef_slot_at_offset db (queue_head (sb db)) of
               None \<Rightarrow> (EF_ERR_OFFSET, ef_queue_lock_release db)
             | Some dummy_id \<Rightarrow>
                 (case ef_slot_at_offset db popped_node_offset of
                    None \<Rightarrow> (EF_ERR_OFFSET, ef_queue_lock_release db)
                  | Some node_id \<Rightarrow>
                      let dp = db_slot_ptr db dummy_id; np = db_slot_ptr db node_id;
                          db = ef_slot_next_offset_store db dp popped_node_offset;
                          db = ef_slot_header_crc_store db dummy_id dp;
                          db = ef_slot_next_offset_store db np saved_node_next;
                          db = ef_slot_status_store db np EF_STATUS_QUEUED;
                          db = ef_slot_header_crc_store db node_id np;
                          db = upd_mem (\<lambda>m. set_queue_tail m saved_tail) db;
                          db = ef_queue_lock_release db
                      in (EF_OK, ef_db_mark_meta_dirty db))))"

end
