(* ===== verification/Txn.thy ===== *)
theory Txn
  imports Blob Queue
begin

text \<open>
  Transactions: the reverse replay of the undo log (\<^verbatim>\<open>ef_undo.c\<close>) and begin, commit, abort and
  crash recovery (\<^verbatim>\<open>ef_txn.c\<close>).
\<close>

definition EF_TXN_STATE_NONE :: u8 where "EF_TXN_STATE_NONE = 0"
definition EF_TXN_STATE_ACTIVE :: u8 where "EF_TXN_STATE_ACTIVE = 1"
definition EF_TXN_STATE_ABORTING :: u8 where "EF_TXN_STATE_ABORTING = 2"
definition EF_TXN_WRITER_NONE :: u32 where "EF_TXN_WRITER_NONE = 0xFFFFFFFF"

lemmas ef_txn_state_defs = EF_TXN_STATE_NONE_def EF_TXN_STATE_ACTIVE_def EF_TXN_STATE_ABORTING_def

subsection \<open>Inverse actions\<close>

definition ef_undo_restore_slot_status :: "ef_db \<Rightarrow> u64 \<Rightarrow> u32 \<Rightarrow> u32 \<Rightarrow> ef_err \<times> ef_db" where
  "ef_undo_restore_slot_status db slot_id prior_status prior_crc =
     (case ef_peek_slot db slot_id of
        (None, db) \<Rightarrow> (EF_ERR_SLOT_ID, db)
      | (Some p, db) \<Rightarrow>
          (EF_OK, upd_mem (\<lambda>m. set_header_crc (set_status m p prior_status) p
                                 (if ef_slot_status_has_crc prior_status then prior_crc else 0)) db))"

definition ef_undo_restore_slot_next :: "ef_db \<Rightarrow> u64 \<Rightarrow> u64 \<Rightarrow> ef_err \<times> ef_db" where
  "ef_undo_restore_slot_next db slot_id prior_next =
     (case ef_peek_slot db slot_id of
        (None, db) \<Rightarrow> (EF_ERR_SLOT_ID, db)
      | (Some p, db) \<Rightarrow>
          (EF_OK, ef_slot_header_crc_store (ef_slot_next_offset_store db p prior_next) slot_id p))"

definition ef_undo_restore_slot_alloc :: "ef_db \<Rightarrow> u64 \<Rightarrow> ef_err \<times> ef_db" where
  "ef_undo_restore_slot_alloc db slot_id =
     (case ef_peek_slot db slot_id of
        (None, db) \<Rightarrow> (EF_ERR_SLOT_ID, db)
      | (Some p, db) \<Rightarrow>
          let off = ef_slot_to_offset db slot_id;
              db = ef_slot_next_offset_store db p (free_list_head (sb db));
              db = ef_slot_status_store db p EF_STATUS_FREE;
              db = upd_mem (\<lambda>m. set_header_crc m p 0) db;
              db = upd_mem (\<lambda>m. set_free_list_head m off) db
          in (EF_OK, ef_db_mark_meta_dirty db))"

definition ef_undo_restore_slot_free :: "ef_db \<Rightarrow> u64 \<Rightarrow> u64 \<Rightarrow> u32 \<Rightarrow> ef_err \<times> ef_db" where
  "ef_undo_restore_slot_free db slot_id prior_next prior_status =
     (case ef_peek_slot db slot_id of
        (None, db) \<Rightarrow> (EF_ERR_SLOT_ID, db)
      | (Some p, db) \<Rightarrow>
          let db = ef_slot_next_offset_store db p prior_next;
              db = ef_slot_status_store db p prior_status;
              db = (if ef_slot_status_has_crc prior_status then ef_slot_header_crc_store db slot_id p
                    else upd_mem (\<lambda>m. set_header_crc m p 0) db)
          in (EF_OK, ef_db_mark_meta_dirty db))"

text \<open>
  The free-count branch. \<open>delta\<close> is read as a signed 64-bit value; the subtraction is done in 64
  bits and truncated to 32.
\<close>

definition undo_free_count :: "ef_db \<Rightarrow> u64 \<Rightarrow> ef_db" where
  "undo_free_count db delta =
     (let cur = ef_sb_free_count_load (mem db);
          cur' = (if sint delta < 0 \<and> cur < ucast (- delta) then 0
                  else ucast (ucast cur - delta))
      in ef_db_mark_meta_dirty (upd_mem (\<lambda>m. ef_sb_free_count_store m cur') db))"

subsection \<open>Replay\<close>

text \<open>One record at \<open>p\<close> in the mapping.\<close>

definition undo_apply :: "ef_env \<Rightarrow> ef_db \<Rightarrow> nat \<Rightarrow> ef_err \<times> ef_db" where
  "undo_apply env db p =
     (let m = mem db;
          rec = undo_record_of m p;
          off = target_offset rec;
          slot_id = (case ef_offset_to_slot_id db off of Inl _ \<Rightarrow> 0 | Inr i \<Rightarrow> i);
          before_u32 = (\<lambda>k. load_u32 m (p + 20 + k));
          before_u64 = (\<lambda>k. load_u64 m (p + 20 + k))
      in
      if undo_kind rec = EF_UNDO_KIND_SLOT_STATUS
      then ef_undo_restore_slot_status db slot_id (before_u32 0) (before_u32 4)
      else if undo_kind rec = EF_UNDO_KIND_SLOT_NEXT
      then ef_undo_restore_slot_next db slot_id (before_u64 0)
      else if undo_kind rec = EF_UNDO_KIND_SLOT_PAYLOAD
      then (case ef_peek_slot db slot_id of
              (None, db) \<Rightarrow> (EF_ERR_SLOT_ID, db)
            | (Some sp, db) \<Rightarrow>
                (EF_OK, ef_slot_header_crc_store
                          (upd_mem (\<lambda>m. store_bytes m (ef_slot_payload_ptr db sp) (take 8 (before rec))) db)
                          slot_id sp))
      else if undo_kind rec = EF_UNDO_KIND_SLOT_ALLOC then ef_undo_restore_slot_alloc db slot_id
      else if undo_kind rec = EF_UNDO_KIND_SLOT_FREE
      then ef_undo_restore_slot_free db slot_id (before_u64 0) (ucast (undo_aux rec))
      else if undo_kind rec = EF_UNDO_KIND_INDEX_PUT
      then (case ef_index_remove_by_slot env db slot_id of
              (err, db) \<Rightarrow> (if err = EF_ERR_NOT_FOUND then EF_OK else err, db))
      else if undo_kind rec = EF_UNDO_KIND_INDEX_REMOVE
      then (case ef_index_put_entry db (before_u64 0) off of (err, _, db) \<Rightarrow> (err, db))
      else if undo_kind rec = EF_UNDO_KIND_QUEUE_PUSH
      then ef_queue_restore_before_push db off (before_u64 0)
      else if undo_kind rec = EF_UNDO_KIND_QUEUE_POP
      then ef_queue_restore_before_pop db off (before_u64 0) (before_u64 8) (undo_aux rec)
      else if undo_kind rec = EF_UNDO_KIND_FREE_COUNT then (EF_OK, undo_free_count db (undo_aux rec))
      else (EF_OK, db))"

text \<open>
  The loop from the stored tail down to the header. In the payload branch the C code leaves
  \<^verbatim>\<open>err\<close> as the previous record left it, which is \<^verbatim>\<open>EF_OK\<close>.
\<close>

function replay_loop :: "ef_env \<Rightarrow> nat \<Rightarrow> u64 \<Rightarrow> ef_db \<Rightarrow> ef_err \<times> ef_db" where
  "replay_loop env h pos db =
     (if EF_UNDO_HEADER_SIZE < pos
      then let pos = pos - EF_UNDO_RECORD_SIZE in
        (case undo_apply env db (h + unat pos) of
           (err, db) \<Rightarrow> if err \<noteq> EF_OK then (err, db) else replay_loop env h pos db)
      else (EF_OK, db))"
  by pat_completeness auto
termination
  by (relation "measure (\<lambda>(env, h, pos, db). unat pos)")
     (auto simp: ef_undo_size_defs word_less_nat_alt unat_sub word_le_nat_alt)

declare replay_loop.simps [simp del]

definition ef_undo_replay_reverse :: "ef_env \<Rightarrow> ef_db \<Rightarrow> ef_err \<times> ef_db" where
  "ef_undo_replay_reverse env db =
     (case ef_undo_header_ptr db of
        None \<Rightarrow> (EF_ERR_NULL_ARG, db)
      | Some h \<Rightarrow>
          if undo_magic (undo_header_of (mem db) h) = 0 then (EF_OK, db)
          else replay_loop env h (log_tail (undo_header_of (mem db) h)) db)"

subsection \<open>Begin, commit, abort\<close>

text \<open>\<open>pid\<close> is what \<^verbatim>\<open>getpid\<close> returns.\<close>

definition ef_txn_begin :: "u32 \<Rightarrow> ef_db \<Rightarrow> ef_err \<times> ef_db" where
  "ef_txn_begin pid db =
     (if readonly db then (EF_ERR_READONLY, ef_set_error db EF_ERR_READONLY)
      else if \<not> mapped db \<or> schema_version (sb db) < EF_SCHEMA_VERSION
      then (EF_ERR_BAD_VERSION, ef_set_error db EF_ERR_BAD_VERSION)
      else if txn_active db then (EF_ERR_TXN_BUSY, ef_set_error db EF_ERR_TXN_BUSY)
      else
        (case ef_sb_txn_lock_try_acquire (mem db) of
           (err, m) \<Rightarrow>
             let db = db\<lparr>mem := m\<rparr> in
             if err \<noteq> EF_OK then (err, ef_set_error db err)
             else
               let db = upd_mem (\<lambda>m. ef_sb_txn_state_store m EF_TXN_STATE_ACTIVE) db;
                   db = db\<lparr>txn_state := EF_TXN_STATE_ACTIVE, txn_active := True, txn_writer_pid := pid\<rparr>;
                   db = ef_undo_reset db;
                   db = ef_db_mark_meta_dirty db
               in (EF_OK, ef_set_error db EF_OK)))"

text \<open>What commit and abort share: forget the transaction in the handle, reset the log, clear the state, unlock.\<close>

definition txn_finish :: "ef_db \<Rightarrow> ef_db" where
  "txn_finish db =
     (let db = db\<lparr>txn_state := EF_TXN_STATE_NONE, txn_active := False, txn_writer_pid := EF_TXN_WRITER_NONE\<rparr>;
          db = ef_undo_reset db;
          db = upd_mem (\<lambda>m. ef_sb_txn_state_store m EF_TXN_STATE_NONE) db;
          db = upd_mem ef_sb_txn_lock_release db
      in ef_db_mark_meta_dirty db)"

definition ef_txn_commit :: "ef_db \<Rightarrow> ef_err \<times> ef_db" where
  "ef_txn_commit db =
     (if \<not> txn_active db then (EF_OK, ef_set_error db EF_OK)
      else (EF_OK, ef_set_error (txn_finish db) EF_OK))"

definition ef_txn_abort :: "ef_env \<Rightarrow> ef_db \<Rightarrow> ef_err \<times> ef_db" where
  "ef_txn_abort env db =
     (if \<not> txn_active db then (EF_OK, ef_set_error db EF_OK)
      else
        let db = db\<lparr>txn_state := EF_TXN_STATE_ABORTING\<rparr>;
            db = upd_mem (\<lambda>m. ef_sb_txn_state_store m EF_TXN_STATE_ABORTING) db
        in (case ef_undo_replay_reverse env db of
              (err, db) \<Rightarrow> (err, ef_set_error (txn_finish db) err)))"

definition ef_txn_recover_from_stale_lock :: "ef_env \<Rightarrow> ef_db \<Rightarrow> ef_err \<times> ef_db" where
  "ef_txn_recover_from_stale_lock env db =
     (if \<not> mapped db \<or> schema_version (sb db) < EF_SCHEMA_VERSION then (EF_OK, db)
      else if ef_sb_txn_state_load (mem db) \<noteq> EF_TXN_STATE_ACTIVE then (EF_OK, db)
      else
        let db = db\<lparr>txn_state := EF_TXN_STATE_ABORTING\<rparr>;
            db = ef_set_error db EF_OK
        in (case ef_undo_replay_reverse env db of
              (err, db) \<Rightarrow>
                let db = ef_undo_reset db;
                    db = upd_mem (\<lambda>m. ef_sb_txn_state_store m EF_TXN_STATE_NONE) db;
                    db = upd_mem ef_sb_txn_lock_release db;
                    db = db\<lparr>txn_state := EF_TXN_STATE_NONE\<rparr>
                in (err, ef_db_mark_meta_dirty db)))"

end
