(* ===== verification/Open.thy ===== *)
theory Open
  imports Txn
begin

text \<open>
  Opening and closing a database: the port layer of \<^verbatim>\<open>ef_port.c\<close> (POSIX branch), validation,
  creation, migration and recovery of \<^verbatim>\<open>endfields.c\<close>, and synchronisation.

  A file is its bytes and its size. What the system calls answer is the parameter \<open>env\<close>.
\<close>

record ef_io =
  io_mem :: mem
  io_mapped :: bool
  map_size :: u64
  io_capacity :: u64
  io_backend :: ef_backend
  io_readonly :: bool

definition io_empty :: "mem \<Rightarrow> ef_io" where
  "io_empty m = \<lparr>io_mem = m, io_mapped = False, map_size = 0, io_capacity = 0,
                 io_backend = EF_BACKEND_NONE, io_readonly = False\<rparr>"

subsection \<open>Port layer\<close>

text \<open>The boolean is \<^verbatim>\<open>*is_new_out\<close>. A new file is extended with zero bytes.\<close>

definition ef_port_open_file :: "ef_env \<Rightarrow> mem \<Rightarrow> u64 \<Rightarrow> u64 \<Rightarrow> ef_err + (ef_io \<times> bool)" where
  "ef_port_open_file env bytes fsize want_size =
     (if \<not> env_open env then Inl EF_ERR_IO
      else if \<not> env_fstat env then Inl EF_ERR_IO
      else
        let is_new = fsize = 0 in
        if is_new \<and> \<not> env_ftruncate env want_size then Inl EF_ERR_IO
        else
          let msize = (if is_new then want_size else fsize);
              bytes = (if is_new then mem_set bytes 0 0 (unat want_size) else bytes)
          in
          if \<not> env_mmap env msize then Inl EF_ERR_MMAP
          else Inr (\<lparr>io_mem = bytes, io_mapped = True, map_size = msize, io_capacity = msize,
                     io_backend = EF_BACKEND_FILE, io_readonly = False\<rparr>, is_new))"

definition ef_port_open_file_existing :: "ef_env \<Rightarrow> mem \<Rightarrow> u64 \<Rightarrow> bool \<Rightarrow> ef_err + ef_io" where
  "ef_port_open_file_existing env bytes fsize ro =
     (if \<not> env_open env then Inl EF_ERR_IO
      else if \<not> env_fstat env then Inl EF_ERR_IO
      else if fsize = 0 then Inl EF_ERR_FILE_SIZE
      else if \<not> env_mmap env fsize then Inl EF_ERR_MMAP
      else Inr \<lparr>io_mem = bytes, io_mapped = True, map_size = fsize, io_capacity = fsize,
                io_backend = EF_BACKEND_FILE, io_readonly = ro\<rparr>)"

definition ef_port_open_memory :: "mem \<Rightarrow> u64 \<Rightarrow> ef_err + ef_io" where
  "ef_port_open_memory buffer buffer_size =
     (if buffer_size = 0 then Inl EF_ERR_NULL_ARG
      else Inr \<lparr>io_mem = buffer, io_mapped = True, map_size = buffer_size, io_capacity = buffer_size,
                io_backend = EF_BACKEND_MEMORY, io_readonly = False\<rparr>)"

definition ef_port_sync :: "ef_env \<Rightarrow> ef_db \<Rightarrow> ef_err" where
  "ef_port_sync env db =
     (if \<not> mapped db then EF_ERR_NULL_ARG
      else if backend db = EF_BACKEND_MEMORY then EF_OK
      else if readonly db then EF_OK
      else if \<not> env_msync env then EF_ERR_IO else EF_OK)"

text \<open>The descriptor is dropped; the bytes remain in the file.\<close>

definition ef_port_close :: "ef_io \<Rightarrow> ef_io" where
  "ef_port_close io = io_empty (io_mem io)"

subsection \<open>Binding\<close>

text \<open>The zeroed handle of \<^verbatim>\<open>calloc\<close>.\<close>

definition ef_db_zero :: ef_db where
  "ef_db_zero =
    \<lparr> mem = (\<lambda>_. 0), mapped = False, live = True, file_size = 0, map_capacity = 0, last_err = EF_OK,
      backend = EF_BACKEND_NONE, slots_base = 0, hash_capacity = 0, hash_entry_count = 0,
      hash_index = None, readonly = False, sb_meta_dirty = False, index_seq = 0, txn_state = 0,
      txn_active = False, txn_writer_pid = 0, undo_log_base = 0, undo_log_slots = 0, undo_tail = 0,
      undo_record_count = 0 \<rparr>"

definition ef_db_bind_io :: "ef_db \<Rightarrow> ef_io \<Rightarrow> ef_db" where
  "ef_db_bind_io db io =
     ef_db_bind_slots_layout
       (db\<lparr>mem := io_mem io, mapped := io_mapped io, file_size := map_size io, backend := io_backend io,
           map_capacity := io_capacity io, readonly := io_readonly io\<rparr>)"

definition ef_db_to_io :: "ef_db \<Rightarrow> ef_io" where
  "ef_db_to_io db =
    \<lparr> io_mem = mem db, io_mapped = mapped db, map_size = file_size db, io_capacity = map_capacity db,
      io_backend = backend db, io_readonly = readonly db \<rparr>"

subsection \<open>Validation and creation\<close>

definition ef_validate_superblock :: "mem \<Rightarrow> u64 \<Rightarrow> ef_err" where
  "ef_validate_superblock m fsize =
     (let s = sb_of m; v = schema_version s in
      if \<not> ef_magic_valid m then EF_ERR_BAD_MAGIC
      else if slot_size s \<noteq> of_nat EF_SLOT_SIZE then EF_ERR_BAD_SLOT_SIZE
      else if v \<noteq> 0 \<and> v \<noteq> EF_SCHEMA_LEGACY \<and> v \<noteq> EF_SCHEMA_VERSION_V2 \<and> v \<noteq> EF_SCHEMA_VERSION_V3 \<and>
              v \<noteq> EF_SCHEMA_VERSION_V4 \<and> v \<noteq> EF_SCHEMA_VERSION then EF_ERR_BAD_VERSION
      else if \<not> ef_hash_capacity_valid (ef_hash_capacity_from_sb m) then EF_ERR_BAD_VERSION
      else
        let log_slots = (if v = EF_SCHEMA_VERSION then of_nat EF_UNDO_LOG_DEFAULT_SLOTS else 0);
            expected = ef_expected_file_size (max_slots s) (ef_hash_capacity_from_sb m) log_slots
        in
        if v = EF_SCHEMA_VERSION \<and> fsize \<noteq> expected then EF_ERR_FILE_SIZE
        else if v \<noteq> EF_SCHEMA_VERSION \<and> fsize < expected then EF_ERR_FILE_SIZE
        else if \<not> ef_sb_checksum_valid m then EF_ERR_BAD_CHECKSUM
        else EF_OK)"

definition ef_init_superblock :: "mem \<Rightarrow> u64 \<Rightarrow> u32 \<Rightarrow> mem" where
  "ef_init_superblock m n_slots cap =
     (let m = set_magic m [69, 78, 68, 70];
          m = set_slot_size m (of_nat EF_SLOT_SIZE);
          m = set_max_slots m n_slots;
          m = set_free_list_head m 0;
          m = set_schema_version m EF_SCHEMA_VERSION;
          m = set_flags m (EF_FLAG_SB_CRC OR EF_FLAG_SLOT_CRC);
          m = ef_sb_free_count_store m (ucast n_slots);
          m = mem_set m 36 0 28;
          m = ef_sb_hash_capacity_store m cap
      in ef_sb_checksum_store m)"

definition ef_init_hash_region :: "ef_db \<Rightarrow> ef_db" where
  "ef_init_hash_region db =
     (case hash_index db of
        None \<Rightarrow> db
      | Some h \<Rightarrow> if hash_capacity db = 0 then db
                  else upd_mem (\<lambda>m. mem_set m h 0 (16 * unat (hash_capacity db))) db)"

definition ef_init_slots :: "ef_db \<Rightarrow> ef_db" where
  "ef_init_slots db =
     (if \<not> mapped db then db
      else upd_mem (\<lambda>m. mem_set m (unat (slots_base db)) 0 (unat (max_slots (sb db) * 64))) db)"

subsection \<open>Initialisation of a mapped database\<close>

text \<open>The v3 to v4 and v4 to v5 migrations on open.\<close>

definition migrate_on_open :: "ef_db \<Rightarrow> ef_err \<times> ef_db" where
  "migrate_on_open db =
     (let (err, db) =
        (if schema_version (sb db) = EF_SCHEMA_VERSION_V3 \<and> 0 < ef_sb_hash_capacity_load (mem db)
         then (case ef_sb_migrate_v3_index_layout (mem db) of
                 (err, m) \<Rightarrow>
                   let db = db\<lparr>mem := m\<rparr> in
                   if err \<noteq> EF_OK then (err, db)
                   else (EF_OK, ef_db_mark_meta_dirty (ef_db_bind_slots_layout db)))
         else (EF_OK, db))
      in
      if err \<noteq> EF_OK then (err, db)
      else if schema_version (sb db) = EF_SCHEMA_VERSION_V4
      then (case ef_sb_migrate_v4_txn_layout (mem db) of
              (err, m) \<Rightarrow>
                let db = db\<lparr>mem := m\<rparr> in
                if err \<noteq> EF_OK then (err, db)
                else
                  let db = ef_db_mark_meta_dirty db;
                      slots_end = slots_base db + max_slots (sb db) * 64;
                      undo_bytes = undo_log_bytes db
                  in (EF_OK, if slots_end + undo_bytes \<le> file_size db
                             then upd_mem (\<lambda>m. mem_set m (unat slots_end) 0 (unat undo_bytes)) db else db))
      else (EF_OK, db))"

definition ef_db_init_mapped :: "ef_env \<Rightarrow> ef_db \<Rightarrow> bool \<Rightarrow> u64 \<Rightarrow> u32 \<Rightarrow> ef_err \<times> ef_db" where
  "ef_db_init_mapped env db is_new_file initial_slots cap =
     (if is_new_file then
        if \<not> ef_hash_capacity_valid cap then (EF_ERR_BAD_VERSION, db)
        else
          let db = upd_mem (\<lambda>m. ef_init_superblock m initial_slots cap) db;
              db = ef_db_bind_slots_layout db;
              db = ef_init_hash_region db;
              db = ef_init_slots db
          in ef_build_free_list db
      else
        let err = ef_validate_superblock (mem db) (file_size db) in
        if err \<noteq> EF_OK then (err, db)
        else if readonly db then (EF_OK, db)
        else
          (case migrate_on_open (ef_db_bind_slots_layout db) of
             (err, db) \<Rightarrow>
               if err \<noteq> EF_OK then (err, db)
               else
                 (case (if EF_SCHEMA_VERSION \<le> schema_version (sb db)
                        then ef_txn_recover_from_stale_lock env db else (EF_OK, db)) of
                    (err, db) \<Rightarrow>
                      if err \<noteq> EF_OK then (err, db)
                      else
                        (case ef_rebuild_free_list db of
                           (err, db) \<Rightarrow>
                             if err \<noteq> EF_OK then (err, db)
                             else
                               let v5_size = ef_expected_file_size (max_slots (sb db))
                                     (ef_hash_capacity_from_sb (mem db)) (undo_log_slots db)
                               in
                               if file_size db < v5_size then
                                 if backend db = EF_BACKEND_FILE then (EF_ERR_FILE_SIZE, db)
                                 else (EF_OK, db\<lparr>file_size := v5_size\<rparr>)
                               else (EF_OK, db)))))"

subsection \<open>Open\<close>

definition ef_open_ex_hash :: "ef_env \<Rightarrow> mem \<Rightarrow> u64 \<Rightarrow> u64 \<Rightarrow> u32 \<Rightarrow> ef_err + ef_db" where
  "ef_open_ex_hash env bytes fsize initial_slots cap =
     (if \<not> ef_hash_capacity_valid cap then Inl EF_ERR_BAD_VERSION
      else if \<not> env_calloc env then Inl EF_ERR_OOM
      else
        (case ef_port_open_file env bytes fsize
                (ef_expected_file_size initial_slots cap (of_nat EF_UNDO_LOG_DEFAULT_SLOTS)) of
           Inl err \<Rightarrow> Inl err
         | Inr (io, is_new) \<Rightarrow>
             let db = ef_db_bind_io ef_db_zero io;
                 v5_size = ef_expected_file_size (max_slots (sb db)) (ef_hash_capacity_from_sb (mem db))
                             (of_nat EF_UNDO_LOG_DEFAULT_SLOTS)
             in
             (case (if \<not> is_new \<and> schema_version (sb db) < EF_SCHEMA_VERSION \<and> file_size db < v5_size
                    then (case ef_port_grow_file env db v5_size of
                            (err, db) \<Rightarrow> (err, if err = EF_OK then ef_db_bind_io db (ef_db_to_io db) else db))
                    else (EF_OK, db)) of
                (err, db) \<Rightarrow>
                  if err \<noteq> EF_OK then Inl err
                  else
                    (case ef_db_init_mapped env db is_new initial_slots cap of
                       (err, db) \<Rightarrow> if err \<noteq> EF_OK then Inl err else Inr (ef_set_error db EF_OK)))))"

definition ef_open_ex :: "ef_env \<Rightarrow> mem \<Rightarrow> u64 \<Rightarrow> u64 \<Rightarrow> ef_err + ef_db" where
  "ef_open_ex env bytes fsize initial_slots = ef_open_ex_hash env bytes fsize initial_slots 0"

definition ef_open :: "ef_env \<Rightarrow> mem \<Rightarrow> u64 \<Rightarrow> u64 \<Rightarrow> ef_db option" where
  "ef_open env bytes fsize initial_slots =
     (case ef_open_ex env bytes fsize initial_slots of Inl _ \<Rightarrow> None | Inr db \<Rightarrow> Some db)"

definition ef_open_readonly_ex :: "ef_env \<Rightarrow> mem \<Rightarrow> u64 \<Rightarrow> ef_err + ef_db" where
  "ef_open_readonly_ex env bytes fsize =
     (if \<not> env_calloc env then Inl EF_ERR_OOM
      else
        (case ef_port_open_file_existing env bytes fsize True of
           Inl err \<Rightarrow> Inl err
         | Inr io \<Rightarrow>
             (case ef_db_init_mapped env (ef_db_bind_io ef_db_zero io) False 0 0 of
                (err, db) \<Rightarrow> if err \<noteq> EF_OK then Inl err
                             else Inr (ef_set_error (db\<lparr>readonly := True\<rparr>) EF_OK))))"

definition ef_open_readonly :: "ef_env \<Rightarrow> mem \<Rightarrow> u64 \<Rightarrow> ef_db option" where
  "ef_open_readonly env bytes fsize =
     (case ef_open_readonly_ex env bytes fsize of Inl _ \<Rightarrow> None | Inr db \<Rightarrow> Some db)"

text \<open>
  \<open>buffer\<close> is the caller's memory of \<open>buffer_size\<close> bytes. For an existing database the size and
  the slot count come from the superblock it holds.
\<close>

definition ef_open_memory_hash ::
  "ef_env \<Rightarrow> mem \<Rightarrow> u64 \<Rightarrow> u64 \<Rightarrow> u32 \<Rightarrow> bool \<Rightarrow> ef_err + ef_db"
where
  "ef_open_memory_hash env buffer buffer_size n_slots cap init_new =
     (if \<not> ef_hash_capacity_valid cap then Inl EF_ERR_BAD_VERSION
      else
        let probe = \<not> init_new \<and> ef_magic_valid buffer \<and> slot_size (sb_of buffer) = of_nat EF_SLOT_SIZE;
            probe_undo = (if schema_version (sb_of buffer) = EF_SCHEMA_VERSION
                          then of_nat EF_UNDO_LOG_DEFAULT_SLOTS else 0);
            on_disk_need = ef_expected_file_size (max_slots (sb_of buffer))
                             (ef_hash_capacity_from_sb buffer) probe_undo;
            need = (if probe then on_disk_need
                    else ef_expected_file_size n_slots cap (of_nat EF_UNDO_LOG_DEFAULT_SLOTS));
            n_slots = (if probe then max_slots (sb_of buffer) else n_slots)
        in
        if probe \<and> buffer_size < on_disk_need then Inl EF_ERR_FILE_SIZE
        else if buffer_size < need then Inl EF_ERR_FILE_SIZE
        else if \<not> env_calloc env then Inl EF_ERR_OOM
        else
          (case ef_port_open_memory buffer need of
             Inl err \<Rightarrow> Inl err
           | Inr io \<Rightarrow>
               let io = (if init_new then io\<lparr>io_mem := mem_set (io_mem io) 0 0 (unat need)\<rparr> else io);
                   db = ef_db_bind_io ef_db_zero io;
                   db = db\<lparr>file_size := need, map_capacity := buffer_size\<rparr>
               in
               (case ef_db_init_mapped env db init_new n_slots cap of
                  (err, db) \<Rightarrow> if err \<noteq> EF_OK then Inl err else Inr (ef_set_error db EF_OK))))"

definition ef_open_memory :: "ef_env \<Rightarrow> mem \<Rightarrow> u64 \<Rightarrow> u64 \<Rightarrow> bool \<Rightarrow> ef_err + ef_db" where
  "ef_open_memory env buffer buffer_size n_slots init_new =
     ef_open_memory_hash env buffer buffer_size n_slots 0 init_new"

subsection \<open>Close and sync\<close>

text \<open>The result is what remains in the file or buffer.\<close>

definition ef_close :: "ef_db \<Rightarrow> ef_io" where
  "ef_close db =
     (let db = (if \<not> readonly db then snd (ef_db_commit_meta db) else db)
      in ef_port_close (ef_db_to_io db))"

definition ef_sync_ex :: "ef_env \<Rightarrow> ef_db \<Rightarrow> ef_err \<times> ef_db" where
  "ef_sync_ex env db =
     (case ef_db_commit_meta db of
        (err, db) \<Rightarrow>
          if err \<noteq> EF_OK then (err, db)
          else let err = ef_port_sync env db in (err, ef_set_error db err))"

definition ef_sync :: "ef_env \<Rightarrow> ef_db \<Rightarrow> ef_err \<times> ef_db" where
  "ef_sync env db = ef_sync_ex env db"

definition ef_is_readonly :: "ef_db \<Rightarrow> bool" where
  "ef_is_readonly db \<longleftrightarrow> readonly db"

definition ef_last_error :: "ef_db \<Rightarrow> ef_err" where
  "ef_last_error db = last_err db"

end
