(* ===== verification/Execute.thy ===== *)
theory Execute
  imports Open
begin

text \<open>
  \<^verbatim>\<open>ef_execute.c\<close>: the opcode dispatcher over the slot, index and queue operations; and
  \<^verbatim>\<open>ef_strerror\<close>. The untyped \<^verbatim>\<open>aux\<close> pointer is the list of bytes it points to, \<open>None\<close> for
  \<^verbatim>\<open>NULL\<close>; each opcode reads as many of them as it needs.
\<close>

definition EF_OP_GET_SLOT :: u8 where "EF_OP_GET_SLOT = 0x01"
definition EF_OP_CHASE :: u8 where "EF_OP_CHASE = 0x02"
definition EF_OP_GET_FIELD :: u8 where "EF_OP_GET_FIELD = 0x03"
definition EF_OP_WRITE_PAYLOAD :: u8 where "EF_OP_WRITE_PAYLOAD = 0x04"
definition EF_OP_SET_NEXT :: u8 where "EF_OP_SET_NEXT = 0x05"
definition EF_OP_SET_STATUS :: u8 where "EF_OP_SET_STATUS = 0x06"
definition EF_OP_WRITE_FIELD :: u8 where "EF_OP_WRITE_FIELD = 0x07"
definition EF_OP_ALLOC :: u8 where "EF_OP_ALLOC = 0x08"
definition EF_OP_FREE :: u8 where "EF_OP_FREE = 0x09"
definition EF_OP_CHASE_N :: u8 where "EF_OP_CHASE_N = 0x0A"
definition EF_OP_INDEX_PUT :: u8 where "EF_OP_INDEX_PUT = 0x10"
definition EF_OP_INDEX_GET :: u8 where "EF_OP_INDEX_GET = 0x11"
definition EF_OP_INDEX_REMOVE :: u8 where "EF_OP_INDEX_REMOVE = 0x12"
definition EF_OP_INDEX_CLEAR :: u8 where "EF_OP_INDEX_CLEAR = 0x13"
definition EF_OP_QUEUE_PUSH :: u8 where "EF_OP_QUEUE_PUSH = 0x14"
definition EF_OP_QUEUE_POP :: u8 where "EF_OP_QUEUE_POP = 0x15"

lemmas ef_op_defs = EF_OP_GET_SLOT_def EF_OP_CHASE_def EF_OP_GET_FIELD_def EF_OP_WRITE_PAYLOAD_def
  EF_OP_SET_NEXT_def EF_OP_SET_STATUS_def EF_OP_WRITE_FIELD_def EF_OP_ALLOC_def EF_OP_FREE_def
  EF_OP_CHASE_N_def EF_OP_INDEX_PUT_def EF_OP_INDEX_GET_def EF_OP_INDEX_REMOVE_def
  EF_OP_INDEX_CLEAR_def EF_OP_QUEUE_PUSH_def EF_OP_QUEUE_POP_def

record ef_cmd =
  opcode :: u8
  param :: u64
  field_offset :: u8

text \<open>
  What \<^verbatim>\<open>ef_execute\<close> returns: \<^verbatim>\<open>NULL\<close>, a pointer into the mapping, the constant \<^verbatim>\<open>(void *) 1\<close>,
  a heap cell with a slot id, or the caller's buffer with the popped bytes. An allocation also
  writes the slot id through \<^verbatim>\<open>aux\<close>.
\<close>

datatype exec_result = Ret_Null | Ret_Ptr nat | Ret_One | Ret_Cell u64 | Ret_Buf "u8 list"

definition ret_ptr :: "nat option \<Rightarrow> exec_result" where
  "ret_ptr po = (case po of None \<Rightarrow> Ret_Null | Some p \<Rightarrow> Ret_Ptr p)"

text \<open>\<^verbatim>\<open>(err == EF_OK) ? ef_get_slot (db, id) : NULL\<close>\<close>

definition slot_if_ok :: "u64 \<Rightarrow> ef_err \<times> ef_db \<Rightarrow> exec_result \<times> ef_db" where
  "slot_if_ok slot_id = (\<lambda>(err, db).
     if err = EF_OK then (case ef_get_slot db slot_id of (po, db) \<Rightarrow> (ret_ptr po, db)) else (Ret_Null, db))"

definition one_if_ok :: "ef_err \<times> ef_db \<Rightarrow> exec_result \<times> ef_db" where
  "one_if_ok = (\<lambda>(err, db). (if err = EF_OK then Ret_One else Ret_Null, db))"

definition null_arg :: "ef_db \<Rightarrow> exec_result \<times> ef_db" where
  "null_arg db = (Ret_Null, ef_set_error db EF_ERR_NULL_ARG)"

text \<open>
  The key of an index opcode: a length byte, then that many bytes. It is copied and terminated with
  a zero byte, and the index functions measure it with \<^verbatim>\<open>strlen\<close>.
\<close>

definition exec_key :: "u8 list \<Rightarrow> u8 list" where
  "exec_key aux = takeWhile (\<lambda>c. c \<noteq> 0) (take (unat (hd aux)) (tl aux))"

definition exec_index :: "ef_env \<Rightarrow> ef_db \<Rightarrow> ef_cmd \<Rightarrow> u8 list option \<Rightarrow> exec_result \<times> ef_db" where
  "exec_index env db cmd aux =
     (case aux of
        None \<Rightarrow> null_arg db
      | Some bs \<Rightarrow>
          if \<not> env_malloc env (ucast (hd bs) + 1) then (Ret_Null, ef_set_error db EF_ERR_OOM)
          else if opcode cmd = EF_OP_INDEX_PUT
          then slot_if_ok (param cmd) (ef_index_put env db (exec_key bs) (param cmd))
          else if opcode cmd = EF_OP_INDEX_GET
          then (case ef_index_get db (exec_key bs) of
                  Inl _ \<Rightarrow> (Ret_Null, db)
                | Inr found \<Rightarrow>
                    if \<not> env_malloc env 8 then (Ret_Null, ef_set_error db EF_ERR_OOM)
                    else (Ret_Cell found, db))
          else one_if_ok (ef_index_remove env db (exec_key bs)))"

text \<open>
  The result also has the command, whose \<^verbatim>\<open>field_offset\<close> the chase opcode overwrites, and the slot
  id written through \<^verbatim>\<open>aux\<close>. \<open>None\<close>: the call does not return. \<open>stack\<close> is as in
  \<open>ef_write_field\<close>. For the queue pop the parameter is the address of the length variable.
\<close>

definition ef_execute ::
  "ef_env \<Rightarrow> u8 list \<Rightarrow> ef_db \<Rightarrow> ef_cmd \<Rightarrow> u8 list option \<Rightarrow>
   (exec_result \<times> u64 option \<times> ef_cmd \<times> ef_db) option"
where
  "ef_execute env stack db cmd aux =
     (let op = opcode cmd;
          done = (\<lambda>(r, db). Some (r, None, cmd, db))
      in
      if op = EF_OP_GET_SLOT
      then (case ef_get_slot db (param cmd) of (po, db) \<Rightarrow> done (ret_ptr po, db))
      else if op = EF_OP_CHASE
      then (case ef_offset_to_ptr db (param cmd) of
              (po, db) \<Rightarrow> (case ef_chase db po of (po, db) \<Rightarrow> done (ret_ptr po, db)))
      else if op = EF_OP_GET_FIELD
      then (case ef_get_slot db (param cmd) of
              (po, db) \<Rightarrow> done (ret_ptr (ef_get_field_ptr po (field_offset cmd)), db))
      else if op = EF_OP_WRITE_PAYLOAD
      then done (slot_if_ok (param cmd) (ef_write_payload db (param cmd) aux (field_offset cmd)))
      else if op = EF_OP_SET_NEXT
      then (case aux of
              None \<Rightarrow> done (null_arg db)
            | Some bs \<Rightarrow> done (slot_if_ok (param cmd)
                           (ef_set_next_offset db (param cmd) (le_word (take 8 bs)))))
      else if op = EF_OP_SET_STATUS
      then (case aux of
              None \<Rightarrow> done (null_arg db)
            | Some bs \<Rightarrow>
                (case ef_set_status env db (param cmd) (le_word (take 4 bs)) of
                   None \<Rightarrow> None
                 | Some res \<Rightarrow> done (slot_if_ok (param cmd) res)))
      else if op = EF_OP_WRITE_FIELD
      then (case aux of
              None \<Rightarrow> done (null_arg db)
            | Some bs \<Rightarrow>
                (case ef_write_field stack db (param cmd) (field_offset cmd) (hd bs) of
                   (err, db) \<Rightarrow>
                     if err \<noteq> EF_OK then done (Ret_Null, db)
                     else (case ef_get_slot db (param cmd) of
                             (po, db) \<Rightarrow> done (ret_ptr (ef_get_field_ptr po (field_offset cmd)), db))))
      else if op = EF_OP_ALLOC
      then (case aux of
              None \<Rightarrow> done (null_arg db)
            | Some _ \<Rightarrow>
                (case ef_alloc_slot db of
                   (Inl _, db) \<Rightarrow> done (Ret_Null, db)
                 | (Inr slot_id, db) \<Rightarrow>
                     (case ef_get_slot db slot_id of (po, db) \<Rightarrow> Some (ret_ptr po, Some slot_id, cmd, db))))
      else if op = EF_OP_FREE
      then (case ef_free_slot env db (param cmd) of None \<Rightarrow> None | Some res \<Rightarrow> done (one_if_ok res))
      else if op = EF_OP_CHASE_N
      then if field_offset cmd = 0 \<and> aux = None then done (null_arg db)
           else
             let hops = (if field_offset cmd = 0 then le_word (take 4 (the aux)) else ucast (field_offset cmd))
             in (case ef_chase_n db (param cmd) hops of
                   (None, db) \<Rightarrow> Some (Ret_Null, None, cmd\<lparr>field_offset := 0\<rparr>, db)
                 | (Some (p, hops_done), db) \<Rightarrow>
                     Some (Ret_Ptr p, None, cmd\<lparr>field_offset := ucast (hops_done AND 0xFF)\<rparr>, db))
      else if op = EF_OP_INDEX_PUT \<or> op = EF_OP_INDEX_GET \<or> op = EF_OP_INDEX_REMOVE
      then done (exec_index env db cmd aux)
      else if op = EF_OP_INDEX_CLEAR then done (one_if_ok (ef_index_clear env db))
      else if op = EF_OP_QUEUE_PUSH then done (one_if_ok (ef_queue_push env db aux (field_offset cmd)))
      else if op = EF_OP_QUEUE_POP
      then (case ef_queue_pop env db
                   (if aux = None \<or> param cmd = 0 then None else Some (unat (field_offset cmd))) of
              (err, bytes, db) \<Rightarrow>
                done (case (err, bytes) of (EF_OK, Some bs) \<Rightarrow> Ret_Buf bs | _ \<Rightarrow> Ret_Null, db))
      else done (Ret_Null, ef_set_error db EF_ERR_OPCODE))"

subsection \<open>Error messages\<close>

definition ef_strerror :: "ef_err \<Rightarrow> string" where
  "ef_strerror err =
     (case err of
        EF_OK \<Rightarrow> ''ok''
      | EF_ERR_NULL_ARG \<Rightarrow> ''null argument''
      | EF_ERR_IO \<Rightarrow> ''io error''
      | EF_ERR_MMAP \<Rightarrow> ''mmap failed''
      | EF_ERR_OOM \<Rightarrow> ''out of memory''
      | EF_ERR_BAD_MAGIC \<Rightarrow> ''invalid magic''
      | EF_ERR_BAD_VERSION \<Rightarrow> ''unsupported schema version''
      | EF_ERR_BAD_CHECKSUM \<Rightarrow> ''checksum mismatch''
      | EF_ERR_BAD_SLOT_SIZE \<Rightarrow> ''invalid slot size in superblock''
      | EF_ERR_FILE_SIZE \<Rightarrow> ''file size mismatch''
      | EF_ERR_SLOT_ID \<Rightarrow> ''invalid slot id''
      | EF_ERR_OFFSET \<Rightarrow> ''invalid file offset''
      | EF_ERR_PAYLOAD_LEN \<Rightarrow> ''invalid payload length''
      | EF_ERR_OPCODE \<Rightarrow> ''invalid opcode''
      | EF_ERR_SLOT_FREE \<Rightarrow> ''slot is free''
      | EF_ERR_SLOT_BUSY \<Rightarrow> ''slot is in use''
      | EF_ERR_SLOT_FULL \<Rightarrow> ''no free slots''
      | EF_ERR_NOT_FOUND \<Rightarrow> ''not found''
      | EF_ERR_CHASE_DEPTH \<Rightarrow> ''chase depth exceeded''
      | EF_ERR_CHASE_CYCLE \<Rightarrow> ''pointer cycle detected''
      | EF_ERR_READONLY \<Rightarrow> ''database opened read-only''
      | EF_ERR_GROW \<Rightarrow> ''invalid grow request''
      | EF_ERR_QUEUE_EMPTY \<Rightarrow> ''queue is empty''
      | EF_ERR_QUEUE_BUSY \<Rightarrow> ''queue contended too long''
      | EF_ERR_INDEX_FULL \<Rightarrow> ''hash index is full''
      | EF_ERR_INDEX_BUSY \<Rightarrow> ''hash index lock busy''
      | EF_ERR_USER_ABORT \<Rightarrow> ''user callback aborted''
      | _ \<Rightarrow> ''unknown error'')"

end
