(* ===== verification/Free_List.thy ===== *)
theory Free_List
  imports Slot_Pool
begin

text \<open>
  Correctness of the slot pool. \<open>free_chain\<close> says that the links starting at an offset run through
  the given slot ids, all of them free, and end with 0; \<open>free_list_inv\<close> ties the chain to the head
  and the count in the superblock. Pop and push are the two ends of a stack of slot ids: the
  contract \<open>slot_stack\<close>, met by the code's two primitives.
\<close>

subsection \<open>Effects of the slot writes\<close>

lemma next_store_fields [simp]:
  "mapped (ef_slot_next_offset_store db p v) = mapped db"
  "live (ef_slot_next_offset_store db p v) = live db"
  "file_size (ef_slot_next_offset_store db p v) = file_size db"
  "map_capacity (ef_slot_next_offset_store db p v) = map_capacity db"
  "last_err (ef_slot_next_offset_store db p v) = last_err db"
  "backend (ef_slot_next_offset_store db p v) = backend db"
  "slots_base (ef_slot_next_offset_store db p v) = slots_base db"
  "hash_capacity (ef_slot_next_offset_store db p v) = hash_capacity db"
  "hash_entry_count (ef_slot_next_offset_store db p v) = hash_entry_count db"
  "hash_index (ef_slot_next_offset_store db p v) = hash_index db"
  "readonly (ef_slot_next_offset_store db p v) = readonly db"
  "sb_meta_dirty (ef_slot_next_offset_store db p v) = sb_meta_dirty db"
  "index_seq (ef_slot_next_offset_store db p v) = index_seq db"
  "txn_state (ef_slot_next_offset_store db p v) = txn_state db"
  "txn_active (ef_slot_next_offset_store db p v) = txn_active db"
  "txn_writer_pid (ef_slot_next_offset_store db p v) = txn_writer_pid db"
  "undo_log_base (ef_slot_next_offset_store db p v) = undo_log_base db"
  "undo_log_slots (ef_slot_next_offset_store db p v) = undo_log_slots db"
  "undo_tail (ef_slot_next_offset_store db p v) = undo_tail db"
  "undo_record_count (ef_slot_next_offset_store db p v) = undo_record_count db"
  by (simp_all add: ef_slot_next_offset_store_def)

lemma status_store_fields [simp]:
  "mapped (ef_slot_status_store db p v) = mapped db"
  "live (ef_slot_status_store db p v) = live db"
  "file_size (ef_slot_status_store db p v) = file_size db"
  "map_capacity (ef_slot_status_store db p v) = map_capacity db"
  "last_err (ef_slot_status_store db p v) = last_err db"
  "backend (ef_slot_status_store db p v) = backend db"
  "slots_base (ef_slot_status_store db p v) = slots_base db"
  "hash_capacity (ef_slot_status_store db p v) = hash_capacity db"
  "hash_entry_count (ef_slot_status_store db p v) = hash_entry_count db"
  "hash_index (ef_slot_status_store db p v) = hash_index db"
  "readonly (ef_slot_status_store db p v) = readonly db"
  "sb_meta_dirty (ef_slot_status_store db p v) = sb_meta_dirty db"
  "index_seq (ef_slot_status_store db p v) = index_seq db"
  "txn_state (ef_slot_status_store db p v) = txn_state db"
  "txn_active (ef_slot_status_store db p v) = txn_active db"
  "txn_writer_pid (ef_slot_status_store db p v) = txn_writer_pid db"
  "undo_log_base (ef_slot_status_store db p v) = undo_log_base db"
  "undo_log_slots (ef_slot_status_store db p v) = undo_log_slots db"
  "undo_tail (ef_slot_status_store db p v) = undo_tail db"
  "undo_record_count (ef_slot_status_store db p v) = undo_record_count db"
  by (simp_all add: ef_slot_status_store_def)

lemma clear_payload_fields [simp]:
  "mapped (clear_payload_at db p) = mapped db"
  "live (clear_payload_at db p) = live db"
  "file_size (clear_payload_at db p) = file_size db"
  "map_capacity (clear_payload_at db p) = map_capacity db"
  "last_err (clear_payload_at db p) = last_err db"
  "backend (clear_payload_at db p) = backend db"
  "slots_base (clear_payload_at db p) = slots_base db"
  "hash_capacity (clear_payload_at db p) = hash_capacity db"
  "hash_entry_count (clear_payload_at db p) = hash_entry_count db"
  "hash_index (clear_payload_at db p) = hash_index db"
  "readonly (clear_payload_at db p) = readonly db"
  "sb_meta_dirty (clear_payload_at db p) = sb_meta_dirty db"
  "index_seq (clear_payload_at db p) = index_seq db"
  "txn_state (clear_payload_at db p) = txn_state db"
  "txn_active (clear_payload_at db p) = txn_active db"
  "txn_writer_pid (clear_payload_at db p) = txn_writer_pid db"
  "undo_log_base (clear_payload_at db p) = undo_log_base db"
  "undo_log_slots (clear_payload_at db p) = undo_log_slots db"
  "undo_tail (clear_payload_at db p) = undo_tail db"
  "undo_record_count (clear_payload_at db p) = undo_record_count db"
  by (simp_all add: clear_payload_at_def)

lemma slot_stores [simp]:
  "mem (ef_slot_next_offset_store db p v) = set_next_offset (mem db) p v"
  "mem (ef_slot_status_store db p w) = set_status (mem db) p w"
  by (simp_all add: ef_slot_next_offset_store_def ef_slot_status_store_def)

text \<open>Both payload layouts lie between the status and the link of the slot.\<close>

lemma mem_clear_payload:
  obtains k n where "mem (clear_payload_at db p) = store_bytes (mem db) (p + k) (replicate n 0)"
    "4 \<le> k" "k + n \<le> 56"
proof (cases "schema_version (sb db) = 0 \<or> schema_version (sb db) = EF_SCHEMA_LEGACY")
  case True
  then have "mem (clear_payload_at db p) = mem_set (mem db) (p + 4) 0 (ef_payload_capacity db)"
    by (simp add: clear_payload_at_def ef_slot_payload_ptr_def)
  moreover have "ef_payload_capacity db \<le> 52"
    by (simp add: ef_payload_capacity_def EF_PAYLOAD_SIZE_def EF_PAYLOAD_SIZE_LEGACY_def)
  ultimately show thesis using that[of 4 "ef_payload_capacity db"] by (simp add: mem_set_store)
next
  case False
  then have "mem (clear_payload_at db p) = mem_set (mem db) (p + 8) 0 48"
    by (simp add: clear_payload_at_def ef_slot_payload_ptr_def ef_payload_capacity_def EF_PAYLOAD_SIZE_def)
  then show thesis using that[of 8 48] by (simp add: mem_set_store)
qed

lemma sb_clear_payload [simp]: "64 \<le> p \<Longrightarrow> sb_of (mem (clear_payload_at db p)) = sb_of (mem db)"
  by (rule mem_clear_payload[of db p]) (simp add: sb_of_store_bytes)

lemma slot_clear_payload [simp]:
  "status (slot_at (mem (clear_payload_at db p)) p) = status (slot_at (mem db) p)"
  "next_offset (slot_at (mem (clear_payload_at db p)) p) = next_offset (slot_at (mem db) p)"
  by (rule mem_clear_payload[of db p];
      simp add: slot_at_def word_loads load_bytes_store_disjoint)+

lemma slot_clear_payload_other [simp]:
  "i \<noteq> j \<Longrightarrow> slot_at (mem (clear_payload_at db (slot_ptr b i))) (slot_ptr b j) = slot_at (mem db) (slot_ptr b j)"
  by (rule mem_clear_payload[of db "slot_ptr b i"]) (simp add: slot_at_store_other)

lemma slot_crc_store_other [simp]:
  "i \<noteq> j \<Longrightarrow> slot_at (mem (ef_slot_header_crc_store db k (slot_ptr b i))) (slot_ptr b j) = slot_at (mem db) (slot_ptr b j)"
  by (simp add: mem_crc_store)

lemma slot_status_next_set_sb [simp]:
  "64 \<le> p \<Longrightarrow> slot_at (ef_sb_free_count_dec m) p = slot_at m p"
  "64 \<le> p \<Longrightarrow> slot_at (ef_sb_free_count_inc m) p = slot_at m p"
  by (simp_all add: ef_sb_free_count_dec_def ef_sb_free_count_inc_def)

lemma sb_free_count_simps [simp]:
  "sb_of (ef_sb_free_count_dec m) = (sb_of m)\<lparr>free_count := free_count (sb_of m) - 1\<rparr>"
  "sb_of (ef_sb_free_count_inc m) = (sb_of m)\<lparr>free_count := free_count (sb_of m) + 1\<rparr>"
  by (simp_all add: ef_sb_free_count_dec_def ef_sb_free_count_inc_def)

subsection \<open>The chain\<close>

fun free_chain :: "ef_db \<Rightarrow> u64 \<Rightarrow> u64 list \<Rightarrow> bool" where
  "free_chain db off [] \<longleftrightarrow> off = 0"
| "free_chain db off (i # is) \<longleftrightarrow>
     i < max_slots (sb db) \<and> off = ef_slot_to_offset db i \<and> status (db_slot db i) = EF_STATUS_FREE \<and>
     free_chain db (next_offset (db_slot db i)) is"

definition free_list_inv :: "ef_db \<Rightarrow> u64 list \<Rightarrow> bool" where
  "free_list_inv db ids \<longleftrightarrow>
     wf_layout db \<and> distinct ids \<and> free_chain db (free_list_head (sb db)) ids \<and>
     length ids < 2 ^ 32 \<and> free_count (sb db) = of_nat (length ids)"

text \<open>Two handles over the same layout, which agree on the slots of a chain.\<close>

definition same_layout :: "ef_db \<Rightarrow> ef_db \<Rightarrow> bool" where
  "same_layout db db' \<longleftrightarrow>
     mapped db' = mapped db \<and> slots_base db' = slots_base db \<and> file_size db' = file_size db \<and>
     hash_capacity db' = hash_capacity db \<and> hash_index db' = hash_index db \<and>
     max_slots (sb db') = max_slots (sb db)"

lemma same_layout_wf: "same_layout db db' \<Longrightarrow> wf_layout db' = wf_layout db"
  by (simp add: same_layout_def wf_layout_def)

lemma same_layout_offset: "same_layout db db' \<Longrightarrow> ef_slot_to_offset db' = ef_slot_to_offset db"
  by (rule offset_cong(1)) (simp_all add: same_layout_def)

lemma free_chain_cong:
  assumes "same_layout db db'"
    and "\<And>i. i \<in> set ids \<Longrightarrow> status (db_slot db' i) = status (db_slot db i) \<and>
                             next_offset (db_slot db' i) = next_offset (db_slot db i)"
  shows "free_chain db' off ids = free_chain db off ids"
  using assms
proof (induction ids arbitrary: off)
  case Nil
  then show ?case by simp
next
  case (Cons i ids)
  from Cons.prems(2)[of i] have
    "status (db_slot db' i) = status (db_slot db i)" "next_offset (db_slot db' i) = next_offset (db_slot db i)"
    by simp_all
  with Cons.IH[OF Cons.prems(1)] Cons.prems show ?case
    by (simp add: same_layout_offset) (simp add: same_layout_def)
qed

lemma free_chain_slots: "free_chain db off ids \<Longrightarrow> i \<in> set ids \<Longrightarrow> i < max_slots (sb db) \<and> status (db_slot db i) = EF_STATUS_FREE"
  by (induction ids arbitrary: off) auto

lemma free_list_inv_head:
  assumes "free_list_inv db (i # ids)"
  shows "free_list_head (sb db) = ef_slot_to_offset db i" "i < max_slots (sb db)" "free_count (sb db) \<noteq> 0"
    "wf_layout db" "i \<notin> set ids"
proof -
  show "free_list_head (sb db) = ef_slot_to_offset db i" "i < max_slots (sb db)" "wf_layout db" "i \<notin> set ids"
    using assms by (simp_all add: free_list_inv_def)
  have "unat (of_nat (length (i # ids)) :: u32) = length (i # ids)"
    using assms by (intro unat_of_nat_u32) (simp add: free_list_inv_def)
  then have "free_count (sb db) = 0 \<Longrightarrow> length (i # ids) = 0"
    using assms by (simp add: free_list_inv_def del: of_nat_Suc)
  then show "free_count (sb db) \<noteq> 0" by auto
qed

lemma unat_inj_slot: "i \<noteq> j \<Longrightarrow> unat i \<noteq> unat (j :: u64)"
  by (simp add: word_unat_eq_iff)


subsection \<open>Pop\<close>

lemma pop_empty:
  assumes "free_list_inv db []"
  shows "ef_free_list_pop_atomic db c = (Inl EF_ERR_SLOT_FULL, ef_set_error db EF_ERR_SLOT_FULL)"
  using assms by (simp add: ef_free_list_pop_atomic_def free_list_inv_def)

text \<open>The state after a pop of slot \<open>i\<close> whose link was \<open>nxt\<close>.\<close>

definition pop_state :: "ef_db \<Rightarrow> u64 \<Rightarrow> bool \<Rightarrow> ef_db" where
  "pop_state db i c =
     (let p = db_slot_ptr db i;
          db = upd_mem (\<lambda>m. set_free_list_head m (next_offset (slot_at m p))) (ef_set_error db EF_OK);
          db = ef_slot_status_store (ef_slot_next_offset_store db p 0) p EF_STATUS_USED;
          db = (if c then clear_payload_at db p else db)
      in ef_set_error (ef_db_mark_meta_dirty (ef_slot_header_crc_store (upd_mem ef_sb_free_count_dec db) i p)) EF_OK)"

lemma pop_head:
  assumes "free_list_inv db (i # ids)"
  shows "ef_free_list_pop_atomic db c = (Inr i, pop_state db i c)"
proof -
  note h = free_list_inv_head[OF assms]
  have off: "ef_slot_to_offset db i \<noteq> 0" "ef_slot_to_offset db i < file_size db"
    using slot_offset_neq_0[OF h(4,2)] slot_offset_rel(2)[OF h(4,2)] by auto
  have ptr: "ef_offset_to_ptr db (ef_slot_to_offset db i) = (Some (db_slot_ptr db i), ef_set_error db EF_OK)"
    using off h(4) by (simp add: ef_offset_to_ptr_def not_le unat_slot_offset[OF h(4,2)])
  have id: "ef_offset_to_slot_id (ef_set_error db EF_OK) (ef_slot_to_offset db i) = Inr i"
    using offset_to_slot_id_roundtrip[OF h(4,2)] offset_cong(2)[of "ef_set_error db EF_OK" db] by simp
  show ?thesis
    using h(1,3) off(1) ptr id
    by (simp add: ef_free_list_pop_atomic_def ef_sb_free_count_load_def pop_state_def Let_def
        ef_slot_next_offset_load_def)
qed

lemma pop_state_slots:
  assumes "wf_layout db"
  shows "same_layout db (pop_state db i c)"
    and "status (db_slot (pop_state db i c) i) = EF_STATUS_USED"
    and "next_offset (db_slot (pop_state db i c) i) = 0"
    and "j \<noteq> i \<Longrightarrow> db_slot (pop_state db i c) j = db_slot db j"
    and "sb (pop_state db i c) = (sb db)\<lparr>free_list_head := next_offset (db_slot db i),
           free_count := free_count (sb db) - 1\<rparr>"
proof -
  have p: "64 \<le> db_slot_ptr db i" "64 \<le> db_slot_ptr db j" for j
    using assms wf_layout_base_ge slot_ptr_ge le_trans by blast+
  show "same_layout db (pop_state db i c)"
    using p by (simp add: pop_state_def Let_def same_layout_def)
  show "status (db_slot (pop_state db i c) i) = EF_STATUS_USED"
    "next_offset (db_slot (pop_state db i c) i) = 0"
    using p by (simp_all add: pop_state_def Let_def)
  show "db_slot (pop_state db i c) j = db_slot db j" if "j \<noteq> i"
    using p unat_inj_slot[OF that] by (simp add: pop_state_def Let_def)
  show "sb (pop_state db i c) = (sb db)\<lparr>free_list_head := next_offset (db_slot db i),
      free_count := free_count (sb db) - 1\<rparr>"
    using p by (simp add: pop_state_def Let_def)
qed

lemma pop_state_inv:
  assumes inv: "free_list_inv db (i # ids)"
  shows "free_list_inv (pop_state db i c) ids"
proof -
  note h = free_list_inv_head[OF inv]
  note s = pop_state_slots[OF h(4), where i = i and c = c]
  have same: "db_slot (pop_state db i c) j = db_slot db j" if "j \<in> set ids" for j
    using that h(5) by (intro s(4)) auto
  have "free_chain (pop_state db i c) (next_offset (db_slot db i)) ids =
      free_chain db (next_offset (db_slot db i)) ids"
    by (rule free_chain_cong[OF s(1)]) (simp add: same)
  moreover have "of_nat (Suc (length ids)) - 1 = (of_nat (length ids) :: u32)" by simp
  ultimately show ?thesis
    using inv s(5) same_layout_wf[OF s(1)] by (simp add: free_list_inv_def)
qed

subsection \<open>Push\<close>

lemma push_slots:
  assumes wf: "wf_layout db" and i: "i < max_slots (sb db)"
    and run: "ef_free_list_push_atomic db i (db_slot_ptr db i) = (err, db')"
  shows "err = EF_OK" "same_layout db db'"
    and "status (db_slot db' i) = EF_STATUS_FREE"
    and "next_offset (db_slot db' i) = free_list_head (sb db)"
    and "j \<noteq> i \<Longrightarrow> db_slot db' j = db_slot db j"
    and "sb db' = (sb db)\<lparr>free_list_head := ef_slot_to_offset db i, free_count := free_count (sb db) + 1\<rparr>"
proof -
  have p: "64 \<le> db_slot_ptr db i" "64 \<le> db_slot_ptr db j" for j
    using wf wf_layout_base_ge slot_ptr_ge le_trans by blast+
  have db': "err = EF_OK" "db' = snd (ef_free_list_push_atomic db i (db_slot_ptr db i))"
    using run by (simp_all add: ef_free_list_push_atomic_def Let_def)
  show "err = EF_OK" by (rule db')
  show "same_layout db db'"
    using p by (simp add: db'(2) ef_free_list_push_atomic_def Let_def same_layout_def)
  show "status (db_slot db' i) = EF_STATUS_FREE" "next_offset (db_slot db' i) = free_list_head (sb db)"
    using p by (simp_all add: db'(2) ef_free_list_push_atomic_def Let_def)
  show "db_slot db' j = db_slot db j" if "j \<noteq> i"
    using p unat_inj_slot[OF that] by (simp add: db'(2) ef_free_list_push_atomic_def Let_def)
  show "sb db' = (sb db)\<lparr>free_list_head := ef_slot_to_offset db i, free_count := free_count (sb db) + 1\<rparr>"
    using p by (simp add: db'(2) ef_free_list_push_atomic_def Let_def)
qed

lemma push_inv:
  assumes inv: "free_list_inv db ids" and i: "i < max_slots (sb db)" "i \<notin> set ids"
    and room: "Suc (length ids) < 2 ^ 32"
    and run: "ef_free_list_push_atomic db i (db_slot_ptr db i) = (err, db')"
  shows "free_list_inv db' (i # ids)"
proof -
  have wf: "wf_layout db" using inv by (simp add: free_list_inv_def)
  note s = push_slots[OF wf i(1) run]
  have same: "db_slot db' j = db_slot db j" if "j \<in> set ids" for j
    using that i(2) by (intro s(5)) auto
  have "free_chain db' (free_list_head (sb db)) ids = free_chain db (free_list_head (sb db)) ids"
    by (rule free_chain_cong[OF s(2)]) (simp add: same)
  then have "free_chain db' (free_list_head (sb db')) (i # ids)"
    using inv s(3,4,6) i(1) by (simp add: free_list_inv_def same_layout_offset[OF s(2)])
  then show ?thesis
    using inv s(6) same_layout_wf[OF s(2)] i(2) room by (simp add: free_list_inv_def add.commute)
qed

subsection \<open>A stack of slot ids\<close>

text \<open>
  The contract of the pool as its clients see it: \<open>holds s ids\<close> says that the ids in the pool of
  state \<open>s\<close> are \<open>ids\<close>, in the order in which they will be handed out.
\<close>

locale slot_stack =
  fixes holds :: "'s \<Rightarrow> u64 list \<Rightarrow> bool"
    and pop :: "'s \<Rightarrow> (ef_err + u64) \<times> 's"
    and push :: "'s \<Rightarrow> u64 \<Rightarrow> ef_err \<times> 's"
    and valid :: "'s \<Rightarrow> u64 \<Rightarrow> bool"
  assumes pop_nil: "holds s [] \<Longrightarrow> fst (pop s) = Inl EF_ERR_SLOT_FULL"
    and pop_cons: "holds s (i # ids) \<Longrightarrow> fst (pop s) = Inr i \<and> holds (snd (pop s)) ids \<and> valid (snd (pop s)) i"
    and holds_distinct: "holds s ids \<Longrightarrow> distinct ids \<and> length ids < 2 ^ 32"
    and push_cons: "holds s ids \<Longrightarrow> valid s i \<Longrightarrow> i \<notin> set ids \<Longrightarrow> Suc (length ids) < 2 ^ 32 \<Longrightarrow>
      fst (push s i) = EF_OK \<and> holds (snd (push s i)) (i # ids)"
begin

text \<open>A slot that is handed out and given back is the next one handed out; the rest is unchanged.\<close>

lemma pop_push_pop:
  assumes "holds s (i # ids)"
  defines "s' \<equiv> snd (push (snd (pop s)) i)"
  shows "holds s' (i # ids) \<and> fst (pop s') = Inr i"
proof -
  have d: "distinct (i # ids)" "length (i # ids) < 2 ^ 32"
    using holds_distinct[OF assms(1)] by blast+
  have p: "holds (snd (pop s)) ids" "valid (snd (pop s)) i" using pop_cons[OF assms(1)] by blast+
  have "holds s' (i # ids)" unfolding s'_def using push_cons[OF p] d by simp
  then show ?thesis using pop_cons by blast
qed

end

interpretation pool: slot_stack free_list_inv "\<lambda>db. ef_free_list_pop_atomic db c"
  "\<lambda>db i. ef_free_list_push_atomic db i (db_slot_ptr db i)" "\<lambda>db i. i < max_slots (sb db)" for c
proof (unfold_locales, goal_cases)
  case (1 s)
  then show ?case by (simp add: pop_empty)
next
  case (2 s i ids)
  have "max_slots (sb (pop_state s i c)) = max_slots (sb s)"
    using pop_state_slots(1)[OF free_list_inv_head(4)[OF 2]] by (simp add: same_layout_def)
  with 2 show ?case using pop_head[OF 2] pop_state_inv[OF 2] free_list_inv_head(2)[OF 2] by simp
next
  case (3 s ids)
  then show ?case by (simp add: free_list_inv_def)
next
  case (4 s ids i)
  obtain err db' where run: "ef_free_list_push_atomic s i (db_slot_ptr s i) = (err, db')" by fastforce
  have wf: "wf_layout s" using 4(1) by (simp add: free_list_inv_def)
  show ?case using push_inv[OF 4(1-4) run] push_slots(1)[OF wf 4(2) run] run by simp
qed

end
