(* ===== verification/Free_List_Build.thy ===== *)
theory Free_List_Build
  imports Free_List
begin

text \<open>
  Building the free list of a new database and rebuilding it when an existing one is opened.
\<close>

subsection \<open>Refreshing checksums keeps the contents\<close>

abbreviation slot_n :: "ef_db \<Rightarrow> nat \<Rightarrow> ef_slot" where
  "slot_n db k \<equiv> slot_at (mem db) (slot_ptr (unat (slots_base db)) k)"

definition keeps :: "ef_db \<Rightarrow> ef_db \<Rightarrow> bool" where
  "keeps db db' \<longleftrightarrow>
     same_layout db db' \<and> sb db' = sb db \<and>
     (\<forall>k. status (slot_n db' k) = status (slot_n db k) \<and>
          next_offset (slot_n db' k) = next_offset (slot_n db k) \<and>
          payload (slot_n db' k) = payload (slot_n db k))"

lemma keeps_refl: "keeps db db"
  by (simp add: keeps_def same_layout_def)

lemma keeps_trans:
  assumes "keeps a b" "keeps b c"
  shows "keeps a c"
proof -
  have "same_layout a c" "sb c = sb a" using assms by (simp_all add: keeps_def same_layout_def)
  moreover have "status (slot_n c k) = status (slot_n a k) \<and> next_offset (slot_n c k) = next_offset (slot_n a k) \<and>
      payload (slot_n c k) = payload (slot_n a k)" for k
    using assms[unfolded keeps_def] by (elim conjE allE[where x = k]) simp
  ultimately show ?thesis by (simp add: keeps_def)
qed

lemma keeps_base: "keeps a b \<Longrightarrow> slots_base b = slots_base a"
  by (simp add: keeps_def same_layout_def)

lemma refresh_slot_crc_keeps:
  assumes "64 \<le> unat (slots_base db)"
  shows "keeps db (refresh_slot_crc k db)"
proof -
  have "64 \<le> slot_ptr (unat (slots_base db)) j" for j
    using assms slot_ptr_ge le_trans by blast
  then show ?thesis
    by (simp add: refresh_slot_crc_def keeps_def same_layout_def)
qed

lemma fold_refresh_keeps:
  "64 \<le> unat (slots_base db) \<Longrightarrow> keeps db (fold refresh_slot_crc ks db)"
proof (induction ks arbitrary: db)
  case Nil
  then show ?case by (simp add: keeps_refl)
next
  case (Cons k ks)
  from refresh_slot_crc_keeps[OF Cons.prems, of k]
  have kk: "keeps db (refresh_slot_crc k db)" .
  then have "64 \<le> unat (slots_base (refresh_slot_crc k db))"
    using Cons.prems by (simp add: keeps_base)
  from keeps_trans[OF kk Cons.IH[OF this]] show ?case by simp
qed

lemma refresh_checksums_slots:
  assumes "wf_layout db"
  defines "db' \<equiv> ef_db_refresh_checksums db"
  shows "same_layout db db'" "\<exists>c. sb db' = (sb db)\<lparr>sb_checksum := c\<rparr>"
    "status (slot_n db' k) = status (slot_n db k)"
    "next_offset (slot_n db' k) = next_offset (slot_n db k)"
    "payload (slot_n db' k) = payload (slot_n db k)"
proof -
  have base: "64 \<le> unat (slots_base db)" using assms(1) by simp
  obtain d where d: "keeps db d" "db' = upd_mem ef_sb_checksum_store d"
  proof (cases "flags (sb db) AND EF_FLAG_SLOT_CRC = 0")
    case True
    then show thesis using that[OF keeps_refl] assms(1) by (simp add: db'_def ef_db_refresh_checksums_def)
  next
    case False
    then show thesis
      using that[OF fold_refresh_keeps[OF base, of "[0..<unat (max_slots (sb db))]"]] assms(1)
      by (simp add: db'_def ef_db_refresh_checksums_def Let_def)
  qed
  have p: "64 \<le> slot_ptr (unat (slots_base db)) k" using base slot_ptr_ge le_trans by blast
  have chk: "\<exists>c. ef_sb_checksum_store (mem d) = set_sb_checksum (mem d) c"
    by (simp add: ef_sb_checksum_store_def) blast
  then obtain c where c: "mem db' = set_sb_checksum (mem d) c" using d(2) by auto
  show "same_layout db db'" "\<exists>c. sb db' = (sb db)\<lparr>sb_checksum := c\<rparr>"
    "status (slot_n db' k) = status (slot_n db k)"
    "next_offset (slot_n db' k) = next_offset (slot_n db k)"
    "payload (slot_n db' k) = payload (slot_n db k)"
    using d c p by (auto simp: keeps_def same_layout_def)
qed

lemma checksum_store_simps [simp]:
  "max_slots (sb_of (ef_sb_checksum_store m)) = max_slots (sb_of m)"
  "free_list_head (sb_of (ef_sb_checksum_store m)) = free_list_head (sb_of m)"
  "free_count (sb_of (ef_sb_checksum_store m)) = free_count (sb_of m)"
  "64 \<le> p \<Longrightarrow> slot_at (ef_sb_checksum_store m) p = slot_at m p"
  by (simp_all add: ef_sb_checksum_store_def)

lemma free_list_inv_refresh:
  assumes "free_list_inv db ids"
  shows "free_list_inv (ef_db_refresh_checksums db) ids"
proof -
  have wf: "wf_layout db" using assms by (simp add: free_list_inv_def)
  note r = refresh_checksums_slots[OF wf]
  obtain c where "sb (ef_db_refresh_checksums db) = (sb db)\<lparr>sb_checksum := c\<rparr>" using r(2) by blast
  then have same: "free_list_head (sb (ef_db_refresh_checksums db)) = free_list_head (sb db)"
    "free_count (sb (ef_db_refresh_checksums db)) = free_count (sb db)"
    by simp_all
  have "free_chain (ef_db_refresh_checksums db) (free_list_head (sb db)) ids =
      free_chain db (free_list_head (sb db)) ids"
    by (rule free_chain_cong[OF r(1)]) (simp add: r(3,4))
  with assms same show ?thesis by (simp add: free_list_inv_def same_layout_wf[OF r(1)])
qed

subsection \<open>Rebuilding\<close>

lemma relink_step:
  assumes wf: "wf_layout db" and k: "k < unat (max_slots (sb db))"
    and run: "relink_free_slot k (db, cnt) = (db', cnt')"
  shows "same_layout db db'"
    and "status (slot_n db' j) = status (slot_n db j)" "payload (slot_n db' j) = payload (slot_n db j)"
    and "j \<noteq> k \<Longrightarrow> next_offset (slot_n db' j) = next_offset (slot_n db j)"
    and "\<exists>h. sb db' = (sb db)\<lparr>free_list_head := h\<rparr>"
    and "if status (slot_n db k) = EF_STATUS_FREE
         then next_offset (slot_n db' k) = free_list_head (sb db) \<and> cnt' = cnt + 1 \<and>
              free_list_head (sb db') = ef_slot_to_offset db (of_nat k)
         else free_list_head (sb db') = free_list_head (sb db) \<and> cnt' = cnt"
proof -
  have p: "64 \<le> slot_ptr (unat (slots_base db)) j" for j
    using wf wf_layout_base_ge slot_ptr_ge le_trans by blast
  note defs = relink_free_slot_def Let_def same_layout_def
  show "same_layout db db'" using run p by (auto simp: defs split: if_splits)
  show "status (slot_n db' j) = status (slot_n db j)" using run p by (auto simp: defs split: if_splits)
  show "payload (slot_n db' j) = payload (slot_n db j)" using run p by (auto simp: defs split: if_splits)
  show "next_offset (slot_n db' j) = next_offset (slot_n db j)" if "j \<noteq> k"
    using run p that by (auto simp: defs split: if_splits)
  show "\<exists>h. sb db' = (sb db)\<lparr>free_list_head := h\<rparr>"
  proof (cases "status (slot_n db k) = EF_STATUS_FREE")
    case True
    then show ?thesis using run p by (intro exI[of _ "ef_slot_to_offset db (of_nat k)"]) (auto simp: defs)
  next
    case False
    then show ?thesis using run by (intro exI[of _ "free_list_head (sb db)"]) (auto simp: defs)
  qed
  show "if status (slot_n db k) = EF_STATUS_FREE
         then next_offset (slot_n db' k) = free_list_head (sb db) \<and> cnt' = cnt + 1 \<and>
              free_list_head (sb db') = ef_slot_to_offset db (of_nat k)
         else free_list_head (sb db') = free_list_head (sb db) \<and> cnt' = cnt"
    using run p by (auto simp: defs split: if_splits)
qed

abbreviation free_ids :: "ef_db \<Rightarrow> nat list \<Rightarrow> u64 list" where
  "free_ids db ks \<equiv> map of_nat (filter (\<lambda>k. status (slot_n db k) = EF_STATUS_FREE) ks)"

lemma fold_relink:
  assumes wf: "wf_layout db" and head: "free_list_head (sb db) = 0"
    and N: "unat (max_slots (sb db)) = N"
    and k: "k \<le> N"
    and run: "fold relink_free_slot (rev [k..<N]) (db, 0) = (db', cnt)"
  shows "same_layout db db' \<and> (\<exists>h. sb db' = (sb db)\<lparr>free_list_head := h\<rparr>) \<and>
    (\<forall>j. status (slot_n db' j) = status (slot_n db j) \<and> payload (slot_n db' j) = payload (slot_n db j)) \<and>
    free_chain db' (free_list_head (sb db')) (free_ids db [k..<N]) \<and>
    cnt = of_nat (length (free_ids db [k..<N]))"
  using k run
proof (induction arbitrary: db' cnt rule: inc_induct)
  case base
  then have "db' = db" "cnt = 0" by simp_all
  moreover have "\<exists>h. sb db = (sb db)\<lparr>free_list_head := h\<rparr>"
    by (rule exI[of _ "free_list_head (sb db)"]) simp
  ultimately show ?case using head by (simp add: same_layout_def)
next
  case (step k)
  obtain d c where d: "fold relink_free_slot (rev [Suc k..<N]) (db, 0) = (d, c)" by fastforce
  have "rev [k..<N] = rev [Suc k..<N] @ [k]" using step(2) by (simp add: upt_conv_Cons)
  then have last: "relink_free_slot k (d, c) = (db', cnt)" using step(4) d by simp
  note IH = step(3)[OF d]
  then have lay: "same_layout db d" and sbd: "\<exists>h. sb d = (sb db)\<lparr>free_list_head := h\<rparr>"
    and slots: "\<And>j. status (slot_n d j) = status (slot_n db j) \<and> payload (slot_n d j) = payload (slot_n db j)"
    and ch: "free_chain d (free_list_head (sb d)) (free_ids db [Suc k..<N])"
    and c: "c = of_nat (length (free_ids db [Suc k..<N]))" by blast+
  have wfd: "wf_layout d" using wf same_layout_wf[OF lay] by simp
  have kd: "k < unat (max_slots (sb d))" using lay step(2) N by (simp add: same_layout_def)
  note s = relink_step[OF wfd kd last]
  have small: "j < N \<Longrightarrow> unat (of_nat j :: u64) = j" for j
    using N unat_u64_bound[of "max_slots (sb db)"] by (intro unat_of_nat_u64) simp
  have chain: "free_chain db' off (free_ids db [Suc k..<N]) = free_chain d off (free_ids db [Suc k..<N])" for off
  proof (rule free_chain_cong[OF s(1)])
    fix i assume "i \<in> set (free_ids db [Suc k..<N])"
    then obtain j where j: "Suc k \<le> j" "j < N" "i = of_nat j" by auto
    then have "unat i = j" by (simp add: small)
    with j s(2,4)[of j] show "status (db_slot db' i) = status (db_slot d i) \<and> next_offset (db_slot db' i) = next_offset (db_slot d i)"
      by simp
  qed
  have ids: "free_ids db [k..<N] = (if status (slot_n db k) = EF_STATUS_FREE
      then of_nat k # free_ids db [Suc k..<N] else free_ids db [Suc k..<N])"
    using step(2) by (simp add: upt_conv_Cons)
  have kmax: "of_nat k < max_slots (sb db')"
    using kd s(1) step(2) by (simp add: word_less_nat_alt small same_layout_def)
  have "free_chain db' (free_list_head (sb db')) (free_ids db [k..<N]) \<and>
      cnt = of_nat (length (free_ids db [k..<N]))"
  proof (cases "status (slot_n db k) = EF_STATUS_FREE")
    case True
    then have "status (slot_n d k) = EF_STATUS_FREE" using slots by simp
    with s(6) have now: "next_offset (slot_n db' k) = free_list_head (sb d)" "cnt = c + 1"
      "free_list_head (sb db') = ef_slot_to_offset d (of_nat k)" by simp_all
    show ?thesis
      using True now chain ch kmax s(2)[of k] slots c step(2)
      by (simp add: ids small same_layout_offset[OF s(1)])
  next
    case False
    then have "status (slot_n d k) \<noteq> EF_STATUS_FREE" using slots by simp
    with s(6) have now: "cnt = c" "free_list_head (sb db') = free_list_head (sb d)" by simp_all
    show ?thesis using False now chain ch c by (simp add: ids)
  qed
  moreover have "same_layout db db'" using lay s(1) by (simp add: same_layout_def)
  moreover obtain h h' where "sb d = (sb db)\<lparr>free_list_head := h\<rparr>" "sb db' = (sb d)\<lparr>free_list_head := h'\<rparr>"
    using sbd s(5) by blast
  then have "\<exists>h. sb db' = (sb db)\<lparr>free_list_head := h\<rparr>" by (intro exI[of _ h']) simp
  moreover note this
  ultimately show ?case using slots s(2,3) by simp
qed

lemma ucast_of_nat_u32: "ucast (of_nat n :: u64) = (of_nat n :: u32)"
  by transfer simp

lemma distinct_of_nat_ids:
  assumes "N < 2 ^ 32"
  shows "distinct (map (of_nat :: nat \<Rightarrow> u64) (filter P [0..<N]))"
proof -
  have inv: "unat (of_nat x :: u64) = x" if "x < N" for x
    using that assms by (intro unat_of_nat_u64) simp
  have "inj_on (of_nat :: nat \<Rightarrow> u64) (set (filter P [0..<N]))"
    by (rule inj_on_inverseI[where g = unat]) (simp add: inv)
  then show ?thesis by (simp add: distinct_map)
qed

text \<open>
  The rebuilt list holds exactly the slots whose status is FREE, in increasing order of their ids.
\<close>

lemma rebuild_free_list_inv:
  assumes wf: "wf_layout db" and N: "unat (max_slots (sb db)) = N" "N < 2 ^ 32"
  shows "fst (ef_rebuild_free_list db) = EF_OK"
    and "free_list_inv (snd (ef_rebuild_free_list db)) (free_ids db [0..<N])"
proof -
  have p: "64 \<le> slot_ptr (unat (slots_base db)) j" for j
    using wf wf_layout_base_ge slot_ptr_ge le_trans by blast
  define d0 where "d0 = upd_mem (\<lambda>m. set_free_list_head m 0) db"
  have lay0: "same_layout db d0" by (simp add: d0_def same_layout_def)
  have wf0: "wf_layout d0" using wf same_layout_wf[OF lay0] by simp
  have N0: "unat (max_slots (sb d0)) = N" using N(1) by (simp add: d0_def)
  have slot0: "slot_n d0 k = slot_n db k" for k using p by (simp add: d0_def)
  obtain d c where fold: "fold relink_free_slot (rev [0..<N]) (d0, 0) = (d, c)" by fastforce
  have "free_list_head (sb d0) = 0" by (simp add: d0_def)
  note f = fold_relink[OF wf0 this N0 le0 fold]
  define d1 where "d1 = upd_mem (\<lambda>m. ef_upgrade_superblock m c) d"
  have run: "ef_rebuild_free_list db = (EF_OK, ef_db_refresh_checksums d1)"
    using wf N N0 fold by (simp add: ef_rebuild_free_list_def d0_def d1_def Let_def)
  show "fst (ef_rebuild_free_list db) = EF_OK" by (simp add: run)
  show "free_list_inv (snd (ef_rebuild_free_list db)) (free_ids db [0..<N])"
  proof (subst run, simp only: snd_conv, rule free_list_inv_refresh)
    from f have lay: "same_layout d0 d"
      and st: "\<And>j. status (slot_n d j) = status (slot_n d0 j)"
      and ch: "free_chain d (free_list_head (sb d)) (free_ids d0 [0..<N])"
      and cnt: "c = of_nat (length (free_ids d0 [0..<N]))" by blast+
    have pd: "64 \<le> slot_ptr (unat (slots_base d)) j" for j
      using p lay lay0 by (simp add: same_layout_def)
    have lay1: "same_layout d d1" by (simp add: d1_def same_layout_def ef_upgrade_superblock_def ef_sb_free_count_store_def Let_def)
    have slot1: "slot_n d1 j = slot_n d j" for j
      using pd by (simp add: d1_def ef_upgrade_superblock_def ef_sb_free_count_store_def Let_def)
    have sb1: "free_list_head (sb d1) = free_list_head (sb d)" "free_count (sb d1) = ucast c"
      by (simp_all add: d1_def ef_upgrade_superblock_def ef_sb_free_count_store_def Let_def)
    have ids: "free_ids d0 [0..<N] = free_ids db [0..<N]" by (simp add: slot0)
    have "free_chain d1 off (free_ids db [0..<N]) = free_chain d off (free_ids db [0..<N])" for off
      by (rule free_chain_cong[OF lay1]) (simp add: slot1)
    then have chain: "free_chain d1 (free_list_head (sb d1)) (free_ids db [0..<N])" using ch ids sb1 by simp
    have wf1: "wf_layout d1" using wf0 same_layout_wf[OF lay] same_layout_wf[OF lay1] by simp
    have len: "length (free_ids db [0..<N]) \<le> N"
      using length_filter_le[of _ "[0..<N]"] by simp
    have "distinct (free_ids db [0..<N])" by (rule distinct_of_nat_ids) (use N(2) in simp)
    moreover have "ucast c = (of_nat (length (free_ids db [0..<N])) :: u32)"
      by (simp add: cnt ids ucast_of_nat_u32)
    ultimately show "free_list_inv d1 (free_ids db [0..<N])"
      using wf1 chain len N(2) sb1(2) by (simp add: free_list_inv_def)
  qed
qed

subsection \<open>Building\<close>

lemma init_step:
  fixes n :: u64 and k :: nat
  assumes "64 \<le> unat (slots_base db)"
  defines "db' \<equiv> init_free_slot n k db"
  shows "same_layout db db'" "sb db' = sb db"
    "status (slot_n db' k) = EF_STATUS_FREE"
    "next_offset (slot_n db' k) = (if of_nat k + 1 < n then ef_slot_to_offset db (of_nat k + 1) else 0)"
    "j \<noteq> k \<Longrightarrow> slot_n db' j = slot_n db j"
proof -
  have p: "64 \<le> slot_ptr (unat (slots_base db)) j" for j
    using assms slot_ptr_ge le_trans by blast
  have q: "64 \<le> slot_ptr (unat (slots_base db)) j + 8" for j using p[of j] by simp
  note defs = db'_def init_free_slot_def Let_def same_layout_def mem_set_store
  show "same_layout db db'" "sb db' = sb db" using p q by (simp_all add: defs sb_of_store_bytes)
  have "status (slot_at (store_bytes m (p + 8) bs) p) = status (slot_at m p)" for m p bs
    by (simp add: slot_at_def word_loads load_bytes_store_disjoint)
  then show "status (slot_n db' k) = EF_STATUS_FREE"
    "next_offset (slot_n db' k) = (if of_nat k + 1 < n then ef_slot_to_offset db (of_nat k + 1) else 0)"
    by (simp_all add: defs)
  show "slot_n db' j = slot_n db j" if "j \<noteq> k"
    using that by (simp add: defs slot_at_store_other)
qed

definition next_of :: "ef_db \<Rightarrow> u64 \<Rightarrow> nat \<Rightarrow> u64" where
  "next_of db n j = (if of_nat j + 1 < n then ef_slot_to_offset db (of_nat j + 1) else 0)"

lemma fold_init:
  assumes base: "64 \<le> unat (slots_base db)"
  shows "same_layout db (fold (init_free_slot n) [0..<k] db) \<and> sb (fold (init_free_slot n) [0..<k] db) = sb db \<and>
    (\<forall>j<k. status (slot_n (fold (init_free_slot n) [0..<k] db) j) = EF_STATUS_FREE \<and>
           next_offset (slot_n (fold (init_free_slot n) [0..<k] db) j) = next_of db n j)"
proof (induction k)
  case 0
  then show ?case by (simp add: same_layout_def)
next
  case (Suc k)
  define d where "d = fold (init_free_slot n) [0..<k] db"
  have step: "fold (init_free_slot n) [0..<Suc k] db = init_free_slot n k d" by (simp add: d_def)
  have IH: "same_layout db d" "sb d = sb db"
    "\<And>j. j < k \<Longrightarrow> status (slot_n d j) = EF_STATUS_FREE \<and> next_offset (slot_n d j) = next_of db n j"
    using Suc unfolding d_def by blast+
  have bd: "64 \<le> unat (slots_base d)" using base IH(1) by (simp add: same_layout_def)
  note i = init_step[OF bd, where n = n and k = k]
  have "status (slot_n (init_free_slot n k d) j) = EF_STATUS_FREE \<and>
      next_offset (slot_n (init_free_slot n k d) j) = next_of db n j" if "j < Suc k" for j
  proof (cases "j = k")
    case True
    then show ?thesis using i(3,4) same_layout_offset[OF IH(1)] by (simp add: next_of_def)
  next
    case False
    then show ?thesis using that i(5)[OF False] IH(3)[of j] by simp
  qed
  moreover have "same_layout db (init_free_slot n k d)" using IH(1) i(1) by (simp add: same_layout_def)
  ultimately show ?case using IH(2) i(2) by (simp only: step) simp
qed

lemma chain_upt:
  assumes "k \<le> N" "N < 2 ^ 32" "max_slots (sb db) = of_nat N"
    and "\<And>j. j < N \<Longrightarrow> status (slot_n db j) = EF_STATUS_FREE \<and> next_offset (slot_n db j) = next_of db (of_nat N) j"
  shows "free_chain db (if k < N then ef_slot_to_offset db (of_nat k) else 0) (map of_nat [k..<N])"
  using assms(1)
proof (induction rule: inc_induct)
  case base
  then show ?case by simp
next
  case (step k)
  have small: "unat (of_nat j :: u64) = j" if "j \<le> N" for j
    using that assms(2) by (intro unat_of_nat_u64) simp
  have "(of_nat k + 1 :: u64) = of_nat (Suc k)" by simp
  then have "next_of db (of_nat N) k = (if Suc k < N then ef_slot_to_offset db (of_nat (Suc k)) else 0)"
    using step(2) small[of "Suc k"] small[of N] by (simp add: next_of_def word_less_nat_alt del: of_nat_Suc)
  with step assms(3) assms(4)[of k] small[of k] small[of N] show ?case
    by (simp add: upt_conv_Cons word_less_nat_alt del: of_nat_Suc)
qed

text \<open>After building, every slot is free and the list runs through all of them in order.\<close>

lemma build_free_list_inv:
  assumes wf: "wf_layout db" and N: "unat (max_slots (sb db)) = N" "N < 2 ^ 32"
  shows "fst (ef_build_free_list db) = EF_OK"
    and "free_list_inv (snd (ef_build_free_list db)) (map of_nat [0..<N])"
proof -
  have max: "max_slots (sb db) = of_nat N" unfolding N(1)[symmetric] by simp
  define d0 where "d0 = upd_mem (\<lambda>m. set_free_list_head m 0) db"
  have d0: "same_layout db d0" "sb d0 = (sb db)\<lparr>free_list_head := 0\<rparr>" by (simp_all add: d0_def same_layout_def)
  show "fst (ef_build_free_list db) = EF_OK" using wf by (simp add: ef_build_free_list_def Let_def)
  show "free_list_inv (snd (ef_build_free_list db)) (map of_nat [0..<N])"
  proof (cases "N = 0")
    case True
    then have "max_slots (sb db) = 0" using max by simp
    then have "snd (ef_build_free_list db) = upd_mem (\<lambda>m. ef_sb_free_count_store m 0) d0"
      using wf by (simp add: ef_build_free_list_def d0_def)
    then show ?thesis using True wf same_layout_wf[OF d0(1)] d0(2)
      by (simp add: free_list_inv_def ef_sb_free_count_store_def wf_layout_mem)
  next
    case False
    then have nz: "max_slots (sb db) \<noteq> 0" using N(1) by auto
    have wf0: "wf_layout d0" using wf same_layout_wf[OF d0(1)] by simp
    then have base: "64 \<le> unat (slots_base d0)" by simp
    define d where "d = fold (init_free_slot (of_nat N)) [0..<N] d0"
    have f: "same_layout d0 d" "sb d = sb d0"
      "\<And>j. j < N \<Longrightarrow> status (slot_n d j) = EF_STATUS_FREE \<and> next_offset (slot_n d j) = next_of d0 (of_nat N) j"
      using fold_init[OF base, of "of_nat N" N] unfolding d_def by blast+
    define d1 where "d1 = upd_mem (\<lambda>m. ef_sb_free_count_store (set_free_list_head m (ef_slot_to_offset d 0)) (of_nat N)) d"
    have "unat (of_nat N :: u64) = N" using N(2) by (intro unat_of_nat_u64) simp
    then have run: "snd (ef_build_free_list db) = ef_db_refresh_checksums d1"
      using wf nz max by (simp add: ef_build_free_list_def d0_def d_def d1_def N(1) Let_def ucast_of_nat_u32)
    have lay1: "same_layout d d1" by (simp add: d1_def same_layout_def ef_sb_free_count_store_def)
    have wf1: "wf_layout d1" using wf0 same_layout_wf[OF f(1)] same_layout_wf[OF lay1] by simp
    have "64 \<le> unat (slots_base d)" using wf1 same_layout_wf[OF lay1] by simp
    then have p: "64 \<le> slot_ptr (unat (slots_base d)) j" for j using slot_ptr_ge le_trans by blast
    have slots: "slot_n d1 j = slot_n d j" for j using p by (simp add: d1_def ef_sb_free_count_store_def)
    have off: "ef_slot_to_offset d1 = ef_slot_to_offset d0" "ef_slot_to_offset d = ef_slot_to_offset d0"
      using same_layout_offset[OF lay1] same_layout_offset[OF f(1)] by simp_all
    have "free_list_head (sb d1) = ef_slot_to_offset d 0" by (simp add: d1_def ef_sb_free_count_store_def)
    moreover have "free_count (sb d1) = of_nat N" "max_slots (sb d1) = of_nat N"
      using f(2) d0(2) max by (simp_all add: d1_def ef_sb_free_count_store_def)
    ultimately have sb1: "free_list_head (sb d1) = ef_slot_to_offset d1 0" "free_count (sb d1) = of_nat N"
        "max_slots (sb d1) = of_nat N"
      by (simp_all add: off)
    have "free_chain d1 (if 0 < N then ef_slot_to_offset d1 (of_nat 0) else 0) (map of_nat [0..<N])"
      by (rule chain_upt[OF le0 N(2) sb1(3)]) (simp add: slots f(3) next_of_def off)
    then have "free_list_inv d1 (map of_nat [0..<N])"
      using False wf1 sb1 N(2) distinct_of_nat_ids[OF N(2), of "\<lambda>_. True"] by (simp add: free_list_inv_def)
    then show ?thesis unfolding run by (rule free_list_inv_refresh)
  qed
qed

end
