(* ===== verification/Samples.thy ===== *)
theory Samples
  imports Core
begin

text \<open>
  A small database on which the properties are exercised: version 5, an empty index of 16 buckets,
  four slots, everything else zero.
\<close>

definition sample_mem :: mem where
  "sample_mem = set_schema_version (set_max_slots (\<lambda>_. 0) 4) EF_SCHEMA_VERSION"

definition sample_db :: ef_db where
  "sample_db =
     \<lparr>mem = sample_mem, mapped = True, live = True, file_size = 576, map_capacity = 576,
      last_err = EF_OK, backend = EF_BACKEND_MEMORY, slots_base = 320, hash_capacity = 16,
      hash_entry_count = 0, hash_index = Some 64, readonly = False, sb_meta_dirty = False,
      index_seq = 0, txn_state = 0, txn_active = False, txn_writer_pid = 0, undo_log_base = 0,
      undo_log_slots = 0, undo_tail = 0, undo_record_count = 0\<rparr>"

lemma sample_db_fields [simp]:
  "mem sample_db = sample_mem" "mapped sample_db" "live sample_db" "file_size sample_db = 576"
  "map_capacity sample_db = 576" "last_err sample_db = EF_OK" "backend sample_db = EF_BACKEND_MEMORY"
  "slots_base sample_db = 320" "hash_capacity sample_db = 16" "hash_entry_count sample_db = 0"
  "hash_index sample_db = Some 64" "\<not> readonly sample_db" "\<not> sb_meta_dirty sample_db"
  "index_seq sample_db = 0" "txn_state sample_db = 0" "\<not> txn_active sample_db"
  "txn_writer_pid sample_db = 0" "undo_log_base sample_db = 0" "undo_log_slots sample_db = 0"
  "undo_tail sample_db = 0" "undo_record_count sample_db = 0"
  by (simp_all add: sample_db_def)

lemma sb_zero_mem: "sb_of (\<lambda>_. 0) =
  \<lparr>magic = [0, 0, 0, 0], slot_size = 0, max_slots = 0, free_list_head = 0, schema_version = 0,
   flags = 0, free_count = 0, sb_checksum = 0, queue_head = 0, queue_tail = 0, hash_cap16 = 0,
   queue_lock = 0, index_write_lock = 0, txn_lock = 0, sb_txn_state = 0, sb_pad = 0\<rparr>"
  by code_simp

lemma sb_sample [simp]: "sb_of sample_mem =
  \<lparr>magic = [0, 0, 0, 0], slot_size = 0, max_slots = 4, free_list_head = 0, schema_version = EF_SCHEMA_VERSION,
   flags = 0, free_count = 0, sb_checksum = 0, queue_head = 0, queue_tail = 0, hash_cap16 = 0,
   queue_lock = 0, index_write_lock = 0, txn_lock = 0, sb_txn_state = 0, sb_pad = 0\<rparr>"
  by (simp add: sample_mem_def sb_zero_mem)

lemma sample_wf [simp]: "wf_layout sample_db"
  by (simp add: wf_layout_def layout_ok_def slot_ptr_def EF_SLOT_SIZE_def)

lemma sample_above [simp]: "32 \<le> a \<Longrightarrow> sample_mem a = 0"
  by (simp add: sample_mem_def set_schema_version_def set_max_slots_def store_u64_def store_u32_def
      store_bytes_def)

lemma sample_load_bytes: "32 \<le> a \<Longrightarrow> load_bytes sample_mem a n = replicate n 0"
  by (rule nth_equalityI) (simp_all add: load_bytes_def)

lemma zero_bytes [simp]: "le_word (replicate n 0) = 0"
  by (induction n) simp_all

lemma sample_entry [simp]: "entry_at sample_mem 64 p = \<lparr>key_hash = 0, slot_offset = 0\<rparr>"
  by (simp add: entry_at_def word_loads sample_load_bytes)

lemma sample_slot [simp]:
  "64 \<le> p \<Longrightarrow> slot_at sample_mem p = \<lparr>status = 0, header_crc = 0, payload = replicate 48 0, next_offset = 0\<rparr>"
  by (simp add: slot_at_def word_loads sample_load_bytes)

end
