(* ===== verification/Pool_Props.thy ===== *)
theory Pool_Props
  imports Free_List_Build Samples
begin

text \<open>
  The properties of the slot pool. \<open>sample_pool\<close> is the sample database after its free list was
  built: four free slots.
\<close>

definition sample_pool :: ef_db where
  "sample_pool = snd (ef_build_free_list sample_db)"

lemma sample_pool_inv: "free_list_inv sample_pool [0, 1, 2, 3]"
proof -
  have "free_list_inv sample_pool (map of_nat [0..<4])"
    unfolding sample_pool_def by (rule build_free_list_inv(2)) simp_all
  moreover have "map of_nat [0..<4] = [0, 1, 2, 3 :: u64]" by code_simp
  ultimately show ?thesis by simp
qed

lemma pool_max: "free_list_inv db ids \<Longrightarrow> i \<in> set ids \<Longrightarrow> i < max_slots (sb db)"
  using free_chain_slots by (auto simp: free_list_inv_def)

text \<open>
  Popping the free list hands out the slot at its head, marks it used with a cleared link,
  leaves every other slot as it was, and leaves the rest of the list as the new free list; an
  empty list gives \<^verbatim>\<open>EF_ERR_SLOT_FULL\<close>.
\<close>

lemma pop_takes_head:
  assumes "free_list_inv db ids" "ef_free_list_pop_atomic db c = (r, db')"
  shows "(case ids of [] \<Rightarrow> r = Inl EF_ERR_SLOT_FULL \<and> mem db' = mem db
          | i # ids' \<Rightarrow> r = Inr i \<and> free_list_inv db' ids' \<and> status (db_slot db' i) = EF_STATUS_USED \<and>
              next_offset (db_slot db' i) = 0 \<and> (\<forall>j. j \<noteq> i \<longrightarrow> db_slot db' j = db_slot db j))"
proof (cases ids)
  case Nil
  then show ?thesis using pop_empty[of db c] assms by auto
next
  case (Cons i ids')
  then have inv: "free_list_inv db (i # ids')" using assms(1) by simp
  have "r = Inr i" "db' = pop_state db i c" using pop_head[OF inv, of c] assms(2) by simp_all
  moreover note s = pop_state_slots[OF free_list_inv_head(4)[OF inv], where i = i and c = c]
  have "db_slot (pop_state db i c) j = db_slot db j" if "j \<noteq> i" for j by (rule s(4)[OF that])
  ultimately show ?thesis using Cons pop_state_inv[OF inv] s(2,3) by simp
qed

lemma pop_takes_head_witness:
  "\<exists>db'. ef_free_list_pop_atomic sample_pool True = (Inr 0, db') \<and> free_list_inv db' [1, 2, 3]"
  using pop_takes_head[OF sample_pool_inv] by (cases "ef_free_list_pop_atomic sample_pool True") auto

text \<open>
  Pushing a slot that is not on the free list puts it at the front, marked free, and keeps
  every other slot and the order of the rest.
\<close>

lemma push_puts_front:
  assumes "free_list_inv db ids" "i < max_slots (sb db)" "i \<notin> set ids" "Suc (length ids) < 2 ^ 32"
    "ef_free_list_push_atomic db i (db_slot_ptr db i) = (err, db')"
  shows "err = EF_OK \<and> free_list_inv db' (i # ids) \<and> (\<forall>j. j \<noteq> i \<longrightarrow> db_slot db' j = db_slot db j)"
proof -
  have wf: "wf_layout db" using assms(1) by (simp add: free_list_inv_def)
  note s = push_slots[OF wf assms(2,5)]
  have "db_slot db' j = db_slot db j" if "j \<noteq> i" for j by (rule s(5)[OF that])
  with s(1) push_inv[OF assms] show ?thesis by simp
qed

lemma push_puts_front_witness:
  "\<exists>err db'. ef_free_list_push_atomic (pop_state sample_pool 0 True) 0 (db_slot_ptr (pop_state sample_pool 0 True) 0)
       = (err, db') \<and> err = EF_OK \<and> free_list_inv db' [0, 1, 2, 3]"
proof -
  let ?db = "pop_state sample_pool 0 True"
  have inv: "free_list_inv ?db [1, 2, 3]" by (rule pop_state_inv[OF sample_pool_inv])
  have "max_slots (sb ?db) = max_slots (sb sample_pool)"
    using pop_state_slots(5)[OF free_list_inv_head(4)[OF sample_pool_inv], of 0 True] by simp
  then have "0 < max_slots (sb ?db)" using free_list_inv_head(2)[OF sample_pool_inv] by simp
  then show ?thesis
    using push_puts_front[OF inv, of 0] by (cases "ef_free_list_push_atomic ?db 0 (db_slot_ptr ?db 0)") auto
qed

text \<open>
  A slot that is allocated and returned at once is the next one allocated, and the free list is
  back to what it was.
\<close>

lemma pop_push_pop_same_slot:
  assumes "free_list_inv db (i # ids)" "ef_free_list_pop_atomic db c = (Inr i, db1)"
    "ef_free_list_push_atomic db1 i (db_slot_ptr db1 i) = (EF_OK, db2)"
  shows "free_list_inv db2 (i # ids) \<and> fst (ef_free_list_pop_atomic db2 c) = Inr i"
  using pool.pop_push_pop[OF assms(1), of c] assms(2,3) by simp

lemma pop_push_pop_same_slot_witness:
  "\<exists>db1 db2. ef_free_list_pop_atomic sample_pool False = (Inr 0, db1) \<and>
     ef_free_list_push_atomic db1 0 (db_slot_ptr db1 0) = (EF_OK, db2) \<and> free_list_inv db2 [0, 1, 2, 3] \<and>
     fst (ef_free_list_pop_atomic db2 False) = Inr 0"
proof -
  note p = pool.pop_cons[OF sample_pool_inv, of False]
  obtain db1 where db1: "ef_free_list_pop_atomic sample_pool False = (Inr 0, db1)" "free_list_inv db1 [1, 2, 3]"
    "0 < max_slots (sb db1)" using p by (cases "ef_free_list_pop_atomic sample_pool False") auto
  obtain db2 where db2: "ef_free_list_push_atomic db1 0 (db_slot_ptr db1 0) = (EF_OK, db2)"
    using pool.push_cons[OF db1(2), of 0] db1(3)
    by (cases "ef_free_list_push_atomic db1 0 (db_slot_ptr db1 0)") auto
  show ?thesis using pop_push_pop_same_slot[OF sample_pool_inv db1(1) db2] db1(1) db2 by blast
qed

text \<open>
  Building the free list of a fresh database with fewer than \<open>2 ^ 32\<close> slots puts every slot on
  it, in increasing order of the ids.
\<close>

lemma build_lists_every_slot:
  assumes "wf_layout db" "unat (max_slots (sb db)) = n" "n < 2 ^ 32"
  shows "fst (ef_build_free_list db) = EF_OK \<and>
         free_list_inv (snd (ef_build_free_list db)) (map of_nat [0..<n])"
  using build_free_list_inv[OF assms] by blast

lemma build_lists_every_slot_witness:
  "free_list_inv (snd (ef_build_free_list sample_db)) (map of_nat [0..<4])"
  using build_lists_every_slot[of sample_db 4] by simp

text \<open>
  Rebuilding the free list when a database is opened, from whatever links and head it had,
  puts exactly the slots with status FREE on it.
\<close>

lemma rebuild_lists_the_free_slots:
  assumes "wf_layout db" "unat (max_slots (sb db)) = n" "n < 2 ^ 32"
  shows "fst (ef_rebuild_free_list db) = EF_OK \<and>
         free_list_inv (snd (ef_rebuild_free_list db))
           (map of_nat (filter (\<lambda>k. status (slot_at (mem db) (slot_ptr (unat (slots_base db)) k)) = EF_STATUS_FREE) [0..<n]))"
  using rebuild_free_list_inv[OF assms] by blast

lemma rebuild_lists_the_free_slots_witness:
  "free_list_inv (snd (ef_rebuild_free_list (sample_db\<lparr>mem := set_status sample_mem 384 EF_STATUS_USED\<rparr>)))
     (map of_nat [0, 2, 3])"
proof -
  let ?db = "sample_db\<lparr>mem := set_status sample_mem 384 EF_STATUS_USED\<rparr>"
  have ptr: "slot_ptr 320 1 = 384" by (simp add: slot_ptr_def EF_SLOT_SIZE_def)
  have st: "status (slot_at (set_status sample_mem 384 EF_STATUS_USED) (slot_ptr 320 k)) =
      (if k = 1 then EF_STATUS_USED else 0)" for k
    using le_trans[OF _ slot_ptr_ge[of 320 k], of 64] unfolding ptr[symmetric] by simp
  have "filter (\<lambda>k. status (slot_at (set_status sample_mem 384 EF_STATUS_USED) (slot_ptr 320 k)) = EF_STATUS_FREE) [0..<4] = [0, 2, 3]"
    unfolding st by (simp add: upt_rec ef_status_defs)
  moreover have "wf_layout ?db" by (simp add: wf_layout_mem)
  moreover have "unat (max_slots (sb ?db)) = 4" by simp
  ultimately show ?thesis using rebuild_lists_the_free_slots[of ?db 4] by simp
qed

end
