(* ===== verification/Quiet_State.thy ===== *)
theory Quiet_State
  imports Pool_Props Queue
begin

text \<open>
  A handle between operations: a writable version 5 database with a well-formed layout, no open
  transaction, the index lock free and no shrink of the index due. In this state the locking of
  the allocation path is invisible, and allocating a slot and returning one are the pop and push
  of the free list.
\<close>

definition quiet :: "ef_db \<Rightarrow> bool" where
  "quiet db \<longleftrightarrow>
     wf_layout db \<and> EF_SCHEMA_VERSION \<le> schema_version (sb db) \<and> \<not> readonly db \<and> \<not> txn_active db \<and>
     index_write_lock (sb db) = 0 \<and>
     ef_index_pick_shrink_capacity (hash_entry_count db) (hash_capacity db) = 0"

definition table :: "ef_db \<Rightarrow> ef_hash_entry list" where
  "table db = table_of (mem db) 64 (unat (hash_capacity db))"

text \<open>
  \<open>touches db db' S\<close>: only the slots of \<open>S\<close> and the superblock may differ, and a superblock that
  awaits its checksum still does.
\<close>

definition touches :: "ef_db \<Rightarrow> ef_db \<Rightarrow> u64 set \<Rightarrow> bool" where
  "touches db db' S \<longleftrightarrow>
     same_layout db db' \<and> table db' = table db \<and> hash_entry_count db' = hash_entry_count db \<and>
     readonly db' = readonly db \<and> txn_active db' = txn_active db \<and>
     backend db' = backend db \<and> map_capacity db' = map_capacity db \<and> undo_log_slots db' = undo_log_slots db \<and>
     (sb_meta_dirty db \<longrightarrow> sb_meta_dirty db') \<and>
     (\<forall>j. j \<notin> S \<longrightarrow> db_slot db' j = db_slot db j)"

lemma touches_refl: "touches db db S"
  by (simp add: touches_def same_layout_def)

lemma touches_trans:
  assumes "touches a b S" "touches b c T" "S \<subseteq> U" "T \<subseteq> U"
  shows "touches a c U"
proof -
  have "db_slot c j = db_slot a j" if "j \<notin> U" for j
  proof -
    have "j \<notin> S" "j \<notin> T" using that assms(3,4) by auto
    then show ?thesis using assms(1,2) unfolding touches_def by metis
  qed
  with assms(1,2) show ?thesis by (simp add: touches_def same_layout_def)
qed

lemma touches_slot: "touches db db' S \<Longrightarrow> j \<notin> S \<Longrightarrow> db_slot db' j = db_slot db j"
  unfolding touches_def by blast

lemma touches_layout: "touches db db' S \<Longrightarrow> same_layout db db'"
  unfolding touches_def by blast

lemma free_list_inv_cong:
  assumes "same_layout db db'" "free_list_head (sb db') = free_list_head (sb db)"
    "free_count (sb db') = free_count (sb db)"
    "\<And>i. i \<in> set ids \<Longrightarrow> db_slot db' i = db_slot db i"
  shows "free_list_inv db' ids = free_list_inv db ids"
proof -
  have "free_chain db' (free_list_head (sb db)) ids = free_chain db (free_list_head (sb db)) ids"
    by (rule free_chain_cong[OF assms(1)]) (simp add: assms(4))
  then show ?thesis using assms(2,3) same_layout_wf[OF assms(1)] by (simp add: free_list_inv_def)
qed

lemma free_list_inv_touches:
  assumes "touches db db' S" "S \<inter> set ids = {}" "free_list_head (sb db') = free_list_head (sb db)"
    "free_count (sb db') = free_count (sb db)"
  shows "free_list_inv db' ids = free_list_inv db ids"
proof -
  have "db_slot db' i = db_slot db i" if "i \<in> set ids" for i
    using that assms(2) by (intro touches_slot[OF assms(1)]) auto
  then show ?thesis by (rule free_list_inv_cong[OF touches_layout[OF assms(1)] assms(3,4)])
qed

lemma peek_ok:
  "mapped db \<Longrightarrow> i < max_slots (sb db) \<Longrightarrow> ef_peek_slot db i = (Some (db_slot_ptr db i), ef_set_error db EF_OK)"
  by (simp add: ef_peek_slot_def leD)

subsection \<open>The index lock\<close>

lemma index_lock_take:
  assumes "EF_SCHEMA_VERSION \<le> schema_version (sb_of m)" "index_write_lock (sb_of m) = 0"
  shows "ef_sb_index_write_lock_acquire m = (EF_OK, set_index_write_lock m 1)"
proof -
  have "load_u8 m 59 = 0" using assms(2) by (simp add: sb_of_def)
  then show ?thesis
    using index_lock.acquire_free[of m] assms(1)
    by (simp add: ef_sb_uses_v4_index_layout_def set_index_write_lock_def)
qed

lemma index_lock_drop:
  "EF_SCHEMA_VERSION \<le> schema_version (sb_of m) \<Longrightarrow> ef_sb_index_write_lock_release m = set_index_write_lock m 0"
  by (simp add: ef_sb_index_write_lock_release_def ef_sb_uses_v4_index_layout_def)

lemma index_lock_drop_take:
  assumes "index_write_lock (sb_of m) = 0"
  shows "set_index_write_lock (set_index_write_lock m 1) 0 = m"
proof -
  have "load_u8 m 59 = 0" using assms by (simp add: sb_of_def)
  then show ?thesis by (simp add: set_index_write_lock_def store_u8_upd load_u8_def fun_upd_idem)
qed

text \<open>Setting the lock byte is invisible to the slots, the table and the layout.\<close>

lemma lock_touches: "wf_layout db \<Longrightarrow> touches db (db\<lparr>mem := set_index_write_lock (mem db) v\<rparr>) {}"
proof -
  assume wf: "wf_layout db"
  then have "64 \<le> db_slot_ptr db j" for j using wf_layout_base_ge slot_ptr_ge le_trans by blast
  then show ?thesis by (simp add: touches_def same_layout_def table_def)
qed

subsection \<open>Allocation\<close>

lemma table_end: "wf_layout db \<Longrightarrow> 64 + 16 * unat (hash_capacity db) \<le> db_slot_ptr db i"
  using wf_layout_base[of db] slot_ptr_ge[of "unat (slots_base db)" "unat i"] by simp

lemma table_crc_store [simp]:
  "h + 16 * cap \<le> p \<Longrightarrow> table_of (mem (ef_slot_header_crc_store db i p)) h cap = table_of (mem db) h cap"
  by (simp add: mem_crc_store)

lemma table_clear_payload [simp]:
  "h + 16 * cap \<le> p \<Longrightarrow> table_of (mem (clear_payload_at db p)) h cap = table_of (mem db) h cap"
  by (rule mem_clear_payload[of db p]) (simp add: table_of_store_disjoint)

lemma table_free_count [simp]:
  "64 \<le> h \<Longrightarrow> table_of (ef_sb_free_count_dec m) h cap = table_of m h cap"
  "64 \<le> h \<Longrightarrow> table_of (ef_sb_free_count_inc m) h cap = table_of m h cap"
  by (simp_all add: ef_sb_free_count_dec_def ef_sb_free_count_inc_def)

lemma payload_store_crc [simp]:
  "payload (slot_at (mem (ef_slot_header_crc_store db i (slot_ptr b j))) (slot_ptr b k)) =
   payload (slot_at (mem db) (slot_ptr b k))"
  by (simp add: mem_crc_store)

lemma clear_payload_v5:
  assumes "EF_SCHEMA_VERSION \<le> schema_version (sb db)" "mapped db"
  shows "payload (slot_at (mem (clear_payload_at db p)) p) = replicate 48 0"
proof -
  have v: "schema_version (sb db) \<noteq> 0" "schema_version (sb db) \<noteq> EF_SCHEMA_LEGACY"
    using assms(1) by (auto simp: EF_SCHEMA_VERSION_def EF_SCHEMA_LEGACY_def word_le_nat_alt)
  then have "mem (clear_payload_at db p) = mem_set (mem db) (p + 8) 0 48"
    using assms(2) by (simp add: clear_payload_at_def ef_slot_payload_ptr_def ef_payload_capacity_def EF_PAYLOAD_SIZE_def)
  then show ?thesis by (simp add: slot_at_def load_bytes_mem_set_inside)
qed

lemma pop_state_touches:
  assumes wf: "wf_layout db"
  shows "touches db (pop_state db i c) {i}"
proof -
  note s = pop_state_slots[OF wf, where i = i and c = c]
  have "table (pop_state db i c) = table db"
    using table_end[OF wf, of i] by (simp add: table_def pop_state_def Let_def)
  moreover have "db_slot (pop_state db i c) j = db_slot db j" if "j \<notin> {i}" for j
    using that by (intro s(4)) simp
  ultimately show ?thesis
    using s(1) by (simp add: touches_def) (simp add: pop_state_def Let_def)
qed

lemma pop_state_payload:
  assumes wf: "wf_layout db" and v: "EF_SCHEMA_VERSION \<le> schema_version (sb db)"
  shows "payload (db_slot (pop_state db i c) i) = (if c then replicate 48 0 else payload (db_slot db i))"
proof -
  have p: "64 \<le> db_slot_ptr db i" using wf wf_layout_base_ge slot_ptr_ge le_trans by blast
  show ?thesis
    using p wf v by (simp add: pop_state_def Let_def clear_payload_v5)
qed

lemma quiet_wf: "quiet db \<Longrightarrow> wf_layout db"
  by (simp add: quiet_def)

lemma quiet_cong:
  assumes "touches db db' S" "schema_version (sb db') = schema_version (sb db)"
    "index_write_lock (sb db') = index_write_lock (sb db)"
  shows "quiet db' = quiet db"
  using assms same_layout_wf[of db db'] by (auto simp: quiet_def touches_def same_layout_def)

lemma alloc_slot_run:
  fixes fl :: u32 and i :: u64 and db :: ef_db
  assumes q: "quiet db" and inv: "free_list_inv db (i # ids)"
  defines "c \<equiv> fl AND EF_ALLOC_ZERO_PAYLOAD \<noteq> 0"
  defines "db1 \<equiv> pop_state (db\<lparr>mem := set_index_write_lock (mem db) 1\<rparr>) i c"
  shows "ef_alloc_slot_ex db fl = (Inr i, db1\<lparr>mem := set_index_write_lock (mem db1) 0\<rparr>)"
proof -
  have wf: "wf_layout db" using q by (rule quiet_wf)
  let ?l = "db\<lparr>mem := set_index_write_lock (mem db) 1\<rparr>"
  note lt = lock_touches[OF wf, of 1]
  have linv: "free_list_inv ?l (i # ids)"
    using inv touches_slot[OF lt] by (subst free_list_inv_cong[OF touches_layout[OF lt]]) auto
  have pop: "ef_free_list_pop_atomic ?l c = (Inr i, db1)" unfolding db1_def by (rule pop_head[OF linv])
  have wfl: "wf_layout ?l" using wf same_layout_wf[OF touches_layout[OF lt]] by simp
  have "sb db1 = (sb ?l)\<lparr>free_list_head := next_offset (db_slot ?l i), free_count := free_count (sb ?l) - 1\<rparr>"
    unfolding db1_def by (rule pop_state_slots(5)[OF wfl])
  then have v: "EF_SCHEMA_VERSION \<le> schema_version (sb db1)" using q by (simp add: quiet_def)
  have "\<not> txn_active db1" using q pop_state_touches[OF wfl, of i c] by (simp add: db1_def touches_def quiet_def)
  then show ?thesis
    using q wf pop v
    by (simp add: ef_alloc_slot_ex_def ef_db_require_write_def quiet_def index_lock_take c_def[symmetric]
        ef_txn_active_def index_lock_drop Let_def)
qed

lemma alloc_slot_ok:
  assumes q: "quiet db" and inv: "free_list_inv db (i # ids)" and run: "ef_alloc_slot_ex db fl = (r, db')"
  shows "r = Inr i" "touches db db' {i}" "quiet db'" "free_list_inv db' ids"
    "sb db' = (sb db)\<lparr>free_list_head := next_offset (db_slot db i), free_count := free_count (sb db) - 1\<rparr>"
    "status (db_slot db' i) = EF_STATUS_USED" "next_offset (db_slot db' i) = 0"
    "payload (db_slot db' i) = (if fl AND EF_ALLOC_ZERO_PAYLOAD \<noteq> 0 then replicate 48 0 else payload (db_slot db i))"
proof -
  let ?c = "fl AND EF_ALLOC_ZERO_PAYLOAD \<noteq> 0"
  let ?l = "db\<lparr>mem := set_index_write_lock (mem db) 1\<rparr>"
  let ?d = "pop_state ?l i ?c"
  have wf: "wf_layout db" using q by (rule quiet_wf)
  have r: "r = Inr i" and db': "db' = ?d\<lparr>mem := set_index_write_lock (mem ?d) 0\<rparr>"
    using alloc_slot_run[OF q inv, of fl] run by simp_all
  note lt = lock_touches[OF wf, of 1]
  have wfl: "wf_layout ?l" using wf same_layout_wf[OF touches_layout[OF lt]] by simp
  have linv: "free_list_inv ?l (i # ids)"
    using inv touches_slot[OF lt] by (subst free_list_inv_cong[OF touches_layout[OF lt]]) auto
  note ps = pop_state_slots[OF wfl, where i = i and c = ?c]
  note pt = pop_state_touches[OF wfl, of i ?c]
  have wfd: "wf_layout ?d" using wfl same_layout_wf[OF ps(1)] by simp
  have dt: "touches ?d db' {}" unfolding db' by (rule lock_touches[OF wfd])
  have tld: "touches db ?d {i}" by (rule touches_trans[OF lt pt]) simp_all
  show t: "touches db db' {i}" by (rule touches_trans[OF tld dt]) simp_all
  show "r = Inr i" by (rule r)
  have sl: "db_slot db' j = db_slot ?d j" for j by (rule touches_slot[OF dt]) simp
  have sll: "db_slot ?l j = db_slot db j" for j by (rule touches_slot[OF lt]) simp
  have lock: "index_write_lock (sb db) = 0" using q by (simp add: quiet_def)
  show sb: "sb db' = (sb db)\<lparr>free_list_head := next_offset (db_slot db i), free_count := free_count (sb db) - 1\<rparr>"
    using ps(5) sll[of i] lock by (simp add: db')
  show "quiet db'" using q by (subst quiet_cong[OF t]) (simp_all add: sb)
  show "free_list_inv db' ids"
    using pop_state_inv[OF linv, of ?c] sl
    by (subst free_list_inv_cong[OF touches_layout[OF dt]]) (auto simp: db')
  show "status (db_slot db' i) = EF_STATUS_USED" "next_offset (db_slot db' i) = 0"
    unfolding sl using ps(2,3) by simp_all
  have "EF_SCHEMA_VERSION \<le> schema_version (sb ?l)" using q by (simp add: quiet_def)
  from pop_state_payload[OF wfl this, of i ?c]
  show "payload (db_slot db' i) = (if ?c then replicate 48 0 else payload (db_slot db i))"
    unfolding sl sll .
qed

subsection \<open>Returning a slot\<close>

definition unindexed :: "ef_db \<Rightarrow> u64 \<Rightarrow> bool" where
  "unindexed db i \<longleftrightarrow> (\<forall>e \<in> set (table db). slot_offset e \<noteq> ef_slot_to_offset db i)"

lemma unindexed_cong: "touches db db' S \<Longrightarrow> unindexed db' i = unindexed db i"
  using same_layout_offset[OF touches_layout, of db db' S] by (simp add: unindexed_def touches_def)

lemma entry_with_offset_none:
  "(\<forall>k \<in> set ks. slot_offset (entry_at m h k) \<noteq> off) \<Longrightarrow> entry_with_offset m h ks off = None"
  by (induction ks) auto

lemma remove_unindexed:
  assumes q: "quiet db" and i: "i < max_slots (sb db)" and u: "unindexed db i"
  obtains db' where "ef_index_remove_by_slot env db i = (EF_OK, db')" "mem db' = mem db" "touches db db' {}"
proof -
  let ?b = "db\<lparr>mem := set_index_write_lock (mem db) 1, index_seq := index_seq db + 1\<rparr>"
  have wf: "wf_layout db" using q by (rule quiet_wf)
  have v: "EF_SCHEMA_VERSION \<le> schema_version (sb db)" "index_write_lock (sb db) = 0" "\<not> readonly db"
    "mapped db" using q wf by (auto simp: quiet_def)
  have took: "ef_index_write_begin db = (EF_OK, ?b)"
    using v by (simp add: ef_index_write_begin_def ef_index_has_seqlock_def index_lock_take
        ef_sb_index_write_seq_begin_def ef_sb_uses_v4_index_layout_def)
  let ?e = "db\<lparr>index_seq := index_seq db + 2\<rparr>"
  have finish: "ef_index_write_end ?b = ?e"
    using v by (simp add: ef_index_write_end_def ef_index_has_seqlock_def ef_sb_index_write_seq_end_def
        ef_sb_uses_v4_index_layout_def index_lock_drop index_lock_drop_take)
  have off: "ef_slot_to_offset ?b i = ef_slot_to_offset db i" "ef_slot_to_offset db i \<noteq> 0"
    using slot_offset_neq_0[OF wf i] by (auto intro!: offset_cong(1)[THEN fun_cong])
  have idx: "hash_index db = (if hash_capacity db = 0 then None else Some 64)"
    using wf by (simp add: wf_layout_def layout_ok_def)
  have none: "entry_with_offset (mem ?b) 64 [0..<unat (hash_capacity db)] (ef_slot_to_offset db i) = None"
  proof (rule entry_with_offset_none, rule ballI)
    fix k assume "k \<in> set [0..<unat (hash_capacity db)]"
    then have k: "k < unat (hash_capacity db)" by simp
    have "table_of (mem ?b) 64 (unat (hash_capacity db)) = table db" by (simp add: table_def)
    then have "entry_at (mem ?b) 64 k = table db ! k" using k by (metis nth_table_of)
    moreover have "table db ! k \<in> set (table db)" using k by (intro nth_mem) (simp add: table_def)
    ultimately show "slot_offset (entry_at (mem ?b) 64 k) \<noteq> ef_slot_to_offset db i"
      using u by (simp add: unindexed_def)
  qed
  have calm: "shrink_if_sparse env d (hash_entry_count db) (hash_capacity db) = d" for d
    using q by (simp add: shrink_if_sparse_def ef_index_shrink_def quiet_def)
  have "ef_index_remove_by_slot env db i =
      (EF_OK, if hash_capacity db = 0 then ?e else ef_db_mark_meta_dirty ?e)"
    using v(3) idx took finish off none calm
    by (simp add: ef_index_remove_by_slot_def ef_index_require_write_def Let_def)
  moreover have "touches db (if hash_capacity db = 0 then ?e else ef_db_mark_meta_dirty ?e) {}"
    by (simp add: touches_def same_layout_def table_def)
  moreover have "mem (if hash_capacity db = 0 then ?e else ef_db_mark_meta_dirty ?e) = mem db" by simp
  ultimately show thesis using that by blast
qed

lemma push_touches:
  assumes wf: "wf_layout db" and i: "i < max_slots (sb db)"
    and run: "ef_free_list_push_atomic db i (db_slot_ptr db i) = (err, db')"
  shows "touches db db' {i}"
proof -
  note s = push_slots[OF wf i run]
  have db': "db' = snd (ef_free_list_push_atomic db i (db_slot_ptr db i))" using run by simp
  have "table db' = table db" "hash_entry_count db' = hash_entry_count db" "readonly db' = readonly db"
    "txn_active db' = txn_active db" "backend db' = backend db" "map_capacity db' = map_capacity db"
    "undo_log_slots db' = undo_log_slots db" "sb_meta_dirty db \<longrightarrow> sb_meta_dirty db'"
    using table_end[OF wf, of i] by (simp_all add: db' table_def ef_free_list_push_atomic_def Let_def)
  moreover have "db_slot db' j = db_slot db j" if "j \<notin> {i}" for j using that by (intro s(5)) simp
  ultimately show ?thesis using s(2) by (simp add: touches_def)
qed

lemma return_ok:
  assumes q: "quiet db" and inv: "free_list_inv db ids" and i: "i < max_slots (sb db)" "i \<notin> set ids"
    and u: "unindexed db i" and room: "Suc (length ids) < 2 ^ 32"
    and run: "ef_return_slot_to_pool env db i (db_slot_ptr db i) = (err, db')"
  shows "err = EF_OK" "touches db db' {i}" "quiet db'" "free_list_inv db' (i # ids)"
    "sb db' = (sb db)\<lparr>free_list_head := ef_slot_to_offset db i, free_count := free_count (sb db) + 1\<rparr>"
proof -
  obtain d where d: "ef_index_remove_by_slot env db i = (EF_OK, d)" "mem d = mem db" "touches db d {}"
    by (rule remove_unindexed[OF q i(1) u])
  have lay: "same_layout db d" by (rule touches_layout[OF d(3)])
  have ptr: "db_slot_ptr d i = db_slot_ptr db i" using lay by (simp add: same_layout_def)
  have push: "ef_free_list_push_atomic d i (db_slot_ptr d i) = (err, db')"
    using run d(1) by (simp add: ef_return_slot_to_pool_def ptr)
  have wf: "wf_layout d" using quiet_wf[OF q] same_layout_wf[OF lay] by simp
  have id: "i < max_slots (sb d)" using i(1) lay by (simp add: same_layout_def)
  have invd: "free_list_inv d ids"
    using inv touches_slot[OF d(3)] by (subst free_list_inv_cong[OF lay]) (auto simp: d(2))
  note s = push_slots[OF wf id push]
  show "err = EF_OK" by (rule s(1))
  show t: "touches db db' {i}" by (rule touches_trans[OF d(3) push_touches[OF wf id push]]) simp_all
  show sb: "sb db' = (sb db)\<lparr>free_list_head := ef_slot_to_offset db i, free_count := free_count (sb db) + 1\<rparr>"
    using s(6) by (simp add: d(2) same_layout_offset[OF lay])
  show "quiet db'" using q by (subst quiet_cong[OF t]) (simp_all add: sb)
  show "free_list_inv db' (i # ids)" by (rule push_inv[OF invd id i(2) room push])
qed

end
