(* ===== verification/Queue_Fifo.thy ===== *)
theory Queue_Fifo
  imports Quiet_State
begin

text \<open>
  The queue of \<^verbatim>\<open>ef_queue.c\<close> as a first-in first-out list of byte strings. \<open>queue_inv\<close> ties the
  dummy, the linked nodes and the free list together; push appends and pop takes from the front.
  The contract of a bounded queue is the locale \<open>fifo\<close>, interpreted on the code's operations.
\<close>

fun linked :: "ef_db \<Rightarrow> u64 list \<Rightarrow> bool" where
  "linked db [] \<longleftrightarrow> True"
| "linked db [i] \<longleftrightarrow> next_offset (db_slot db i) = 0"
| "linked db (i # j # is) \<longleftrightarrow> next_offset (db_slot db i) = ef_slot_to_offset db j \<and> linked db (j # is)"

definition item :: "ef_db \<Rightarrow> u64 \<Rightarrow> u8 list" where
  "item db i = take (unat (payload (db_slot db i) ! 0)) (drop 1 (payload (db_slot db i)))"

definition queue_inv :: "ef_db \<Rightarrow> u64 list \<Rightarrow> u64 \<Rightarrow> u64 list \<Rightarrow> bool" where
  "queue_inv db ids d nodes \<longleftrightarrow>
     quiet db \<and> free_list_inv db ids \<and> queue_lock (sb db) = 0 \<and>
     queue_head (sb db) = ef_slot_to_offset db d \<and> queue_tail (sb db) = ef_slot_to_offset db (last (d # nodes)) \<and>
     linked db (d # nodes) \<and> distinct (d # nodes) \<and>
     d < max_slots (sb db) \<and> status (db_slot db d) = EF_STATUS_QUEUE_DUMMY \<and>
     (\<forall>i \<in> set nodes. i < max_slots (sb db) \<and> status (db_slot db i) = EF_STATUS_QUEUED \<and>
                       unat (payload (db_slot db i) ! 0) \<le> 47) \<and>
     (\<forall>i \<in> set ids \<union> set nodes. unindexed db i) \<and> length ids + length nodes + 1 < 2 ^ 32"

lemma linked_cong:
  assumes "same_layout db db'" "\<And>i. i \<in> set xs \<Longrightarrow> next_offset (db_slot db' i) = next_offset (db_slot db i)"
  shows "linked db' xs = linked db xs"
  using assms(2) by (induction xs rule: induct_list012) (simp_all add: same_layout_offset[OF assms(1)])

lemma linked_append:
  assumes "linked db (xs @ [l])" "same_layout db db'" "l \<notin> set xs"
    and "\<And>i. i \<in> set xs \<Longrightarrow> next_offset (db_slot db' i) = next_offset (db_slot db i)"
    and "next_offset (db_slot db' l) = ef_slot_to_offset db n" "next_offset (db_slot db' n) = 0"
  shows "linked db' (xs @ [l, n])"
  using assms
proof (induction xs)
  case Nil
  then show ?case by (simp add: same_layout_offset[OF assms(2)])
next
  case (Cons x xs)
  then show ?case by (cases xs) (simp_all add: same_layout_offset[OF assms(2)])
qed

lemma linked_tl: "linked db (d # n # nodes) \<Longrightarrow>
   next_offset (db_slot db d) = ef_slot_to_offset db n \<and>
   next_offset (db_slot db n) = (if nodes = [] then 0 else ef_slot_to_offset db (hd nodes)) \<and> linked db nodes"
  by (cases nodes) auto

lemma linked_Cons: "linked db nodes \<Longrightarrow>
   next_offset (db_slot db d) = (if nodes = [] then 0 else ef_slot_to_offset db (hd nodes)) \<Longrightarrow> linked db (d # nodes)"
  by (cases nodes) auto

lemma statuses_distinct:
  "EF_STATUS_QUEUED \<noteq> EF_STATUS_FREE" "EF_STATUS_QUEUE_DUMMY \<noteq> EF_STATUS_FREE"
  "EF_STATUS_QUEUED \<noteq> EF_STATUS_QUEUE_DUMMY" "EF_STATUS_QUEUED \<noteq> EF_STATUS_USED" "EF_STATUS_QUEUE_DUMMY \<noteq> EF_STATUS_USED"
  by (simp_all add: ef_status_defs)

lemma free_status: "free_list_inv db ids \<Longrightarrow> i \<in> set ids \<Longrightarrow> status (db_slot db i) = EF_STATUS_FREE \<and> i < max_slots (sb db)"
  using free_chain_slots by (auto simp: free_list_inv_def)

subsection \<open>Locks and payload stores\<close>

lemma queue_lock_take:
  assumes "EF_SCHEMA_VERSION \<le> schema_version (sb db)" "queue_lock (sb db) = 0"
  shows "ef_queue_lock_acquire db = (EF_OK, db\<lparr>mem := set_queue_lock (mem db) 1\<rparr>)"
proof -
  have "load_u8 (mem db) 58 = 0" using assms(2) by (simp add: sb_of_def)
  then have "ef_sb_queue_lock_acquire (mem db) = (EF_OK, set_queue_lock (mem db) 1)"
    using queue_lock.acquire_free[of "mem db"] assms(1)
    by (simp add: ef_sb_uses_v4_index_layout_def set_queue_lock_def)
  then show ?thesis by (simp add: ef_queue_lock_acquire_def)
qed

lemma queue_lock_drop:
  "EF_SCHEMA_VERSION \<le> schema_version (sb db) \<Longrightarrow> ef_queue_lock_release db = db\<lparr>mem := set_queue_lock (mem db) 0\<rparr>"
  by (simp add: ef_queue_lock_release_def ef_sb_queue_lock_release_def ef_sb_uses_v4_index_layout_def)

lemma v5_payload:
  assumes "EF_SCHEMA_VERSION \<le> schema_version (sb db)" "mapped db"
  shows "ef_slot_payload_ptr db p = p + 8" "ef_payload_capacity db = 48"
proof -
  have v: "schema_version (sb db) \<noteq> 0" "schema_version (sb db) \<noteq> EF_SCHEMA_LEGACY"
    using assms(1) by (auto simp: EF_SCHEMA_VERSION_def EF_SCHEMA_LEGACY_def word_le_nat_alt)
  then show "ef_slot_payload_ptr db p = p + 8" "ef_payload_capacity db = 48"
    using assms(2) by (simp_all add: ef_slot_payload_ptr_def ef_payload_capacity_def EF_PAYLOAD_SIZE_def)
qed

lemma payload_read:
  "load_u8 m (p + 8) = payload (slot_at m p) ! 0"
  "k \<le> 47 \<Longrightarrow> load_bytes m (p + 8 + 1) k = take k (drop 1 (payload (slot_at m p)))"
proof -
  show "load_u8 m (p + 8) = payload (slot_at m p) ! 0" by (simp add: slot_at_def load_bytes_def load_u8_def)
  assume "k \<le> 47"
  then show "load_bytes m (p + 8 + 1) k = take k (drop 1 (payload (slot_at m p)))"
    by (intro nth_equalityI) (simp_all add: slot_at_def load_bytes_def ac_simps)
qed

text \<open>Storing bytes in the payload of one slot.\<close>

lemma payload_store:
  fixes i :: u64 and k :: nat and db :: ef_db
  assumes wf: "wf_layout db" and n: "k + length bs \<le> 48"
  defines "db' \<equiv> db\<lparr>mem := store_bytes (mem db) (db_slot_ptr db i + (8 + k)) bs\<rparr>"
  shows "touches db db' {i}" "sb db' = sb db"
    "db_slot db' i = (db_slot db i)\<lparr>payload := overwrite (payload (db_slot db i)) k bs\<rparr>"
proof -
  have p: "64 \<le> db_slot_ptr db i + (8 + k)" using wf wf_layout_base_ge[OF wf] slot_ptr_ge[of "unat (slots_base db)" "unat i"] by linarith
  show sb: "sb db' = sb db" unfolding db'_def using p by (simp add: sb_of_store_bytes)
  have "db_slot db' j = db_slot db j" if "j \<notin> {i}" for j
    using that unat_inj_slot[of i j] n by (auto simp: db'_def slot_at_payload)
  moreover have "table db' = table db"
    using table_end[OF wf, of i] by (simp add: db'_def table_def table_of_store_disjoint)
  ultimately show "touches db db' {i}" using sb by (simp add: touches_def same_layout_def) (simp add: db'_def)
  show "db_slot db' i = (db_slot db i)\<lparr>payload := overwrite (payload (db_slot db i)) k bs\<rparr>"
    using n by (simp add: db'_def slot_at_payload)
qed

subsection \<open>Push\<close>

lemma queue_invD:
  assumes "queue_inv db ids d nodes"
  shows "quiet db" "free_list_inv db ids" "queue_lock (sb db) = 0" "wf_layout db" "mapped db"
    "EF_SCHEMA_VERSION \<le> schema_version (sb db)" "\<not> txn_active db" "\<not> readonly db"
    "queue_head (sb db) = ef_slot_to_offset db d" "queue_tail (sb db) = ef_slot_to_offset db (last (d # nodes))"
    "linked db (d # nodes)" "distinct (d # nodes)" "d < max_slots (sb db)"
    "status (db_slot db d) = EF_STATUS_QUEUE_DUMMY"
  using assms quiet_wf[of db] by (auto simp: queue_inv_def quiet_def)

lemma queue_inv_node:
  assumes "queue_inv db ids d nodes" "i \<in> set nodes"
  shows "i < max_slots (sb db)" "status (db_slot db i) = EF_STATUS_QUEUED"
    "unat (payload (db_slot db i) ! 0) \<le> 47" "unindexed db i" "i \<noteq> d" "i \<notin> set ids"
proof -
  show "i < max_slots (sb db)" and st: "status (db_slot db i) = EF_STATUS_QUEUED"
    and "unat (payload (db_slot db i) ! 0) \<le> 47" "unindexed db i" "i \<noteq> d"
    using assms by (auto simp: queue_inv_def)
  show "i \<notin> set ids" using free_status[OF queue_invD(2)[OF assms(1)], of i] st statuses_distinct by auto
qed

lemma queue_inv_dummy_free:
  assumes "queue_inv db ids d nodes"
  shows "d \<notin> set ids"
  using free_status[OF queue_invD(2)[OF assms], of d] queue_invD(14)[OF assms] statuses_distinct by auto

text \<open>A change of other slots and of the free list head does not disturb the queue.\<close>

lemma queue_inv_frame:
  assumes inv: "queue_inv db ids d nodes" and t: "touches db db' S" and S: "S \<inter> set (d # nodes) = {}"
    and sb: "schema_version (sb db') = schema_version (sb db)" "index_write_lock (sb db') = index_write_lock (sb db)"
      "queue_lock (sb db') = queue_lock (sb db)" "queue_head (sb db') = queue_head (sb db)"
      "queue_tail (sb db') = queue_tail (sb db)"
    and ids': "free_list_inv db' ids'" "set ids' \<subseteq> set ids \<union> X" "\<forall>x \<in> X. unindexed db x"
      "length ids' + length nodes + 1 < 2 ^ 32"
  shows "queue_inv db' ids' d nodes"
proof -
  note lay = touches_layout[OF t]
  have off: "ef_slot_to_offset db' = ef_slot_to_offset db" by (rule same_layout_offset[OF lay])
  have max: "max_slots (sb db') = max_slots (sb db)" using lay by (simp add: same_layout_def)
  have slot: "db_slot db' i = db_slot db i" if "i \<in> set (d # nodes)" for i
    using that S by (intro touches_slot[OF t]) auto
  have slotn: "db_slot db' i = db_slot db i" if "i \<in> set nodes" for i using that slot by simp
  have "linked db' (d # nodes) = linked db (d # nodes)" by (rule linked_cong[OF lay]) (simp only: slot)
  moreover have "quiet db'" using queue_invD(1)[OF inv] quiet_cong[OF t sb(1,2)] by simp
  moreover have "unindexed db' i = unindexed db i" for i by (rule unindexed_cong[OF t])
  ultimately show ?thesis
    using inv ids' sb slot[of d] slotn by (auto simp: queue_inv_def off max)
qed

lemma slot_at_offset_id:
  assumes "wf_layout db" "i < max_slots (sb db)" "same_layout db db'" "off = ef_slot_to_offset db i"
  shows "ef_slot_at_offset db' off = Some i"
proof -
  have "ef_slot_at_offset db' = ef_slot_at_offset db"
    using assms(3) by (intro offset_cong(3)) (simp_all add: same_layout_def)
  then show ?thesis using slot_at_offset_roundtrip[OF assms(1,2)] assms(4) by simp
qed

text \<open>The link of the new node \<open>i\<close> behind the last node \<open>l\<close>, as straight-line code.\<close>

definition link_state :: "ef_db \<Rightarrow> u64 \<Rightarrow> u64 \<Rightarrow> ef_db" where
  "link_state db i l =
     (let p = db_slot_ptr db i; tp = db_slot_ptr db l; off = ef_slot_to_offset db i;
          db = ef_slot_header_crc_store (ef_slot_status_store (ef_slot_next_offset_store db p 0) p EF_STATUS_QUEUED) i p;
          db = upd_mem (\<lambda>m. set_queue_lock m 1) db;
          db = ef_slot_header_crc_store (ef_slot_next_offset_store db tp off) l tp;
          db = upd_mem (\<lambda>m. set_queue_lock (set_queue_tail m off) 0) db
      in ef_set_error (ef_db_mark_meta_dirty db) EF_OK)"

lemma link_state_facts:
  assumes wf: "wf_layout db" and il: "i \<noteq> l"
  shows "touches db (link_state db i l) {i, l}"
    "sb (link_state db i l) = (sb db)\<lparr>queue_lock := 0, queue_tail := ef_slot_to_offset db i\<rparr>"
    "status (db_slot (link_state db i l) i) = EF_STATUS_QUEUED" "next_offset (db_slot (link_state db i l) i) = 0"
    "status (db_slot (link_state db i l) l) = status (db_slot db l)"
    "next_offset (db_slot (link_state db i l) l) = ef_slot_to_offset db i"
    "payload (db_slot (link_state db i l) j) = payload (db_slot db j)"
proof -
  have p: "64 \<le> db_slot_ptr db j" for j using wf wf_layout_base_ge slot_ptr_ge le_trans by blast
  have ne: "unat i \<noteq> unat l" "unat l \<noteq> unat i" using unat_inj_slot[OF il] by auto
  show sb: "sb (link_state db i l) = (sb db)\<lparr>queue_lock := 0, queue_tail := ef_slot_to_offset db i\<rparr>"
    using p by (simp add: link_state_def Let_def)
  have "table (link_state db i l) = table db"
    using table_end[OF wf, of i] table_end[OF wf, of l] by (simp add: table_def link_state_def Let_def)
  moreover have "db_slot (link_state db i l) j = db_slot db j" if "j \<notin> {i, l}" for j
  proof -
    have "unat i \<noteq> unat j" "unat l \<noteq> unat j" using that unat_inj_slot[of i j] unat_inj_slot[of l j] by auto
    then show ?thesis using p by (simp add: link_state_def Let_def)
  qed
  ultimately show "touches db (link_state db i l) {i, l}"
    using sb by (simp add: touches_def same_layout_def) (simp add: link_state_def Let_def)
  show "status (db_slot (link_state db i l) i) = EF_STATUS_QUEUED"
    "next_offset (db_slot (link_state db i l) i) = 0"
    "status (db_slot (link_state db i l) l) = status (db_slot db l)"
    "next_offset (db_slot (link_state db i l) l) = ef_slot_to_offset db i"
    "payload (db_slot (link_state db i l) j) = payload (db_slot db j)"
    using p ne by (simp_all add: link_state_def Let_def)
qed

lemma dummy_present:
  assumes "queue_inv db ids d nodes"
  shows "ef_queue_dummy_offset env db = (Inr (ef_slot_to_offset db d), db)"
proof -
  note q = queue_invD[OF assms]
  have "ef_slot_at_offset db (ef_slot_to_offset db d) = Some d" by (rule slot_at_offset_roundtrip[OF q(4,13)])
  then show ?thesis using q slot_offset_neq_0[OF q(4,13)] by (simp add: ef_queue_dummy_offset_def)
qed

lemma enqueue_run:
  assumes dummy: "ef_queue_dummy_offset env db0 = (Inr h, db)"
    and inv: "queue_inv db ids d nodes" and i: "i < max_slots (sb db)" "i \<notin> set (d # nodes)"
  shows "ef_queue_enqueue_mpmc env db0 (ef_slot_to_offset db i) i = (EF_OK, link_state db i (last (d # nodes)))"
proof -
  note q = queue_invD[OF inv]
  define l where "l = last (d # nodes)"
  let ?a = "ef_slot_header_crc_store (ef_slot_status_store (ef_slot_next_offset_store db (db_slot_ptr db i) 0)
      (db_slot_ptr db i) EF_STATUS_QUEUED) i (db_slot_ptr db i)"
  have p: "64 \<le> db_slot_ptr db j" for j using q(4) wf_layout_base_ge slot_ptr_ge le_trans by blast
  have l: "l < max_slots (sb db)"
    using q(13) queue_inv_node(1)[OF inv, of l] last_in_set[of nodes] by (cases "nodes = []") (auto simp: l_def)
  have tail: "queue_tail (sb db) = ef_slot_to_offset db l" unfolding l_def by (rule q(10))
  have sba: "sb ?a = sb db" using p by simp
  have take: "ef_queue_lock_acquire ?a = (EF_OK, ?a\<lparr>mem := set_queue_lock (mem ?a) 1\<rparr>)"
    by (rule queue_lock_take) (simp_all add: sba q)
  have laya: "same_layout db (?a\<lparr>mem := set_queue_lock (mem ?a) 1\<rparr>)" using sba by (simp add: same_layout_def)
  have at: "ef_slot_at_offset db (ef_slot_to_offset db i) = Some i"
    "ef_slot_at_offset (?a\<lparr>mem := set_queue_lock (mem ?a) 1\<rparr>) (queue_tail (sb db)) = Some l"
    using slot_at_offset_roundtrip[OF q(4) i(1)] slot_at_offset_id[OF q(4) l laya tail] by simp_all
  have off: "ef_slot_to_offset (?a\<lparr>mem := set_queue_lock (mem ?a) 1\<rparr>) = ef_slot_to_offset db"
    by (rule same_layout_offset[OF laya])
  show ?thesis
    unfolding l_def[symmetric] using at q(6,7) take sba p tail
    by (simp add: ef_queue_enqueue_mpmc_def dummy link_state_def Let_def queue_lock_drop
        ef_txn_active_def)
qed

lemma enqueue_inv:
  assumes inv: "queue_inv db ids d nodes" and i: "i < max_slots (sb db)" "i \<notin> set (d # nodes)" "i \<notin> set ids"
    and u: "unindexed db i" and len: "unat (payload (db_slot db i) ! 0) \<le> 47"
    and room: "length ids + Suc (length nodes) + 1 < 2 ^ 32"
  shows "queue_inv (link_state db i (last (d # nodes))) ids d (nodes @ [i])"
proof -
  note q = queue_invD[OF inv]
  define l where "l = last (d # nodes)"
  have l_in: "l \<in> set (d # nodes)" unfolding l_def by (rule last_in_set) simp
  then have il: "i \<noteq> l" using i(2) by auto
  let ?db = "link_state db i l"
  note f = link_state_facts[OF q(4) il]
  note lay = touches_layout[OF f(1)]
  have off: "ef_slot_to_offset ?db = ef_slot_to_offset db" by (rule same_layout_offset[OF lay])
  have max: "max_slots (sb ?db) = max_slots (sb db)" using lay by (simp add: same_layout_def)
  have other: "db_slot ?db j = db_slot db j" if "j \<noteq> i" "j \<noteq> l" for j
    using that by (intro touches_slot[OF f(1)]) auto
  have st: "status (db_slot ?db j) = status (db_slot db j)" if "j \<noteq> i" for j
    using that f(5) other[of j] by (cases "j = l") auto
  have l_ids: "l \<notin> set ids"
    using l_in queue_inv_node(6)[OF inv, of l] queue_inv_dummy_free[OF inv] by auto
  have ids: "free_list_inv ?db ids"
    using q(2) i(3) l_ids by (subst free_list_inv_touches[OF f(1)]) (simp_all add: f(2))
  have xs: "d # nodes = butlast (d # nodes) @ [l]" unfolding l_def by simp
  then have l_out: "l \<notin> set (butlast (d # nodes))"
    using q(12) by (metis distinct_append disjoint_iff list.set_intros(1))
  have "linked ?db (butlast (d # nodes) @ [l, i])"
  proof (rule linked_append[OF _ lay l_out])
    show "linked db (butlast (d # nodes) @ [l])" using q(11) xs by simp
    show "next_offset (db_slot ?db j) = next_offset (db_slot db j)" if "j \<in> set (butlast (d # nodes))" for j
      using that l_out i(2) in_set_butlastD[OF that] by (subst other) auto
  qed (fact f(6), fact f(4))
  moreover have "butlast (d # nodes) @ [l, i] = d # (nodes @ [i])"
    using arg_cong[OF xs, of "\<lambda>xs. xs @ [i]"] by simp
  ultimately have link: "linked ?db (d # (nodes @ [i]))" by (simp only:)
  have "quiet ?db" using q(1) quiet_cong[OF f(1)] by (simp add: f(2))
  moreover have "unindexed ?db j = unindexed db j" for j by (rule unindexed_cong[OF f(1)])
  moreover have "status (db_slot ?db j) = EF_STATUS_QUEUED" if "j \<in> set nodes" for j
    using that i(2) st[of j] queue_inv_node(2)[OF inv that] by auto
  moreover have "status (db_slot ?db d) = EF_STATUS_QUEUE_DUMMY" using q(14) i(2) st[of d] by auto
  ultimately have "queue_inv ?db ids d (nodes @ [i])"
    using inv ids link f(2,3,7) i u len room by (auto simp: queue_inv_def off max)
  then show ?thesis by (simp only: l_def)
qed

lemma take_drop_item:
  assumes "length data = unat (len :: u8)" "unat len \<le> 47" "length pl = 48"
  shows "overwrite (overwrite pl 0 [len]) 1 data ! 0 = len"
    "take (unat len) (drop 1 (overwrite (overwrite pl 0 [len]) 1 data)) = data"
  using assms by (simp_all add: overwrite_def nth_append)

text \<open>What push does before linking: it allocates slot \<open>i\<close> and writes the length byte and the data.\<close>

lemma push_prefix:
  assumes qu: "quiet db" and free: "free_list_inv db (i # ids)" and data: "length data = unat len" "unat len \<le> 47"
  obtains b where
    "ef_queue_push env db (Some data) len =
       (case ef_queue_enqueue_mpmc env b (ef_slot_to_offset b i) i of
          (err, db) \<Rightarrow> (err, if err \<noteq> EF_OK then snd (ef_return_slot_to_pool env db i (db_slot_ptr b i)) else db))"
    "touches db b {i}" "quiet b" "free_list_inv b ids"
    "sb b = (sb db)\<lparr>free_list_head := next_offset (db_slot db i), free_count := free_count (sb db) - 1\<rparr>"
    "unat (payload (db_slot b i) ! 0) \<le> 47" "item b i = data"
proof -
  obtain r a where alloc: "ef_alloc_slot_ex db 0 = (r, a)" by fastforce
  note A = alloc_slot_ok[OF qu free alloc]
  have i: "i < max_slots (sb db)" "i \<notin> set ids" using free_list_inv_head(2,5)[OF free] by simp_all
  have va: "EF_SCHEMA_VERSION \<le> schema_version (sb a)" "mapped a" "wf_layout a"
    using A(3) quiet_wf[OF A(3)] by (simp_all add: quiet_def)
  have vd: "EF_SCHEMA_VERSION \<le> schema_version (sb db)" "mapped db" "\<not> readonly db"
    using qu quiet_wf[OF qu] by (simp_all add: quiet_def)
  have ia: "i < max_slots (sb a)" using i(1) A(5) by simp
  let ?p = "db_slot_ptr a i"
  define c1 where "c1 = a\<lparr>mem := store_bytes (mem a) (?p + (8 + 0)) [len]\<rparr>"
  define c2 where "c2 = c1\<lparr>mem := store_bytes (mem c1) (db_slot_ptr c1 i + (8 + 1)) data\<rparr>"
  define b where "b = ef_set_error c2 EF_OK"
  have one: "0 + length [len] \<le> 48" "1 + length data \<le> 48" using data by simp_all
  note s1 = payload_store[OF va(3) one(1), of i, folded c1_def]
  have wf1: "wf_layout c1" using va(3) same_layout_wf[OF touches_layout[OF s1(1)]] by simp
  note s2 = payload_store[OF wf1 one(2), of i, folded c2_def]
  have c2b: "touches c2 b {}" "sb b = sb c2" "\<And>j. db_slot b j = db_slot c2 j"
    by (simp_all add: b_def touches_def same_layout_def table_def)
  have "touches a c2 {i}" by (rule touches_trans[OF s1(1) s2(1)]) simp_all
  then have t: "touches a b {i}" by (rule touches_trans[OF _ c2b(1)]) simp_all
  have sbb: "sb b = sb a" using s1(2) s2(2) c2b(2) by simp
  have slot: "db_slot b i = (db_slot a i)\<lparr>payload := overwrite (overwrite (payload (db_slot a i)) 0 [len]) 1 data\<rparr>"
    unfolding c2b(3) s2(3) s1(3) by simp
  have len48: "length (payload (db_slot a i)) = 48" by simp
  note it = take_drop_item[OF data len48]
  have freeb: "free_list_inv b ids"
    using A(4) i(2) by (subst free_list_inv_touches[OF t]) (simp_all add: sbb)
  have "store_u8 m x w = store_bytes m x [w]" for m x w by (simp add: store_u8_def)
  moreover have "db_slot_ptr c1 i = ?p" by (simp add: c1_def)
  moreover have "len \<noteq> 0 \<or> data = []" using data(1) by (cases "len = 0") simp_all
  moreover have "store_bytes m x [] = m" for m x by (auto simp: store_bytes_def fun_eq_iff)
  ultimately have mb: "b = (if 0 < len
      then ef_set_error a EF_OK\<lparr>mem := store_bytes (store_u8 (mem a) (?p + 8) len) (?p + 8 + 1) data\<rparr>
      else ef_set_error a EF_OK\<lparr>mem := store_u8 (mem a) (?p + 8) len\<rparr>)"
    by (auto simp: b_def c2_def c1_def ef_set_error_def word_neq_0_conv numeral_eq_Suc)
  have ptr: "ef_slot_payload_ptr (ef_set_error a EF_OK) p = p + 8" for p
    using v5_payload(1)[OF va(1,2)] by (simp add: ef_slot_payload_ptr_def)
  have full: "take (unat len) data = data" using data(1) by simp
  have bp: "db_slot_ptr b i = ?p" using touches_layout[OF t] by (simp add: same_layout_def)
  have run: "ef_queue_push env db (Some data) len =
      (case ef_queue_enqueue_mpmc env b (ef_slot_to_offset b i) i of
         (err, db) \<Rightarrow> (err, if err \<noteq> EF_OK then snd (ef_return_slot_to_pool env db i (db_slot_ptr b i)) else db))"
    unfolding bp using alloc A(1) data(2) v5_payload[OF vd(1,2)] ia va(2) vd(3) unfolding mb
    by (cases "0 < len")
      (simp_all add: ef_queue_push_def ef_db_require_write_def vd(2) ef_alloc_ex_def peek_ok ptr full Let_def)
  have tb: "touches db b {i}" by (rule touches_trans[OF A(2) t]) simp_all
  have qb: "quiet b" using A(3) by (subst quiet_cong[OF t]) (simp_all add: sbb)
  have lb: "unat (payload (db_slot b i) ! 0) \<le> 47" using it(1) slot data(2) by simp
  have ib: "item b i = data" unfolding item_def slot using it by simp
  show thesis by (rule that[OF run tb qb freeb A(5)[folded sbb] lb ib])
qed

lemma push_ok:
  assumes inv: "queue_inv db (i # ids) d nodes" and data: "length data = unat len" "unat len \<le> 47"
  obtains db' where "ef_queue_push env db (Some data) len = (EF_OK, db')" "queue_inv db' ids d (nodes @ [i])"
    "map (item db') (nodes @ [i]) = map (item db) nodes @ [data]"
proof -
  note q = queue_invD[OF inv]
  obtain b where run: "ef_queue_push env db (Some data) len =
       (case ef_queue_enqueue_mpmc env b (ef_slot_to_offset b i) i of
          (err, db) \<Rightarrow> (err, if err \<noteq> EF_OK then snd (ef_return_slot_to_pool env db i (db_slot_ptr b i)) else db))"
    and t: "touches db b {i}" and freeb: "free_list_inv b ids"
    and sbb: "sb b = (sb db)\<lparr>free_list_head := next_offset (db_slot db i), free_count := free_count (sb db) - 1\<rparr>"
    and b: "unat (payload (db_slot b i) ! 0) \<le> 47" "item b i = data"
    by (rule push_prefix[OF q(1,2) data])
  have i: "i < max_slots (sb db)" "i \<notin> set ids" using free_list_inv_head(2,5)[OF q(2)] by simp_all
  have i_out: "i \<notin> set (d # nodes)" using queue_inv_dummy_free[OF inv] queue_inv_node(6)[OF inv, of i] by auto
  have room: "length ids + Suc (length nodes) + 1 < 2 ^ 32" using inv by (simp add: queue_inv_def)
  have invb: "queue_inv b ids d nodes"
    using i_out room freeb by (intro queue_inv_frame[OF inv t, where X = "{}"]) (auto simp: sbb)
  have iub: "unindexed b i" "i < max_slots (sb b)"
    using inv i(1) unindexed_cong[OF t] by (simp_all add: sbb queue_inv_def)
  let ?db' = "link_state b i (last (d # nodes))"
  have enq: "ef_queue_enqueue_mpmc env b (ef_slot_to_offset b i) i = (EF_OK, ?db')"
    by (rule enqueue_run[OF dummy_present[OF invb] invb iub(2) i_out])
  have inv': "queue_inv ?db' ids d (nodes @ [i])" by (rule enqueue_inv[OF invb iub(2) i_out i(2) iub(1) b(1) room])
  have il: "i \<noteq> last (d # nodes)" using i_out last_in_set[of "d # nodes"] by auto
  have pl: "payload (db_slot ?db' j) = payload (db_slot b j)" for j
    by (rule link_state_facts(7)[OF queue_invD(4)[OF invb] il])
  have "item ?db' j = item db j" if "j \<in> set nodes" for j
  proof -
    have "j \<notin> {i}" using that i_out by auto
    then have "db_slot b j = db_slot db j" using touches_slot[OF t] by metis
    then show ?thesis by (simp only: item_def pl)
  qed
  moreover have "item ?db' i = data" using b(2) by (simp only: item_def pl)
  ultimately show thesis using that[OF _ inv'] run unfolding enq by simp
qed

subsection \<open>Pop\<close>

text \<open>Unlinking the first node \<open>n\<close>, before it is returned to the pool: the queue lock is held.\<close>

definition unlink_state :: "ef_db \<Rightarrow> u64 \<Rightarrow> u64 \<Rightarrow> ef_db" where
  "unlink_state db d n =
     (let dp = db_slot_ptr db d; nxt = next_offset (db_slot db n);
          db1 = upd_mem (\<lambda>m. set_queue_lock m 1) db;
          db1 = ef_slot_next_offset_store db1 dp nxt;
          db1 = (if queue_tail (sb db) = ef_slot_to_offset db n
                 then upd_mem (\<lambda>m. set_queue_tail m (if nxt \<noteq> 0 then nxt else queue_head (sb db))) db1 else db1)
      in ef_slot_header_crc_store db1 d dp)"

lemma unlink_state_facts:
  assumes wf: "wf_layout db"
  shows "touches db (unlink_state db d n) {d}"
    "sb (unlink_state db d n) = (sb db)\<lparr>queue_lock := 1, queue_tail :=
       (if queue_tail (sb db) = ef_slot_to_offset db n
        then (if next_offset (db_slot db n) \<noteq> 0 then next_offset (db_slot db n) else queue_head (sb db))
        else queue_tail (sb db))\<rparr>"
    "status (db_slot (unlink_state db d n) d) = status (db_slot db d)"
    "next_offset (db_slot (unlink_state db d n) d) = next_offset (db_slot db n)"
proof -
  have p: "64 \<le> db_slot_ptr db j" for j using wf wf_layout_base_ge slot_ptr_ge le_trans by blast
  show sb: "sb (unlink_state db d n) = (sb db)\<lparr>queue_lock := 1, queue_tail :=
       (if queue_tail (sb db) = ef_slot_to_offset db n
        then (if next_offset (db_slot db n) \<noteq> 0 then next_offset (db_slot db n) else queue_head (sb db))
        else queue_tail (sb db))\<rparr>"
    using p by (simp add: unlink_state_def Let_def)
  have "table (unlink_state db d n) = table db"
    using table_end[OF wf, of d] by (simp add: table_def unlink_state_def Let_def)
  moreover have "db_slot (unlink_state db d n) j = db_slot db j" if "j \<notin> {d}" for j
  proof -
    have "unat d \<noteq> unat j" using that unat_inj_slot[of d j] by auto
    then show ?thesis using p by (simp add: unlink_state_def Let_def)
  qed
  ultimately show "touches db (unlink_state db d n) {d}"
    using sb by (simp add: touches_def same_layout_def) (simp add: unlink_state_def Let_def)
  show "status (db_slot (unlink_state db d n) d) = status (db_slot db d)"
    "next_offset (db_slot (unlink_state db d n) d) = next_offset (db_slot db n)"
    using p by (simp_all add: unlink_state_def Let_def)
qed

lemma pop_empty_queue:
  assumes inv: "queue_inv db ids d []"
  obtains db' where "ef_queue_pop env db (Some cap) = (EF_ERR_QUEUE_EMPTY, None, db')" "queue_inv db' ids d []"
    "mem db' = mem db"
proof -
  note q = queue_invD[OF inv]
  let ?l = "db\<lparr>mem := set_queue_lock (mem db) 1\<rparr>"
  have p: "64 \<le> db_slot_ptr db j" for j using q(4) wf_layout_base_ge slot_ptr_ge le_trans by blast
  have lay: "same_layout db ?l" by (simp add: same_layout_def)
  have at: "ef_slot_at_offset ?l (queue_head (sb db)) = Some d" by (rule slot_at_offset_id[OF q(4,13) lay q(9)])
  have undone: "set_queue_lock (set_queue_lock (mem db) 1) 0 = mem db"
  proof -
    have "load_u8 (mem db) 58 = 0" using q(3) by (simp add: sb_of_def)
    then show ?thesis by (simp add: set_queue_lock_def store_u8_upd load_u8_def fun_upd_idem)
  qed
  have "ef_queue_pop env db (Some cap) = (EF_ERR_QUEUE_EMPTY, None, ef_set_error db EF_ERR_QUEUE_EMPTY)"
    using q(8,5,6) at p q(11,14) queue_lock_take[OF q(6,3)] slot_offset_neq_0[OF q(4,13)]
    by (simp add: ef_queue_pop_def ef_db_require_write_def ef_queue_dequeue_mpmc_def q(9) Let_def
        ef_slot_next_offset_load_def queue_lock_drop undone)
  moreover have "queue_inv (ef_set_error db EF_ERR_QUEUE_EMPTY) ids d []"
  proof -
    have t: "touches db (ef_set_error db EF_ERR_QUEUE_EMPTY) {}" by (simp add: touches_def same_layout_def table_def)
    have "free_list_inv (ef_set_error db EF_ERR_QUEUE_EMPTY) ids"
      using q(2) by (subst free_list_inv_touches[OF t]) simp_all
    then show ?thesis using inv by (intro queue_inv_frame[OF inv t, where X = "{}"]) (auto simp: queue_inv_def)
  qed
  ultimately show thesis using that by simp
qed

lemma unlink_inv:
  assumes inv: "queue_inv db ids d (n # nodes)"
  defines "u \<equiv> unlink_state db d n"
  shows "quiet u" "free_list_inv u ids" "unindexed u n" "n < max_slots (sb u)"
    "linked u (d # nodes)" "queue_tail (sb u) = ef_slot_to_offset db (last (d # nodes))"
    "queue_head (sb u) = ef_slot_to_offset db d" "db_slot u n = db_slot db n"
proof -
  note q = queue_invD[OF inv]
  note f = unlink_state_facts[OF q(4), where d = d and n = n, folded u_def]
  note lay = touches_layout[OF f(1)]
  have n: "n \<noteq> d" "n < max_slots (sb db)" "unindexed db n"
    using queue_inv_node[OF inv, of n] by simp_all
  show "quiet u" using q(1) quiet_cong[OF f(1)] by (simp add: f(2))
  show "free_list_inv u ids"
    using q(2) queue_inv_dummy_free[OF inv] by (subst free_list_inv_touches[OF f(1)]) (simp_all add: f(2))
  show "unindexed u n" using n(3) unindexed_cong[OF f(1)] by simp
  show "n < max_slots (sb u)" using n(2) by (simp add: f(2))
  have lk: "next_offset (db_slot db n) = (if nodes = [] then 0 else ef_slot_to_offset db (hd nodes))" "linked db nodes"
    using linked_tl[OF q(11)] by simp_all
  have "db_slot u j = db_slot db j" if "j \<in> set nodes" for j
    using that q(12) by (intro touches_slot[OF f(1)]) auto
  then have "linked u nodes" using lk(2) linked_cong[OF lay, of nodes] by simp
  then show "linked u (d # nodes)"
    by (rule linked_Cons) (simp add: f(4) lk(1) same_layout_offset[OF lay])
  show "queue_head (sb u) = ef_slot_to_offset db d" using q(9) by (simp add: f(2))
  show "db_slot u n = db_slot db n" using n(1) by (intro touches_slot[OF f(1)]) simp
  have tail: "queue_tail (sb db) = ef_slot_to_offset db (last (n # nodes))" using q(10) by simp
  show "queue_tail (sb u) = ef_slot_to_offset db (last (d # nodes))"
  proof (cases "nodes = []")
    case True
    then show ?thesis using tail q(9) lk(1) by (simp add: f(2))
  next
    case False
    then have l: "last nodes \<in> set nodes" by simp
    then have "last nodes \<noteq> n" "last nodes < max_slots (sb db)"
      using q(12) queue_inv_node(1)[OF inv, of "last nodes"] by auto
    then have "ef_slot_to_offset db (last nodes) \<noteq> ef_slot_to_offset db n"
      using slot_to_offset_inj[OF q(4) _ n(2)] by blast
    then show ?thesis using tail False by (simp add: f(2))
  qed
qed

lemma dequeue_run:
  assumes inv: "queue_inv db ids d (n # nodes)" and cap: "48 \<le> cap"
    and ret: "ef_return_slot_to_pool env (unlink_state db d n) n (db_slot_ptr (unlink_state db d n) n) = (err, r)"
  shows "ef_queue_pop env db (Some cap) =
    (err, Some (item db n), ef_set_error (ef_db_mark_meta_dirty (ef_queue_lock_release r)) err)"
proof -
  note q = queue_invD[OF inv]
  let ?l = "db\<lparr>mem := set_queue_lock (mem db) 1\<rparr>"
  have p: "64 \<le> db_slot_ptr db j" for j using q(4) wf_layout_base_ge slot_ptr_ge le_trans by blast
  have lay: "same_layout db ?l" by (simp add: same_layout_def)
  have n: "n < max_slots (sb db)" "status (db_slot db n) = EF_STATUS_QUEUED" "unat (payload (db_slot db n) ! 0) \<le> 47"
    "n \<noteq> d"
    using queue_inv_node[OF inv, of n] by simp_all
  have nxt: "next_offset (db_slot db d) = ef_slot_to_offset db n" using linked_tl[OF q(11)] by simp
  have at: "ef_slot_at_offset ?l (queue_head (sb db)) = Some d"
    "ef_slot_at_offset ?l (ef_slot_to_offset db n) = Some n"
    by (rule slot_at_offset_id[OF q(4,13) lay q(9)], rule slot_at_offset_id[OF q(4) n(1) lay refl])
  have slots: "slot_at (set_queue_lock (mem db) 1) (db_slot_ptr db j) = db_slot db j" for j using p by simp
  have pp: "ef_slot_payload_ptr ?l x = x + 8" for x using v5_payload[of ?l] q(5,6) by simp
  have len: "load_u8 (set_queue_lock (mem db) 1) (db_slot_ptr db n + 8) = payload (db_slot db n) ! 0"
    unfolding payload_read(1) slots ..
  have bytes: "load_bytes (set_queue_lock (mem db) 1) (9 + db_slot_ptr db n) (unat (payload (db_slot db n) ! 0)) = item db n"
    using payload_read(2)[OF n(3), of "set_queue_lock (mem db) 1" "db_slot_ptr db n"] unfolding slots item_def by (simp add: ac_simps)
  have off0: "ef_slot_to_offset db d \<noteq> 0" "ef_slot_to_offset db n \<noteq> 0"
    using slot_offset_neq_0[OF q(4,13)] slot_offset_neq_0[OF q(4) n(1)] by simp_all
  have u: "unlink_state db d n = ef_slot_header_crc_store
      (if queue_tail (sb db) = ef_slot_to_offset db n
       then upd_mem (\<lambda>m. set_queue_tail m (if next_offset (db_slot db n) \<noteq> 0 then next_offset (db_slot db n)
              else queue_head (sb db))) (ef_slot_next_offset_store ?l (db_slot_ptr db d) (next_offset (db_slot db n)))
       else ef_slot_next_offset_store ?l (db_slot_ptr db d) (next_offset (db_slot db n))) d (db_slot_ptr db d)"
    by (simp add: unlink_state_def Let_def)
  have ret': "ef_return_slot_to_pool env (unlink_state db d n) n (db_slot_ptr db n) = (err, r)"
    using ret touches_layout[OF unlink_state_facts(1)[OF q(4)], of d n] by (simp add: same_layout_def)
  have room: "\<not> cap < unat (payload (db_slot db n) ! 0) + 1" using n(3) cap by simp
  show ?thesis
    using q(8,5,7) at p n(2) q(14) nxt queue_lock_take[OF q(6,3)] off0 ret' room
    by (cases "queue_tail (sb db) = ef_slot_to_offset db n"; cases "next_offset (db_slot db n) = 0")
      (simp_all add: ef_queue_pop_def ef_db_require_write_def ef_queue_dequeue_mpmc_def Let_def
        ef_slot_next_offset_load_def slots pp len bytes ef_txn_active_def q(9) u)
qed

lemma pop_ok:
  assumes inv: "queue_inv db ids d (n # nodes)" and cap: "48 \<le> cap"
  obtains db' where "ef_queue_pop env db (Some cap) = (EF_OK, Some (item db n), db')"
    "queue_inv db' (n # ids) d nodes" "map (item db') nodes = map (item db) nodes"
proof -
  note q = queue_invD[OF inv]
  define u where "u = unlink_state db d n"
  note U = unlink_inv[OF inv, folded u_def]
  note f = unlink_state_facts[OF q(4), where d = d and n = n, folded u_def]
  have n_ids: "n \<notin> set ids" using queue_inv_node(6)[OF inv, of n] by simp
  have room: "Suc (length ids) < 2 ^ 32" using inv by (simp add: queue_inv_def)
  obtain err r where ret: "ef_return_slot_to_pool env u n (db_slot_ptr u n) = (err, r)" by fastforce
  note R = return_ok[OF U(1,2,4) n_ids U(3) room ret]
  define e where "e = ef_set_error (ef_db_mark_meta_dirty (ef_queue_lock_release r)) err"
  have run: "ef_queue_pop env db (Some cap) = (EF_OK, Some (item db n), e)"
    using dequeue_run[OF inv cap ret[unfolded u_def]] R(1) by (simp add: e_def)
  have vr: "EF_SCHEMA_VERSION \<le> schema_version (sb r)" using R(3) by (simp add: quiet_def)
  have wfr: "wf_layout r" by (rule quiet_wf[OF R(3)])
  have pr: "64 \<le> db_slot_ptr r j" for j using wfr wf_layout_base_ge slot_ptr_ge le_trans by blast
  have te: "touches r e {}"
    using pr by (simp add: e_def queue_lock_drop[OF vr] touches_def same_layout_def table_def)
  have sbe: "sb e = (sb r)\<lparr>queue_lock := 0\<rparr>" by (simp add: e_def queue_lock_drop[OF vr])
  have "touches db r {d, n}" by (rule touches_trans[OF f(1) R(2)]) auto
  then have t: "touches db e {d, n}" by (rule touches_trans[OF _ te]) auto
  have tue: "touches u e {n}" by (rule touches_trans[OF R(2) te]) auto
  note lay = touches_layout[OF t]
  have off: "ef_slot_to_offset e = ef_slot_to_offset db" by (rule same_layout_offset[OF lay])
  have max: "max_slots (sb e) = max_slots (sb db)" using lay by (simp add: same_layout_def)
  have maxr: "max_slots (sb r) = max_slots (sb db)" using max by (simp add: sbe)
  have nn: "n \<notin> set nodes" "n \<noteq> d" "d \<notin> set nodes" using q(12) by auto
  have slot: "db_slot e j = db_slot db j" if "j \<in> set nodes" for j
    using that nn by (intro touches_slot[OF t]) auto
  have sd: "db_slot e d = db_slot u d" using nn by (intro touches_slot[OF tue]) simp
  have free: "free_list_inv e (n # ids)"
    using R(4) by (subst free_list_inv_touches[OF te]) (simp_all add: sbe)
  have "quiet e" using R(3) by (subst quiet_cong[OF te]) (simp_all add: sbe)
  moreover have "linked e (d # nodes)"
  proof -
    have "next_offset (db_slot e j) = next_offset (db_slot u j)" if "j \<in> set (d # nodes)" for j
    proof -
      have "j \<notin> {n}" using that nn by auto
      then show ?thesis using touches_slot[OF tue] by metis
    qed
    then show ?thesis using U(5) linked_cong[OF touches_layout[OF tue]] by blast
  qed
  moreover have "queue_head (sb e) = ef_slot_to_offset db d" "queue_tail (sb e) = ef_slot_to_offset db (last (d # nodes))"
    using U(6,7) by (simp_all add: sbe R(5))
  moreover have "status (db_slot e d) = EF_STATUS_QUEUE_DUMMY" using sd f(3) q(14) by simp
  moreover have "unindexed e j = unindexed db j" for j by (rule unindexed_cong[OF t])
  ultimately have "queue_inv e (n # ids) d nodes"
    using inv free by (auto simp: queue_inv_def off maxr sbe slot)
  moreover have "map (item e) nodes = map (item db) nodes" by (simp add: item_def slot)
  ultimately show thesis using that run by blast
qed

subsection \<open>First use\<close>

text \<open>Before the first push the queue has no dummy; the head is 0.\<close>

definition queue_unused :: "ef_db \<Rightarrow> u64 list \<Rightarrow> bool" where
  "queue_unused db ids \<longleftrightarrow>
     quiet db \<and> free_list_inv db ids \<and> queue_lock (sb db) = 0 \<and> queue_head (sb db) = 0 \<and>
     (\<forall>i \<in> set ids. unindexed db i) \<and> length ids + 1 < 2 ^ 32"

definition dummy_state :: "ef_db \<Rightarrow> u64 \<Rightarrow> ef_db" where
  "dummy_state db d =
     (let p = db_slot_ptr db d; off = ef_slot_to_offset db d;
          db = ef_slot_next_offset_store (ef_slot_status_store db p EF_STATUS_QUEUE_DUMMY) p 0;
          db = ef_slot_header_crc_store (clear_payload_at db p) d p
      in ef_db_mark_meta_dirty (upd_mem (\<lambda>m. set_queue_tail (set_queue_head m off) off) db))"

lemma dummy_state_facts:
  assumes wf: "wf_layout db"
  shows "touches db (dummy_state db d) {d}"
    "sb (dummy_state db d) = (sb db)\<lparr>queue_head := ef_slot_to_offset db d, queue_tail := ef_slot_to_offset db d\<rparr>"
    "status (db_slot (dummy_state db d) d) = EF_STATUS_QUEUE_DUMMY" "next_offset (db_slot (dummy_state db d) d) = 0"
proof -
  have p: "64 \<le> db_slot_ptr db j" for j using wf wf_layout_base_ge slot_ptr_ge le_trans by blast
  show sb: "sb (dummy_state db d) = (sb db)\<lparr>queue_head := ef_slot_to_offset db d, queue_tail := ef_slot_to_offset db d\<rparr>"
    using p by (simp add: dummy_state_def Let_def)
  have "table (dummy_state db d) = table db"
    using table_end[OF wf, of d] by (simp add: table_def dummy_state_def Let_def)
  moreover have "db_slot (dummy_state db d) j = db_slot db j" if "j \<notin> {d}" for j
  proof -
    have "unat d \<noteq> unat j" using that unat_inj_slot[of d j] by auto
    then show ?thesis using p by (simp add: dummy_state_def Let_def)
  qed
  ultimately show "touches db (dummy_state db d) {d}"
    using sb by (simp add: touches_def same_layout_def) (simp add: dummy_state_def Let_def)
  show "status (db_slot (dummy_state db d) d) = EF_STATUS_QUEUE_DUMMY" "next_offset (db_slot (dummy_state db d) d) = 0"
    using p by (simp_all add: dummy_state_def Let_def)
qed

lemma dummy_created:
  assumes qu: "queue_unused db (d # ids)"
  obtains db' where "ef_queue_dummy_offset env db = (Inr (ef_slot_to_offset db d), db')"
    "queue_inv db' ids d []" "touches db db' {d}"
proof -
  have q: "quiet db" "free_list_inv db (d # ids)" using qu by (simp_all add: queue_unused_def)
  obtain r a where alloc: "ef_alloc_slot_ex db EF_ALLOC_ZERO_PAYLOAD = (r, a)" by fastforce
  note A = alloc_slot_ok[OF q alloc]
  have wfa: "wf_layout a" by (rule quiet_wf[OF A(3)])
  have d: "d < max_slots (sb db)" "d \<notin> set ids" using free_list_inv_head(2,5)[OF q(2)] by simp_all
  have da: "d < max_slots (sb a)" using d(1) A(5) by simp
  let ?a = "ef_set_error a EF_OK"
  have ta: "touches a ?a {}" by (simp add: touches_def same_layout_def table_def)
  have wfa': "wf_layout ?a" using wfa same_layout_wf[OF touches_layout[OF ta]] by simp
  note f = dummy_state_facts[OF wfa', of d]
  let ?db' = "dummy_state ?a d"
  have "queue_head (sb db) = 0" using qu by (simp add: queue_unused_def)
  then have head0: "queue_head (sb a) = 0" using A(5) by simp
  have taa: "touches db ?a {d}" by (rule touches_trans[OF A(2) ta]) simp_all
  have t: "touches db ?db' {d}" by (rule touches_trans[OF taa f(1)]) simp_all
  note lay = touches_layout[OF t]
  have offa: "ef_slot_to_offset ?a = ef_slot_to_offset db" by (rule same_layout_offset[OF touches_layout[OF taa]])
  have off: "ef_slot_to_offset ?db' = ef_slot_to_offset db" by (rule same_layout_offset[OF lay])
  have p: "64 \<le> db_slot_ptr a d" using wfa wf_layout_base_ge slot_ptr_ge le_trans by blast
  have run: "ef_queue_dummy_offset env db = (Inr (ef_slot_to_offset db d), ?db')"
    using alloc A(1) \<open>queue_head (sb db) = 0\<close> peek_ok[OF wf_layout_mapped[OF wfa] da] head0 p
    by (simp add: ef_queue_dummy_offset_def ef_alloc_slot_def dummy_state_def Let_def offa)
  have free: "free_list_inv ?db' ids"
  proof -
    have "touches a ?db' {d}" by (rule touches_trans[OF ta f(1)]) simp_all
    from free_list_inv_touches[OF this, of ids] show ?thesis using A(4) d(2) by (simp add: f(2))
  qed
  have "quiet ?db'"
  proof -
    have "touches a ?db' {d}" by (rule touches_trans[OF ta f(1)]) simp_all
    from quiet_cong[OF this] show ?thesis using A(3) by (simp add: f(2))
  qed
  moreover have "unindexed ?db' j = unindexed db j" for j by (rule unindexed_cong[OF t])
  ultimately have "queue_inv ?db' ids d []"
    using qu free d(1) f A(5) by (auto simp: queue_inv_def queue_unused_def off offa)
  then show thesis using that run t by blast
qed

lemma push_first:
  assumes qu: "queue_unused db (i # d # ids)" and data: "length data = unat len" "unat len \<le> 47"
  obtains db' where "ef_queue_push env db (Some data) len = (EF_OK, db')" "queue_inv db' ids d [i]"
    "item db' i = data"
proof -
  have q: "quiet db" "free_list_inv db (i # d # ids)" using qu by (simp_all add: queue_unused_def)
  obtain b where run: "ef_queue_push env db (Some data) len =
       (case ef_queue_enqueue_mpmc env b (ef_slot_to_offset b i) i of
          (err, db) \<Rightarrow> (err, if err \<noteq> EF_OK then snd (ef_return_slot_to_pool env db i (db_slot_ptr b i)) else db))"
    and t: "touches db b {i}" and qb: "quiet b" and freeb: "free_list_inv b (d # ids)"
    and sbb: "sb b = (sb db)\<lparr>free_list_head := next_offset (db_slot db i), free_count := free_count (sb db) - 1\<rparr>"
    and b: "unat (payload (db_slot b i) ! 0) \<le> 47" "item b i = data"
    by (rule push_prefix[OF q data])
  have ub: "unindexed b j = unindexed db j" for j by (rule unindexed_cong[OF t])
  have "queue_unused b (d # ids)" using qu qb freeb by (simp add: queue_unused_def ub sbb)
  then obtain c where c: "ef_queue_dummy_offset env b = (Inr (ef_slot_to_offset b d), c)" "queue_inv c ids d []"
    "touches b c {d}" by (rule dummy_created)
  have i: "i < max_slots (sb db)" "i \<notin> set ids" "i \<noteq> d"
    using free_list_inv_head(2,5)[OF q(2)] by simp_all
  have slot: "db_slot c i = db_slot b i" using i(3) by (intro touches_slot[OF c(3)]) simp
  have off: "ef_slot_to_offset c = ef_slot_to_offset b" by (rule same_layout_offset[OF touches_layout[OF c(3)]])
  have "max_slots (sb c) = max_slots (sb b)" using touches_layout[OF c(3)] by (simp add: same_layout_def)
  then have ic: "i < max_slots (sb c)" using i(1) by (simp add: sbb)
  have uc: "unindexed c i" using qu unindexed_cong[OF c(3)] ub by (simp add: queue_unused_def)
  have out: "i \<notin> set (d # [])" using i(3) by simp
  let ?db' = "link_state c i d"
  have enq: "ef_queue_enqueue_mpmc env b (ef_slot_to_offset b i) i = (EF_OK, ?db')"
    using enqueue_run[OF c(1,2) ic out] by (simp add: off)
  have room: "length ids + Suc (length []) + 1 < 2 ^ 32" using qu by (simp add: queue_unused_def)
  have inv': "queue_inv ?db' ids d ([] @ [i])"
    using enqueue_inv[OF c(2) ic out i(2) uc _ room] b(1) by (simp add: slot)
  have "payload (db_slot ?db' i) = payload (db_slot b i)"
    using link_state_facts(7)[OF queue_invD(4)[OF c(2)] i(3), of i] slot by simp
  then have "item ?db' i = data" using b(2) by (simp only: item_def)
  then show thesis using that inv' run unfolding enq by simp
qed

end
