(* ===== verification/Queue_Props.thy ===== *)
theory Queue_Props
  imports Queue_Fifo
begin

text \<open>
  The queue as an abstract bounded FIFO: \<open>fifo\<close> is the contract, interpreted on the push and pop
  of the library. The refinement relation \<open>fifo_holds db q n\<close> says that the database holds the
  queue \<open>q\<close> and has room for \<open>n\<close> more pushes.
\<close>

definition fifo_holds :: "ef_db \<Rightarrow> u8 list list \<Rightarrow> nat \<Rightarrow> bool" where
  "fifo_holds db q n \<longleftrightarrow>
     (\<exists>ids d nodes. queue_inv db ids d nodes \<and> q = map (item db) nodes \<and> n = length ids) \<or>
     (\<exists>ids. queue_unused db ids \<and> q = [] \<and> length ids = Suc n)"

fun push_all :: "('s \<Rightarrow> u8 list \<Rightarrow> ef_err \<times> 's) \<Rightarrow> 's \<Rightarrow> u8 list list \<Rightarrow> 's" where
  "push_all push s [] = s"
| "push_all push s (x # xs) = push_all push (snd (push s x)) xs"

fun pop_all :: "('s \<Rightarrow> ef_err \<times> u8 list option \<times> 's) \<Rightarrow> 's \<Rightarrow> nat \<Rightarrow> u8 list option list" where
  "pop_all pop s 0 = []"
| "pop_all pop s (Suc n) = (case pop s of (err, x, s') \<Rightarrow> x # pop_all pop s' n)"

locale fifo =
  fixes holds :: "'s \<Rightarrow> u8 list list \<Rightarrow> nat \<Rightarrow> bool"
    and push :: "'s \<Rightarrow> u8 list \<Rightarrow> ef_err \<times> 's"
    and pop :: "'s \<Rightarrow> ef_err \<times> u8 list option \<times> 's"
    and limit :: nat
  assumes push_law: "holds s q (Suc n) \<Longrightarrow> length x \<le> limit \<Longrightarrow> \<exists>s'. push s x = (EF_OK, s') \<and> holds s' (q @ [x]) n"
    and pop_law: "holds s (x # q) n \<Longrightarrow> \<exists>s'. pop s = (EF_OK, Some x, s') \<and> holds s' q (Suc n)"
    and empty_law: "holds s [] n \<Longrightarrow> \<exists>s'. pop s = (EF_ERR_QUEUE_EMPTY, None, s') \<and> holds s' [] n"
begin

lemma push_all_holds:
  "holds s q (length xs + n) \<Longrightarrow> \<forall>x \<in> set xs. length x \<le> limit \<Longrightarrow> holds (push_all push s xs) (q @ xs) n"
proof (induction xs arbitrary: s q)
  case Nil
  then show ?case by simp
next
  case (Cons x xs)
  from Cons.prems have "holds s q (Suc (length xs + n))" "length x \<le> limit" by simp_all
  from push_law[OF this] obtain s' where "push s x = (EF_OK, s')" "holds s' (q @ [x]) (length xs + n)" by blast
  then show ?case using Cons.IH[of s' "q @ [x]"] Cons.prems(2) by simp
qed

lemma pop_all_holds: "holds s (xs @ q) n \<Longrightarrow> pop_all pop s (length xs) = map Some xs"
proof (induction xs arbitrary: s n)
  case Nil
  then show ?case by simp
next
  case (Cons x xs)
  from Cons.prems pop_law obtain s' where "pop s = (EF_OK, Some x, s')" "holds s' (xs @ q) (Suc n)" by fastforce
  then show ?case using Cons.IH by simp
qed

text \<open>Everything that is pushed comes out, in the order it went in, after what was there before.\<close>

lemma fifo_order:
  assumes "holds s q (length xs + n)" "\<forall>x \<in> set xs. length x \<le> limit"
  shows "pop_all pop (push_all push s xs) (length q + length xs) = map Some (q @ xs)"
  using pop_all_holds[of "push_all push s xs" "q @ xs" "[]"] push_all_holds[OF assms] by simp

end

abbreviation push_bytes :: "ef_env \<Rightarrow> ef_db \<Rightarrow> u8 list \<Rightarrow> ef_err \<times> ef_db" where
  "push_bytes env db x \<equiv> ef_queue_push env db (Some x) (of_nat (length x))"

lemma push_refines:
  assumes "fifo_holds db q (Suc n)" "length x \<le> 47"
  shows "\<exists>db'. push_bytes env db x = (EF_OK, db') \<and> fifo_holds db' (q @ [x]) n"
proof -
  have len: "length x = unat (of_nat (length x) :: u8)" "unat (of_nat (length x) :: u8) \<le> 47"
    using assms(2) by (simp_all add: unsigned_of_nat take_bit_nat_eq_self)
  from assms(1) consider
      (used) ids d nodes where "queue_inv db ids d nodes" "q = map (item db) nodes" "length ids = Suc n"
    | (unused) ids where "queue_unused db ids" "q = []" "length ids = Suc (Suc n)"
    by (auto simp: fifo_holds_def)
  then show ?thesis
  proof cases
    case used
    then obtain i ids' where ids: "ids = i # ids'" by (cases ids) auto
    from push_ok[OF used(1)[unfolded ids] len] obtain db' where
      "push_bytes env db x = (EF_OK, db')" "queue_inv db' ids' d (nodes @ [i])"
      "map (item db') (nodes @ [i]) = map (item db) nodes @ [x]" .
    then show ?thesis using used(2,3) ids unfolding fifo_holds_def by (metis Suc_inject length_Cons)
  next
    case unused
    then obtain i d ids' where ids: "ids = i # d # ids'" by (cases ids; cases "tl ids") auto
    from push_first[OF unused(1)[unfolded ids] len] obtain db' where
      "push_bytes env db x = (EF_OK, db')" "queue_inv db' ids' d [i]" "item db' i = x" .
    moreover have "n = length ids'" using unused(3) ids by simp
    moreover have "q @ [x] = map (item db') [i]" using calculation(3) unused(2) by simp
    ultimately show ?thesis unfolding fifo_holds_def by blast
  qed
qed

lemma pop_refines:
  assumes "fifo_holds db (x # q) n" "48 \<le> cap"
  shows "\<exists>db'. ef_queue_pop env db (Some cap) = (EF_OK, Some x, db') \<and> fifo_holds db' q (Suc n)"
proof -
  from assms(1) obtain ids d k nodes where inv: "queue_inv db ids d (k # nodes)" "x = item db k"
    "q = map (item db) nodes" "n = length ids"
    unfolding fifo_holds_def by (auto simp: Cons_eq_map_conv)
  from pop_ok[OF inv(1) assms(2)] obtain db' where
    "ef_queue_pop env db (Some cap) = (EF_OK, Some (item db k), db')"
    "queue_inv db' (k # ids) d nodes" "map (item db') nodes = map (item db) nodes" .
  then show ?thesis using inv(2-4) unfolding fifo_holds_def by (metis length_Cons)
qed

lemma queue_unused_frame: "queue_unused db ids \<Longrightarrow> queue_unused (ef_set_error db e) ids"
proof -
  assume q: "queue_unused db ids"
  have t: "touches db (ef_set_error db e) {}" by (simp add: touches_def same_layout_def table_def)
  show ?thesis
    using q unindexed_cong[OF t] quiet_cong[OF t] free_list_inv_touches[OF t, of ids]
    by (simp add: queue_unused_def)
qed

lemma pop_empty_refines:
  assumes "fifo_holds db [] n"
  shows "\<exists>db'. ef_queue_pop env db (Some cap) = (EF_ERR_QUEUE_EMPTY, None, db') \<and> fifo_holds db' [] n"
proof -
  from assms consider (used) ids d where "queue_inv db ids d []" "n = length ids"
    | (unused) ids where "queue_unused db ids" "length ids = Suc n"
    by (auto simp: fifo_holds_def)
  then show ?thesis
  proof cases
    case used
    from pop_empty_queue[OF used(1)] obtain db' where
      "ef_queue_pop env db (Some cap) = (EF_ERR_QUEUE_EMPTY, None, db')" "queue_inv db' ids d []" .
    then show ?thesis using used(2) unfolding fifo_holds_def by (metis list.simps(8))
  next
    case unused
    then have "\<not> readonly db" "mapped db" "queue_head (sb db) = 0"
      by (auto simp: queue_unused_def quiet_def)
    then have "ef_queue_pop env db (Some cap) = (EF_ERR_QUEUE_EMPTY, None, ef_set_error db EF_ERR_QUEUE_EMPTY)"
      by (simp add: ef_queue_pop_def ef_db_require_write_def ef_queue_dequeue_mpmc_def)
    then show ?thesis using queue_unused_frame[OF unused(1)] unused(2) unfolding fifo_holds_def by blast
  qed
qed

interpretation ef_fifo: fifo fifo_holds "push_bytes env" "\<lambda>db. ef_queue_pop env db (Some 48)" 47 for env
  by unfold_locales (use push_refines pop_refines pop_empty_refines in auto)

subsection \<open>Properties\<close>

text \<open>A database with three free slots and an unused queue.\<close>

definition sample_queue :: ef_db where
  "sample_queue = sample_db\<lparr>mem := set_free_count (set_free_list_head (set_next_offset (set_next_offset sample_mem
     (slot_ptr 320 0) 384) (slot_ptr 320 1) 448) 320) 3\<rparr>"

lemma sb_sample_queue: "sb sample_queue = (sb sample_db)\<lparr>free_list_head := 320, free_count := 3\<rparr>"
proof -
  have "64 \<le> slot_ptr 320 k" for k using slot_ptr_ge[of 320 k] by linarith
  then show ?thesis by (simp add: sample_queue_def)
qed

lemma sample_queue_touches: "touches sample_db sample_queue {0, 1}"
proof -
  have p: "64 \<le> slot_ptr 320 k" for k using slot_ptr_ge[of 320 k] by linarith
  have "table sample_queue = table sample_db"
    by (simp add: table_def sample_queue_def)
  moreover have "db_slot sample_queue j = db_slot sample_db j" if "j \<notin> {0, 1}" for j
  proof -
    have "unat j \<noteq> 0" "unat j \<noteq> 1" using that unat_inj_slot[of j 0] unat_inj_slot[of j 1] by auto
    then show ?thesis using p by (simp add: sample_queue_def)
  qed
  ultimately show ?thesis
    using p by (simp add: touches_def same_layout_def) (simp add: sample_queue_def)
qed

lemma sample_queue_free: "free_list_inv sample_queue [0, 1, 2]"
proof -
  have p: "64 \<le> slot_ptr 320 k" for k using slot_ptr_ge[of 320 k] by linarith
  have "ef_slot_to_offset sample_queue = ef_slot_to_offset sample_db"
    by (rule same_layout_offset[OF touches_layout[OF sample_queue_touches]])
  then have off: "ef_slot_to_offset sample_queue 0 = 320" "ef_slot_to_offset sample_queue 1 = 384"
    "ef_slot_to_offset sample_queue 2 = 448"
    by (simp_all add: ef_slot_to_offset_def push_bit_eq_mult word_le_nat_alt)
  have slots: "db_slot sample_queue 0 = \<lparr>status = 0, header_crc = 0, payload = replicate 48 0, next_offset = 384\<rparr>"
    "db_slot sample_queue 1 = \<lparr>status = 0, header_crc = 0, payload = replicate 48 0, next_offset = 448\<rparr>"
    "db_slot sample_queue 2 = \<lparr>status = 0, header_crc = 0, payload = replicate 48 0, next_offset = 0\<rparr>"
    using p by (simp_all add: sample_queue_def)
  have wf: "wf_layout sample_queue" using same_layout_wf[OF touches_layout[OF sample_queue_touches]] by simp
  show ?thesis
    using wf slots by (simp add: free_list_inv_def sb_sample_queue off EF_STATUS_FREE_def)
qed

lemma sample_queue_unused: "queue_unused sample_queue [0, 1, 2]"
proof -
  have "ef_index_pick_shrink_capacity 0 16 = 0" by code_simp
  then have "quiet sample_db" by (simp add: quiet_def EF_SCHEMA_VERSION_def)
  then have "quiet sample_queue" using quiet_cong[OF sample_queue_touches] by (simp add: sb_sample_queue)
  moreover have "unindexed sample_queue i" if "i < 3" for i
  proof -
    have "i < max_slots (sb sample_db)" using that by (simp add: order.strict_trans[of i 3 4])
    then have "ef_slot_to_offset sample_db i \<noteq> 0" by (rule slot_offset_neq_0[OF sample_wf])
    then have "unindexed sample_db i" by (auto simp: unindexed_def table_def in_set_conv_nth)
    then show ?thesis using unindexed_cong[OF sample_queue_touches] by simp
  qed
  ultimately show ?thesis
    using sample_queue_free by (simp add: queue_unused_def sb_sample_queue)
qed

lemma sample_queue_holds: "fifo_holds sample_queue [] 2"
  using sample_queue_unused unfolding fifo_holds_def
  by (intro disjI2 exI[of _ "[0, 1, 2]"]) simp

text \<open>
  Pushing a byte string of at most 47 bytes onto a queue with room appends it at the end: the
  push returns \<^verbatim>\<open>EF_OK\<close> and the abstract queue grows by that item, the remaining room shrinks by one.
\<close>

lemma queue_push_refines_append:
  assumes "fifo_holds db q (Suc n)" "length x \<le> 47"
  shows "\<exists>db'. ef_queue_push env db (Some x) (of_nat (length x)) = (EF_OK, db') \<and> fifo_holds db' (q @ [x]) n"
  by (rule ef_fifo.push_law[OF assms])

lemma queue_push_refines_append_witness:
  "\<forall>env. \<exists>db'. ef_queue_push env sample_queue (Some [7, 8, 9]) 3 = (EF_OK, db') \<and> fifo_holds db' [[7, 8, 9]] 1"
  using queue_push_refines_append[of sample_queue "[]" 1 "[7, 8, 9]"] sample_queue_holds
  by (simp add: numeral_2_eq_2)

text \<open>
  Popping a non-empty queue returns its first item and leaves the rest, giving the slot back;
  popping an empty queue, used before or not, returns \<^verbatim>\<open>EF_ERR_QUEUE_EMPTY\<close> and leaves it empty.
\<close>

lemma queue_pop_refines_head:
  assumes "fifo_holds db q n" "48 \<le> cap"
  shows "case q of
      [] \<Rightarrow> \<exists>db'. ef_queue_pop env db (Some cap) = (EF_ERR_QUEUE_EMPTY, None, db') \<and> fifo_holds db' [] n
    | x # q' \<Rightarrow> \<exists>db'. ef_queue_pop env db (Some cap) = (EF_OK, Some x, db') \<and> fifo_holds db' q' (Suc n)"
  using assms pop_refines[of db _ _ n cap env] pop_empty_refines[of db n env cap] by (cases q) auto

lemma queue_pop_refines_head_witness:
  "\<forall>env. \<exists>db'. ef_queue_pop env sample_queue (Some 48) = (EF_ERR_QUEUE_EMPTY, None, db') \<and> fifo_holds db' [] 2"
  using queue_pop_refines_head[OF sample_queue_holds, of 48] by simp

text \<open>
  C3: items come out in the order in which they were pushed: after pushing \<open>xs\<close> onto a queue that
  holds \<open>q\<close> and has room for them, that many pops return \<open>q\<close> followed by \<open>xs\<close>.
\<close>

theorem queue_is_fifo:
  assumes "fifo_holds db q (length xs + n)" "\<forall>x \<in> set xs. length x \<le> 47"
  shows "pop_all (\<lambda>db. ef_queue_pop env db (Some 48))
           (push_all (\<lambda>db x. ef_queue_push env db (Some x) (of_nat (length x))) db xs) (length q + length xs) =
         map Some (q @ xs)"
  by (rule ef_fifo.fifo_order[OF assms])

theorem queue_is_fifo_witness:
  "\<forall>env. pop_all (\<lambda>db. ef_queue_pop env db (Some 48))
     (push_all (\<lambda>db x. ef_queue_push env db (Some x) (of_nat (length x))) sample_queue [[1, 2], [3]]) 2 =
   [Some [1, 2], Some [3]]"
  using queue_is_fifo[of sample_queue "[]" "[[1, 2], [3]]" 0] sample_queue_holds by (simp add: numeral_2_eq_2)

end
