(* ===== verification/Index_Map_Props.thy ===== *)
theory Index_Map_Props
  imports Index_Policy Samples
begin

text \<open>
  The properties of the hash index below its locks: what an insertion and a deletion do to the map
  from key hashes to slot offsets, when an insertion succeeds, and what it does when it gives up.
\<close>

lemma sample_not_occ: "\<not> occ (entry_at sample_mem 64) p"
  by (simp add: occ_def ef_hash_entry_empty_def)

lemma sample_index [simp]: "index_inv sample_db" "index_has_room sample_db"
  using sample_not_occ
  by (auto simp: index_inv_def index_has_room_def rh_inv_def rh_order_def rh_distinct_def
      intro: exI[of _ 0])

lemma sample_empty_index: "index_lookup sample_db k = None"
  by (simp add: index_lookup_none) (simp add: entries_def occ_def ef_hash_entry_empty_def)

text \<open>Any insertion into the sample succeeds.\<close>

lemma sample_put:
  obtains added db' where "ef_index_put_entry sample_db k off = (EF_OK, added, db')"
proof -
  have "ef_hash_home 16 k < unat (16 :: u32)" by (rule hash_home_less) simp
  then have "ef_hash_home (hash_capacity sample_db) k \<le> 15" by simp
  then have "fst (ef_index_put_entry sample_db k off) = EF_OK"
    using put_entry_ok[of sample_db 64 k 15 off] sample_not_occ by simp
  then show thesis using that by (cases "ef_index_put_entry sample_db k off") auto
qed

text \<open>
  C1: a successful insertion of a pair makes the index answer the inserted offset for that key and
  leaves the answer for every other key as it was; the returned flag says whether the key is new.
\<close>

theorem index_put_updates_map:
  assumes "index_inv db" "index_has_room db" "off \<noteq> 0" "ef_index_put_entry db kh off = (EF_OK, added, db')"
  shows "index_inv db' \<and> index_lookup db' = (index_lookup db)(kh \<mapsto> off) \<and>
         (added \<longleftrightarrow> index_lookup db kh = None)"
  by (rule rh_index.put_ok[OF assms])

theorem index_put_updates_map_witness:
  "\<exists>added db'. ef_index_put_entry sample_db 7 320 = (EF_OK, added, db') \<and> index_inv db' \<and>
     index_lookup db' = (index_lookup sample_db)(7 \<mapsto> 320) \<and> added"
proof -
  obtain added db' where run: "ef_index_put_entry sample_db 7 320 = (EF_OK, added, db')" by (rule sample_put)
  show ?thesis
    using index_put_updates_map[OF sample_index _ run] run by (auto simp: sample_empty_index)
qed

text \<open>
  C18: on a table that has an empty bucket, an insertion that does not succeed returns \<^verbatim>\<open>EF_ERR_INDEX_FULL\<close>, has nevertheless stored the new
  pair, and has removed exactly one other key that was present before.
\<close>

theorem index_put_failure_drops_one_key:
  assumes "index_inv db" "index_has_room db" "off \<noteq> 0"
    "ef_index_put_entry db kh off = (err, added, db')" "err \<noteq> EF_OK"
  shows "err = EF_ERR_INDEX_FULL \<and> index_inv db' \<and>
         (\<exists>victim. victim \<noteq> kh \<and> index_lookup db victim \<noteq> None \<and>
            index_lookup db' = (index_lookup db)(kh \<mapsto> off, victim := None))"
  by (rule put_entry_full[OF assms])

text \<open>
  Three keys whose homes are the last and the first bucket of a table of 16: the third insertion
  displaces the entry of bucket 0, whose search for a new place ends at once.
\<close>

definition wrapped_db :: ef_db where
  "wrapped_db = sample_db\<lparr>mem := set_entry (set_entry sample_mem 64 15 15 320) 64 0 16 384\<rparr>"

lemma wrapped_entry:
  "entry_at (mem wrapped_db) 64 p =
     (if p = 0 then \<lparr>key_hash = 16, slot_offset = 384\<rparr>
      else if p = 15 then \<lparr>key_hash = 15, slot_offset = 320\<rparr> else \<lparr>key_hash = 0, slot_offset = 0\<rparr>)"
  by (simp add: wrapped_db_def entry_at_upd_entry)

lemma wrapped_occ: "occ (entry_at (mem wrapped_db) 64) p \<longleftrightarrow> p = 0 \<or> p = 15"
  by (simp add: occ_def ef_hash_entry_empty_def wrapped_entry)

lemma wrapped_index: "index_inv wrapped_db" "index_has_room wrapped_db"
proof -
  have "pdist 16 (entry_at (mem wrapped_db) 64) p = 0" if "p = 0 \<or> p = 15" for p
    using that by (auto simp: pdist_def wrapped_entry ef_hash_probe_dist_def ef_hash_home_def)
  then have "rh_order 16 (entry_at (mem wrapped_db) 64)"
    unfolding rh_order_def wrapped_occ by (metis less_numeral_extra(3))
  moreover have "rh_distinct 16 (entry_at (mem wrapped_db) 64)"
    unfolding rh_distinct_def wrapped_occ by (auto simp: wrapped_entry)
  moreover have "hash_index wrapped_db = Some 64" "hash_capacity wrapped_db = 16"
    by (simp_all add: wrapped_db_def)
  ultimately show "index_inv wrapped_db" "index_has_room wrapped_db"
    by (auto simp: index_inv_def index_has_room_def rh_inv_def wrapped_occ intro: exI[of _ 1])
qed

lemma wrapped_put: "fst (ef_index_put_entry wrapped_db 31 448) = EF_ERR_INDEX_FULL"
proof -
  have "put_loop 64 16 31 448 15 15 \<lparr>key_hash = 31, slot_offset = 448\<rparr> (mem wrapped_db) =
      put_loop 64 16 31 448 16 15 \<lparr>key_hash = 31, slot_offset = 448\<rparr> (mem wrapped_db)"
    by (subst put_loop.simps)
      (simp add: wrapped_entry ef_hash_entry_empty_def ef_hash_probe_dist_def ef_hash_home_def)
  moreover have "\<dots> = put_loop 64 16 31 448 17 0 \<lparr>key_hash = 16, slot_offset = 384\<rparr>
      (set_entry (mem wrapped_db) 64 0 31 448)"
    by (subst put_loop.simps)
      (simp add: wrapped_entry ef_hash_entry_empty_def ef_hash_probe_dist_def ef_hash_home_def)
  moreover have "fst \<dots> = EF_ERR_INDEX_FULL" by (subst put_loop.simps) simp
  ultimately have "fst (put_loop 64 16 31 448 15 15 \<lparr>key_hash = 31, slot_offset = 448\<rparr> (mem wrapped_db)) =
      EF_ERR_INDEX_FULL" by simp
  moreover have "hash_index wrapped_db = Some 64" "hash_capacity wrapped_db = 16"
    by (simp_all add: wrapped_db_def)
  ultimately show ?thesis
    by (simp add: ef_index_put_entry_def ef_hash_home_def Let_def split: prod.splits) auto
qed

theorem index_put_failure_drops_one_key_witness:
  "\<exists>added db'. ef_index_put_entry wrapped_db 31 448 = (EF_ERR_INDEX_FULL, added, db') \<and>
     (\<exists>victim. victim \<noteq> 31 \<and> index_lookup wrapped_db victim \<noteq> None \<and>
        index_lookup db' = (index_lookup wrapped_db)(31 \<mapsto> 448, victim := None))"
proof -
  obtain err added db' where run: "ef_index_put_entry wrapped_db 31 448 = (err, added, db')"
    by (cases "ef_index_put_entry wrapped_db 31 448") auto
  moreover have "fst (ef_index_put_entry wrapped_db 31 448) = EF_ERR_INDEX_FULL" by (rule wrapped_put)
  ultimately have err: "err = EF_ERR_INDEX_FULL" by simp
  then have "err \<noteq> EF_OK" by simp
  from index_put_failure_drops_one_key[OF wrapped_index _ run this] run err show ?thesis by simp
qed

text \<open>
  C19: an insertion succeeds whenever some bucket at or after the home of its key is empty, without
  passing the end of the table.
\<close>

theorem index_put_succeeds:
  assumes "index_inv db" "hash_index db = Some h" "ef_hash_home (hash_capacity db) kh \<le> e"
    "e < unat (hash_capacity db)" "slot_offset (entry_at (mem db) h e) = 0"
  shows "fst (ef_index_put_entry db kh off) = EF_OK"
  using put_entry_ok[OF assms(1-4)] assms(5) by (simp add: occ_def ef_hash_entry_empty_def)

theorem index_put_succeeds_witness: "fst (ef_index_put_entry sample_db 5 320) = EF_OK"
proof -
  have "ef_hash_home 16 5 \<le> 9" by (simp add: ef_hash_home_def)
  then show ?thesis using index_put_succeeds[of sample_db 64 5 9 320] by simp
qed

text \<open>
  Removing a key returns \<^verbatim>\<open>EF_OK\<close> exactly when the key is present, and afterwards the index
  has lost that key and nothing else.
\<close>

lemma index_remove_deletes_key:
  assumes "index_inv db"
  shows "fst (ef_index_remove_by_hash db kh) = (if index_lookup db kh = None then EF_ERR_NOT_FOUND else EF_OK) \<and>
         index_inv (snd (ef_index_remove_by_hash db kh)) \<and>
         index_lookup (snd (ef_index_remove_by_hash db kh)) = (index_lookup db)(kh := None)"
  using rh_index.remove_lookup[OF assms] rh_index.remove_err[OF assms] by blast

lemma index_remove_deletes_key_witness:
  "index_lookup (snd (ef_index_remove_by_hash wrapped_db 15)) = (index_lookup wrapped_db)(15 := None)"
  using index_remove_deletes_key[OF wrapped_index(1), of 15] by blast

text \<open>
  Removing a key that was just inserted for the first time, as the undo of an index insertion
  does, gives back the map from before the insertion.
\<close>

lemma index_put_undone_by_remove:
  assumes "index_inv db" "index_has_room db" "off \<noteq> 0" "ef_index_put_entry db kh off = (EF_OK, True, db')"
  shows "index_lookup (snd (ef_index_remove_by_hash db' kh)) = index_lookup db"
  by (rule rh_index.put_undo[OF assms])

lemma index_put_undone_by_remove_witness:
  "\<exists>db'. ef_index_put_entry sample_db 9 320 = (EF_OK, True, db') \<and>
     index_lookup (snd (ef_index_remove_by_hash db' 9)) = index_lookup sample_db"
proof -
  obtain added db' where run: "ef_index_put_entry sample_db 9 320 = (EF_OK, added, db')" by (rule sample_put)
  have added: "added" using rh_index.put_ok[OF sample_index _ run] by (simp add: sample_empty_index)
  then show ?thesis using index_put_undone_by_remove[OF sample_index, of 320 9 db'] run by auto
qed

end
