(* ===== verification/Index_Api.thy ===== *)
theory Index_Api
  imports Queue_Props Index_Map_Props
begin

text \<open>
  The index through its public operations: locks, the sequence counter, the entry counter and the
  frame around the table. \<open>index_ready\<close> is the state between index operations.
\<close>

subsection \<open>What the table operations write\<close>

lemma set_entry_outside:
  "k < n \<Longrightarrow> x < h \<or> h + 16 * n \<le> x \<Longrightarrow> set_entry m h k kh off x = m x"
  by (auto simp: set_entry_def store_u64_def store_bytes_def EF_HASH_ENTRY_SIZE_def)

lemma put_loop_outside:
  "cap \<noteq> 0 \<Longrightarrow> x < h \<or> h + 16 * unat cap \<le> x \<Longrightarrow> snd (snd (put_loop h cap kh off i home inc m)) x = m x"
proof (induction h cap kh off i home inc m rule: put_loop.induct)
  case (1 h cap kh off i home inc m)
  have p: "i mod unat cap < unat cap" using 1(3) by (simp add: unat_gt_0)
  note out = set_entry_outside[OF p 1(4)]
  show ?case
    by (subst put_loop.simps) (use 1 out in \<open>auto simp: Let_def\<close>)
qed

lemma shift_loop_outside:
  "pos < unat cap \<Longrightarrow> x < h \<or> h + 16 * unat cap \<le> x \<Longrightarrow> shift_loop h cap pos m x = m x"
proof (induction h cap pos m rule: shift_loop.induct)
  case (1 h cap pos m)
  have "Suc pos mod unat cap < unat cap" using 1(2) by simp
  with 1 show ?case
    by (subst shift_loop.simps) (auto simp: Let_def set_entry_outside[OF 1(2,3)])
qed

lemma remove_loop_outside:
  "remove_loop h cap kh i n m = Some m' \<Longrightarrow> cap \<noteq> 0 \<Longrightarrow> x < h \<or> h + 16 * unat cap \<le> x \<Longrightarrow> m' x = m x"
  by (induction n arbitrary: i) (auto simp: Let_def unat_gt_0 shift_loop_outside split: if_splits)

text \<open>A table operation: the memory changes inside the table only.\<close>

definition table_write :: "ef_db \<Rightarrow> ef_db \<Rightarrow> bool" where
  "table_write db db' \<longleftrightarrow>
     (\<exists>m c. db' = db\<lparr>mem := m, hash_entry_count := c\<rparr> \<and>
            (\<forall>x. x < 64 \<or> 64 + 16 * unat (hash_capacity db) \<le> x \<longrightarrow> m x = mem db x))"

lemma table_write_facts:
  assumes "table_write db db'" "wf_layout db"
  shows "sb db' = sb db" "db_slot db' i = db_slot db i" "same_layout db db'" "index_seq db' = index_seq db"
    "readonly db' = readonly db" "txn_active db' = txn_active db"
proof -
  obtain m c where db': "db' = db\<lparr>mem := m, hash_entry_count := c\<rparr>"
    and out: "\<And>x. x < 64 \<or> 64 + 16 * unat (hash_capacity db) \<le> x \<Longrightarrow> m x = mem db x"
    using assms(1) unfolding table_write_def by blast
  show sb: "sb db' = sb db" unfolding db' by (simp, rule sb_of_cong) (simp add: out)
  have "64 + 16 * unat (hash_capacity db) \<le> db_slot_ptr db i" by (rule table_end[OF assms(2)])
  then have "slot_at m (db_slot_ptr db i) = slot_at (mem db) (db_slot_ptr db i)"
    by (intro slot_at_cong out) simp
  then show "db_slot db' i = db_slot db i" by (simp add: db')
  show "same_layout db db'" using sb by (simp add: db' same_layout_def)
  show "index_seq db' = index_seq db" "readonly db' = readonly db" "txn_active db' = txn_active db"
    by (simp_all add: db')
qed

lemma put_entry_table_write:
  assumes "wf_layout db" "ef_index_put_entry db kh off = (err, added, db')"
  shows "table_write db db'"
proof (cases "hash_capacity db = 0 \<or> hash_capacity db AND (hash_capacity db - 1) \<noteq> 0")
  case True
  have "hash_index db = (if hash_capacity db = 0 then None else Some 64)"
    using assms(1) by (simp add: wf_layout_def layout_ok_def)
  with True assms(2) have "db' = db" by (auto simp: ef_index_put_entry_def Let_def split: if_splits)
  then have "db' = db\<lparr>mem := mem db, hash_entry_count := hash_entry_count db\<rparr>" by simp
  then show ?thesis unfolding table_write_def by blast
next
  case False
  then have h: "hash_index db = Some 64" "hash_capacity db \<noteq> 0"
    using assms(1) by (auto simp: wf_layout_def layout_ok_def)
  with False assms(2) have "db' = db\<lparr>mem := snd (snd (put_loop 64 (hash_capacity db) kh off
      (ef_hash_home (hash_capacity db) kh) (ef_hash_home (hash_capacity db) kh)
      \<lparr>key_hash = kh, slot_offset = off\<rparr> (mem db))), hash_entry_count := hash_entry_count db\<rparr>"
    by (auto simp: ef_index_put_entry_def Let_def split: prod.splits)
  then show ?thesis unfolding table_write_def using put_loop_outside[OF h(2)] by blast
qed

lemma remove_table_write:
  assumes "wf_layout db" "ef_index_remove_by_hash db kh = (err, db')"
  shows "table_write db db'"
proof -
  have idx: "hash_index db = (if hash_capacity db = 0 then None else Some 64)"
    using assms(1) by (simp add: wf_layout_def layout_ok_def)
  have same: "table_write db db" unfolding table_write_def
    by (intro exI[of _ "mem db"] exI[of _ "hash_entry_count db"]) simp
  show ?thesis
  proof (cases "hash_capacity db = 0")
    case True
    then show ?thesis using assms(2) idx same by (simp add: ef_index_remove_by_hash_def)
  next
    case cap: False
    let ?r = "remove_loop 64 (hash_capacity db) kh (ef_hash_home (hash_capacity db) kh) (unat (hash_capacity db)) (mem db)"
    show ?thesis
    proof (cases ?r)
      case None
      then show ?thesis using assms(2) idx same cap by (simp add: ef_index_remove_by_hash_def)
    next
      case (Some m)
      then have "db' = db\<lparr>mem := m, hash_entry_count :=
          (if 0 < hash_entry_count db then hash_entry_count db - 1 else hash_entry_count db)\<rparr>"
        using assms(2) idx cap by (auto simp: ef_index_remove_by_hash_def)
      moreover have "m x = mem db x" if "x < 64 \<or> 64 + 16 * unat (hash_capacity db) \<le> x" for x
        by (rule remove_loop_outside[OF Some cap that])
      ultimately show ?thesis unfolding table_write_def by blast
    qed
  qed
qed

subsection \<open>The entry counter\<close>

definition index_counted :: "ef_db \<Rightarrow> bool" where
  "index_counted db \<longleftrightarrow> unat (hash_entry_count db) = card (dom (index_lookup db))"

definition index_ready :: "ef_db \<Rightarrow> bool" where
  "index_ready db \<longleftrightarrow>
     wf_layout db \<and> EF_SCHEMA_VERSION \<le> schema_version (sb db) \<and> \<not> readonly db \<and> \<not> txn_active db \<and>
     index_write_lock (sb db) = 0 \<and> even (index_seq db) \<and> index_inv db \<and> index_counted db"

lemma index_dom:
  assumes "index_inv db" "hash_index db = Some h"
  shows "dom (index_lookup db) = key_hash ` entries (hash_capacity db) (entry_at (mem db) h)"
  using index_lookup_none[OF assms] by (auto simp: dom_def)

lemma card_dom:
  assumes inv: "index_inv db" and h: "hash_index db = Some h"
  shows "card (dom (index_lookup db)) = card {p. p < unat (hash_capacity db) \<and> occ (entry_at (mem db) h) p}"
proof -
  let ?T = "entry_at (mem db) h" and ?cap = "hash_capacity db"
  let ?P = "{p. p < unat ?cap \<and> occ ?T p}"
  have "dom (index_lookup db) = (\<lambda>p. key_hash (?T p)) ` ?P"
    unfolding index_dom[OF inv h] by (auto simp: entries_def)
  moreover have "rh_distinct ?cap ?T" using inv h by (simp add: index_inv_def rh_inv_def)
  then have "inj_on (\<lambda>p. key_hash (?T p)) ?P" unfolding rh_distinct_def inj_on_def by blast
  ultimately show ?thesis by (simp add: card_image)
qed

lemma finite_dom: "index_inv db \<Longrightarrow> finite (dom (index_lookup db))"
proof -
  assume inv: "index_inv db"
  then obtain h where h: "hash_index db = Some h" by (rule index_invD)
  have "finite (entries (hash_capacity db) (entry_at (mem db) h))"
    unfolding entries_def by simp
  then show ?thesis unfolding index_dom[OF inv h] by simp
qed

lemma room_if_few:
  assumes inv: "index_inv db" and few: "card (dom (index_lookup db)) < unat (hash_capacity db)"
  shows "index_has_room db"
proof -
  from inv obtain h where h: "hash_index db = Some h" by (rule index_invD)
  let ?T = "entry_at (mem db) h" and ?n = "unat (hash_capacity db)"
  have "\<exists>p < ?n. \<not> occ ?T p"
  proof (rule ccontr)
    assume "\<not> (\<exists>p < ?n. \<not> occ ?T p)"
    then have "{p. p < ?n \<and> occ ?T p} = {..<?n}" by auto
    then show False using few card_dom[OF inv h] by simp
  qed
  then show ?thesis using h by (simp add: index_has_room_def)
qed

lemma few_if_room:
  assumes inv: "index_inv db" and room: "index_has_room db"
  shows "card (dom (index_lookup db)) < unat (hash_capacity db)"
proof -
  from inv obtain h where h: "hash_index db = Some h" by (rule index_invD)
  let ?T = "entry_at (mem db) h" and ?n = "unat (hash_capacity db)"
  obtain e where "e < ?n" "\<not> occ ?T e" using room h by (auto simp: index_has_room_def)
  then have "{p. p < ?n \<and> occ ?T p} \<subset> {..<?n}" by auto
  then have "card {p. p < ?n \<and> occ ?T p} < card {..<?n}" by (intro psubset_card_mono) simp_all
  then show ?thesis using card_dom[OF inv h] by simp
qed

lemma room_if_no_grow:
  assumes "index_inv db" "index_counted db" "wf_layout db"
    "\<not> ef_index_needs_grow (hash_entry_count db) (hash_capacity db)"
  shows "index_has_room db" "unat (hash_entry_count db) < unat (hash_capacity db)"
proof -
  have cap: "unat (hash_capacity db) \<le> 0xFFFF"
    using assms(3) by (simp add: wf_layout_def layout_ok_def word_le_nat_alt)
  from assms(1) obtain h where h: "hash_index db = Some h" by (rule index_invD)
  have "card {p. p < unat (hash_capacity db) \<and> occ (entry_at (mem db) h) p} \<le> card {..<unat (hash_capacity db)}"
    by (rule card_mono) auto
  then have le: "unat (hash_entry_count db) \<le> unat (hash_capacity db)"
    using assms(2) card_dom[OF assms(1) h] by (simp add: index_counted_def)
  then have "unat (hash_entry_count db + 1) = unat (hash_entry_count db) + 1"
    using cap by (simp add: unat_word_ariths)
  moreover have "unat (ucast (hash_entry_count db + 1) * 4 :: u64) = unat (hash_entry_count db + 1) * 4"
    "unat (ucast (hash_capacity db) * 3 :: u64) = unat (hash_capacity db) * 3"
    using unat_u32_bound[of "hash_entry_count db + 1"] unat_u32_bound[of "hash_capacity db"]
    by (simp_all add: unat_mult_u64)
  ultimately show less: "unat (hash_entry_count db) < unat (hash_capacity db)"
    using assms(4) by (simp add: ef_index_needs_grow_def ef_policy_defs not_less word_le_nat_alt)
  then show "index_has_room db" using room_if_few[OF assms(1)] assms(2) by (simp add: index_counted_def)
qed

subsection \<open>Lookup\<close>

lemma find_entry_stable:
  assumes inv: "index_inv db" and ev: "even (index_seq db)"
  shows "ef_index_find_entry db kh = ef_index_find_entry_unlocked db kh"
proof -
  from inv obtain h where h: "hash_index db = Some h" "hash_capacity db \<noteq> 0" by (rule index_invD)
  have seq: "ef_sb_index_seq_load db AND 1 = 0"
    using ev by (simp add: ef_sb_index_seq_load_def and_one_eq flip: even_iff_mod_2_eq_zero)
  then have stable: "ef_sb_index_seq_read_stable db (ef_sb_index_seq_load db)"
    by (simp add: ef_sb_index_seq_read_stable_def Let_def)
  have fail: "e = EF_ERR_NOT_FOUND" if "ef_index_find_entry_unlocked db kh = Inl e" for e
    using that h find_loop_fail by (auto simp: ef_index_find_entry_unlocked_def Let_def)
  have "find_attempts db kh (Suc n) = ef_index_find_entry_unlocked db kh" for n
    using seq stable fail by (cases "ef_index_find_entry_unlocked db kh") (simp_all add: Let_def)
  then have "find_attempts db kh EF_SB_INDEX_SEQ_READ_MAX = ef_index_find_entry_unlocked db kh"
    by (metis EF_SB_INDEX_SEQ_READ_MAX_def numeral_eq_Suc)
  then show ?thesis using h by (simp add: ef_index_find_entry_def)
qed

lemma index_get_stable:
  assumes inv: "index_inv db" and "even (index_seq db)"
  shows "ef_index_get db key =
    (case index_lookup db (ef_key_hash key) of
       None \<Rightarrow> Inl EF_ERR_NOT_FOUND | Some off \<Rightarrow> ef_offset_to_slot_id db off)"
proof -
  from inv obtain h where h: "hash_index db = Some h" "hash_capacity db \<noteq> 0" by (rule index_invD)
  have fail: "e = EF_ERR_NOT_FOUND" if "ef_index_find_entry_unlocked db kh = Inl e" for e kh
    using that h find_loop_fail by (auto simp: ef_index_find_entry_unlocked_def Let_def)
  show ?thesis
    unfolding ef_index_get_def find_entry_stable[OF assms] index_lookup_def
    by (auto split: sum.split simp: fail)
qed

lemma index_get_lookup:
  "index_ready db \<Longrightarrow> ef_index_get db key =
    (case index_lookup db (ef_key_hash key) of
       None \<Rightarrow> Inl EF_ERR_NOT_FOUND | Some off \<Rightarrow> ef_offset_to_slot_id db off)"
  by (rule index_get_stable) (simp_all add: index_ready_def)

subsection \<open>Write sections\<close>

text \<open>Entering takes the lock and makes the counter odd; leaving restores both.\<close>

definition locked :: "ef_db \<Rightarrow> ef_db" where
  "locked db = db\<lparr>mem := set_index_write_lock (mem db) 1, index_seq := index_seq db + 1\<rparr>"

definition unlocked :: "ef_db \<Rightarrow> ef_db" where
  "unlocked db = db\<lparr>mem := set_index_write_lock (mem db) 0, index_seq := index_seq db + 1\<rparr>"

lemma write_begin_ready: "index_ready db \<Longrightarrow> ef_index_write_begin db = (EF_OK, locked db)"
  by (simp add: index_ready_def ef_index_write_begin_def ef_index_has_seqlock_def index_lock_take
      ef_sb_index_write_seq_begin_def ef_sb_uses_v4_index_layout_def locked_def)

lemma write_end_eq:
  "mapped db \<Longrightarrow> EF_SCHEMA_VERSION \<le> schema_version (sb db) \<Longrightarrow> ef_index_write_end db = unlocked db"
  by (simp add: ef_index_write_end_def ef_index_has_seqlock_def ef_sb_index_write_seq_end_def
      ef_sb_uses_v4_index_layout_def index_lock_drop unlocked_def)

lemma entry_at_lock [simp]: "entry_at (set_index_write_lock m v) 64 k = entry_at m 64 k"
  by (rule entry_at_cong) (simp add: set_index_write_lock_def store_u8_upd)

lemma index_hash_64: "wf_layout db \<Longrightarrow> hash_index db = (if hash_capacity db = 0 then None else Some 64)"
  by (simp add: wf_layout_def layout_ok_def)

text \<open>The index facts depend on the table, the capacity and the table pointer only.\<close>

lemma find_loop_cong:
  assumes "entry_at m' h = entry_at m h"
  shows "find_loop m' h cap kh i n = find_loop m h cap kh i n"
  by (induction n arbitrary: i) (simp_all add: assms Let_def)

lemma index_facts_cong:
  assumes "hash_index db' = hash_index db" "hash_capacity db' = hash_capacity db"
    "entry_at (mem db') 64 = entry_at (mem db) 64" "hash_index db = (if hash_capacity db = 0 then None else Some 64)"
  shows "index_lookup db' = index_lookup db" "index_inv db' = index_inv db" "index_has_room db' = index_has_room db"
proof -
  have "ef_index_find_entry_unlocked db' kh = ef_index_find_entry_unlocked db kh" for kh
    using assms(1,2,4) find_loop_cong[OF assms(3)]
    by (simp add: ef_index_find_entry_unlocked_def split: option.split)
  then show "index_lookup db' = index_lookup db" by (simp add: index_lookup_def fun_eq_iff)
  show "index_inv db' = index_inv db" "index_has_room db' = index_has_room db"
    using assms by (simp_all add: index_inv_def index_has_room_def split: option.split)
qed

lemma lock_entries: "entry_at (set_index_write_lock m v) 64 = entry_at m 64"
  by (rule ext) (rule entry_at_lock)

lemma locked_facts:
  assumes wf: "wf_layout db"
  shows "index_lookup (locked db) = index_lookup db" "index_inv (locked db) = index_inv db"
    "index_has_room (locked db) = index_has_room db" "wf_layout (locked db)"
    "index_lookup (unlocked db) = index_lookup db" "index_inv (unlocked db) = index_inv db"
    "wf_layout (unlocked db)"
  using index_facts_cong[of "locked db" db] index_facts_cong[of "unlocked db" db] index_hash_64[OF wf] wf
    lock_entries[of "mem db"]
  by (simp_all add: locked_def unlocked_def wf_layout_def)

lemma put_locked_ready:
  fixes key :: "u8 list"
  assumes r: "index_ready db" and room: "index_has_room db"
    and i: "i < max_slots (sb db)" and run: "put_locked (locked db) (ef_key_hash key) (ef_slot_to_offset db i) = (EF_OK, db')"
  shows "index_ready db'" "index_lookup db' = (index_lookup db)(ef_key_hash key \<mapsto> ef_slot_to_offset db i)"
    "db_slot db' j = db_slot db j" "same_layout db db'" "sb db' = sb db"
proof -
  let ?kh = "ef_key_hash key" and ?off = "ef_slot_to_offset db i"
  have R: "wf_layout db" "EF_SCHEMA_VERSION \<le> schema_version (sb db)" "\<not> readonly db" "\<not> txn_active db"
    "index_write_lock (sb db) = 0" "even (index_seq db)" "index_inv db" "index_counted db" "mapped db"
    using r by (simp_all add: index_ready_def)
  have off: "?off \<noteq> 0" by (rule slot_offset_neq_0[OF R(1) i])
  have lsb: "sb (locked db) = (sb db)\<lparr>index_write_lock := 1\<rparr>" by (simp add: locked_def)
  obtain err added d where put: "ef_index_put_entry (locked db) ?kh ?off = (err, added, d)"
    using prod_cases3 by blast
  note lf = locked_facts[OF R(1)]
  have step: "table_write (locked db) d" by (rule put_entry_table_write[OF lf(4) put])
  note st = table_write_facts[OF step lf(4)]
  let ?d = "if added then d\<lparr>hash_entry_count := hash_entry_count d + 1\<rparr> else d"
  have dv: "mapped d" "EF_SCHEMA_VERSION \<le> schema_version (sb d)" "\<not> txn_active d"
    using st(1,3,6) R lsb by (simp_all add: same_layout_def locked_def)
  have ok: "err = EF_OK" and db': "db' = ef_db_mark_meta_dirty (unlocked ?d)"
  proof -
    have end_d: "ef_index_write_end ?d = unlocked ?d" using dv by (intro write_end_eq) simp_all
    show e: "err = EF_OK" using run put unfolding put_locked_def by (auto simp: Let_def split: if_splits)
    have "\<not> txn_active (unlocked ?d)" using dv(3) by (simp add: unlocked_def)
    then show "db' = ef_db_mark_meta_dirty (unlocked ?d)"
      using run put e end_d unfolding put_locked_def by (simp add: Let_def ef_txn_active_def)
  qed
  have room_l: "index_has_room (locked db)" using lf(3) room by simp
  have map: "index_inv d" "index_lookup d = (index_lookup db)(?kh \<mapsto> ?off)" "added \<longleftrightarrow> index_lookup db ?kh = None"
    using put_entry_map[OF _ room_l off put[unfolded ok]] lf(1,2) R(7) by simp_all
  have wfd: "wf_layout d" using lf(4) same_layout_wf[OF st(3)] by simp
  then have wfd': "wf_layout ?d" by simp
  note uf = locked_facts[OF wfd']
  have same_d: "index_lookup ?d = index_lookup d" "index_inv ?d = index_inv d"
    using index_facts_cong[of ?d d] index_hash_64[OF wfd] by simp_all
  have e_idx: "index_lookup (ef_db_mark_meta_dirty x) = index_lookup x" "index_inv (ef_db_mark_meta_dirty x) = index_inv x"
    if "wf_layout x" for x
    using index_facts_cong[of "ef_db_mark_meta_dirty x" x] index_hash_64[OF that] by simp_all
  show look: "index_lookup db' = (index_lookup db)(?kh \<mapsto> ?off)"
    unfolding db' e_idx(1)[OF uf(7)] uf(5) same_d(1) by (rule map(2))
  have slots: "db_slot (ef_db_mark_meta_dirty (unlocked ?d)) j = db_slot d j" for j
  proof -
    have "64 \<le> db_slot_ptr d j" using wfd wf_layout_base_ge slot_ptr_ge le_trans by blast
    then show ?thesis by (simp add: unlocked_def)
  qed
  show "db_slot db' j = db_slot db j"
  proof -
    have "64 \<le> db_slot_ptr db j" using R(1) wf_layout_base_ge slot_ptr_ge le_trans by blast
    then have "db_slot (locked db) j = db_slot db j" by (simp add: locked_def)
    then show ?thesis unfolding db' slots st(2) .
  qed
  show lay: "same_layout db db'"
    using st(3) lsb st(1) by (simp add: db' same_layout_def locked_def unlocked_def)
  have "index_counted db'"
  proof -
    have fin: "finite (dom (index_lookup db))" by (rule finite_dom[OF R(7)])
    have cnt: "hash_entry_count d = hash_entry_count db"
      using put R(9) by (auto simp: ef_index_put_entry_def Let_def locked_def split: option.splits if_splits prod.splits)
    have less: "unat (hash_entry_count db) < unat (hash_capacity db)"
      using few_if_room[OF R(7) room] R(8) by (simp add: index_counted_def)
    then have "unat (hash_entry_count db + 1) = unat (hash_entry_count db) + 1"
      using unat_u32_bound[of "hash_capacity db"] by (simp add: unat_word_ariths)
    moreover have "hash_entry_count db' = (if added then hash_entry_count db + 1 else hash_entry_count db)"
      using cnt by (simp add: db' unlocked_def)
    moreover have "card (dom (index_lookup db')) = card (dom (index_lookup db)) + (if added then 1 else 0)"
      using fin map(3) unfolding look by (auto simp: card_insert_if domIff)
    ultimately show ?thesis using R(8) by (simp add: index_counted_def)
  qed
  moreover have "index_inv db'" unfolding db' e_idx(2)[OF uf(7)] uf(6) same_d(2) by (rule map(1))
  moreover have "even (index_seq db')" using R(6) st(4) by (simp add: db' unlocked_def locked_def)
  moreover show "sb db' = sb db" using st(1) lsb R(5) by (simp add: db' unlocked_def)
  ultimately show "index_ready db'"
    using R same_layout_wf[OF lay] st(5,6) by (simp add: index_ready_def db' unlocked_def locked_def)
qed

lemma key_absent_lookup: "key_absent db kh \<longleftrightarrow> index_lookup db kh = None"
  by (simp add: key_absent_def index_lookup_def split: sum.split)

lemma put_run_no_grow:
  assumes r: "index_ready db" and i: "i < max_slots (sb db)"
    and calm: "\<not> (ef_index_needs_grow (hash_entry_count db) (hash_capacity db) \<and> key_absent db (ef_key_hash key))"
  shows "ef_index_put env db key i = put_locked (locked db) (ef_key_hash key) (ef_slot_to_offset db i)"
proof -
  have R: "wf_layout db" "\<not> readonly db" "\<not> txn_active db" using r by (simp_all add: index_ready_def)
  have off: "ef_slot_to_offset (locked db) i = ef_slot_to_offset db i"
    by (rule offset_cong(1)[THEN fun_cong]) (simp_all add: locked_def)
  have "key_absent (locked db) (ef_key_hash key) = key_absent db (ef_key_hash key)"
    using locked_facts(1)[OF R(1)] by (simp add: key_absent_lookup)
  then show ?thesis
    using R(2,3) calm write_begin_ready[OF r] off slot_offset_neq_0[OF R(1) i]
    by (auto simp: ef_index_put_def ef_index_require_write_def Let_def ef_txn_active_def locked_def)
qed

lemma put_ready:
  assumes r: "index_ready db" and grow: "\<not> ef_index_needs_grow (hash_entry_count db) (hash_capacity db)"
    and i: "i < max_slots (sb db)" and run: "ef_index_put env db key i = (EF_OK, db')"
  shows "index_ready db'" "index_lookup db' = (index_lookup db)(ef_key_hash key \<mapsto> ef_slot_to_offset db i)"
    "db_slot db' j = db_slot db j" "same_layout db db'"
proof -
  have room: "index_has_room db" using r by (intro room_if_no_grow(1)[OF _ _ _ grow]) (simp_all add: index_ready_def)
  have "put_locked (locked db) (ef_key_hash key) (ef_slot_to_offset db i) = (EF_OK, db')"
    using run grow put_run_no_grow[OF r i] by simp
  from put_locked_ready[OF r room i this]
  show "index_ready db'" "index_lookup db' = (index_lookup db)(ef_key_hash key \<mapsto> ef_slot_to_offset db i)"
    "db_slot db' j = db_slot db j" "same_layout db db'" by blast+
qed

lemma dirty_index:
  "wf_layout x \<Longrightarrow> index_lookup (ef_db_mark_meta_dirty x) = index_lookup x"
  "wf_layout x \<Longrightarrow> index_inv (ef_db_mark_meta_dirty x) = index_inv x"
  using index_facts_cong[of "ef_db_mark_meta_dirty x" x] index_hash_64[of x] by simp_all

text \<open>The removal proper, up to the point where the code looks whether to shrink the table.\<close>

definition after_remove :: "ef_db \<Rightarrow> u8 list \<Rightarrow> ef_db" where
  "after_remove db key =
     ef_db_mark_meta_dirty (ef_index_write_end (snd (ef_index_remove_by_hash (snd (ef_index_write_begin db)) (ef_key_hash key))))"

lemma remove_runs:
  assumes r: "index_ready db" and present: "index_lookup db (ef_key_hash key) \<noteq> None"
  defines "db' \<equiv> after_remove db key"
  shows "ef_index_remove env db key = (EF_OK, shrink_if_sparse env db' (hash_entry_count db') (hash_capacity db'))" "index_ready db'"
    "index_lookup db' = (index_lookup db)(ef_key_hash key := None)" "db_slot db' j = db_slot db j"
    "same_layout db db'" "hash_entry_count db' = hash_entry_count db - 1"
proof -
  let ?kh = "ef_key_hash key"
  have R: "wf_layout db" "EF_SCHEMA_VERSION \<le> schema_version (sb db)" "\<not> readonly db" "\<not> txn_active db"
    "index_write_lock (sb db) = 0" "even (index_seq db)" "index_inv db" "index_counted db" "mapped db"
    using r by (simp_all add: index_ready_def)
  from R(7) obtain h where h: "hash_index db = Some h" "hash_capacity db \<noteq> 0" by (rule index_invD)
  have lsb: "sb (locked db) = (sb db)\<lparr>index_write_lock := 1\<rparr>" by (simp add: locked_def)
  note lf = locked_facts[OF R(1)]
  obtain err d where rem: "ef_index_remove_by_hash (locked db) ?kh = (err, d)" by fastforce
  have linv: "index_inv (locked db)" using lf(2) R(7) by simp
  have ok: "err = EF_OK" using remove_result(1)[OF linv, of ?kh] present rem lf(1) by simp
  note rem' = rem[unfolded ok]
  have map: "index_inv d" "index_lookup d = (index_lookup db)(?kh := None)"
    using remove_map[OF linv rem'] lf(1) by simp_all
  have step: "table_write (locked db) d" by (rule remove_table_write[OF lf(4) rem])
  note st = table_write_facts[OF step lf(4)]
  have wfd: "wf_layout d" using lf(4) same_layout_wf[OF st(3)] by simp
  have dv: "mapped d" "EF_SCHEMA_VERSION \<le> schema_version (sb d)" "hash_capacity d = hash_capacity db"
    using st(1,3) R lsb by (simp_all add: same_layout_def locked_def)
  have fin: "finite (dom (index_lookup db))" by (rule finite_dom[OF R(7)])
  then have "0 < card (dom (index_lookup db))" using present by (auto simp: card_gt_0_iff)
  then have pos: "0 < unat (hash_entry_count db)" using R(8) by (simp add: index_counted_def)
  have cnt: "hash_entry_count d = hash_entry_count db - 1"
    using rem' h pos
    by (auto simp: ef_index_remove_by_hash_def Let_def locked_def word_less_nat_alt split: option.splits)
  have db': "db' = ef_db_mark_meta_dirty (unlocked d)"
    using write_begin_ready[OF r] rem write_end_eq[OF dv(1,2)] by (simp add: db'_def after_remove_def)
  have hold: "hash_index (locked db) = Some h" "hash_capacity (locked db) \<noteq> 0" "\<not> txn_active (locked db)"
    using h R(4) by (simp_all add: locked_def)
  show "ef_index_remove env db key = (EF_OK, shrink_if_sparse env db' (hash_entry_count db') (hash_capacity db'))"
    using R(3) write_begin_ready[OF r] hold rem' write_end_eq[OF dv(1,2)]
    by (simp add: ef_index_remove_def ef_index_require_write_def Let_def ef_txn_active_def db') (simp add: unlocked_def)
  note uf = locked_facts[OF wfd]
  show look: "index_lookup db' = (index_lookup db)(?kh := None)"
    unfolding db' dirty_index(1)[OF uf(7)] uf(5) by (rule map(2))
  show "db_slot db' j = db_slot db j"
  proof -
    have p: "64 \<le> db_slot_ptr db j" "64 \<le> db_slot_ptr d j"
      using R(1) wfd wf_layout_base_ge slot_ptr_ge le_trans by blast+
    then have "db_slot db' j = db_slot d j" "db_slot (locked db) j = db_slot db j"
      by (simp_all add: db' locked_def unlocked_def)
    then show ?thesis using st(2)[of j] by simp
  qed
  show lay: "same_layout db db'"
    using st(3) lsb st(1) by (simp add: db' same_layout_def locked_def unlocked_def)
  have "card (dom (index_lookup db')) = card (dom (index_lookup db)) - 1"
    using fin present unfolding look by (simp add: card_Diff_singleton domIff)
  moreover have "unat (hash_entry_count db - 1) = unat (hash_entry_count db) - 1"
    using pos by (intro unat_minus_one) auto
  ultimately have "index_counted db'"
    using R(8) cnt by (simp add: index_counted_def) (simp add: db' unlocked_def)
  moreover have "index_inv db'" unfolding db' dirty_index(2)[OF uf(7)] uf(6) by (rule map(1))
  moreover have "even (index_seq db')" using R(6) st(4) by (simp add: db' unlocked_def locked_def)
  moreover have "sb db' = sb db" using st(1) lsb R(5) by (simp add: db' unlocked_def)
  ultimately show "index_ready db'"
    using R same_layout_wf[OF lay] st(5,6) by (simp add: index_ready_def db' unlocked_def locked_def)
  show "hash_entry_count db' = hash_entry_count db - 1" using cnt by (simp add: db' unlocked_def)
qed

lemma remove_ready:
  assumes r: "index_ready db" and present: "index_lookup db (ef_key_hash key) \<noteq> None"
    and calm: "ef_index_pick_shrink_capacity (hash_entry_count db - 1) (hash_capacity db) = 0"
  obtains db' where "ef_index_remove env db key = (EF_OK, db')" "index_ready db'"
    "index_lookup db' = (index_lookup db)(ef_key_hash key := None)" "\<And>j. db_slot db' j = db_slot db j"
    "same_layout db db'"
proof -
  let ?d = "after_remove db key"
  note d = remove_runs[OF r present]
  have "shrink_if_sparse env ?d (hash_entry_count ?d) (hash_capacity ?d) = ?d"
    using calm d(5,6) by (simp add: shrink_if_sparse_def ef_index_shrink_def same_layout_def)
  then have "ef_index_remove env db key = (EF_OK, ?d)" using d(1)[of env] by simp
  then show thesis using that d(2-5) by blast
qed

subsection \<open>Properties\<close>

lemma sample_ready: "index_ready sample_db"
proof -
  have "index_lookup sample_db = Map.empty" by (rule ext) (rule sample_empty_index)
  then show ?thesis by (simp add: index_ready_def index_counted_def EF_SCHEMA_VERSION_def)
qed

lemma sample_put_api:
  obtains db' where "ef_index_put env sample_db key 2 = (EF_OK, db')"
proof -
  let ?kh = "ef_key_hash key" and ?off = "ef_slot_to_offset sample_db 2"
  note lf = locked_facts[OF sample_wf]
  have "ef_hash_home 16 ?kh < unat (16 :: u32)" by (rule hash_home_less) simp
  then have "fst (ef_index_put_entry (locked sample_db) ?kh ?off) = EF_OK"
    using put_entry_ok[of "locked sample_db" 64 ?kh 15 ?off] sample_not_occ lf(2)
    by (simp add: locked_def lock_entries)
  then obtain added d where put: "ef_index_put_entry (locked sample_db) ?kh ?off = (EF_OK, added, d)"
    by (cases "ef_index_put_entry (locked sample_db) ?kh ?off") auto
  have "(2 :: u64) < max_slots (sb sample_db)" by simp
  then have off: "?off \<noteq> 0" by (rule slot_offset_neq_0[OF sample_wf])
  have loff: "ef_slot_to_offset (locked sample_db) 2 = ?off"
    by (rule offset_cong(1)[THEN fun_cong]) (simp_all add: locked_def)
  have grow: "\<not> ef_index_needs_grow 0 16" by (simp add: ef_index_needs_grow_def ef_policy_defs)
  have "hash_entry_count (locked sample_db) = 0" "hash_capacity (locked sample_db) = 16" "hash_index (locked sample_db) = Some 64"
    by (simp_all add: locked_def)
  then have "ef_index_put env sample_db key 2 = put_locked (locked sample_db) ?kh ?off"
    using write_begin_ready[OF sample_ready] loff off grow
    by (simp add: ef_index_put_def ef_index_require_write_def ef_txn_active_def Let_def)
  then have "fst (ef_index_put env sample_db key 2) = EF_OK" by (simp add: put_locked_def put Let_def)
  then show thesis using that by (cases "ef_index_put env sample_db key 2") auto
qed

text \<open>
  C12: after \<^verbatim>\<open>ef_index_put\<close> stores a slot id under a key, \<^verbatim>\<open>ef_index_get\<close> returns that id for the key and
  the same answer as before for every key with another hash; slots and the layout are untouched,
  and the index is ready for the next operation: lock free, sequence counter even, entry counter
  equal to the number of keys.
\<close>

theorem index_put_then_get:
  assumes "index_ready db" "\<not> ef_index_needs_grow (hash_entry_count db) (hash_capacity db)"
    "i < max_slots (sb db)" "ef_index_put env db key i = (EF_OK, db')"
  shows "ef_index_get db' key = Inr i \<and>
         (\<forall>key'. ef_key_hash key' \<noteq> ef_key_hash key \<longrightarrow> ef_index_get db' key' = ef_index_get db key') \<and>
         (\<forall>j. db_slot db' j = db_slot db j) \<and> index_ready db'"
proof -
  note p = put_ready[OF assms]
  have wf: "wf_layout db" using assms(1) by (simp add: index_ready_def)
  have "ef_offset_to_slot_id db' = ef_offset_to_slot_id db"
    using p(4) by (intro offset_cong(2)) (simp_all add: same_layout_def)
  then show ?thesis
    using p(1-3) index_get_lookup[OF p(1)] index_get_lookup[OF assms(1)] offset_to_slot_id_roundtrip[OF wf assms(3)]
    by (simp split: option.split)
qed

theorem index_put_then_get_witness:
  "\<forall>env. \<exists>db'. ef_index_put env sample_db [107, 49] 2 = (EF_OK, db') \<and> ef_index_get db' [107, 49] = Inr 2"
proof
  fix env
  obtain db' where run: "ef_index_put env sample_db [107, 49] 2 = (EF_OK, db')" by (rule sample_put_api)
  have "\<not> ef_index_needs_grow (hash_entry_count sample_db) (hash_capacity sample_db)"
    by (simp add: ef_index_needs_grow_def ef_policy_defs)
  then show "\<exists>db'. ef_index_put env sample_db [107, 49] 2 = (EF_OK, db') \<and> ef_index_get db' [107, 49] = Inr 2"
    using index_put_then_get[OF sample_ready _ _ run] run by simp
qed

text \<open>
  C17: when a key is present and no shrink of the table is due, \<^verbatim>\<open>ef_index_remove\<close> succeeds, \<^verbatim>\<open>ef_index_get\<close>
  no longer finds the key, and every key with another hash keeps its answer.
\<close>

theorem index_remove_then_get:
  assumes "index_ready db" "ef_index_get db key = Inr i"
    "ef_index_pick_shrink_capacity (hash_entry_count db - 1) (hash_capacity db) = 0"
  shows "\<exists>db'. ef_index_remove env db key = (EF_OK, db') \<and> index_ready db' \<and>
         ef_index_get db' key = Inl EF_ERR_NOT_FOUND \<and>
         (\<forall>key'. ef_key_hash key' \<noteq> ef_key_hash key \<longrightarrow> ef_index_get db' key' = ef_index_get db key')"
proof -
  have "index_lookup db (ef_key_hash key) \<noteq> None" using assms(2) index_get_lookup[OF assms(1), of key] by (auto split: option.splits)
  from remove_ready[OF assms(1) this assms(3)] obtain db' where
    d: "ef_index_remove env db key = (EF_OK, db')" "index_ready db'"
      "index_lookup db' = (index_lookup db)(ef_key_hash key := None)" "same_layout db db'" by blast
  have "ef_offset_to_slot_id db' = ef_offset_to_slot_id db"
    using d(4) by (intro offset_cong(2)) (simp_all add: same_layout_def)
  then show ?thesis
    using d index_get_lookup[OF d(2)] index_get_lookup[OF assms(1)] by (simp split: option.split)
qed

theorem index_remove_then_get_witness:
  "\<forall>env. \<exists>db' db''. ef_index_put env sample_db [107] 2 = (EF_OK, db') \<and>
     ef_index_remove env db' [107] = (EF_OK, db'') \<and> ef_index_get db'' [107] = Inl EF_ERR_NOT_FOUND"
proof
  fix env
  obtain db' where run: "ef_index_put env sample_db [107] 2 = (EF_OK, db')" by (rule sample_put_api)
  have grow: "\<not> ef_index_needs_grow (hash_entry_count sample_db) (hash_capacity sample_db)"
    by (simp add: ef_index_needs_grow_def ef_policy_defs)
  have two: "(2 :: u64) < max_slots (sb sample_db)" by simp
  note p = put_ready[OF sample_ready grow two run]
  have get: "ef_index_get db' [107] = Inr 2"
    using p(2) index_get_lookup[OF p(1)] offset_to_slot_id_roundtrip[OF sample_wf two] offset_cong(2)[of db' sample_db] p(4)
    by (simp add: same_layout_def)
  have "dom (index_lookup db') = {ef_key_hash [107]}" unfolding p(2) by (auto simp: sample_empty_index split: if_splits)
  then have "unat (hash_entry_count db') = 1" using p(1) by (simp add: index_ready_def index_counted_def)
  then have "hash_entry_count db' = 1" by (metis unat_1 word_unat_eq_iff)
  moreover have "hash_capacity db' = 16" using p(4) by (simp add: same_layout_def)
  moreover have "ef_index_pick_shrink_capacity 0 16 = 0" by (simp add: ef_index_pick_shrink_capacity_def ef_policy_defs)
  ultimately have "ef_index_pick_shrink_capacity (hash_entry_count db' - 1) (hash_capacity db') = 0" by simp
  from index_remove_then_get[OF p(1) get this, of env] run
  show "\<exists>db' db''. ef_index_put env sample_db [107] 2 = (EF_OK, db') \<and>
     ef_index_remove env db' [107] = (EF_OK, db'') \<and> ef_index_get db'' [107] = Inl EF_ERR_NOT_FOUND" by blast
qed

end
