(* ===== verification/Undo_Props.thy ===== *)
theory Undo_Props
  imports Txn Queue_Props
begin

text \<open>
  The undo log as a list of records. \<open>log_holds db recs\<close> says that the log area holds exactly the
  records \<open>recs\<close>; appending extends the list and touches nothing below the log, and the reverse
  replay meets the records in reverse order.
\<close>

subsection \<open>Writing and reading a record\<close>

definition undo_rec :: "u8 \<Rightarrow> u64 \<Rightarrow> u64 \<Rightarrow> u8 list option \<Rightarrow> ef_undo_record" where
  "undo_rec kind target aux_v before_bytes =
     \<lparr>undo_kind = kind, undo_flags = 0, undo_size = 32, target_offset = target, undo_aux = aux_v,
      before = (case before_bytes of None \<Rightarrow> replicate 12 0 | Some bs \<Rightarrow> take 12 bs)\<rparr>"

lemma load_u8_mem_set: "load_u8 (mem_set m a v n) b = (if a \<le> b \<and> b < a + n then v else load_u8 m b)"
  by (simp add: load_u8_def mem_set_def)

lemma undo_record_write_read:
  assumes "\<And>bs. before_bytes = Some bs \<Longrightarrow> 12 \<le> length bs"
  shows "undo_record_of (undo_record_write m p kind target aux_v before_bytes) p = undo_rec kind target aux_v before_bytes"
proof (cases before_bytes)
  case None
  then show ?thesis
    by (simp add: undo_record_of_def undo_record_write_def undo_rec_def store_defs word_loads disjoint_simps
        load_bytes_store_same load_bytes_mem_set_inside EF_UNDO_RECORD_SIZE_def)
next
  case (Some bs)
  then have "length (take 12 bs) = 12" using assms[of bs] by simp
  with Some show ?thesis
    by (simp add: undo_record_of_def undo_record_write_def undo_rec_def store_defs word_loads disjoint_simps
        load_bytes_store_same EF_UNDO_RECORD_SIZE_def)
qed

lemma store_bytes_outside: "x < a \<or> a + length bs \<le> x \<Longrightarrow> store_bytes m a bs x = m x"
  by (auto simp: store_bytes_def)

lemma mem_set_outside: "x < a \<or> a + n \<le> x \<Longrightarrow> mem_set m a v n x = m x"
  by (auto simp: mem_set_def)

lemma undo_record_write_outside:
  "x < p \<or> p + 32 \<le> x \<Longrightarrow> undo_record_write m p kind target aux_v bb x = m x"
  by (auto simp: undo_record_write_def Let_def store_defs store_bytes_outside mem_set_outside split: option.split)

lemma undo_header_write_outside: "x < h \<or> h + 32 \<le> x \<Longrightarrow> undo_header_write m h t c x = m x"
  by (auto simp: undo_header_write_def Let_def store_defs store_bytes_outside)

lemma undo_header_write_read:
  "log_tail (undo_header_of (undo_header_write m h t c) h) = t"
  "undo_magic (undo_header_of (undo_header_write m h t c) h) = EF_UNDO_HEADER_MAGIC"
  "record_count (undo_header_of (undo_header_write m h t c) h) = c"
  by (simp_all add: undo_header_write_def undo_header_of_def Let_def store_defs word_loads disjoint_simps
      load_bytes_store_same)

lemma undo_record_cong:
  assumes "\<And>x. p \<le> x \<Longrightarrow> x < p + 32 \<Longrightarrow> m x = m' x"
  shows "undo_record_of m p = undo_record_of m' p"
proof -
  have "load_bytes m (p + o') n = load_bytes m' (p + o') n" if "o' + n \<le> 32" for o' n
    by (rule load_bytes_cong) (use assms that in auto)
  from this[of 2 2] this[of 4 8] this[of 12 8] this[of 20 12]
  show ?thesis using assms by (simp add: undo_record_of_def word_loads load_u8_def)
qed

subsection \<open>The log\<close>

text \<open>The log lies behind the slots and its size does not wrap around.\<close>

definition undo_area_ok :: "ef_db \<Rightarrow> bool" where
  "undo_area_ok db \<longleftrightarrow>
     wf_layout db \<and> slot_ptr (unat (slots_base db)) (unat (max_slots (sb db))) \<le> unat (undo_log_base db) \<and>
     unat (undo_log_slots db) \<le> 4096 \<and>
     unat (undo_log_base db) + (32 + 32 * unat (undo_log_slots db)) \<le> unat (file_size db)"

abbreviation rec_ptr :: "ef_db \<Rightarrow> nat \<Rightarrow> nat" where
  "rec_ptr db k \<equiv> unat (undo_log_base db) + (32 + 32 * k)"

definition log_image :: "ef_db \<Rightarrow> ef_undo_record list \<Rightarrow> bool" where
  "log_image db recs \<longleftrightarrow>
     length recs \<le> unat (undo_log_slots db) \<and>
     (\<forall>k < length recs. undo_record_of (mem db) (rec_ptr db k) = recs ! k) \<and>
     (let hd = undo_header_of (mem db) (unat (undo_log_base db)) in
      if recs = [] then undo_magic hd = 0 \<or> log_tail hd = 32
      else undo_magic hd \<noteq> 0 \<and> unat (log_tail hd) = 32 + 32 * length recs)"

text \<open>The handle that writes the log keeps its length too.\<close>

definition log_holds :: "ef_db \<Rightarrow> ef_undo_record list \<Rightarrow> bool" where
  "log_holds db recs \<longleftrightarrow> log_image db recs \<and> unat (undo_tail db) = 32 + 32 * length recs"

lemma undo_header_cong:
  assumes "\<And>x. h \<le> x \<Longrightarrow> x < h + 32 \<Longrightarrow> m x = m' x"
  shows "undo_header_of m h = undo_header_of m' h"
proof -
  have "load_bytes m (h + o') n = load_bytes m' (h + o') n" if "o' + n \<le> 32" for o' n
    by (rule load_bytes_cong) (use assms that in auto)
  from this[of 0 4] this[of 4 4] this[of 8 8] this[of 16 4] this[of 20 4] this[of 24 8]
  show ?thesis using assms by (simp add: undo_header_of_def word_loads)
qed

text \<open>Writes below the log leave it alone.\<close>

lemma log_image_keep:
  assumes "\<And>x. unat (undo_log_base db) \<le> x \<Longrightarrow> mem db' x = mem db x"
    and "undo_log_base db' = undo_log_base db" "undo_log_slots db' = undo_log_slots db"
  shows "log_image db' recs = log_image db recs"
proof -
  have "undo_record_of (mem db') (rec_ptr db k) = undo_record_of (mem db) (rec_ptr db k)" for k
    by (intro undo_record_cong assms(1)) simp
  moreover have "undo_header_of (mem db') (unat (undo_log_base db)) = undo_header_of (mem db) (unat (undo_log_base db))"
    by (intro undo_header_cong assms(1)) simp
  ultimately show ?thesis using assms(2,3) by (simp add: log_image_def)
qed

lemma log_image_butlast:
  assumes "log_image db (recs @ [r])"
  shows "\<forall>k < length recs. undo_record_of (mem db) (rec_ptr db k) = recs ! k"
    "undo_record_of (mem db) (rec_ptr db (length recs)) = r"
  using assms by (auto simp: log_image_def nth_append split: if_splits)

text \<open>\<open>log_only db db'\<close>: nothing but the log and its two counters in the handle has changed.\<close>

definition log_only :: "ef_db \<Rightarrow> ef_db \<Rightarrow> bool" where
  "log_only db db' \<longleftrightarrow>
     (\<exists>m t c d e. db' = db\<lparr>mem := m, undo_tail := t, undo_record_count := c, sb_meta_dirty := d, last_err := e\<rparr> \<and>
        (\<forall>x < unat (undo_log_base db). m x = mem db x))"

lemma undo_above_base: "undo_area_ok db \<Longrightarrow> unat (slots_base db) \<le> unat (undo_log_base db)"
  unfolding undo_area_ok_def using le_trans[OF slot_ptr_ge] by blast

lemma undo_base: "undo_area_ok db \<Longrightarrow> 64 \<le> unat (undo_log_base db) \<and> undo_log_base db \<noteq> 0 \<and> mapped db"
proof -
  assume ok: "undo_area_ok db"
  then have "wf_layout db" by (simp add: undo_area_ok_def)
  from le_trans[OF wf_layout_base_ge[OF this] undo_above_base[OF ok]]
  have "64 \<le> unat (undo_log_base db)" .
  then show ?thesis using ok by (auto simp: undo_area_ok_def)
qed

lemma undo_bytes:
  assumes "undo_area_ok db"
  shows "unat (undo_log_bytes db) = 32 + 32 * unat (undo_log_slots db)"
proof -
  have "unat (ucast (undo_log_slots db) * 32 :: u64) = unat (undo_log_slots db) * 32"
    using assms by (subst unat_mult_u64) (simp_all add: undo_area_ok_def)
  then show ?thesis
    using assms by (simp add: undo_log_bytes_def ef_undo_size_defs unat_word_ariths undo_area_ok_def)
qed

lemma log_only_facts:
  assumes ok: "undo_area_ok db" and lo: "log_only db db'"
  shows "sb db' = sb db" "i < max_slots (sb db) \<Longrightarrow> db_slot db' i = db_slot db i" "same_layout db db'"
    "table db' = table db" "undo_area_ok db'" "txn_active db' = txn_active db" "readonly db' = readonly db"
    "hash_entry_count db' = hash_entry_count db" "undo_log_base db' = undo_log_base db" "undo_log_slots db' = undo_log_slots db"
proof -
  obtain m t c d e where db': "db' = db\<lparr>mem := m, undo_tail := t, undo_record_count := c, sb_meta_dirty := d, last_err := e\<rparr>"
    and eq: "\<And>x. x < unat (undo_log_base db) \<Longrightarrow> m x = mem db x"
    using lo unfolding log_only_def by blast
  have wf: "wf_layout db" using ok by (simp add: undo_area_ok_def)
  show sb: "sb db' = sb db" unfolding db' using undo_base[OF ok] eq by (simp, intro sb_of_cong) simp
  show "db_slot db' i = db_slot db i" if "i < max_slots (sb db)"
  proof -
    have "db_slot_ptr db i + 64 \<le> slot_ptr (unat (slots_base db)) (unat (max_slots (sb db)))"
      using that by (intro slot_ptr_less) (simp add: word_less_nat_alt)
    then have "slot_at m (db_slot_ptr db i) = db_slot db i"
      using ok by (intro slot_at_cong eq) (simp add: undo_area_ok_def)
    then show ?thesis by (simp add: db')
  qed
  show lay: "same_layout db db'" using sb by (simp add: db' same_layout_def)
  have "64 + 16 * unat (hash_capacity db) \<le> unat (undo_log_base db)"
    using undo_above_base[OF ok] wf_layout_base[OF wf] by simp
  then show "table db' = table db" unfolding table_def db' by (simp, intro table_of_cong eq) simp
  show "undo_area_ok db'" using ok same_layout_wf[OF lay] sb by (simp add: undo_area_ok_def db')
  show "txn_active db' = txn_active db" "readonly db' = readonly db" "hash_entry_count db' = hash_entry_count db"
    "undo_log_base db' = undo_log_base db" "undo_log_slots db' = undo_log_slots db"
    by (simp_all add: db')
qed

lemma append_ok:
  assumes ok: "undo_area_ok db" and act: "txn_active db" and log: "log_holds db recs"
    and room: "length recs < unat (undo_log_slots db)"
    and bb: "\<And>bs. before_bytes = Some bs \<Longrightarrow> 12 \<le> length bs"
  obtains db' where "ef_undo_record_append db kind target aux_v before_bytes = (EF_OK, db')"
    "log_only db db'" "log_holds db' (recs @ [undo_rec kind target aux_v before_bytes])"
proof -
  let ?h = "unat (undo_log_base db)" and ?t = "undo_tail db + EF_UNDO_RECORD_SIZE" and ?c = "undo_record_count db + 1"
  let ?p = "?h + unat (undo_tail db)"
  define m where "m = undo_header_write (undo_record_write (mem db) ?p kind target aux_v before_bytes) ?h ?t ?c"
  define db' where "db' = ef_db_mark_meta_dirty (db\<lparr>mem := m, undo_tail := ?t, undo_record_count := ?c\<rparr>)"
  have tail: "unat (undo_tail db) = 32 + 32 * length recs" using log by (simp add: log_holds_def log_image_def)
  have n: "length recs < 4096" using room ok by (simp add: undo_area_ok_def)
  have t: "unat ?t = 32 + 32 * Suc (length recs)"
    using tail n by (simp add: EF_UNDO_RECORD_SIZE_def unat_word_ariths)
  note bytes = undo_bytes[OF ok]
  have fits: "\<not> undo_log_bytes db < ?t" using t bytes room by (simp add: word_less_nat_alt)
  have run: "ef_undo_record_append db kind target aux_v before_bytes = (EF_OK, db')"
    using act undo_base[OF ok] fits
    by (simp add: ef_undo_record_append_def ef_txn_active_def ef_undo_header_ptr_def db'_def m_def Let_def)
  have low: "m x = mem db x" if "x < ?h" for x
    using that by (simp add: m_def undo_header_write_outside undo_record_write_outside)
  have "log_only db db'"
  proof -
    have "\<exists>d. db' = db\<lparr>mem := m, undo_tail := ?t, undo_record_count := ?c, sb_meta_dirty := d, last_err := last_err db\<rparr>"
    proof (cases "(\<not> mapped db \<or> readonly db) \<or> flags (sb_of m) AND EF_FLAG_SB_CRC = 0")
      case True
      then show ?thesis by (intro exI[of _ "sb_meta_dirty db"]) (auto simp: db'_def ef_db_mark_meta_dirty_def)
    next
      case False
      then show ?thesis by (intro exI[of _ True]) (simp add: db'_def ef_db_mark_meta_dirty_def)
    qed
    then show ?thesis using low unfolding log_only_def by blast
  qed
  moreover have "log_holds db' (recs @ [undo_rec kind target aux_v before_bytes])"
  proof -
    have f: "mem db' = m" "undo_log_base db' = undo_log_base db" "undo_log_slots db' = undo_log_slots db" "undo_tail db' = ?t"
      by (simp_all add: db'_def ef_db_mark_meta_dirty_def)
    have old: "undo_record_of m (rec_ptr db k) = recs ! k" if "k < length recs" for k
    proof -
      have "undo_record_of m (rec_ptr db k) = undo_record_of (mem db) (rec_ptr db k)"
        using that tail by (intro undo_record_cong) (simp add: m_def undo_header_write_outside undo_record_write_outside)
      then show ?thesis using that log by (simp add: log_holds_def log_image_def)
    qed
    have new: "undo_record_of m (rec_ptr db (length recs)) = undo_rec kind target aux_v before_bytes"
    proof -
      have p: "rec_ptr db (length recs) = ?p" using tail by simp
      have "undo_record_of m ?p = undo_record_of (undo_record_write (mem db) ?p kind target aux_v before_bytes) ?p"
        using tail by (intro undo_record_cong) (simp add: m_def undo_header_write_outside)
      then show ?thesis unfolding p by (simp add: undo_record_write_read[OF bb])
    qed
    have "undo_record_of m (rec_ptr db k) = (recs @ [undo_rec kind target aux_v before_bytes]) ! k" if "k < Suc (length recs)" for k
      using that old new by (cases "k = length recs") (simp_all add: nth_append)
    moreover have "undo_magic (undo_header_of m ?h) \<noteq> 0" "log_tail (undo_header_of m ?h) = ?t"
      by (simp_all add: m_def undo_header_write_read EF_UNDO_HEADER_MAGIC_def)
    ultimately show ?thesis using t room by (simp add: log_holds_def log_image_def f)
  qed
  ultimately show thesis using that run by blast
qed

subsection \<open>Replay\<close>

text \<open>
  The replay takes the last record first. It reads the tail from the header once and the records
  as it meets them, so what it needs of the log are the records still ahead of it.
\<close>

definition log_ahead :: "ef_db \<Rightarrow> ef_undo_record list \<Rightarrow> bool" where
  "log_ahead db recs \<longleftrightarrow>
     length recs \<le> unat (undo_log_slots db) \<and>
     (\<forall>k < length recs. undo_record_of (mem db) (rec_ptr db k) = recs ! k)"

lemma log_image_ahead: "log_image db recs \<Longrightarrow> log_ahead db recs"
  by (simp add: log_image_def log_ahead_def)

lemma log_ahead_last:
  assumes "log_ahead db (recs @ [r])"
  shows "log_ahead db recs" "undo_record_of (mem db) (rec_ptr db (length recs)) = r"
  using assms by (auto simp: log_ahead_def nth_append split: if_splits)

lemma log_ahead_keep:
  assumes "\<And>x. unat (undo_log_base db) \<le> x \<Longrightarrow> mem db' x = mem db x"
    and "undo_log_base db' = undo_log_base db" "undo_log_slots db' = undo_log_slots db"
  shows "log_ahead db' recs = log_ahead db recs"
proof -
  have "undo_record_of (mem db') (rec_ptr db k) = undo_record_of (mem db) (rec_ptr db k)" for k
    by (intro undo_record_cong assms(1)) simp
  then show ?thesis using assms(2,3) by (simp add: log_ahead_def)
qed

lemma replay_last:
  assumes log: "log_ahead db (recs @ [r])"
  shows "replay_loop env h (of_nat (32 + 32 * length (recs @ [r]))) db =
    (case undo_apply env db (h + (32 + 32 * length recs)) of
       (err, db') \<Rightarrow> if err \<noteq> EF_OK then (err, db')
                    else replay_loop env h (of_nat (32 + 32 * length recs)) db')"
proof -
  let ?n = "length recs"
  have "Suc ?n \<le> unat (undo_log_slots db)" using log by (simp add: log_ahead_def)
  moreover have "unat (undo_log_slots db) < 2 ^ 32" by (rule unat_u32_bound)
  ultimately have tot: "32 + 32 * Suc ?n < 2 ^ 64" by simp
  have pos: "unat (of_nat (32 + 32 * Suc ?n) :: u64) = 32 + 32 * Suc ?n" by (rule unat_of_nat_u64[OF tot])
  have small: "unat (of_nat (32 + 32 * ?n) :: u64) = 32 + 32 * ?n" using tot by (intro unat_of_nat_u64) simp
  have sub: "of_nat (32 + 32 * Suc ?n) - EF_UNDO_RECORD_SIZE = (of_nat (32 + 32 * ?n) :: u64)"
    by (simp add: EF_UNDO_RECORD_SIZE_def)
  have "EF_UNDO_HEADER_SIZE < (of_nat (32 + 32 * Suc ?n) :: u64)"
    unfolding word_less_nat_alt pos by (simp add: EF_UNDO_HEADER_SIZE_def)
  then show ?thesis
    by (subst replay_loop.simps) (simp only: Let_def sub small length_append list.size add_0_right add_Suc_right if_True)
qed

lemma replay_done: "replay_loop env h (of_nat (32 + 32 * length [])) db = (EF_OK, db)"
  by (subst replay_loop.simps) (simp add: EF_UNDO_HEADER_SIZE_def)

lemma replay_start:
  assumes ok: "undo_area_ok db" and log: "log_image db recs"
  shows "ef_undo_replay_reverse env db = replay_loop env (unat (undo_log_base db)) (of_nat (32 + 32 * length recs)) db"
proof (cases recs)
  case Nil
  then show ?thesis
    using log undo_base[OF ok] replay_done[of env]
    by (auto simp: log_image_def Let_def ef_undo_replay_reverse_def ef_undo_header_ptr_def)
next
  case (Cons r rs)
  let ?t = "log_tail (undo_header_of (mem db) (unat (undo_log_base db)))"
  have tail: "unat ?t = 32 + 32 * length recs" using log Cons by (simp add: log_image_def Let_def)
  have t: "?t = of_nat (32 + 32 * length recs)" unfolding tail[symmetric] by simp
  have "undo_magic (undo_header_of (mem db) (unat (undo_log_base db))) \<noteq> 0"
    using log Cons by (simp add: log_image_def Let_def)
  then show ?thesis
    using undo_base[OF ok] t by (simp add: ef_undo_replay_reverse_def ef_undo_header_ptr_def)
qed

end
