(* ===== verification/Txn_Alloc.thy ===== *)
theory Txn_Alloc
  imports Undo_Props
begin

text \<open>
  Allocation inside a transaction and its undoing. Each allocation appends two records, one for
  the slot and one for the free count; the replay of an abort or of a crash recovery puts the
  slots back at the head of the free list, last one first.
\<close>

subsection \<open>States with an open transaction\<close>

text \<open>\<open>log_kept db db'\<close>: the log and what the handle knows of it are the same.\<close>

definition log_kept :: "ef_db \<Rightarrow> ef_db \<Rightarrow> bool" where
  "log_kept db db' \<longleftrightarrow>
     (\<forall>x \<ge> unat (undo_log_base db). mem db' x = mem db x) \<and> undo_log_base db' = undo_log_base db \<and>
     undo_log_slots db' = undo_log_slots db \<and> undo_tail db' = undo_tail db \<and>
     undo_record_count db' = undo_record_count db"

lemma log_kept_holds:
  assumes "log_kept db db'"
  shows "log_image db' recs = log_image db recs" "log_ahead db' recs = log_ahead db recs"
    "log_holds db' recs = log_holds db recs"
proof -
  have k: "\<And>x. unat (undo_log_base db) \<le> x \<Longrightarrow> mem db' x = mem db x"
    "undo_log_base db' = undo_log_base db" "undo_log_slots db' = undo_log_slots db" "undo_tail db' = undo_tail db"
    using assms by (simp_all add: log_kept_def)
  show "log_image db' recs = log_image db recs" "log_ahead db' recs = log_ahead db recs"
    by (rule log_image_keep[OF k(1-3)] log_ahead_keep[OF k(1-3)]; simp)+
  then show "log_holds db' recs = log_holds db recs" using k(4) by (simp add: log_holds_def)
qed

lemma log_kept_trans: "log_kept a b \<Longrightarrow> log_kept b c \<Longrightarrow> log_kept a c"
  by (simp add: log_kept_def)

lemma undo_area_kept:
  "same_layout db db' \<Longrightarrow> log_kept db db' \<Longrightarrow> undo_area_ok db' = undo_area_ok db"
  using same_layout_wf[of db db'] by (simp add: undo_area_ok_def log_kept_def same_layout_def)

lemma log_only_trans:
  assumes "log_only a b" "log_only b c"
  shows "log_only a c"
proof -
  obtain m t n d e where b: "b = a\<lparr>mem := m, undo_tail := t, undo_record_count := n, sb_meta_dirty := d, last_err := e\<rparr>"
    and mb: "\<forall>x < unat (undo_log_base a). m x = mem a x"
    using assms(1) unfolding log_only_def by blast
  obtain m' t' n' d' e' where c: "c = b\<lparr>mem := m', undo_tail := t', undo_record_count := n', sb_meta_dirty := d', last_err := e'\<rparr>"
    and mc: "\<forall>x < unat (undo_log_base b). m' x = mem b x"
    using assms(2) unfolding log_only_def by blast
  have "c = a\<lparr>mem := m', undo_tail := t', undo_record_count := n', sb_meta_dirty := d', last_err := e'\<rparr>"
    by (simp add: b c)
  moreover have "\<forall>x < unat (undo_log_base a). m' x = mem a x" using mb mc by (simp add: b)
  ultimately show ?thesis unfolding log_only_def by blast
qed

lemma log_only_inv:
  assumes "undo_area_ok db" "log_only db db'"
  shows "free_list_inv db' ids = free_list_inv db ids"
proof -
  note f = log_only_facts[OF assms]
  have "free_chain db' off ids = free_chain db off ids" for off
  proof (induction ids arbitrary: off)
    case (Cons i ids)
    show ?case
    proof (cases "i < max_slots (sb db)")
      case True
      then show ?thesis by (simp only: free_chain.simps f(1) f(2)[OF True] same_layout_offset[OF f(3)] Cons)
    next
      case False
      then show ?thesis by (simp add: f(1))
    qed
  qed simp
  then show ?thesis using f(1) same_layout_wf[OF f(3)] by (simp add: free_list_inv_def)
qed

text \<open>A handle whose transaction is open, with the records written so far.\<close>

definition in_txn :: "ef_db \<Rightarrow> ef_undo_record list \<Rightarrow> bool" where
  "in_txn db recs \<longleftrightarrow>
     undo_area_ok db \<and> EF_SCHEMA_VERSION \<le> schema_version (sb db) \<and> \<not> readonly db \<and> txn_active db \<and>
     index_write_lock (sb db) = 0 \<and> log_holds db recs"

subsection \<open>Allocating in a transaction\<close>

definition alloc_recs :: "ef_db \<Rightarrow> u64 \<times> u32 \<Rightarrow> ef_undo_record list" where
  "alloc_recs db = (\<lambda>(i, crc).
     [undo_rec EF_UNDO_KIND_SLOT_ALLOC (ef_slot_to_offset db i) 0
        (Some (le_bytes 4 EF_STATUS_FREE @ le_bytes 4 crc @ replicate 4 0)),
      undo_rec EF_UNDO_KIND_FREE_COUNT 0 (word_of_int (- 1)) None])"

lemma above_slot:
  assumes "p + 64 \<le> x"
  shows "set_status m p v x = m x" "set_header_crc m p v x = m x" "set_next_offset m p w x = m x"
    "mem (ef_slot_header_crc_store db i p) x = mem db x" "mem (clear_payload_at db p) x = mem db x"
proof -
  show w: "set_status m p v x = m x" "set_header_crc m p v x = m x" "set_next_offset m p w x = m x" for m v w
    using assms by (simp_all add: set_slot_defs store_defs store_bytes_outside)
  show "mem (ef_slot_header_crc_store db i p) x = mem db x" by (simp add: mem_crc_store w)
  obtain k n where "mem (clear_payload_at db p) = store_bytes (mem db) (p + k) (replicate n 0)" "k + n \<le> 56"
    by (rule mem_clear_payload)
  then show "mem (clear_payload_at db p) x = mem db x" using assms by (simp add: store_bytes_outside)
qed

lemma above_sb:
  assumes "64 \<le> x"
  shows "set_free_list_head m v x = m x" "set_free_count m w x = m x" "set_index_write_lock m b x = m x"
    "set_txn_lock m b x = m x" "set_sb_txn_state m b x = m x"
    "ef_sb_free_count_dec m x = m x"
  using assms by (simp_all add: set_sb_defs store_defs store_bytes_outside ef_sb_free_count_dec_def)

lemma pop_state_above:
  assumes "db_slot_ptr db i + 64 \<le> x"
  shows "mem (pop_state db i c) x = mem db x"
proof -
  have "64 \<le> x" using assms by simp
  with assms show ?thesis by (simp add: pop_state_def Let_def above_slot above_sb)
qed

lemma undo_above_slot: "undo_area_ok db \<Longrightarrow> i < max_slots (sb db) \<Longrightarrow> db_slot_ptr db i + 64 \<le> unat (undo_log_base db)"
  unfolding undo_area_ok_def word_less_nat_alt
  using le_trans[OF slot_ptr_less[of "unat i" "unat (max_slots (sb db))" "unat (slots_base db)"]] by blast

lemma pop_state_kept:
  assumes "undo_area_ok db" "i < max_slots (sb db)"
  shows "log_kept db (pop_state db i c)"
proof -
  have "mem (pop_state db i c) x = mem db x" if "unat (undo_log_base db) \<le> x" for x
    by (rule pop_state_above[OF le_trans[OF undo_above_slot[OF assms] that]])
  then show ?thesis by (simp add: log_kept_def) (simp add: pop_state_def Let_def)
qed

lemma lock_kept: "undo_area_ok db \<Longrightarrow> log_kept db (db\<lparr>mem := set_index_write_lock (mem db) v\<rparr>)"
proof -
  assume "undo_area_ok db"
  then have "64 \<le> unat (undo_log_base db)" by (simp add: undo_base)
  then have "set_index_write_lock (mem db) v x = mem db x" if "unat (undo_log_base db) \<le> x" for x
    using that by (intro above_sb(3)) simp
  then show ?thesis by (simp add: log_kept_def)
qed

lemma log_holds_error: "log_holds (ef_set_error db e) recs = log_holds db recs"
  by (rule log_kept_holds(3)) (simp add: log_kept_def)

lemma free_list_inv_error: "free_list_inv (ef_set_error db e) ids = free_list_inv db ids"
  by (rule free_list_inv_cong) (simp_all add: same_layout_def)

text \<open>The two records written by an allocation, with the lock on the index held.\<close>

lemma alloc_append:
  assumes ok: "undo_area_ok db" and act: "txn_active db" and log: "log_holds db recs"
    and room: "length recs + 2 \<le> unat (undo_log_slots db)"
  obtains db' where "snd (ef_txn_record_free_count (snd (ef_txn_record_slot_alloc db i EF_STATUS_FREE crc)) (- 1)) = db'"
    "log_only db db'" "log_holds db' (recs @ alloc_recs db (i, crc))"
proof -
  let ?r = "undo_rec EF_UNDO_KIND_SLOT_ALLOC (ef_slot_to_offset db i) 0
        (Some (le_bytes 4 EF_STATUS_FREE @ le_bytes 4 crc @ replicate 4 0))"
  have room1: "length recs < unat (undo_log_slots db)" using room by simp
  obtain d where d: "ef_txn_record_slot_alloc db i EF_STATUS_FREE crc = (EF_OK, d)" "log_only db d" "log_holds d (recs @ [?r])"
    by (rule append_ok[OF ok act log room1, where kind = EF_UNDO_KIND_SLOT_ALLOC and target = "ef_slot_to_offset db i" and aux_v = 0
          and before_bytes = "Some (le_bytes 4 EF_STATUS_FREE @ le_bytes 4 crc @ replicate 4 0)"])
       (use act in \<open>auto simp: ef_txn_record_slot_alloc_def ef_txn_active_def\<close>)
  note f = log_only_facts[OF ok d(2)]
  have act': "txn_active d" and room2: "length (recs @ [?r]) < unat (undo_log_slots d)" using act f(6,10) room by simp_all
  let ?c = "undo_rec EF_UNDO_KIND_FREE_COUNT 0 (word_of_int (- 1)) None"
  obtain d' where d': "ef_txn_record_free_count d (- 1) = (EF_OK, d')" "log_only d d'" "log_holds d' ((recs @ [?r]) @ [?c])"
    by (rule append_ok[OF f(5) act' d(3) room2, of None EF_UNDO_KIND_FREE_COUNT 0 "word_of_int (- 1)"])
       (use act' in \<open>simp_all add: ef_txn_record_free_count_def ef_txn_active_def\<close>)
  have run: "snd (ef_txn_record_free_count (snd (ef_txn_record_slot_alloc db i EF_STATUS_FREE crc)) (- 1)) = d'"
    using d(1) d'(1) by simp
  have "log_holds d' (recs @ alloc_recs db (i, crc))" using d'(3) by (simp add: alloc_recs_def)
  with that[OF run log_only_trans[OF d(2) d'(2)]] show thesis .
qed


lemma in_txn_facts:
  assumes "in_txn db recs"
  shows "undo_area_ok db" "wf_layout db" "EF_SCHEMA_VERSION \<le> schema_version (sb db)" "\<not> readonly db"
    "txn_active db" "index_write_lock (sb db) = 0" "log_holds db recs" "mapped db"
  using assms undo_base[of db] by (auto simp: in_txn_def undo_area_ok_def)

lemma free_list_inv_lock:
  assumes "wf_layout db"
  shows "free_list_inv (db\<lparr>mem := set_index_write_lock (mem db) v\<rparr>) ids = free_list_inv db ids"
  by (rule free_list_inv_touches[OF lock_touches[OF assms]]) simp_all

text \<open>What an allocation does to the state, transaction or not: slot \<open>i\<close> leaves the list.\<close>

definition taken :: "ef_db \<Rightarrow> ef_db \<Rightarrow> u64 \<Rightarrow> bool" where
  "taken db db' i \<longleftrightarrow>
     same_layout db db' \<and> table db' = table db \<and> hash_entry_count db' = hash_entry_count db \<and>
     undo_log_base db' = undo_log_base db \<and> undo_log_slots db' = undo_log_slots db \<and>
     sb db' = (sb db)\<lparr>free_list_head := next_offset (db_slot db i), free_count := free_count (sb db) - 1\<rparr> \<and>
     status (db_slot db' i) = EF_STATUS_USED \<and>
     (\<forall>j < max_slots (sb db). j \<noteq> i \<longrightarrow> db_slot db' j = db_slot db j)"

lemma alloc_in_txn:
  assumes txn: "in_txn db recs" and inv: "free_list_inv db (i # ids)"
    and room: "length recs + 2 \<le> unat (undo_log_slots db)"
  obtains db' crc where "ef_alloc_slot_ex db fl = (Inr i, db')" "free_list_inv db' ids" "taken db db' i"
    "in_txn db' (recs @ alloc_recs db (i, crc))"
proof -
  note t = in_txn_facts[OF txn]
  define c where "c \<longleftrightarrow> fl AND EF_ALLOC_ZERO_PAYLOAD \<noteq> 0"
  define l where "l = db\<lparr>mem := set_index_write_lock (mem db) 1\<rparr>"
  define d where "d = ef_set_error (pop_state l i c) EF_OK"
  define crc where "crc = header_crc (db_slot d i)"
  have linv: "free_list_inv l (i # ids)" using inv unfolding l_def free_list_inv_lock[OF t(2)] .
  note lt = lock_touches[OF t(2), of 1, folded l_def]
  have llay: "same_layout db l" by (rule touches_layout[OF lt])
  have wfl: "wf_layout l" using t(2) same_layout_wf[OF llay] by simp
  have lk: "log_kept db l" unfolding l_def by (rule lock_kept[OF t(1)])
  have okl: "undo_area_ok l" using t(1) undo_area_kept[OF llay lk] by simp
  have i: "i < max_slots (sb l)" using free_list_inv_head(2)[OF linv] .
  note ps = pop_state_slots[OF wfl, where i = i and c = c]
  have pk: "log_kept l (pop_state l i c)" by (rule pop_state_kept[OF okl i])
  have okd: "undo_area_ok d"
    using okl undo_area_kept[OF ps(1) pk] by (simp add: d_def undo_area_ok_def wf_layout_def)
  have logd: "log_holds d recs"
    unfolding d_def log_holds_error using t(7) log_kept_holds(3)[OF log_kept_trans[OF lk pk]] by simp
  have dmem: "mem d = mem (pop_state l i c)" "slots_base d = slots_base l"
    using ps(1) by (simp_all add: d_def same_layout_def)
  have dact: "txn_active d" "undo_log_slots d = undo_log_slots db" "mapped d"
    using t(5,8) by (simp_all add: d_def pop_state_def Let_def l_def)
  have dlay: "same_layout db d" using ps(1) llay by (simp add: same_layout_def d_def)
  have off: "ef_slot_to_offset d i = ef_slot_to_offset db i"
    unfolding same_layout_offset[OF dlay] ..
  obtain e where e: "snd (ef_txn_record_free_count (snd (ef_txn_record_slot_alloc d i EF_STATUS_FREE crc)) (- 1)) = e"
    "log_only d e" "log_holds e (recs @ alloc_recs d (i, crc))"
    by (rule alloc_append[OF okd dact(1) logd]) (use room dact(2) in simp)
  note ef = log_only_facts[OF okd e(2)]
  have sbd: "sb d = (sb l)\<lparr>free_list_head := next_offset (db_slot l i), free_count := free_count (sb l) - 1\<rparr>"
    using ps(5) by (simp add: dmem)
  define db' where "db' = e\<lparr>mem := set_index_write_lock (mem e) 0\<rparr>"
  have ve: "EF_SCHEMA_VERSION \<le> schema_version (sb e)" using t(3) by (simp add: ef(1) sbd l_def)
  have peek: "ef_peek_slot (pop_state l i c) i = (Some (db_slot_ptr d i), d)"
    using peek_ok[of "pop_state l i c" i] i ps(1) dact(3) by (simp add: d_def same_layout_def)
  have pact: "txn_active (pop_state l i c)" using dact(1) by (simp add: d_def)
  have run: "ef_alloc_slot_ex db fl = (Inr i, db')"
    using t pop_head[OF linv, of c] peek e(1) ve dact pact
    by (simp add: ef_alloc_slot_ex_def ef_db_require_write_def index_lock_take c_def[symmetric] l_def[symmetric]
        ef_txn_active_def index_lock_drop Let_def crc_def[symmetric] db'_def d_def[symmetric])
  have wfe: "wf_layout e" using ef(5) by (simp add: undo_area_ok_def)
  note ut = lock_touches[OF wfe, of 0, folded db'_def]
  have ulay: "same_layout e db'" by (rule touches_layout[OF ut])
  have uk: "log_kept e db'" unfolding db'_def by (rule lock_kept[OF ef(5)])
  have "free_list_inv d ids"
    using pop_state_inv[OF linv, of c] unfolding d_def free_list_inv_error .
  then have inv': "free_list_inv db' ids"
    unfolding db'_def free_list_inv_lock[OF wfe] log_only_inv[OF okd e(2)] .
  have lay': "same_layout db db'" using dlay ef(3) ulay by (simp add: same_layout_def)
  have sb': "sb db' = (sb db)\<lparr>free_list_head := next_offset (db_slot db i), free_count := free_count (sb db) - 1\<rparr>"
    using t(6) touches_slot[OF lt, of i] by (simp add: db'_def ef(1) sbd l_def)
  have slot: "db_slot db' j = db_slot (pop_state l i c) j" if "j < max_slots (sb db)" for j
    using touches_slot[OF ut, of j] ef(2)[of j] that dlay by (simp add: dmem same_layout_def d_def)
  have keep: "db_slot db' j = db_slot db j" if "j < max_slots (sb db)" "j \<noteq> i" for j
    unfolding slot[OF that(1)] ps(4)[OF that(2)] by (rule touches_slot[OF lt]) simp
  have tab: "table db' = table db"
  proof -
    have "table db' = table e" "table l = table db" "table (pop_state l i c) = table l"
      using ut lt pop_state_touches[OF wfl, of i c] by (simp_all add: touches_def)
    moreover have "table d = table (pop_state l i c)" by (simp add: d_def table_def)
    ultimately show ?thesis using ef(4) by simp
  qed
  have used: "status (db_slot db' i) = EF_STATUS_USED"
    using slot[of i] ps(2) i by (simp add: l_def)
  have "hash_entry_count db' = hash_entry_count db" "undo_log_base db' = undo_log_base db"
    "undo_log_slots db' = undo_log_slots db"
    using ef(8,9,10) by (simp_all add: db'_def d_def pop_state_def Let_def l_def)
  then have tk: "taken db db' i" using lay' tab sb' used keep by (simp add: taken_def)
  have "in_txn db' (recs @ alloc_recs d (i, crc))"
    using undo_area_kept[OF ulay uk] ef(5,6,7) log_kept_holds(3)[OF uk] e(3) sb' t(3,4,6) dact(1)
    by (simp add: in_txn_def) (simp add: db'_def d_def pop_state_def Let_def l_def)
  then have "in_txn db' (recs @ alloc_recs db (i, crc))" by (simp add: alloc_recs_def off)
  then show thesis by (rule that[OF run inv' tk])
qed


text \<open>Several allocations in a row.\<close>

fun alloc_slots :: "nat \<Rightarrow> ef_db \<Rightarrow> u64 list \<times> ef_db" where
  "alloc_slots 0 db = ([], db)"
| "alloc_slots (Suc n) db =
     (case ef_alloc_slot db of
        (Inl _, db) \<Rightarrow> ([], db)
      | (Inr i, db) \<Rightarrow> (case alloc_slots n db of (is, db) \<Rightarrow> (i # is, db)))"

definition drained :: "ef_db \<Rightarrow> ef_db \<Rightarrow> u64 list \<Rightarrow> bool" where
  "drained db db' is \<longleftrightarrow>
     same_layout db db' \<and> table db' = table db \<and> hash_entry_count db' = hash_entry_count db \<and>
     undo_log_base db' = undo_log_base db \<and> undo_log_slots db' = undo_log_slots db \<and>
     (\<exists>h c. sb db' = (sb db)\<lparr>free_list_head := h, free_count := c\<rparr>) \<and>
     (\<forall>j < max_slots (sb db). j \<notin> set is \<longrightarrow> db_slot db' j = db_slot db j)"

lemma drained_Cons:
  assumes t: "taken db d i" and d: "drained d db' is"
  shows "drained db db' (i # is)"
proof -
  have max: "max_slots (sb d) = max_slots (sb db)" using t by (simp add: taken_def same_layout_def)
  obtain h c where "sb db' = (sb d)\<lparr>free_list_head := h, free_count := c\<rparr>" using d by (auto simp: drained_def)
  then have sb: "sb db' = (sb db)\<lparr>free_list_head := h, free_count := c\<rparr>" using t by (simp add: taken_def)
  have slot: "db_slot db' j = db_slot db j" if "j < max_slots (sb db)" "j \<notin> set (i # is)" for j
  proof -
    have "db_slot db' j = db_slot d j" using d that by (simp add: drained_def max)
    also have "\<dots> = db_slot db j" using t that by (simp add: taken_def)
    finally show ?thesis .
  qed
  have "\<exists>h c. sb db' = (sb db)\<lparr>free_list_head := h, free_count := c\<rparr>" using sb by blast
  with slot t d show ?thesis by (simp add: drained_def taken_def same_layout_def)
qed

lemma alloc_slots_txn:
  assumes "in_txn db recs" "free_list_inv db (is @ ids)"
    and "length recs + 2 * length is \<le> unat (undo_log_slots db)"
  shows "\<exists>db' as. alloc_slots (length is) db = (is, db') \<and> map fst as = is \<and> drained db db' is \<and>
    in_txn db' (recs @ concat (map (alloc_recs db) as)) \<and> free_list_inv db' ids"
  using assms
proof (induction "is" arbitrary: db recs)
  case Nil
  have "\<exists>h c. sb db = (sb db)\<lparr>free_list_head := h, free_count := c\<rparr>"
    by (intro exI[of _ "free_list_head (sb db)"] exI[of _ "free_count (sb db)"]) simp
  then have "drained db db []" by (simp add: drained_def same_layout_def)
  with Nil show ?case by simp
next
  case (Cons i "is")
  have inv: "free_list_inv db (i # is @ ids)" using Cons.prems(2) by simp
  have room: "length recs + 2 \<le> unat (undo_log_slots db)" using Cons.prems(3) by simp
  obtain d crc where d: "ef_alloc_slot_ex db EF_ALLOC_ZERO_PAYLOAD = (Inr i, d)" "free_list_inv d (is @ ids)" "taken db d i"
    "in_txn d (recs @ alloc_recs db (i, crc))"
    by (rule alloc_in_txn[OF Cons.prems(1) inv room])
  have "length (recs @ alloc_recs db (i, crc)) + 2 * length is \<le> unat (undo_log_slots d)"
    using Cons.prems(3) d(3) by (simp add: alloc_recs_def taken_def)
  from Cons.IH[OF d(4,2) this] obtain db' as where
    IH: "alloc_slots (length is) d = (is, db')" "map fst as = is" "drained d db' is"
      "in_txn db' ((recs @ alloc_recs db (i, crc)) @ concat (map (alloc_recs d) as))" "free_list_inv db' ids" by blast
  have "same_layout db d" using d(3) by (simp add: taken_def)
  then have "alloc_recs d = alloc_recs db" by (simp only: alloc_recs_def same_layout_offset)
  then have "in_txn db' (recs @ concat (map (alloc_recs db) ((i, crc) # as)))" using IH(4) by simp
  moreover have "alloc_slots (length (i # is)) db = (i # is, db')" using d(1) IH(1) by (simp add: ef_alloc_slot_def)
  moreover have "map fst ((i, crc) # as) = i # is" using IH(2) by simp
  ultimately show ?case
    using drained_Cons[OF d(3) IH(3)] IH(5) by (intro exI[of _ db'] exI[of _ "(i, crc) # as"]) simp
qed

end
