(* ===== verification/Txn_Abort.thy ===== *)
theory Txn_Abort
  imports Txn_Alloc
begin

text \<open>
  The replay of a log of allocations, and what begin, abort, commit and the recovery after a crash
  make of a transaction that allocates slots.
\<close>

subsection \<open>Undoing one allocation\<close>

lemma undo_apply_free_count:
  assumes "undo_kind (undo_record_of (mem db) p) = EF_UNDO_KIND_FREE_COUNT"
    and "undo_aux (undo_record_of (mem db) p) = word_of_int (- 1)"
  shows "undo_apply env db p =
    (EF_OK, ef_db_mark_meta_dirty (upd_mem (\<lambda>m. set_free_count m
       (if free_count (sb db) = 0 then 0 else free_count (sb db) + 1)) db))"
proof -
  have "(ucast (ucast cur + 1 :: u64) :: u32) = cur + 1" for cur :: u32
    by transfer (simp add: take_bit_eq_mod mod_simps mod_mod_cancel)
  then show ?thesis
    using assms
    by (simp add: undo_apply_def Let_def ef_undo_kind_defs undo_free_count_def ef_sb_free_count_load_def
        ef_sb_free_count_store_def)
qed

lemma undo_apply_alloc:
  assumes "undo_kind (undo_record_of (mem db) p) = EF_UNDO_KIND_SLOT_ALLOC"
    and "target_offset (undo_record_of (mem db) p) = ef_slot_to_offset db i"
    and "wf_layout db" "i < max_slots (sb db)"
  shows "undo_apply env db p = ef_undo_restore_slot_alloc db i"
  using assms offset_to_slot_id_roundtrip[OF assms(3,4)]
  by (simp add: undo_apply_def Let_def ef_undo_kind_defs)

text \<open>\<open>mem_only db db'\<close>: apart from the mapping only the dirty flag and the last error may differ.\<close>

definition mem_only :: "ef_db \<Rightarrow> ef_db \<Rightarrow> bool" where
  "mem_only db db' \<longleftrightarrow> (\<exists>m d e. db' = db\<lparr>mem := m, sb_meta_dirty := d, last_err := e\<rparr>)"

lemma mem_onlyI: "db' = db\<lparr>mem := m, sb_meta_dirty := d, last_err := e\<rparr> \<Longrightarrow> mem_only db db'"
  unfolding mem_only_def by blast

lemma mem_onlyE:
  assumes "mem_only db db'"
  obtains m d e where "db' = db\<lparr>mem := m, sb_meta_dirty := d, last_err := e\<rparr>"
  using assms unfolding mem_only_def by blast

lemma mem_only_fields:
  assumes "mem_only db db'"
  shows "mapped db' = mapped db" "slots_base db' = slots_base db" "file_size db' = file_size db"
    "hash_capacity db' = hash_capacity db" "hash_index db' = hash_index db" "hash_entry_count db' = hash_entry_count db"
    "readonly db' = readonly db" "txn_active db' = txn_active db" "undo_log_base db' = undo_log_base db"
    "undo_log_slots db' = undo_log_slots db" "undo_tail db' = undo_tail db" "undo_record_count db' = undo_record_count db"
  using assms unfolding mem_only_def by auto

lemma mem_only_trans: "mem_only a b \<Longrightarrow> mem_only b c \<Longrightarrow> mem_only a c"
  by (erule mem_onlyE, erule mem_onlyE, rule mem_onlyI) simp

lemma mem_only_intros:
  "mem_only db db" "mem_only db (db\<lparr>mem := m\<rparr>)" "mem_only db (ef_set_error db e)"
  "mem_only db d \<Longrightarrow> mem_only db (ef_db_mark_meta_dirty d)"
proof -
  show "mem_only db db" by (rule mem_onlyI[where m = "mem db" and d = "sb_meta_dirty db" and e = "last_err db"]) simp
  show "mem_only db (db\<lparr>mem := m\<rparr>)" by (rule mem_onlyI[where m = m and d = "sb_meta_dirty db" and e = "last_err db"]) simp
  show "mem_only db (ef_set_error db e)"
    by (rule mem_onlyI[where m = "mem db" and d = "sb_meta_dirty db" and e = e]) (simp add: ef_set_error_def)
  assume "mem_only db d"
  then obtain m b e where d: "d = db\<lparr>mem := m, sb_meta_dirty := b, last_err := e\<rparr>" by (rule mem_onlyE)
  show "mem_only db (ef_db_mark_meta_dirty d)"
    by (rule mem_onlyI[where m = m and d = "sb_meta_dirty (ef_db_mark_meta_dirty d)" and e = e]) (simp add: d ef_db_mark_meta_dirty_def)
qed

text \<open>
  \<open>undone db db' is ids\<close>: the slots \<open>is\<close> are back at the head of the free list \<open>ids\<close>, and nothing
  else has changed below the log. The count follows, unless it was 0.
\<close>

definition recount :: "ef_superblock \<Rightarrow> nat \<Rightarrow> u32" where
  "recount s n = (if free_count s = 0 then 0 else free_count s + of_nat n)"

definition undone :: "ef_db \<Rightarrow> ef_db \<Rightarrow> u64 list \<Rightarrow> u64 list \<Rightarrow> bool" where
  "undone db db' is ids \<longleftrightarrow>
     mem_only db db' \<and> (\<forall>x \<ge> unat (undo_log_base db). mem db' x = mem db x) \<and> table db' = table db \<and>
     (\<exists>head. sb db' = (sb db)\<lparr>free_list_head := head, free_count := recount (sb db) (length is)\<rparr>) \<and>
     free_chain db' (free_list_head (sb db')) (is @ ids) \<and>
     (\<forall>j. j \<notin> set is \<longrightarrow> db_slot db' j = db_slot db j)"

lemma undone_layout: "undone db db' is ids \<Longrightarrow> same_layout db db' \<and> log_kept db db'"
proof -
  assume u: "undone db db' is ids"
  then have m: "mem_only db db'" by (simp add: undone_def)
  have "max_slots (sb db') = max_slots (sb db)" using u by (auto simp: undone_def)
  then show ?thesis using u by (simp add: same_layout_def log_kept_def mem_only_fields[OF m]) (simp add: undone_def)
qed

lemma undone_trans:
  assumes 1: "undone a b [i] ids" and 2: "undone b c is (i # ids)"
    and small: "unat (free_count (sb a)) + 1 < 2 ^ 32"
  shows "undone a c (is @ [i]) ids"
proof -
  have m: "mem_only a b" "mem_only b c" using 1 2 by (simp_all add: undone_def)
  note f = mem_only_fields[OF m(1)]
  have ne: "free_count (sb a) + 1 \<noteq> 0"
  proof
    assume "free_count (sb a) + 1 = 0"
    then have "unat (free_count (sb a) + 1) = 0" by simp
    then show False using small by (simp add: unat_word_ariths)
  qed
  obtain h where sb: "sb b = (sb a)\<lparr>free_list_head := h, free_count := recount (sb a) 1\<rparr>"
    using 1 by (auto simp: undone_def)
  obtain h' where "sb c = (sb b)\<lparr>free_list_head := h', free_count := recount (sb b) (length is)\<rparr>"
    using 2 by (auto simp: undone_def)
  then have "sb c = (sb a)\<lparr>free_list_head := h', free_count := recount (sb a) (length (is @ [i]))\<rparr>"
    using ne by (simp add: sb recount_def add.assoc)
  then have sbc: "\<exists>h'. sb c = (sb a)\<lparr>free_list_head := h', free_count := recount (sb a) (length (is @ [i]))\<rparr>" by blast
  have slot: "db_slot c j = db_slot a j" if "j \<notin> set (is @ [i])" for j
  proof -
    have "db_slot c j = db_slot b j" using 2 that by (simp add: undone_def)
    also have "\<dots> = db_slot a j" using 1 that by (simp add: undone_def)
    finally show ?thesis .
  qed
  have mem: "mem c x = mem a x" if "unat (undo_log_base a) \<le> x" for x
    using 1 2 that f(9) by (simp add: undone_def)
  show ?thesis unfolding undone_def
    using mem_only_trans[OF m] mem sbc slot 1 2 by (simp add: undone_def)
qed

lemma restore_alloc:
  assumes ok: "undo_area_ok db" and i: "i < max_slots (sb db)"
    and run: "ef_undo_restore_slot_alloc db i = (err, db')"
  shows "err = EF_OK" "same_layout db db'" "log_kept db db'" "table db' = table db"
    "sb db' = (sb db)\<lparr>free_list_head := ef_slot_to_offset db i\<rparr>"
    "status (db_slot db' i) = EF_STATUS_FREE" "next_offset (db_slot db' i) = free_list_head (sb db)"
    "j \<noteq> i \<Longrightarrow> db_slot db' j = db_slot db j" "mem_only db db'"
proof -
  have wf: "wf_layout db" using ok by (simp add: undo_area_ok_def)
  have p: "64 \<le> db_slot_ptr db j" for j using wf wf_layout_base_ge slot_ptr_ge le_trans by blast
  have peek: "ef_peek_slot db i = (Some (db_slot_ptr db i), ef_set_error db EF_OK)"
    using i wf by (intro peek_ok) simp_all
  have off: "ef_slot_to_offset (ef_set_error db EF_OK) i = ef_slot_to_offset db i"
    by (rule offset_cong(1)[THEN fun_cong]) simp_all
  have db': "err = EF_OK" "db' = snd (ef_undo_restore_slot_alloc db i)"
    using run peek by (simp_all add: ef_undo_restore_slot_alloc_def Let_def)
  show "err = EF_OK" by (rule db')
  show "mem_only db db'"
    unfolding db'(2) using peek
    by (simp add: ef_undo_restore_slot_alloc_def Let_def ef_slot_next_offset_store_def ef_slot_status_store_def)
       (intro mem_only_intros(4) mem_only_trans[OF mem_only_intros(3) mem_only_intros(2)])
  show "same_layout db db'" "sb db' = (sb db)\<lparr>free_list_head := ef_slot_to_offset db i\<rparr>"
    "status (db_slot db' i) = EF_STATUS_FREE" "next_offset (db_slot db' i) = free_list_head (sb db)"
    using p peek off by (simp_all add: db'(2) ef_undo_restore_slot_alloc_def Let_def same_layout_def)
  show "table db' = table db"
    using table_end[OF wf, of i] peek by (simp add: db'(2) ef_undo_restore_slot_alloc_def Let_def table_def)
  show "db_slot db' j = db_slot db j" if "j \<noteq> i"
    using p unat_inj_slot[OF that] peek by (simp add: db'(2) ef_undo_restore_slot_alloc_def Let_def)
  have "mem db' x = mem db x" if "unat (undo_log_base db) \<le> x" for x
  proof -
    have "db_slot_ptr db i + 64 \<le> x" "64 \<le> x"
      using le_trans[OF undo_above_slot[OF ok i] that] by simp_all
    then show ?thesis using peek by (simp add: db'(2) ef_undo_restore_slot_alloc_def Let_def above_slot above_sb)
  qed
  then show "log_kept db db'"
    using peek by (simp add: log_kept_def) (simp add: db'(2) ef_undo_restore_slot_alloc_def Let_def)
qed


subsection \<open>Undoing them all\<close>

lemma undo_pair:
  assumes ok: "undo_area_ok db" and lay: "same_layout db0 db" and i: "i < max_slots (sb db)" "i \<notin> set ids"
    and log: "log_ahead db (R @ alloc_recs db0 (i, crc))"
    and chain: "free_chain db (free_list_head (sb db)) ids"
  obtains db' where "undone db db' [i] ids" "log_ahead db' R"
    "replay_loop env (unat (undo_log_base db)) (of_nat (32 + 32 * length (R @ alloc_recs db0 (i, crc)))) db =
     replay_loop env (unat (undo_log_base db)) (of_nat (32 + 32 * length R)) db'"
proof -
  let ?h = "unat (undo_log_base db)"
  obtain r c where recs: "alloc_recs db0 (i, crc) = [r, c]"
    and r: "undo_kind r = EF_UNDO_KIND_SLOT_ALLOC" "target_offset r = ef_slot_to_offset db0 i"
    and c: "undo_kind c = EF_UNDO_KIND_FREE_COUNT" "undo_aux c = word_of_int (- 1)"
    by (simp add: alloc_recs_def undo_rec_def)
  have log2: "log_ahead db ((R @ [r]) @ [c])" using log recs by simp
  note last2 = log_ahead_last[OF log2]
  define d where "d = ef_db_mark_meta_dirty (upd_mem (\<lambda>m. set_free_count m (recount (sb db) 1)) db)"
  have "undo_apply env db (?h + (32 + 32 * length (R @ [r]))) = (EF_OK, d)"
    using undo_apply_free_count[of db "rec_ptr db (length (R @ [r]))" env] last2(2) c by (simp add: d_def recount_def)
  then have step2: "replay_loop env ?h (of_nat (32 + 32 * length ((R @ [r]) @ [c]))) db =
      replay_loop env ?h (of_nat (32 + 32 * length (R @ [r]))) d"
    using replay_last[OF log2] by simp
  have dm: "mem_only db d" unfolding d_def by (intro mem_only_intros)
  have wf: "wf_layout db" using ok by (simp add: undo_area_ok_def)
  have p: "64 \<le> db_slot_ptr db j" for j using wf wf_layout_base_ge slot_ptr_ge le_trans by blast
  have dk: "log_kept db d"
    using undo_base[OF ok] by (auto simp: log_kept_def d_def above_sb)
  have dlay: "same_layout db d" by (simp add: same_layout_def d_def)
  have dslot: "db_slot d j = db_slot db j" "sb d = (sb db)\<lparr>free_count := recount (sb db) 1\<rparr>" "table d = table db" for j
    using p[of j] by (simp_all add: d_def table_def)
  have okd: "undo_area_ok d" using ok undo_area_kept[OF dlay dk] by simp
  have id: "i < max_slots (sb d)" using i(1) by (simp add: dslot)
  have log1: "log_ahead d (R @ [r])" using last2(1) log_kept_holds(2)[OF dk] by simp
  note last1 = log_ahead_last[OF log1]
  obtain err db' where run: "ef_undo_restore_slot_alloc d i = (err, db')" by fastforce
  note rs = restore_alloc[OF okd id run]
  have base: "undo_log_base d = undo_log_base db" using dk by (simp add: log_kept_def)
  have "target_offset r = ef_slot_to_offset d i"
    using r(2) same_layout_offset[OF dlay] same_layout_offset[OF lay] by simp
  then have "undo_apply env d (?h + (32 + 32 * length R)) = (EF_OK, db')"
    using undo_apply_alloc[of d "rec_ptr d (length R)" i env] last1(2) r(1) id okd run rs(1)
    by (simp add: base undo_area_ok_def)
  then have step1: "replay_loop env ?h (of_nat (32 + 32 * length (R @ [r]))) d =
      replay_loop env ?h (of_nat (32 + 32 * length R)) db'"
    using replay_last[OF log1] by simp
  have lay': "same_layout db db'" using dlay rs(2) by (simp add: same_layout_def)
  have slot: "db_slot db' j = db_slot db j" if "j \<noteq> i" for j using rs(8)[OF that] dslot(1) by simp
  have in_ids: "db_slot db' j = db_slot db j" if "j \<in> set ids" for j using that i(2) by (intro slot) auto
  have "free_chain db' (free_list_head (sb db)) ids"
    using chain by (subst free_chain_cong[OF lay']) (simp_all add: in_ids)
  then have "free_chain db' (free_list_head (sb db')) (i # ids)"
    using rs(5-7) i(1) lay' by (simp add: dslot(2) same_layout_offset[OF rs(2)])
  moreover have "\<exists>head. sb db' = (sb db)\<lparr>free_list_head := head, free_count := recount (sb db) 1\<rparr>"
    by (rule exI[of _ "ef_slot_to_offset d i"]) (simp add: rs(5) dslot(2))
  ultimately have "undone db db' [i] ids"
    using mem_only_trans[OF dm rs(9)] dk rs(3,4) slot dslot(3)
    by (simp add: undone_def log_kept_def)
  moreover have "log_ahead db' R" using last1(1) log_kept_holds(2)[OF rs(3)] by simp
  ultimately show thesis using that step1 step2 recs by simp
qed

lemma replay_allocs:
  assumes "undo_area_ok db" "same_layout db0 db" "log_ahead db (concat (map (alloc_recs db0) as))"
    and "free_chain db (free_list_head (sb db)) ids" "distinct (map fst as @ ids)"
    and "\<forall>i \<in> fst ` set as. i < max_slots (sb db)" "unat (free_count (sb db)) + length as < 2 ^ 32"
  shows "\<exists>db'. replay_loop env (unat (undo_log_base db)) (of_nat (32 + 32 * length (concat (map (alloc_recs db0) as)))) db =
      (EF_OK, db') \<and> undone db db' (map fst as) ids"
  using assms
proof (induction as arbitrary: db ids rule: rev_induct)
  case Nil
  have "undone db db [] ids"
    using Nil by (auto simp: undone_def recount_def mem_only_intros intro: exI[of _ "free_list_head (sb db)"])
  then show ?case using replay_done[of env] by auto
next
  case (snoc a as)
  obtain i crc where a: "a = (i, crc)" by fastforce
  let ?R = "concat (map (alloc_recs db0) as)" and ?h = "unat (undo_log_base db)"
  have log: "log_ahead db (?R @ alloc_recs db0 (i, crc))" using snoc.prems(3) by (simp add: a)
  have i: "i < max_slots (sb db)" "i \<notin> set ids" using snoc.prems(5,6) by (auto simp: a)
  obtain d where d: "undone db d [i] ids" "log_ahead d ?R"
    and step: "replay_loop env ?h (of_nat (32 + 32 * length (?R @ alloc_recs db0 (i, crc)))) db =
      replay_loop env ?h (of_nat (32 + 32 * length ?R)) d"
    by (rule undo_pair[OF snoc.prems(1,2) i log snoc.prems(4)])
  have lay: "same_layout db d" and kept: "log_kept db d" using undone_layout[OF d(1)] by blast+
  have "undo_log_base d = undo_log_base db" using kept by (simp add: log_kept_def)
  moreover obtain db' where "replay_loop env (unat (undo_log_base d)) (of_nat (32 + 32 * length ?R)) d = (EF_OK, db')"
    "undone d db' (map fst as) (i # ids)"
  proof -
    have "undo_area_ok d" using snoc.prems(1) undo_area_kept[OF lay kept] by simp
    moreover have "same_layout db0 d" using lay snoc.prems(2) by (simp add: same_layout_def)
    moreover have "free_chain d (free_list_head (sb d)) (i # ids)" using d(1) by (simp add: undone_def)
    moreover have "distinct (map fst as @ i # ids)" using snoc.prems(5) by (auto simp: a)
    moreover have "\<forall>i \<in> fst ` set as. i < max_slots (sb d)" using snoc.prems(6) lay by (simp add: same_layout_def)
    moreover have "unat (free_count (sb d)) + length as < 2 ^ 32"
    proof -
      have "free_count (sb d) = recount (sb db) 1" using d(1) by (auto simp: undone_def)
      then show ?thesis using snoc.prems(7) by (simp add: recount_def unat_word_ariths)
    qed
    ultimately show thesis using that snoc.IH[of d "i # ids"] d(2) by blast
  qed
  moreover have "unat (free_count (sb db)) + 1 < 2 ^ 32" using snoc.prems(7) by simp
  ultimately show ?case
    using step undone_trans[OF d(1)] by (intro exI[of _ db']) (simp add: a)
qed


subsection \<open>Begin\<close>

lemma txn_lock_take:
  assumes "EF_SCHEMA_VERSION \<le> schema_version (sb_of m)" "txn_lock (sb_of m) = 0"
  shows "ef_sb_txn_lock_try_acquire m = (EF_OK, set_txn_lock m 1)"
proof -
  have "load_u8 m 60 = 0" using assms(2) by (simp add: sb_of_def)
  then show ?thesis
    using txn_lock.acquire_free[of m] assms(1)
    by (simp add: ef_sb_uses_v4_index_layout_def set_txn_lock_def)
qed

text \<open>Clearing the log leaves everything below it alone.\<close>

lemma reset_ok:
  assumes ok: "undo_area_ok db"
  shows "log_only db (ef_undo_reset db)" "log_holds (ef_undo_reset db) []"
proof -
  let ?h = "unat (undo_log_base db)"
  let ?m = "mem_set (mem db) ?h 0 (unat (undo_log_bytes db))"
  have bytes: "32 \<le> unat (undo_log_bytes db)" by (simp add: undo_bytes[OF ok])
  have r: "ef_undo_reset db = ef_db_mark_meta_dirty (db\<lparr>mem := ?m, undo_tail := EF_UNDO_HEADER_SIZE, undo_record_count := 0\<rparr>)"
    using undo_base[OF ok] by (simp add: ef_undo_reset_def ef_undo_header_ptr_def)
  show "log_only db (ef_undo_reset db)"
    unfolding log_only_def r
    by (intro exI[of _ ?m] exI[of _ EF_UNDO_HEADER_SIZE] exI[of _ 0] exI[of _ "last_err db"]
        exI[of _ "sb_meta_dirty (ef_undo_reset db)"]) (simp add: r ef_db_mark_meta_dirty_def mem_set_outside)
  have "undo_magic (undo_header_of ?m ?h) = 0"
    using bytes by (simp add: undo_header_of_def word_loads load_bytes_mem_set_inside)
  then show "log_holds (ef_undo_reset db) []"
    by (simp add: r log_holds_def log_image_def EF_UNDO_HEADER_SIZE_def)
qed

lemma log_only_dirty: "log_only db (ef_set_error (ef_db_mark_meta_dirty db) e)"
  unfolding log_only_def
  by (intro exI[of _ "mem db"] exI[of _ "undo_tail db"] exI[of _ "undo_record_count db"] exI[of _ e]
      exI[of _ "sb_meta_dirty (ef_db_mark_meta_dirty db)"])
     (simp add: ef_db_mark_meta_dirty_def ef_set_error_def)

text \<open>A quiet handle with a log and a free transaction lock.\<close>

definition txn_ready :: "ef_db \<Rightarrow> bool" where
  "txn_ready db \<longleftrightarrow> quiet db \<and> undo_area_ok db \<and> txn_lock (sb db) = 0"

lemma begin_ok:
  assumes ready: "txn_ready db" and inv: "free_list_inv db ids"
  obtains db' where "ef_txn_begin pid db = (EF_OK, db')" "in_txn db' []" "free_list_inv db' ids"
    "same_layout db db'" "table db' = table db" "undo_log_slots db' = undo_log_slots db" "hash_entry_count db' = hash_entry_count db"
    "sb db' = (sb db)\<lparr>txn_lock := 1, sb_txn_state := EF_TXN_STATE_ACTIVE\<rparr>"
    "\<And>j. j < max_slots (sb db) \<Longrightarrow> db_slot db' j = db_slot db j" "readonly db' = readonly db"
    "undo_log_base db' = undo_log_base db"
proof -
  have q: "quiet db" "undo_area_ok db" "txn_lock (sb db) = 0" using ready by (simp_all add: txn_ready_def)
  have wf: "wf_layout db" by (rule quiet_wf[OF q(1)])
  have v: "EF_SCHEMA_VERSION \<le> schema_version (sb db)" "\<not> readonly db" "\<not> txn_active db" "mapped db"
    "index_write_lock (sb db) = 0"
    using q(1) wf by (auto simp: quiet_def)
  define m where "m = set_sb_txn_state (set_txn_lock (mem db) 1) EF_TXN_STATE_ACTIVE"
  define a where "a = db\<lparr>mem := m, txn_state := EF_TXN_STATE_ACTIVE, txn_active := True, txn_writer_pid := pid\<rparr>"
  define db' where "db' = ef_set_error (ef_db_mark_meta_dirty (ef_undo_reset a)) EF_OK"
  have run: "ef_txn_begin pid db = (EF_OK, db')"
    using v q(3) by (simp add: ef_txn_begin_def txn_lock_take Let_def ef_sb_txn_state_store_def db'_def a_def m_def not_less)
  have p: "64 \<le> db_slot_ptr db j" for j using wf wf_layout_base_ge slot_ptr_ge le_trans by blast
  have sba: "sb a = (sb db)\<lparr>txn_lock := 1, sb_txn_state := EF_TXN_STATE_ACTIVE\<rparr>" by (simp add: a_def m_def)
  have alay: "same_layout db a" by (simp add: same_layout_def sba) (simp add: a_def)
  have oka: "undo_area_ok a" using q(2) same_layout_wf[OF alay] by (simp add: undo_area_ok_def sba) (simp add: a_def)
  have slota: "db_slot a j = db_slot db j" "table a = table db" for j using p[of j] by (simp_all add: a_def m_def table_def)
  have ainv: "free_list_inv a ids" using inv slota(1) by (subst free_list_inv_cong[OF alay]) (simp_all add: sba)
  note r = reset_ok[OF oka]
  have lo: "log_only a db'"
    unfolding db'_def by (rule log_only_trans[OF r(1)]) (rule log_only_dirty)
  note f = log_only_facts[OF oka lo]
  have "log_holds db' []" using r(2) log_kept_holds(3)[of "ef_undo_reset a" db'] by (simp add: db'_def log_kept_def)
  then have "in_txn db' []"
    using f(1,5,6,7) v(1,2,5) sba by (simp add: in_txn_def a_def)
  moreover have "free_list_inv db' ids" using ainv log_only_inv[OF oka lo] by simp
  moreover have "same_layout db db'" using alay f(3) by (simp add: same_layout_def)
  moreover have "db_slot db' j = db_slot db j" if "j < max_slots (sb db)" for j
    using f(2)[of j] slota(1)[of j] that by (simp add: sba)
  ultimately show thesis
    using that[OF run] f(1,4,7,8,9,10) sba slota(2) by (simp add: a_def)
qed


subsection \<open>The end of a transaction\<close>

text \<open>\<open>closed db db'\<close>: the transaction is over and nothing below the log but its two bytes has changed.\<close>

definition closed :: "ef_db \<Rightarrow> ef_db \<Rightarrow> bool" where
  "closed db db' \<longleftrightarrow>
     same_layout db db' \<and> table db' = table db \<and> hash_entry_count db' = hash_entry_count db \<and>
     readonly db' = readonly db \<and> undo_area_ok db' \<and>
     sb db' = (sb db)\<lparr>txn_lock := 0, sb_txn_state := EF_TXN_STATE_NONE\<rparr> \<and>
     (\<forall>j < max_slots (sb db). db_slot db' j = db_slot db j)"

lemma closed_chain:
  assumes "closed db db'"
  shows "free_chain db' off ids = free_chain db off ids"
proof -
  have lay: "same_layout db db'" and slot: "\<And>j. j < max_slots (sb db) \<Longrightarrow> db_slot db' j = db_slot db j"
    and max: "max_slots (sb db') = max_slots (sb db)"
    using assms by (simp_all add: closed_def)
  show ?thesis
  proof (induction ids arbitrary: off)
    case (Cons i ids)
    then show ?case
      by (cases "i < max_slots (sb db)") (simp_all add: max slot same_layout_offset[OF lay])
  qed simp
qed

lemma closing_bytes:
  assumes ok: "undo_area_ok db" and v: "EF_SCHEMA_VERSION \<le> schema_version (sb db)" and lo: "log_only db d"
  shows "closed db (d\<lparr>mem := ef_sb_txn_lock_release (ef_sb_txn_state_store (mem d) EF_TXN_STATE_NONE)\<rparr>)"
proof -
  note f = log_only_facts[OF ok lo]
  let ?m = "set_txn_lock (set_sb_txn_state (mem d) EF_TXN_STATE_NONE) 0"
  let ?e = "d\<lparr>mem := ?m\<rparr>"
  have m: "ef_sb_txn_lock_release (ef_sb_txn_state_store (mem d) EF_TXN_STATE_NONE) = ?m"
    using v by (simp add: ef_sb_txn_lock_release_def ef_sb_txn_state_store_def f(1) leD)
  have wf: "wf_layout d" using f(5) by (simp add: undo_area_ok_def)
  have p: "64 \<le> db_slot_ptr d j" for j using wf wf_layout_base_ge slot_ptr_ge le_trans by blast
  have lay: "same_layout d ?e" by (simp add: same_layout_def)
  have "undo_area_ok ?e" using f(5) same_layout_wf[OF lay] by (simp add: undo_area_ok_def)
  moreover have "table ?e = table d" by (simp add: table_def)
  moreover have "same_layout db ?e" using lay f(3) by (simp add: same_layout_def)
  moreover have "db_slot ?e j = db_slot db j" if "j < max_slots (sb db)" for j using f(2)[OF that] p[of j] by simp
  ultimately show ?thesis using f(1,4,7,8) unfolding m by (simp add: closed_def)
qed

lemma closed_handle:
  "closed (db\<lparr>txn_state := s, txn_active := a, txn_writer_pid := w\<rparr>) db' = closed db db'"
  by (simp add: closed_def same_layout_def table_def)

lemma closed_result:
  "closed db (ef_set_error d e) = closed db d" "closed db (ef_db_mark_meta_dirty d) = closed db d"
  "closed db (d\<lparr>txn_state := s\<rparr>) = closed db d"
  by (simp_all add: closed_def same_layout_def table_def undo_area_ok_def wf_layout_def)

lemma finish_closed:
  assumes ok: "undo_area_ok db" and v: "EF_SCHEMA_VERSION \<le> schema_version (sb db)"
  shows "closed db (txn_finish db)" "\<not> txn_active (txn_finish db)" "undo_log_slots (txn_finish db) = undo_log_slots db"
proof -
  let ?a = "db\<lparr>txn_state := EF_TXN_STATE_NONE, txn_active := False, txn_writer_pid := EF_TXN_WRITER_NONE\<rparr>"
  have oka: "undo_area_ok ?a" using ok by (simp add: undo_area_ok_def wf_layout_def)
  note r = reset_ok(1)[OF oka]
  have "closed ?a (txn_finish db)"
    using closing_bytes[OF oka _ r] v by (simp add: txn_finish_def Let_def closed_result)
  then show "closed db (txn_finish db)" unfolding closed_handle .
  show "\<not> txn_active (txn_finish db)" "undo_log_slots (txn_finish db) = undo_log_slots db"
    using log_only_facts(6,10)[OF oka r] by (simp_all add: txn_finish_def Let_def)
qed


text \<open>After a replay of the allocations \<open>is\<close> and the end of the transaction.\<close>

definition rolled_back :: "ef_db \<Rightarrow> ef_db \<Rightarrow> u64 list \<Rightarrow> u64 list \<Rightarrow> bool" where
  "rolled_back db db' is ids \<longleftrightarrow>
     same_layout db db' \<and> table db' = table db \<and> hash_entry_count db' = hash_entry_count db \<and>
     readonly db' = readonly db \<and> undo_area_ok db' \<and>
     (\<exists>head. sb db' = (sb db)\<lparr>free_list_head := head, free_count := recount (sb db) (length is),
        txn_lock := 0, sb_txn_state := EF_TXN_STATE_NONE\<rparr>) \<and>
     free_chain db' (free_list_head (sb db')) (is @ ids) \<and>
     (\<forall>j < max_slots (sb db). j \<notin> set is \<longrightarrow> db_slot db' j = db_slot db j)"

lemma rolled_back_inv:
  assumes rb: "rolled_back db db' is ids" and inv: "free_list_inv db ids" and ne: "ids \<noteq> []"
    and fit: "distinct (is @ ids)" "length (is @ ids) < 2 ^ 32"
  shows "free_list_inv db' (is @ ids)"
proof -
  obtain i ids' where ids: "ids = i # ids'" using ne by (cases ids) auto
  have "free_count (sb db) \<noteq> 0" using free_list_inv_head(3)[of db i ids'] inv ids by simp
  then have "free_count (sb db') = free_count (sb db) + of_nat (length is)"
    using rb by (auto simp: rolled_back_def recount_def)
  then have "free_count (sb db') = of_nat (length (is @ ids))" using inv by (simp add: free_list_inv_def)
  moreover have "wf_layout db'" using rb by (simp add: rolled_back_def undo_area_ok_def)
  ultimately show ?thesis using rb fit by (simp add: free_list_inv_def rolled_back_def)
qed

lemma undone_closed:
  assumes u: "undone db d is ids" and c: "closed d db'"
  shows "rolled_back db db' is ids"
proof -
  obtain h where sb: "sb d = (sb db)\<lparr>free_list_head := h, free_count := recount (sb db) (length is)\<rparr>"
    using u by (auto simp: undone_def)
  have lay: "same_layout db d" using undone_layout[OF u] by simp
  have m: "mem_only db d" using u by (simp add: undone_def)
  have sb': "sb db' = (sb d)\<lparr>txn_lock := 0, sb_txn_state := EF_TXN_STATE_NONE\<rparr>" using c by (simp add: closed_def)
  then have "\<exists>h. sb db' = (sb db)\<lparr>free_list_head := h, free_count := recount (sb db) (length is),
      txn_lock := 0, sb_txn_state := EF_TXN_STATE_NONE\<rparr>" by (intro exI[of _ h]) (simp add: sb)
  moreover have "free_chain db' (free_list_head (sb db')) (is @ ids)"
    unfolding closed_chain[OF c] using u by (simp add: undone_def sb')
  moreover have "db_slot db' j = db_slot db j" if "j < max_slots (sb db)" "j \<notin> set is" for j
  proof -
    have "db_slot db' j = db_slot d j" using c that by (simp add: closed_def sb)
    also have "\<dots> = db_slot db j" using u that by (simp add: undone_def)
    finally show ?thesis .
  qed
  ultimately show ?thesis
    using c u lay by (simp add: rolled_back_def closed_def undone_def same_layout_def mem_only_fields[OF m])
qed


lemma state_byte:
  assumes ok: "undo_area_ok db" and a: "a = db\<lparr>mem := set_sb_txn_state (mem db) s, txn_state := t, last_err := e\<rparr>"
  shows "same_layout db a" "log_kept db a" "undo_area_ok a" "sb a = (sb db)\<lparr>sb_txn_state := s\<rparr>"
    "free_list_inv a ids = free_list_inv db ids" "rolled_back a db' is ids \<Longrightarrow> rolled_back db db' is ids"
proof -
  have wf: "wf_layout db" using ok by (simp add: undo_area_ok_def)
  have p: "64 \<le> db_slot_ptr db j" for j using wf wf_layout_base_ge slot_ptr_ge le_trans by blast
  show lay: "same_layout db a" by (simp add: a same_layout_def)
  show kept: "log_kept db a" using undo_base[OF ok] by (auto simp: a log_kept_def above_sb)
  show "undo_area_ok a" using ok undo_area_kept[OF lay kept] by simp
  show sb: "sb a = (sb db)\<lparr>sb_txn_state := s\<rparr>" by (simp add: a)
  have slot: "db_slot a j = db_slot db j" for j using p[of j] by (simp add: a)
  show "free_list_inv a ids = free_list_inv db ids"
    by (rule free_list_inv_cong[OF lay]) (simp_all add: sb slot)
  assume r: "rolled_back a db' is ids"
  have "table a = table db" by (simp add: a table_def)
  moreover have "\<exists>head. sb db' = (sb db)\<lparr>free_list_head := head, free_count := recount (sb db) (length is),
        txn_lock := 0, sb_txn_state := EF_TXN_STATE_NONE\<rparr>"
    using r by (auto simp: rolled_back_def sb recount_def)
  moreover have "\<forall>j < max_slots (sb db). j \<notin> set is \<longrightarrow> db_slot db' j = db_slot db j"
    using r by (simp add: rolled_back_def sb slot)
  moreover have "same_layout db db'" using r lay by (simp add: rolled_back_def same_layout_def)
  ultimately show "rolled_back db db' is ids" using r by (simp add: rolled_back_def) (simp add: a)
qed

text \<open>What a log of allocations needs to be replayed over a free list.\<close>

definition undoable :: "ef_db \<Rightarrow> (u64 \<times> u32) list \<Rightarrow> u64 list \<Rightarrow> bool" where
  "undoable db as ids \<longleftrightarrow>
     free_list_inv db ids \<and> distinct (map fst as @ ids) \<and> length (map fst as @ ids) < 2 ^ 32 \<and>
     (\<forall>i \<in> fst ` set as. i < max_slots (sb db))"

lemma replay_undoable:
  assumes ok: "undo_area_ok db" and lay: "same_layout db0 db" and un: "undoable db as ids"
    and log: "log_image db (concat (map (alloc_recs db0) as))"
  obtains d where "ef_undo_replay_reverse env db = (EF_OK, d)" "undone db d (map fst as) ids"
proof -
  have "unat (free_count (sb db)) = length ids"
    using un by (simp add: undoable_def free_list_inv_def unat_of_nat_u32)
  then show thesis
    using replay_allocs[OF ok lay log_image_ahead[OF log], of ids env] un that
    by (simp add: undoable_def free_list_inv_def replay_start[OF ok log]) blast
qed

lemma abort_rolls_back:
  assumes txn: "in_txn db (concat (map (alloc_recs db0) as))" and lay: "same_layout db0 db" and un: "undoable db as ids"
  obtains db' where "ef_txn_abort env db = (EF_OK, db')" "rolled_back db db' (map fst as) ids" "\<not> txn_active db'"
    "undo_log_slots db' = undo_log_slots db"
proof -
  note t = in_txn_facts[OF txn]
  define a where "a = db\<lparr>mem := set_sb_txn_state (mem db) EF_TXN_STATE_ABORTING, txn_state := EF_TXN_STATE_ABORTING, last_err := last_err db\<rparr>"
  note s = state_byte[OF t(1) a_def]
  have log: "log_image a (concat (map (alloc_recs db0) as))"
    using t(7) log_kept_holds(1)[OF s(2)] by (simp add: log_holds_def)
  have una: "undoable a as ids" using un by (simp add: undoable_def s(4,5))
  have laya: "same_layout db0 a" using lay s(1) by (simp add: same_layout_def)
  obtain d where d: "ef_undo_replay_reverse env a = (EF_OK, d)" "undone a d (map fst as) ids"
    by (rule replay_undoable[OF s(3) laya una log])
  have dl: "same_layout a d" "log_kept a d" using undone_layout[OF d(2)] by simp_all
  have okd: "undo_area_ok d" using s(3) undo_area_kept[OF dl] by simp
  have "EF_SCHEMA_VERSION \<le> schema_version (sb d)" using d(2) t(3) s(4) by (auto simp: undone_def)
  note f = finish_closed[OF okd this]
  have start: "db\<lparr>txn_state := EF_TXN_STATE_ABORTING, mem := set_sb_txn_state (mem db) EF_TXN_STATE_ABORTING\<rparr> = a"
    by (simp add: a_def)
  have "ef_txn_abort env db = (EF_OK, ef_set_error (txn_finish d) EF_OK)"
    using t(3,5) d(1) by (simp add: ef_txn_abort_def ef_sb_txn_state_store_def leD start)
  moreover have "rolled_back db (ef_set_error (txn_finish d) EF_OK) (map fst as) ids"
    by (rule s(6)[OF undone_closed[OF d(2)]]) (simp add: closed_result f(1))
  moreover have "\<not> txn_active (ef_set_error (txn_finish d) EF_OK)" using f(2) by simp
  moreover have "undo_log_slots (ef_set_error (txn_finish d) EF_OK) = undo_log_slots db"
    using f(3) dl(2) by (simp add: log_kept_def a_def)
  ultimately show thesis by (rule that)
qed

lemma recover_rolls_back:
  assumes ok: "undo_area_ok db" and v: "EF_SCHEMA_VERSION \<le> schema_version (sb db)"
    and st: "sb_txn_state (sb db) = EF_TXN_STATE_ACTIVE"
    and log: "log_image db (concat (map (alloc_recs db0) as))" and lay: "same_layout db0 db" and un: "undoable db as ids"
  obtains db' where "ef_txn_recover_from_stale_lock env db = (EF_OK, db')" "rolled_back db db' (map fst as) ids"
    "txn_active db' = txn_active db"
proof -
  define a where "a = db\<lparr>mem := set_sb_txn_state (mem db) EF_TXN_STATE_ACTIVE, txn_state := EF_TXN_STATE_ABORTING, last_err := EF_OK\<rparr>"
  have byte: "set_sb_txn_state (mem db) EF_TXN_STATE_ACTIVE = mem db"
    using st by (simp add: set_sb_txn_state_def store_u8_upd sb_of_def load_u8_def fun_upd_idem)
  note s = state_byte[OF ok a_def]
  have loga: "log_image a (concat (map (alloc_recs db0) as))"
    using log log_kept_holds(1)[OF s(2)] by simp
  have una: "undoable a as ids" using un by (simp add: undoable_def s(4,5))
  have laya: "same_layout db0 a" using lay s(1) by (simp add: same_layout_def)
  obtain d where d: "ef_undo_replay_reverse env a = (EF_OK, d)" "undone a d (map fst as) ids"
    by (rule replay_undoable[OF s(3) laya una loga])
  have dl: "same_layout a d" "log_kept a d" using undone_layout[OF d(2)] by simp_all
  have okd: "undo_area_ok d" using s(3) undo_area_kept[OF dl] by simp
  have vd: "EF_SCHEMA_VERSION \<le> schema_version (sb d)" using d(2) v s(4) by (auto simp: undone_def)
  let ?e = "ef_undo_reset d"
  let ?f = "?e\<lparr>mem := ef_sb_txn_lock_release (ef_sb_txn_state_store (mem ?e) EF_TXN_STATE_NONE)\<rparr>"
  let ?r = "ef_db_mark_meta_dirty (?f\<lparr>txn_state := EF_TXN_STATE_NONE\<rparr>)"
  have "ef_txn_recover_from_stale_lock env db = (EF_OK, ?r)"
    using v st d(1) undo_base[OF ok]
    by (simp add: ef_txn_recover_from_stale_lock_def ef_sb_txn_state_load_def leD a_def byte ef_set_error_def Let_def)
  moreover have "rolled_back db ?r (map fst as) ids"
    by (rule s(6)[OF undone_closed[OF d(2)]])
       (simp add: closed_result closing_bytes[OF okd vd reset_ok(1)[OF okd]])
  moreover have "txn_active ?r = txn_active db"
    using log_only_facts(6)[OF okd reset_ok(1)[OF okd]] mem_only_fields(8)[of a d] d(2) by (simp add: undone_def) (simp add: a_def)
  ultimately show thesis by (rule that)
qed

end
