(* ===== verification/Txn_Props.thy ===== *)
theory Txn_Props
  imports Txn_Abort
begin

text \<open>
  Properties of transactions: a rollback restores the pool of free slots, after an abort and after
  a crash; a rollback of a transaction that used up the pool does not; records are appended in
  order until the log is full.
\<close>

subsection \<open>Rollback\<close>

lemma txn_allocates:
  assumes ready: "txn_ready db" and inv: "free_list_inv db (is @ ids)"
    and room: "2 * length is \<le> unat (undo_log_slots db)"
  obtains db1 db2 as where "ef_txn_begin pid db = (EF_OK, db1)" "alloc_slots (length is) db1 = (is, db2)" "map fst as = is"
    "in_txn db2 (concat (map (alloc_recs db1) as))" "drained db1 db2 is" "undoable db2 as ids"
    "same_layout db db1" "table db1 = table db" "hash_entry_count db1 = hash_entry_count db"
    "undo_log_slots db1 = undo_log_slots db"
    "sb db1 = (sb db)\<lparr>txn_lock := 1, sb_txn_state := EF_TXN_STATE_ACTIVE\<rparr>"
    "\<And>j. j < max_slots (sb db) \<Longrightarrow> db_slot db1 j = db_slot db j" "readonly db1 = readonly db"
proof -
  obtain db1 where b: "ef_txn_begin pid db = (EF_OK, db1)" "in_txn db1 []" "free_list_inv db1 (is @ ids)"
    "same_layout db db1" "table db1 = table db" "undo_log_slots db1 = undo_log_slots db" "hash_entry_count db1 = hash_entry_count db"
    "sb db1 = (sb db)\<lparr>txn_lock := 1, sb_txn_state := EF_TXN_STATE_ACTIVE\<rparr>"
    "\<And>j. j < max_slots (sb db) \<Longrightarrow> db_slot db1 j = db_slot db j" "readonly db1 = readonly db"
    by (rule begin_ok[OF ready inv, where pid = pid]) blast
  have "length [] + 2 * length is \<le> unat (undo_log_slots db1)" using room b(6) by simp
  from alloc_slots_txn[OF b(2,3) this] obtain db2 as where
    a: "alloc_slots (length is) db1 = (is, db2)" "map fst as = is" "drained db1 db2 is"
      "in_txn db2 (concat (map (alloc_recs db1) as))" "free_list_inv db2 ids" by auto
  have "i < max_slots (sb db2)" if "i \<in> set is" for i
  proof -
    have "free_chain db1 (free_list_head (sb db1)) (is @ ids)" using b(3) by (simp add: free_list_inv_def)
    from free_chain_slots[OF this, of i] show ?thesis using that a(3) by (simp add: drained_def same_layout_def)
  qed
  then have "\<forall>i \<in> fst ` set as. i < max_slots (sb db2)" using a(2) by (metis list.set_map)
  then have "undoable db2 as ids"
    using a(2,5) b(3) by (simp add: undoable_def free_list_inv_def)
  from that[OF b(1) a(1,2,4,3) this b(4,5,7,6,8,9,10)] show thesis .
qed

lemma rolled_back_quiet:
  assumes rb: "rolled_back db2 db3 is ids" and dr: "drained db1 db2 is" and q: "quiet db" "txn_active db3 = False"
    and f: "same_layout db db1" "hash_entry_count db1 = hash_entry_count db" "readonly db2 = readonly db"
    "sb db1 = (sb db)\<lparr>txn_lock := 1, sb_txn_state := EF_TXN_STATE_ACTIVE\<rparr>"
  shows "txn_ready db3"
proof -
  have "wf_layout db3" using rb by (simp add: rolled_back_def undo_area_ok_def)
  moreover have "schema_version (sb db3) = schema_version (sb db)" "index_write_lock (sb db3) = index_write_lock (sb db)"
    "txn_lock (sb db3) = 0"
    using rb dr f(4) by (auto simp: rolled_back_def drained_def)
  moreover have "hash_entry_count db3 = hash_entry_count db" "hash_capacity db3 = hash_capacity db" "readonly db3 = readonly db"
    "undo_area_ok db3"
    using rb dr f by (simp_all add: rolled_back_def drained_def same_layout_def)
  ultimately show ?thesis using q by (simp add: txn_ready_def quiet_def)
qed


text \<open>Slots outside \<open>is\<close> are the same before the transaction and after its rollback.\<close>

lemma rolled_back_rest:
  assumes rb: "rolled_back db2 db3 is ids" and dr: "drained db1 db2 is"
    and f: "table db1 = table db" "\<And>j. j < max_slots (sb db) \<Longrightarrow> db_slot db1 j = db_slot db j"
      "max_slots (sb db1) = max_slots (sb db)"
  shows "table db3 = table db" "\<forall>j < max_slots (sb db). j \<notin> set is \<longrightarrow> db_slot db3 j = db_slot db j"
proof -
  show "table db3 = table db" using rb dr f(1) by (simp add: rolled_back_def drained_def)
  have max: "max_slots (sb db2) = max_slots (sb db)" using dr f(3) by (simp add: drained_def same_layout_def)
  show "\<forall>j < max_slots (sb db). j \<notin> set is \<longrightarrow> db_slot db3 j = db_slot db j"
  proof (intro allI impI)
    fix j assume j: "j < max_slots (sb db)" "j \<notin> set is"
    have "db_slot db3 j = db_slot db2 j" using rb j by (simp add: rolled_back_def max)
    also have "\<dots> = db_slot db1 j" using dr j f(3) by (simp add: drained_def)
    also have "\<dots> = db_slot db j" by (rule f(2)[OF j(1)])
    finally show "db_slot db3 j = db_slot db j" .
  qed
qed

subsection \<open>An example\<close>

text \<open>Three free slots and a log of eight records.\<close>

definition sample_txn :: ef_db where
  "sample_txn = sample_queue\<lparr>file_size := 864, map_capacity := 864, undo_log_base := 576, undo_log_slots := 8\<rparr>"

lemma sample_txn_sb: "sb sample_txn = (sb sample_db)\<lparr>free_list_head := 320, free_count := 3\<rparr>"
  using sb_sample_queue by (simp add: sample_txn_def)

lemma sample_txn_wf: "wf_layout sample_txn"
  by (simp add: wf_layout_def layout_ok_def sample_txn_sb)
     (simp add: sample_txn_def sample_queue_def slot_ptr_def EF_SLOT_SIZE_def)

lemma sample_txn_slots: "db_slot sample_txn i = db_slot sample_queue i"
  by (simp add: sample_txn_def)

lemma sample_txn_free: "free_list_inv sample_txn [0, 1, 2]"
proof -
  have off: "ef_slot_to_offset sample_txn i = ef_slot_to_offset sample_queue i" for i
    by (simp add: ef_slot_to_offset_def sample_txn_sb sb_sample_queue) (simp add: sample_txn_def)
  have "free_chain sample_txn (free_list_head (sb sample_queue)) [0, 1, 2]"
    using sample_queue_free unfolding free_list_inv_def free_chain.simps
    by (simp only: off sample_txn_slots sample_txn_sb sb_sample_queue)
  then show ?thesis
    using sample_queue_free sample_txn_wf by (simp add: free_list_inv_def sample_txn_sb sb_sample_queue)
qed

lemma sample_txn_ready: "txn_ready sample_txn"
proof -
  have "ef_index_pick_shrink_capacity 0 16 = 0" by code_simp
  moreover have f: "hash_entry_count sample_txn = 0" "hash_capacity sample_txn = 16" "\<not> readonly sample_txn" "\<not> txn_active sample_txn"
    by (simp_all add: sample_txn_def sample_queue_def)
  moreover have "undo_area_ok sample_txn"
    using sample_txn_wf by (simp add: undo_area_ok_def sample_txn_sb)
      (simp add: sample_txn_def sample_queue_def slot_ptr_def EF_SLOT_SIZE_def)
  ultimately show ?thesis
    using sample_txn_wf by (simp add: txn_ready_def quiet_def sample_txn_sb EF_SCHEMA_VERSION_def)
qed

lemma sample_txn_log: "unat (undo_log_slots sample_txn) = 8"
  by (simp add: sample_txn_def)

subsection \<open>Rollback restores the pool\<close>

text \<open>
  C2: A transaction that begins, allocates the slots \<open>is\<close> at the head of the free list and is
  aborted leaves the free list as it found it, in order and in length, every other slot and the
  whole index untouched, and a database ready for the next transaction, provided that the pool was
  not used up and the log had room for two records per slot.
\<close>

theorem txn_abort_restores_pool:
  assumes ready: "txn_ready db" and inv: "free_list_inv db (is @ ids)" and ne: "ids \<noteq> []"
    and room: "2 * length is \<le> unat (undo_log_slots db)"
  shows "\<exists>db1 db2 db3. ef_txn_begin pid db = (EF_OK, db1) \<and> alloc_slots (length is) db1 = (is, db2) \<and>
    ef_txn_abort env db2 = (EF_OK, db3) \<and> free_list_inv db3 (is @ ids) \<and> txn_ready db3 \<and> table db3 = table db \<and>
    (\<forall>j < max_slots (sb db). j \<notin> set is \<longrightarrow> db_slot db3 j = db_slot db j)"
proof -
  obtain db1 db2 as where t: "ef_txn_begin pid db = (EF_OK, db1)" "alloc_slots (length is) db1 = (is, db2)" "map fst as = is"
    "in_txn db2 (concat (map (alloc_recs db1) as))" "drained db1 db2 is" "undoable db2 as ids"
    "same_layout db db1" "table db1 = table db" "hash_entry_count db1 = hash_entry_count db"
    "undo_log_slots db1 = undo_log_slots db"
    "sb db1 = (sb db)\<lparr>txn_lock := 1, sb_txn_state := EF_TXN_STATE_ACTIVE\<rparr>"
    "\<And>j. j < max_slots (sb db) \<Longrightarrow> db_slot db1 j = db_slot db j" "readonly db1 = readonly db"
    by (rule txn_allocates[OF ready inv room, where pid = pid]) blast
  have lay: "same_layout db1 db2" using t(5) by (simp add: drained_def)
  obtain db3 where a: "ef_txn_abort env db2 = (EF_OK, db3)" "rolled_back db2 db3 is ids" "\<not> txn_active db3"
    by (rule abort_rolls_back[OF t(4) lay t(6)]) (auto simp: t(3))
  have q: "quiet db" using ready by (simp add: txn_ready_def)
  have "readonly db2 = readonly db" using q in_txn_facts(4)[OF t(4)] by (simp add: quiet_def)
  then have "txn_ready db3" using rolled_back_quiet[OF a(2) t(5) q _ t(7,9) _ t(11)] a(3) by simp
  moreover have "free_list_inv db3 (is @ ids)"
    by (rule rolled_back_inv[OF a(2) _ ne]) (use t(3,6) in \<open>simp_all add: undoable_def\<close>)
  moreover have "max_slots (sb db1) = max_slots (sb db)" by (simp add: t(11))
  ultimately show ?thesis
    using t(1,2) a(1) rolled_back_rest[OF a(2) t(5) t(8) t(12)] by blast
qed

theorem txn_abort_restores_pool_witness:
  "\<forall>env. \<exists>db1 db2 db3. ef_txn_begin 7 sample_txn = (EF_OK, db1) \<and> alloc_slots 2 db1 = ([0, 1], db2) \<and>
     ef_txn_abort env db2 = (EF_OK, db3) \<and> free_list_inv db3 [0, 1, 2]"
  using txn_abort_restores_pool[OF sample_txn_ready, of "[0, 1]" "[2]" 7] sample_txn_free
  by (simp add: sample_txn_log numeral_2_eq_2) blast

text \<open>
  C24: When the transaction used up the pool, the rollback relinks every slot but leaves the free
  count at 0: the inverse of the last allocation clamps the count instead of raising it. The list
  is complete, and yet the next allocation reports a full pool.
\<close>

theorem txn_abort_of_last_slot_loses_pool:
  assumes ready: "txn_ready db" and inv: "free_list_inv db is" and ne: "is \<noteq> []"
    and room: "2 * length is \<le> unat (undo_log_slots db)"
  shows "\<exists>db1 db2 db3. ef_txn_begin pid db = (EF_OK, db1) \<and> alloc_slots (length is) db1 = (is, db2) \<and>
    ef_txn_abort env db2 = (EF_OK, db3) \<and> free_chain db3 (free_list_head (sb db3)) is \<and>
    ef_count_free_slots db3 = 0 \<and> fst (ef_alloc_slot db3) = Inl EF_ERR_SLOT_FULL"
proof -
  have inv': "free_list_inv db (is @ [])" using inv by simp
  obtain db1 db2 as where t: "ef_txn_begin pid db = (EF_OK, db1)" "alloc_slots (length is) db1 = (is, db2)" "map fst as = is"
    "in_txn db2 (concat (map (alloc_recs db1) as))" "drained db1 db2 is" "undoable db2 as []"
    "same_layout db db1" "hash_entry_count db1 = hash_entry_count db"
    "sb db1 = (sb db)\<lparr>txn_lock := 1, sb_txn_state := EF_TXN_STATE_ACTIVE\<rparr>"
    by (rule txn_allocates[OF ready inv' room, where pid = pid]) blast
  have lay: "same_layout db1 db2" using t(5) by (simp add: drained_def)
  obtain db3 where a: "ef_txn_abort env db2 = (EF_OK, db3)" "rolled_back db2 db3 is []" "\<not> txn_active db3"
    by (rule abort_rolls_back[OF t(4) lay t(6)]) (auto simp: t(3))
  have q: "quiet db" using ready by (simp add: txn_ready_def)
  have "readonly db2 = readonly db" using q in_txn_facts(4)[OF t(4)] by (simp add: quiet_def)
  then have "txn_ready db3" using rolled_back_quiet[OF a(2) t(5) q _ t(7,8) _ t(9)] a(3) by simp
  then have q3: "quiet db3" by (simp add: txn_ready_def)
  have "free_count (sb db2) = 0" using t(6) by (simp add: undoable_def free_list_inv_def)
  then have zero: "free_count (sb db3) = 0" using a(2) by (auto simp: rolled_back_def recount_def)
  have v: "EF_SCHEMA_VERSION \<le> schema_version (sb db3)" "index_write_lock (sb db3) = 0" "\<not> readonly db3" "mapped db3"
    using q3 quiet_wf[OF q3] by (simp_all add: quiet_def)
  then have "fst (ef_alloc_slot db3) = Inl EF_ERR_SLOT_FULL"
    using zero by (simp add: ef_alloc_slot_def ef_alloc_slot_ex_def ef_db_require_write_def index_lock_take
        ef_free_list_pop_atomic_def ef_sb_free_count_load_def Let_def)
  moreover have "ef_count_free_slots db3 = 0" using zero by (simp add: ef_count_free_slots_def ef_sb_free_count_load_def)
  moreover have "free_chain db3 (free_list_head (sb db3)) is" using a(2) by (simp add: rolled_back_def)
  ultimately show ?thesis using t(1,2) a(1) by blast
qed

theorem txn_abort_of_last_slot_loses_pool_witness:
  "\<forall>env. \<exists>db1 db2 db3. ef_txn_begin 7 sample_txn = (EF_OK, db1) \<and> alloc_slots 3 db1 = ([0, 1, 2], db2) \<and>
     ef_txn_abort env db2 = (EF_OK, db3) \<and> free_chain db3 (free_list_head (sb db3)) [0, 1, 2] \<and>
     ef_count_free_slots db3 = 0 \<and> fst (ef_alloc_slot db3) = Inl EF_ERR_SLOT_FULL"
  using txn_abort_of_last_slot_loses_pool[OF sample_txn_ready sample_txn_free, of 7]
  by (simp add: sample_txn_log numeral_3_eq_3 del: free_chain.simps)

text \<open>
  A transaction has allocated the slots \<open>is\<close>; a new handle \<open>h\<close>, which knows nothing of it, opens the
  image as it is. Recovery finds the state byte \<^verbatim>\<open>ACTIVE\<close> and replays the log.
\<close>

lemma stale_lock_rolls_back:
  assumes ready: "txn_ready db" and inv: "free_list_inv db (is @ ids)" and room: "2 * length is \<le> unat (undo_log_slots db)"
    and start: "ef_txn_begin pid db = (EF_OK, db1)" and work: "alloc_slots (length is) db1 = (res, db2)"
    and reopen: "mem h = mem db2" "same_layout db2 h" "undo_log_base h = undo_log_base db2"
      "undo_log_slots h = undo_log_slots db2"
  obtains h' where "ef_txn_recover_from_stale_lock env h = (EF_OK, h')" "rolled_back h h' is ids" "txn_active h' = txn_active h"
    "ids \<noteq> [] \<Longrightarrow> free_list_inv h' (is @ ids)" "res = is" "txn_active db2" "drained db1 db2 is"
proof -
  obtain d1 d2 as where b: "ef_txn_begin pid db = (EF_OK, d1)" "alloc_slots (length is) d1 = (is, d2)"
    and t: "in_txn d2 (concat (map (alloc_recs d1) as))" "map fst as = is" "drained d1 d2 is" "undoable d2 as ids"
    "sb d1 = (sb db)\<lparr>txn_lock := 1, sb_txn_state := EF_TXN_STATE_ACTIVE\<rparr>"
    by (rule txn_allocates[OF ready inv room, where pid = pid])
  have d: "d1 = db1" using b(1) start by simp
  then have d2: "d2 = db2" "res = is" using b(2) work by simp_all
  note t = t[unfolded d d2(1)]
  note f = in_txn_facts[OF t(1)]
  have image: "log_image h (concat (map (alloc_recs db1) as))"
    using f(7) by (subst log_image_keep[of db2]) (simp_all add: reopen log_holds_def)
  have ok: "undo_area_ok h" using f(1) same_layout_wf[OF reopen(2)] reopen by (simp add: undo_area_ok_def same_layout_def)
  have st: "sb_txn_state (sb h) = EF_TXN_STATE_ACTIVE" using t(3,5) reopen(1) by (auto simp: drained_def)
  have sl: "db_slot h j = db_slot db2 j" for j using reopen(1,2) by (simp add: same_layout_def)
  have "free_list_inv h ids = free_list_inv db2 ids"
    by (rule free_list_inv_cong[OF reopen(2)]) (simp_all add: reopen(1) sl[unfolded reopen(1)])
  then have un: "undoable h as ids" using t(4) by (simp add: undoable_def reopen(1))
  have lay: "same_layout db1 h" using t(3) reopen(2) by (simp add: drained_def same_layout_def)
  have v: "EF_SCHEMA_VERSION \<le> schema_version (sb h)" using f(3) reopen(1) by simp
  obtain h' where r: "ef_txn_recover_from_stale_lock env h = (EF_OK, h')" "rolled_back h h' is ids" "txn_active h' = txn_active h"
    by (rule recover_rolls_back[OF ok v st image lay un, where env = env]) (auto simp: t(2))
  have "free_list_inv h' (is @ ids)" if "ids \<noteq> []"
    by (rule rolled_back_inv[OF r(2) _ that]) (use t(2) un in \<open>simp_all add: undoable_def\<close>)
  then show thesis using that[OF r] t(3) f(5) d2(2) by blast
qed

text \<open>
  C22: A crash inside a transaction that has allocated slots, did not use up the pool and fitted into
  the log. The process that ran it is gone; the image it left is opened by a new handle \<open>h\<close>, which
  knows nothing of the transaction. Recovery finds the state byte \<^verbatim>\<open>ACTIVE\<close>, replays the log, restores
  the free list and frees the transaction lock.
\<close>

theorem txn_recovery_restores_pool:
  assumes ready: "txn_ready db" and inv: "free_list_inv db (is @ ids)" and ne: "ids \<noteq> []"
    and room: "2 * length is \<le> unat (undo_log_slots db)"
    and start: "ef_txn_begin pid db = (EF_OK, db1)" and work: "alloc_slots (length is) db1 = (res, db2)"
    and reopen: "mem h = mem db2" "same_layout db2 h" "undo_log_base h = undo_log_base db2"
      "undo_log_slots h = undo_log_slots db2"
  shows "\<exists>h'. ef_txn_recover_from_stale_lock env h = (EF_OK, h') \<and> free_list_inv h' (is @ ids) \<and>
    txn_lock (sb h') = 0 \<and> sb_txn_state (sb h') = EF_TXN_STATE_NONE"
proof -
  obtain h' where "ef_txn_recover_from_stale_lock env h = (EF_OK, h')" "rolled_back h h' is ids" "free_list_inv h' (is @ ids)"
    by (rule stale_lock_rolls_back[OF ready inv room start work reopen, where env = env]) (use ne in auto)
  then show ?thesis by (auto simp: rolled_back_def)
qed

theorem txn_recovery_restores_pool_witness:
  "\<forall>env. \<exists>h'. ef_txn_recover_from_stale_lock env
      (let db2 = snd (alloc_slots 2 (snd (ef_txn_begin 7 sample_txn)))
       in db2\<lparr>txn_active := False, txn_state := 0, txn_writer_pid := 0, undo_tail := 0, undo_record_count := 0\<rparr>) = (EF_OK, h') \<and>
     free_list_inv h' [0, 1, 2] \<and> txn_lock (sb h') = 0"
proof
  fix env
  let ?b = "ef_txn_begin 7 sample_txn"
  let ?a = "alloc_slots 2 (snd ?b)"
  have inv: "free_list_inv sample_txn ([0, 1] @ [2])" using sample_txn_free by simp
  obtain db1 where b: "?b = (EF_OK, db1)" by (rule begin_ok[OF sample_txn_ready sample_txn_free])
  have a: "alloc_slots (length [0, 1 :: u64]) db1 = (fst ?a, snd ?a)" by (simp add: b numeral_2_eq_2)
  show "\<exists>h'. ef_txn_recover_from_stale_lock env
      (let db2 = snd (alloc_slots 2 (snd (ef_txn_begin 7 sample_txn)))
       in db2\<lparr>txn_active := False, txn_state := 0, txn_writer_pid := 0, undo_tail := 0, undo_record_count := 0\<rparr>) = (EF_OK, h') \<and>
     free_list_inv h' [0, 1, 2] \<and> txn_lock (sb h') = 0"
    using txn_recovery_restores_pool[OF sample_txn_ready inv _ _ b a, of "snd ?a\<lparr>txn_active := False, txn_state := 0,
        txn_writer_pid := 0, undo_tail := 0, undo_record_count := 0\<rparr>" env]
    by (simp add: sample_txn_log same_layout_def Let_def) blast
qed


subsection \<open>The log\<close>

text \<open>
  C30: inside a transaction, appending a record extends the log by exactly that record and leaves the
  superblock, the index and every slot as they are; when the log is full the append is refused with
  \<^verbatim>\<open>EF_ERR_TXN_LOG_FULL\<close> and the mapping is unchanged.
\<close>

theorem undo_append_extends_log:
  assumes ok: "undo_area_ok db" and act: "txn_active db" and log: "log_holds db recs" and bs: "12 \<le> length bs"
    and run: "ef_undo_record_append db kind target aux_v (Some bs) = (e, db')"
  shows "if length recs < unat (undo_log_slots db)
    then e = EF_OK \<and> log_holds db' (recs @ [undo_rec kind target aux_v (Some bs)]) \<and> sb db' = sb db \<and>
         table db' = table db \<and> (\<forall>j < max_slots (sb db). db_slot db' j = db_slot db j)
    else e = EF_ERR_TXN_LOG_FULL \<and> mem db' = mem db"
proof (cases "length recs < unat (undo_log_slots db)")
  case True
  obtain d where "ef_undo_record_append db kind target aux_v (Some bs) = (EF_OK, d)" "log_only db d"
    "log_holds d (recs @ [undo_rec kind target aux_v (Some bs)])"
    by (rule append_ok[OF ok act log True, where kind = kind and target = target and aux_v = aux_v and before_bytes = "Some bs"])
       (use bs in auto)
  with run log_only_facts(1,2,4)[OF ok, of d] True show ?thesis by simp
next
  case False
  have n: "unat (undo_tail db) = 32 + 32 * unat (undo_log_slots db)"
    using False log by (simp add: log_holds_def log_image_def)
  moreover have "unat (undo_log_slots db) \<le> 4096" using ok by (simp add: undo_area_ok_def)
  ultimately have "unat (undo_tail db + EF_UNDO_RECORD_SIZE) = 64 + 32 * unat (undo_log_slots db)"
    by (simp add: EF_UNDO_RECORD_SIZE_def unat_word_ariths)
  then have "undo_log_bytes db < undo_tail db + EF_UNDO_RECORD_SIZE"
    using undo_bytes[OF ok] by (simp add: word_less_nat_alt)
  then show ?thesis
    using run act undo_base[OF ok] False
    by (auto simp: ef_undo_record_append_def ef_txn_active_def ef_undo_header_ptr_def)
qed

theorem undo_append_extends_log_witness:
  "\<exists>db1 db2. ef_txn_begin 7 sample_txn = (EF_OK, db1) \<and>
     ef_undo_record_append db1 EF_UNDO_KIND_SLOT_NEXT 320 0 (Some (replicate 12 5)) = (EF_OK, db2) \<and>
     log_holds db2 [undo_rec EF_UNDO_KIND_SLOT_NEXT 320 0 (Some (replicate 12 5))]"
proof -
  obtain d where d: "ef_txn_begin 7 sample_txn = (EF_OK, d)" "in_txn d []" "undo_log_slots d = undo_log_slots sample_txn"
    by (rule begin_ok[OF sample_txn_ready sample_txn_free])
  obtain e d' where run: "ef_undo_record_append d EF_UNDO_KIND_SLOT_NEXT 320 0 (Some (replicate 12 5)) = (e, d')" by fastforce
  have t: "undo_area_ok d" "txn_active d" "log_holds d []" using in_txn_facts[OF d(2)] by simp_all
  show ?thesis using undo_append_extends_log[OF t _ run] d(1,3) run by (simp add: sample_txn_log)
qed

end
