(* ===== verification/Slot_Writes.thy ===== *)
theory Slot_Writes
  imports Queue_Fifo
begin

text \<open>
  Straight-line code that writes inside one slot. Each kind of write has its lemma: \<open>puts_next\<close>, \<open>puts_status\<close>, \<open>puts_payload\<close> or \<open>puts_crc\<close>; a sequence of them is composed with \<open>puts_trans\<close>. The slot checksum
  is described by \<open>seal\<close>.
\<close>

subsection \<open>Writes inside one slot\<close>

lemma touches_error: "touches db (ef_set_error db e) S"
  by (simp add: touches_def same_layout_def table_def)

text \<open>\<open>puts db db' i s\<close>: the two handles agree but for slot \<open>i\<close>, which is \<open>s\<close> in the second.\<close>

definition puts :: "ef_db \<Rightarrow> ef_db \<Rightarrow> u64 \<Rightarrow> ef_slot \<Rightarrow> bool" where
  "puts db db' i s \<longleftrightarrow> touches db db' {i} \<and> sb db' = sb db \<and> db_slot db' i = s"

lemma puts_trans: "puts a b i s \<Longrightarrow> puts b c i t \<Longrightarrow> puts a c i t"
  unfolding puts_def by (auto intro: touches_trans)

lemma puts_wf: "puts a b i s \<Longrightarrow> wf_layout a \<Longrightarrow> wf_layout b"
  using same_layout_wf[OF touches_layout] unfolding puts_def by blast

lemma puts_ptr: "puts a b i s \<Longrightarrow> db_slot_ptr b j = db_slot_ptr a j"
  using touches_layout[of a b "{i}"] by (simp add: puts_def same_layout_def)

lemma puts_slot: "puts a b i s \<Longrightarrow> db_slot b j = (if j = i then s else db_slot a j)"
  using touches_slot[of a b "{i}" j] by (simp add: puts_def)

lemma puts_slot': "puts a b i s \<Longrightarrow> slot_at (mem b) (db_slot_ptr a j) = (if j = i then s else db_slot a j)"
  using puts_slot[of a b i s j] puts_ptr[of a b i s j] by simp

lemma puts_quiet: "puts a b i s \<Longrightarrow> quiet b = quiet a"
  using quiet_cong[of a b "{i}"] by (simp add: puts_def)

lemma puts_free: "puts a b i s \<Longrightarrow> i \<notin> set ids \<Longrightarrow> free_list_inv b ids = free_list_inv a ids"
  using free_list_inv_touches[of a b "{i}" ids] by (simp add: puts_def)

lemma puts_offset: "puts a b i s \<Longrightarrow> ef_slot_to_offset b = ef_slot_to_offset a"
  unfolding puts_def by (blast intro: same_layout_offset touches_layout)

lemma slot_base_64: "wf_layout db \<Longrightarrow> 64 \<le> db_slot_ptr db i"
  using wf_layout_base_ge slot_ptr_ge le_trans by blast

lemma putsI:
  assumes wf: "wf_layout db" and db': "db' = db\<lparr>mem := m\<rparr>"
    and "sb_of m = sb db" "table_of m 64 (unat (hash_capacity db)) = table db"
    and "\<And>j. j \<noteq> i \<Longrightarrow> slot_at m (db_slot_ptr db j) = db_slot db j" "slot_at m (db_slot_ptr db i) = s"
  shows "puts db db' i s"
  using assms by (auto simp: puts_def touches_def same_layout_def table_def)

lemma puts_next:
  assumes wf: "wf_layout db"
  shows "puts db (upd_mem (\<lambda>m. set_next_offset m (db_slot_ptr db i) v) db) i ((db_slot db i)\<lparr>next_offset := v\<rparr>)"
  using slot_base_64[OF wf, of i] table_end[OF wf, of i] unat_inj_slot[of i]
  by (intro putsI[OF wf refl]) (auto simp: table_def)

lemma puts_status:
  assumes wf: "wf_layout db"
  shows "puts db (ef_slot_status_store db (db_slot_ptr db i) v) i ((db_slot db i)\<lparr>status := v\<rparr>)"
  unfolding ef_slot_status_store_def using slot_base_64[OF wf, of i] table_end[OF wf, of i] unat_inj_slot[of i]
  by (intro putsI[OF wf refl]) (auto simp: table_def)

lemma puts_payload:
  assumes "wf_layout db" "k + length bs \<le> 48"
  shows "puts db (db\<lparr>mem := store_bytes (mem db) (db_slot_ptr db i + (8 + k)) bs\<rparr>) i
     ((db_slot db i)\<lparr>payload := overwrite (payload (db_slot db i)) k bs\<rparr>)"
  using payload_store[OF assms, of i] by (simp add: puts_def)

text \<open>A slot whose checksum field has been stored for its contents.\<close>

definition seal :: "ef_db \<Rightarrow> u64 \<Rightarrow> ef_slot \<Rightarrow> ef_slot" where
  "seal db i s = (if flags (sb db) AND EF_FLAG_SLOT_CRC = 0 then s else s\<lparr>header_crc := ef_slot_header_crc_compute i s\<rparr>)"

definition sealed :: "ef_db \<Rightarrow> u64 \<Rightarrow> bool" where
  "sealed db i \<longleftrightarrow> seal db i (db_slot db i) = db_slot db i"

text \<open>
  The value 0 of the checksum field stands for a missing checksum; a slot with contents \<open>s\<close> is
  readable when its checksum is not 0.
\<close>

definition crc_ok :: "ef_db \<Rightarrow> u64 \<Rightarrow> ef_slot \<Rightarrow> bool" where
  "crc_ok db i s \<longleftrightarrow> flags (sb db) AND EF_FLAG_SLOT_CRC = 0 \<or> ef_slot_header_crc_compute i s \<noteq> 0"

lemma seal_fields [simp]:
  "status (seal db i s) = status s" "payload (seal db i s) = payload s" "next_offset (seal db i s) = next_offset s"
  by (simp_all add: seal_def)

lemma seal_seal [simp]: "seal db i (seal db i s) = seal db i s"
  by (simp add: seal_def)

lemma crc_ok_seal [simp]: "crc_ok db i (seal db' i s) = crc_ok db i s"
  by (simp add: crc_ok_def seal_def)

lemma puts_crc:
  assumes wf: "wf_layout db"
  shows "puts db (ef_slot_header_crc_store db i (db_slot_ptr db i)) i (seal db i (db_slot db i))"
  using slot_base_64[OF wf, of i] table_end[OF wf, of i] unat_inj_slot[of i]
  by (intro putsI[OF wf, where m = "mem (ef_slot_header_crc_store db i (db_slot_ptr db i))"])
     (auto simp: table_def seal_def ef_slot_header_crc_store_def)

lemma flags_cong: "flags (sb db') = flags (sb db) \<Longrightarrow> seal db' = seal db"
  "flags (sb db') = flags (sb db) \<Longrightarrow> crc_ok db' = crc_ok db"
  by (auto simp: seal_def crc_ok_def fun_eq_iff)

lemma sealed_cong: "flags (sb db') = flags (sb db) \<Longrightarrow> db_slot db' i = db_slot db i \<Longrightarrow> sealed db' i = sealed db i"
  by (simp add: sealed_def flags_cong(1)[of db' db])

lemma sealed_valid: "sealed db i \<Longrightarrow> crc_ok db i (db_slot db i) \<Longrightarrow> ef_slot_header_crc_valid db i (db_slot db i)"
proof -
  assume s: "sealed db i" and c: "crc_ok db i (db_slot db i)"
  show ?thesis
  proof (cases "flags (sb db) AND EF_FLAG_SLOT_CRC = 0")
    case False
    then have "header_crc (db_slot db i) = ef_slot_header_crc_compute i (db_slot db i)"
      using s unfolding sealed_def seal_def by (metis ef_slot.select_convs(2) ef_slot.surjective ef_slot.update_convs(2))
    with False c show ?thesis by (simp add: ef_slot_header_crc_valid_def crc_ok_def)
  qed (simp add: ef_slot_header_crc_valid_def)
qed

lemma get_slot_ok:
  assumes "mapped db" "i < max_slots (sb db)" "ef_slot_header_crc_valid db i (db_slot db i)"
  shows "ef_get_slot db i = (Some (db_slot_ptr db i), ef_set_error db EF_OK)"
proof -
  have "ef_slot_header_crc_valid (ef_set_error db EF_OK) i (db_slot db i)"
    using assms(3) by (simp add: ef_slot_header_crc_valid_def)
  then show ?thesis using peek_ok[OF assms(1,2)] by (simp add: ef_get_slot_def ef_slot_verify_used_def)
qed

lemma set_error_twice: "ef_set_error (ef_set_error db a) b = ef_set_error db b"
  by (simp add: ef_set_error_def)

lemma get_slot_result:
  "ef_get_slot db i = (r, db') \<Longrightarrow> (\<exists>e. db' = ef_set_error db e) \<and> (\<forall>p. r = Some p \<longrightarrow> i < max_slots (sb db) \<and> p = db_slot_ptr db i)"
  by (auto simp: set_error_twice ef_get_slot_def ef_peek_slot_def ef_slot_verify_used_def Let_def split: if_splits prod.splits)

lemma puts_error: "puts a b i s \<Longrightarrow> puts a (ef_set_error b e) i s"
  using touches_trans[OF _ touches_error[of b e "{i}"], of a "{i}" "{i}"] by (simp add: puts_def)

lemma payload_set_error [simp]:
  "ef_payload_capacity (ef_set_error db e) = ef_payload_capacity db"
  "ef_slot_payload_ptr (ef_set_error db e) = ef_slot_payload_ptr db"
  by (simp_all add: ef_payload_capacity_def ef_slot_payload_ptr_def fun_eq_iff)

lemma puts_flags: "puts a b i s \<Longrightarrow> flags (sb b) = flags (sb a)"
  by (simp add: puts_def)

subsection \<open>The rest of the superblock\<close>

text \<open>Operations that only take slots from the free list or return them keep the rest of the superblock.\<close>

definition same_sb :: "ef_db \<Rightarrow> ef_db \<Rightarrow> bool" where
  "same_sb db db' \<longleftrightarrow> (\<exists>h c. sb db' = (sb db)\<lparr>free_list_head := h, free_count := c\<rparr>)"

lemma same_sb_trans: "same_sb a b \<Longrightarrow> same_sb b c \<Longrightarrow> same_sb a c"
  unfolding same_sb_def by (elim exE) (rule exI, rule exI, simp)

lemma same_sb_refl [simp]: "same_sb a a"
  unfolding same_sb_def by (intro exI[of _ "free_list_head (sb a)"] exI[of _ "free_count (sb a)"]) simp

lemma same_sb_eq: "sb b = sb a \<Longrightarrow> same_sb a b"
  using same_sb_refl[of a] unfolding same_sb_def by simp

lemma same_sb_fields:
  "same_sb db db' \<Longrightarrow> flags (sb db') = flags (sb db)"
  "same_sb db db' \<Longrightarrow> schema_version (sb db') = schema_version (sb db)"
  "same_sb db db' \<Longrightarrow> index_write_lock (sb db') = index_write_lock (sb db)"
  by (auto simp: same_sb_def)

end
