(* ===== verification/Free_Slot.thy ===== *)
theory Free_Slot
  imports Slots Queue_Props Slot_Writes
begin

text \<open>
  Freeing a slot and the overflow chain that hangs off it. The release loop follows links in
  memory; on a chain of overflow slots it ends, with every slot of the chain on the free list.
\<close>

fun ov_chain :: "ef_db \<Rightarrow> u64 \<Rightarrow> u64 list \<Rightarrow> bool" where
  "ov_chain db off [] \<longleftrightarrow> off = 0"
| "ov_chain db off (i # is) \<longleftrightarrow>
     i < max_slots (sb db) \<and> off = ef_slot_to_offset db i \<and> status (db_slot db i) = EF_STATUS_OVERFLOW \<and>
     ov_chain db (next_offset (db_slot db i)) is"

lemma ov_chain_touches:
  assumes "touches db db' S" "S \<inter> set is = {}"
  shows "ov_chain db' off is = ov_chain db off is"
  using assms
proof (induction "is" arbitrary: off)
  case (Cons i "is")
  have "i \<notin> S" using Cons.prems(2) by auto
  then have slot: "db_slot db' i = db_slot db i" by (rule touches_slot[OF Cons.prems(1)])
  have "ov_chain db' o' is = ov_chain db o' is" for o' using Cons.IH[OF Cons.prems(1)] Cons.prems(2) by auto
  then show ?case
    using touches_layout[OF Cons.prems(1)] slot same_layout_offset[OF touches_layout[OF Cons.prems(1)]]
    by (simp add: same_layout_def)
qed simp

text \<open>\<open>released db db' is ids\<close>: the slots \<open>is\<close> have been given back, in this order.\<close>

definition released :: "ef_db \<Rightarrow> ef_db \<Rightarrow> u64 list \<Rightarrow> u64 list \<Rightarrow> bool" where
  "released db db' is ids \<longleftrightarrow>
     quiet db' \<and> free_list_inv db' (rev is @ ids) \<and> touches db db' (set is) \<and>
     (\<exists>h c. sb db' = (sb db)\<lparr>free_list_head := h, free_count := c\<rparr>)"

lemma release_one:
  assumes q: "quiet db" and inv: "free_list_inv db ids" and i: "i < max_slots (sb db)" "i \<notin> set ids"
    and u: "unindexed db i" and room: "Suc (length ids) < 2 ^ 32"
  obtains db' where "ef_return_slot_to_pool env (upd_mem (\<lambda>m. set_next_offset m (db_slot_ptr db i) 0) db) i (db_slot_ptr db i) = (EF_OK, db')"
    "released db db' [i] ids"
proof -
  define d where "d = upd_mem (\<lambda>m. set_next_offset m (db_slot_ptr db i) 0) db"
  have wf: "wf_layout db" by (rule quiet_wf[OF q])
  have p: "64 \<le> db_slot_ptr db j" for j using wf wf_layout_base_ge slot_ptr_ge le_trans by blast
  have sbd: "sb d = sb db" using p by (simp add: d_def)
  have td: "touches db d {i}"
  proof -
    have "table d = table db" using table_end[OF wf, of i] by (simp add: d_def table_def)
    moreover have "db_slot d j = db_slot db j" if "j \<noteq> i" for j using unat_inj_slot[OF that] by (simp add: d_def)
    moreover have "same_layout db d" by (simp add: same_layout_def sbd) (simp add: d_def)
    ultimately show ?thesis by (simp add: touches_def) (simp add: d_def)
  qed
  have qd: "quiet d" using q quiet_cong[OF td] by (simp add: sbd)
  have invd: "free_list_inv d ids" using inv i(2) by (subst free_list_inv_touches[OF td]) (simp_all add: sbd)
  have ud: "unindexed d i" using u unindexed_cong[OF td] by simp
  have id: "i < max_slots (sb d)" using i(1) by (simp add: sbd)
  obtain e db' where run: "ef_return_slot_to_pool env d i (db_slot_ptr d i) = (e, db')" by fastforce
  note r = return_ok[OF qd invd id i(2) ud room run]
  have "touches db db' {i}" by (rule touches_trans[OF td r(2)]) simp_all
  then have "released db db' [i] ids" using r(3,4,5) by (auto simp: released_def sbd)
  moreover have "ef_return_slot_to_pool env (upd_mem (\<lambda>m. set_next_offset m (db_slot_ptr db i) 0) db) i (db_slot_ptr db i) = (EF_OK, db')"
    using run r(1) by (simp add: d_def)
  ultimately show thesis using that by blast
qed

lemma released_trans:
  assumes "released a b [i] ids" "released b c is (i # ids)"
  shows "released a c (i # is) ids"
proof -
  have "touches a c (set (i # is))" by (rule touches_trans[of a b "{i}" c "set is"]) (use assms in \<open>auto simp: released_def\<close>)
  moreover obtain h n h' n' where "sb b = (sb a)\<lparr>free_list_head := h, free_count := n\<rparr>"
    "sb c = (sb b)\<lparr>free_list_head := h', free_count := n'\<rparr>"
    using assms unfolding released_def by blast
  then have "\<exists>h c'. sb c = (sb a)\<lparr>free_list_head := h, free_count := c'\<rparr>" by (intro exI[of _ h'] exI[of _ n']) simp
  ultimately show ?thesis using assms(2) by (simp add: released_def)
qed

lemma release_loop_ok:
  assumes "quiet db" "free_list_inv db ids" "ov_chain db off ovs" "distinct (ovs @ ids)"
    and "\<forall>i \<in> set ovs. unindexed db i" "length (ovs @ ids) < 2 ^ 32"
  shows "\<exists>db'. release_loop env db off = Some (EF_OK, db') \<and> released db db' ovs ids"
  using assms
proof (induction ovs arbitrary: db off ids)
  case Nil
  have "\<exists>h c. sb db = (sb db)\<lparr>free_list_head := h, free_count := c\<rparr>"
    by (intro exI[of _ "free_list_head (sb db)"] exI[of _ "free_count (sb db)"]) simp
  then have "released db db [] ids" using Nil by (simp add: released_def touches_refl)
  with Nil show ?case by (simp add: release_loop.simps)
next
  case (Cons i ovs)
  have wf: "wf_layout db" by (rule quiet_wf[OF Cons.prems(1)])
  have i: "i < max_slots (sb db)" "off = ef_slot_to_offset db i" "status (db_slot db i) = EF_STATUS_OVERFLOW"
    "ov_chain db (next_offset (db_slot db i)) ovs" "i \<notin> set ids" "i \<notin> set ovs"
    using Cons.prems(3,4) by auto
  have room: "Suc (length ids) < 2 ^ 32" using Cons.prems(6) by simp
  have u: "unindexed db i" using Cons.prems(5) by simp
  obtain d where d: "ef_return_slot_to_pool env (upd_mem (\<lambda>m. set_next_offset m (db_slot_ptr db i) 0) db) i (db_slot_ptr db i) = (EF_OK, d)"
    "released db d [i] ids"
    by (rule release_one[OF Cons.prems(1,2) i(1,5) u room])
  have td: "touches db d {i}" using d(2) by (simp add: released_def)
  have "ov_chain d (next_offset (db_slot db i)) ovs" using i(4,6) by (subst ov_chain_touches[OF td]) simp_all
  moreover have "\<forall>j \<in> set ovs. unindexed d j" using Cons.prems(5) unindexed_cong[OF td] by simp
  moreover have "quiet d" "free_list_inv d (i # ids)" using d(2) by (simp_all add: released_def)
  ultimately obtain db' where IH: "release_loop env d (next_offset (db_slot db i)) = Some (EF_OK, db')" "released d db' ovs (i # ids)"
    using Cons.IH[of d "i # ids" "next_offset (db_slot db i)"] Cons.prems(4,6) by auto
  have "release_loop env db off = Some (EF_OK, db')"
    using d(1) IH(1) i(3) slot_offset_neq_0[OF wf i(1)] offset_to_slot_id_roundtrip[OF wf i(1)]
    by (subst release_loop.simps) (simp add: i(2) Let_def)
  then show ?case using released_trans[OF d(2) IH(2)] by blast
qed


definition freeable :: "ef_db \<Rightarrow> u64 \<Rightarrow> u64 list \<Rightarrow> u64 list \<Rightarrow> bool" where
  "freeable db i ovs ids \<longleftrightarrow>
     quiet db \<and> free_list_inv db ids \<and> i < max_slots (sb db) \<and> distinct (i # ovs @ ids) \<and>
     length (i # ovs @ ids) < 2 ^ 32 \<and> (\<forall>j \<in> set (i # ovs). unindexed db j) \<and>
     status (db_slot db i) = EF_STATUS_USED \<and> ov_chain db (next_offset (db_slot db i)) ovs"

text \<open>Unlinking the head slot from its chain, then releasing the chain.\<close>

lemma release_chain_ok:
  assumes f: "freeable db i ovs ids"
  obtains e where "ef_blob_release_chain env db i (db_slot_ptr db i) = Some (EF_OK, e)"
    "touches db e (set (i # ovs))" "quiet e" "free_list_inv e (rev ovs @ ids)" "same_sb db e"
    "db_slot e i = seal db i ((db_slot db i)\<lparr>next_offset := 0\<rparr>)"
proof -
  have q: "quiet db" and inv: "free_list_inv db ids" and dist: "i \<notin> set ids" "i \<notin> set ovs" "distinct (ovs @ ids)"
    and len: "length (ovs @ ids) < 2 ^ 32" and un: "\<forall>j \<in> set ovs. unindexed db j"
    and ch: "ov_chain db (next_offset (db_slot db i)) ovs"
    using f by (simp_all add: freeable_def)
  have wf: "wf_layout db" by (rule quiet_wf[OF q])
  define c where "c = upd_mem (\<lambda>m. set_next_offset m (db_slot_ptr db i) 0) db"
  have C: "puts db c i ((db_slot db i)\<lparr>next_offset := 0\<rparr>)" unfolding c_def by (rule puts_next[OF wf])
  define d where "d = ef_slot_header_crc_store c i (db_slot_ptr c i)"
  have D: "puts db d i (seal c i (db_slot c i))" unfolding d_def by (rule puts_trans[OF C puts_crc[OF puts_wf[OF C wf]]])
  have td: "touches db d {i}" using D by (simp add: puts_def)
  have qd: "quiet d" using q puts_quiet[OF D] by simp
  have invd: "free_list_inv d ids" using inv dist(1) puts_free[OF D] by simp
  have chd: "ov_chain d (next_offset (db_slot db i)) ovs" using ch dist(2) by (subst ov_chain_touches[OF td]) simp_all
  have und: "\<forall>j \<in> set ovs. unindexed d j" using un unindexed_cong[OF td] by simp
  from release_loop_ok[OF qd invd chd dist(3) und len, of env] obtain e where
    e: "release_loop env d (next_offset (db_slot db i)) = Some (EF_OK, e)" "released d e ovs ids" by blast
  have te: "touches d e (set ovs)" and "same_sb d e" and rest: "quiet e" "free_list_inv e (rev ovs @ ids)"
    using e(2) by (simp_all add: released_def same_sb_def)
  then have ss: "same_sb db e" using same_sb_trans[OF same_sb_eq, of d db e] D by (simp add: puts_def)
  have run: "ef_blob_release_chain env db i (db_slot_ptr db i) = Some (EF_OK, e)"
    using e(1) by (simp add: ef_blob_release_chain_def d_def c_def)
  have t: "touches db e (set (i # ovs))" by (rule touches_trans[OF td te]) auto
  have "db_slot e i = db_slot d i" using dist(2) by (intro touches_slot[OF te])
  then have "db_slot e i = seal db i ((db_slot db i)\<lparr>next_offset := 0\<rparr>)"
    by (simp add: puts_slot[OF D] puts_slot[OF C] flags_cong(1)[OF puts_flags[OF C]])
  with that[OF run t rest ss] show thesis .
qed

lemma freeable_error: "freeable (ef_set_error db e) i ovs ids = freeable db i ovs ids"
proof -
  have t: "touches db (ef_set_error db e) {}" by (rule touches_error)
  show ?thesis
    using quiet_cong[OF t] free_list_inv_touches[OF t, of ids] ov_chain_touches[OF t, of ovs] unindexed_cong[OF t]
    by (simp add: freeable_def)
qed

lemma free_slot_ok:
  assumes f: "freeable db i ovs ids" and crc: "ef_slot_header_crc_valid db i (db_slot db i)"
  obtains db' where "ef_free_slot env db i = Some (EF_OK, db')" "released db db' (ovs @ [i]) ids"
proof -
  have q: "quiet db" and i: "i < max_slots (sb db)" and dist: "i \<notin> set ids" "i \<notin> set ovs"
    and len: "Suc (length (ovs @ ids)) < 2 ^ 32" and un: "unindexed db i" and st: "status (db_slot db i) = EF_STATUS_USED"
    using f by (simp_all add: freeable_def)
  define b where "b = ef_set_error db EF_OK"
  have tb: "touches db b {}" unfolding b_def by (rule touches_error)
  have "freeable b i ovs ids" using f by (simp add: b_def freeable_error)
  then obtain e where e: "ef_blob_release_chain env b i (db_slot_ptr b i) = Some (EF_OK, e)"
    "touches b e (set (i # ovs))" "quiet e" "free_list_inv e (rev ovs @ ids)" "same_sb b e"
    by (rule release_chain_ok[where env = env])
  have te: "touches db e (set (i # ovs))" by (rule touches_trans[OF tb e(2)]) simp_all
  have ie: "i < max_slots (sb e)" "i \<notin> set (rev ovs @ ids)"
    using i dist touches_layout[OF te] by (simp_all add: same_layout_def)
  have ue: "unindexed e i" using un unindexed_cong[OF te] by simp
  have lene: "Suc (length (rev ovs @ ids)) < 2 ^ 32" using len by simp
  have ptr: "slots_base e = slots_base db" using touches_layout[OF te] by (simp add: same_layout_def)
  obtain err db' where run: "ef_return_slot_to_pool env e i (db_slot_ptr e i) = (err, db')" by fastforce
  note r = return_ok[OF e(3,4) ie ue lene run]
  have act: "\<not> txn_active e" using e(3) by (simp add: quiet_def)
  have ro: "\<not> readonly db" using q by (simp add: quiet_def)
  have peek: "ef_peek_slot db i = (Some (db_slot_ptr b i), b)" using peek_ok[OF _ i] quiet_wf[OF q] by (simp add: b_def)
  have sl: "db_slot b i = db_slot db i" "slots_base b = slots_base db" by (simp_all add: b_def)
  have crcb: "ef_slot_header_crc_valid b i (db_slot b i)" using crc by (simp add: b_def ef_slot_header_crc_valid_def)
  have "ef_free_slot env db i = Some (EF_OK, db')"
    unfolding ef_free_slot_def using ro peek st crcb e(1) act run r(1) ptr sl
    by (simp add: ef_db_require_write_def Let_def ef_status_defs ef_txn_active_def b_def[symmetric])
  moreover have "released db db' (ovs @ [i]) ids"
  proof -
    have "same_sb db b" by (simp add: same_sb_eq b_def)
    moreover have "same_sb e db'" using r(5) unfolding same_sb_def by blast
    ultimately have "same_sb db db'" using e(5) by (blast intro: same_sb_trans)
    moreover have "touches db db' (set (ovs @ [i]))" by (rule touches_trans[OF te r(2)]) auto
    ultimately show ?thesis using r(3,4) by (simp add: released_def same_sb_def)
  qed
  ultimately show thesis using that by blast
qed

lemma free_slot_bad_crc:
  assumes f: "freeable db i ovs ids" and crc: "\<not> ef_slot_header_crc_valid db i (db_slot db i)"
  shows "ef_free_slot env db i = Some (EF_ERR_BAD_CHECKSUM, ef_set_error db EF_ERR_BAD_CHECKSUM)"
proof -
  have q: "quiet db" and i: "i < max_slots (sb db)" and st: "status (db_slot db i) = EF_STATUS_USED"
    using f by (simp_all add: freeable_def)
  have v: "\<not> readonly db" "mapped db" using q quiet_wf[OF q] by (simp_all add: quiet_def)
  have "\<not> ef_slot_header_crc_valid (ef_set_error db EF_OK) i (db_slot db i)"
    using crc by (simp add: ef_slot_header_crc_valid_def)
  then show ?thesis
    using v peek_ok[OF v(2) i] st by (simp add: ef_free_slot_def ef_db_require_write_def Let_def ef_status_defs ef_set_error_def)
qed

subsection \<open>Properties\<close>

lemma sample_freeable: "freeable (snd (ef_alloc_slot sample_queue)) 0 [] [1, 2]"
  "ef_slot_header_crc_valid (snd (ef_alloc_slot sample_queue)) 0 (db_slot (snd (ef_alloc_slot sample_queue)) 0)"
proof -
  let ?d = "snd (ef_alloc_slot sample_queue)"
  have q: "quiet sample_queue" "unindexed sample_queue 0" using sample_queue_unused by (simp_all add: queue_unused_def)
  have run: "ef_alloc_slot_ex sample_queue EF_ALLOC_ZERO_PAYLOAD = (fst (ef_alloc_slot sample_queue), ?d)" by (simp add: ef_alloc_slot_def)
  note a = alloc_slot_ok[OF q(1) sample_queue_free run]
  have "ov_chain ?d (next_offset (db_slot ?d 0)) []" using a(7) by simp
  then show "freeable ?d 0 [] [1, 2]"
    using a q(2) unindexed_cong[OF a(2)] by (simp add: freeable_def sb_sample_queue)
  show "ef_slot_header_crc_valid ?d 0 (db_slot ?d 0)"
    by (simp add: ef_slot_header_crc_valid_def a(5) sb_sample_queue)
qed

text \<open>
  C31: freeing a used slot with a valid checksum terminates, whatever the length of its overflow
  chain, and returns \<^verbatim>\<open>EF_OK\<close>; the slot and every slot of its chain are then on the free list, in
  the order in which they will be handed out, and no other slot and no index entry has changed.
\<close>

theorem free_slot_releases_chain:
  assumes "freeable db i ovs ids" "ef_slot_header_crc_valid db i (db_slot db i)"
  shows "\<exists>db'. ef_free_slot env db i = Some (EF_OK, db') \<and> free_list_inv db' (i # rev ovs @ ids) \<and>
    table db' = table db \<and> (\<forall>j. j \<noteq> i \<and> j \<notin> set ovs \<longrightarrow> db_slot db' j = db_slot db j)"
proof -
  obtain db' where r: "ef_free_slot env db i = Some (EF_OK, db')" "released db db' (ovs @ [i]) ids"
    by (rule free_slot_ok[OF assms])
  then show ?thesis by (intro exI[of _ db']) (simp add: released_def touches_def)
qed

theorem free_slot_releases_chain_witness:
  "\<forall>env. \<exists>db'. ef_free_slot env (snd (ef_alloc_slot sample_queue)) 0 = Some (EF_OK, db') \<and> free_list_inv db' [0, 1, 2]"
  using free_slot_releases_chain[OF sample_freeable] by simp blast

text \<open>
  C32: a second free of the same slot is refused with \<^verbatim>\<open>EF_ERR_SLOT_FREE\<close> and changes nothing in the
  mapping, and so is the free of any slot of the chain that went with it.
\<close>

theorem double_free_rejected:
  assumes f: "freeable db i ovs ids" and run: "ef_free_slot env db i = Some (EF_OK, db')" and j: "j \<in> set (i # ovs)"
  shows "\<exists>db''. ef_free_slot env db' j = Some (EF_ERR_SLOT_FREE, db'') \<and> mem db'' = mem db'"
proof -
  have "ef_slot_header_crc_valid db i (db_slot db i)"
  proof (rule ccontr)
    assume "\<not> ef_slot_header_crc_valid db i (db_slot db i)"
    from free_slot_bad_crc[OF f this, of env] show False using run by simp
  qed
  then have r: "released db db' (ovs @ [i]) ids"
    using free_slot_ok[OF f, where env = env] run by auto
  then have q: "quiet db'" and inv: "free_list_inv db' (rev (ovs @ [i]) @ ids)" by (simp_all add: released_def)
  have v: "\<not> readonly db'" "mapped db'" using q quiet_wf[OF q] by (simp_all add: quiet_def)
  have "free_chain db' (free_list_head (sb db')) (rev (ovs @ [i]) @ ids)" using inv by (simp add: free_list_inv_def)
  from free_chain_slots[OF this, of j] have s: "j < max_slots (sb db')" "status (db_slot db' j) = EF_STATUS_FREE"
    using j by auto
  show ?thesis
    using v peek_ok[OF v(2) s(1)] s(2) by (simp add: ef_free_slot_def ef_db_require_write_def Let_def)
qed

theorem double_free_rejected_witness:
  "\<forall>env. \<exists>db' db''. ef_free_slot env (snd (ef_alloc_slot sample_queue)) 0 = Some (EF_OK, db') \<and>
     ef_free_slot env db' 0 = Some (EF_ERR_SLOT_FREE, db'') \<and> mem db'' = mem db'"
proof
  fix env
  obtain db' where r: "ef_free_slot env (snd (ef_alloc_slot sample_queue)) 0 = Some (EF_OK, db')"
    by (rule free_slot_ok[OF sample_freeable])
  then show "\<exists>db' db''. ef_free_slot env (snd (ef_alloc_slot sample_queue)) 0 = Some (EF_OK, db') \<and>
     ef_free_slot env db' 0 = Some (EF_ERR_SLOT_FREE, db'') \<and> mem db'' = mem db'"
    using double_free_rejected[OF sample_freeable(1) r, of 0] by simp
qed

end
