(* ===== verification/Pool_Machine.thy ===== *)
theory Pool_Machine
  imports Free_Slot
begin

text \<open>
  Clients of the slot pool as a state machine: calls of \<^verbatim>\<open>ef_alloc_slot_ex\<close> and
  \<^verbatim>\<open>ef_free_slot\<close> in any order. The second part of the state are the slots the clients hold, which
  the code does not know of. A client frees what it holds.
\<close>

inductive pool_step :: "ef_env \<Rightarrow> ef_db \<times> u64 list \<Rightarrow> ef_db \<times> u64 list \<Rightarrow> bool" for env where
  Alloc: "ef_alloc_slot_ex db fl = (Inr i, db') \<Longrightarrow> pool_step env (db, held) (db', i # held)"
| Full: "ef_alloc_slot_ex db fl = (Inl e, db') \<Longrightarrow> pool_step env (db, held) (db', held)"
| Free: "i \<in> set held \<Longrightarrow> ef_free_slot env db i = Some (EF_OK, db') \<Longrightarrow>
    pool_step env (db, held) (db', remove1 i held)"
| Refused: "i \<in> set held \<Longrightarrow> ef_free_slot env db i = Some (e, db') \<Longrightarrow> e \<noteq> EF_OK \<Longrightarrow>
    pool_step env (db, held) (db', held)"

inductive_cases pool_step_cases: "pool_step env (db, held) (db', held')"

text \<open>What a client may rely on for the slots it holds.\<close>

definition slot_held :: "ef_db \<Rightarrow> u64 \<Rightarrow> bool" where
  "slot_held db i \<longleftrightarrow>
     i < max_slots (sb db) \<and> status (db_slot db i) = EF_STATUS_USED \<and> next_offset (db_slot db i) = 0"

definition pool_inv :: "u64 set \<Rightarrow> ef_db \<times> u64 list \<Rightarrow> bool" where
  "pool_inv U = (\<lambda>(db, held).
     \<exists>ids. quiet db \<and> free_list_inv db ids \<and> distinct (held @ ids) \<and> set (held @ ids) = U \<and>
       length (held @ ids) < 2 ^ 32 \<and> (\<forall>i \<in> U. unindexed db i) \<and> (\<forall>i \<in> set held. slot_held db i))"

lemma slot_held_touches: "touches db db' S \<Longrightarrow> i \<notin> S \<Longrightarrow> slot_held db' i = slot_held db i"
  using touches_slot[of db db' S i] touches_layout[of db db' S] by (simp add: slot_held_def same_layout_def)

lemma alloc_full:
  assumes q: "quiet db" and inv: "free_list_inv db []" and run: "ef_alloc_slot_ex db fl = (r, db')"
  shows "r = Inl EF_ERR_SLOT_FULL" "touches db db' {}" "sb db' = sb db"
proof -
  have wf: "wf_layout db" by (rule quiet_wf[OF q])
  have v: "EF_SCHEMA_VERSION \<le> schema_version (sb db)" "index_write_lock (sb db) = 0" "\<not> readonly db" "mapped db"
    using q wf by (simp_all add: quiet_def)
  have "free_list_head (sb db) = 0" using inv by (simp add: free_list_inv_def)
  then have "ef_alloc_slot_ex db fl = (Inl EF_ERR_SLOT_FULL, ef_set_error db EF_ERR_SLOT_FULL)"
    using v by (simp add: ef_alloc_slot_ex_def ef_db_require_write_def index_lock_take ef_free_list_pop_atomic_def Let_def
        index_lock_drop index_lock_drop_take ef_set_error_def)
  then show "r = Inl EF_ERR_SLOT_FULL" "touches db db' {}" "sb db' = sb db"
    using run touches_error by auto
qed

lemma alloc_result:
  assumes "quiet db" "free_list_inv db ids"
  shows "fst (ef_alloc_slot_ex db fl) = (case ids of [] \<Rightarrow> Inl EF_ERR_SLOT_FULL | i # _ \<Rightarrow> Inr i)"
proof -
  obtain r db' where run: "ef_alloc_slot_ex db fl = (r, db')" by fastforce
  show ?thesis
  proof (cases ids)
    case Nil
    then show ?thesis using alloc_full(1)[OF assms(1) _ run] assms(2) run by simp
  next
    case (Cons k ks)
    then show ?thesis using alloc_slot_ok(1)[OF assms(1) _ run] assms(2) run by simp
  qed
qed

lemma pool_inv_alloc:
  assumes inv: "pool_inv U (db, held)" and run: "ef_alloc_slot_ex db fl = (Inr i, db')"
  shows "pool_inv U (db', i # held)"
proof -
  obtain ids where p: "quiet db" "free_list_inv db ids" "distinct (held @ ids)" "set (held @ ids) = U"
    "length (held @ ids) < 2 ^ 32" "\<forall>i \<in> U. unindexed db i" "\<forall>i \<in> set held. slot_held db i"
    using inv by (auto simp: pool_inv_def)
  have "ids \<noteq> []" using alloc_full(1)[OF p(1) _ run] p(2) by auto
  then obtain k ks where ids: "ids = k # ks" by (cases ids) auto
  note a = alloc_slot_ok[OF p(1) p(2)[unfolded ids] run]
  have k: "k = i" using a(1) by simp
  have "slot_held db' j" if "j \<in> set (i # held)" for j
  proof (cases "j = i")
    case True
    have "i < max_slots (sb db)" using free_list_inv_head(2)[OF p(2)[unfolded ids]] k by simp
    then show ?thesis using a(6,7) touches_layout[OF a(2)] True k by (simp add: slot_held_def same_layout_def)
  next
    case False
    then show ?thesis using that p(7) slot_held_touches[OF a(2)] k by simp
  qed
  moreover have "\<forall>j \<in> U. unindexed db' j" using p(6) unindexed_cong[OF a(2)] by simp
  moreover have "distinct ((i # held) @ ks)" "set ((i # held) @ ks) = U" "length ((i # held) @ ks) < 2 ^ 32"
    using p(3,4,5) ids k by auto
  ultimately show ?thesis using a(3,4) unfolding pool_inv_def by (intro case_prodI exI[of _ ks]) simp
qed

lemma pool_inv_keep:
  assumes inv: "pool_inv U (db, held)" and t: "touches db db' {}" and sb: "sb db' = sb db"
  shows "pool_inv U (db', held)"
proof -
  obtain ids where p: "quiet db" "free_list_inv db ids" "distinct (held @ ids)" "set (held @ ids) = U"
    "length (held @ ids) < 2 ^ 32" "\<forall>i \<in> U. unindexed db i" "\<forall>i \<in> set held. slot_held db i"
    using inv by (auto simp: pool_inv_def)
  have "quiet db'" "free_list_inv db' ids" "\<forall>i \<in> U. unindexed db' i" "\<forall>i \<in> set held. slot_held db' i"
    using p quiet_cong[OF t] free_list_inv_touches[OF t] unindexed_cong[OF t] slot_held_touches[OF t] sb by simp_all
  with p(3-5) show ?thesis unfolding pool_inv_def by (intro case_prodI exI[of _ ids]) simp
qed

lemma pool_inv_freeable:
  assumes inv: "pool_inv U (db, held)" and i: "i \<in> set held"
  obtains ids where "freeable db i [] ids" "distinct (held @ ids)" "set (held @ ids) = U" "length (held @ ids) < 2 ^ 32"
    "\<forall>j \<in> U. unindexed db j" "\<forall>j \<in> set held. slot_held db j"
proof -
  obtain ids where p: "quiet db" "free_list_inv db ids" "distinct (held @ ids)" "set (held @ ids) = U"
    "length (held @ ids) < 2 ^ 32" "\<forall>i \<in> U. unindexed db i" "\<forall>i \<in> set held. slot_held db i"
    using inv by (auto simp: pool_inv_def)
  have "1 \<le> length held" using i by (cases held) simp_all
  then have "length (i # ids) < 2 ^ 32" using p(5) unfolding length_append list.size by linarith
  moreover have "slot_held db i" "unindexed db i" "distinct (i # ids)" using p(3,4,6,7) i by auto
  ultimately have "freeable db i [] ids" using p(1,2) by (simp add: freeable_def slot_held_def)
  then show thesis using that p(3-7) by blast
qed

lemma pool_inv_free:
  assumes inv: "pool_inv U (db, held)" and i: "i \<in> set held" and run: "ef_free_slot env db i = Some (e, db')"
  shows "if e = EF_OK then pool_inv U (db', remove1 i held) else pool_inv U (db', held)"
proof -
  obtain ids where p: "freeable db i [] ids" "distinct (held @ ids)" "set (held @ ids) = U" "length (held @ ids) < 2 ^ 32"
    "\<forall>j \<in> U. unindexed db j" "\<forall>j \<in> set held. slot_held db j"
    by (rule pool_inv_freeable[OF inv i])
  show ?thesis
  proof (cases "ef_slot_header_crc_valid db i (db_slot db i)")
    case True
    obtain d where d: "ef_free_slot env db i = Some (EF_OK, d)" "released db d ([] @ [i]) ids"
      by (rule free_slot_ok[OF p(1) True])
    then have e: "e = EF_OK" "d = db'" using run by simp_all
    have r: "quiet db'" "free_list_inv db' (i # ids)" "touches db db' {i}" using d(2) e(2) by (simp_all add: released_def)
    have "\<forall>j \<in> U. unindexed db' j" using p(5) unindexed_cong[OF r(3)] by simp
    moreover have "slot_held db' j" if "j \<in> set (remove1 i held)" for j
    proof -
      have "j \<in> set held" "j \<notin> {i}" using that p(2) by (auto simp: set_remove1_eq)
      then show ?thesis using p(6) slot_held_touches[OF r(3)] by simp
    qed
    moreover have "distinct (remove1 i held @ i # ids)" "set (remove1 i held @ i # ids) = U"
      using p(2,3) i by (auto simp: set_remove1_eq)
    moreover have "length (remove1 i held @ i # ids) < 2 ^ 32"
      using p(4) i length_remove1[of i held] by (cases held) auto
    ultimately show ?thesis using r(1,2) unfolding e(1) if_True eqTrueI[OF refl] pool_inv_def
      by (intro case_prodI exI[of _ "i # ids"]) simp
  next
    case False
    have "db' = ef_set_error db EF_ERR_BAD_CHECKSUM" "e \<noteq> EF_OK" using free_slot_bad_crc[OF p(1) False, of env] run by auto
    then show ?thesis using pool_inv_keep[OF inv touches_error] by simp
  qed
qed

lemma pool_inv_step:
  assumes step: "pool_step env s s'" and inv: "pool_inv U s"
  shows "pool_inv U s'"
  using step inv
proof (induction rule: pool_step.induct)
  case (Alloc db fl i db' held)
  then show ?case using pool_inv_alloc by blast
next
  case (Full db fl e db' held)
  obtain ids where p: "quiet db" "free_list_inv db ids" using Full.prems by (auto simp: pool_inv_def)
  have "ids = []"
  proof (cases ids)
    case (Cons k ks)
    then show ?thesis using alloc_slot_ok(1)[OF p(1) _ Full.hyps] p(2) by auto
  qed simp
  then have f: "free_list_inv db []" using p(2) by simp
  show ?case using pool_inv_keep[OF Full.prems alloc_full(2,3)[OF p(1) f Full.hyps]] .
next
  case (Free i held db db')
  then show ?case using pool_inv_free[OF Free.prems Free.hyps(1,2)] by simp
next
  case (Refused i held db e db')
  then show ?case using pool_inv_free[OF Refused.prems Refused.hyps(1,2)] by simp
qed

lemma pool_inv_reach: "(pool_step env)\<^sup>*\<^sup>* s s' \<Longrightarrow> pool_inv U s \<Longrightarrow> pool_inv U s'"
  by (induction rule: rtranclp_induct) (auto intro: pool_inv_step)

text \<open>
  C5: in every state that allocations and frees in any order can reach, the slots are split between
  the clients and the free list: there is a list \<open>ids\<close> of free slots, linked from the head of the
  list in the image to its end, such that no slot is in two places and held and free slots together
  are the slots there were in the beginning. The stored free count is the length of that list, and
  the next allocation returns its first slot, which nobody holds, or is refused with
  \<^verbatim>\<open>EF_ERR_SLOT_FULL\<close> when the list is empty.
\<close>

theorem pool_never_hands_out_twice:
  assumes start: "quiet db0" "free_list_inv db0 ids0" "\<forall>i \<in> set ids0. unindexed db0 i"
    and reach: "(pool_step env)\<^sup>*\<^sup>* (db0, []) (db, held)"
  shows "distinct held \<and> set held \<subseteq> set ids0 \<and> unat (ef_count_free_slots db) + length held = length ids0 \<and>
    (\<forall>fl i db'. ef_alloc_slot_ex db fl = (Inr i, db') \<longrightarrow> i \<in> set ids0 \<and> i \<notin> set held) \<and>
    (\<exists>ids. free_list_inv db ids \<and> distinct (held @ ids) \<and> set (held @ ids) = set ids0 \<and>
       unat (ef_count_free_slots db) = length ids \<and>
       (\<forall>fl. fst (ef_alloc_slot_ex db fl) = (case ids of [] \<Rightarrow> Inl EF_ERR_SLOT_FULL | i # _ \<Rightarrow> Inr i)))"
proof -
  have "pool_inv (set ids0) (db0, [])"
    using start by (auto simp: pool_inv_def free_list_inv_def)
  from pool_inv_reach[OF reach this] have inv: "pool_inv (set ids0) (db, held)" .
  then obtain ids where p: "quiet db" "free_list_inv db ids" "distinct (held @ ids)" "set (held @ ids) = set ids0"
    by (auto simp: pool_inv_def)
  have "distinct ids0" using start(2) by (simp add: free_list_inv_def)
  then have len: "length held + length ids = length ids0"
    using p(3,4) by (metis distinct_card length_append)
  have count: "unat (ef_count_free_slots db) = length ids"
    using p(2) quiet_wf[OF p(1)] by (simp add: ef_count_free_slots_def ef_sb_free_count_load_def free_list_inv_def unat_of_nat_u32)
  have new: "i \<in> set ids0 \<and> i \<notin> set held" if "ef_alloc_slot_ex db fl = (Inr i, db')" for fl i db'
    using pool_inv_alloc[OF inv that] by (auto simp: pool_inv_def)
  have "free_list_inv db ids \<and> distinct (held @ ids) \<and> set (held @ ids) = set ids0 \<and> unat (ef_count_free_slots db) = length ids \<and>
      (\<forall>fl. fst (ef_alloc_slot_ex db fl) = (case ids of [] \<Rightarrow> Inl EF_ERR_SLOT_FULL | i # _ \<Rightarrow> Inr i))"
    using alloc_result[OF p(1,2)] count p(2-4) by blast
  then show ?thesis using len count new p(3,4) by auto
qed

theorem pool_never_hands_out_twice_witness:
  "\<forall>env. \<exists>db db'. (pool_step env)\<^sup>*\<^sup>* (sample_queue, []) (db, [0]) \<and> ef_alloc_slot_ex db 0 = (Inr 1, db') \<and>
     unat (ef_count_free_slots db) = 2"
proof
  fix env
  have q: "quiet sample_queue" "\<forall>i \<in> set [0, 1, 2]. unindexed sample_queue i"
    using sample_queue_unused by (simp_all add: queue_unused_def)
  obtain r d where run: "ef_alloc_slot_ex sample_queue 0 = (r, d)" by fastforce
  note a = alloc_slot_ok[OF q(1) sample_queue_free run]
  have reach: "(pool_step env)\<^sup>*\<^sup>* (sample_queue, []) (d, [0])"
    using run a(1) by (intro r_into_rtranclp) (simp add: pool_step.Alloc)
  obtain r' d' where run': "ef_alloc_slot_ex d 0 = (r', d')" by fastforce
  have "r' = Inr 1" using alloc_slot_ok(1)[OF a(3,4) run'] .
  with run' reach pool_never_hands_out_twice[OF q(1) sample_queue_free q(2) reach]
  show "\<exists>db db'. (pool_step env)\<^sup>*\<^sup>* (sample_queue, []) (db, [0]) \<and> ef_alloc_slot_ex db 0 = (Inr 1, db') \<and>
     unat (ef_count_free_slots db) = 2" by auto
qed

end
