(* ===== verification/Txn_Machine.thy ===== *)
theory Txn_Machine
  imports Txn_Props Pool_Machine Index_Api
begin

text \<open>
  Transactions as a state machine. Several handles, in one process or in several, share one
  mapping. A step is a whole call of one of them: begin, commit or abort, a crash of the process
  that owns the handle, or other work, which may write anywhere but to the lock byte and the
  version and does not open or close a transaction. A handle that begins has its log behind the
  superblock, where opening puts it. The lock byte keeps transactions apart in every
  reachable state, until somebody opens the database while a transaction is running.
\<close>

record txn_sys =
  shared :: mem
  handles :: "nat \<Rightarrow> ef_db"

text \<open>Handle \<open>i\<close> as it sees the shared mapping, and the system after handle \<open>i\<close> has become \<open>d\<close>.\<close>

definition view :: "txn_sys \<Rightarrow> nat \<Rightarrow> ef_db" where
  "view s i = (handles s i)\<lparr>mem := shared s\<rparr>"

definition after :: "txn_sys \<Rightarrow> nat \<Rightarrow> ef_db \<Rightarrow> txn_sys" where
  "after s i d = \<lparr>shared = mem d, handles = (handles s)(i := d)\<rparr>"

inductive txn_step :: "txn_sys \<Rightarrow> txn_sys \<Rightarrow> bool" where
  Begin: "64 \<le> unat (undo_log_base (handles s i)) \<Longrightarrow> txn_step s (after s i (snd (ef_txn_begin pid (view s i))))"
| Commit: "txn_step s (after s i (snd (ef_txn_commit (view s i))))"
| Abort: "txn_step s (after s i (snd (ef_txn_abort env (view s i))))"
| Crash: "txn_step s (after s i ((view s i)\<lparr>txn_active := False\<rparr>))"
| Work: "txn_active d = txn_active (view s i) \<Longrightarrow> load_u8 (mem d) 60 = load_u8 (shared s) 60 \<Longrightarrow>
    schema_version (sb d) = schema_version (sb_of (shared s)) \<Longrightarrow> txn_step s (after s i d)"

inductive_cases txn_step_cases: "txn_step s s'"

inductive txn_reach :: "txn_sys \<Rightarrow> txn_sys \<Rightarrow> bool" for s0 where
  start: "txn_reach s0 s0"
| step: "txn_reach s0 s \<Longrightarrow> txn_step s s' \<Longrightarrow> txn_reach s0 s'"

text \<open>
  The calls of the pool and of the index are such work: they leave the lock byte, the version and the
  flag of the handle as they are, outside a transaction and inside one.
\<close>

lemma work_step:
  assumes "txn_lock (sb d) = txn_lock (sb (view s i))" "schema_version (sb d) = schema_version (sb (view s i))"
    "txn_active d = txn_active (view s i)"
  shows "txn_step s (after s i d)"
  using assms by (intro txn_step.Work) (simp_all add: view_def sb_of_def)

lemma pool_calls_work:
  "quiet (view s i) \<Longrightarrow> free_list_inv (view s i) ids \<Longrightarrow> ef_alloc_slot_ex (view s i) fl = (r, d) \<Longrightarrow> txn_step s (after s i d)"
  "freeable (view s i) k ovs ids \<Longrightarrow> ef_free_slot env (view s i) k = Some (e, d) \<Longrightarrow> txn_step s (after s i d)"
proof -
  assume a: "quiet (view s i)" "free_list_inv (view s i) ids" "ef_alloc_slot_ex (view s i) fl = (r, d)"
  show "txn_step s (after s i d)"
  proof (cases ids)
    case Nil
    note f = alloc_full[OF a(1) a(2)[unfolded Nil] a(3)]
    show ?thesis by (rule work_step) (use f in \<open>simp_all add: touches_def\<close>)
  next
    case (Cons k ks)
    note f = alloc_slot_ok[OF a(1) a(2)[unfolded Cons] a(3)]
    show ?thesis by (rule work_step) (use f(2,5) in \<open>simp_all add: touches_def\<close>)
  qed
next
  assume a: "freeable (view s i) k ovs ids" "ef_free_slot env (view s i) k = Some (e, d)"
  show "txn_step s (after s i d)"
  proof (cases "ef_slot_header_crc_valid (view s i) k (db_slot (view s i) k)")
    case True
    obtain d' where "ef_free_slot env (view s i) k = Some (EF_OK, d')" "released (view s i) d' (ovs @ [k]) ids"
      by (rule free_slot_ok[OF a(1) True])
    then have "released (view s i) d (ovs @ [k]) ids" using a(2) by simp
    then show ?thesis by (intro work_step) (auto simp: released_def touches_def)
  next
    case False
    then have "d = ef_set_error (view s i) EF_ERR_BAD_CHECKSUM" using free_slot_bad_crc[OF a(1) False, of env] a(2) by simp
    then show ?thesis by (intro work_step) simp_all
  qed
qed

lemma txn_allocs_work:
  assumes "in_txn (view s i) recs" "free_list_inv (view s i) (is @ ids)"
    "length recs + 2 * length is \<le> unat (undo_log_slots (view s i))" "alloc_slots (length is) (view s i) = (res, d)"
  shows "txn_step s (after s i d)"
proof -
  from alloc_slots_txn[OF assms(1-3)] assms(4) obtain as where "drained (view s i) d is"
    "in_txn d (recs @ concat (map (alloc_recs (view s i)) as))" by auto
  then show ?thesis using in_txn_facts[OF assms(1)] by (intro work_step) (auto simp: drained_def in_txn_def)
qed

lemma index_calls_work:
  assumes r: "index_ready (view s i)" and run: "ef_index_put env (view s i) key k = (EF_OK, d)"
    and grow: "\<not> ef_index_needs_grow (hash_entry_count (view s i)) (hash_capacity (view s i))" and k: "k < max_slots (sb (view s i))"
  shows "txn_step s (after s i d)"
proof -
  have room: "index_has_room (view s i)" using r by (intro room_if_no_grow(1)[OF _ _ _ grow]) (simp_all add: index_ready_def)
  have put: "put_locked (locked (view s i)) (ef_key_hash key) (ef_slot_to_offset (view s i) k) = (EF_OK, d)"
    using run grow put_run_no_grow[OF r k] by simp
  note p = put_locked_ready[OF r room k put]
  show ?thesis by (rule work_step) (use p(1,5) r in \<open>simp_all add: index_ready_def\<close>)
qed

text \<open>At most one handle has a transaction, and while one has, the lock byte is set.\<close>

definition exclusive :: "txn_sys \<Rightarrow> bool" where
  "exclusive s \<longleftrightarrow>
     (\<forall>i j. txn_active (handles s i) \<longrightarrow> txn_active (handles s j) \<longrightarrow> i = j) \<and>
     (\<forall>i. txn_active (handles s i) \<longrightarrow>
        load_u8 (shared s) 60 \<noteq> 0 \<and> EF_SCHEMA_VERSION \<le> schema_version (sb_of (shared s)))"

lemma after_fields [simp]: "shared (after s i d) = mem d" "handles (after s i d) j = (if j = i then d else handles s j)"
  by (simp_all add: after_def)

lemma view_fields [simp]: "mem (view s i) = shared s" "txn_active (view s i) = txn_active (handles s i)"
  by (simp_all add: view_def)

text \<open>A call that ends with handle \<open>i\<close> inactive, or changes neither the flag nor the lock, is harmless.\<close>

lemma exclusive_end:
  assumes "exclusive s" "\<not> txn_active d" "txn_active (handles s i)"
  shows "exclusive (after s i d)"
proof -
  have "\<not> txn_active (handles s j)" if "j \<noteq> i" for j using assms(1,3) that unfolding exclusive_def by blast
  then show ?thesis using assms(2) by (simp add: exclusive_def)
qed

lemma exclusive_keep:
  assumes ex: "exclusive s" and act: "txn_active d \<Longrightarrow> txn_active (handles s i)"
    and byte: "load_u8 (mem d) 60 = load_u8 (shared s) 60" "schema_version (sb d) = schema_version (sb_of (shared s))"
  shows "exclusive (after s i d)"
proof -
  have back_to: "txn_active (handles s j)" if "txn_active (handles (after s i d) j)" for j
    using that act by (cases "j = i") simp_all
  have one: "j = k" if "txn_active (handles s j)" "txn_active (handles s k)" for j k
    using ex that unfolding exclusive_def by blast
  have lock: "load_u8 (shared s) 60 \<noteq> 0 \<and> EF_SCHEMA_VERSION \<le> schema_version (sb_of (shared s))"
    if "txn_active (handles s j)" for j
    using ex that unfolding exclusive_def by blast
  show ?thesis
    unfolding exclusive_def by (intro conjI allI impI one back_to) (use lock[OF back_to] byte in simp_all)
qed

text \<open>A begin that does not succeed changes nothing but the error; one that does takes the free lock.\<close>

lemma begin_fails:
  assumes run: "ef_txn_begin pid db = (e, d)" and e: "e \<noteq> EF_OK"
  shows "mem d = mem db \<and> txn_active d = txn_active db"
proof (cases "readonly db \<or> \<not> mapped db \<or> schema_version (sb db) < EF_SCHEMA_VERSION \<or> txn_active db")
  case True
  then show ?thesis using assms by (auto simp: ef_txn_begin_def split: if_splits)
next
  case False
  then have v: "ef_sb_uses_v4_index_layout (mem db)" by (simp add: ef_sb_uses_v4_index_layout_def not_less)
  show ?thesis
  proof (cases "load_u8 (mem db) 60 = 0")
    case True
    then show ?thesis
      using False txn_lock.acquire_free[OF v] run e by (auto simp: ef_txn_begin_def Let_def)
  next
    case locked: False
    then show ?thesis
      using False txn_lock.acquire_held[OF v] run e by (auto simp: ef_txn_begin_def Let_def)
  qed
qed

lemma begin_succeeds:
  assumes run: "ef_txn_begin pid db = (EF_OK, d)" and base: "64 \<le> unat (undo_log_base db)"
  shows "\<not> txn_active db" "load_u8 (mem db) 60 = 0" "load_u8 (mem d) 60 = 1"
    "EF_SCHEMA_VERSION \<le> schema_version (sb d)"
proof -
  have g: "\<not> readonly db" "mapped db" "\<not> schema_version (sb db) < EF_SCHEMA_VERSION" "\<not> txn_active db"
    using run by (auto simp: ef_txn_begin_def split: if_splits)
  show "\<not> txn_active db" by (rule g)
  have v: "ef_sb_uses_v4_index_layout (mem db)" using g(3) by (simp add: ef_sb_uses_v4_index_layout_def not_less)
  show free: "load_u8 (mem db) 60 = 0"
  proof (rule ccontr)
    assume "load_u8 (mem db) 60 \<noteq> 0"
    then show False using run g txn_lock.acquire_held[OF v] by (simp add: ef_txn_begin_def Let_def)
  qed
  let ?m = "ef_sb_txn_state_store (store_u8 (mem db) 60 1) EF_TXN_STATE_ACTIVE"
  have d: "d = ef_set_error (ef_db_mark_meta_dirty (ef_undo_reset (db\<lparr>mem := ?m, txn_state := EF_TXN_STATE_ACTIVE,
      txn_active := True, txn_writer_pid := pid\<rparr>))) EF_OK"
    using run g free txn_lock.acquire_free[OF v] by (simp add: ef_txn_begin_def Let_def)
  have "unat (undo_log_base db) \<noteq> 0" using base by linarith
  then have m: "mem d x = ?m x" if "x < 64" for x
    using that base g(2) by (auto simp: d ef_undo_reset_def ef_undo_header_ptr_def mem_set_outside)
  have sbd: "sb d = sb_of ?m" by (rule sb_of_cong) (rule m)
  have v': "\<not> schema_version (sb_of (store_u8 (mem db) 60 1)) < EF_SCHEMA_VERSION"
    using g(3) by (simp add: set_txn_lock_def[symmetric])
  show "EF_SCHEMA_VERSION \<le> schema_version (sb d)"
    using g(3) v' by (simp add: sbd ef_sb_txn_state_store_def set_txn_lock_def[symmetric] not_less)
  show "load_u8 (mem d) 60 = 1"
    using m[of 60] v' by (simp add: load_u8_def ef_sb_txn_state_store_def set_sb_txn_state_def store_u8_upd)
qed

lemma finish_inactive: "\<not> txn_active (txn_finish db)"
proof -
  have "txn_active (ef_undo_reset a) = txn_active a" for a by (simp add: ef_undo_reset_def split: option.split)
  then show ?thesis by (simp add: txn_finish_def Let_def)
qed

lemma exclusive_begin:
  assumes ex: "exclusive s" and base: "64 \<le> unat (undo_log_base (handles s i))"
  shows "exclusive (after s i (snd (ef_txn_begin pid (view s i))))"
proof -
  obtain e d where run: "ef_txn_begin pid (view s i) = (e, d)" by fastforce
  show ?thesis
  proof (cases "e = EF_OK")
    case True
    then have run': "ef_txn_begin pid (view s i) = (EF_OK, d)" using run by simp
    have b: "64 \<le> unat (undo_log_base (view s i))" using base by (simp add: view_def)
    note f = begin_succeeds[OF run' b]
    have "\<not> txn_active (handles s j)" for j using ex f(2) unfolding exclusive_def by auto
    then show ?thesis using f(3,4) by (simp add: exclusive_def run)
  next
    case False
    with begin_fails[OF run] show ?thesis unfolding run snd_conv by (intro exclusive_keep[OF ex]) simp_all
  qed
qed

lemma exclusive_step:
  assumes ex: "exclusive s" and step: "txn_step s s'"
  shows "exclusive s'"
  using step
proof cases
  case (Begin i pid)
  then show ?thesis using exclusive_begin[OF ex] by simp
next
  case (Commit i)
  show ?thesis
  proof (cases "txn_active (handles s i)")
    case True
    then have "\<not> txn_active (snd (ef_txn_commit (view s i)))"
      by (simp add: ef_txn_commit_def finish_inactive)
    with ex True show ?thesis unfolding Commit by (intro exclusive_end)
  next
    case False
    then show ?thesis unfolding Commit by (intro exclusive_keep[OF ex]) (simp_all add: ef_txn_commit_def)
  qed
next
  case (Abort i env)
  show ?thesis
  proof (cases "txn_active (handles s i)")
    case True
    then have "\<not> txn_active (snd (ef_txn_abort env (view s i)))"
      by (simp add: ef_txn_abort_def finish_inactive split: prod.split)
    with ex True show ?thesis unfolding Abort by (intro exclusive_end)
  next
    case False
    then show ?thesis unfolding Abort by (intro exclusive_keep[OF ex]) (simp_all add: ef_txn_abort_def)
  qed
next
  case (Crash i)
  show ?thesis unfolding Crash by (intro exclusive_keep[OF ex]) simp_all
next
  case (Work d i)
  then show ?thesis unfolding Work(1) by (intro exclusive_keep[OF ex]) simp_all
qed

lemma exclusive_reach: "txn_reach s0 s \<Longrightarrow> exclusive s0 \<Longrightarrow> exclusive s"
  by (induction rule: txn_reach.induct) (auto intro: exclusive_step)


text \<open>
  C6: However begin, commit, abort, crashes and other work of any number of handles are interleaved,
  no two handles are ever inside a transaction at the same time, and while one is, a begin on any
  other writable handle is refused with \<^verbatim>\<open>EF_ERR_TXN_BUSY\<close>.
\<close>

theorem txn_mutual_exclusion:
  assumes "\<And>i. \<not> txn_active (handles s0 i)" "txn_reach s0 s" "txn_active (handles s i)"
  shows "(txn_active (handles s j) \<longrightarrow> j = i) \<and>
    (j \<noteq> i \<and> mapped (handles s j) \<and> \<not> readonly (handles s j) \<longrightarrow>
       fst (ef_txn_begin pid (view s j)) = EF_ERR_TXN_BUSY)"
proof -
  have "exclusive s0" using assms(1) by (simp add: exclusive_def)
  with assms(2) have ex: "exclusive s" by (rule exclusive_reach)
  have one: "txn_active (handles s j) \<Longrightarrow> j = i" for j using ex assms(3) unfolding exclusive_def by blast
  have lock: "load_u8 (shared s) 60 \<noteq> 0" "EF_SCHEMA_VERSION \<le> schema_version (sb_of (shared s))"
    using ex assms(3) unfolding exclusive_def by blast+
  have held: "ef_sb_txn_lock_try_acquire (shared s) = (EF_ERR_TXN_BUSY, shared s)"
    using lock by (intro txn_lock.acquire_held) (simp_all add: ef_sb_uses_v4_index_layout_def)
  have "fst (ef_txn_begin pid (view s j)) = EF_ERR_TXN_BUSY"
    if "j \<noteq> i" "mapped (handles s j)" "\<not> readonly (handles s j)"
    using that one[of j] lock(2) held by (auto simp: ef_txn_begin_def Let_def view_def leD)
  with one show ?thesis by blast
qed

text \<open>Two handles on the example; the first one begins.\<close>

definition sample_sys :: txn_sys where
  "sample_sys = \<lparr>shared = mem sample_txn, handles = (\<lambda>i. sample_txn)\<rparr>"

theorem txn_mutual_exclusion_witness:
  "fst (ef_txn_begin 8 (view (after sample_sys 0 (snd (ef_txn_begin 7 (view sample_sys 0)))) 1)) = EF_ERR_TXN_BUSY"
proof -
  let ?d = "snd (ef_txn_begin 7 (view sample_sys 0))"
  have v: "view sample_sys i = sample_txn" for i by (simp add: view_def sample_sys_def)
  obtain d where d: "ef_txn_begin 7 sample_txn = (EF_OK, d)" "in_txn d []"
    by (rule begin_ok[OF sample_txn_ready sample_txn_free])
  have idle: "\<not> txn_active (handles sample_sys i)" for i by (simp add: sample_sys_def sample_txn_def sample_queue_def)
  have "txn_reach sample_sys (after sample_sys 0 ?d)"
    by (rule txn_reach.step[OF txn_reach.start], rule txn_step.Begin)
       (simp add: sample_sys_def sample_txn_def)
  moreover have "txn_active (handles (after sample_sys 0 ?d) 0)" using d by (simp add: v in_txn_def)
  ultimately show ?thesis
    using txn_mutual_exclusion[of sample_sys "after sample_sys 0 ?d" 0 1 8] idle
    by (simp add: sample_sys_def sample_txn_def sample_queue_def)
qed



end
