(* ===== verification/Layout_Props.thy ===== *)
theory Layout_Props
  imports Index_Policy Samples
begin

text \<open>
  Addressing of slots, the superblock's locks and layout, and the choice of index capacities.
\<close>

text \<open>
  C37: the offset of a slot translates back to its id, offsets that translate to an id are exactly
  the offsets of slots, and the slot an offset addresses lies inside the file.
\<close>

theorem slot_offset_roundtrip:
  assumes "wf_layout db"
  shows "(ef_offset_to_slot_id db off = Inr i \<longleftrightarrow> i < max_slots (sb db) \<and> off = ef_slot_to_offset db i) \<and>
         (i < max_slots (sb db) \<longrightarrow> unat (ef_slot_to_offset db i) + 64 \<le> unat (file_size db))"
  using offset_to_slot_id_roundtrip[OF assms] offset_to_slot_id_sound slot_ptr_bound[OF assms, of i]
    unat_slot_offset[OF assms, of i]
  by auto

theorem slot_offset_roundtrip_witness:
  "ef_offset_to_slot_id sample_db 448 = Inr 2 \<and> unat (ef_slot_to_offset sample_db 2) + 64 \<le> unat (file_size sample_db)"
proof -
  have "ef_slot_to_offset sample_db 2 = 448" by (simp add: ef_slot_to_offset_def push_bit_eq_mult)
  then show ?thesis using slot_offset_roundtrip[OF sample_wf, of _ 2] by simp
qed

text \<open>
  At most one caller holds the index write lock: acquiring the free lock takes it and touches
  only the lock byte, a second acquisition reports busy and changes nothing, and releasing gives
  the memory back as it was.
\<close>

lemma index_lock_excludes:
  assumes "ef_sb_uses_v4_index_layout m" "load_u8 m 59 = 0"
  shows "fst (ef_sb_index_write_lock_acquire m) = EF_OK \<and>
         ef_sb_index_write_lock_acquire (snd (ef_sb_index_write_lock_acquire m)) =
           (EF_ERR_INDEX_BUSY, snd (ef_sb_index_write_lock_acquire m)) \<and>
         ef_sb_index_write_lock_release (snd (ef_sb_index_write_lock_acquire m)) = m"
  using index_lock.acquire_ok_iff[OF assms(1)] index_lock.no_double_acquire[OF assms(1)]
    index_lock.release_acquire[OF assms(1)] assms(2) by simp

lemma index_lock_excludes_witness:
  "ef_sb_index_write_lock_release (snd (ef_sb_index_write_lock_acquire sample_mem)) = sample_mem"
proof -
  have "ef_sb_uses_v4_index_layout sample_mem" by (simp add: ef_sb_uses_v4_index_layout_def EF_SCHEMA_VERSION_def)
  moreover have "load_u8 sample_mem 59 = 0" by (simp add: load_u8_def)
  ultimately show ?thesis using index_lock_excludes by blast
qed

text \<open>
  The transaction lock admits one writer: a second attempt reports \<^verbatim>\<open>EF_ERR_TXN_BUSY\<close> until the
  lock is released, after which it is free.
\<close>

lemma txn_lock_excludes:
  assumes "ef_sb_uses_v4_index_layout m" "load_u8 m 60 = 0"
  shows "fst (ef_sb_txn_lock_try_acquire m) = EF_OK \<and>
         ef_sb_txn_lock_try_acquire (snd (ef_sb_txn_lock_try_acquire m)) =
           (EF_ERR_TXN_BUSY, snd (ef_sb_txn_lock_try_acquire m)) \<and>
         ef_sb_txn_lock_release (snd (ef_sb_txn_lock_try_acquire m)) = m"
  using txn_lock.acquire_ok_iff[OF assms(1)] txn_lock.no_double_acquire[OF assms(1)]
    txn_lock.release_acquire[OF assms(1)] assms(2) by simp

lemma txn_lock_excludes_witness:
  "fst (ef_sb_txn_lock_try_acquire (snd (ef_sb_txn_lock_try_acquire sample_mem))) = EF_ERR_TXN_BUSY"
proof -
  have "ef_sb_uses_v4_index_layout sample_mem" by (simp add: ef_sb_uses_v4_index_layout_def EF_SCHEMA_VERSION_def)
  moreover have "load_u8 sample_mem 60 = 0" by (simp add: load_u8_def)
  ultimately show ?thesis using txn_lock_excludes by simp
qed

text \<open>
  A hash capacity that fits in 16 bits and is stored in a superblock of the packed layout is
  read back unchanged.
\<close>

lemma hash_capacity_roundtrip:
  assumes "ef_sb_uses_v4_index_layout m" "cap \<le> 0xFFFF"
  shows "ef_sb_hash_capacity_load (ef_sb_hash_capacity_store m cap) = cap"
  by (rule hash_capacity_load_store[OF assms])

lemma hash_capacity_roundtrip_witness:
  "ef_sb_hash_capacity_load (ef_sb_hash_capacity_store sample_mem 64) = 64"
  by (rule hash_capacity_roundtrip) (simp_all add: ef_sb_uses_v4_index_layout_def EF_SCHEMA_VERSION_def)

text \<open>
  Migrating a version 3 superblock whose capacity fits in 16 bits keeps the capacity and the
  queue lock in the packed version 4 fields and leaves every other field alone.
\<close>

lemma migrate_v3_keeps_fields:
  assumes "schema_version (sb_of m) = EF_SCHEMA_VERSION_V3" "load_u32 m 56 \<le> 0xFFFF"
    and "ef_sb_migrate_v3_index_layout m = (err, m')"
  shows "err = EF_OK \<and> sb_of m' = (sb_of m)\<lparr> schema_version := EF_SCHEMA_VERSION_V4,
    hash_cap16 := ucast (load_u32 m 56), queue_lock := (if load_u32 m 60 \<noteq> 0 then 1 else 0),
    index_write_lock := 0, txn_lock := 0, sb_txn_state := 0, sb_pad := 0 \<rparr>"
  by (rule migrate_v3_fields[OF assms])

lemma migrate_v3_keeps_fields_witness:
  "\<exists>m'. ef_sb_migrate_v3_index_layout (store_u32 (set_schema_version sample_mem EF_SCHEMA_VERSION_V3) 56 128) = (EF_OK, m') \<and>
        hash_cap16 (sb_of m') = 128 \<and> max_slots (sb_of m') = 4"
proof -
  let ?m = "store_u32 (set_schema_version sample_mem EF_SCHEMA_VERSION_V3) 56 128"
  obtain err m' where run: "ef_sb_migrate_v3_index_layout ?m = (err, m')" by fastforce
  have v: "schema_version (sb_of ?m) = EF_SCHEMA_VERSION_V3" "max_slots (sb_of ?m) = 4" by code_simp+
  have "load_u32 ?m 56 = 128" by simp
  with migrate_v3_keeps_fields[OF v(1) _ run] v(2) run show ?thesis by simp
qed

text \<open>
  C38: the capacity the index shrinks to is smaller than the current one, at least the minimum
  capacity, 16 times a power of two, and keeps the live entries within the 3/4 load factor.
\<close>

theorem pick_shrink_capacity_fits:
  assumes "ef_index_pick_shrink_capacity n_ent cur = r" "r \<noteq> 0"
  shows "r < cur \<and> 16 \<le> unat r \<and> (\<exists>k. unat r = 16 * 2 ^ k) \<and> unat n_ent * 4 \<le> unat r * 3"
  by (rule shrink_capacity_fits[OF assms])

theorem pick_shrink_capacity_fits_witness:
  "ef_index_pick_shrink_capacity 20 256 = 32 \<and> (20 :: nat) * 4 \<le> 32 * 3"
proof -
  have "ef_index_pick_shrink_capacity 20 256 = 32" by code_simp
  then show ?thesis using pick_shrink_capacity_fits[of 20 256 32] by simp
qed

end
