(* ===== verification/Checksums.thy ===== *)
theory Checksums
  imports Samples
begin

text \<open>
  What the superblock and slot checksums detect, and that storing a checksum makes it valid.
\<close>

lemma xor_ones_inj: "crc XOR 0xFFFFFFFF = crc' XOR 0xFFFFFFFF \<longleftrightarrow> crc = (crc' :: u32)"
  by (rule xor_cancel_right)

lemma sb_checksum_compute_bytes:
  "ef_sb_checksum_compute m =
     crc_bytewise 0xFFFFFFFF (load_bytes m 0 36 @ [0, 0, 0, 0] @ load_bytes m 40 24) XOR 0xFFFFFFFF"
  by (simp add: ef_sb_checksum_compute_def slice4_bytewise crc_bytewise_append del: append_Cons)

lemma load_bytes_upd:
  "load_bytes (m(a := v)) b n = (if b \<le> a \<and> a < b + n then (load_bytes m b n)[a - b := v] else load_bytes m b n)"
  by (rule nth_equalityI) (auto simp: load_bytes_def nth_list_update)

lemma sb_checksum_store_other: "b + n \<le> 36 \<or> 40 \<le> b \<Longrightarrow> load_bytes (set_sb_checksum m c) b n = load_bytes m b n"
  by (auto simp: set_sb_checksum_def store_u32_def load_bytes_store_disjoint)

lemma checksum_compute_set: "ef_sb_checksum_compute (set_sb_checksum m c) = ef_sb_checksum_compute m"
  by (simp add: sb_checksum_compute_bytes sb_checksum_store_other)

lemma upd_tail: "40 \<le> a \<Longrightarrow> ([0, 0, 0, 0] @ bs)[a - 36 := v] = [0, 0, 0, 0] @ bs[a - 40 := (v :: u8)]"
proof -
  assume "40 \<le> a"
  then obtain j where "a = 40 + j" using le_Suc_ex by blast
  then have "a - 36 = Suc (Suc (Suc (Suc j)))" "a - 40 = j" by simp_all
  then show ?thesis by simp
qed

lemma checksum_compute_upd:
  assumes "a < 64" "\<not> (36 \<le> a \<and> a < 40)" "v \<noteq> m a"
  shows "ef_sb_checksum_compute (m(a := v)) \<noteq> ef_sb_checksum_compute m"
proof -
  let ?bs = "load_bytes m 0 36 @ [0, 0, 0, 0] @ load_bytes m 40 24"
  have "load_bytes (m(a := v)) 0 36 @ [0, 0, 0, 0] @ load_bytes (m(a := v)) 40 24 = ?bs[a := v]"
  proof (cases "a < 36")
    case True
    then show ?thesis by (simp add: load_bytes_upd list_update_append)
  next
    case False
    with assms(2) have a: "40 \<le> a" by simp
    then have "?bs[a := v] = load_bytes m 0 36 @ ([0, 0, 0, 0] @ load_bytes m 40 24)[a - 36 := v]"
      by (subst list_update_append) simp
    then show ?thesis unfolding upd_tail[OF a] using a assms(1) by (simp add: load_bytes_upd)
  qed
  moreover have "a < length ?bs" "v \<noteq> ?bs ! a"
    using assms by (auto simp: nth_append load_bytes_def)
  ultimately show ?thesis
    using crc_bytewise_update[of a ?bs v] by (simp add: sb_checksum_compute_bytes xor_ones_inj)
qed

text \<open>
  With superblock checksums enabled, changing any single byte of a valid 64-byte superblock
  makes it invalid, as long as the change does not switch the checksum flag itself off.
\<close>

lemma superblock_checksum_detects_byte_change:
  assumes "ef_sb_checksum_valid m" "flags (sb_of m) AND EF_FLAG_SB_CRC \<noteq> 0"
    "a < 64" "v \<noteq> m a" "flags (sb_of (m(a := v))) AND EF_FLAG_SB_CRC \<noteq> 0"
  shows "\<not> ef_sb_checksum_valid (m(a := v))"
proof (cases "36 \<le> a \<and> a < 40")
  case True
  have "sb_checksum (sb_of (m(a := v))) \<noteq> sb_checksum (sb_of m)"
  proof
    assume "sb_checksum (sb_of (m(a := v))) = sb_checksum (sb_of m)"
    then have "le_bytes 4 (le_word (load_bytes (m(a := v)) 36 4) :: u32) = le_bytes 4 (le_word (load_bytes m 36 4) :: u32)"
      by (simp add: sb_of_def load_u32_def)
    then have "(load_bytes m 36 4)[a - 36 := v] = load_bytes m 36 4"
      using True by (simp add: le_bytes_le_word load_bytes_upd)
    moreover have "a - 36 < length (load_bytes m 36 4)" using True by auto
    ultimately have "load_bytes m 36 4 ! (a - 36) = v" by (metis nth_list_update_eq)
    with assms(4) True show False by (auto simp: load_bytes_def)
  qed
  moreover have "ef_sb_checksum_compute (m(a := v)) = ef_sb_checksum_compute m"
    using True by (simp add: sb_checksum_compute_bytes load_bytes_upd)
  ultimately show ?thesis using assms by (auto simp: ef_sb_checksum_valid_def split: if_splits)
next
  case False
  then have "sb_checksum (sb_of (m(a := v))) = sb_checksum (sb_of m)"
    by (auto simp: sb_of_def load_u32_def load_bytes_upd)
  with checksum_compute_upd[OF assms(3) False, of v m] assms(4) show ?thesis
    using assms(1,2,5) by (auto simp: ef_sb_checksum_valid_def split: if_splits)
qed

text \<open>
  After the pending superblock metadata is committed on a writable database, the stored
  checksum is valid, whatever the memory held before, unless the computed checksum is 0 (a value
  the validation never accepts).
\<close>

lemma commit_meta_makes_checksum_valid:
  assumes "mapped db" "\<not> readonly db" "sb_meta_dirty db" "ef_sb_checksum_compute (mem db) \<noteq> 0"
  shows "ef_sb_checksum_valid (mem (snd (ef_db_commit_meta db))) \<and> \<not> sb_meta_dirty (snd (ef_db_commit_meta db))"
  using assms
  by (simp add: ef_db_commit_meta_def ef_sb_checksum_valid_def ef_sb_checksum_store_def checksum_compute_set)

text \<open>A superblock with its checksum flag set.\<close>

definition flagged_mem :: mem where
  "flagged_mem = set_flags sample_mem EF_FLAG_SB_CRC"

lemma flagged_bytes:
  "load_bytes flagged_mem 0 36 @ [0, 0, 0, 0] @ load_bytes flagged_mem 40 24 =
     replicate 8 0 @ [4] @ replicate 15 0 @ [5, 0, 0, 0, 1] @ replicate 35 0"
  by code_simp

lemma flagged_checksum: "ef_sb_checksum_compute flagged_mem = 3916179815"
  unfolding sb_checksum_compute_bytes flagged_bytes crc_bytewise_def foldl_append
  by (simp add: foldl_replicate_numeral crc_byte_eval crc_bit_def)

lemma sb_flagged [simp]: "sb_of flagged_mem = (sb_of sample_mem)\<lparr>flags := EF_FLAG_SB_CRC\<rparr>"
  by (simp add: flagged_mem_def del: sb_sample)

lemma commit_meta_makes_checksum_valid_witness:
  "ef_sb_checksum_valid (mem (snd (ef_db_commit_meta (sample_db\<lparr>mem := flagged_mem, sb_meta_dirty := True\<rparr>))))"
  using commit_meta_makes_checksum_valid[of "sample_db\<lparr>mem := flagged_mem, sb_meta_dirty := True\<rparr>"]
    flagged_checksum by simp

lemma superblock_checksum_detects_byte_change_witness:
  "\<not> ef_sb_checksum_valid ((ef_sb_checksum_store flagged_mem)(9 := 200))"
proof -
  let ?m = "ef_sb_checksum_store flagged_mem"
  have m: "?m = set_sb_checksum flagged_mem 3916179815"
    by (simp add: ef_sb_checksum_store_def flagged_checksum EF_FLAG_SB_CRC_def)
  have "flags (sb_of (?m(9 := 200))) = flags (sb_of ?m)"
    by (simp add: sb_of_def load_u32_def load_bytes_upd)
  moreover have "?m 9 = 0"
  proof -
    have "flagged_mem 9 = 0" by code_simp
    then show ?thesis by (simp add: m set_sb_checksum_def store_u32_def store_bytes_def)
  qed
  moreover have "ef_sb_checksum_valid ?m" "flags (sb_of ?m) AND EF_FLAG_SB_CRC \<noteq> 0"
    by (simp_all add: m ef_sb_checksum_valid_def checksum_compute_set flagged_checksum EF_FLAG_SB_CRC_def)
  ultimately show ?thesis using superblock_checksum_detects_byte_change[of ?m 9 200] by simp
qed

subsection \<open>Slots\<close>

lemma slot_crc_full_bytes:
  "ef_slot_header_crc_compute_full i s =
     crc_bytewise 0xFFFFFFFF (le_bytes 8 i @ le_bytes 4 (status s) @ payload s @ le_bytes 8 (next_offset s)) XOR 0xFFFFFFFF"
  by (simp add: ef_slot_header_crc_compute_full_def slice4_bytewise crc_bytewise_append)

lemma crc_full_payload:
  assumes "k < length (payload s)" "b \<noteq> payload s ! k"
  shows "ef_slot_header_crc_compute_full i (s\<lparr>payload := (payload s)[k := b]\<rparr>) \<noteq> ef_slot_header_crc_compute_full i s"
proof -
  let ?bs = "le_bytes 8 i @ le_bytes 4 (status s) @ payload s @ le_bytes 8 (next_offset s)"
  have "?bs[12 + k := b] = le_bytes 8 i @ le_bytes 4 (status s) @ (payload s)[k := b] @ le_bytes 8 (next_offset s)"
    using assms(1) by (simp add: list_update_append)
  moreover have "12 + k < length ?bs" "b \<noteq> ?bs ! (12 + k)" using assms by (simp_all add: nth_append)
  ultimately show ?thesis
    using crc_bytewise_update[of "12 + k" ?bs b] by (simp add: slot_crc_full_bytes xor_ones_inj)
qed

text \<open>
  C36: with slot checksums enabled, changing one payload byte of a used or overflow slot whose
  checksum is valid makes the checksum invalid.
\<close>

theorem slot_checksum_detects_payload_change:
  assumes "ef_slot_header_crc_valid db i s" "flags (sb db) AND EF_FLAG_SLOT_CRC \<noteq> 0"
    "status s = EF_STATUS_USED \<or> status s = EF_STATUS_OVERFLOW"
    "k < length (payload s)" "b \<noteq> payload s ! k"
  shows "\<not> ef_slot_header_crc_valid db i (s\<lparr>payload := (payload s)[k := b]\<rparr>)"
proof -
  have "\<not> ef_slot_status_uses_link_crc (status s)"
    using assms(3) by (elim disjE) (simp_all add: ef_slot_status_uses_link_crc_def ef_status_defs)
  moreover have "ef_slot_status_has_crc (status s)"
    using assms(3) by (elim disjE) (simp_all add: ef_slot_status_has_crc_def ef_status_defs)
  ultimately have valid: "ef_slot_header_crc_valid db i t \<longleftrightarrow>
      header_crc t \<noteq> 0 \<and> header_crc t = ef_slot_header_crc_compute_full i t" if "status t = status s" for t
    using assms(2) that by (simp add: ef_slot_header_crc_valid_def ef_slot_header_crc_compute_def)
  let ?t = "s\<lparr>payload := (payload s)[k := b]\<rparr>"
  have "header_crc ?t = header_crc s" "status ?t = status s" by simp_all
  with assms(1) crc_full_payload[OF assms(4,5), of i] valid[of s] valid[of ?t] show ?thesis by metis
qed

text \<open>
  Storing the checksum of a slot makes it valid for the id it was stored for, unless the
  computed value is 0 (which the validation rejects).
\<close>

lemma slot_checksum_store_valid:
  assumes "64 \<le> p" "ef_slot_header_crc_compute i (slot_at (mem db) p) \<noteq> 0"
  shows "ef_slot_header_crc_valid (ef_slot_header_crc_store db i p) i
           (slot_at (mem (ef_slot_header_crc_store db i p)) p)"
  using assms by (simp add: ef_slot_header_crc_valid_def mem_crc_store)

definition used_slot :: ef_slot where
  "used_slot = \<lparr>status = EF_STATUS_USED, header_crc = 3657752610, payload = replicate 48 0, next_offset = 0\<rparr>"

definition crc_db :: ef_db where
  "crc_db = sample_db\<lparr>mem := set_flags sample_mem EF_FLAG_SLOT_CRC\<rparr>"

lemma used_slot_crc: "ef_slot_header_crc_compute 0 used_slot = 3657752610"
proof -
  have "le_bytes 8 (0 :: u64) @ le_bytes 4 (status used_slot) @ payload used_slot @ le_bytes 8 (next_offset used_slot) =
      replicate 8 0 @ [1] @ replicate 59 0"
    by code_simp
  then have "ef_slot_header_crc_compute_full 0 used_slot = 3657752610"
    unfolding slot_crc_full_bytes crc_bytewise_def
    by (simp add: foldl_replicate_numeral crc_byte_eval crc_bit_def)
  then show ?thesis
    by (simp add: ef_slot_header_crc_compute_def used_slot_def ef_slot_status_uses_link_crc_def ef_status_defs)
qed

theorem slot_checksum_detects_payload_change_witness:
  "\<not> ef_slot_header_crc_valid crc_db 0 (used_slot\<lparr>payload := (payload used_slot)[5 := 9]\<rparr>)"
proof -
  have "ef_slot_header_crc_valid crc_db 0 used_slot"
    by (simp add: ef_slot_header_crc_valid_def used_slot_crc) (simp add: used_slot_def)
  moreover have "flags (sb crc_db) AND EF_FLAG_SLOT_CRC \<noteq> 0"
    by (simp add: crc_db_def EF_FLAG_SLOT_CRC_def)
  moreover have "status used_slot = EF_STATUS_USED" "5 < length (payload used_slot)" "9 \<noteq> payload used_slot ! 5"
    by (simp_all add: used_slot_def)
  ultimately show ?thesis using slot_checksum_detects_payload_change by blast
qed

lemma slot_checksum_store_valid_witness:
  "ef_slot_header_crc_valid
     (ef_slot_header_crc_store (crc_db\<lparr>mem := set_status (mem crc_db) 320 EF_STATUS_USED\<rparr>) 0 320) 0
     (slot_at (mem (ef_slot_header_crc_store (crc_db\<lparr>mem := set_status (mem crc_db) 320 EF_STATUS_USED\<rparr>) 0 320)) 320)"
proof (rule slot_checksum_store_valid)
  have "slot_at (set_status (mem crc_db) 320 EF_STATUS_USED) 320 = used_slot\<lparr>header_crc := 0\<rparr>"
    by (simp add: crc_db_def used_slot_def)
  then show "ef_slot_header_crc_compute 0 (slot_at (mem (crc_db\<lparr>mem := set_status (mem crc_db) 320 EF_STATUS_USED\<rparr>)) 320) \<noteq> 0"
    by (simp add: used_slot_crc)
qed simp

end
