(* ===== verification/Crc_Fold.thy ===== *)
theory Crc_Fold
  imports Crc_Pclmul
begin

text \<open>
  Correctness of the carry-less multiplication path: it computes the bit-serial CRC-32.
\<close>

subsection \<open>Sums of contributions\<close>

definition xsum :: "(nat \<Rightarrow> bool) \<Rightarrow> (nat \<Rightarrow> 'a::len word) \<Rightarrow> nat list \<Rightarrow> 'a word" where
  "xsum P f is = foldr (\<lambda>i acc. if P i then f i XOR acc else acc) is 0"

lemma xsum_simps [simp]:
  "xsum P f [] = 0" "xsum P f (i # is) = (if P i then f i XOR xsum P f is else xsum P f is)"
  by (simp_all add: xsum_def)

lemma xsum_append: "xsum P f (is @ js) = xsum P f is XOR xsum P f js"
  by (induction "is") (simp_all add: xor.assoc)

lemma xsum_map: "xsum P f (map g is) = xsum (\<lambda>i. P (g i)) (\<lambda>i. f (g i)) is"
  by (induction "is") simp_all

lemma xsum_cong: "(\<And>i. i \<in> set is \<Longrightarrow> P i = Q i) \<Longrightarrow> (\<And>i. i \<in> set is \<Longrightarrow> P i \<Longrightarrow> f i = g i) \<Longrightarrow> xsum P f is = xsum Q g is"
  by (induction "is") auto

lemma xsum_none: "(\<And>i. i \<in> set is \<Longrightarrow> \<not> P i) \<Longrightarrow> xsum P f is = 0"
  by (induction "is") auto

lemma xsum_zero: "xsum P (\<lambda>i. 0) is = 0"
  by (induction "is") simp_all

lemma xsum_xor: "xsum (\<lambda>i. P i \<noteq> Q i) f is = xsum P f is XOR xsum Q f is"
proof (induction "is")
  case (Cons i "is")
  have "f i XOR (f i XOR x) = x" for x by (simp flip: xor.assoc)
  then show ?case using Cons by (auto simp: ac_simps)
qed simp

lemma xsum_add: "xsum P (\<lambda>i. f i XOR g i) is = xsum P f is XOR xsum P g is"
  by (induction "is") (auto simp: ac_simps)

lemma xsum_swap: "xsum P (\<lambda>i. xsum Q (f i) js) is = xsum Q (\<lambda>j. xsum P (\<lambda>i. f i j) is) js"
proof (induction "is")
  case Nil
  then show ?case by (induction js) simp_all
next
  case (Cons i "is")
  then show ?case by (simp add: xsum_add)
qed

text \<open>A linear function is the sum of its values at the bits that are set.\<close>

lemma xsum_linear:
  assumes "\<And>x y. h (x XOR y) = h x XOR h y" "h 0 = 0"
  shows "h (xsum P f is) = xsum P (\<lambda>i. h (f i)) is"
  by (induction "is") (simp_all add: assms)

lemma count_list_upt: "k < n \<Longrightarrow> count_list [0..<n] k = 1"
  by (induction n) (auto simp: less_Suc_eq count_list_0_iff)

lemma bit_xsum_exp:
  "bit (xsum (bit x) (\<lambda>i. 2 ^ i) is :: 'a word) k \<longleftrightarrow> odd (count_list is k) \<and> bit x k" for x :: "'a::len word"
proof (induction "is")
  case (Cons i "is")
  show ?case
  proof (cases "bit x i")
    case True
    then have "i < LENGTH('a)" by (rule bit_imp_le_length)
    then show ?thesis using Cons True by (auto simp: bit_simps)
  next
    case False
    then show ?thesis using Cons by auto
  qed
qed simp

lemma word_xsum: "xsum (bit x) (\<lambda>i. 2 ^ i) [0..<LENGTH('a)] = (x :: 'a::len word)"
  by (rule bit_word_eqI) (simp add: bit_xsum_exp count_list_upt)

lemma linear_xsum:
  fixes h :: "'a::len word \<Rightarrow> 'b::len word"
  assumes "\<And>x y. h (x XOR y) = h x XOR h y" "h 0 = 0"
  shows "h x = xsum (bit x) (\<lambda>i. h (2 ^ i)) [0..<LENGTH('a)]"
proof -
  have "h x = h (xsum (bit x) (\<lambda>i. 2 ^ i) [0..<LENGTH('a)])" by (simp only: word_xsum)
  then show ?thesis by (simp only: xsum_linear[OF assms])
qed

subsection \<open>Powers\<close>

definition crc_pow :: "nat \<Rightarrow> u32" where
  "crc_pow k = (crc_bit ^^ k) 0x80000000"

lemma crc_bits_pow: "(crc_bit ^^ m) (crc_pow k) = crc_pow (m + k)"
  by (simp add: crc_pow_def funpow_add)

lemma crc_pow_bit: "t < 32 \<Longrightarrow> crc_pow (31 - t) = 2 ^ t"
proof -
  assume t: "t < 32"
  have x: "(0x80000000 :: u32) = 2 ^ 31" by simp
  have "(crc_bit ^^ (31 - t)) (2 ^ 31) = drop_bit (31 - t) (2 ^ 31)"
    by (rule crc_bits_shift, rule bit_word_eqI) (auto simp: bit_take_bit_iff bit_exp_iff simp del: power_numeral)
  also have "\<dots> = 2 ^ t"
    by (rule bit_word_eqI) (use t in \<open>auto simp: bit_drop_bit_eq bit_exp_iff simp del: power_numeral\<close>)
  finally show ?thesis by (simp only: crc_pow_def x)
qed

lemma crc_bits_xsum: "(crc_bit ^^ m) (xsum P f is) = xsum P (\<lambda>i. (crc_bit ^^ m) (f i)) is"
  by (rule xsum_linear) (simp_all add: crc_bits_xor)

lemma register_val: "(crc_bit ^^ m) r = xsum (bit r) (\<lambda>t. crc_pow (m + 31 - t)) [0..<32]"
proof -
  have "(crc_bit ^^ m) r = xsum (bit r) (\<lambda>i. (crc_bit ^^ m) (2 ^ i)) [0..<LENGTH(32)]"
    by (rule linear_xsum) (simp_all add: crc_bits_xor)
  also have "\<dots> = xsum (bit r) (\<lambda>t. crc_pow (m + 31 - t)) [0..<LENGTH(32)]"
    by (rule xsum_cong) (simp_all add: crc_bits_pow flip: crc_pow_bit)
  finally show ?thesis by simp
qed


subsection \<open>The meaning of a register\<close>

text \<open>Bit \<open>i\<close> of the word is \<open>c - i\<close> steps away from the end.\<close>

definition crc_val :: "nat \<Rightarrow> u128 \<Rightarrow> u32" where
  "crc_val c x = xsum (bit x) (\<lambda>i. crc_pow (c - i)) [0..<128]"

lemma crc_val_xor: "crc_val c (x XOR y) = crc_val c x XOR crc_val c y"
  unfolding crc_val_def xsum_xor[symmetric] by (rule xsum_cong) (simp_all add: bit_xor_iff)

lemma crc_val_0 [simp]: "crc_val c 0 = 0"
  by (simp add: crc_val_def xsum_none)

lemma upt_split: "[0..<m + n] = [0..<m] @ map (\<lambda>i. m + i) [0..<n]"
  by (rule nth_equalityI) (auto simp: nth_append)

text \<open>Only the bits from \<open>m\<close> to \<open>m + n\<close> are set.\<close>

lemma crc_val_range:
  assumes "\<And>i. bit x i \<Longrightarrow> m \<le> i \<and> i < m + n" "m + n \<le> 128"
  shows "crc_val c x = xsum (\<lambda>i. bit x (m + i)) (\<lambda>i. crc_pow (c - (m + i))) [0..<n]"
proof -
  have "[0..<128] = [0..<m] @ map (\<lambda>i. m + i) [0..<n] @ map (\<lambda>i. (m + n) + i) [0..<128 - (m + n)]"
    using upt_split[of "m + n" "128 - (m + n)"] upt_split[of m n] assms(2) by simp
  moreover have "xsum (bit x) f [0..<m] = 0" for f :: "nat \<Rightarrow> u32"
    by (rule xsum_none) (use assms(1) in force)
  moreover have "xsum (\<lambda>i. bit x ((m + n) + i)) f [0..<128 - (m + n)] = 0" for f :: "nat \<Rightarrow> u32"
    by (rule xsum_none) (use assms(1) in force)
  ultimately show ?thesis unfolding crc_val_def by (simp only: xsum_append xsum_map) simp
qed

lemma crc_val_push:
  assumes "j + LENGTH('a) \<le> 128"
  shows "crc_val c (push_bit j (ucast (a :: 'a::len word))) = xsum (bit a) (\<lambda>i. crc_pow (c - j - i)) [0..<LENGTH('a)]"
proof -
  have "crc_val c (push_bit j (ucast a)) =
      xsum (\<lambda>i. bit (push_bit j (ucast a :: u128)) (j + i)) (\<lambda>i. crc_pow (c - (j + i))) [0..<LENGTH('a)]"
    by (rule crc_val_range) (use assms in \<open>auto simp: bit_simps dest: bit_imp_le_length\<close>)
  also have "\<dots> = xsum (bit a) (\<lambda>i. crc_pow (c - j - i)) [0..<LENGTH('a)]"
    by (rule xsum_cong) (use assms in \<open>auto simp: bit_simps\<close>)
  finally show ?thesis .
qed

subsection \<open>Carry-less multiplication\<close>

lemma clmul_xsum: "clmul a b = xsum (bit b) (\<lambda>j. push_bit j (ucast a)) [0..<64]"
  by (simp add: clmul_def xsum_def)

lemma clmul_xor: "clmul (a XOR a') b = clmul a b XOR clmul a' b"
proof -
  have "push_bit j (ucast (a XOR a') :: u128) = push_bit j (ucast a) XOR push_bit j (ucast a')" for j
    by (rule bit_word_eqI) (auto simp: bit_simps)
  then show ?thesis by (simp add: clmul_xsum xsum_add)
qed

lemma clmul_0 [simp]: "clmul 0 b = 0"
  by (simp add: clmul_xsum xsum_zero)

lemma bit_clmul: "bit (clmul a b) k \<Longrightarrow> \<exists>i j. bit a i \<and> bit b j \<and> k = i + j"
proof -
  have "bit (xsum (bit b) (\<lambda>j. push_bit j (ucast a :: u128)) is) k \<Longrightarrow> \<exists>i j. bit a i \<and> bit b j \<and> k = i + j" for "is"
  proof (induction "is")
    case (Cons j "is")
    show ?case
    proof (cases "bit b j \<and> j \<le> k \<and> bit a (k - j)")
      case True
      then show ?thesis by (intro exI[of _ "k - j"] exI[of _ j]) simp
    next
      case False
      then show ?thesis using Cons by (auto simp: bit_simps split: if_splits)
    qed
  qed simp
  then show "bit (clmul a b) k \<Longrightarrow> \<exists>i j. bit a i \<and> bit b j \<and> k = i + j" by (simp add: clmul_xsum)
qed

text \<open>
  \<open>fold_const rk s\<close>: multiplying the last bit before the register by \<open>rk\<close> gives \<open>s\<close>. Everything the
  code does with \<open>rk\<close> follows from this one value.
\<close>

definition fold_const :: "u64 \<Rightarrow> u32 \<Rightarrow> bool" where
  "fold_const rk s \<longleftrightarrow> drop_bit 33 rk = 0 \<and> xsum (bit rk) (\<lambda>j. crc_pow (32 - j)) [0..<64] = s"

lemma bits_below_33: "drop_bit 33 rk = 0 \<Longrightarrow> bit rk j \<Longrightarrow> j \<le> 32" for rk :: u64
proof (rule ccontr)
  assume zero: "drop_bit 33 rk = 0" and j: "bit rk j" "\<not> j \<le> 32"
  have "bit (drop_bit 33 rk) (j - 33)" using j by (simp add: bit_drop_bit_eq)
  then show False using zero by simp
qed

lemma fold_const_bits: "fold_const rk s \<Longrightarrow> bit rk j \<Longrightarrow> j \<le> 32"
  using bits_below_33[of rk j] by (simp add: fold_const_def)

lemma fold_const_shift:
  assumes k: "fold_const rk s" and c: "32 \<le> c"
  shows "xsum (bit rk) (\<lambda>j. crc_pow (c - j)) [0..<64] = (crc_bit ^^ (c - 32)) s"
proof -
  have "xsum (bit rk) (\<lambda>j. crc_pow (c - j)) [0..<64] = (crc_bit ^^ (c - 32)) (xsum (bit rk) (\<lambda>j. crc_pow (32 - j)) [0..<64])"
    unfolding crc_bits_xsum by (rule xsum_cong) (use fold_const_bits[OF k] c in \<open>auto simp: crc_bits_pow\<close>)
  then show ?thesis using k by (simp add: fold_const_def)
qed

lemma crc_val_clmul:
  assumes k: "fold_const rk s" and a: "\<And>i. bit a i \<Longrightarrow> i + 32 \<le> c"
  shows "crc_val c (clmul a rk) = xsum (bit a) (\<lambda>i. (crc_bit ^^ (c - i - 32)) s) [0..<64]"
proof -
  have "crc_val c (clmul a rk) = xsum (bit rk) (\<lambda>j. crc_val c (push_bit j (ucast a))) [0..<64]"
    unfolding clmul_xsum by (rule xsum_linear) (simp_all add: crc_val_xor)
  also have "\<dots> = xsum (bit rk) (\<lambda>j. xsum (bit a) (\<lambda>i. crc_pow (c - j - i)) [0..<64]) [0..<64]"
    by (rule xsum_cong) (auto simp: crc_val_push)
  also have "\<dots> = xsum (bit a) (\<lambda>i. xsum (bit rk) (\<lambda>j. crc_pow (c - j - i)) [0..<64]) [0..<64]"
    by (rule xsum_swap)
  also have "\<dots> = xsum (bit a) (\<lambda>i. (crc_bit ^^ (c - i - 32)) s) [0..<64]"
  proof (rule xsum_cong[OF refl])
    fix i assume "i \<in> set [0..<64]" "bit a i"
    with a[of i] have "32 \<le> c - i" by simp
    from fold_const_shift[OF k this]
    show "xsum (bit rk) (\<lambda>j. crc_pow (c - j - i)) [0..<64] = (crc_bit ^^ (c - i - 32)) s"
      by (simp add: add.commute)
  qed
  finally show ?thesis .
qed

lemma crc_val_clmul_pow:
  assumes "fold_const rk (crc_pow e)" "\<And>i. bit a i \<Longrightarrow> i + 32 \<le> c"
  shows "crc_val c (clmul a rk) = xsum (bit a) (\<lambda>i. crc_pow (e + (c - i - 32))) [0..<64]"
  using crc_val_clmul[OF assms] by (simp add: crc_bits_pow add.commute)

text \<open>The powers the constants stand for.\<close>

lemma crc_pow_16: "crc_pow (16 + k) = (crc_bit (crc_bit (crc_bit (crc_bit (crc_bit (crc_bit (crc_bit (crc_bit
  (crc_bit (crc_bit (crc_bit (crc_bit (crc_bit (crc_bit (crc_bit (crc_bit (crc_pow k)))))))))))))))))"
  by (simp add: crc_pow_def eval_nat_numeral)

lemma crc_pow_0: "crc_pow 0 = 0x80000000"
  by (simp add: crc_pow_def)

lemma crc_pow_at_16: "crc_pow 16 = 0x00008000"
  using crc_pow_16[of 0] by (simp add: crc_pow_0 crc_bit_def)

lemma crc_pow_at_32: "crc_pow 32 = 0xEDB88320"
  using crc_pow_16[of 16] by (simp add: crc_pow_at_16 crc_bit_def)

lemma crc_pow_at_48: "crc_pow 48 = 0xE1351B80"
  using crc_pow_16[of 32] by (simp add: crc_pow_at_32 crc_bit_def)

lemma crc_pow_at_64: "crc_pow 64 = 0xB1E6B092"
  using crc_pow_16[of 48] by (simp add: crc_pow_at_48 crc_bit_def)

lemma crc_pow_at_80: "crc_pow 80 = 0x8816EAF2"
  using crc_pow_16[of 64] by (simp add: crc_pow_at_64 crc_bit_def)

lemma crc_pow_at_96: "crc_pow 96 = 0x6655004F"
  using crc_pow_16[of 80] by (simp add: crc_pow_at_80 crc_bit_def)

lemma crc_pow_at_112: "crc_pow 112 = 0x77E1359F"
  using crc_pow_16[of 96] by (simp add: crc_pow_at_96 crc_bit_def)

lemma crc_pow_at_128: "crc_pow 128 = 0xA06A2517"
  using crc_pow_16[of 112] by (simp add: crc_pow_at_112 crc_bit_def)

lemma crc_pow_at_144: "crc_pow 144 = 0x4E87F0BB"
  using crc_pow_16[of 128] by (simp add: crc_pow_at_128 crc_bit_def)

lemma crc_pow_at_160: "crc_pow 160 = 0xBA8CCBE8"
  using crc_pow_16[of 144] by (simp add: crc_pow_at_144 crc_bit_def)

lemma const_sum:
  fixes rk :: u64
  assumes "drop_bit 33 rk = 0"
  shows "xsum (bit rk) (\<lambda>j. crc_pow (32 - j)) [0..<64] = (if bit rk 0 then crc_pow 32 else 0) XOR ucast (drop_bit 1 rk)"
proof -
  have "[0..<64] = [0] @ map (\<lambda>i. 1 + i) [0..<32] @ map (\<lambda>i. 33 + i) [0..<31]"
    using upt_split[of 1 63] upt_split[of 33 31] upt_split[of 1 32] by simp
  then have "xsum (bit rk) (\<lambda>j. crc_pow (32 - j)) [0..<64] =
      xsum (bit rk) (\<lambda>j. crc_pow (32 - j)) [0] XOR
      (xsum (\<lambda>i. bit rk (1 + i)) (\<lambda>i. crc_pow (32 - (1 + i))) [0..<32] XOR
       xsum (\<lambda>i. bit rk (33 + i)) (\<lambda>i. crc_pow (32 - (33 + i))) [0..<31])"
    by (simp only: xsum_append xsum_map)
  also have "xsum (\<lambda>i. bit rk (33 + i)) (\<lambda>i. crc_pow (32 - (33 + i))) [0..<31] = 0"
    by (rule xsum_none) (use bits_below_33[OF assms] in force)
  also have "xsum (\<lambda>i. bit rk (1 + i)) (\<lambda>i. crc_pow (32 - (1 + i))) [0..<32] =
      xsum (bit (ucast (drop_bit 1 rk) :: u32)) (\<lambda>t. crc_pow (0 + 31 - t)) [0..<32]"
    by (rule xsum_cong) (auto simp: bit_simps)
  also have "\<dots> = ucast (drop_bit 1 rk)" using register_val[of 0] by simp
  finally show ?thesis by simp
qed

lemma fold_constI:
  "drop_bit 33 rk = 0 \<Longrightarrow> (if bit rk 0 then crc_pow 32 else 0) XOR ucast (drop_bit 1 rk) = s \<Longrightarrow> fold_const rk s"
  by (simp add: fold_const_def const_sum)

lemma fold_consts:
  "fold_const (rk1 ef_crc32_ether_pclmul) (crc_pow 96)" "fold_const (rk2 ef_crc32_ether_pclmul) (crc_pow 160)"
  "fold_const (rk5 ef_crc32_ether_pclmul) (crc_pow 96)" "fold_const (rk6 ef_crc32_ether_pclmul) (crc_pow 64)"
  "fold_const (rk8 ef_crc32_ether_pclmul) 0"
  by (rule fold_constI; simp add: ef_crc32_ether_pclmul_def crc_pow_at_96 crc_pow_at_160 crc_pow_at_64 crc_pow_at_32)+

lemmas rk_shape = fold_const_bits[OF fold_consts(1)] fold_const_bits[OF fold_consts(3)] fold_const_bits[OF fold_consts(4)]
  fold_const_bits[OF fold_consts(5)]

lemma load_pair_parts:
  "mm_clmulepi64_si128 x (load_pair lo hi) 0x01 = clmul (ucast (drop_bit 64 x)) lo"
  "mm_clmulepi64_si128 x (load_pair lo hi) 0x10 = clmul (ucast x) hi"
  "mm_clmulepi64_si128 x (load_pair lo hi) 0x00 = clmul (ucast x) lo"
proof -
  have lo: "ucast (load_pair lo hi) = lo"
    by (rule bit_word_eqI) (auto simp: load_pair_def bit_simps)
  have hi: "ucast (drop_bit 64 (load_pair lo hi)) = hi"
    by (rule bit_word_eqI) (auto simp: load_pair_def bit_simps dest: bit_imp_le_length)
  show "mm_clmulepi64_si128 x (load_pair lo hi) 0x01 = clmul (ucast (drop_bit 64 x)) lo"
    "mm_clmulepi64_si128 x (load_pair lo hi) 0x10 = clmul (ucast x) hi"
    "mm_clmulepi64_si128 x (load_pair lo hi) 0x00 = clmul (ucast x) lo"
    by (simp_all add: mm_clmulepi64_si128_def lo hi)
qed

text \<open>A register split into its halves.\<close>

lemma crc_val_halves:
  "crc_val c x = xsum (bit (ucast x :: u64)) (\<lambda>i. crc_pow (c - i)) [0..<64] XOR
     xsum (bit (ucast (drop_bit 64 x) :: u64)) (\<lambda>i. crc_pow (c - (64 + i))) [0..<64]"
proof -
  have "[0..<128] = [0..<64] @ map (\<lambda>i. 64 + i) [0..<64]" using upt_split[of 64 64] by simp
  then have "crc_val c x = xsum (bit x) (\<lambda>i. crc_pow (c - i)) [0..<64] XOR
      xsum (\<lambda>i. bit x (64 + i)) (\<lambda>i. crc_pow (c - (64 + i))) [0..<64]"
    unfolding crc_val_def by (simp only: xsum_append xsum_map)
  moreover have "xsum (bit x) (\<lambda>i. crc_pow (c - i)) [0..<64] = xsum (bit (ucast x :: u64)) (\<lambda>i. crc_pow (c - i)) [0..<64]"
    by (rule xsum_cong) (auto simp: bit_simps)
  moreover have "xsum (\<lambda>i. bit x (64 + i)) (\<lambda>i. crc_pow (c - (64 + i))) [0..<64] =
      xsum (bit (ucast (drop_bit 64 x) :: u64)) (\<lambda>i. crc_pow (c - (64 + i))) [0..<64]"
    by (rule xsum_cong) (auto simp: bit_simps)
  ultimately show ?thesis by simp
qed

abbreviation pair12 :: u128 where
  "pair12 \<equiv> load_pair (rk1 ef_crc32_ether_pclmul) (rk2 ef_crc32_ether_pclmul)"

text \<open>A folding round takes the register 128 bits further and adds the next block.\<close>

lemma folding_round_val:
  "crc_val 159 (ef_crc32_folding_round d pair12 x) = (crc_bit ^^ 128) (crc_val 159 x) XOR crc_val 159 d"
proof -
  let ?lo = "ucast x :: u64" and ?hi = "ucast (drop_bit 64 x) :: u64"
  have b: "i + 32 \<le> 159" if "bit a i" for a :: u64 and i using bit_imp_le_length[OF that] by simp
  have "crc_val 159 (clmul ?hi (rk1 ef_crc32_ether_pclmul)) = xsum (bit ?hi) (\<lambda>i. crc_pow (96 + (159 - i - 32))) [0..<64]"
    by (rule crc_val_clmul_pow[OF fold_consts(1) b])
  also have "\<dots> = (crc_bit ^^ 128) (xsum (bit ?hi) (\<lambda>i. crc_pow (159 - (64 + i))) [0..<64])"
    unfolding crc_bits_xsum by (rule xsum_cong) (auto simp: crc_bits_pow dest: b)
  finally have hi: "crc_val 159 (clmul ?hi (rk1 ef_crc32_ether_pclmul)) =
      (crc_bit ^^ 128) (xsum (bit ?hi) (\<lambda>i. crc_pow (159 - (64 + i))) [0..<64])" .
  have "crc_val 159 (clmul ?lo (rk2 ef_crc32_ether_pclmul)) = xsum (bit ?lo) (\<lambda>i. crc_pow (160 + (159 - i - 32))) [0..<64]"
    by (rule crc_val_clmul_pow[OF fold_consts(2) b])
  also have "\<dots> = (crc_bit ^^ 128) (xsum (bit ?lo) (\<lambda>i. crc_pow (159 - i)) [0..<64])"
    unfolding crc_bits_xsum by (rule xsum_cong) (auto simp: crc_bits_pow dest: b)
  finally have lo: "crc_val 159 (clmul ?lo (rk2 ef_crc32_ether_pclmul)) =
      (crc_bit ^^ 128) (xsum (bit ?lo) (\<lambda>i. crc_pow (159 - i)) [0..<64])" .
  show ?thesis
    unfolding ef_crc32_folding_round_def Let_def load_pair_parts crc_val_xor hi lo crc_val_halves[of 159 x]
    by (simp add: crc_bits_xor ac_simps)
qed

text \<open>The first reduction: 96 bits are left, of which the low 32 are spent.\<close>

lemma bit_mask2: "bit mask2 k \<longleftrightarrow> 32 \<le> k \<and> k < 128"
proof -
  have "mask2 = push_bit 32 (mask 96)" by (simp add: mask2_def mask_eq_exp_minus_1)
  then have "bit mask2 k \<longleftrightarrow> bit (push_bit 32 (mask 96 :: u128)) k" by (rule arg_cong)
  then show ?thesis by (auto simp: bit_push_bit_iff bit_mask_iff)
qed

lemma reduce_step1:
  fixes x :: u128
  defines "t \<equiv> clmul (ucast x) (rk5 ef_crc32_ether_pclmul) XOR drop_bit 64 x"
  shows "crc_val 95 t = crc_val 159 x" "bit t k \<Longrightarrow> k < 96"
proof -
  let ?lo = "ucast x :: u64" and ?hi = "ucast (drop_bit 64 x) :: u64"
  have len: "i < 64" if "bit a i" for a :: u64 and i using bit_imp_le_length[OF that] by simp
  have b: "i + 32 \<le> 95" if "bit a i" for a :: u64 and i using len[OF that] by simp
  have "crc_val 95 (clmul ?lo (rk5 ef_crc32_ether_pclmul)) = xsum (bit ?lo) (\<lambda>i. crc_pow (96 + (95 - i - 32))) [0..<64]"
    by (rule crc_val_clmul_pow[OF fold_consts(3) b])
  also have "\<dots> = xsum (bit ?lo) (\<lambda>i. crc_pow (159 - i)) [0..<64]" by (rule xsum_cong) (auto dest: b)
  finally have lo: "crc_val 95 (clmul ?lo (rk5 ef_crc32_ether_pclmul)) = xsum (bit ?lo) (\<lambda>i. crc_pow (159 - i)) [0..<64]" .
  have "drop_bit 64 (drop_bit 64 x) = 0" by (rule bit_word_eqI) (auto simp: bit_simps dest: bit_imp_le_length)
  then have hi: "crc_val 95 (drop_bit 64 x) = xsum (bit ?hi) (\<lambda>i. crc_pow (159 - (64 + i))) [0..<64]"
    by (subst crc_val_halves) (simp add: xsum_none)
  show "crc_val 95 t = crc_val 159 x" unfolding t_def crc_val_xor lo hi crc_val_halves[of 159 x] ..
  assume "bit t k"
  then consider "bit (clmul ?lo (rk5 ef_crc32_ether_pclmul)) k" | "bit (drop_bit 64 x) k" by (auto simp: t_def bit_xor_iff)
  then show "k < 96"
  proof cases
    case 1
    then obtain i j where "bit ?lo i" "bit (rk5 ef_crc32_ether_pclmul) j" "k = i + j" using bit_clmul by blast
    then show ?thesis using len[of ?lo i] rk_shape(2)[of j] by linarith
  next
    case 2
    then show ?thesis by (auto simp: bit_simps dest: bit_imp_le_length)
  qed
qed

lemma reduce_step2:
  fixes t :: u128
  defines "u \<equiv> clmul (ucast (push_bit 32 t)) (rk6 ef_crc32_ether_pclmul)"
  shows "crc_val 95 u = xsum (bit t) (\<lambda>i. crc_pow (95 - i)) [0..<32]" "bit u k \<Longrightarrow> 32 \<le> k \<and> k < 96"
proof -
  let ?a = "ucast (push_bit 32 t) :: u64"
  have a: "32 \<le> i \<and> i < 64" if "bit ?a i" for i using that by (auto simp: bit_simps)
  have "crc_val 95 u = xsum (bit ?a) (\<lambda>i. crc_pow (64 + (95 - i - 32))) [0..<64]"
    unfolding u_def by (rule crc_val_clmul_pow[OF fold_consts(4)]) (use a in force)
  also have "\<dots> = xsum (bit ?a) (\<lambda>i. crc_pow (127 - i)) [0..<64]" by (rule xsum_cong) (auto dest: a)
  also have "\<dots> = xsum (bit ?a) (\<lambda>i. crc_pow (127 - i)) ([0..<32] @ map (\<lambda>i. 32 + i) [0..<32])"
    using upt_split[of 32 32] by simp
  also have "\<dots> = xsum (\<lambda>i. bit ?a (32 + i)) (\<lambda>i. crc_pow (127 - (32 + i))) [0..<32]"
  proof -
    have "xsum (bit ?a) (\<lambda>i. crc_pow (127 - i)) [0..<32] = 0" by (rule xsum_none) (auto dest: a)
    then show ?thesis by (simp only: xsum_append xsum_map) simp
  qed
  also have "\<dots> = xsum (bit t) (\<lambda>i. crc_pow (95 - i)) [0..<32]" by (rule xsum_cong) (auto simp: bit_simps)
  finally show "crc_val 95 u = xsum (bit t) (\<lambda>i. crc_pow (95 - i)) [0..<32]" .
  assume "bit u k"
  then obtain i j where "bit ?a i" "bit (rk6 ef_crc32_ether_pclmul) j" "k = i + j" unfolding u_def using bit_clmul by blast
  then show "32 \<le> k \<and> k < 96" using a[of i] rk_shape(3)[of j] by linarith
qed

lemma crc_val_low:
  "crc_val 95 t = xsum (bit t) (\<lambda>i. crc_pow (95 - i)) [0..<32] XOR crc_val 95 (t AND mask2)"
proof -
  have "t = (t AND mask 32) XOR (t AND mask2)"
    by (rule bit_word_eqI) (auto simp: bit_simps bit_mask2)
  then have "crc_val 95 t = crc_val 95 (t AND mask 32) XOR crc_val 95 (t AND mask2)" using crc_val_xor by metis
  moreover have "crc_val 95 (t AND mask 32) = xsum (\<lambda>i. bit (t AND mask 32) (0 + i)) (\<lambda>i. crc_pow (95 - (0 + i))) [0..<32]"
    by (rule crc_val_range) (auto simp: bit_simps)
  moreover have "\<dots> = xsum (bit t) (\<lambda>i. crc_pow (95 - i)) [0..<32]" by (rule xsum_cong) (auto simp: bit_simps)
  ultimately show ?thesis by simp
qed

lemma reduce_128_val:
  fixes x :: u128
  defines "y \<equiv> ef_crc32_reduce_128_to_64 x (load_pair (rk5 ef_crc32_ether_pclmul) (rk6 ef_crc32_ether_pclmul))"
  shows "crc_val 95 (y AND mask2) = crc_val 159 x" "bit y k \<Longrightarrow> k < 96"
proof -
  define t where "t = clmul (ucast x) (rk5 ef_crc32_ether_pclmul) XOR drop_bit 64 x"
  define u where "u = clmul (ucast (push_bit 32 t)) (rk6 ef_crc32_ether_pclmul)"
  have y: "y = u XOR t"
    by (simp add: y_def ef_crc32_reduce_128_to_64_def load_pair_parts mm_srli_si128_def mm_slli_si128_def t_def u_def Let_def)
  note s1 = reduce_step1[of x, folded t_def] and s2 = reduce_step2[of t, folded u_def]
  have "y AND mask2 = u XOR (t AND mask2)"
    unfolding y by (rule bit_word_eqI) (auto simp: bit_simps bit_mask2 dest: s2(2))
  then show "crc_val 95 (y AND mask2) = crc_val 159 x"
    using crc_val_low[of t] s1(1) s2(1) by (simp add: crc_val_xor)
  show "bit y k \<Longrightarrow> k < 96" using s1(2) s2(2) by (auto simp: y bit_xor_iff)
qed


subsection \<open>The last reduction\<close>

text \<open>What \<^verbatim>\<open>ef_crc32_reduce_64_to_32\<close> does after masking, a linear function.\<close>

definition barrett :: "u128 \<Rightarrow> u32" where
  "barrett y =
     (let t = (clmul (ucast y) (rk7 ef_crc32_ether_pclmul) XOR y) AND mask1
      in ucast (drop_bit 64 ((clmul (ucast t) (rk8 ef_crc32_ether_pclmul) XOR t) XOR y)))"

lemma reduce_64_barrett: "barret_reduction ef_crc32_ether_pclmul x = barrett (x AND mask2)"
  by (simp only: barret_reduction_def ef_crc32_reduce_64_to_32_def load_pair_parts barrett_def mm_extract_epi32_2_def Let_def)

text \<open>Products modulo \<open>2 ^ 64\<close>.\<close>

definition mul64 :: "u64 \<Rightarrow> u64 \<Rightarrow> u64" where
  "mul64 u v = xsum (bit v) (\<lambda>j. push_bit j u) [0..<64]"

lemma ucast_xor: "(ucast (x XOR y) :: 'b::len word) = ucast x XOR ucast (y :: 'a::len word)"
  by (rule bit_word_eqI) (auto simp: bit_simps)

lemma push_xor: "push_bit n (x XOR y) = push_bit n x XOR push_bit n (y :: 'a::len word)"
  by (rule bit_word_eqI) (auto simp: bit_simps)

lemma ucast_clmul: "ucast (clmul u v) = mul64 u v"
proof -
  have "ucast (push_bit j (ucast u :: u128)) = push_bit j u" for j
    by (rule bit_word_eqI) (auto simp: bit_simps)
  then show ?thesis unfolding clmul_xsum mul64_def by (subst xsum_linear[where h = ucast]) (simp_all add: ucast_xor)
qed

lemma mul64_xor: "mul64 (a XOR b) v = mul64 a v XOR mul64 b v"
  unfolding mul64_def push_xor by (rule xsum_add)

lemma mul64_0: "mul64 0 v = 0"
  using mul64_xor[of 0 0 v] by simp

lemma mul64_push: "mul64 (push_bit i u) v = push_bit i (mul64 u v)"
  unfolding mul64_def
  by (subst xsum_linear[where h = "push_bit i"]) (simp_all add: push_xor push_bit_push_bit add.commute)

text \<open>
  The multiplier \<open>rk7\<close>, with its implicit last bit, is the inverse of \<open>rk8\<close> modulo \<open>2 ^ 32\<close>; so it
  computes the quotient that clears the low bits.
\<close>

definition quotient64 :: "u64 \<Rightarrow> u64" where
  "quotient64 a = mul64 a (rk7 ef_crc32_ether_pclmul) XOR a"

lemma inverse_const: "take_bit 32 (mul64 (quotient64 1) (rk8 ef_crc32_ether_pclmul)) = 1"
  by (simp add: quotient64_def mul64_def ef_crc32_ether_pclmul_def upt_conv_Cons)

lemma quotient_clears:
  assumes "\<And>i. bit a i \<Longrightarrow> 32 \<le> i"
  shows "mul64 (quotient64 a) (rk8 ef_crc32_ether_pclmul) = a"
proof -
  define F where "F a = mul64 (quotient64 a) (rk8 ef_crc32_ether_pclmul)" for a
  have lin: "F (x XOR y) = F x XOR F y" "F 0 = 0" for x y
    unfolding F_def quotient64_def mul64_xor mul64_0 by (simp_all only: xor.assoc xor.left_commute xor.commute xor_self_eq mul64_0)
  have push: "F (push_bit i x) = push_bit i (F x)" for i x
    by (simp only: F_def quotient64_def mul64_push push_xor[symmetric])
  have "F (2 ^ i) = 2 ^ i" if "32 \<le> i" for i
  proof -
    have low: "bit (F 1) k \<longleftrightarrow> k = 0" if "k < 32" for k
    proof -
      have "bit (take_bit 32 (F 1)) k \<longleftrightarrow> bit (1 :: u64) k" using inverse_const by (simp add: F_def)
      then show ?thesis using that by (simp add: bit_take_bit_iff bit_1_iff)
    qed
    have "F (2 ^ i) = push_bit i (F 1)" using push[of i 1] by simp
    also have "\<dots> = 2 ^ i"
      by (rule bit_word_eqI) (use that low in \<open>auto simp: bit_push_bit_iff bit_exp_iff\<close>)
    finally show ?thesis .
  qed
  then have "xsum (bit a) (\<lambda>i. F (2 ^ i)) [0..<LENGTH(64)] = xsum (bit a) (\<lambda>i. 2 ^ i) [0..<LENGTH(64)]"
    by (intro xsum_cong) (use assms in auto)
  then have "F a = a" using linear_xsum[of F a] lin word_xsum[of a] by simp
  then show ?thesis by (simp add: F_def)
qed


lemma bit_mask1: "bit mask1 k \<longleftrightarrow> k < 64"
proof -
  have "mask1 = mask 64" by (simp add: mask1_def mask_eq_exp_minus_1)
  then have "bit mask1 k \<longleftrightarrow> bit (mask 64 :: u128) k" by (rule arg_cong)
  then show ?thesis by (auto simp: bit_mask_iff)
qed

lemma barrett_val:
  assumes y: "\<And>k. bit y k \<Longrightarrow> 32 \<le> k \<and> k < 96"
  shows "barrett y = crc_val 95 y"
proof -
  define a where "a = (ucast y :: u64)"
  define t where "t = (clmul a (rk7 ef_crc32_ether_pclmul) XOR y) AND mask1"
  define z where "z = clmul (ucast t) (rk8 ef_crc32_ether_pclmul) XOR y"
  have q: "ucast t = quotient64 a"
  proof -
    have "(ucast t :: u64) = ucast (clmul a (rk7 ef_crc32_ether_pclmul)) XOR ucast y"
      by (rule bit_word_eqI) (auto simp: t_def bit_simps bit_mask1)
    then show ?thesis by (simp add: ucast_clmul quotient64_def a_def)
  qed
  have "ucast z = mul64 (quotient64 a) (rk8 ef_crc32_ether_pclmul) XOR a"
    by (simp add: z_def ucast_xor ucast_clmul q a_def)
  also have "\<dots> = 0"
  proof -
    have "32 \<le> i" if "bit a i" for i using that y[of i] by (simp add: a_def bit_simps)
    then show ?thesis by (simp add: quotient_clears)
  qed
  finally have low: "ucast z = (0 :: u64)" .
  have zbits: "64 \<le> k \<and> k < 64 + 32" if "bit z k" for k
  proof -
    have "\<not> bit (ucast z :: u64) k" using low by simp
    then have "64 \<le> k" using that by (simp add: bit_simps not_less)
    moreover have "k < 96"
    proof (cases "bit y k")
      case True
      then show ?thesis using y by blast
    next
      case False
      then have "bit (clmul (ucast t) (rk8 ef_crc32_ether_pclmul)) k" using that by (simp add: z_def bit_xor_iff)
      then obtain i j where "bit (ucast t :: u64) i" "bit (rk8 ef_crc32_ether_pclmul) j" "k = i + j" using bit_clmul by blast
      then show ?thesis using bit_imp_le_length[of "ucast t :: u64" i] rk_shape(4)[of j] by simp
    qed
    ultimately show ?thesis by simp
  qed
  have "crc_val 95 (clmul (ucast t) (rk8 ef_crc32_ether_pclmul)) = 0"
  proof -
    have "i + 32 \<le> 95" if "bit (ucast t :: u64) i" for i using bit_imp_le_length[OF that] by simp
    then show ?thesis using crc_val_clmul[OF fold_consts(5), of "ucast t" 95] by (simp add: xsum_zero)
  qed
  then have "crc_val 95 y = crc_val 95 z" by (simp add: z_def crc_val_xor)
  also have "\<dots> = xsum (\<lambda>i. bit z (64 + i)) (\<lambda>i. crc_pow (95 - (64 + i))) [0..<32]"
    by (rule crc_val_range) (use zbits in auto)
  also have "\<dots> = xsum (bit (ucast (drop_bit 64 z) :: u32)) (\<lambda>t. crc_pow (0 + 31 - t)) [0..<32]"
    by (rule xsum_cong) (auto simp: bit_simps)
  also have "\<dots> = ucast (drop_bit 64 z)" using register_val[of 0] by simp
  also have "\<dots> = barrett y"
  proof -
    have "drop_bit 64 ((clmul (ucast t) (rk8 ef_crc32_ether_pclmul) XOR t) XOR y) = drop_bit 64 z"
      by (rule bit_word_eqI) (auto simp: z_def t_def bit_simps bit_mask1)
    then show ?thesis unfolding barrett_def Let_def a_def[symmetric] t_def[symmetric] by simp
  qed
  finally show ?thesis by simp
qed

lemma reduction_val: "reduction_128_64 ef_crc32_ether_pclmul x = crc_val 159 x"
proof -
  let ?y = "ef_crc32_reduce_128_to_64 x (load_pair (rk5 ef_crc32_ether_pclmul) (rk6 ef_crc32_ether_pclmul))"
  note r = reduce_128_val[of x]
  have "barrett (?y AND mask2) = crc_val 95 (?y AND mask2)"
    by (rule barrett_val) (auto simp: bit_and_iff bit_mask2 dest: r(2))
  then show ?thesis by (simp only: reduction_128_64_def reduce_64_barrett r(1))
qed

end
