(* ===== verification/Crc_Equiv.thy ===== *)
theory Crc_Equiv
  imports Crc_Fold
begin

text \<open>
  The carry-less multiplication path of \<^verbatim>\<open>ef_crc_pclmul.c\<close> and the slicing path agree with the
  bit-serial CRC-32 on every input, so it does not matter which of the two a machine takes.
\<close>

subsection \<open>Bytes\<close>

lemma byte_val: "(crc_bit ^^ m) (ucast (b :: u8)) = xsum (bit b) (\<lambda>t. crc_pow (m + 31 - t)) [0..<8]"
proof -
  have "[0..<32] = [0..<8] @ map (\<lambda>i. 8 + i) [0..<24]" using upt_split[of 8 24] by simp
  moreover have "xsum (\<lambda>i. bit (ucast b :: u32) (8 + i)) f [0..<24] = 0" for f :: "nat \<Rightarrow> u32"
    by (rule xsum_none) (auto simp: bit_simps dest: bit_imp_le_length)
  ultimately have "(crc_bit ^^ m) (ucast b) = xsum (bit (ucast b :: u32)) (\<lambda>t. crc_pow (m + 31 - t)) [0..<8]"
    unfolding register_val by (simp only: xsum_append xsum_map) simp
  also have "\<dots> = xsum (bit b) (\<lambda>t. crc_pow (m + 31 - t)) [0..<8]"
    by (rule xsum_cong) (auto simp: bit_simps)
  finally show ?thesis .
qed

lemma crc_bytewise_val:
  "crc_bytewise c bs = (crc_bit ^^ (8 * length bs)) c XOR
     xsum (\<lambda>i. bit (bs ! (i div 8)) (i mod 8)) (\<lambda>i. crc_pow (8 * length bs + 31 - i)) [0..<8 * length bs]"
proof (induction bs arbitrary: c)
  case Nil
  then show ?case by (simp add: crc_bytewise_def)
next
  case (Cons b bs)
  let ?n = "8 * length bs"
  let ?P = "\<lambda>i. bit ((b # bs) ! (i div 8)) (i mod 8)"
  have "crc_bytewise c (b # bs) = crc_bytewise (crc_byte c b) bs" by (simp add: crc_bytewise_def)
  also have "\<dots> = (crc_bit ^^ ?n) (crc_byte c b) XOR
      xsum (\<lambda>i. bit (bs ! (i div 8)) (i mod 8)) (\<lambda>i. crc_pow (?n + 31 - i)) [0..<?n]" by (rule Cons.IH)
  also have "(crc_bit ^^ ?n) (crc_byte c b) = (crc_bit ^^ (8 + ?n)) c XOR (crc_bit ^^ (8 + ?n)) (ucast b)"
    by (simp add: crc_byte_def crc_bits_xor funpow_add add.commute[of 8 ?n])
  also have "(crc_bit ^^ (8 + ?n)) (ucast b) = xsum ?P (\<lambda>i. crc_pow (8 + ?n + 31 - i)) [0..<8]"
    unfolding byte_val by (rule xsum_cong) auto
  also have "xsum (\<lambda>i. bit (bs ! (i div 8)) (i mod 8)) (\<lambda>i. crc_pow (?n + 31 - i)) [0..<?n] =
      xsum ?P (\<lambda>i. crc_pow (8 + ?n + 31 - i)) (map (\<lambda>i. 8 + i) [0..<?n])"
  proof -
    have "(8 + i) div 8 = Suc (i div 8)" "8 + ?n + 31 - (8 + i) = ?n + 31 - i" for i by simp_all
    then show ?thesis unfolding xsum_map by (intro xsum_cong) simp_all
  qed
  finally show ?case
    using upt_split[of 8 ?n] by (simp add: xsum_append xor.assoc)
qed

text \<open>
  A register that holds, from bit \<open>s\<close> on, the bytes \<open>bs\<close> with the old register \<open>c\<close> added to the
  first four of them.
\<close>

lemma crc_val_le_word:
  assumes "s + 8 * length bs \<le> 128"
  shows "crc_val (s + 8 * length bs + 31) (push_bit s (le_word bs)) =
    xsum (\<lambda>i. bit (bs ! (i div 8)) (i mod 8)) (\<lambda>i. crc_pow (8 * length bs + 31 - i)) [0..<8 * length bs]"
proof -
  let ?n = "8 * length bs"
  have "crc_val (s + ?n + 31) (push_bit s (le_word bs)) =
      xsum (\<lambda>i. bit (push_bit s (le_word bs) :: u128) (s + i)) (\<lambda>i. crc_pow (s + ?n + 31 - (s + i))) [0..<?n]"
    by (rule crc_val_range) (use assms in \<open>auto simp: bit_push_bit_iff bit_le_word div_less_iff_less_mult\<close>)
  also have "\<dots> = xsum (\<lambda>i. bit (bs ! (i div 8)) (i mod 8)) (\<lambda>i. crc_pow (?n + 31 - i)) [0..<?n]"
    by (rule xsum_cong) (use assms in \<open>auto simp: bit_push_bit_iff bit_le_word div_less_iff_less_mult\<close>)
  finally show ?thesis .
qed

lemma crc_val_bytes:
  assumes "s + 8 * length bs \<le> 128" "s + 32 \<le> 128" "c = s + 8 * length bs + 31"
  shows "crc_val c (push_bit s (le_word bs XOR ucast crc)) = crc_bytewise crc bs"
proof -
  have "crc_val c (push_bit s (ucast crc)) = xsum (bit crc) (\<lambda>i. crc_pow (c - s - i)) [0..<LENGTH(32)]"
    by (rule crc_val_push) (use assms(2) in simp)
  then have "crc_val c (push_bit s (ucast crc)) = (crc_bit ^^ (8 * length bs)) crc"
    by (simp add: register_val assms(3))
  then show ?thesis
    using crc_val_le_word[OF assms(1)] by (simp only: push_xor crc_val_xor crc_bytewise_val assms(3)) (simp add: xor.commute)
qed

lemma crc_block:
  assumes "length bs = 16"
  shows "crc_bytewise c bs = (crc_bit ^^ 128) c XOR crc_val 159 (le_word bs)"
    "crc_bytewise c bs = crc_val 159 (le_word bs XOR ucast c)"
proof -
  show "crc_bytewise c bs = crc_val 159 (le_word bs XOR ucast c)"
    using crc_val_bytes[of 0 bs 159 c] assms by simp
  show "crc_bytewise c bs = (crc_bit ^^ 128) c XOR crc_val 159 (le_word bs)"
    using crc_val_le_word[of 0 bs] assms crc_bytewise_val[of c bs] by simp
qed

subsection \<open>Byte shuffles\<close>

lemma le_bytes_16_eqI: "le_bytes 16 x = le_bytes 16 y \<Longrightarrow> x = (y :: u128)"
proof -
  assume "le_bytes 16 x = le_bytes 16 y"
  then have "(le_word (le_bytes 16 x) :: u128) = le_word (le_bytes 16 y)" by simp
  then show "x = y" by (simp add: le_word_le_bytes)
qed

lemma le_word_append: "le_word (xs @ ys) = le_word xs OR push_bit (8 * length xs) (le_word ys :: u128)"
  by (induction xs) (auto intro!: bit_word_eqI simp: bit_simps)

lemma load_bytes_16: "length bs = 16 \<Longrightarrow> le_bytes 16 (le_word bs :: u128) = bs"
  by (simp add: le_bytes_le_word)

text \<open>Selectors: index \<open>i\<close>, or a byte with its top bit set for a zero.\<close>

lemma selectors:
  "\<forall>i \<in> set [0..<16]. \<not> bit (of_nat i :: u8) 7 \<and> unat ((of_nat i :: u8) AND 15) = i"
  "\<forall>i \<in> set [0..<16]. bit (of_nat (128 + i) :: u8) 7" "bit (0xff :: u8) 7"
  by code_simp+

lemma shift_tab:
  "\<forall>num \<in> set [0..<17]. take 16 (drop (16 - num) ef_crc_xmm_shift_tab) = replicate num 0xff @ map of_nat [0..<16 - num]"
  by code_simp

lemma shf_tab:
  "\<forall>r \<in> set [1..<16]. take 16 (drop r shf_table) = map (\<lambda>i. of_nat (128 + i)) [r..<16] @ map of_nat [0..<r]"
  by code_simp

lemma shf_tab_flipped:
  "\<forall>r \<in> set [1..<16]. map (\<lambda>k. k XOR 0x80) (take 16 (drop r shf_table)) =
     map of_nat [r..<16] @ map (\<lambda>i. of_nat (128 + i)) [0..<r]"
  by code_simp

lemma le_word_xor: "le_word xs XOR le_word (replicate (length xs) v) = (le_word (map (\<lambda>k. k XOR v) xs) :: u128)"
proof (induction xs)
  case (Cons x xs)
  have "(ucast x OR push_bit 8 a) XOR (ucast v OR push_bit 8 b) = ucast (x XOR v) OR push_bit 8 (a XOR b)" for a b :: u128
    by (rule bit_word_eqI) (auto simp: bit_simps dest: bit_imp_le_length)
  then show ?case by (simp only: list.map length_Cons replicate_Suc le_word.simps Cons.IH[symmetric])
qed simp

lemma mask3_bytes: "mask3 = le_word (replicate 16 0x80)"
proof -
  have "replicate 16 (0x80 :: u8) = [0x80, 0x80, 0x80, 0x80, 0x80, 0x80, 0x80, 0x80, 0x80, 0x80, 0x80, 0x80, 0x80, 0x80, 0x80, 0x80]" by code_simp
  then show ?thesis by (simp add: mask3_def)
qed

lemma blend_take: "length as = length ks \<Longrightarrow> length bs = length ks \<Longrightarrow> \<forall>k \<in> set ks. \<not> bit k 7 \<Longrightarrow>
    map (\<lambda>(k, a, b). if bit k 7 then b else a) (zip ks (zip as bs)) = as" for ks :: "u8 list"
  by (intro nth_equalityI) (auto simp: all_set_conv_all_nth)

lemma blend_keep: "length as = length ks \<Longrightarrow> length bs = length ks \<Longrightarrow> \<forall>k \<in> set ks. bit k 7 \<Longrightarrow>
    map (\<lambda>(k, a, b). if bit k 7 then b else a) (zip ks (zip as bs)) = bs" for ks :: "u8 list"
  by (intro nth_equalityI) (auto simp: all_set_conv_all_nth)

lemma blend_mix:
  fixes ks1 ks2 :: "u8 list"
  assumes "length as1 = length ks1" "length bs1 = length ks1" "\<forall>k \<in> set ks1. \<not> bit k 7"
    and "length as2 = length ks2" "length bs2 = length ks2" "\<forall>k \<in> set ks2. bit k 7"
  shows "map (\<lambda>(k, a, b). if bit k 7 then b else a) (zip (ks1 @ ks2) (zip (as1 @ as2) (bs1 @ bs2))) = as1 @ bs2"
  using assms blend_take[of as1 ks1 bs1] blend_keep[of as2 ks2 bs2] by simp

definition sel :: "u128 \<Rightarrow> u8 \<Rightarrow> u8" where
  "sel x k = (if bit k 7 then 0 else le_bytes 16 x ! unat (k AND 15))"

lemma sel_zero: "map (sel x) (map (\<lambda>i. of_nat (128 + i)) [m..<n]) = replicate (n - m) 0" if "n \<le> 16"
proof -
  have "sel x (of_nat (128 + i)) = 0" if "i < 16" for i using selectors(2) that by (simp add: sel_def)
  then have "map (\<lambda>i. sel x (of_nat (128 + i))) [m..<n] = map (\<lambda>i. 0) [m..<n]" using that by (intro map_cong) auto
  then show ?thesis by (simp add: comp_def map_replicate_const)
qed

lemma sel_bytes: "map (sel x) (map of_nat [m..<n]) = take (n - m) (drop m (le_bytes 16 x))" if "n \<le> 16"
proof -
  have "sel x (of_nat i) = le_bytes 16 x ! i" if "i < 16" for i using selectors(1) that by (simp add: sel_def)
  then have "map (\<lambda>i. sel x (of_nat i)) [m..<n] = map (\<lambda>i. le_bytes 16 x ! i) [m..<n]" using that by (intro map_cong) auto
  also have "\<dots> = take (n - m) (drop m (le_bytes 16 x))"
    using that by (intro nth_equalityI) auto
  finally show ?thesis by (simp add: comp_def)
qed

lemma shuffle_sel: "length ks = 16 \<Longrightarrow> mm_shuffle_epi8 x (le_word ks) = le_word (map (sel x) ks)"
  by (simp add: mm_shuffle_epi8_def load_bytes_16 sel_def[abs_def])

lemma shift_left_push:
  assumes "num \<le> 16"
  shows "ef_crc_xmm_shift_left x num = push_bit (8 * num) x"
proof -
  have "num \<in> set [0..<17]" using assms by simp
  then have tab: "take 16 (drop (16 - num) ef_crc_xmm_shift_tab) = replicate num 0xff @ map of_nat [0..<16 - num]"
    using shift_tab by blast
  have "ef_crc_xmm_shift_left x num = le_word (map (sel x) (replicate num 0xff @ map of_nat [0..<16 - num]))"
    unfolding ef_crc_xmm_shift_left_def mm_loadu_si128_def tab using assms by (intro shuffle_sel) simp
  also have "map (sel x) (replicate num 0xff @ map of_nat [0..<16 - num]) = replicate num 0 @ take (16 - num) (le_bytes 16 x)"
    using sel_bytes[of "16 - num" x 0] selectors(3) by (simp add: sel_def)
  also have "le_word \<dots> = push_bit (8 * num) x"
  proof -
    let ?k = "16 - num"
    have "x = le_word (take ?k (le_bytes 16 x) @ drop ?k (le_bytes 16 x))" by (simp add: le_word_le_bytes)
    then have x: "x = le_word (take ?k (le_bytes 16 x)) OR push_bit (8 * ?k) (le_word (drop ?k (le_bytes 16 x)))"
      unfolding le_word_append by simp
    have "push_bit (8 * num) (push_bit (8 * ?k) y) = 0" for y :: u128
      by (rule bit_word_eqI) (use assms in \<open>auto simp: bit_simps\<close>)
    then have "push_bit (8 * num) x = push_bit (8 * num) (le_word (take ?k (le_bytes 16 x)))"
      by (subst x) (simp add: push_bit_or)
    then show ?thesis by (simp add: le_word_append)
  qed
  finally show ?thesis .
qed

text \<open>The two blocks of the partial step.\<close>

lemma partial_blocks:
  assumes r: "r \<in> set [1..<16]" and l: "length l = 16"
  defines "temp \<equiv> le_word (take 16 (drop r shf_table)) :: u128"
  shows "mm_shuffle_epi8 x temp = le_word (replicate (16 - r) 0 @ take r (le_bytes 16 x))"
    "mm_blendv_epi8 (mm_shuffle_epi8 x (temp XOR mask3)) (le_word l) (temp XOR mask3) =
       le_word (drop r (le_bytes 16 x) @ drop (16 - r) l)"
proof -
  have r16: "r < 16" using r by simp
  have t: "take 16 (drop r shf_table) = map (\<lambda>i. of_nat (128 + i)) [r..<16] @ map of_nat [0..<r]"
    using shf_tab r by blast
  have f: "temp XOR mask3 = le_word (map of_nat [r..<16] @ map (\<lambda>i. of_nat (128 + i)) [0..<r])"
  proof -
    have "length (take 16 (drop r shf_table)) = 16" using r16 by (simp add: t)
    then have "temp XOR mask3 = le_word (map (\<lambda>k. k XOR 0x80) (take 16 (drop r shf_table)))"
      unfolding temp_def mask3_bytes using le_word_xor[of "take 16 (drop r shf_table)" "0x80"] by simp
    then show ?thesis using shf_tab_flipped r by simp
  qed
  show "mm_shuffle_epi8 x temp = le_word (replicate (16 - r) 0 @ take r (le_bytes 16 x))"
    unfolding temp_def t using r16 sel_zero[of 16 x r] sel_bytes[of r x 0] by (subst shuffle_sel) simp_all
  have "mm_shuffle_epi8 x (temp XOR mask3) = le_word (drop r (le_bytes 16 x) @ replicate r 0)"
    unfolding f using r16 sel_zero[of r x 0] sel_bytes[of 16 x r] by (subst shuffle_sel) simp_all
  moreover have "mm_blendv_epi8 (le_word (drop r (le_bytes 16 x) @ replicate r 0)) (le_word l) (temp XOR mask3) =
       le_word (drop r (le_bytes 16 x) @ drop (16 - r) l)"
  proof -
    let ?ks = "map of_nat [r..<16] :: u8 list" and ?hs = "map (\<lambda>i. of_nat (128 + i)) [0..<r] :: u8 list"
    have "\<forall>k \<in> set ?ks. \<not> bit k 7" "\<forall>k \<in> set ?hs. bit k 7" using selectors(1,2) r16 by auto
    then have "map (\<lambda>(k, a, b). if bit k 7 then b else a) (zip (?ks @ ?hs)
        (zip (drop r (le_bytes 16 x) @ replicate r 0) (take (16 - r) l @ drop (16 - r) l))) =
        drop r (le_bytes 16 x) @ drop (16 - r) l"
      using r16 l by (intro blend_mix) auto
    then show ?thesis unfolding f mm_blendv_epi8_def using r16 l by (simp add: load_bytes_16)
  qed
  ultimately show "mm_blendv_epi8 (mm_shuffle_epi8 x (temp XOR mask3)) (le_word l) (temp XOR mask3) =
       le_word (drop r (le_bytes 16 x) @ drop (16 - r) l)"
    by simp
qed


subsection \<open>The body\<close>

lemma loadu_16: "16 \<le> length bs \<Longrightarrow> mm_loadu_si128 bs = le_word (take 16 bs)"
  by (simp add: mm_loadu_si128_def)

lemma fold_loop_val:
  assumes "crc_val 159 fd = crc_bytewise crc (take n bytes)" "16 \<le> n" "n \<le> length bytes" "n mod 16 = 0"
    and "fold_loop pair12 bytes n fd = (n', fd')"
  shows "crc_val 159 fd' = crc_bytewise crc (take n' bytes) \<and> 16 \<le> n' \<and> n' \<le> length bytes \<and> length bytes < n' + 16 \<and> n' mod 16 = 0"
  using assms
proof (induction pair12 bytes n fd rule: fold_loop.induct)
  case (1 bytes n fd)
  show ?case
  proof (cases "n + 16 \<le> length bytes")
    case True
    have "take (n + 16) bytes = take n bytes @ take 16 (drop n bytes)" by (simp add: take_add)
    moreover have "crc_bytewise c (take 16 (drop n bytes)) = (crc_bit ^^ 128) c XOR crc_val 159 (le_word (take 16 (drop n bytes)))" for c
      using True by (intro crc_block(1)) simp
    ultimately have "crc_val 159 (ef_crc32_folding_round (mm_loadu_si128 (drop n bytes)) pair12 fd) = crc_bytewise crc (take (n + 16) bytes)"
      by (simp add: folding_round_val mm_loadu_si128_def crc_bytewise_append 1(2))
    from 1(1)[OF True this] True "1.prems" show ?thesis by (simp add: fold_loop.simps[of _ _ n])
  next
    case False
    then show ?thesis using "1.prems" by (simp add: fold_loop.simps[of _ _ n])
  qed
qed

lemma crc_bytewise_zeros: "crc_bytewise 0 (replicate k 0) = 0"
  by (induction k) (simp_all add: crc_bytewise_def crc_byte_def)

text \<open>Two blocks in a row: fold the first into the second.\<close>

lemma two_blocks:
  assumes "length A = 16" "length B = 16"
  shows "crc_val 159 (ef_crc32_folding_round (le_word B) pair12 (le_word A)) = crc_bytewise 0 (A @ B)"
  using crc_block(2)[OF assms(1), of 0] crc_block(1)[OF assms(2)]
  by (simp add: folding_round_val crc_bytewise_append)

lemma partial_val:
  assumes v: "crc_val 159 fd = crc_bytewise crc (take n bytes)"
    and n: "16 \<le> n" "n \<le> length bytes" "length bytes < n + 16" "n mod 16 = 0"
  shows "partial_bytes ef_crc32_ether_pclmul pair12 bytes n fd = crc_bytewise crc bytes"
proof (cases "n < length bytes")
  case False
  then show ?thesis using v n(2) by (simp add: partial_bytes_def reduction_val)
next
  case True
  define r where "r = length bytes mod 16"
  have "length bytes = (length bytes - n) + n" using n(2) by simp
  then have "length bytes mod 16 = (length bytes - n) mod 16" using n(4) mod_add_right_eq[of "length bytes - n" n 16] by simp
  then have "r = length bytes - n" using True n(3) by (simp add: r_def)
  moreover from this have "r \<in> set [1..<16]" using True n(3) by auto
  ultimately have r: "r = length bytes - n" "r \<in> set [1..<16]" .
  define l where "l = drop (length bytes - 16) bytes"
  have l: "length l = 16" "drop (16 - r) l = drop n bytes" using n r by (simp_all add: l_def)
  define A B where "A = replicate (16 - r) 0 @ take r (le_bytes 16 fd)" and "B = drop r (le_bytes 16 fd) @ drop n bytes"
  have AB: "length A = 16" "length B = 16" "A @ B = replicate (16 - r) 0 @ le_bytes 16 fd @ drop n bytes"
    using r n by (simp_all add: A_def B_def)
  note blocks = partial_blocks[OF r(2) l(1), of fd, folded A_def[unfolded atomize_eq], unfolded l(2)]
  have "partial_bytes ef_crc32_ether_pclmul pair12 bytes n fd =
      reduction_128_64 ef_crc32_ether_pclmul (ef_crc32_folding_round (le_word B) pair12 (le_word A))"
    using True blocks l
    by (simp add: partial_bytes_def Let_def mm_loadu_si128_def r_def[symmetric] l_def[symmetric] A_def[symmetric] B_def[symmetric]
        ef_crc32_folding_round_def ac_simps)
  also have "\<dots> = crc_bytewise 0 (A @ B)" unfolding reduction_val by (rule two_blocks[OF AB(1,2)])
  also have "\<dots> = crc_bytewise (crc_bytewise 0 (le_bytes 16 fd)) (drop n bytes)"
    by (simp add: AB(3) crc_bytewise_append crc_bytewise_zeros)
  also have "crc_bytewise 0 (le_bytes 16 fd) = crc_val 159 fd"
    by (subst crc_block(2)) (simp_all add: le_word_le_bytes)
  also have "crc_bytewise (crc_val 159 fd) (drop n bytes) = crc_bytewise crc bytes"
    unfolding v crc_bytewise_append[symmetric] by simp
  finally show ?thesis .
qed

lemma body_long:
  assumes "16 \<le> length bytes"
  shows "crc_val 159 (mm_loadu_si128 bytes XOR ucast crc) = crc_bytewise crc (take 16 bytes)"
  using crc_block(2)[of "take 16 bytes" crc] assms by (simp add: mm_loadu_si128_def)

lemma pclmul_body_crc: "ef_crc32_pclmul_body bytes crc ef_crc32_ether_pclmul = crc_bytewise crc bytes"
proof -
  let ?n = "length bytes"
  consider "?n = 0" | "0 < ?n" "?n < 4" | "4 \<le> ?n" "?n < 16" | "?n = 16" | "16 < ?n" "?n < 32" | "32 \<le> ?n" by linarith
  then show ?thesis
  proof cases
    case 1
    then show ?thesis by (simp add: ef_crc32_pclmul_body_def crc_bytewise_def)
  next
    case 2
    let ?w = "push_bit (8 * (8 - ?n)) (le_word bytes XOR ucast crc) :: u128"
    have bits: "32 \<le> k \<and> k < 96" if "bit ?w k" for k
    proof -
      have "8 * (8 - ?n) \<le> k" "k - 8 * (8 - ?n) < 32"
        using that 2 by (auto simp: bit_simps bit_le_word div_less_iff_less_mult dest: bit_imp_le_length)
      then show ?thesis using 2 by linarith
    qed
    then have "?w AND mask2 = ?w" by (intro bit_word_eqI) (auto simp: bit_and_iff bit_mask2)
    then have "barret_reduction ef_crc32_ether_pclmul ?w = crc_val 95 ?w"
      using barrett_val[of ?w] bits by (simp add: reduce_64_barrett)
    also have "\<dots> = crc_bytewise crc bytes" using 2 by (intro crc_val_bytes) simp_all
    finally show ?thesis
      using 2 by (simp add: ef_crc32_pclmul_body_def Let_def mm_loadu_si128_def le_word_append shift_left_push)
  next
    case 3
    have "crc_val 159 (push_bit (8 * (16 - ?n)) (le_word bytes XOR ucast crc)) = crc_bytewise crc bytes"
      using 3 by (intro crc_val_bytes) simp_all
    moreover have "bytes \<noteq> []" using 3 by auto
    ultimately show ?thesis
      using 3 by (simp add: ef_crc32_pclmul_body_def Let_def mm_loadu_si128_def le_word_append shift_left_push reduction_val)
  next
    case 4
    then show ?thesis using body_long[of bytes crc] by (simp add: ef_crc32_pclmul_body_def Let_def reduction_val)
  next
    case 5
    then have "bytes \<noteq> []" by auto
    with 5 show ?thesis using partial_val[OF body_long[of bytes crc]] by (simp add: ef_crc32_pclmul_body_def Let_def)
  next
    case 6
    obtain n fd where fl: "fold_loop pair12 bytes 16 (mm_loadu_si128 bytes XOR ucast crc) = (n, fd)" by fastforce
    have "crc_val 159 fd = crc_bytewise crc (take n bytes) \<and> 16 \<le> n \<and> n \<le> ?n \<and> ?n < n + 16 \<and> n mod 16 = 0"
      by (rule fold_loop_val[OF body_long _ _ _ fl]) (use 6 in simp_all)
    moreover have "bytes \<noteq> []" using 6 by auto
    ultimately show ?thesis using 6 fl partial_val[of fd crc n bytes] by (simp add: ef_crc32_pclmul_body_def Let_def)
  qed
qed


subsection \<open>The entry points\<close>

lemma pclmul_loop_crc:
  assumes "out = crc_bytewise crc (take offset bytes)" "offset \<le> length bytes"
    and "pclmul_loop bytes offset out = (offset', out')"
  shows "out' = crc_bytewise crc (take offset' bytes) \<and> offset' \<le> length bytes"
  using assms
proof (induction bytes offset out rule: pclmul_loop.induct)
  case (1 bytes offset out)
  let ?c = "min (length bytes - offset) 4096"
  show ?case
  proof (cases "EF_CRC_PCLMUL_MIN \<le> length bytes - offset")
    case True
    have "ef_crc32_pclmul_body (take ?c (drop offset bytes)) out ef_crc32_ether_pclmul = crc_bytewise crc (take (offset + ?c) bytes)"
      by (simp only: pclmul_body_crc "1.prems"(1) take_add crc_bytewise_append)
    from "1.IH"[OF True refl this] "1.prems"(2,3) True show ?thesis
      by (subst (asm) pclmul_loop.simps) (simp add: Let_def)
  next
    case False
    then show ?thesis using "1.prems" by (subst (asm) (1) pclmul_loop.simps) auto
  qed
qed

lemma update_pclmul_crc: "ef_crc32_update_pclmul cpuid1 crc bytes = crc_bytewise crc bytes"
proof -
  obtain offset out where l: "pclmul_loop bytes 0 crc = (offset, out)" by fastforce
  have "out = crc_bytewise crc (take offset bytes) \<and> offset \<le> length bytes"
    by (rule pclmul_loop_crc[OF _ _ l]) (simp_all add: crc_bytewise_def)
  then show ?thesis
    using l by (auto simp: ef_crc32_update_pclmul_def slice4_bytewise simp flip: crc_bytewise_append)
qed

lemma crc32_update_crc: "ef_crc32_update cpuid1 crc bytes = crc_bytewise crc bytes"
  by (simp add: ef_crc32_update_def update_pclmul_crc slice4_bytewise)

text \<open>
  C4: the carry-less multiplication code computes the bit-serial CRC-32 for every starting register
  and every byte string, whatever the processor answers to \<^verbatim>\<open>cpuid\<close>; so the path taken cannot be
  observed in a checksum.
\<close>

theorem pclmul_is_crc32: "ef_crc32_update_pclmul cpuid1 crc bytes = crc_bytewise crc bytes"
  by (rule update_pclmul_crc)

text \<open>
  C35: changing one byte of a byte string, of any length and on any processor, changes its CRC-32.
\<close>

theorem crc32_detects_byte_change:
  assumes "k < length bs" "b \<noteq> bs ! k"
  shows "ef_crc32 cpuid1 (bs[k := b]) \<noteq> ef_crc32 cpuid1 bs"
  using crc_bytewise_update[OF assms] by (simp add: ef_crc32_def crc32_update_crc xor_cancel_right)

theorem crc32_detects_byte_change_witness:
  "ef_crc32 (Some 0xFFFFFFFF) ((replicate 100 1)[77 := 7]) \<noteq> ef_crc32 (Some 0xFFFFFFFF) (replicate 100 1)"
  using crc32_detects_byte_change[of 77 "replicate 100 1" 7 "Some 0xFFFFFFFF"] by simp

end
