(* ===== verification/Atomics.thy ===== *)
theory Atomics
  imports Prelude
begin

text \<open>
  \<^verbatim>\<open>ef_atomic_unaligned.h\<close>, the GCC branch, as it acts on the mapping when no other thread runs
  in between. The mapping starts at an aligned address, so a pointer is as aligned as its offset. On
  an aligned pointer the code uses the compiler's atomic builtins, on others byte copies and, for
  compare-and-swap, a loop around them. Byte operations go through the aligned 32-bit word that
  holds the byte. The fences have no effect here.

  A compare-and-swap takes and returns the value behind \<^verbatim>\<open>expected\<close>. The loops are partial
  functions, \<open>None\<close> for a loop that does not return, and are shown to return.
\<close>

definition ef_atomic_ptr_is_aligned :: "nat \<Rightarrow> nat \<Rightarrow> bool" where
  "ef_atomic_ptr_is_aligned ptr alignment \<longleftrightarrow> ptr AND (alignment - 1) = 0"

subsection \<open>Loads and stores\<close>

text \<open>\<^verbatim>\<open>__atomic_load_n\<close> and \<^verbatim>\<open>__atomic_store_n\<close> are the plain loads and stores of a word.\<close>

definition ef_atomic_load_u64 :: "mem \<Rightarrow> nat \<Rightarrow> u64" where
  "ef_atomic_load_u64 m ptr =
     (if ef_atomic_ptr_is_aligned ptr 8 then load_u64 m ptr else le_word (load_bytes m ptr 8))"

definition ef_atomic_store_u64 :: "mem \<Rightarrow> nat \<Rightarrow> u64 \<Rightarrow> mem" where
  "ef_atomic_store_u64 m ptr value_v =
     (if ef_atomic_ptr_is_aligned ptr 8 then store_u64 m ptr value_v
      else store_bytes m ptr (le_bytes 8 value_v))"

definition ef_atomic_load_u32 :: "mem \<Rightarrow> nat \<Rightarrow> u32" where
  "ef_atomic_load_u32 m ptr =
     (if ef_atomic_ptr_is_aligned ptr 4 then load_u32 m ptr else le_word (load_bytes m ptr 4))"

definition ef_atomic_store_u32 :: "mem \<Rightarrow> nat \<Rightarrow> u32 \<Rightarrow> mem" where
  "ef_atomic_store_u32 m ptr value_v =
     (if ef_atomic_ptr_is_aligned ptr 4 then store_u32 m ptr value_v
      else store_bytes m ptr (le_bytes 4 value_v))"

definition ef_atomic_load_u16 :: "mem \<Rightarrow> nat \<Rightarrow> u16" where
  "ef_atomic_load_u16 m ptr =
     (if ef_atomic_ptr_is_aligned ptr 2 then load_u16 m ptr else le_word (load_bytes m ptr 2))"

definition ef_atomic_store_u16 :: "mem \<Rightarrow> nat \<Rightarrow> u16 \<Rightarrow> mem" where
  "ef_atomic_store_u16 m ptr value_v =
     (if ef_atomic_ptr_is_aligned ptr 2 then store_u16 m ptr value_v
      else store_bytes m ptr (le_bytes 2 value_v))"

subsection \<open>Compare and swap\<close>

text \<open>\<^verbatim>\<open>__atomic_compare_exchange_n\<close>: success, the value seen, the memory.\<close>

definition compare_exchange_u64 :: "mem \<Rightarrow> nat \<Rightarrow> u64 \<Rightarrow> u64 \<Rightarrow> bool \<times> u64 \<times> mem" where
  "compare_exchange_u64 m ptr expected desired =
     (let cur = load_u64 m ptr in
      if cur = expected then (True, expected, store_u64 m ptr desired) else (False, cur, m))"

definition compare_exchange_u32 :: "mem \<Rightarrow> nat \<Rightarrow> u32 \<Rightarrow> u32 \<Rightarrow> bool \<times> u32 \<times> mem" where
  "compare_exchange_u32 m ptr expected desired =
     (let cur = load_u32 m ptr in
      if cur = expected then (True, expected, store_u32 m ptr desired) else (False, cur, m))"

partial_function (option) cas_loop_u64 :: "mem \<Rightarrow> nat \<Rightarrow> u64 \<Rightarrow> u64 \<Rightarrow> (bool \<times> u64 \<times> mem) option" where
  "cas_loop_u64 m ptr expected desired =
     (let cur = le_word (load_bytes m ptr 8) in
      if cur \<noteq> expected then Some (False, cur, m)
      else
        let m = store_bytes m ptr (le_bytes 8 desired);
            cur = le_word (load_bytes m ptr 8)
        in if cur = desired then Some (True, expected, m) else cas_loop_u64 m ptr cur desired)"

definition ef_atomic_cas_u64 :: "mem \<Rightarrow> nat \<Rightarrow> u64 \<Rightarrow> u64 \<Rightarrow> (bool \<times> u64 \<times> mem) option" where
  "ef_atomic_cas_u64 m ptr expected desired =
     (if ef_atomic_ptr_is_aligned ptr 8 then Some (compare_exchange_u64 m ptr expected desired)
      else cas_loop_u64 m ptr expected desired)"

partial_function (option) cas_loop_u32 :: "mem \<Rightarrow> nat \<Rightarrow> u32 \<Rightarrow> u32 \<Rightarrow> (bool \<times> u32 \<times> mem) option" where
  "cas_loop_u32 m ptr expected desired =
     (let cur = le_word (load_bytes m ptr 4) in
      if cur \<noteq> expected then Some (False, cur, m)
      else
        let m = store_bytes m ptr (le_bytes 4 desired);
            cur = le_word (load_bytes m ptr 4)
        in if cur = desired then Some (True, expected, m) else cas_loop_u32 m ptr cur desired)"

definition ef_atomic_cas_u32 :: "mem \<Rightarrow> nat \<Rightarrow> u32 \<Rightarrow> u32 \<Rightarrow> (bool \<times> u32 \<times> mem) option" where
  "ef_atomic_cas_u32 m ptr expected desired =
     (if ef_atomic_ptr_is_aligned ptr 4 then Some (compare_exchange_u32 m ptr expected desired)
      else cas_loop_u32 m ptr expected desired)"

subsection \<open>Fetch and add\<close>

partial_function (option) fetch_add_loop :: "mem \<Rightarrow> nat \<Rightarrow> u32 \<Rightarrow> (u32 \<times> mem) option" where
  "fetch_add_loop m ptr delta =
     (let prev = le_word (load_bytes m ptr 4) in
      case ef_atomic_cas_u32 m ptr prev (prev + delta) of
        None \<Rightarrow> None
      | Some (ok, prev, m) \<Rightarrow> if ok then Some (prev, m) else fetch_add_loop m ptr delta)"

definition ef_atomic_fetch_add_u32 :: "mem \<Rightarrow> nat \<Rightarrow> u32 \<Rightarrow> (u32 \<times> mem) option" where
  "ef_atomic_fetch_add_u32 m ptr delta =
     (if ef_atomic_ptr_is_aligned ptr 4 then Some (load_u32 m ptr, store_u32 m ptr (load_u32 m ptr + delta))
      else fetch_add_loop m ptr delta)"

definition ef_atomic_fetch_sub_u32 :: "mem \<Rightarrow> nat \<Rightarrow> u32 \<Rightarrow> (u32 \<times> mem) option" where
  "ef_atomic_fetch_sub_u32 m ptr delta = ef_atomic_fetch_add_u32 m ptr (0 - delta)"

subsection \<open>Bytes\<close>

definition ef_atomic_load_u8 :: "mem \<Rightarrow> nat \<Rightarrow> u8" where
  "ef_atomic_load_u8 m ptr =
     (let align_off = ptr AND 3;
          word = ef_atomic_load_u32 m (ptr - align_off)
      in ucast (drop_bit (align_off * 8) word AND 0xFF))"

text \<open>The word with the byte at \<open>align_off\<close> replaced.\<close>

definition des_word :: "nat \<Rightarrow> u32 \<Rightarrow> u8 \<Rightarrow> u32" where
  "des_word align_off exp_word v =
     (exp_word AND NOT (push_bit (align_off * 8) 0xFF)) OR push_bit (align_off * 8) (ucast v)"

partial_function (option) store_u8_loop :: "mem \<Rightarrow> nat \<Rightarrow> nat \<Rightarrow> u8 \<Rightarrow> u32 \<Rightarrow> mem option" where
  "store_u8_loop m word_ptr align_off v exp_word =
     (case ef_atomic_cas_u32 m word_ptr exp_word (des_word align_off exp_word v) of
        None \<Rightarrow> None
      | Some (ok, exp_word, m) \<Rightarrow> if ok then Some m else store_u8_loop m word_ptr align_off v exp_word)"

definition ef_atomic_store_u8 :: "mem \<Rightarrow> nat \<Rightarrow> u8 \<Rightarrow> mem option" where
  "ef_atomic_store_u8 m ptr v =
     (let align_off = ptr AND 3; word_ptr = ptr - align_off
      in store_u8_loop m word_ptr align_off v (ef_atomic_load_u32 m word_ptr))"

partial_function (option) cas_u8_loop :: "mem \<Rightarrow> nat \<Rightarrow> nat \<Rightarrow> u8 \<Rightarrow> u8 \<Rightarrow> u32 \<Rightarrow> (bool \<times> u8 \<times> mem) option" where
  "cas_u8_loop m word_ptr align_off expected desired exp_word =
     (let cur_byte = ucast (drop_bit (align_off * 8) exp_word AND 0xFF) in
      if cur_byte \<noteq> expected then Some (False, cur_byte, m)
      else case ef_atomic_cas_u32 m word_ptr exp_word (des_word align_off exp_word desired) of
        None \<Rightarrow> None
      | Some (ok, exp_word, m) \<Rightarrow>
          if ok then Some (True, expected, m) else cas_u8_loop m word_ptr align_off expected desired exp_word)"

definition ef_atomic_cas_u8 :: "mem \<Rightarrow> nat \<Rightarrow> u8 \<Rightarrow> u8 \<Rightarrow> (bool \<times> u8 \<times> mem) option" where
  "ef_atomic_cas_u8 m ptr expected desired =
     (let align_off = ptr AND 3; word_ptr = ptr - align_off
      in cas_u8_loop m word_ptr align_off expected desired (ef_atomic_load_u32 m word_ptr))"

subsection \<open>What they do\<close>

lemma atomic_loads:
  "ef_atomic_load_u64 m p = load_u64 m p" "ef_atomic_load_u32 m p = load_u32 m p" "ef_atomic_load_u16 m p = load_u16 m p"
  by (simp_all add: ef_atomic_load_u64_def ef_atomic_load_u32_def ef_atomic_load_u16_def load_defs)

lemma atomic_stores:
  "ef_atomic_store_u64 m p w = store_u64 m p w" "ef_atomic_store_u32 m p v = store_u32 m p v"
  "ef_atomic_store_u16 m p u = store_u16 m p u"
  by (simp_all add: ef_atomic_store_u64_def ef_atomic_store_u32_def ef_atomic_store_u16_def store_defs)

text \<open>The loop of an unaligned compare-and-swap ends in its first round.\<close>

lemma cas_u64: "ef_atomic_cas_u64 m p e d = Some (compare_exchange_u64 m p e d)"
  by (simp add: ef_atomic_cas_u64_def compare_exchange_u64_def cas_loop_u64.simps load_u64_def store_u64_def
      load_bytes_store_same le_word_le_bytes Let_def)

lemma cas_u32: "ef_atomic_cas_u32 m p e d = Some (compare_exchange_u32 m p e d)"
  by (simp add: ef_atomic_cas_u32_def compare_exchange_u32_def cas_loop_u32.simps load_u32_def store_u32_def
      load_bytes_store_same le_word_le_bytes Let_def)

lemma fetch_add: "ef_atomic_fetch_add_u32 m p d = Some (load_u32 m p, store_u32 m p (load_u32 m p + d))"
  by (simp add: ef_atomic_fetch_add_u32_def fetch_add_loop.simps cas_u32 compare_exchange_u32_def load_u32_def Let_def)


lemma and_3: "p AND 3 = p mod 4" for p :: nat
  using take_bit_eq_mask[of 2 p] by (simp add: take_bit_eq_mod mask_eq_exp_minus_1)

lemma and_FF_u32: "x AND 0xFF = take_bit 8 x" for x :: u32
  by (simp add: take_bit_eq_mask mask_eq_exp_minus_1)

lemma word_byte:
  assumes "off < 4"
  shows "ucast (drop_bit (off * 8) (load_u32 m w) AND 0xFF) = m (w + off)"
proof (rule bit_word_eqI)
  fix j assume "j < LENGTH(8)"
  then have j: "j < 8" by simp
  have "(off * 8 + j) div 8 = off" "(off * 8 + j) mod 8 = j" using j by simp_all
  then show "bit (ucast (drop_bit (off * 8) (load_u32 m w) AND 0xFF) :: u8) j = bit (m (w + off)) j"
    using j assms by (simp add: and_FF_u32 bit_simps load_u32_def bit_le_word load_bytes_def add.commute)
qed

lemma des_word_bytes:
  assumes "off < 4"
  shows "le_bytes 4 (des_word off (load_u32 m w) v) = (load_bytes m w 4)[off := v]"
proof (rule nth_equalityI)
  fix i assume "i < length (le_bytes 4 (des_word off (load_u32 m w) v))"
  then have i: "i < 4" by simp
  show "le_bytes 4 (des_word off (load_u32 m w) v) ! i = (load_bytes m w 4)[off := v] ! i"
  proof (rule bit_word_eqI)
    fix j assume "j < LENGTH(8)"
    then have j: "j < 8" by simp
    have d: "(8 * i + j) div 8 = i" "(8 * i + j) mod 8 = j" using j by simp_all
    have FF: "bit (0xFF :: int) n \<longleftrightarrow> n < 8" for n
    proof -
      have eq: "(0xFF :: int) = mask 8" by (simp add: mask_eq_exp_minus_1)
      show ?thesis unfolding eq by (auto simp: bit_mask_iff)
    qed
    have "off * 8 \<le> 8 * i + j \<and> 8 * i + j < off * 8 + 8 \<longleftrightarrow> i = off" using j by linarith
    then show "bit (le_bytes 4 (des_word off (load_u32 m w) v) ! i) j = bit ((load_bytes m w 4)[off := v] ! i) j"
      using i j d assms
      by (cases "i = off")
         (auto simp: bit_le_bytes_nth des_word_def bit_or_iff bit_and_iff bit_not_iff FF bit_push_bit_iff bit_ucast_iff
           load_u32_def bit_le_word dest: bit_imp_le_length)
  qed
qed simp

lemma store_word_byte:
  assumes "off < 4"
  shows "store_u32 m w (des_word off (load_u32 m w) v) = m(w + off := v)"
proof
  fix x
  show "store_u32 m w (des_word off (load_u32 m w) v) x = (m(w + off := v)) x"
    using assms by (auto simp: store_u32_def des_word_bytes store_bytes_def load_bytes_def nth_list_update)
qed

lemma word_ptr: "p - (p AND 3) + (p AND 3) = p" "p AND 3 < 4" for p :: nat
  by (simp_all add: and_3)

text \<open>
  The byte operations, which read and swap the whole 32-bit word around the byte, are the plain
  byte operations: they terminate, the load returns the byte, the store and a successful
  compare-and-swap change that byte and no other, a failed one changes nothing and reports the byte.
\<close>

lemma byte_ops_are_plain:
  "ef_atomic_load_u8 m p = m p \<and> ef_atomic_store_u8 m p v = Some (m(p := v)) \<and>
   ef_atomic_cas_u8 m p e v = Some (if m p = e then (True, e, m(p := v)) else (False, m p, m))"
proof -
  let ?o = "p AND 3" and ?w = "p - (p AND 3)"
  have b: "ucast (drop_bit (?o * 8) (load_u32 m ?w) AND 0xFF) = m p" "store_u32 m ?w (des_word ?o (load_u32 m ?w) v) = m(p := v)"
    using word_byte[OF word_ptr(2), of p m ?w] store_word_byte[OF word_ptr(2), of m ?w p v] by (simp_all add: word_ptr(1))
  show ?thesis
    by (simp add: ef_atomic_load_u8_def ef_atomic_store_u8_def ef_atomic_cas_u8_def Let_def atomic_loads b
        store_u8_loop.simps cas_u8_loop.simps cas_u32 compare_exchange_u32_def)
qed

text \<open>
  On every pointer, aligned or not, loads and stores of 16, 32 and 64 bits are the plain ones, the
  compare-and-swap loops terminate and act as a single compare-and-swap, and fetch-and-subtract
  returns the old value and subtracts modulo \<open>2 ^ 32\<close>.
\<close>

lemma word_ops_are_plain:
  "ef_atomic_load_u64 (ef_atomic_store_u64 m p w) p = w \<and> ef_atomic_load_u32 (ef_atomic_store_u32 m p v) p = v \<and>
   ef_atomic_load_u16 (ef_atomic_store_u16 m p u) p = u \<and>
   ef_atomic_cas_u64 m p e w = Some (if load_u64 m p = e then (True, e, store_u64 m p w) else (False, load_u64 m p, m)) \<and>
   ef_atomic_cas_u32 m p f v = Some (if load_u32 m p = f then (True, f, store_u32 m p v) else (False, load_u32 m p, m)) \<and>
   ef_atomic_fetch_sub_u32 m p v = Some (load_u32 m p, store_u32 m p (load_u32 m p - v))"
  by (simp add: atomic_loads atomic_stores load_defs store_defs load_bytes_store_same le_word_le_bytes cas_u64 cas_u32
      compare_exchange_u64_def compare_exchange_u32_def ef_atomic_fetch_sub_u32_def fetch_add Let_def)

end
