(* ===== verification/Create_Props.thy ===== *)
theory Create_Props
  imports Undo_Props Open Checksums
begin

text \<open>
  Creating a database: the superblock that is written, bound to a handle over a file of the expected
  size, is a well-formed layout with room for the undo log, which is what the properties of the slot
  pool, the index, the queue and the transactions start from; and it passes validation.
\<close>

lemma sb_zeroed: "sb_of (mem_set m 36 0 28) = (sb_of m)\<lparr>sb_checksum := 0, queue_head := 0, queue_tail := 0, hash_cap16 := 0,
    queue_lock := 0, index_write_lock := 0, txn_lock := 0, sb_txn_state := 0, sb_pad := 0\<rparr>"
  unfolding sb_of_def word_loads load_u8_def
  by (simp add: load_bytes_mem_set_disjoint load_bytes_mem_set_inside mem_set_inside)

lemma sb_init:
  assumes "cap \<le> 0xFFFF"
  shows "magic (sb_of (ef_init_superblock m n cap)) = [69, 78, 68, 70]" "slot_size (sb_of (ef_init_superblock m n cap)) = 64"
    "max_slots (sb_of (ef_init_superblock m n cap)) = n" "schema_version (sb_of (ef_init_superblock m n cap)) = EF_SCHEMA_VERSION"
    "flags (sb_of (ef_init_superblock m n cap)) = EF_FLAG_SB_CRC OR EF_FLAG_SLOT_CRC"
    "hash_cap16 (sb_of (ef_init_superblock m n cap)) = ucast cap"
  using assms by (simp_all add: ef_init_superblock_def Let_def ef_sb_checksum_store_def sb_zeroed ef_sb_hash_capacity_store_eq
      ef_sb_free_count_store_def min_def EF_SLOT_SIZE_def)

lemma init_capacity:
  assumes "cap \<le> 0xFFFF"
  shows "ef_hash_capacity_from_sb (ef_init_superblock m n cap) = cap"
  using assms ucast_u16_u32[OF assms]
  by (simp add: ef_hash_capacity_from_sb_def ef_sb_hash_capacity_load_def ef_sb_uses_v4_index_layout_def sb_init ef_version_defs)

text \<open>The stored checksum is the computed one, which does not depend on what is stored.\<close>

lemma init_checksum:
  "ef_sb_checksum_valid (ef_init_superblock m n cap) \<longleftrightarrow> ef_sb_checksum_compute (ef_init_superblock m n cap) \<noteq> 0"
proof -
  have "\<exists>m0. ef_init_superblock m n cap = ef_sb_checksum_store m0 \<and> flags (sb_of m0) = EF_FLAG_SB_CRC OR EF_FLAG_SLOT_CRC"
    unfolding ef_init_superblock_def Let_def
    by (rule exI, rule conjI, rule refl) (simp add: sb_zeroed ef_sb_hash_capacity_store_eq ef_sb_free_count_store_def)
  then obtain m0 where i: "ef_init_superblock m n cap = ef_sb_checksum_store m0"
    and fl: "flags (sb_of m0) = EF_FLAG_SB_CRC OR EF_FLAG_SLOT_CRC" by blast
  then have "ef_init_superblock m n cap = set_sb_checksum m0 (ef_sb_checksum_compute m0)"
    by (simp add: ef_sb_checksum_store_def EF_FLAG_SB_CRC_def EF_FLAG_SLOT_CRC_def)
  then show ?thesis
    using fl by (simp add: ef_sb_checksum_valid_def checksum_compute_set EF_FLAG_SB_CRC_def EF_FLAG_SLOT_CRC_def)
qed

text \<open>Sizes without wrap-around.\<close>

lemma unat_add: "unat x + unat y < 2 ^ 64 \<Longrightarrow> unat (x + y :: u64) = unat x + unat y"
  by (simp add: unat_word_ariths)

lemma expected_size:
  fixes n :: u64 and cap :: u32
  assumes "cap \<le> 0xFFFF" "n \<le> 2 ^ 40"
  shows "unat (64 + ucast cap * 16 :: u64) = 64 + 16 * unat cap"
    "unat (64 + ucast cap * 16 + n * 64 :: u64) = 64 + 16 * unat cap + 64 * unat n"
    "unat (ef_expected_file_size n cap 4096) = 64 + 16 * unat cap + 64 * unat n + (32 + 32 * 4096)"
proof -
  have c: "unat cap \<le> 0xFFFF" and n: "unat n \<le> 2 ^ 40" using assms by (simp_all add: word_le_nat_alt)
  have cap: "unat (ucast cap * 16 :: u64) = 16 * unat cap" using c by (subst unat_mult_u64) simp_all
  have slots: "unat (n * 64) = 64 * unat n" using n by (subst unat_mult_u64) simp_all
  show base: "unat (64 + ucast cap * 16 :: u64) = 64 + 16 * unat cap" using c cap by (subst unat_add) simp_all
  show e: "unat (64 + ucast cap * 16 + n * 64 :: u64) = 64 + 16 * unat cap + 64 * unat n"
    using c n base slots by (subst unat_add) simp_all
  then have h: "unat (64 + ucast cap * 16 + n * 64 + 32 :: u64) = 64 + 16 * unat cap + 64 * unat n + 32"
    using c n by (subst unat_add) simp_all
  have u: "unat (ucast (4096 :: u32) * 32 :: u64) = 32 * 4096" by simp
  show "unat (ef_expected_file_size n cap 4096) = 64 + 16 * unat cap + 64 * unat n + (32 + 32 * 4096)"
    unfolding ef_expected_file_size_def using c n h u by (subst unat_add) simp_all
qed

lemma create_layout:
  assumes "mapped db" "ef_hash_capacity_valid cap" "n \<le> 2 ^ 40" "file_size db = ef_expected_file_size n cap 4096"
    and d: "d = ef_db_bind_slots_layout (upd_mem (\<lambda>m. ef_init_superblock m n cap) db)"
  shows "undo_area_ok d \<and> max_slots (sb d) = n \<and> hash_capacity d = cap \<and>
    ef_validate_superblock (mem d) (file_size d) =
      (if ef_sb_checksum_compute (mem d) = 0 then EF_ERR_BAD_CHECKSUM else EF_OK)"
proof -
  have c: "cap \<le> 0xFFFF" using assms(2) by (auto simp: ef_hash_capacity_valid_def not_less split: if_splits)
  let ?m = "ef_init_superblock (mem db) n cap"
  note s = sb_init[OF c, of "mem db" n] and e = expected_size[OF c assms(3)] and h = init_capacity[OF c, of "mem db" n]
  have m: "mem d = ?m" "file_size d = ef_expected_file_size n cap 4096" "mapped d"
    using assms(1,4) by (simp_all add: d ef_db_bind_slots_layout_def Let_def)
  have f: "hash_capacity d = cap" "hash_index d = (if cap = 0 then None else Some 64)" "slots_base d = 64 + ucast cap * 16"
    "undo_log_base d = 64 + ucast cap * 16 + n * 64" "undo_log_slots d = 4096"
    using assms(1) sb_init(3)[of 0 "mem db" n]
    by (auto simp: d ef_db_bind_slots_layout_def Let_def h s EF_UNDO_LOG_DEFAULT_SLOTS_def word_gt_0)
  have max: "max_slots (sb d) = n" by (simp add: m s)
  have "wf_layout d"
    unfolding wf_layout_def layout_ok_def max m(2) f using c e m(3) by (simp add: slot_ptr_def EF_SLOT_SIZE_def)
  then have "undo_area_ok d"
    unfolding undo_area_ok_def max m(2) f using e by (simp add: slot_ptr_def EF_SLOT_SIZE_def)
  moreover have "ef_validate_superblock (mem d) (file_size d) =
      (if ef_sb_checksum_compute (mem d) = 0 then EF_ERR_BAD_CHECKSUM else EF_OK)"
    using assms(2) init_checksum[of "mem db" n cap]
    by (simp add: ef_validate_superblock_def m s h Let_def ef_magic_valid_def EF_SLOT_SIZE_def EF_UNDO_LOG_DEFAULT_SLOTS_def)
  ultimately show ?thesis using max f(1) by blast
qed

text \<open>
  C33: creating a database of \<open>n\<close> slots with a valid hash capacity in a file of the size the code asks
  for gives a handle whose layout is well formed, with the undo log behind the slots and inside the
  file; the new superblock passes validation, unless its checksum happens to be 0, which the code
  takes for a missing one.
\<close>

theorem create_establishes_layout:
  assumes "mapped db" "ef_hash_capacity_valid cap" "n \<le> 2 ^ 40" "file_size db = ef_expected_file_size n cap 4096"
    and d: "d = ef_db_bind_slots_layout (upd_mem (\<lambda>m. ef_init_superblock m n cap) db)"
  shows "undo_area_ok d \<and> max_slots (sb d) = n \<and> hash_capacity d = cap \<and>
    ef_validate_superblock (mem d) (file_size d) =
      (if ef_sb_checksum_compute (mem d) = 0 then EF_ERR_BAD_CHECKSUM else EF_OK)"
  by (rule create_layout[OF assms])

theorem create_establishes_layout_witness:
  "undo_area_ok (ef_db_bind_slots_layout (upd_mem (\<lambda>m. ef_init_superblock m 4 16) (sample_db\<lparr>file_size := 131680\<rparr>)))"
  using create_establishes_layout[of "sample_db\<lparr>file_size := 131680\<rparr>" 16 4, OF _ _ _ _ refl]
  by (simp add: ef_hash_capacity_valid_def ef_expected_file_size_def)

end
