(* ===== verification/Open_Props.thy ===== *)
theory Open_Props
  imports Txn_Abort Index_Api Create_Props
begin

text \<open>
  A database created through the public interface is in the state from which the properties of the
  slot pool, the index, the queue and the transactions start: what they assume is what opening
  establishes.
\<close>

subsection \<open>What building the free list leaves alone\<close>

text \<open>The index region, the rest of the handle, and the superblock but for three fields.\<close>

definition pool_write :: "ef_db \<Rightarrow> ef_db \<Rightarrow> bool" where
  "pool_write db db' \<longleftrightarrow>
     (\<exists>m h c k. db' = db\<lparr>mem := m\<rparr> \<and> (\<forall>a. 64 \<le> a \<and> a < unat (slots_base db) \<longrightarrow> m a = mem db a) \<and>
        sb_of m = (sb db)\<lparr>free_list_head := h, free_count := c, sb_checksum := k\<rparr>)"

lemma pool_writeI:
  assumes "db' = db\<lparr>mem := m\<rparr>" "\<And>a. 64 \<le> a \<Longrightarrow> a < unat (slots_base db) \<Longrightarrow> m a = mem db a"
    "sb_of m = (sb db)\<lparr>free_list_head := h, free_count := c, sb_checksum := k\<rparr>"
  shows "pool_write db db'"
  unfolding pool_write_def using assms by blast

lemma pool_writeE:
  assumes "pool_write db db'"
  obtains m h c k where "db' = db\<lparr>mem := m\<rparr>" "\<And>a. 64 \<le> a \<Longrightarrow> a < unat (slots_base db) \<Longrightarrow> m a = mem db a"
    "sb_of m = (sb db)\<lparr>free_list_head := h, free_count := c, sb_checksum := k\<rparr>"
  using assms unfolding pool_write_def by blast

lemma pool_write_refl: "pool_write db db"
  by (rule pool_writeI[where m = "mem db" and h = "free_list_head (sb db)" and c = "free_count (sb db)" and k = "sb_checksum (sb db)"])
     simp_all

lemma pool_write_trans:
  assumes "pool_write a b" "pool_write b c"
  shows "pool_write a c"
proof -
  obtain m h n k where b: "b = a\<lparr>mem := m\<rparr>" "\<And>x. 64 \<le> x \<Longrightarrow> x < unat (slots_base a) \<Longrightarrow> m x = mem a x"
    "sb_of m = (sb a)\<lparr>free_list_head := h, free_count := n, sb_checksum := k\<rparr>"
    using assms(1) unfolding pool_write_def by blast
  obtain m' h' n' k' where c: "c = b\<lparr>mem := m'\<rparr>" "\<And>x. 64 \<le> x \<Longrightarrow> x < unat (slots_base b) \<Longrightarrow> m' x = mem b x"
    "sb_of m' = (sb b)\<lparr>free_list_head := h', free_count := n', sb_checksum := k'\<rparr>"
    using assms(2) unfolding pool_write_def by blast
  show ?thesis
    by (rule pool_writeI[where m = m' and h = h' and c = n' and k = k']) (use b c in simp_all)
qed

lemma pool_write_base: "pool_write db db' \<Longrightarrow> slots_base db' = slots_base db"
  unfolding pool_write_def by auto

lemma pool_write_fold:
  assumes "\<And>x d. 64 \<le> unat (slots_base d) \<Longrightarrow> pool_write d (f x d)" "64 \<le> unat (slots_base db)"
  shows "pool_write db (fold f xs db)"
  using assms(2)
proof (induction xs arbitrary: db)
  case Nil
  then show ?case by (simp add: pool_write_refl)
next
  case (Cons x xs)
  have w: "pool_write db (f x db)" by (rule assms(1)[OF Cons.prems])
  then show ?case using pool_write_trans[OF w Cons.IH] Cons.prems pool_write_base[OF w] by simp
qed

lemma pool_write_head: "pool_write db (upd_mem (\<lambda>m. set_free_list_head m h) db)"
  by (rule pool_writeI[OF refl, where h = h and c = "free_count (sb db)" and k = "sb_checksum (sb db)"])
     (simp add: set_free_list_head_def store_u64_def store_bytes_frame, simp)

lemma pool_write_count: "pool_write db (upd_mem (\<lambda>m. ef_sb_free_count_store m c) db)"
  by (rule pool_writeI[OF refl, where h = "free_list_head (sb db)" and c = c and k = "sb_checksum (sb db)"])
     (simp add: ef_sb_free_count_store_def set_free_count_def store_u32_def store_bytes_frame, simp add: ef_sb_free_count_store_def)

lemma pool_write_checksum: "pool_write db (upd_mem ef_sb_checksum_store db)"
proof -
  have "\<exists>k. ef_sb_checksum_store (mem db) = set_sb_checksum (mem db) k" by (auto simp: ef_sb_checksum_store_def)
  then obtain k where k: "ef_sb_checksum_store (mem db) = set_sb_checksum (mem db) k" by blast
  show ?thesis
    by (rule pool_writeI[where m = "set_sb_checksum (mem db) k" and h = "free_list_head (sb db)" and c = "free_count (sb db)" and k = k])
       (simp_all add: k, simp add: set_sb_checksum_def store_u32_def store_bytes_frame)
qed

text \<open>A write behind the index region.\<close>

lemma pool_write_slots:
  assumes "64 \<le> unat (slots_base db)" "\<And>a. a < unat (slots_base db) \<Longrightarrow> m a = mem db a"
  shows "pool_write db (db\<lparr>mem := m\<rparr>)"
proof (rule pool_writeI[OF refl, where h = "free_list_head (sb db)" and c = "free_count (sb db)" and k = "sb_checksum (sb db)"])
  have "sb_of m = sb db" by (rule sb_of_cong) (use assms in simp)
  then show "sb_of m = (sb db)\<lparr>free_list_head := free_list_head (sb db), free_count := free_count (sb db), sb_checksum := sb_checksum (sb db)\<rparr>"
    by simp
qed (use assms in simp)

lemma pool_write_init_slot:
  assumes "64 \<le> unat (slots_base db)"
  shows "pool_write db (init_free_slot n i db)"
proof -
  have "a < slot_ptr (unat (slots_base db)) i" if "a < unat (slots_base db)" for a
    using that slot_ptr_ge less_le_trans by blast
  then show ?thesis unfolding init_free_slot_def Let_def
    by (intro pool_write_slots[OF assms])
       (simp add: set_status_def set_next_offset_def store_u32_def store_u64_def store_bytes_frame mem_set_store trans_less_add1)
qed

lemma pool_write_refresh_crc:
  assumes "64 \<le> unat (slots_base db)"
  shows "pool_write db (refresh_slot_crc i db)"
proof -
  have "a < db_slot_ptr db j" if "a < unat (slots_base db)" for a j
    using that slot_ptr_ge less_le_trans by blast
  then have "pool_write db (upd_mem (\<lambda>m. set_header_crc m (db_slot_ptr db j) v) db)" for j v
    by (intro pool_write_slots[OF assms]) (simp add: set_header_crc_def store_u32_def store_bytes_frame trans_less_add1)
  then show ?thesis by (simp add: refresh_slot_crc_def ef_slot_header_crc_store_def pool_write_refl)
qed

lemma pool_write_refresh:
  assumes "64 \<le> unat (slots_base db)"
  shows "pool_write db (ef_db_refresh_checksums db)"
proof -
  have "pool_write db (if flags (sb db) AND EF_FLAG_SLOT_CRC \<noteq> 0
      then fold refresh_slot_crc [0..<unat (max_slots (sb db))] db else db)"
    using pool_write_fold[where f = refresh_slot_crc, OF pool_write_refresh_crc assms] pool_write_refl by simp
  from pool_write_trans[OF this pool_write_checksum] show ?thesis
    by (simp add: ef_db_refresh_checksums_def Let_def pool_write_refl)
qed

lemma pool_write_build:
  assumes "64 \<le> unat (slots_base db)"
  shows "pool_write db (snd (ef_build_free_list db))"
proof -
  define d0 where "d0 = upd_mem (\<lambda>m. set_free_list_head m 0) db"
  have w0: "pool_write db d0" unfolding d0_def by (rule pool_write_head)
  define n where "n = max_slots (sb db)"
  define d1 where "d1 = fold (init_free_slot n) [0..<unat n] d0"
  define d2 where "d2 = upd_mem (\<lambda>m. set_free_list_head m (ef_slot_to_offset d1 0)) d1"
  define d3 where "d3 = upd_mem (\<lambda>m. ef_sb_free_count_store m (ucast n)) d2"
  have b0: "64 \<le> unat (slots_base d0)" using assms pool_write_base[OF w0] by simp
  have "pool_write d0 d1" unfolding d1_def by (rule pool_write_fold[where f = "init_free_slot n", OF pool_write_init_slot b0])
  from pool_write_trans[OF w0 this] have "pool_write db d1" .
  from pool_write_trans[OF this pool_write_head] have "pool_write db d2" unfolding d2_def .
  from pool_write_trans[OF this pool_write_count] have w3: "pool_write db d3" unfolding d3_def .
  then have "64 \<le> unat (slots_base d3)" using assms pool_write_base[OF w3] by simp
  from pool_write_trans[OF w3 pool_write_refresh[OF this]] have w4: "pool_write db (ef_db_refresh_checksums d3)" .
  have "snd (ef_build_free_list db) = (if \<not> mapped db then db
      else if n = 0 then upd_mem (\<lambda>m. ef_sb_free_count_store m 0) d0 else ef_db_refresh_checksums d3)"
    by (simp add: ef_build_free_list_def Let_def d0_def d1_def d2_def d3_def n_def)
  then show ?thesis
    using w4 pool_write_trans[OF w0 pool_write_count, of 0] pool_write_refl by simp
qed

subsection \<open>An index region of zeros\<close>

definition zero_index :: "ef_db \<Rightarrow> bool" where
  "zero_index db \<longleftrightarrow> (\<forall>a. 64 \<le> a \<and> a < unat (slots_base db) \<longrightarrow> mem db a = 0)"

lemma zero_entry:
  assumes "wf_layout db" "zero_index db" "p < unat (hash_capacity db)"
  shows "entry_at (mem db) 64 p = \<lparr>key_hash = 0, slot_offset = 0\<rparr>"
proof -
  have "entry_at (mem db) 64 p = entry_at (\<lambda>_. 0) 64 p"
    by (rule entry_at_cong) (use assms wf_layout_base[OF assms(1)] in \<open>simp add: zero_index_def\<close>)
  also have "\<dots> = \<lparr>key_hash = 0, slot_offset = 0\<rparr>"
    by (simp add: entry_at_def word_loads load_bytes_def map_replicate_const)
  finally show ?thesis .
qed

lemma zero_unindexed:
  assumes "wf_layout db" "zero_index db" "i < max_slots (sb db)"
  shows "unindexed db i"
  using zero_entry[OF assms(1,2)] slot_offset_neq_0[OF assms(1,3)]
  by (auto simp: unindexed_def table_def table_of_def)

lemma zero_index_empty:
  assumes wf: "wf_layout db" "zero_index db" and cap: "hash_capacity db \<noteq> 0" "ef_hash_capacity_valid (hash_capacity db)"
  shows "index_inv db" "index_lookup db = Map.empty"
proof -
  have free: "\<not> occ (entry_at (mem db) 64) p" if "p < unat (hash_capacity db)" for p
    using zero_entry[OF wf that] by (simp add: occ_def ef_hash_entry_empty_def)
  have h: "hash_index db = Some 64" using wf(1) cap(1) by (simp add: wf_layout_def layout_ok_def)
  have "hash_capacity db AND (hash_capacity db - 1) = 0" using cap by (auto simp: ef_hash_capacity_valid_def split: if_splits)
  moreover have "0 < unat (hash_capacity db)" using cap(1) by (simp add: unat_gt_0)
  then have "Suc p mod unat (hash_capacity db) < unat (hash_capacity db)" for p by simp
  with free have "rh_inv (hash_capacity db) (entry_at (mem db) 64)"
    using cap(1) by (simp add: rh_inv_def rh_order_def rh_distinct_def)
  ultimately show inv: "index_inv db" using h by (simp add: index_inv_def)
  have "entries (hash_capacity db) (entry_at (mem db) 64) = {}" using free by (auto simp: entries_def)
  then show "index_lookup db = Map.empty" using index_dom[OF inv h] by simp
qed

subsection \<open>Creating\<close>

text \<open>The state handed to a caller who created a database of \<open>n\<close> slots and hash capacity \<open>cap\<close>.\<close>

definition new_sb :: "u64 \<Rightarrow> u32 \<Rightarrow> u64 \<Rightarrow> u32 \<Rightarrow> u32 \<Rightarrow> ef_superblock" where
  "new_sb n cap head count chk =
     \<lparr>magic = [69, 78, 68, 70], slot_size = 64, max_slots = n, free_list_head = head, schema_version = EF_SCHEMA_VERSION,
      flags = EF_FLAG_SB_CRC OR EF_FLAG_SLOT_CRC, free_count = count, sb_checksum = chk, queue_head = 0, queue_tail = 0,
      hash_cap16 = ucast cap, queue_lock = 0, index_write_lock = 0, txn_lock = 0, sb_txn_state = 0, sb_pad = 0\<rparr>"

lemma init_sb:
  assumes "cap \<le> 0xFFFF"
  obtains chk where "sb_of (ef_init_superblock m n cap) = new_sb n cap 0 (ucast n) chk"
proof -
  let ?s = "sb_of (ef_init_superblock m n cap)"
  have "?s = new_sb n cap 0 (ucast n) (sb_checksum ?s)"
    using assms by (simp add: new_sb_def ef_init_superblock_def Let_def ef_sb_checksum_store_def sb_zeroed ef_sb_hash_capacity_store_eq
      ef_sb_free_count_store_def min_def EF_SLOT_SIZE_def)
  then show thesis by (rule that)
qed

definition fresh :: "ef_db \<Rightarrow> u64 \<Rightarrow> u32 \<Rightarrow> bool" where
  "fresh db n cap \<longleftrightarrow>
     undo_area_ok db \<and> max_slots (sb db) = n \<and> hash_capacity db = cap \<and> zero_index db \<and>
     free_list_inv db (map of_nat [0..<unat n]) \<and> schema_version (sb db) = EF_SCHEMA_VERSION \<and>
     queue_head (sb db) = 0 \<and> queue_lock (sb db) = 0 \<and> index_write_lock (sb db) = 0 \<and> txn_lock (sb db) = 0 \<and>
     sb_txn_state (sb db) = EF_TXN_STATE_NONE \<and> (\<exists>h k x. sb db = new_sb n cap h k x) \<and>
     file_size db = ef_expected_file_size n cap 4096 \<and> undo_log_slots db = 4096"

lemma init_locks:
  assumes "cap \<le> 0xFFFF"
  shows "queue_head (sb_of (ef_init_superblock m n cap)) = 0" "queue_lock (sb_of (ef_init_superblock m n cap)) = 0"
    "index_write_lock (sb_of (ef_init_superblock m n cap)) = 0" "txn_lock (sb_of (ef_init_superblock m n cap)) = 0"
    "sb_txn_state (sb_of (ef_init_superblock m n cap)) = 0"
  using assms by (simp_all add: ef_init_superblock_def Let_def ef_sb_checksum_store_def sb_zeroed ef_sb_hash_capacity_store_eq
      ef_sb_free_count_store_def min_def)

lemma mem_set_none: "mem_set m a v 0 = m"
  by (auto simp: mem_set_def fun_eq_iff)

lemma init_new:
  assumes "mapped db" "ef_hash_capacity_valid cap" "unat n < 2 ^ 32" "file_size db = ef_expected_file_size n cap 4096"
  obtains d where "ef_db_init_mapped env db True n cap = (EF_OK, d)" "fresh d n cap"
    "readonly d = readonly db" "txn_active d = txn_active db" "hash_entry_count d = hash_entry_count db" "index_seq d = index_seq db"
    "backend d = backend db" "map_capacity d = map_capacity db"
proof -
  define d1 where "d1 = ef_db_bind_slots_layout (upd_mem (\<lambda>m. ef_init_superblock m n cap) db)"
  define d2 where "d2 = ef_init_hash_region d1"
  define d3 where "d3 = ef_init_slots d2"
  have c: "cap \<le> 0xFFFF" using assms(2) by (auto simp: ef_hash_capacity_valid_def not_less split: if_splits)
  have n: "n \<le> 2 ^ 40" using assms(3) by (simp add: word_le_nat_alt)
  have l: "undo_area_ok d1" "max_slots (sb d1) = n" "hash_capacity d1 = cap"
    using create_layout[OF assms(1,2) n assms(4) d1_def] by simp_all
  then have wf: "wf_layout d1" by (simp add: undo_area_ok_def)
  note base = wf_layout_base[OF wf] and hi = wf[unfolded wf_layout_def layout_ok_def]
  have m2: "d2 = d1\<lparr>mem := mem_set (mem d1) 64 0 (16 * unat cap)\<rparr>"
    using hi l(3) by (simp add: d2_def ef_init_hash_region_def mem_set_none)
  have z2: "zero_index d2" using base l(3) by (simp add: zero_index_def m2 mem_set_def)
  have sb2: "sb d2 = sb d1" by (simp add: m2 sb_of_mem_set)
  have m3: "d3 = d2\<lparr>mem := mem_set (mem d2) (unat (slots_base d1)) 0 (unat (n * 64))\<rparr>"
    using hi l(2) sb2 by (simp add: d3_def ef_init_slots_def m2)
  have z3: "zero_index d3" using z2 by (simp add: zero_index_def m3 m2 mem_set_def)
  have sb3: "sb d3 = sb d1" using base sb2 by (simp add: m3 sb_of_mem_set)
  have lay3: "same_layout d1 d3" using sb3 by (simp add: same_layout_def m3 m2)
  have wf3: "wf_layout d3" using wf same_layout_wf[OF lay3] by simp
  have b3: "64 \<le> unat (slots_base d3)" using wf3 by simp
  define d where "d = snd (ef_build_free_list d3)"
  have inv: "fst (ef_build_free_list d3) = EF_OK" "free_list_inv d (map of_nat [0..<unat n])"
    unfolding d_def using build_free_list_inv[OF wf3 _ assms(3)] sb3 l(2) by simp_all
  obtain m h k x where w: "d = d3\<lparr>mem := m\<rparr>" "\<And>a. 64 \<le> a \<Longrightarrow> a < unat (slots_base d3) \<Longrightarrow> m a = mem d3 a"
    "sb_of m = (sb d3)\<lparr>free_list_head := h, free_count := k, sb_checksum := x\<rparr>"
    using pool_write_build[OF b3] unfolding d_def pool_write_def by blast
  have sb: "sb d = (sb d1)\<lparr>free_list_head := h, free_count := k, sb_checksum := x\<rparr>" using w(1,3) sb3 by simp
  have sb1: "sb d1 = sb_of (ef_init_superblock (mem db) n cap)"
    using assms(1) by (simp add: d1_def ef_db_bind_slots_layout_def Let_def)
  have "undo_area_ok d"
    using l(1) inv(2) sb unfolding undo_area_ok_def free_list_inv_def by (simp add: w(1) m3 m2)
  moreover have "zero_index d" using z3 w(1,2) by (simp add: zero_index_def)
  moreover have "hash_capacity d = cap" using l(3) by (simp add: w(1) m3 m2)
  moreover obtain chk where chk: "sb d1 = new_sb n cap 0 (ucast n) chk" using init_sb[OF c] sb1 by metis
  have "sb d = new_sb n cap h k x" by (simp add: sb chk new_sb_def)
  moreover have "file_size d = ef_expected_file_size n cap 4096" "undo_log_slots d = 4096"
    using assms(1,4) by (simp_all add: w(1) m3 m2 d1_def ef_db_bind_slots_layout_def Let_def EF_UNDO_LOG_DEFAULT_SLOTS_def)
  ultimately have "fresh d n cap"
    using inv(2) l(2) by (auto simp: fresh_def new_sb_def EF_TXN_STATE_NONE_def)
  moreover have "ef_db_init_mapped env db True n cap = (EF_OK, d)"
    using inv(1) assms(2) by (simp add: ef_db_init_mapped_def Let_def d_def d3_def d2_def d1_def prod_eq_iff)
  moreover have "readonly d = readonly db" "txn_active d = txn_active db" "hash_entry_count d = hash_entry_count db" "index_seq d = index_seq db"
    "backend d = backend db" "map_capacity d = map_capacity db"
    using assms(1) by (simp_all add: w(1) m3 m2 d1_def ef_db_bind_slots_layout_def Let_def)
  ultimately show thesis using that by blast
qed


lemma open_memory_fresh:
  assumes "env_calloc env" "ef_hash_capacity_valid cap" "unat n < 2 ^ 32" "ef_expected_file_size n cap 4096 \<le> buffer_size"
  obtains d where "ef_open_memory_hash env buffer buffer_size n cap True = Inr (ef_set_error d EF_OK)" "fresh d n cap"
    "\<not> readonly d" "\<not> txn_active d" "hash_entry_count d = 0" "index_seq d = 0"
    "backend d = EF_BACKEND_MEMORY" "map_capacity d = buffer_size"
proof -
  let ?need = "ef_expected_file_size n cap 4096"
  define db0 where "db0 = (ef_db_bind_io ef_db_zero \<lparr>io_mem = mem_set buffer 0 0 (unat ?need), io_mapped = True, map_size = ?need,
     io_capacity = ?need, io_backend = EF_BACKEND_MEMORY, io_readonly = False\<rparr>)\<lparr>file_size := ?need, map_capacity := buffer_size\<rparr>"
  have c: "cap \<le> 0xFFFF" using assms(2) by (auto simp: ef_hash_capacity_valid_def not_less split: if_splits)
  have n: "n \<le> 2 ^ 40" using assms(3) by (simp add: word_le_nat_alt)
  have f0: "mapped db0" "file_size db0 = ?need" "\<not> readonly db0" "\<not> txn_active db0" "hash_entry_count db0 = 0" "index_seq db0 = 0"
    "backend db0 = EF_BACKEND_MEMORY" "map_capacity db0 = buffer_size"
    by (simp_all add: db0_def ef_db_bind_io_def ef_db_bind_slots_layout_def ef_db_zero_def Let_def)
  obtain d where d: "ef_db_init_mapped env db0 True n cap = (EF_OK, d)" "fresh d n cap"
    "readonly d = readonly db0" "txn_active d = txn_active db0" "hash_entry_count d = hash_entry_count db0" "index_seq d = index_seq db0"
    "backend d = backend db0" "map_capacity d = map_capacity db0"
    by (rule init_new[OF f0(1) assms(2,3) f0(2)])
  have "?need \<noteq> 0" using expected_size(3)[OF c n] by auto
  then have "ef_open_memory_hash env buffer buffer_size n cap True = Inr (ef_set_error d EF_OK)"
    using assms(1,2,4) d(1)
    by (simp add: ef_open_memory_hash_def ef_port_open_memory_def Let_def db0_def not_less[symmetric] EF_UNDO_LOG_DEFAULT_SLOTS_def)
  then show thesis using that d(2-8) f0(3-8) by simp
qed

text \<open>Clearing the error changes nothing of this.\<close>

lemma fresh_error: "fresh d n cap \<Longrightarrow> fresh (ef_set_error d e) n cap"
proof -
  assume f: "fresh d n cap"
  have t: "same_layout d (ef_set_error d e)" by (simp add: same_layout_def)
  have "free_list_inv (ef_set_error d e) (map of_nat [0..<unat n])"
    using f free_list_inv_cong[OF t] by (simp add: fresh_def)
  moreover have "undo_area_ok (ef_set_error d e)"
    using f same_layout_wf[OF t] unfolding fresh_def undo_area_ok_def by auto
  ultimately show ?thesis using f by (simp add: fresh_def zero_index_def)
qed

subsection \<open>Properties\<close>

text \<open>
  C7: creating a database in a memory buffer that is large enough succeeds, and the handle is ready for
  every component: the layout is well formed with room for the undo log; all \<open>n\<close> slots are on
  the free list; the index, if there is one, is empty and ready; no lock is held. If no shrink of
  the index is due the queue is unused and a transaction can begin.
\<close>

theorem open_new_is_ready:
  assumes "env_calloc env" "ef_hash_capacity_valid cap" "unat n + 1 < 2 ^ 32" "ef_expected_file_size n cap 4096 \<le> buffer_size"
  shows "\<exists>db. ef_open_memory_hash env buffer buffer_size n cap True = Inr db \<and> undo_area_ok db \<and>
    free_list_inv db (map of_nat [0..<unat n]) \<and>
    (cap \<noteq> 0 \<longrightarrow> index_ready db \<and> index_lookup db = Map.empty) \<and>
    (ef_index_pick_shrink_capacity 0 cap = 0 \<longrightarrow> queue_unused db (map of_nat [0..<unat n]) \<and> txn_ready db)"
proof -
  have "unat n < 2 ^ 32" using assms(3) by simp
  with open_memory_fresh assms(1,2,4) obtain d where run: "ef_open_memory_hash env buffer buffer_size n cap True = Inr (ef_set_error d EF_OK)"
    and d: "fresh d n cap" "\<not> readonly d" "\<not> txn_active d" "hash_entry_count d = 0" "index_seq d = 0" by blast
  let ?db = "ef_set_error d EF_OK" and ?ids = "map of_nat [0..<unat n] :: u64 list"
  have h: "\<not> readonly ?db" "\<not> txn_active ?db" "hash_entry_count ?db = 0" "index_seq ?db = 0" using d(2-5) by simp_all
  have f: "undo_area_ok ?db" "free_list_inv ?db ?ids" "zero_index ?db" "hash_capacity ?db = cap" "schema_version (sb ?db) = EF_SCHEMA_VERSION"
    "queue_head (sb ?db) = 0" "queue_lock (sb ?db) = 0" "index_write_lock (sb ?db) = 0" "txn_lock (sb ?db) = 0"
    using fresh_error[OF d(1), of EF_OK] unfolding fresh_def by blast+
  have wf: "wf_layout ?db" using f(1) by (simp add: undo_area_ok_def)
  have "index_ready ?db \<and> index_lookup ?db = Map.empty" if "cap \<noteq> 0"
    using zero_index_empty[OF wf f(3), unfolded f(4), OF that assms(2)] wf f(5,8) h by (simp add: index_ready_def index_counted_def)
  moreover have "queue_unused ?db ?ids \<and> txn_ready ?db" if "ef_index_pick_shrink_capacity 0 cap = 0"
  proof -
    have "quiet ?db" unfolding quiet_def h(3) f(4) using wf f(5,8) h(1,2) that by simp
    moreover have "unindexed ?db i" if "i \<in> set ?ids" for i
      using zero_unindexed[OF wf f(3) pool_max[OF f(2) that]] .
    ultimately show ?thesis using f(1,2,6,7,9) assms(3) by (simp add: queue_unused_def txn_ready_def)
  qed
  ultimately show ?thesis using run f(1,2) by blast
qed

text \<open>A database of four slots and sixteen buckets: a transaction can begin, and the queue has room for three items.\<close>

theorem open_new_is_ready_witness:
  "\<exists>db. ef_open_memory_hash \<lparr>env_open = True, env_fstat = True, env_ftruncate = (\<lambda>_. True), env_mmap = (\<lambda>_. True), env_msync = True,
      env_malloc = (\<lambda>_. True), env_calloc = True\<rparr> (\<lambda>_. 7) 131680 4 16 True = Inr db \<and>
    free_list_inv db [0, 1, 2, 3] \<and> index_ready db \<and> txn_ready db \<and> fifo_holds db [] 3"
proof -
  let ?env = "\<lparr>env_open = True, env_fstat = True, env_ftruncate = (\<lambda>_. True), env_mmap = (\<lambda>_. True), env_msync = True,
      env_malloc = (\<lambda>_. True), env_calloc = True\<rparr>"
  have s: "ef_index_pick_shrink_capacity 0 16 = 0" by code_simp
  have ids: "map of_nat [0..<unat (4 :: u64)] = [0, 1, 2, 3 :: u64]" by code_simp
  have "ef_hash_capacity_valid 16" "ef_expected_file_size 4 16 4096 \<le> 131680" "unat (4 :: u64) + 1 < 2 ^ 32"
    by (simp_all add: ef_hash_capacity_valid_def ef_expected_file_size_def)
  from open_new_is_ready[of ?env, OF _ this(1,3,2)] obtain db where
    "ef_open_memory_hash ?env (\<lambda>_. 7) 131680 4 16 True = Inr db" "free_list_inv db [0, 1, 2, 3]" "index_ready db"
    "queue_unused db [0, 1, 2, 3]" "txn_ready db"
    unfolding ids using s by auto
  moreover from this(4) have "fifo_holds db [] 3" unfolding fifo_holds_def by (intro disjI2 exI[of _ "[0, 1, 2, 3]"]) simp
  ultimately show ?thesis by blast
qed

end
