(* ===== verification/Blob_Chain.thy ===== *)
theory Blob_Chain
  imports Blob Free_Slot
begin

text \<open>
  The chain of overflow slots behind a blob: what one step of the writing loop does to the
  mapping, and what the reading loop finds in it.
\<close>

subsection \<open>One overflow slot\<close>

text \<open>A slot as the allocation leaves it, apart from its checksum.\<close>

definition fresh_slot :: ef_slot where
  "fresh_slot = \<lparr>status = EF_STATUS_USED, header_crc = 0, payload = replicate 48 0, next_offset = 0\<rparr>"

lemma crc_compute_cong:
  "status s = status t \<Longrightarrow> payload s = payload t \<Longrightarrow> next_offset s = next_offset t \<Longrightarrow>
   ef_slot_header_crc_compute i s = ef_slot_header_crc_compute i t"
  by (simp add: ef_slot_header_crc_compute_def ef_slot_header_crc_compute_full_def ef_slot_header_crc_compute_link_def)

lemma pop_state_sealed:
  assumes wf: "wf_layout db"
  shows "sealed (pop_state db i c) i"
proof -
  have p: "64 \<le> db_slot_ptr db i" by (rule slot_base_64[OF wf])
  show ?thesis using p by (simp add: sealed_def seal_def pop_state_def Let_def mem_crc_store)
qed

lemma alloc_sealed:
  assumes q: "quiet db" and inv: "free_list_inv db (i # ids)" and run: "ef_alloc_slot_ex db fl = (r, db')"
  shows "sealed db' i"
proof -
  let ?l = "db\<lparr>mem := set_index_write_lock (mem db) 1\<rparr>"
  let ?d = "pop_state ?l i (fl AND EF_ALLOC_ZERO_PAYLOAD \<noteq> 0)"
  have wf: "wf_layout db" using q by (rule quiet_wf)
  have wfl: "wf_layout ?l" using wf same_layout_wf[OF touches_layout[OF lock_touches[OF wf]]] by simp
  have db': "db' = ?d\<lparr>mem := set_index_write_lock (mem ?d) 0\<rparr>"
    using alloc_slot_run[OF q inv, of fl] run by simp
  have wfd: "wf_layout ?d" using wfl same_layout_wf[OF pop_state_slots(1)[OF wfl]] by simp
  have "sealed ?d i" by (rule pop_state_sealed[OF wfl])
  moreover have "db_slot db' i = db_slot ?d i" unfolding db' by (rule touches_slot[OF lock_touches[OF wfd]]) simp
  ultimately show ?thesis by (subst sealed_cong) (simp_all add: db')
qed

lemma alloc_overflow_ok:
  assumes q: "quiet db" and inv: "free_list_inv db (i # ids)" and crc: "crc_ok db i fresh_slot"
  obtains db' where "ef_alloc_overflow_slot env db = (Inr (i, db_slot_ptr db i), db')" "touches db db' {i}"
    "quiet db'" "free_list_inv db' ids"
    "sb db' = (sb db)\<lparr>free_list_head := next_offset (db_slot db i), free_count := free_count (sb db) - 1\<rparr>"
    "status (db_slot db' i) = EF_STATUS_OVERFLOW" "next_offset (db_slot db' i) = 0"
proof -
  obtain r a where run: "ef_alloc_slot_ex db EF_ALLOC_ZERO_PAYLOAD = (r, a)" by fastforce
  note A = alloc_slot_ok[OF q inv run]
  have i: "i < max_slots (sb db)" "i \<notin> set ids" using free_list_inv_head(2,5)[OF inv] by simp_all
  have wfa: "wf_layout a" by (rule quiet_wf[OF A(3)])
  have "ef_slot_header_crc_compute i (db_slot a i) = ef_slot_header_crc_compute i fresh_slot"
    by (rule crc_compute_cong) (use A(6-8) in \<open>simp_all add: fresh_slot_def EF_ALLOC_ZERO_PAYLOAD_def\<close>)
  then have "crc_ok a i (db_slot a i)" using crc A(5) by (simp add: crc_ok_def)
  from sealed_valid[OF alloc_sealed[OF q inv run] this]
  have get: "ef_get_slot a i = (Some (db_slot_ptr a i), ef_set_error a EF_OK)"
    using i(1) A(5) wfa by (intro get_slot_ok) simp_all
  let ?e = "ef_set_error a EF_OK"
  have wfe: "wf_layout ?e" using wfa by (simp add: ef_set_error_def)
  let ?s = "ef_slot_status_store ?e (db_slot_ptr ?e i) EF_STATUS_OVERFLOW"
  define c where "c = ef_slot_header_crc_store ?s i (db_slot_ptr ?s i)"
  note st = puts_status[OF wfe, of i EF_STATUS_OVERFLOW]
  note cr = puts_trans[OF st puts_crc[OF puts_wf[OF st wfe]], folded c_def]
  have ptr: "db_slot_ptr a i = db_slot_ptr db i" using touches_layout[OF A(2)] by (simp add: same_layout_def)
  have "ef_alloc_overflow_slot env db = (Inr (i, db_slot_ptr db i), c)"
    using run A(1) get ptr by (simp add: ef_alloc_overflow_slot_def ef_alloc_def ef_alloc_ex_def Let_def c_def puts_ptr[OF st])
  moreover have ta: "touches a c {i}" by (rule touches_trans[OF touches_error[of a EF_OK "{}"]]) (use cr in \<open>auto simp: puts_def\<close>)
  moreover have "touches db c {i}" by (rule touches_trans[OF A(2) ta]) simp_all
  moreover have sbc: "sb c = sb a" using cr by (simp add: puts_def)
  moreover have "quiet c" using A(3) by (subst quiet_cong[OF ta]) (simp_all add: sbc)
  moreover have "free_list_inv c ids" using A(4) i(2) by (subst free_list_inv_touches[OF ta]) (simp_all add: sbc)
  moreover have "status (db_slot c i) = EF_STATUS_OVERFLOW" "next_offset (db_slot c i) = 0"
    using cr A(7) by (simp_all add: puts_slot[OF cr] puts_slot[OF st])
  ultimately show thesis using that A(5) by simp
qed

text \<open>One round of the writing loop after its allocation, as straight-line code.\<close>

definition chunk_state :: "ef_db \<Rightarrow> u64 \<Rightarrow> u64 \<Rightarrow> u8 list \<Rightarrow> ef_db" where
  "chunk_state db t i bs =
     (let p = db_slot_ptr db i; tp = db_slot_ptr db t;
          db = upd_mem (\<lambda>m. store_bytes m (p + 8) bs) db;
          db = (if length bs < 48 then upd_mem (\<lambda>m. mem_set m (p + 8 + length bs) 0 (48 - length bs)) db else db);
          db = upd_mem (\<lambda>m. set_next_offset m tp (ef_slot_to_offset db i)) db
      in ef_slot_header_crc_store (ef_slot_header_crc_store db t tp) i p)"

definition pad48 :: "u8 list \<Rightarrow> u8 list" where
  "pad48 bs = bs @ replicate (48 - length bs) 0"

lemma overwrite_pad:
  assumes "length bs \<le> 48" "length xs = 48"
  shows "overwrite (overwrite xs 0 bs) (length bs) (replicate (48 - length bs) 0) = pad48 bs"
  using assms by (simp add: overwrite_def pad48_def)

lemma puts_pad:
  fixes db :: ef_db and i :: u64
  assumes wf: "wf_layout db" and bs: "length bs \<le> 48"
  defines "p \<equiv> db_slot_ptr db i"
  defines "a \<equiv> upd_mem (\<lambda>m. store_bytes m (p + 8) bs) db"
  defines "b \<equiv> (if length bs < 48 then upd_mem (\<lambda>m. mem_set m (p + 8 + length bs) 0 (48 - length bs)) a else a)"
  shows "puts db b i ((db_slot db i)\<lparr>payload := pad48 bs\<rparr>)"
proof -
  have one: "puts db a i ((db_slot db i)\<lparr>payload := overwrite (payload (db_slot db i)) 0 bs\<rparr>)"
    using puts_payload[OF wf, of 0 bs i] bs by (simp add: a_def p_def)
  show ?thesis
  proof (cases "length bs < 48")
    case True
    have "length bs + length (replicate (48 - length bs) (0 :: u8)) \<le> 48" using bs by simp
    from puts_trans[OF one puts_payload[OF puts_wf[OF one wf] this, of i]]
    show ?thesis
      using True bs by (simp add: b_def p_def mem_set_store puts_ptr[OF one] puts_slot'[OF one] overwrite_pad ac_simps)
  next
    case False
    with bs one show ?thesis by (simp add: b_def pad48_def)
  qed
qed

lemma chunk_state_facts:
  assumes wf: "wf_layout db" and bs: "length bs \<le> 48" and ti: "t \<noteq> i"
  shows "touches db (chunk_state db t i bs) {t, i}" "sb (chunk_state db t i bs) = sb db"
    "db_slot (chunk_state db t i bs) i = seal db i ((db_slot db i)\<lparr>payload := pad48 bs\<rparr>)"
    "db_slot (chunk_state db t i bs) t = seal db t ((db_slot db t)\<lparr>next_offset := ef_slot_to_offset db i\<rparr>)"
proof -
  let ?p = "db_slot_ptr db i"
  let ?a = "upd_mem (\<lambda>m. store_bytes m (?p + 8) bs) db"
  define b where "b = (if length bs < 48 then upd_mem (\<lambda>m. mem_set m (?p + 8 + length bs) 0 (48 - length bs)) ?a else ?a)"
  have B: "puts db b i ((db_slot db i)\<lparr>payload := pad48 bs\<rparr>)" unfolding b_def by (rule puts_pad[OF wf bs])
  have wfb: "wf_layout b" by (rule puts_wf[OF B wf])
  define c where "c = upd_mem (\<lambda>m. set_next_offset m (db_slot_ptr b t) (ef_slot_to_offset b i)) b"
  have C: "puts b c t ((db_slot b t)\<lparr>next_offset := ef_slot_to_offset b i\<rparr>)" unfolding c_def by (rule puts_next[OF wfb])
  have wfc: "wf_layout c" by (rule puts_wf[OF C wfb])
  define d where "d = ef_slot_header_crc_store c t (db_slot_ptr c t)"
  have D: "puts c d t (seal c t (db_slot c t))" unfolding d_def by (rule puts_crc[OF wfc])
  have wfd: "wf_layout d" by (rule puts_wf[OF D wfc])
  define e where "e = ef_slot_header_crc_store d i (db_slot_ptr d i)"
  have E: "puts d e i (seal d i (db_slot d i))" unfolding e_def by (rule puts_crc[OF wfd])
  note ptrs = puts_ptr[OF B] puts_ptr[OF C] puts_ptr[OF D]
  have "chunk_state db t i bs = ef_slot_header_crc_store (ef_slot_header_crc_store
      (upd_mem (\<lambda>m. set_next_offset m (db_slot_ptr db t) (ef_slot_to_offset b i)) b) t (db_slot_ptr db t)) i ?p"
    unfolding chunk_state_def Let_def b_def ..
  also have "\<dots> = e" unfolding e_def ptrs unfolding d_def ptrs unfolding c_def ptrs ..
  finally have e: "chunk_state db t i bs = e" .
  note fl = flags_cong(1)[OF puts_flags[OF B]] flags_cong(1)[OF puts_flags[OF C]] flags_cong(1)[OF puts_flags[OF D]]
  have "touches b d {t}" using puts_trans[OF C D] by (simp add: puts_def)
  with B have "touches db d {t, i}" unfolding puts_def by (blast intro: touches_trans)
  with E show "touches db (chunk_state db t i bs) {t, i}" unfolding e puts_def by (blast intro: touches_trans)
  show "sb (chunk_state db t i bs) = sb db" using B C D E unfolding e by (simp add: puts_def)
  show "db_slot (chunk_state db t i bs) i = seal db i ((db_slot db i)\<lparr>payload := pad48 bs\<rparr>)"
    "db_slot (chunk_state db t i bs) t = seal db t ((db_slot db t)\<lparr>next_offset := ef_slot_to_offset db i\<rparr>)"
    using ti unfolding e by (auto simp: puts_slot[OF E] puts_slot[OF D] puts_slot[OF C] puts_slot[OF B] fl puts_offset[OF B])
qed

end
