(* ===== verification/Blob_Props.thy ===== *)
theory Blob_Props
  imports Blob_Chain
begin

text \<open>
  Writing a blob and reading it back: the writing loop builds a chain of overflow slots from the
  free list, and the reading loop returns the bytes stored in it.
\<close>

subsection \<open>The writing loop\<close>

definition overflow_slots :: "nat \<Rightarrow> nat" where
  "overflow_slots n = (n + 47) div 48"

fun blob_chain :: "ef_db \<Rightarrow> u64 \<Rightarrow> u64 list \<Rightarrow> u8 list \<Rightarrow> bool" where
  "blob_chain db off [] bs \<longleftrightarrow> off = 0 \<and> bs = []"
| "blob_chain db off (i # is) bs \<longleftrightarrow>
     i < max_slots (sb db) \<and> off = ef_slot_to_offset db i \<and> status (db_slot db i) = EF_STATUS_OVERFLOW \<and>
     sealed db i \<and> bs \<noteq> [] \<and> payload (db_slot db i) = pad48 (take 48 bs) \<and>
     blob_chain db (next_offset (db_slot db i)) is (drop 48 bs)"

lemma append_step:
  assumes q: "quiet db" and inv: "free_list_inv db (i # ids)" and crc: "crc_ok db i fresh_slot"
    and t: "t \<notin> set (i # ids)" and src: "src \<noteq> []"
  obtains d where
    "blob_append env h hp t (db_slot_ptr db t) src db = blob_append env h hp i (db_slot_ptr d i) (drop 48 src) d"
    "touches db d {t, i}" "quiet d" "free_list_inv d ids" "same_sb db d"
    "status (db_slot d t) = status (db_slot db t)" "payload (db_slot d t) = payload (db_slot db t)"
    "next_offset (db_slot d t) = ef_slot_to_offset db i" "sealed d t"
    "status (db_slot d i) = EF_STATUS_OVERFLOW" "next_offset (db_slot d i) = 0" "sealed d i"
    "payload (db_slot d i) = pad48 (take 48 src)"
proof -
  obtain a where A: "ef_alloc_overflow_slot env db = (Inr (i, db_slot_ptr db i), a)" "touches db a {i}"
    "quiet a" "free_list_inv a ids"
    "sb a = (sb db)\<lparr>free_list_head := next_offset (db_slot db i), free_count := free_count (sb db) - 1\<rparr>"
    "status (db_slot a i) = EF_STATUS_OVERFLOW" "next_offset (db_slot a i) = 0"
    by (rule alloc_overflow_ok[OF q inv crc])
  have i: "i \<notin> set ids" using free_list_inv_head(5)[OF inv] by simp
  have ti: "t \<noteq> i" using t by simp
  have wfa: "wf_layout a" and va: "EF_SCHEMA_VERSION \<le> schema_version (sb a)" "mapped a"
    and vd: "EF_SCHEMA_VERSION \<le> schema_version (sb db)" "mapped db"
    using A(3) q quiet_wf[OF A(3)] quiet_wf[OF q] by (simp_all add: quiet_def)
  define d where "d = chunk_state a t i (take 48 src)"
  have len: "length (take 48 src) \<le> 48" by simp
  note F = chunk_state_facts[OF wfa len ti, folded d_def]
  have ptr: "slots_base a = slots_base db" using touches_layout[OF A(2)] by (simp add: same_layout_def)
  have ptrd: "slots_base d = slots_base a" using touches_layout[OF F(1)] by (simp add: same_layout_def)
  have off: "ef_slot_to_offset a = ef_slot_to_offset db" by (rule same_layout_offset[OF touches_layout[OF A(2)]])
  have st: "db_slot a t = db_slot db t" using ti by (intro touches_slot[OF A(2)]) simp
  have min: "min (length src) 48 = length (take 48 src)" by simp
  have run: "blob_append env h hp t (db_slot_ptr db t) src db = blob_append env h hp i (db_slot_ptr d i) (drop 48 src) d"
    using src A(1) by (subst blob_append.simps, cases "length src < 48")
     (simp_all add: ef_blob_overflow_chunk_cap_def v5_payload[OF va] v5_payload[OF vd] Let_def ptr ptrd min_def d_def chunk_state_def)
  have "touches db d {t, i}" by (rule touches_trans[OF A(2) F(1)]) simp_all
  moreover have "same_sb db d" using A(5) F(2) unfolding same_sb_def by auto
  moreover have "quiet d" using A(3) by (subst quiet_cong[OF F(1)]) (simp_all add: F(2))
  moreover have "free_list_inv d ids"
    using A(4) i t by (subst free_list_inv_touches[OF F(1)]) (simp_all add: F(2))
  moreover have "seal d = seal a" by (rule flags_cong(1)) (simp add: F(2))
  ultimately show thesis using that[OF run] F(3,4) A(6,7) by (simp add: sealed_def st off)
qed

lemma overflow_slots_step: "src \<noteq> [] \<Longrightarrow> overflow_slots (length src) = Suc (overflow_slots (length (drop 48 src)))"
proof -
  assume "src \<noteq> []"
  then have "0 < length src" by simp
  then show ?thesis unfolding overflow_slots_def by (cases "length src \<le> 48") (simp_all add: div_eq_dividend_iff div_if)
qed

definition appended :: "ef_db \<Rightarrow> ef_db \<Rightarrow> u64 \<Rightarrow> u64 list \<Rightarrow> u64 list \<Rightarrow> u8 list \<Rightarrow> bool" where
  "appended db db' t used ids src \<longleftrightarrow>
     touches db db' (insert t (set used)) \<and> quiet db' \<and> free_list_inv db' ids \<and> same_sb db db' \<and>
     status (db_slot db' t) = status (db_slot db t) \<and> payload (db_slot db' t) = payload (db_slot db t) \<and>
     blob_chain db' (next_offset (db_slot db' t)) used src \<and> (sealed db t \<longrightarrow> sealed db' t)"

lemma take_pad48: "take (length bs) (pad48 (take 48 bs)) = take 48 bs"
  by (simp add: pad48_def min_def)

lemma appended_step:
  assumes d: "touches db d {t, i}" "same_sb db d"
    "status (db_slot d t) = status (db_slot db t)" "payload (db_slot d t) = payload (db_slot db t)"
    "next_offset (db_slot d t) = ef_slot_to_offset db i" "sealed d t"
    "status (db_slot d i) = EF_STATUS_OVERFLOW" "sealed d i" "payload (db_slot d i) = pad48 (take 48 src)"
    and i: "i < max_slots (sb db)" and t: "t \<noteq> i" "t \<notin> set used" and src: "src \<noteq> []"
    and a: "appended d db' i used ids (drop 48 src)"
  shows "appended db db' t (i # used) ids src"
proof -
  have td: "touches d db' (insert i (set used))" and ss: "same_sb d db'" using a by (simp_all add: appended_def)
  have tt: "touches db db' (insert t (set (i # used)))" by (rule touches_trans[OF d(1) td]) auto
  have slot: "db_slot db' t = db_slot d t" using t by (intro touches_slot[OF td]) simp
  have off: "ef_slot_to_offset db' = ef_slot_to_offset db" by (rule same_layout_offset[OF touches_layout[OF tt]])
  have max: "max_slots (sb db') = max_slots (sb db)" using touches_layout[OF tt] by (simp add: same_layout_def)
  have "sealed db' t" using d(6) sealed_cong[OF same_sb_fields(1)[OF ss] slot] by simp
  moreover have "payload (db_slot db' i) = pad48 (take 48 src)" using a d(9) by (simp add: appended_def)
  ultimately show ?thesis
    using a tt src i same_sb_trans[OF d(2) ss] d(3-8) unfolding appended_def by (simp add: slot off max)
qed

lemma blob_append_ok:
  assumes "quiet db" "free_list_inv db ids" "\<forall>j \<in> set (take (overflow_slots (length src)) ids). crc_ok db j fresh_slot" "t \<notin> set ids"
    "next_offset (db_slot db t) = 0" "overflow_slots (length src) \<le> length ids"
  shows "\<exists>db'. blob_append env h hp t (db_slot_ptr db t) src db = Some (EF_OK, db') \<and>
    appended db db' t (take (overflow_slots (length src)) ids) (drop (overflow_slots (length src)) ids) src"
  using assms
proof (induction ids arbitrary: db t src)
  case Nil
  then have "src = []" by (cases "src = []") (simp_all add: overflow_slots_step)
  then show ?case using Nil by (simp add: blob_append.simps appended_def overflow_slots_def touches_refl)
next
  case (Cons i ids)
  show ?case
  proof (cases "src = []")
    case True
    then show ?thesis using Cons.prems by (simp add: blob_append.simps appended_def overflow_slots_def touches_refl)
  next
    case False
    have crc: "crc_ok db i fresh_slot" using Cons.prems(3) by (simp add: overflow_slots_step[OF False])
    obtain d where d: "blob_append env h hp t (db_slot_ptr db t) src db = blob_append env h hp i (db_slot_ptr d i) (drop 48 src) d"
      "touches db d {t, i}" "quiet d" "free_list_inv d ids" "same_sb db d"
      "status (db_slot d t) = status (db_slot db t)" "payload (db_slot d t) = payload (db_slot db t)"
      "next_offset (db_slot d t) = ef_slot_to_offset db i" "sealed d t"
      "status (db_slot d i) = EF_STATUS_OVERFLOW" "next_offset (db_slot d i) = 0" "sealed d i"
      "payload (db_slot d i) = pad48 (take 48 src)"
      by (rule append_step[OF Cons.prems(1,2) crc Cons.prems(4) False, where env = env and h = h and hp = hp])
    have i: "i < max_slots (sb db)" "i \<notin> set ids" using free_list_inv_head(2,5)[OF Cons.prems(2)] by simp_all
    have "\<forall>j \<in> set (take (overflow_slots (length (drop 48 src))) ids). crc_ok d j fresh_slot"
      using Cons.prems(3) flags_cong(2)[OF same_sb_fields(1)[OF d(5)]] by (simp add: overflow_slots_step[OF False] del: length_drop)
    then obtain db' where IH: "blob_append env h hp i (db_slot_ptr d i) (drop 48 src) d = Some (EF_OK, db')"
      "appended d db' i (take (overflow_slots (length (drop 48 src))) ids)
         (drop (overflow_slots (length (drop 48 src))) ids) (drop 48 src)"
      using Cons.IH[OF d(3,4) _ i(2) d(11), of "drop 48 src"] Cons.prems(6) overflow_slots_step[OF False] by auto
    have "t \<noteq> i" "t \<notin> set (take (overflow_slots (length (drop 48 src))) ids)"
      using Cons.prems(4) in_set_takeD by fastforce+
    from appended_step[OF d(2,5-10,12,13) i(1) this False IH(2)] d(1) IH(1)
    show ?thesis by (simp add: overflow_slots_step[OF False] del: length_drop)
  qed
qed

subsection \<open>The reading loop\<close>

lemma payload_bytes: "n \<le> 48 \<Longrightarrow> load_bytes m (p + 8) n = take n (payload (slot_at m p))"
  by (intro nth_equalityI) (simp_all add: slot_at_def load_bytes_def)

lemma blob_chain_touches:
  assumes "touches db db' S" "flags (sb db') = flags (sb db)" "S \<inter> set is = {}"
  shows "blob_chain db' off is bs = blob_chain db off is bs"
  using assms(3)
proof (induction "is" arbitrary: off bs)
  case (Cons i "is")
  then have slot: "db_slot db' i = db_slot db i" by (intro touches_slot[OF assms(1)]) simp
  show ?case
    using Cons slot sealed_cong[OF assms(2) slot] touches_layout[OF assms(1)]
      same_layout_offset[OF touches_layout[OF assms(1)]] by (simp add: same_layout_def)
qed simp

lemma read_loop_ok:
  assumes "quiet db" "blob_chain db off is bs" "\<forall>i \<in> set is. crc_ok db i (db_slot db i)"
  shows "\<exists>db'. read_loop db (copied + length bs) cap off copied = (Inr (take (cap - copied) bs), db')"
  using assms
proof (induction "is" arbitrary: db off bs copied)
  case Nil
  then show ?case by (simp add: read_loop.simps)
next
  case (Cons i "is")
  have c: "i < max_slots (sb db)" "off = ef_slot_to_offset db i" "status (db_slot db i) = EF_STATUS_OVERFLOW" "sealed db i"
    "bs \<noteq> []" "take (length bs) (payload (db_slot db i)) = take 48 bs" "blob_chain db (next_offset (db_slot db i)) is (drop 48 bs)"
    using Cons.prems(2) take_pad48[of bs] by simp_all
  have wf: "wf_layout db" by (rule quiet_wf[OF Cons.prems(1)])
  have v: "EF_SCHEMA_VERSION \<le> schema_version (sb db)" "mapped db" using Cons.prems(1) wf by (simp_all add: quiet_def)
  let ?e = "ef_set_error db EF_OK"
  have get: "ef_get_slot db i = (Some (db_slot_ptr db i), ?e)"
    using c(1,4) v(2) Cons.prems(3) by (intro get_slot_ok sealed_valid) simp_all
  have te: "touches db ?e {}" by (rule touches_error)
  have crc_e: "\<forall>j \<in> set is. crc_ok ?e j (db_slot ?e j)" using Cons.prems(3) flags_cong(2)[of ?e db] by simp
  define n where "n = min (min (length bs) 48) (cap - copied)"
  have n: "n \<le> 48" by (simp add: n_def)
  have pay: "take n (payload (db_slot db i)) = take n bs"
    using arg_cong[OF c(6), of "take n"] by (simp add: n_def min_def split: if_splits)
  show ?case
  proof (cases "copied < cap")
    case False
    then show ?thesis by (simp add: read_loop.simps)
  next
    case True
    have IH: "\<exists>db'. read_loop ?e (copied + n + length (drop n bs)) cap (next_offset (db_slot db i)) (copied + n) =
        (Inr (take (cap - (copied + n)) (drop n bs)), db')"
    proof (cases "n = min (length bs) 48")
      case True
      then have "drop n bs = drop 48 bs" by (simp add: min_def)
      moreover have "quiet ?e" using Cons.prems(1) quiet_cong[OF te] by simp
      moreover have "blob_chain ?e (next_offset (db_slot db i)) is (drop 48 bs)" using c(7) blob_chain_touches[OF te] by simp
      ultimately show ?thesis
        using Cons.IH[of ?e "next_offset (db_slot db i)" "drop 48 bs" "copied + n"] crc_e by simp
    next
      case False
      then have "\<not> copied + n < cap" by (simp add: n_def min_def split: if_splits)
      then show ?thesis by (simp add: read_loop.simps)
    qed
    then obtain db' where IH': "read_loop ?e (copied + length bs) cap (next_offset (db_slot db i)) (copied + n) =
        (Inr (take (cap - (copied + n)) (drop n bs)), db')"
      by (auto simp: n_def)
    have "take n bs @ take (cap - (copied + n)) (drop n bs) = take (cap - copied) bs"
      by (simp add: take_add[symmetric] n_def) (simp add: min_def)
    then show ?thesis
      using True c(5) IH' get slot_offset_neq_0[OF wf c(1)] offset_to_slot_id_roundtrip[OF wf c(1)] pay c(3)
      by (subst read_loop.simps)
         (simp add: c(2) ef_blob_overflow_chunk_cap_def v5_payload[OF v] Let_def payload_bytes[OF n] n_def[symmetric])
  qed
qed

subsection \<open>The head slot\<close>

definition head_payload :: "u8 list \<Rightarrow> u8 list \<Rightarrow> bool" where
  "head_payload pl data \<longleftrightarrow>
     take 4 pl = le_bytes 4 EF_BLOB_MAGIC \<and> take 4 (drop 4 pl) = le_bytes 4 (of_nat (length data) :: u32) \<and>
     take (min (length data) 40) (drop 8 pl) = take 40 data"

lemma head_write:
  fixes db :: ef_db and i :: u64 and data :: "u8 list"
  assumes q: "quiet db"
  defines "p \<equiv> db_slot_ptr db i"
  defines "h \<equiv> blob_header_write db p EF_BLOB_MAGIC (of_nat (length data))"
  defines "g \<equiv> (if 0 < length data then upd_mem (\<lambda>m. store_bytes m (ef_slot_payload_ptr h p + EF_BLOB_HDR_SIZE)
              (take (min (length data) 40) data)) h else h)"
  obtains pl where "puts db g i ((db_slot db i)\<lparr>payload := pl\<rparr>)" "head_payload pl data"
proof -
  have wf: "wf_layout db" and v: "EF_SCHEMA_VERSION \<le> schema_version (sb db)" "mapped db"
    using q quiet_wf[OF q] by (simp_all add: quiet_def)
  let ?w = "le_bytes 4 EF_BLOB_MAGIC" and ?l = "le_bytes 4 (of_nat (length data) :: u32)" and ?o = "payload (db_slot db i)"
  define a where "a = db\<lparr>mem := store_bytes (mem db) (p + 8) ?w\<rparr>"
  have A: "puts db a i ((db_slot db i)\<lparr>payload := overwrite ?o 0 ?w\<rparr>)"
    using puts_payload[OF wf, of 0 ?w i] by (simp add: p_def a_def)
  have h: "h = a\<lparr>mem := store_bytes (mem a) (p + (8 + 4)) ?l\<rparr>"
    by (simp add: h_def a_def blob_header_write_def Let_def v5_payload[OF v] EF_BLOB_LEN_SIZE_def store_u32_def add.commute)
  have H: "puts db h i ((db_slot db i)\<lparr>payload := overwrite (overwrite ?o 0 ?w) 4 ?l\<rparr>)"
    using puts_trans[OF A puts_payload[OF puts_wf[OF A wf], of 4 ?l i]]
    unfolding h p_def by (simp add: puts_ptr[OF A] puts_slot'[OF A])
  have vh: "EF_SCHEMA_VERSION \<le> schema_version (sb h)" "mapped h"
    using H puts_wf[OF H wf] v by (simp_all add: puts_def)
  let ?d = "take (min (length data) 40) data"
  have G: "puts db g i ((db_slot db i)\<lparr>payload := overwrite (overwrite (overwrite ?o 0 ?w) 4 ?l) 8 ?d\<rparr>)"
  proof (cases "data = []")
    case True
    then show ?thesis using H by (simp add: g_def overwrite_def)
  next
    case False
    have "8 + length ?d \<le> 48" by simp
    from puts_trans[OF H puts_payload[OF puts_wf[OF H wf] this, of i]] False
    show ?thesis
      by (simp add: g_def v5_payload[OF vh] EF_BLOB_HDR_SIZE_def p_def puts_ptr[OF H] puts_slot'[OF H] add.assoc)
  qed
  moreover have "head_payload (overwrite (overwrite (overwrite ?o 0 ?w) 4 ?l) 8 ?d) data"
  proof -
    have "length ?o = 48" by simp
    then show ?thesis unfolding head_payload_def overwrite_def by (simp add: min_def take_Cons' drop_Cons')
  qed
  ultimately show thesis by (rule that)
qed

subsection \<open>Write and read\<close>

text \<open>
  Slot \<open>i\<close> is in use, with the old overflow chain \<open>ovs\<close>; old chain and free list together hold enough
  slots for \<open>n\<close> bytes, and no checksum that is verified while writing has the reserved value 0.
\<close>

definition blob_writable :: "ef_db \<Rightarrow> u64 \<Rightarrow> u64 list \<Rightarrow> u64 list \<Rightarrow> nat \<Rightarrow> bool" where
  "blob_writable db i ovs ids n \<longleftrightarrow>
     freeable db i ovs ids \<and> ef_slot_header_crc_valid db i (db_slot db i) \<and>
     crc_ok db i ((db_slot db i)\<lparr>next_offset := 0\<rparr>) \<and> (\<forall>j \<in> set (take (overflow_slots (n - 40)) (rev ovs @ ids)). crc_ok db j fresh_slot) \<and>
     n < 2 ^ 32 \<and> overflow_slots (n - 40) \<le> length (ovs @ ids)"

text \<open>The blob with head slot \<open>i\<close> and overflow slots \<open>used\<close> holds the bytes \<open>data\<close>.\<close>

definition blob_at :: "ef_db \<Rightarrow> u64 \<Rightarrow> u64 list \<Rightarrow> u8 list \<Rightarrow> bool" where
  "blob_at db i used data \<longleftrightarrow>
     i < max_slots (sb db) \<and> status (db_slot db i) = EF_STATUS_USED \<and> sealed db i \<and>
     head_payload (payload (db_slot db i)) data \<and> blob_chain db (next_offset (db_slot db i)) used (drop 40 data)"

lemma v5_blob:
  assumes "quiet db"
  shows "ef_blob_inline_capacity db = 40" "ef_blob_overflow_chunk_cap db = 48" "ef_slot_payload_ptr db p = p + 8"
  using assms v5_payload[of db] quiet_wf[OF assms]
  by (simp_all add: quiet_def ef_blob_inline_capacity_def ef_blob_overflow_chunk_cap_def EF_BLOB_HDR_SIZE_def)

lemma finish_write:
  assumes "appended g d i used pool (drop 40 data)" "head_payload (payload (db_slot g i)) data"
    "i < max_slots (sb g)" "i \<notin> set used" "i \<notin> set pool"
  defines "s \<equiv> ef_slot_status_store d (db_slot_ptr d i) EF_STATUS_USED"
  defines "r \<equiv> ef_set_error (ef_slot_header_crc_store s i (db_slot_ptr s i)) EF_OK"
  shows "touches g r (set (i # used))" "quiet r" "free_list_inv r pool" "same_sb g r" "blob_at r i used data"
proof -
  have a: "touches g d (set (i # used))" "quiet d" "free_list_inv d pool" "same_sb g d"
    "payload (db_slot d i) = payload (db_slot g i)" "blob_chain d (next_offset (db_slot d i)) used (drop 40 data)"
    using assms(1) by (simp_all add: appended_def)
  have wf: "wf_layout d" by (rule quiet_wf[OF a(2)])
  have S: "puts d s i ((db_slot d i)\<lparr>status := EF_STATUS_USED\<rparr>)" unfolding s_def by (rule puts_status[OF wf])
  have R: "puts d r i (seal s i (db_slot s i))"
    unfolding r_def by (rule puts_error[OF puts_trans[OF S puts_crc[OF puts_wf[OF S wf]]]])
  have tr: "touches d r {i}" and sbr: "sb r = sb d" using R by (simp_all add: puts_def)
  show "touches g r (set (i # used))" by (rule touches_trans[OF a(1) tr]) auto
  show "quiet r" "free_list_inv r pool" using a(2,3) puts_quiet[OF R] puts_free[OF R] assms(5) by simp_all
  show "same_sb g r" by (rule same_sb_trans[OF a(4) same_sb_eq[OF sbr]])
  have slot: "db_slot r i = seal r i ((db_slot d i)\<lparr>status := EF_STATUS_USED\<rparr>)"
    by (simp add: puts_slot[OF R] puts_slot[OF S] flags_cong(1)[OF puts_flags[OF S]] flags_cong(1)[OF puts_flags[OF R]])
  have "blob_chain r (next_offset (db_slot d i)) used (drop 40 data)"
    using a(6) assms(4) by (subst blob_chain_touches[OF tr]) (simp_all add: sbr)
  moreover have "max_slots (sb r) = max_slots (sb g)" using touches_layout[OF a(1)] by (simp add: sbr same_layout_def)
  ultimately show "blob_at r i used data"
    using assms(2,3) a(5) by (simp add: blob_at_def sealed_def slot)
qed

text \<open>The old chain is released and the head slot is looked up again.\<close>

lemma blob_released:
  assumes w: "blob_writable db i ovs ids n"
  obtains e where "ef_blob_release_chain env (ef_set_error db EF_OK) i (db_slot_ptr db i) = Some (EF_OK, e)"
    "ef_get_slot e i = (Some (db_slot_ptr db i), ef_set_error e EF_OK)"
    "touches db e (set (i # ovs))" "quiet e" "free_list_inv e (rev ovs @ ids)" "same_sb db e"
    "next_offset (db_slot e i) = 0" "status (db_slot e i) = EF_STATUS_USED"
proof -
  have f: "freeable db i ovs ids" and unl: "crc_ok db i ((db_slot db i)\<lparr>next_offset := 0\<rparr>)"
    and i: "i < max_slots (sb db)" and st: "status (db_slot db i) = EF_STATUS_USED"
    using w by (simp_all add: blob_writable_def freeable_def)
  define b where "b = ef_set_error db EF_OK"
  have tb: "touches db b {}" unfolding b_def by (rule touches_error)
  have "freeable b i ovs ids" using f by (simp add: b_def freeable_error)
  then obtain e where e: "ef_blob_release_chain env b i (db_slot_ptr b i) = Some (EF_OK, e)"
    "touches b e (set (i # ovs))" "quiet e" "free_list_inv e (rev ovs @ ids)" "same_sb b e"
    "db_slot e i = seal b i ((db_slot b i)\<lparr>next_offset := 0\<rparr>)"
    by (rule release_chain_ok[where env = env])
  have ss: "same_sb db e" using same_sb_trans[OF same_sb_eq e(5), of db] by (simp add: b_def)
  note fle = same_sb_fields(1)[OF ss]
  have te: "touches db e (set (i # ovs))" by (rule touches_trans[OF tb e(2)]) simp_all
  have se: "db_slot e i = seal e i ((db_slot db i)\<lparr>next_offset := 0\<rparr>)"
    using e(6) flags_cong(1)[of b db] flags_cong(1)[OF fle] by (simp add: b_def)
  have "sealed e i" "crc_ok e i (db_slot e i)" unfolding sealed_def se using unl flags_cong(2)[OF fle] by simp_all
  then have "ef_get_slot e i = (Some (db_slot_ptr e i), ef_set_error e EF_OK)"
    using i quiet_wf[OF e(3)] touches_layout[OF te] by (intro get_slot_ok sealed_valid) (simp_all add: same_layout_def)
  moreover have "slots_base e = slots_base db" using touches_layout[OF te] by (simp add: same_layout_def)
  ultimately show thesis using that[of e] e(1,3,4) te ss se st by (simp add: b_def)
qed

lemma write_prefix:
  assumes w: "blob_writable db i ovs ids (length data)"
  obtains g where
    "ef_write_blob env db i (Some data) (length data) =
       (case blob_append env i (db_slot_ptr db i) i (db_slot_ptr db i) (drop 40 data) g of
          None \<Rightarrow> None
        | Some (err, d) \<Rightarrow>
            if err \<noteq> EF_OK then Some (err, d)
            else Some (EF_OK, ef_set_error (ef_slot_header_crc_store
                   (ef_slot_status_store d (db_slot_ptr db i) EF_STATUS_USED) i (db_slot_ptr db i)) EF_OK))"
    "touches db g (set (i # ovs))" "quiet g" "free_list_inv g (rev ovs @ ids)" "same_sb db g"
    "next_offset (db_slot g i) = 0" "head_payload (payload (db_slot g i)) data"
proof -
  have val: "ef_slot_header_crc_valid db i (db_slot db i)" and len: "length data < 2 ^ 32" and q: "quiet db"
    and i: "i < max_slots (sb db)" "i \<notin> set (rev ovs @ ids)" and st: "status (db_slot db i) = EF_STATUS_USED"
    using w by (simp_all add: blob_writable_def freeable_def)
  have vd: "mapped db" "\<not> readonly db" using q quiet_wf[OF q] by (simp_all add: quiet_def)
  note get = get_slot_ok[OF vd(1) i(1) val]
  obtain e where e: "ef_blob_release_chain env (ef_set_error db EF_OK) i (db_slot_ptr db i) = Some (EF_OK, e)"
    "ef_get_slot e i = (Some (db_slot_ptr db i), ef_set_error e EF_OK)"
    "touches db e (set (i # ovs))" "quiet e" "free_list_inv e (rev ovs @ ids)" "same_sb db e"
    "next_offset (db_slot e i) = 0" "status (db_slot e i) = EF_STATUS_USED"
    by (rule blob_released[OF w, where env = env])
  define c where "c = ef_set_error e EF_OK"
  have tc: "touches e c {}" unfolding c_def by (rule touches_error)
  have qc: "quiet c" using e(4) quiet_cong[OF tc] by (simp add: c_def)
  have pc: "slots_base c = slots_base db" using touches_layout[OF e(3)] by (simp add: c_def same_layout_def)
  define h where "h = blob_header_write c (db_slot_ptr c i) EF_BLOB_MAGIC (of_nat (length data))"
  define g where "g = (if 0 < length data then upd_mem (\<lambda>m. store_bytes m (ef_slot_payload_ptr h (db_slot_ptr c i) + EF_BLOB_HDR_SIZE)
              (take (min (length data) 40) data)) h else h)"
  obtain pl where G: "puts c g i ((db_slot c i)\<lparr>payload := pl\<rparr>)" and pl: "head_payload pl data"
    unfolding g_def h_def by (rule head_write[OF qc])
  have pg: "slots_base g = slots_base c" using G touches_layout[of c g "{i}"] by (simp add: puts_def same_layout_def)
  have act: "\<not> txn_active db" "\<not> txn_active e" "\<not> txn_active c" using q e(4) qc by (simp_all add: quiet_def)
  have run: "ef_write_blob env db i (Some data) (length data) =
       (case blob_append env i (db_slot_ptr db i) i (db_slot_ptr db i) (drop 40 data) g of
          None \<Rightarrow> None
        | Some (err, d) \<Rightarrow>
            if err \<noteq> EF_OK then Some (err, d)
            else Some (EF_OK, ef_set_error (ef_slot_header_crc_store
                   (ef_slot_status_store d (db_slot_ptr db i) EF_STATUS_USED) i (db_slot_ptr db i)) EF_OK))"
    unfolding ef_write_blob_def Let_def using len get e(1,2) st act vd v5_blob[OF q]
    by (cases "data = []")
      (simp_all add: ef_db_require_write_def ef_status_defs ef_txn_active_def c_def[symmetric] pg pc g_def h_def min_def)
  have te: "touches db c (set (i # ovs))" by (rule touches_trans[OF e(3) tc]) simp_all
  have "touches db g (set (i # ovs))" by (rule touches_trans[OF te]) (use G in \<open>auto simp: puts_def\<close>)
  moreover have "quiet g" using qc puts_quiet[OF G] by simp
  moreover have "free_list_inv g (rev ovs @ ids)"
    using e(5) i(2) puts_free[OF G] free_list_inv_touches[OF tc] by (simp add: c_def)
  moreover have "same_sb db g" using G same_sb_trans[OF e(6) same_sb_eq, of g] by (simp add: puts_def c_def)
  moreover have "next_offset (db_slot g i) = 0" using e(7) by (simp add: puts_slot[OF G]) (simp add: c_def)
  moreover have "head_payload (payload (db_slot g i)) data" using pl by (simp add: puts_slot[OF G])
  ultimately show thesis using that[OF run] by blast
qed

lemma write_blob_ok:
  fixes data :: "u8 list" and ovs ids :: "u64 list"
  assumes w: "blob_writable db i ovs ids (length data)"
  defines "k \<equiv> overflow_slots (length data - 40)"
  obtains db' where "ef_write_blob env db i (Some data) (length data) = Some (EF_OK, db')"
    "touches db db' (set (i # ovs @ take k (rev ovs @ ids)))" "quiet db'" "same_sb db db'"
    "free_list_inv db' (drop k (rev ovs @ ids))" "blob_at db' i (take k (rev ovs @ ids)) data"
proof -
  let ?pool = "rev ovs @ ids"
  have i: "i < max_slots (sb db)" "i \<notin> set ?pool" and room: "overflow_slots (length (drop 40 data)) \<le> length ?pool"
    using w by (simp_all add: blob_writable_def freeable_def)
  obtain g where g: "ef_write_blob env db i (Some data) (length data) =
       (case blob_append env i (db_slot_ptr db i) i (db_slot_ptr db i) (drop 40 data) g of
          None \<Rightarrow> None
        | Some (err, d) \<Rightarrow>
            if err \<noteq> EF_OK then Some (err, d)
            else Some (EF_OK, ef_set_error (ef_slot_header_crc_store
                   (ef_slot_status_store d (db_slot_ptr db i) EF_STATUS_USED) i (db_slot_ptr db i)) EF_OK))"
    and tg: "touches db g (set (i # ovs))" and qg: "quiet g" and fg: "free_list_inv g ?pool" and sg: "same_sb db g"
    and hg: "next_offset (db_slot g i) = 0" "head_payload (payload (db_slot g i)) data"
    by (rule write_prefix[OF w, where env = env])
  have crc: "\<forall>j \<in> set (take (overflow_slots (length (drop 40 data))) ?pool). crc_ok g j fresh_slot"
    using w flags_cong(2)[OF same_sb_fields(1)[OF sg]] by (auto simp: blob_writable_def)
  have base: "slots_base g = slots_base db" "i < max_slots (sb g)" using i(1) touches_layout[OF tg] by (simp_all add: same_layout_def)
  from blob_append_ok[OF qg fg crc i(2) hg(1) room, of env i "db_slot_ptr db i"] obtain d where
    D: "blob_append env i (db_slot_ptr db i) i (db_slot_ptr db i) (drop 40 data) g = Some (EF_OK, d)"
      "appended g d i (take k ?pool) (drop k ?pool) (drop 40 data)"
    by (auto simp: k_def base)
  have out: "i \<notin> set (take k ?pool)" "i \<notin> set (drop k ?pool)" using i(2) by (meson in_set_takeD in_set_dropD)+
  let ?s = "ef_slot_status_store d (db_slot_ptr d i) EF_STATUS_USED"
  let ?r = "ef_set_error (ef_slot_header_crc_store ?s i (db_slot_ptr ?s i)) EF_OK"
  note F = finish_write[OF D(2) hg(2) base(2) out]
  have "slots_base d = slots_base db" using D(2) touches_layout[of g d] base(1) unfolding appended_def same_layout_def by auto
  then have "ef_write_blob env db i (Some data) (length data) = Some (EF_OK, ?r)"
    using g D(1) by (simp add: ef_slot_status_store_def)
  moreover have "touches db ?r (set (i # ovs @ take k ?pool))" by (rule touches_trans[OF tg F(1)]) auto
  ultimately show thesis using that[OF _ _ F(2) same_sb_trans[OF sg F(4)] F(3,5)] by blast
qed

lemma payload_bytes_at: "k + n \<le> 48 \<Longrightarrow> load_bytes m (p + 8 + k) n = take n (drop k (payload (slot_at m p)))"
  by (intro nth_equalityI) (simp_all add: slot_at_def load_bytes_def ac_simps)

lemma read_blob_ok:
  assumes b: "blob_at db i used data" and q: "quiet db" and len: "length data < 2 ^ 32"
    and crc: "\<forall>j \<in> set (i # used). crc_ok db j (db_slot db j)"
  shows "fst (ef_read_blob db i (Some cap)) = Inr (length data, take cap data)"
proof -
  have i: "i < max_slots (sb db)" and st: "status (db_slot db i) = EF_STATUS_USED" and se: "sealed db i"
    and pl: "head_payload (payload (db_slot db i)) data" and ch: "blob_chain db (next_offset (db_slot db i)) used (drop 40 data)"
    using b by (simp_all add: blob_at_def)
  have m: "mapped db" using quiet_wf[OF q] by simp
  let ?e = "ef_set_error db EF_OK" and ?p = "db_slot_ptr db i"
  have get: "ef_get_slot db i = (Some ?p, ?e)" using crc by (intro get_slot_ok[OF m i] sealed_valid[OF se]) simp
  have te: "touches db ?e {}" by (rule touches_error)
  have qe: "quiet ?e" using q quiet_cong[OF te] by simp
  have magic: "load_u32 (mem db) (?p + 8) = EF_BLOB_MAGIC"
    using pl payload_bytes[of 4 "mem db" ?p] by (simp add: load_u32_def head_payload_def)
  have "load_u32 (mem db) (?p + 8 + 4) = of_nat (length data)"
    using pl payload_bytes_at[of 4 4 "mem db" ?p] by (simp add: load_u32_def head_payload_def)
  then have need: "unat (ef_blob_read_len ?e ?p) = length data"
    using len magic v5_blob(3)[OF qe] by (simp add: ef_blob_read_len_def ef_blob_magic_valid_def EF_BLOB_LEN_SIZE_def unat_of_nat Let_def)
  define n where "n = min (min (length data) 40) cap"
  have inl: "load_bytes (mem db) (?p + 8 + 8) n = take n data"
  proof -
    have "take n (take (min (length data) 40) (drop 8 (payload (db_slot db i)))) = take n (take 40 data)"
      using pl by (simp only: head_payload_def)
    then have "take n (drop 8 (payload (db_slot db i))) = take n data" by (simp add: n_def min_def split: if_splits)
    then show ?thesis by (subst payload_bytes_at) (simp_all add: n_def)
  qed
  have che: "blob_chain ?e (next_offset (db_slot db i)) used (drop 40 data)" using ch blob_chain_touches[OF te] by simp
  have crce: "\<forall>j \<in> set used. crc_ok ?e j (db_slot ?e j)" using crc flags_cong(2)[of ?e db] by simp
  obtain db' where loop: "read_loop ?e (length data) cap (next_offset (db_slot db i)) n = (Inr (take (cap - n) (drop n data)), db')"
  proof (cases "cap < length data \<and> cap < 40")
    case True
    then show thesis using that[of ?e] by (simp add: read_loop.simps n_def)
  next
    case False
    then have "drop n data = drop 40 data" "n + length (drop 40 data) = length data" by (auto simp: n_def min_def)
    with that read_loop_ok[OF qe che crce, of n cap] show thesis by auto
  qed
  have "take n data @ take (cap - n) (drop n data) = take cap data" by (simp add: take_add[symmetric] n_def)
  then show ?thesis
    using get st magic need loop inl v5_blob[OF qe]
    by (simp add: ef_read_blob_def ef_blob_magic_valid_def EF_BLOB_HDR_SIZE_def Let_def n_def[symmetric] ef_status_defs)
qed

subsection \<open>Properties\<close>

lemma sample_crc_ok: "crc_ok (snd (ef_alloc_slot sample_queue)) j s"
proof -
  have q: "quiet sample_queue" using sample_queue_unused by (simp add: queue_unused_def)
  have run: "ef_alloc_slot_ex sample_queue EF_ALLOC_ZERO_PAYLOAD = (fst (ef_alloc_slot sample_queue), snd (ef_alloc_slot sample_queue))"
    by (simp add: ef_alloc_slot_def)
  show ?thesis using alloc_slot_ok(5)[OF q sample_queue_free run] by (simp add: sb_sample_queue crc_ok_def)
qed

lemma sample_blob_writable: "blob_writable (snd (ef_alloc_slot sample_queue)) 0 [] [1, 2] (length (replicate 100 7))"
  using sample_freeable sample_crc_ok unfolding blob_writable_def by (simp add: overflow_slots_def)

text \<open>
  C10: a blob that fits in the old chain of its slot and the free list together is written, and
  reading it back gives its length and, for every buffer size, as many of its bytes as fit. The
  new chain is taken from the front of the free list after the old chain has gone back to it, the
  rest of the list stays, and no slot outside the two chains changes. Reading needs every slot of
  the blob to have a checksum other than 0, the value that stands for a missing one.
\<close>

theorem blob_write_then_read:
  assumes "blob_writable db i ovs ids (length data)" "k = overflow_slots (length data - 40)" "used = take k (rev ovs @ ids)"
  shows "\<exists>db'. ef_write_blob env db i (Some data) (length data) = Some (EF_OK, db') \<and>
    free_list_inv db' (drop k (rev ovs @ ids)) \<and>
    (\<forall>j. j \<notin> set (i # ovs @ used) \<longrightarrow> db_slot db' j = db_slot db j) \<and>
    ((\<forall>j \<in> set (i # used). crc_ok db j (db_slot db' j)) \<longrightarrow>
      (\<forall>cap. fst (ef_read_blob db' i (Some cap)) = Inr (length data, take cap data)))"
proof -
  obtain db' where w: "ef_write_blob env db i (Some data) (length data) = Some (EF_OK, db')"
    "touches db db' (set (i # ovs @ used))" "quiet db'" "same_sb db db'"
    "free_list_inv db' (drop k (rev ovs @ ids))" "blob_at db' i used data"
    unfolding assms(2,3) by (rule write_blob_ok[OF assms(1)])
  have "length data < 2 ^ 32" using assms(1) by (simp add: blob_writable_def)
  with w show ?thesis by (intro exI[of _ db']) (simp add: read_blob_ok[OF w(6,3)] touches_slot[OF w(2)] flags_cong(2)[OF same_sb_fields(1)[OF w(4)]])
qed

theorem blob_write_then_read_witness:
  "\<forall>env. \<exists>db'. ef_write_blob env (snd (ef_alloc_slot sample_queue)) 0 (Some (replicate 100 7)) 100 = Some (EF_OK, db') \<and>
     fst (ef_read_blob db' 0 (Some 70)) = Inr (100, replicate 70 7)"
proof
  fix env
  obtain db' where "ef_write_blob env (snd (ef_alloc_slot sample_queue)) 0 (Some (replicate 100 7)) 100 = Some (EF_OK, db')"
    "\<forall>cap. fst (ef_read_blob db' 0 (Some cap)) = Inr (length (replicate 100 (7 :: u8)), take cap (replicate 100 7))"
    using blob_write_then_read[OF sample_blob_writable refl refl, of env] sample_crc_ok by auto
  then show "\<exists>db'. ef_write_blob env (snd (ef_alloc_slot sample_queue)) 0 (Some (replicate 100 7)) 100 = Some (EF_OK, db') \<and>
     fst (ef_read_blob db' 0 (Some 70)) = Inr (100, replicate 70 7)"
    by (intro exI[of _ db']) simp
qed

end
