(* ===== verification/Rehash_Move.thy ===== *)
theory Rehash_Move
  imports Open_Props
begin

text \<open>
  The first half of a rehash: the slot area is moved behind the new table, every stored offset is
  shifted by the same amount and the table is cleared. \<open>shifted\<close> relates the handle before and
  after; a chain of slots survives it.
\<close>

subsection \<open>Moving the slot area\<close>

lemma slot_at_mem_move:
  assumes "j < k"
  shows "slot_at (mem_move m b' b (64 * k)) (slot_ptr b' j) = slot_at m (slot_ptr b j)"
proof -
  have "load_bytes (mem_move m b' b (64 * k)) (slot_ptr b' j + o') n = load_bytes m (slot_ptr b j + o') n"
    if "o' + n \<le> 64" for o' n
    using that assms
    by (intro nth_equalityI) (auto simp: load_bytes_def mem_move_def slot_ptr_def EF_SLOT_SIZE_def intro!: arg_cong[where f = m])
  from this[of 0 4] this[of 4 4] this[of 8 48] this[of 56 8]
  show ?thesis by (simp add: slot_at_def word_loads)
qed

text \<open>The loop over the links.\<close>

definition fix_slot :: "u64 \<Rightarrow> u64 \<Rightarrow> ef_slot \<Rightarrow> ef_slot" where
  "fix_slot old_base new_base s = s\<lparr>next_offset := ef_index_fixup_offset (next_offset s) old_base new_base\<rparr>"

lemma fixup_fold:
  assumes "64 \<le> b" "0 < old_base"
  shows "slot_at (fold (fixup_next b old_base new_base) [0..<k] m) (slot_ptr b j) =
           (if j < k then fix_slot old_base new_base (slot_at m (slot_ptr b j)) else slot_at m (slot_ptr b j))"
    "sb_of (fold (fixup_next b old_base new_base) [0..<k] m) = sb_of m"
    "x < b \<Longrightarrow> fold (fixup_next b old_base new_base) [0..<k] m x = m x"
proof (induction k)
  case (Suc k)
  have p: "64 \<le> slot_ptr b k" using assms(1) slot_ptr_ge le_trans by blast
  case 1
  then show ?case
    using Suc(1) assms(2) by (auto simp: fixup_next_def fix_slot_def ef_index_fixup_offset_def Let_def not_le less_Suc_eq)
  case 2
  then show ?case using Suc(2) p by (simp add: fixup_next_def Let_def)
  case 3
  have "x < slot_ptr b k" using 3 slot_ptr_ge[of b k] by linarith
  then show ?case using Suc(3)[OF 3] by (simp add: fixup_next_def Let_def set_next_offset_def store_u64_def store_bytes_def)
qed simp_all

text \<open>Slots, superblock and layout of the handle before and after the move.\<close>

definition shifted :: "ef_db \<Rightarrow> ef_db \<Rightarrow> u32 \<Rightarrow> bool" where
  "shifted db d cap \<longleftrightarrow>
     wf_layout d \<and> hash_capacity d = cap \<and>
     (let fix = \<lambda>off. ef_index_fixup_offset off (slots_base db) (slots_base d) in
      sb d = (sb db)\<lparr>hash_cap16 := ucast cap, free_list_head := fix (free_list_head (sb db)),
                      queue_head := fix (queue_head (sb db)), queue_tail := fix (queue_tail (sb db))\<rparr>) \<and>
     (\<forall>j < max_slots (sb db). db_slot d j = fix_slot (slots_base db) (slots_base d) (db_slot db j)) \<and>
     readonly d = readonly db \<and> txn_active d = txn_active db \<and> index_seq d = index_seq db"

lemma index_slots_base_eq: "cap \<le> 0xFFFF \<Longrightarrow> unat (ef_index_slots_base cap) = 64 + 16 * unat cap"
proof -
  assume "cap \<le> 0xFFFF"
  then have "unat cap \<le> 0xFFFF" by (simp add: word_le_nat_alt)
  moreover from this have "unat (ucast cap * 16 :: u64) = 16 * unat cap"
    by (simp add: unat_word_ariths unsigned_ucast_eq take_bit_nat_eq_self)
  ultimately show ?thesis by (simp add: ef_index_slots_base_def unat_word_ariths)
qed

text \<open>A handle after the file has been resized: the bytes up to the old size are kept.\<close>

definition resized :: "ef_db \<Rightarrow> ef_db \<Rightarrow> u64 \<Rightarrow> bool" where
  "resized db d sz \<longleftrightarrow>
     (\<exists>m c. d = db\<lparr>mem := m, file_size := sz, map_capacity := c\<rparr> \<and> (\<forall>x < unat (file_size db). m x = mem db x))"

lemma resized_facts:
  assumes r: "resized db d sz" and wf: "wf_layout db"
  shows "sb d = sb db" "j < unat (max_slots (sb db)) \<Longrightarrow> slot_at (mem d) (slot_ptr (unat (slots_base db)) j) = slot_at (mem db) (slot_ptr (unat (slots_base db)) j)"
    "x < unat (file_size db) \<Longrightarrow> mem d x = mem db x"
proof -
  obtain m c where d: "d = db\<lparr>mem := m, file_size := sz, map_capacity := c\<rparr>" and m: "\<forall>x < unat (file_size db). m x = mem db x"
    using r unfolding resized_def by blast
  have fs: "slot_ptr (unat (slots_base db)) (unat (max_slots (sb db))) \<le> unat (file_size db)" by (rule wf_layout_end[OF wf])
  have "64 \<le> unat (file_size db)" using fs slot_ptr_ge[of "unat (slots_base db)"] wf_layout_base_ge[OF wf] le_trans by metis
  then show "sb d = sb db" using m by (simp add: d) (rule sb_of_cong, simp)
  show "x < unat (file_size db) \<Longrightarrow> mem d x = mem db x" using m by (simp add: d)
  assume "j < unat (max_slots (sb db))"
  from slot_ptr_less[OF this, of "unat (slots_base db)"]
  show "slot_at (mem d) (slot_ptr (unat (slots_base db)) j) = slot_at (mem db) (slot_ptr (unat (slots_base db)) j)"
    using m fs by (simp add: d) (rule slot_at_cong, simp)
qed

text \<open>The handle with the slot area moved and the new capacity stored and bound.\<close>

definition relocated :: "ef_db \<Rightarrow> u64 \<Rightarrow> u32 \<Rightarrow> ef_db" where
  "relocated db old_base cap =
     ef_index_bind_layout (upd_mem (\<lambda>m. ef_sb_hash_capacity_store m cap)
       (upd_mem (\<lambda>m. mem_move m (unat (ef_index_slots_base cap)) (unat old_base) (unat (max_slots (sb db) * 64))) db))"

definition moved :: "ef_db \<Rightarrow> u64 \<Rightarrow> u32 \<Rightarrow> ef_db" where
  "moved db old_base cap =
     upd_mem (\<lambda>m. mem_set m 64 0 (16 * unat cap))
       (ef_index_fixup_all_offsets (relocated db old_base cap) old_base (ef_index_slots_base cap))"

lemma relocated_facts:
  assumes wf: "wf_layout db" and r: "resized db d sz" and v: "EF_SCHEMA_VERSION \<le> schema_version (sb db)"
    and cap: "cap \<le> 0xFFFF" "cap \<noteq> 0" and fit: "64 * unat (max_slots (sb db)) < 2 ^ 64"
  defines "e \<equiv> relocated d (slots_base db) cap"
  shows "sb e = (sb db)\<lparr>hash_cap16 := ucast cap\<rparr>" "hash_capacity e = cap" "hash_index e = Some 64"
    "slots_base e = ef_index_slots_base cap" "mapped e" "file_size e = sz"
    "readonly e = readonly db" "txn_active e = txn_active db" "index_seq e = index_seq db"
    "j < unat (max_slots (sb db)) \<Longrightarrow> slot_at (mem e) (slot_ptr (unat (ef_index_slots_base cap)) j) =
       slot_at (mem db) (slot_ptr (unat (slots_base db)) j)"
proof -
  obtain m c where d: "d = db\<lparr>mem := m, file_size := sz, map_capacity := c\<rparr>"
    using r unfolding resized_def by blast
  note R = resized_facts[OF r wf]
  let ?b = "unat (ef_index_slots_base cap)"
  have b: "64 \<le> ?b" using index_slots_base_eq[OF cap(1)] by simp
  have n: "unat (max_slots (sb db) * 64) = 64 * unat (max_slots (sb db))" using fit by (simp add: unat_word_ariths)
  define m1 where "m1 = mem_move m ?b (unat (slots_base db)) (64 * unat (max_slots (sb db)))"
  define m2 where "m2 = ef_sb_hash_capacity_store m1 cap"
  have sb1: "sb_of m1 = sb db" using R(1) b by (simp add: m1_def d sb_of_mem_move)
  have min: "min cap 0xFFFF = cap" using cap(1) by (simp add: min_def)
  have sb2: "sb_of m2 = (sb db)\<lparr>hash_cap16 := ucast cap\<rparr>" by (simp add: m2_def ef_sb_hash_capacity_store_eq min sb1)
  have load: "ef_sb_hash_capacity_load m2 = cap"
    unfolding m2_def by (rule hash_capacity_load_store) (use cap v sb1 in \<open>simp_all add: ef_sb_uses_v4_index_layout_def\<close>)
  have e: "e = db\<lparr>mem := m2, file_size := sz, map_capacity := c, hash_capacity := cap, hash_index := Some 64,
      slots_base := ef_index_slots_base cap, hash_entry_count := count_entries m2 64 cap\<rparr>"
    using wf cap(2) load R(1) n
    by (simp add: e_def relocated_def ef_index_bind_layout_def Let_def d m1_def[symmetric] m2_def[symmetric] word_gt_0)
  show "sb e = (sb db)\<lparr>hash_cap16 := ucast cap\<rparr>" "hash_capacity e = cap" "hash_index e = Some 64"
    "slots_base e = ef_index_slots_base cap" "mapped e" "file_size e = sz"
    "readonly e = readonly db" "txn_active e = txn_active db" "index_seq e = index_seq db"
    using wf by (simp_all add: e sb2)
  assume j: "j < unat (max_slots (sb db))"
  have "64 \<le> slot_ptr ?b j" using b slot_ptr_ge le_trans by blast
  then have "slot_at m2 (slot_ptr ?b j) = slot_at m1 (slot_ptr ?b j)" by (simp add: m2_def ef_sb_hash_capacity_store_eq)
  also have "\<dots> = slot_at m (slot_ptr (unat (slots_base db)) j)" unfolding m1_def by (rule slot_at_mem_move[OF j])
  finally show "slot_at (mem e) (slot_ptr ?b j) = slot_at (mem db) (slot_ptr (unat (slots_base db)) j)"
    using R(2)[OF j] by (simp add: e d)
qed

lemma slot_at_mem_set_below: "64 + n \<le> p \<Longrightarrow> slot_at (mem_set m 64 v n) p = slot_at m p"
  by (simp add: mem_set_store slot_at_store_disjoint)

lemma moved_shifted:
  assumes wf: "wf_layout db" and r: "resized db d sz" and v: "EF_SCHEMA_VERSION \<le> schema_version (sb db)"
    and cap: "cap \<le> 0xFFFF" "cap \<noteq> 0" and fit: "64 + 16 * unat cap + 64 * unat (max_slots (sb db)) \<le> unat sz"
  shows "shifted db (moved d (slots_base db) cap) cap" "zero_index (moved d (slots_base db) cap)"
proof -
  let ?o = "slots_base db" and ?n = "ef_index_slots_base cap" and ?k = "unat (max_slots (sb db))"
  have small: "64 * ?k < 2 ^ 64" using fit unat_u64_bound[of sz] by linarith
  define e where "e = relocated d ?o cap"
  note E = relocated_facts[OF wf r v cap small, folded e_def]
  have nb: "unat ?n = 64 + 16 * unat cap" by (rule index_slots_base_eq[OF cap(1)])
  have b: "64 \<le> unat ?n" using nb by simp
  have o: "0 < ?o" using wf_layout_base_ge[OF wf] by (simp add: word_less_nat_alt)
  let ?fix = "\<lambda>off. ef_index_fixup_offset off ?o ?n"
  define m4 where "m4 = set_queue_tail (set_queue_head (set_free_list_head (mem e) (?fix (free_list_head (sb db))))
      (?fix (queue_head (sb db)))) (?fix (queue_tail (sb db)))"
  define m5 where "m5 = fold (fixup_next (unat ?n) ?o ?n) [0..<?k] m4"
  define m6 where "m6 = mem_set m5 64 0 (16 * unat cap)"
  have sb4: "sb_of m4 = (sb db)\<lparr>hash_cap16 := ucast cap, free_list_head := ?fix (free_list_head (sb db)),
      queue_head := ?fix (queue_head (sb db)), queue_tail := ?fix (queue_tail (sb db))\<rparr>"
    by (simp add: m4_def E(1))
  note F = fixup_fold[OF b o, where new_base = ?n and m = m4 and k = ?k, folded m5_def]
  have mv: "moved d ?o cap = e\<lparr>mem := m6\<rparr>"
    by (simp add: moved_def Let_def e_def[symmetric] ef_index_fixup_all_offsets_def E(1,4)
        m4_def[symmetric] sb4 m5_def[symmetric] m6_def[symmetric])
  have sb6: "sb_of m6 = sb_of m4" using F(2) by (simp add: m6_def sb_of_mem_set)
  have slots: "slot_at m6 (slot_ptr (unat ?n) j) = fix_slot ?o ?n (slot_at (mem db) (slot_ptr (unat ?o) j))" if "j < ?k" for j
  proof -
    have p: "64 \<le> slot_ptr (unat ?n) j" "64 + 16 * unat cap \<le> slot_ptr (unat ?n) j"
      using b nb slot_ptr_ge[of "unat ?n" j] by linarith+
    have "slot_at m6 (slot_ptr (unat ?n) j) = slot_at m5 (slot_ptr (unat ?n) j)"
      unfolding m6_def by (rule slot_at_mem_set_below[OF p(2)])
    also have "\<dots> = fix_slot ?o ?n (slot_at m4 (slot_ptr (unat ?n) j))" using F(1) that by simp
    also have "slot_at m4 (slot_ptr (unat ?n) j) = slot_at (mem e) (slot_ptr (unat ?n) j)" using p(1) by (simp add: m4_def)
    finally show ?thesis using E(10)[OF that] by simp
  qed
  have "wf_layout (e\<lparr>mem := m6\<rparr>)"
    using E(2-6) cap sb6 sb4 fit
    by (simp add: wf_layout_def layout_ok_def slot_ptr_def EF_SLOT_SIZE_def nb) (simp add: ef_index_slots_base_def)
  then show "shifted db (moved d ?o cap) cap"
    unfolding mv shifted_def using E sb6 sb4 slots by (simp add: Let_def word_less_nat_alt)
  show "zero_index (moved d ?o cap)"
    unfolding mv zero_index_def using nb E(4) by (simp add: m6_def mem_set_def)
qed

subsection \<open>Offsets and chains after the move\<close>

lemma fix_offset:
  assumes s: "shifted db d cap" and wf: "wf_layout db" and i: "i < max_slots (sb db)"
  shows "ef_index_fixup_offset (ef_slot_to_offset db i) (slots_base db) (slots_base d) = ef_slot_to_offset d i"
proof -
  have wfd: "wf_layout d" and max: "max_slots (sb d) = max_slots (sb db)" using s by (simp_all add: shifted_def Let_def)
  have "\<not> max_slots (sb db) \<le> i" using i by simp
  moreover have "\<not> ef_slot_to_offset db i < slots_base db" using slot_offset_rel(1)[OF wf i] by (simp add: not_less)
  moreover have "ef_slot_to_offset db i \<noteq> 0" by (rule slot_offset_neq_0[OF wf i])
  ultimately show ?thesis
    using max wf wfd by (simp add: ef_index_fixup_offset_def ef_slot_to_offset_def)
qed

lemma fix_zero [simp]: "ef_index_fixup_offset 0 a b = 0"
  by (simp add: ef_index_fixup_offset_def)

lemma shifted_chain:
  assumes s: "shifted db d cap" and wf: "wf_layout db" and "free_chain db off ids"
  shows "free_chain d (ef_index_fixup_offset off (slots_base db) (slots_base d)) ids"
  using assms(3)
proof (induction ids arbitrary: off)
  case (Cons i ids)
  have max: "max_slots (sb d) = max_slots (sb db)" using s by (simp add: shifted_def Let_def)
  have i: "i < max_slots (sb db)" using Cons.prems by simp
  then have "db_slot d i = fix_slot (slots_base db) (slots_base d) (db_slot db i)" using s by (simp add: shifted_def)
  with Cons show ?case by (simp add: max fix_offset[OF s wf i] fix_slot_def)
qed simp

lemma shifted_free_list:
  assumes s: "shifted db d cap" and inv: "free_list_inv db ids"
  shows "free_list_inv d ids"
proof -
  have wf: "wf_layout db" using inv by (simp add: free_list_inv_def)
  show ?thesis
    using inv s shifted_chain[OF s wf, of "free_list_head (sb db)" ids]
    by (simp add: free_list_inv_def shifted_def Let_def)
qed

end
