(* ===== verification/Rehash_Props.thy ===== *)
theory Rehash_Props
  imports Rehash_Move
begin

text \<open>
  Changing the capacity of the index: the entries are put into the cleared table one by one, and
  every key keeps the slot it is mapped to although all offsets have changed.
\<close>

subsection \<open>Reinsertion\<close>

lemma table_write_refl: "table_write db db"
  unfolding table_write_def by (intro exI[of _ "mem db"] exI[of _ "hash_entry_count db"]) simp

lemma table_write_trans:
  assumes "table_write a b" "table_write b c"
  shows "table_write a c"
proof -
  obtain m n where b: "b = a\<lparr>mem := m, hash_entry_count := n\<rparr>"
    "\<forall>x. x < 64 \<or> 64 + 16 * unat (hash_capacity a) \<le> x \<longrightarrow> m x = mem a x"
    using assms(1) unfolding table_write_def by blast
  obtain m' n' where c: "c = b\<lparr>mem := m', hash_entry_count := n'\<rparr>"
    "\<forall>x. x < 64 \<or> 64 + 16 * unat (hash_capacity b) \<le> x \<longrightarrow> m' x = mem b x"
    using assms(2) unfolding table_write_def by blast
  show ?thesis unfolding table_write_def
    by (intro exI[of _ m'] exI[of _ n']) (use b c in simp)
qed

lemma reinsert_map:
  assumes "wf_layout d" "index_inv d" "distinct (map key_hash es)" "\<forall>e \<in> set es. slot_offset e \<noteq> 0"
    "\<forall>e \<in> set es. index_lookup d (key_hash e) = None"
    "card (dom (index_lookup d)) + length es \<le> unat (hash_capacity d)" "reinsert es d = (EF_OK, d')"
  shows "index_inv d' \<and> table_write d d' \<and>
    index_lookup d' = index_lookup d ++ map_of (map (\<lambda>e. (key_hash e, slot_offset e)) es)"
  using assms
proof (induction es arbitrary: d)
  case Nil
  then show ?case by (simp add: table_write_refl)
next
  case (Cons e es)
  obtain err added b where put: "ef_index_put_entry d (key_hash e) (slot_offset e) = (err, added, b)" using prod_cases3 by blast
  with Cons.prems(7) have ok: "err = EF_OK" and rest: "reinsert es b = (EF_OK, d')" by (auto split: if_splits)
  have "card (dom (index_lookup d)) < unat (hash_capacity d)" using Cons.prems(6) by simp
  note room = room_if_few[OF Cons.prems(2) this]
  have off: "slot_offset e \<noteq> 0" using Cons.prems(4) by simp
  have map: "index_inv b" "index_lookup b = (index_lookup d)(key_hash e \<mapsto> slot_offset e)"
    using put_entry_map[OF Cons.prems(2) room off put[unfolded ok]] by simp_all
  have tw: "table_write d b" by (rule put_entry_table_write[OF Cons.prems(1) put])
  note f = table_write_facts[OF tw Cons.prems(1)]
  have wfb: "wf_layout b" and cap: "hash_capacity b = hash_capacity d"
    using Cons.prems(1) same_layout_wf[OF f(3)] f(3) by (simp_all add: same_layout_def)
  have "card (dom (index_lookup b)) = Suc (card (dom (index_lookup d)))"
    using Cons.prems(5) finite_dom[OF Cons.prems(2)] by (simp add: map(2) domIff)
  then have "card (dom (index_lookup b)) + length es \<le> unat (hash_capacity b)" using Cons.prems(6) cap by simp
  moreover have "\<forall>x \<in> set es. key_hash x \<noteq> key_hash e" using Cons.prems(3) by (auto simp: image_iff)
  then have "\<forall>x \<in> set es. index_lookup b (key_hash x) = None" using Cons.prems(5) by (simp add: map(2))
  ultimately have IH: "index_inv d' \<and> table_write b d' \<and>
      index_lookup d' = index_lookup b ++ map_of (map (\<lambda>e. (key_hash e, slot_offset e)) es)"
    using Cons.IH[OF wfb map(1)] Cons.prems(3,4) rest by simp
  have "key_hash e \<notin> dom (map_of (map (\<lambda>e. (key_hash e, slot_offset e)) es))"
    using Cons.prems(3) by (auto simp: dom_map_of_conv_image_fst image_image)
  then have "(index_lookup d)(key_hash e \<mapsto> slot_offset e) ++ map_of (map (\<lambda>e. (key_hash e, slot_offset e)) es) =
      index_lookup d ++ map_of (map (\<lambda>e. (key_hash e, slot_offset e)) (e # es))"
    by (auto simp: map_add_def fun_eq_iff domIff split: option.split)
  with IH map(2) have "index_lookup d' = index_lookup d ++ map_of (map (\<lambda>e. (key_hash e, slot_offset e)) (e # es))"
    by (simp only:)
  then show ?case using IH table_write_trans[OF tw] by blast
qed

text \<open>The backup of the entries is the map of the index.\<close>

lemma live_entries_map:
  assumes inv: "index_inv db" and h: "hash_index db = Some h"
  defines "es \<equiv> live_entries (mem db) h (hash_capacity db)"
  shows "distinct (map key_hash es)" "\<forall>e \<in> set es. slot_offset e \<noteq> 0"
    "map_of (map (\<lambda>e. (key_hash e, slot_offset e)) es) = index_lookup db" "length es = card (dom (index_lookup db))"
proof -
  let ?T = "entry_at (mem db) h" and ?n = "unat (hash_capacity db)"
  let ?ps = "filter (\<lambda>p. occ ?T p) [0..<?n]"
  have es: "es = map ?T ?ps" by (simp add: es_def live_entries_def occ_def filter_map o_def)
  have "rh_distinct (hash_capacity db) ?T" using inv h by (simp add: index_inv_def rh_inv_def)
  then have "inj_on (\<lambda>p. key_hash (?T p)) (set ?ps)" unfolding rh_distinct_def inj_on_def by simp
  then show dist: "distinct (map key_hash es)" by (simp add: es distinct_map comp_inj_on o_def)
  show "\<forall>e \<in> set es. slot_offset e \<noteq> 0" by (auto simp: es occ_def ef_hash_entry_empty_def)
  have set: "set es = entries (hash_capacity db) ?T" by (auto simp: es entries_def)
  have "map_of (map (\<lambda>e. (key_hash e, slot_offset e)) es) kh = Some off \<longleftrightarrow> index_lookup db kh = Some off" for kh off
  proof -
    have "map_of (map (\<lambda>e. (key_hash e, slot_offset e)) es) kh = Some off \<longleftrightarrow> (kh, off) \<in> (\<lambda>e. (key_hash e, slot_offset e)) ` set es"
      using dist by (subst map_of_eq_Some_iff) (simp_all add: o_def)
    also have "\<dots> \<longleftrightarrow> \<lparr>key_hash = kh, slot_offset = off\<rparr> \<in> set es"
    proof
      assume "(kh, off) \<in> (\<lambda>e. (key_hash e, slot_offset e)) ` set es"
      then obtain e where "e \<in> set es" "kh = key_hash e" "off = slot_offset e" by auto
      then show "\<lparr>key_hash = kh, slot_offset = off\<rparr> \<in> set es" by (cases e rule: ef_hash_entry.cases) simp
    qed (rule image_eqI, simp_all)
    finally show ?thesis by (simp add: set index_lookup_iff[OF inv h])
  qed
  then show "map_of (map (\<lambda>e. (key_hash e, slot_offset e)) es) = index_lookup db"
    by (metis (no_types) ext option.exhaust)
  have "{p. p < ?n \<and> occ ?T p} = set ?ps" by auto
  then show "length es = card (dom (index_lookup db))"
    using card_dom[OF inv h] distinct_card[of ?ps] by (simp add: es)
qed

subsection \<open>The whole rehash\<close>

text \<open>Every entry of the index points to a slot.\<close>

definition index_points :: "ef_db \<Rightarrow> bool" where
  "index_points db \<longleftrightarrow>
     (\<forall>kh off. index_lookup db kh = Some off \<longrightarrow> (\<exists>i < max_slots (sb db). off = ef_slot_to_offset db i))"

text \<open>The same database with the slot area somewhere else.\<close>

definition same_data :: "ef_db \<Rightarrow> ef_db \<Rightarrow> bool" where
  "same_data db d \<longleftrightarrow>
     max_slots (sb d) = max_slots (sb db) \<and> (\<forall>key. ef_index_get d key = ef_index_get db key) \<and>
     (\<forall>j < max_slots (sb db). status (db_slot d j) = status (db_slot db j) \<and> payload (db_slot d j) = payload (db_slot db j)) \<and>
     (\<forall>ids. free_list_inv db ids \<longrightarrow> free_list_inv d ids)"

lemma refresh_crcs_facts:
  assumes wf: "wf_layout db"
  shows "keeps db (ef_db_refresh_slot_crcs db)" "pool_write db (ef_db_refresh_slot_crcs db)"
proof -
  have b: "64 \<le> unat (slots_base db)" using wf by simp
  show "keeps db (ef_db_refresh_slot_crcs db)"
    using fold_refresh_keeps[OF b] keeps_refl by (simp add: ef_db_refresh_slot_crcs_def)
  show "pool_write db (ef_db_refresh_slot_crcs db)"
    using pool_write_fold[where f = refresh_slot_crc, OF pool_write_refresh_crc b] pool_write_refl
    by (simp add: ef_db_refresh_slot_crcs_def)
qed

text \<open>The index facts depend on the entries inside the table only.\<close>

lemma find_loop_table:
  assumes "\<And>p. p < unat cap \<Longrightarrow> entry_at m' h p = entry_at m h p" "cap \<noteq> 0"
  shows "find_loop m' h cap kh i n = find_loop m h cap kh i n"
proof (induction n arbitrary: i)
  case (Suc n)
  have "entry_at m' h (i mod unat cap) = entry_at m h (i mod unat cap)" using assms by (simp add: unat_gt_0)
  with Suc show ?case by (simp add: Let_def)
qed simp

lemma rh_inv_table:
  assumes "\<And>p. p < unat cap \<Longrightarrow> T' p = T p"
  shows "rh_inv cap T' = rh_inv cap T"
proof (cases "cap = 0")
  case False
  then have "Suc p mod unat cap < unat cap" for p by (simp add: unat_gt_0)
  then have "rh_order cap T' = rh_order cap T" using assms by (simp add: rh_order_def occ_def pdist_def)
  moreover have "rh_distinct cap T' = rh_distinct cap T" using assms by (simp add: rh_distinct_def occ_def)
  ultimately show ?thesis by (simp add: rh_inv_def)
qed (simp add: rh_inv_def)

lemma index_facts_table:
  assumes "hash_index db' = hash_index db" "hash_capacity db' = hash_capacity db"
    "\<And>p. p < unat (hash_capacity db) \<Longrightarrow> entry_at (mem db') 64 p = entry_at (mem db) 64 p"
    "hash_index db = (if hash_capacity db = 0 then None else Some 64)"
  shows "index_lookup db' = index_lookup db" "index_inv db' = index_inv db"
proof -
  have "ef_index_find_entry_unlocked db' kh = ef_index_find_entry_unlocked db kh" for kh
    using assms(1,2,4) find_loop_table[OF assms(3)]
    by (simp add: ef_index_find_entry_unlocked_def Let_def split: option.split)
  then show "index_lookup db' = index_lookup db" by (simp add: index_lookup_def fun_eq_iff)
  show "index_inv db' = index_inv db"
    using assms(1,2,4) rh_inv_table[OF assms(3)] by (simp add: index_inv_def split: option.split)
qed

lemma refresh_crcs_index:
  assumes wf: "wf_layout db"
  shows "index_lookup (ef_db_refresh_slot_crcs db) = index_lookup db" "index_inv (ef_db_refresh_slot_crcs db) = index_inv db"
    "\<exists>m. ef_db_refresh_slot_crcs db = db\<lparr>mem := m\<rparr>"
proof -
  obtain m where m: "ef_db_refresh_slot_crcs db = db\<lparr>mem := m\<rparr>" "\<And>a. 64 \<le> a \<Longrightarrow> a < unat (slots_base db) \<Longrightarrow> m a = mem db a"
    using refresh_crcs_facts(2)[OF wf] unfolding pool_write_def by blast
  then show "\<exists>m. ef_db_refresh_slot_crcs db = db\<lparr>mem := m\<rparr>" by blast
  have "entry_at m 64 p = entry_at (mem db) 64 p" if "p < unat (hash_capacity db)" for p
    by (rule entry_at_cong) (use that m(2) wf_layout_base[OF wf] in simp)
  then show "index_lookup (ef_db_refresh_slot_crcs db) = index_lookup db" "index_inv (ef_db_refresh_slot_crcs db) = index_inv db"
    using index_facts_table[of "db\<lparr>mem := m\<rparr>" db] index_hash_64[OF wf] by (simp_all add: m(1))
qed

text \<open>The end of a rehash: entry counter, slot checksums, lock.\<close>

definition rehash_end :: "ef_db \<Rightarrow> u32 \<Rightarrow> ef_db" where
  "rehash_end db n = ef_index_write_end (ef_db_refresh_slot_crcs (ef_db_mark_meta_dirty (db\<lparr>hash_entry_count := n\<rparr>)))"

lemma rehash_end_facts:
  assumes wf: "wf_layout b" and v: "EF_SCHEMA_VERSION \<le> schema_version (sb b)"
  shows "same_layout b (rehash_end b n)" "sb (rehash_end b n) = (sb b)\<lparr>index_write_lock := 0\<rparr>"
    "index_lookup (rehash_end b n) = index_lookup b" "index_inv (rehash_end b n) = index_inv b"
    "hash_entry_count (rehash_end b n) = n" "readonly (rehash_end b n) = readonly b"
    "txn_active (rehash_end b n) = txn_active b" "index_seq (rehash_end b n) = index_seq b + 1"
    "status (db_slot (rehash_end b n) j) = status (db_slot b j)" "payload (db_slot (rehash_end b n) j) = payload (db_slot b j)"
    "next_offset (db_slot (rehash_end b n) j) = next_offset (db_slot b j)"
proof -
  define x where "x = ef_db_mark_meta_dirty (b\<lparr>hash_entry_count := n\<rparr>)"
  have wfx: "wf_layout x" using wf by (simp add: x_def ef_db_mark_meta_dirty_def)
  obtain m where m: "ef_db_refresh_slot_crcs x = x\<lparr>mem := m\<rparr>" using refresh_crcs_index(3)[OF wfx] by blast
  note k = refresh_crcs_facts(1)[OF wfx, unfolded m]
  note i = refresh_crcs_index(1,2)[OF wfx, unfolded m]
  have sbm: "sb_of m = sb b" using k by (simp add: keeps_def x_def)
  let ?y = "x\<lparr>mem := m\<rparr>"
  have wfy: "wf_layout ?y" using wfx k same_layout_wf[of x ?y] by (simp add: keeps_def)
  have e: "rehash_end b n = unlocked ?y"
    unfolding rehash_end_def x_def[symmetric] m using wfy v by (intro write_end_eq) (simp_all add: sbm)
  have p: "64 \<le> db_slot_ptr b j" using wf wf_layout_base_ge slot_ptr_ge le_trans by blast
  show "same_layout b (rehash_end b n)" using sbm by (simp add: e same_layout_def unlocked_def x_def)
  show "sb (rehash_end b n) = (sb b)\<lparr>index_write_lock := 0\<rparr>" using sbm by (simp add: e unlocked_def)
  have "index_lookup x = index_lookup b" "index_inv x = index_inv b"
    using index_facts_cong[of x b] index_hash_64[OF wf] by (simp_all add: x_def)
  then show "index_lookup (rehash_end b n) = index_lookup b" "index_inv (rehash_end b n) = index_inv b"
    using locked_facts(5,6)[OF wfy] i by (simp_all add: e)
  show "hash_entry_count (rehash_end b n) = n" "readonly (rehash_end b n) = readonly b"
    "txn_active (rehash_end b n) = txn_active b" "index_seq (rehash_end b n) = index_seq b + 1"
    by (simp_all add: e unlocked_def x_def)
  have "status (slot_at m (db_slot_ptr b j)) = status (db_slot b j)" "payload (slot_at m (db_slot_ptr b j)) = payload (db_slot b j)"
    "next_offset (slot_at m (db_slot_ptr b j)) = next_offset (db_slot b j)"
    using k by (simp_all add: keeps_def x_def)
  then show "status (db_slot (rehash_end b n) j) = status (db_slot b j)" "payload (db_slot (rehash_end b n) j) = payload (db_slot b j)"
    "next_offset (db_slot (rehash_end b n) j) = next_offset (db_slot b j)"
    using p by (simp_all add: e unlocked_def x_def)
qed

definition fix_entry :: "u64 \<Rightarrow> u64 \<Rightarrow> ef_hash_entry \<Rightarrow> ef_hash_entry" where
  "fix_entry a b e = e\<lparr>slot_offset := ef_index_fixup_offset (slot_offset e) a b\<rparr>"

lemma rehash_move_run:
  assumes run: "rehash_move env db 64 cap = (EF_OK, db')"
  obtains d b where "resized db d (ef_index_file_size (max_slots (sb db)) cap)"
    "reinsert (map (fix_entry (slots_base db) (ef_index_slots_base cap)) (live_entries (mem db) 64 (hash_capacity db)))
       (moved d (slots_base db) cap) = (EF_OK, b)"
    "db' = rehash_end b (of_nat (length (live_entries (mem db) 64 (hash_capacity db))))"
proof -
  let ?sz = "ef_index_file_size (max_slots (sb db)) cap"
  let ?es = "live_entries (mem db) 64 (hash_capacity db)"
  obtain err d where d: "(if backend db = EF_BACKEND_FILE then ef_port_grow_file env db ?sz else (EF_OK, db\<lparr>file_size := ?sz\<rparr>)) = (err, d)"
    by fastforce
  obtain err' b where b: "reinsert (map (fix_entry (slots_base db) (ef_index_slots_base cap)) ?es) (moved d (slots_base db) cap) = (err', b)"
    by fastforce
  have fe: "fix_entry x y = (\<lambda>e. e\<lparr>slot_offset := ef_index_fixup_offset (slot_offset e) x y\<rparr>)" for x y
    by (rule ext) (simp add: fix_entry_def)
  have ok: "err = EF_OK" "err' = EF_OK" "db' = rehash_end b (of_nat (length ?es))"
    using run d b[unfolded fe moved_def relocated_def] unfolding rehash_move_def Let_def rehash_end_def
    by (auto split: if_splits)
  have "resized db d ?sz"
  proof (cases "backend db = EF_BACKEND_FILE")
    case True
    then have "d = db\<lparr>mem := mem_set (mem db) (unat (file_size db)) 0 (unat ?sz - unat (file_size db)),
                      file_size := ?sz, map_capacity := ?sz\<rparr>"
      using d ok(1) by (auto simp: ef_port_grow_file_def split: if_splits)
    then show ?thesis unfolding resized_def
      by (intro exI[of _ "mem_set (mem db) (unat (file_size db)) 0 (unat ?sz - unat (file_size db))"] exI[of _ ?sz]) (simp add: mem_set_def)
  next
    case False
    then have "d = db\<lparr>file_size := ?sz\<rparr>" using d by simp
    then show ?thesis unfolding resized_def by (intro exI[of _ "mem db"] exI[of _ "map_capacity db"]) simp
  qed
  with that b ok show thesis by simp
qed

text \<open>A failure without a file: before anything was changed, or in the reinsertion.\<close>

lemma rehash_move_fails:
  assumes run: "rehash_move env db 64 cap = (err, db')" "err \<noteq> EF_OK" and nofile: "backend db \<noteq> EF_BACKEND_FILE"
  obtains (early) "db' = ef_index_write_end db" "err \<noteq> EF_ERR_INDEX_FULL"
  | (late) d b where "resized db d (ef_index_file_size (max_slots (sb db)) cap)"
    "reinsert (map (fix_entry (slots_base db) (ef_index_slots_base cap)) (live_entries (mem db) 64 (hash_capacity db)))
       (moved d (slots_base db) cap) = (err, b)"
    "db' = ef_index_write_end b"
proof -
  let ?sz = "ef_index_file_size (max_slots (sb db)) cap"
  let ?es = "live_entries (mem db) 64 (hash_capacity db)"
  let ?d = "db\<lparr>file_size := ?sz\<rparr>"
  obtain err' b where b: "reinsert (map (fix_entry (slots_base db) (ef_index_slots_base cap)) ?es) (moved ?d (slots_base db) cap) = (err', b)"
    by fastforce
  have fe: "fix_entry x y = (\<lambda>e. e\<lparr>slot_offset := ef_index_fixup_offset (slot_offset e) x y\<rparr>)" for x y
    by (rule ext) (simp add: fix_entry_def)
  have "db' = ef_index_write_end db \<and> err \<noteq> EF_ERR_INDEX_FULL \<or> err' = err \<and> db' = ef_index_write_end b"
    using run nofile b[unfolded fe moved_def relocated_def] unfolding rehash_move_def Let_def
    by (auto split: if_splits)
  moreover have "resized db ?d ?sz"
    unfolding resized_def by (intro exI[of _ "mem db"] exI[of _ "map_capacity db"]) simp
  ultimately show thesis using early late b by blast
qed

text \<open>The state before, after the move, and after the reinsertion.\<close>

lemma fixed_offsets:
  assumes wf: "wf_layout db" and inv: "index_inv db" and pts: "index_points db" and s: "shifted db g cap"
    and e: "e \<in> set (live_entries (mem db) 64 (hash_capacity db))"
  shows "slot_offset (fix_entry (slots_base db) (slots_base g) e) \<noteq> 0"
proof -
  let ?es = "live_entries (mem db) 64 (hash_capacity db)"
  have wfg: "wf_layout g" and mg: "max_slots (sb g) = max_slots (sb db)" using s by (simp_all add: shifted_def Let_def)
  have h: "hash_index db = Some 64" using inv index_hash_64[OF wf] by (auto simp: index_inv_def split: if_splits)
  note L = live_entries_map[OF inv h]
  have "map_of (map (\<lambda>e. (key_hash e, slot_offset e)) ?es) (key_hash e) = Some (slot_offset e)"
    using e L(1) by (intro map_of_is_SomeI) (simp_all add: o_def)
  then obtain i where "i < max_slots (sb db)" "slot_offset e = ef_slot_to_offset db i"
    using pts unfolding L(3) index_points_def by blast
  then show ?thesis using slot_offset_neq_0[OF wfg, of i] mg by (simp add: fix_entry_def fix_offset[OF s wf])
qed

lemma rehash_table:
  assumes wf: "wf_layout db" and inv: "index_inv db" and pts: "index_points db" and s: "shifted db g cap" and z: "zero_index g"
    and cap: "cap \<noteq> 0" "ef_hash_capacity_valid cap" "card (dom (index_lookup db)) \<le> unat cap"
    and run: "reinsert (map (fix_entry (slots_base db) (slots_base g)) (live_entries (mem db) 64 (hash_capacity db))) g = (EF_OK, b)"
  shows "index_inv b" "table_write g b"
    "index_lookup b = (\<lambda>kh. map_option (\<lambda>off. ef_index_fixup_offset off (slots_base db) (slots_base g)) (index_lookup db kh))"
proof -
  let ?es = "live_entries (mem db) 64 (hash_capacity db)" and ?f = "fix_entry (slots_base db) (slots_base g)"
  let ?fix = "\<lambda>off. ef_index_fixup_offset off (slots_base db) (slots_base g)"
  have wfg: "wf_layout g" and cg: "hash_capacity g = cap" using s by (simp_all add: shifted_def Let_def)
  have h: "hash_index db = Some 64" using inv index_hash_64[OF wf] by (auto simp: index_inv_def split: if_splits)
  note L = live_entries_map[OF inv h]
  have g: "index_inv g" "index_lookup g = Map.empty" by (rule zero_index_empty[OF wfg z]; simp add: cg cap)+
  have "slot_offset (?f e) \<noteq> 0" if "e \<in> set ?es" for e by (rule fixed_offsets[OF wf inv pts s that])
  moreover have kf: "key_hash \<circ> ?f = key_hash" by (rule ext) (simp add: fix_entry_def)
  moreover have "card (dom (index_lookup g)) + length (map ?f ?es) \<le> unat (hash_capacity g)"
    using cap(3) L(4) by (simp add: g(2) cg)
  ultimately have R: "index_inv b \<and> table_write g b \<and> index_lookup b =
      index_lookup g ++ map_of (map (\<lambda>e. (key_hash e, slot_offset e)) (map ?f ?es))"
    using L(1) by (intro reinsert_map[OF wfg g(1) _ _ _ _ run]) (auto simp: g(2) kf)
  have "map (\<lambda>e. (key_hash e, slot_offset e)) (map ?f ?es) = map (\<lambda>(k, v). (k, ?fix v)) (map (\<lambda>e. (key_hash e, slot_offset e)) ?es)"
    by (simp add: fix_entry_def)
  then have "map_of (map (\<lambda>e. (key_hash e, slot_offset e)) (map ?f ?es)) = (\<lambda>kh. map_option ?fix (index_lookup db kh))"
    by (simp only: map_of_map L(3)) (simp add: fun_eq_iff)
  then show "index_inv b" "table_write g b" "index_lookup b = (\<lambda>kh. map_option ?fix (index_lookup db kh))"
    using R by (simp_all add: g(2))
qed

text \<open>The slot area is small enough that the size of the file does not wrap for any capacity.\<close>

definition rehash_fits :: "ef_db \<Rightarrow> bool" where
  "rehash_fits db \<longleftrightarrow> 64 * unat (max_slots (sb db)) + 2 ^ 21 < 2 ^ 64"

lemma index_file_size_eq:
  assumes "rehash_fits db" "cap \<le> 0xFFFF"
  shows "unat (ef_index_file_size (max_slots (sb db)) cap) = 64 + 16 * unat cap + 64 * unat (max_slots (sb db)) + 131104"
proof -
  have c: "unat cap \<le> 0xFFFF" using assms(2) by (simp add: word_le_nat_alt)
  then have "unat (ucast cap * 16 :: u64) = 16 * unat cap"
    by (simp add: unat_word_ariths unsigned_ucast_eq take_bit_nat_eq_self)
  then show ?thesis using assms(1) c by (simp add: rehash_fits_def ef_index_file_size_def unat_word_ariths)
qed

text \<open>What a successful rehash makes of the handle: the moved slot area and a new table for it.\<close>

definition rehashed :: "ef_db \<Rightarrow> ef_db \<Rightarrow> ef_db \<Rightarrow> u32 \<Rightarrow> bool" where
  "rehashed db g db' cap \<longleftrightarrow>
     shifted (locked db) g cap \<and> same_layout g db' \<and> sb db' = (sb g)\<lparr>index_write_lock := 0\<rparr> \<and>
     (\<forall>j. status (db_slot db' j) = status (db_slot g j) \<and> payload (db_slot db' j) = payload (db_slot g j) \<and>
          next_offset (db_slot db' j) = next_offset (db_slot g j)) \<and>
     index_inv db' \<and> index_counted db' \<and> readonly db' = readonly g \<and> txn_active db' = txn_active g \<and>
     index_seq db' = index_seq g + 1 \<and>
     index_lookup db' = (\<lambda>kh. map_option (\<lambda>off. ef_index_fixup_offset off (slots_base db) (slots_base g)) (index_lookup db kh))"

lemma rehash_moved:
  assumes r: "index_ready db" and pts: "index_points db" and fit: "rehash_fits db" and cap: "cap \<noteq> 0" "ef_hash_capacity_valid cap"
    and D: "resized (locked db) d (ef_index_file_size (max_slots (sb db)) cap)"
  defines "g \<equiv> moved d (slots_base db) cap"
  shows "shifted (locked db) g cap" "zero_index g" "ef_index_slots_base cap = slots_base g" "index_points (locked db)"
proof -
  let ?l = "locked db"
  have R: "wf_layout db" "EF_SCHEMA_VERSION \<le> schema_version (sb db)" using r by (simp_all add: index_ready_def)
  note lf = locked_facts[OF R(1)]
  have lsb: "sb ?l = (sb db)\<lparr>index_write_lock := 1\<rparr>" "slots_base ?l = slots_base db" by (simp_all add: locked_def)
  have c16: "cap \<le> 0xFFFF" using cap(1,2) by (auto simp: ef_hash_capacity_valid_def split: if_splits)
  have lv: "EF_SCHEMA_VERSION \<le> schema_version (sb ?l)" using R(2) by (simp add: lsb)
  have fits: "64 + 16 * unat cap + 64 * unat (max_slots (sb ?l)) \<le> unat (ef_index_file_size (max_slots (sb db)) cap)"
    using index_file_size_eq[OF fit c16] by (simp add: lsb)
  note S = moved_shifted[OF lf(4) D lv c16 cap(1) fits, unfolded lsb(2), folded g_def]
  show "shifted ?l g cap" "zero_index g" by (rule S)+
  then have "wf_layout g" "hash_capacity g = cap" by (simp_all add: shifted_def)
  then show "ef_index_slots_base cap = slots_base g" by (simp add: wf_layout_def layout_ok_def ef_index_slots_base_def)
  show "index_points ?l"
    using pts lf(1) offset_cong(1)[of ?l db] by (simp add: index_points_def lsb locked_def)
qed

lemma rehash_move_states:
  assumes r: "index_ready db" and pts: "index_points db" and fit: "rehash_fits db"
    and cap: "cap \<noteq> 0" "ef_hash_capacity_valid cap" "card (dom (index_lookup db)) \<le> unat cap"
    and run: "rehash_move env (locked db) 64 cap = (EF_OK, db')"
  obtains g where "rehashed db g db' cap"
proof -
  let ?l = "locked db"
  have R: "wf_layout db" "EF_SCHEMA_VERSION \<le> schema_version (sb db)" "index_inv db" using r by (simp_all add: index_ready_def)
  note lf = locked_facts[OF R(1)]
  have lsb: "sb ?l = (sb db)\<lparr>index_write_lock := 1\<rparr>" "slots_base ?l = slots_base db" by (simp_all add: locked_def)
  let ?es = "live_entries (mem ?l) 64 (hash_capacity ?l)"
  obtain d b where D: "resized ?l d (ef_index_file_size (max_slots (sb db)) cap)"
    and B: "reinsert (map (fix_entry (slots_base db) (ef_index_slots_base cap)) ?es) (moved d (slots_base db) cap) = (EF_OK, b)"
    and E: "db' = rehash_end b (of_nat (length ?es))"
    using rehash_move_run[OF run] by (auto simp: lsb)
  define g where "g = moved d (slots_base db) cap"
  note S = rehash_moved[OF r pts fit cap(1,2) D, folded g_def]
  have wfg: "wf_layout g" and cg: "hash_capacity g = cap" using S(1) by (simp_all add: shifted_def)
  have li: "index_inv ?l" using R(3) lf(2) by simp
  have lc: "card (dom (index_lookup ?l)) \<le> unat cap" using cap(3) lf(1) by simp
  note T = rehash_table[OF lf(4) li S(4,1,2) cap(1,2) lc, unfolded lsb(2), OF B[folded g_def, unfolded S(3)]]
  note W = table_write_facts[OF T(2) wfg]
  have wfb: "wf_layout b" using wfg same_layout_wf[OF W(3)] by simp
  have vb: "EF_SCHEMA_VERSION \<le> schema_version (sb b)" using W(1) S(1) R(2) by (simp add: shifted_def Let_def lsb)
  note F = rehash_end_facts[OF wfb vb, of "of_nat (length ?es)", folded E]
  have h: "hash_index ?l = Some 64" using li index_hash_64[OF lf(4)] by (auto simp: index_inv_def split: if_splits)
  have "dom (index_lookup b) = dom (index_lookup db)" using lf(1) by (auto simp: T(3) dom_def)
  moreover have "length ?es = card (dom (index_lookup db))" using live_entries_map(4)[OF li h] lf(1) by simp
  moreover have "card (dom (index_lookup db)) < 2 ^ 32" using cap(3) unat_u32_bound[of cap] by linarith
  ultimately have "index_counted db'" by (simp add: index_counted_def F(3,5) unat_of_nat take_bit_nat_eq_self)
  then have "rehashed db g db' cap"
    using S(1) F W T lf(1) by (simp add: rehashed_def same_layout_def)
  then show thesis by (rule that)
qed

lemma rehashed_ready:
  assumes r: "index_ready db" and pts: "index_points db" and h: "rehashed db g db' cap"
  shows "index_ready db'" "index_points db'" "hash_capacity db' = cap"
    "max_slots (sb db') = max_slots (sb db)" "ef_slot_to_offset db' = ef_slot_to_offset g"
proof -
  have R: "wf_layout db" "EF_SCHEMA_VERSION \<le> schema_version (sb db)" "\<not> readonly db" "\<not> txn_active db" "even (index_seq db)"
    using r by (simp_all add: index_ready_def)
  have lsb: "sb (locked db) = (sb db)\<lparr>index_write_lock := 1\<rparr>" "slots_base (locked db) = slots_base db" by (simp_all add: locked_def)
  have S: "shifted (locked db) g cap" and lay: "same_layout g db'" and wfg: "wf_layout g" and cg: "hash_capacity g = cap"
    using h by (simp_all add: rehashed_def shifted_def)
  show "hash_capacity db' = cap" using lay cg by (simp add: same_layout_def)
  show m: "max_slots (sb db') = max_slots (sb db)" using h by (simp add: rehashed_def shifted_def Let_def lsb)
  show off: "ef_slot_to_offset db' = ef_slot_to_offset g" by (rule same_layout_offset[OF lay])
  have wf': "wf_layout db'" using wfg same_layout_wf[OF lay] by simp
  then show "index_ready db'"
    using h R by (simp add: index_ready_def rehashed_def shifted_def Let_def lsb) (simp add: locked_def)
  have loff: "ef_slot_to_offset (locked db) = ef_slot_to_offset db" by (rule offset_cong(1)) (simp_all add: locked_def)
  have fx: "ef_index_fixup_offset (ef_slot_to_offset db i) (slots_base db) (slots_base g) = ef_slot_to_offset g i"
    if "i < max_slots (sb db)" for i
    using fix_offset[OF S locked_facts(4)[OF R(1)], of i] that by (simp add: lsb loff)
  show "index_points db'"
    unfolding index_points_def m off
  proof (intro allI impI)
    fix kh o' assume "index_lookup db' kh = Some o'"
    then obtain o2 where o2: "index_lookup db kh = Some o2" "o' = ef_index_fixup_offset o2 (slots_base db) (slots_base g)"
      using h by (auto simp: rehashed_def)
    then obtain i where "i < max_slots (sb db)" "o2 = ef_slot_to_offset db i" using pts by (auto simp: index_points_def)
    then show "\<exists>i < max_slots (sb db). o' = ef_slot_to_offset g i" using o2(2) fx by auto
  qed
qed

lemma rehashed_same_data:
  assumes r: "index_ready db" and pts: "index_points db" and h: "rehashed db g db' cap"
  shows "same_data db db'"
proof -
  note Q = rehashed_ready[OF assms]
  have wf: "wf_layout db" using r by (simp add: index_ready_def)
  have lsb: "sb (locked db) = (sb db)\<lparr>index_write_lock := 1\<rparr>" "slots_base (locked db) = slots_base db" by (simp_all add: locked_def)
  have S: "shifted (locked db) g cap" and lay: "same_layout g db'" using h by (simp_all add: rehashed_def)
  note wfl = locked_facts(4)[OF wf]
  have "64 \<le> db_slot_ptr db j" for j using wf wf_layout_base_ge slot_ptr_ge le_trans by blast
  then have slotl: "db_slot (locked db) j = db_slot db j" for j by (simp add: locked_def)
  have loff: "ef_slot_to_offset (locked db) = ef_slot_to_offset db" by (rule offset_cong(1)) (simp_all add: locked_def)
  have get: "ef_index_get db' key = ef_index_get db key" for key
  proof (cases "index_lookup db (ef_key_hash key)")
    case None
    then show ?thesis using index_get_lookup[OF Q(1)] index_get_lookup[OF r] h by (simp add: rehashed_def)
  next
    case (Some o')
    then obtain i where i: "i < max_slots (sb db)" "o' = ef_slot_to_offset db i" using pts by (auto simp: index_points_def)
    have "ef_index_fixup_offset o' (slots_base db) (slots_base g) = ef_slot_to_offset db' i"
      using fix_offset[OF S wfl, of i] i by (simp add: lsb loff Q(5))
    moreover have "wf_layout db'" using Q(1) by (simp add: index_ready_def)
    ultimately show ?thesis
      using index_get_lookup[OF Q(1)] index_get_lookup[OF r] h Some i Q(4) offset_to_slot_id_roundtrip[OF wf i(1)]
        offset_to_slot_id_roundtrip[of db' i]
      by (simp add: rehashed_def)
  qed
  have pool: "free_list_inv db' ids" if inv: "free_list_inv db ids" for ids
  proof -
    have "free_list_inv (locked db) ids"
      using inv slotl by (subst free_list_inv_cong[of db]) (simp_all add: lsb same_layout_def locked_def)
    then have "free_list_inv g ids" by (rule shifted_free_list[OF S])
    moreover have "free_chain db' x ids = free_chain g x ids" for x
      using h by (intro free_chain_cong[OF lay]) (simp add: rehashed_def)
    ultimately show ?thesis using h same_layout_wf[OF lay] by (simp add: free_list_inv_def rehashed_def)
  qed
  have "status (db_slot db' j) = status (db_slot db j) \<and> payload (db_slot db' j) = payload (db_slot db j)"
    if "j < max_slots (sb db)" for j
    using h that slotl[of j] by (simp add: rehashed_def shifted_def lsb fix_slot_def)
  then show ?thesis using get pool Q(4) by (simp add: same_data_def)
qed

lemma same_data_unlocked:
  assumes r: "index_ready db" and pts: "index_points db"
  shows "ef_index_write_end (locked db) = db\<lparr>index_seq := index_seq db + 2\<rparr>"
    "index_ready (db\<lparr>index_seq := index_seq db + 2\<rparr>)" "index_points (db\<lparr>index_seq := index_seq db + 2\<rparr>)"
    "same_data db (db\<lparr>index_seq := index_seq db + 2\<rparr>)"
proof -
  let ?e = "db\<lparr>index_seq := index_seq db + 2\<rparr>"
  have R: "wf_layout db" "EF_SCHEMA_VERSION \<le> schema_version (sb db)" "index_write_lock (sb db) = 0"
    using r by (simp_all add: index_ready_def)
  show "ef_index_write_end (locked db) = ?e"
    using R by (subst write_end_eq) (simp_all add: locked_def unlocked_def index_lock_drop_take)
  have L: "index_lookup ?e = index_lookup db" "index_inv ?e = index_inv db"
    using index_facts_cong[of ?e db] index_hash_64[OF R(1)] by simp_all
  show re: "index_ready ?e" using r L by (simp add: index_ready_def index_counted_def)
  have off: "ef_slot_to_offset ?e = ef_slot_to_offset db" "ef_offset_to_slot_id ?e = ef_offset_to_slot_id db"
    by (rule offset_cong; simp)+
  show "index_points ?e" using pts by (simp add: index_points_def L off)
  have "free_list_inv ?e ids = free_list_inv db ids" for ids by (rule free_list_inv_cong) (simp_all add: same_layout_def)
  moreover have "ef_index_get ?e key = ef_index_get db key" for key
    by (simp add: index_get_lookup[OF re] index_get_lookup[OF r] L off split: option.split)
  ultimately show "same_data db ?e" by (simp add: same_data_def)
qed

lemma dom_card_bound:
  assumes "index_inv db"
  shows "card (dom (index_lookup db)) \<le> unat (hash_capacity db)"
proof -
  from assms obtain h where h: "hash_index db = Some h" by (rule index_invD)
  have "card {p. p < unat (hash_capacity db) \<and> occ (entry_at (mem db) h) p} \<le> card {..<unat (hash_capacity db)}"
    by (rule card_mono) auto
  then show ?thesis using card_dom[OF assms h] by simp
qed

text \<open>The load factor check of a shrink leaves room for every key.\<close>

lemma shrink_fits:
  fixes cap :: u32
  assumes "index_counted db"
    "hash_entry_count db = 0 \<or> \<not> (ucast cap * ucast EF_INDEX_REHASH_LOAD_FACTOR_NUM :: u64)
       \<le> ucast (hash_entry_count db) * ucast EF_INDEX_REHASH_LOAD_FACTOR_DEN"
  shows "card (dom (index_lookup db)) \<le> unat cap"
proof -
  have "unat (ucast (hash_entry_count db) * 4 :: u64) = unat (hash_entry_count db) * 4"
    "unat (ucast cap * 3 :: u64) = unat cap * 3"
    using unat_u32_bound[of "hash_entry_count db"] unat_u32_bound[of cap] by (simp_all add: unat_mult_u64)
  then show ?thesis using assms by (auto simp: index_counted_def ef_policy_defs word_le_nat_alt)
qed

text \<open>What is left of a rehash after the checks of its argument.\<close>

lemma rehash_to_start:
  assumes r: "index_ready db" and chk: "\<not> cap < 1" "cap AND (cap - 1) = 0" "\<not> 0xFFFF < cap"
  shows "ef_index_rehash_to env db cap shrink = (
      if shrink \<and> hash_capacity db \<le> cap then (EF_ERR_GROW, ef_index_write_end (locked db))
      else if \<not> shrink \<and> cap < hash_capacity db \<or> cap = hash_capacity db then (EF_OK, ef_index_write_end (locked db))
      else if shrink \<and> (backend (locked db) = EF_BACKEND_FILE \<or> hash_entry_count db \<noteq> 0 \<and>
              (ucast cap * ucast EF_INDEX_REHASH_LOAD_FACTOR_NUM :: u64)
                \<le> ucast (hash_entry_count db) * ucast EF_INDEX_REHASH_LOAD_FACTOR_DEN)
      then (EF_ERR_GROW, ef_index_write_end (locked db))
      else rehash_move env (locked db) 64 cap)"
proof -
  have R: "wf_layout db" "\<not> readonly db" "index_inv db" using r by (simp_all add: index_ready_def)
  have h: "hash_index db = Some 64" using R(3) index_hash_64[OF R(1)] by (auto simp: index_inv_def split: if_splits)
  have cnz: "hash_capacity db \<noteq> 0" using R(3) by (auto elim: index_invD)
  have lk: "hash_index (locked db) = Some 64" "hash_capacity (locked db) = hash_capacity db" "hash_entry_count (locked db) = hash_entry_count db"
    using h by (simp_all add: locked_def)
  show ?thesis
    using R chk cnz by (cases shrink; cases "backend (locked db) = EF_BACKEND_FILE")
      (simp_all add: ef_index_rehash_to_def ef_index_require_write_def write_begin_ready[OF r] Let_def lk)
qed

lemma rehash_to_ok:
  assumes r: "index_ready db" and pts: "index_points db" and fit: "rehash_fits db"
    and run: "ef_index_rehash_to env db cap shrink = (EF_OK, db')"
  shows "index_ready db'" "index_points db'" "same_data db db'"
    "hash_capacity db' = (if shrink then cap else max cap (hash_capacity db))" "dom (index_lookup db') = dom (index_lookup db)"
proof -
  have R: "wf_layout db" "\<not> readonly db" "index_inv db" "index_counted db" using r by (simp_all add: index_ready_def)
  have chk: "\<not> cap < 1" "cap AND (cap - 1) = 0" "\<not> 0xFFFF < cap"
    using run R by (auto simp: ef_index_rehash_to_def ef_index_require_write_def split: if_splits)
  then have cap: "cap \<noteq> 0" "ef_hash_capacity_valid cap" by (auto simp: ef_hash_capacity_valid_def)
  note start = rehash_to_start[OF r chk, of env shrink]
  have "index_ready db' \<and> index_points db' \<and> same_data db db' \<and> dom (index_lookup db') = dom (index_lookup db) \<and>
      hash_capacity db' = (if shrink then cap else max cap (hash_capacity db))"
  proof (cases "\<not> shrink \<and> cap \<le> hash_capacity db")
    case True
    then have "db' = ef_index_write_end (locked db)" using run unfolding start by (auto split: if_splits)
    then show ?thesis using same_data_unlocked[OF r pts] True index_facts_cong[of "db\<lparr>index_seq := index_seq db + 2\<rparr>" db]
        index_hash_64[OF R(1)] by (simp add: max_def)
  next
    case False
    have mv: "rehash_move env (locked db) 64 cap = (EF_OK, db')"
      using run False unfolding start by (auto split: if_splits simp: not_le)
    have few: "card (dom (index_lookup db)) \<le> unat cap"
    proof (cases shrink)
      case True
      then show ?thesis using run R(4) unfolding start by (intro shrink_fits) (auto split: if_splits)
    next
      case no: False
      then have "hash_capacity db \<le> cap" using False by simp
      then show ?thesis using dom_card_bound[OF R(3)] by (simp add: word_le_nat_alt)
    qed
    obtain g where g: "rehashed db g db' cap" by (rule rehash_move_states[OF r pts fit cap few mv])
    then have "dom (index_lookup db') = dom (index_lookup db)" by (auto simp: rehashed_def dom_def)
    then show ?thesis using rehashed_ready[OF r pts g] rehashed_same_data[OF r pts g] False by (auto simp: max_def)
  qed
  then show "index_ready db'" "index_points db'" "same_data db db'"
    "hash_capacity db' = (if shrink then cap else max cap (hash_capacity db))" "dom (index_lookup db') = dom (index_lookup db)" by blast+
qed

end
