(* ===== verification/Index_Grow.thy ===== *)
theory Index_Grow
  imports Rehash_Props
begin

text \<open>
  Insertion into an index that has to grow first: the rehash keeps what every key is mapped to, so
  the insertion has the same effect as in a table with room.
\<close>

lemma same_data_trans: "same_data a b \<Longrightarrow> same_data b c \<Longrightarrow> same_data a c"
  by (simp add: same_data_def)

text \<open>Growing for an insertion: two empty write sections and a rehash.\<close>

lemma grow_for_insert_ok:
  assumes r: "index_ready db" and pts: "index_points db" and fit: "rehash_fits db"
    and run: "ef_index_grow_for_insert env db = (EF_OK, db')"
  shows "index_ready db'" "index_points db'" "same_data db db'" "hash_capacity db < hash_capacity db'"
    "dom (index_lookup db') = dom (index_lookup db)"
proof -
  let ?e = "db\<lparr>index_seq := index_seq db + 2\<rparr>"
  note E = same_data_unlocked[OF r pts]
  have wf: "wf_layout db" and inv: "index_inv db" using r by (simp_all add: index_ready_def)
  have h: "hash_index (locked db) = Some 64" "hash_capacity (locked db) = hash_capacity db" "hash_capacity db \<noteq> 0"
    using inv index_hash_64[OF wf] by (auto simp: index_inv_def locked_def split: if_splits)
  obtain target where t: "\<not> target \<le> hash_capacity db" "ef_index_rehash_to env ?e target False = (EF_OK, db')"
    using run h unfolding ef_index_grow_for_insert_def ef_index_rehash_def
    by (auto simp: write_begin_ready[OF r] E(1) Let_def split: if_splits)
  have fite: "rehash_fits ?e" using fit by (simp add: rehash_fits_def)
  note T = rehash_to_ok[OF E(2,3) fite t(2)]
  show "index_ready db'" "index_points db'" by (fact T(1), fact T(2))
  show "same_data db db'" by (rule same_data_trans[OF E(4) T(3)])
  show "hash_capacity db < hash_capacity db'" using T(4) t(1) by (simp add: max_def not_le)
  have "index_lookup ?e = index_lookup db" using index_facts_cong[of ?e db] index_hash_64[OF wf] by simp
  then show "dom (index_lookup db') = dom (index_lookup db)" using T(5) by simp
qed

lemma no_grow_bound:
  assumes "unat count < unat cap" "\<not> ef_index_needs_grow count cap"
  shows "Suc (unat count) < unat cap"
proof -
  have "unat (count + 1) = unat count + 1" using assms(1) unat_u32_bound[of cap] by (simp add: unat_word_ariths)
  moreover have "unat (ucast (count + 1) * 4 :: u64) = unat (count + 1) * 4" "unat (ucast cap * 3 :: u64) = unat cap * 3"
    using unat_u32_bound[of "count + 1"] unat_u32_bound[of cap] by (simp_all add: unat_mult_u64)
  ultimately show ?thesis using assms by (simp add: ef_index_needs_grow_def ef_policy_defs not_less word_le_nat_alt)
qed

text \<open>What an insertion does: a state \<open>f\<close> with the data of \<open>db\<close> and room, into which the pair is put.\<close>

lemma put_cases:
  assumes r: "index_ready db" and pts: "index_points db" and room: "index_has_room db" and fit: "rehash_fits db"
    and i: "i < max_slots (sb db)" and run: "ef_index_put env db key i = (EF_OK, db')"
  obtains f where "index_ready f" "index_points f" "same_data db f" "dom (index_lookup f) = dom (index_lookup db)" "index_has_room f"
    "card (insert (ef_key_hash key) (dom (index_lookup f))) < unat (hash_capacity f)"
    "put_locked (locked f) (ef_key_hash key) (ef_slot_to_offset f i) = (EF_OK, db')"
proof -
  have R: "wf_layout db" "\<not> readonly db" "\<not> txn_active db" "index_inv db" "index_counted db" using r by (simp_all add: index_ready_def)
  let ?kh = "ef_key_hash key"
  have few: "card (dom (index_lookup db)) < unat (hash_capacity db)" by (rule few_if_room[OF R(4) room])
  have fin: "finite (dom (index_lookup db))" by (rule finite_dom[OF R(4)])
  show thesis
  proof (cases "ef_index_needs_grow (hash_entry_count db) (hash_capacity db) \<and> key_absent db ?kh")
    case False
    have "card (insert ?kh (dom (index_lookup db))) < unat (hash_capacity db)"
    proof (cases "key_absent db ?kh")
      case True
      then have "\<not> ef_index_needs_grow (hash_entry_count db) (hash_capacity db)" using False by simp
      then show ?thesis
        using no_grow_bound[of "hash_entry_count db"] few R(5) fin by (simp add: card_insert_if index_counted_def)
    next
      case False
      then have "?kh \<in> dom (index_lookup db)" by (simp add: key_absent_lookup domIff)
      then show ?thesis using few by (simp add: insert_absorb)
    qed
    moreover have "same_data db db" by (simp add: same_data_def)
    ultimately show ?thesis using that[OF r pts _ refl room] run put_run_no_grow[OF r i False] by simp
  next
    case True
    let ?e = "db\<lparr>index_seq := index_seq db + 2\<rparr>"
    note E = same_data_unlocked[OF r pts]
    have lk: "ef_slot_to_offset (locked x) = ef_slot_to_offset x" for x by (rule offset_cong(1)) (simp_all add: locked_def)
    have "key_absent (locked db) ?kh" using True locked_facts(1)[OF R(1)] by (simp add: key_absent_lookup)
    moreover have h: "hash_index (locked db) \<noteq> None" "hash_capacity (locked db) = hash_capacity db"
      "hash_entry_count (locked db) = hash_entry_count db"
      using R(4) by (auto simp: locked_def elim: index_invD)
    ultimately obtain f where f: "ef_index_grow_for_insert env ?e = (EF_OK, f)"
      and put: "(case ef_index_write_begin f of (err, d) \<Rightarrow>
          if err \<noteq> EF_OK then (err, d)
          else if ef_slot_to_offset d i = 0 then (EF_ERR_SLOT_ID, ef_index_write_end d)
          else put_locked d ?kh (ef_slot_to_offset d i)) = (EF_OK, db')"
      using run True R(2,3) slot_offset_neq_0[OF R(1) i]
      by (auto simp: ef_index_put_def ef_index_require_write_def Let_def ef_txn_active_def write_begin_ready[OF r] lk E(1)
          split: if_splits prod.splits)
    have fite: "rehash_fits ?e" using fit by (simp add: rehash_fits_def)
    note F = grow_for_insert_ok[OF E(2,3) fite f]
    have sf: "same_data db f" by (rule same_data_trans[OF E(4) F(3)])
    have wff: "wf_layout f" "index_inv f" using F(1) by (simp_all add: index_ready_def)
    have df: "dom (index_lookup f) = dom (index_lookup db)"
      using F(5) index_facts_cong[of ?e db] index_hash_64[OF R(1)] by simp
    have "i < max_slots (sb f)" using i sf by (simp add: same_data_def)
    then have "put_locked (locked f) ?kh (ef_slot_to_offset f i) = (EF_OK, db')"
      using put slot_offset_neq_0[OF wff(1)] by (simp add: write_begin_ready[OF F(1)] lk)
    moreover have "Suc (card (dom (index_lookup db))) < unat (hash_capacity f)"
      using few F(4) by (simp add: word_less_nat_alt)
    then have "card (insert ?kh (dom (index_lookup f))) < unat (hash_capacity f)"
      using fin by (simp add: df card_insert_if)
    moreover from this have "index_has_room f" using fin by (intro room_if_few[OF wff(2)]) (simp add: df card_insert_if split: if_splits)
    ultimately show ?thesis using that[OF F(1,2) sf df] by blast
  qed
qed

subsection \<open>An index that grows with its first key\<close>

definition sample_grow :: ef_db where
  "sample_grow = sample_db\<lparr>slots_base := 80, hash_capacity := 1, map_capacity := 200000\<rparr>"

lemma sample_grow_ready: "index_ready sample_grow" "index_points sample_grow" "index_has_room sample_grow"
  "rehash_fits sample_grow" "index_lookup sample_grow = Map.empty"
proof -
  have wf: "wf_layout sample_grow"
    by (simp add: sample_grow_def wf_layout_def layout_ok_def slot_ptr_def EF_SLOT_SIZE_def)
  have z: "zero_index sample_grow" by (simp add: zero_index_def sample_grow_def)
  have "hash_capacity sample_grow \<noteq> 0" "ef_hash_capacity_valid (hash_capacity sample_grow)"
    by (simp_all add: sample_grow_def ef_hash_capacity_valid_def)
  note i = zero_index_empty[OF wf z this]
  show "index_lookup sample_grow = Map.empty" by (rule i(2))
  show "index_ready sample_grow"
    using wf i by (simp add: index_ready_def index_counted_def) (simp add: sample_grow_def EF_SCHEMA_VERSION_def)
  show "index_points sample_grow" using i(2) by (simp add: index_points_def)
  show "index_has_room sample_grow" using i(2) by (intro room_if_few[OF i(1)]) (simp add: sample_grow_def)
  show "rehash_fits sample_grow" by (simp add: rehash_fits_def sample_grow_def)
qed

lemma live_entries_empty:
  assumes "index_inv db" "hash_index db = Some h" "index_lookup db = Map.empty"
  shows "live_entries (mem db) h (hash_capacity db) = []"
  using live_entries_map(4)[OF assms(1,2)] assms(3) by simp

lemma rehash_empty_ok:
  assumes r: "index_ready db" and e: "index_lookup db = Map.empty"
    and cap: "hash_capacity db < cap" "cap \<le> 0xFFFF" "cap AND (cap - 1) = 0"
    and mem: "backend db = EF_BACKEND_MEMORY" "ef_index_file_size (max_slots (sb db)) cap \<le> map_capacity db"
  shows "fst (ef_index_rehash_to env db cap False) = EF_OK"
proof -
  have R: "wf_layout db" "\<not> readonly db" "index_inv db" using r by (simp_all add: index_ready_def)
  note lf = locked_facts[OF R(1)]
  have h: "hash_index (locked db) = Some 64" "hash_capacity (locked db) \<noteq> 0"
    using R(3) index_hash_64[OF R(1)] by (auto simp: index_inv_def locked_def split: if_splits)
  have live: "live_entries (mem (locked db)) 64 (hash_capacity (locked db)) = []"
    by (rule live_entries_empty[OF _ h(1)]) (simp_all add: lf(1,2) R(3) e)
  have l: "hash_capacity (locked db) = hash_capacity db" "backend (locked db) = EF_BACKEND_MEMORY"
    "map_capacity (locked db) = map_capacity db" "max_slots (sb (locked db)) = max_slots (sb db)"
    using mem by (simp_all add: locked_def)
  have c: "\<not> cap < 1" "\<not> 0xFFFF < cap" "\<not> cap < hash_capacity db" "cap \<noteq> hash_capacity db" "\<not> map_capacity db < ef_index_file_size (max_slots (sb db)) cap"
    using cap(1,2) mem(2) by (auto simp: not_less order.strict_implies_order)
  have "fst (rehash_move env (locked db) 64 cap) = EF_OK"
    using c(5) live by (simp add: rehash_move_def l Let_def)
  then show ?thesis
    using R(1,2) c cap(3) h
    by (simp add: ef_index_rehash_to_def ef_index_require_write_def write_begin_ready[OF r] Let_def l)
qed

lemma put_empty_ok:
  assumes r: "index_ready f" and e: "index_lookup f = Map.empty"
  shows "fst (put_locked (locked f) kh off) = EF_OK"
proof -
  have wf: "wf_layout f" and inv: "index_inv f" using r by (simp_all add: index_ready_def)
  note lf = locked_facts[OF wf]
  have li: "index_inv (locked f)" "index_lookup (locked f) = Map.empty" using lf(1,2) inv e by simp_all
  have h: "hash_index (locked f) = Some 64" "hash_capacity (locked f) \<noteq> 0"
    using inv index_hash_64[OF wf] by (auto simp: index_inv_def locked_def split: if_splits)
  have "card {p. p < unat (hash_capacity (locked f)) \<and> occ (entry_at (mem (locked f)) 64) p} = 0"
    using card_dom[OF li(1) h(1)] li(2) by simp
  then have free: "\<not> occ (entry_at (mem (locked f)) 64) p" if "p < unat (hash_capacity (locked f))" for p
    using that by auto
  have "ef_hash_home (hash_capacity (locked f)) kh < unat (hash_capacity (locked f))" by (rule hash_home_less[OF h(2)])
  then have "fst (ef_index_put_entry (locked f) kh off) = EF_OK"
    by (intro put_entry_ok[OF li(1) h(1) order.refl]) (simp_all add: free)
  then show ?thesis by (cases "ef_index_put_entry (locked f) kh off") (simp add: put_locked_def Let_def)
qed

lemma sample_grow_size: "ef_index_file_size (max_slots (sb sample_grow)) 16 \<le> map_capacity sample_grow"
  by (simp add: sample_grow_def ef_index_file_size_def)

lemma sample_grow_rehash:
  assumes "even n"
  obtains f where "ef_index_rehash_to env (sample_grow\<lparr>index_seq := n\<rparr>) 16 False = (EF_OK, f)"
proof -
  let ?s = "sample_grow\<lparr>index_seq := n\<rparr>"
  have L: "index_lookup ?s = index_lookup sample_grow" "index_inv ?s = index_inv sample_grow"
    using index_facts_cong[of ?s sample_grow] index_hash_64[of sample_grow] sample_grow_ready(1)
    by (simp_all add: index_ready_def)
  have r: "index_ready ?s" using sample_grow_ready(1) assms L by (simp add: index_ready_def index_counted_def)
  have "fst (ef_index_rehash_to env ?s 16 False) = EF_OK"
  proof (rule rehash_empty_ok[OF r])
    show "index_lookup ?s = Map.empty" using L(1) sample_grow_ready(5) by simp
    show "ef_index_file_size (max_slots (sb ?s)) 16 \<le> map_capacity ?s" using sample_grow_size by simp
  qed (simp_all add: sample_grow_def)
  then show thesis using that by (cases "ef_index_rehash_to env ?s 16 False") auto
qed

lemma sample_grow_seq:
  assumes "even n"
  shows "index_ready (sample_grow\<lparr>index_seq := n\<rparr>)" "index_points (sample_grow\<lparr>index_seq := n\<rparr>)"
    "index_lookup (sample_grow\<lparr>index_seq := n\<rparr>) = Map.empty" "rehash_fits (sample_grow\<lparr>index_seq := n\<rparr>)"
proof -
  let ?s = "sample_grow\<lparr>index_seq := n\<rparr>"
  have L: "index_lookup ?s = index_lookup sample_grow" "index_inv ?s = index_inv sample_grow"
    using index_facts_cong[of ?s sample_grow] index_hash_64[of sample_grow] sample_grow_ready(1)
    by (simp_all add: index_ready_def)
  show "index_ready ?s" using sample_grow_ready(1) assms L by (simp add: index_ready_def index_counted_def)
  show "index_lookup ?s = Map.empty" using L(1) sample_grow_ready(5) by simp
  then show "index_points ?s" by (simp add: index_points_def)
  show "rehash_fits ?s" using sample_grow_ready(4) by (simp add: rehash_fits_def)
qed

lemma sample_grow_target: "ef_index_pick_capacity 1 2 = 16"
  by (simp add: ef_index_pick_capacity_def ef_policy_defs Let_def pick_loop.simps)

lemma sample_grow_insert:
  obtains f where "ef_index_grow_for_insert env (sample_grow\<lparr>index_seq := 2\<rparr>) = (EF_OK, f)"
    "index_ready f" "index_lookup f = Map.empty" "max_slots (sb f) = 4"
proof -
  let ?s = "sample_grow\<lparr>index_seq := 2\<rparr>"
  have q: "index_ready ?s" "index_points ?s" "index_lookup ?s = Map.empty" "rehash_fits ?s"
    by (rule sample_grow_seq; simp)+
  obtain f where f: "ef_index_rehash_to env (sample_grow\<lparr>index_seq := 4\<rparr>) 16 False = (EF_OK, f)"
    using sample_grow_rehash[of 4] by auto
  have "ef_index_write_end (locked ?s) = sample_grow\<lparr>index_seq := 4\<rparr>" using same_data_unlocked(1)[OF q(1,2)] by simp
  moreover have "hash_index (locked ?s) = Some 64" "hash_capacity (locked ?s) = 1" "hash_entry_count (locked ?s) = 0"
    by (simp_all add: locked_def sample_grow_def)
  ultimately have run: "ef_index_grow_for_insert env ?s = (EF_OK, f)"
    using f by (simp add: ef_index_grow_for_insert_def write_begin_ready[OF q(1)] sample_grow_target ef_index_rehash_def Let_def word_le_nat_alt)
  note G = grow_for_insert_ok[OF q(1,2,4) run]
  have "index_lookup f = Map.empty" using G(5) q(3) by simp
  moreover have "max_slots (sb f) = 4" using G(3) by (simp add: same_data_def sample_grow_def)
  ultimately show thesis using that[OF run G(1)] by blast
qed

lemma sample_grow_put:
  obtains db' where "ef_index_put env sample_grow [107] 2 = (EF_OK, db')"
proof -
  let ?kh = "ef_key_hash [107]"
  obtain f where f: "ef_index_grow_for_insert env (sample_grow\<lparr>index_seq := 2\<rparr>) = (EF_OK, f)"
    "index_ready f" "index_lookup f = Map.empty" "max_slots (sb f) = 4"
    by (rule sample_grow_insert)
  note r = sample_grow_ready
  have wf: "wf_layout sample_grow" "wf_layout f" using r(1) f(2) by (simp_all add: index_ready_def)
  have lk: "ef_slot_to_offset (locked x) = ef_slot_to_offset x" for x by (rule offset_cong(1)) (simp_all add: locked_def)
  have off: "ef_slot_to_offset sample_grow 2 \<noteq> 0" "ef_slot_to_offset f 2 \<noteq> 0"
    using slot_offset_neq_0[OF wf(1), of 2] slot_offset_neq_0[OF wf(2), of 2] f(4) by (simp_all add: sample_grow_def)
  have absent: "key_absent (locked sample_grow) ?kh" using locked_facts(1)[OF wf(1)] r(5) by (simp add: key_absent_lookup)
  have e: "ef_index_write_end (locked sample_grow) = sample_grow\<lparr>index_seq := 2\<rparr>"
    using same_data_unlocked(1)[OF r(1,2)] by (simp add: sample_grow_def)
  have l: "hash_index (locked sample_grow) = Some 64" "hash_capacity (locked sample_grow) = 1" "hash_entry_count (locked sample_grow) = 0"
    by (simp_all add: locked_def sample_grow_def)
  have g: "ef_index_needs_grow 0 1" by (simp add: ef_index_needs_grow_def ef_policy_defs)
  have "\<not> readonly sample_grow" "\<not> txn_active sample_grow" by (simp_all add: sample_grow_def)
  then have "ef_index_put env sample_grow [107] 2 = put_locked (locked f) ?kh (ef_slot_to_offset f 2)"
    using off absent l g f(1)
    by (simp add: ef_index_put_def ef_index_require_write_def Let_def ef_txn_active_def write_begin_ready[OF r(1)] e lk
        write_begin_ready[OF f(2)])
  then have "fst (ef_index_put env sample_grow [107] 2) = EF_OK"
    using put_empty_ok[OF f(2,3), of ?kh "ef_slot_to_offset f 2"] by simp
  then show thesis using that by (cases "ef_index_put env sample_grow [107] 2") simp
qed

subsection \<open>Properties\<close>

text \<open>
  C11: a rehash that succeeds, growing or shrinking, loses no key and moves none to another slot,
  although it moves the slot area and rewrites every stored offset: \<^verbatim>\<open>ef_index_get\<close> answers as
  before for every key, every slot keeps its status and payload, and the free list is the same
  list of slots.
\<close>

theorem index_rehash_keeps_data:
  assumes "index_ready db" "index_points db" "rehash_fits db" "ef_index_rehash_to env db cap shrink = (EF_OK, db')"
  shows "(\<forall>key. ef_index_get db' key = ef_index_get db key) \<and> index_ready db' \<and> index_points db' \<and>
    (\<forall>j < max_slots (sb db). status (db_slot db' j) = status (db_slot db j) \<and> payload (db_slot db' j) = payload (db_slot db j)) \<and>
    (\<forall>ids. free_list_inv db ids \<longrightarrow> free_list_inv db' ids)"
  using rehash_to_ok[OF assms] by (simp add: same_data_def)

theorem index_rehash_keeps_data_witness:
  "\<forall>env. \<exists>db'. ef_index_rehash_to env (sample_grow\<lparr>index_seq := 0\<rparr>) 16 False = (EF_OK, db') \<and>
     ef_index_get db' [107] = ef_index_get (sample_grow\<lparr>index_seq := 0\<rparr>) [107]"
proof
  fix env
  obtain f where f: "ef_index_rehash_to env (sample_grow\<lparr>index_seq := 0\<rparr>) 16 False = (EF_OK, f)"
    using sample_grow_rehash[of 0] by auto
  have q: "index_ready (sample_grow\<lparr>index_seq := 0\<rparr>)" "index_points (sample_grow\<lparr>index_seq := 0\<rparr>)"
    "rehash_fits (sample_grow\<lparr>index_seq := 0\<rparr>)" by (rule sample_grow_seq; simp)+
  from f index_rehash_keeps_data[OF q f]
  show "\<exists>db'. ef_index_rehash_to env (sample_grow\<lparr>index_seq := 0\<rparr>) 16 False = (EF_OK, db') \<and>
     ef_index_get db' [107] = ef_index_get (sample_grow\<lparr>index_seq := 0\<rparr>) [107]" by blast
qed

text \<open>
  C13: \<^verbatim>\<open>ef_index_put\<close> has the same meaning whether or not the table has to grow first: afterwards
  \<^verbatim>\<open>ef_index_get\<close> returns the stored slot id for the key and the old answer for every key with
  another hash, slots keep status and payload, the free list is unchanged, and the index is again
  in a state from which the next insertion starts.
\<close>

theorem index_put_grows_then_get:
  assumes "index_ready db" "index_points db" "index_has_room db" "rehash_fits db" "i < max_slots (sb db)"
    "ef_index_put env db key i = (EF_OK, db')"
  shows "ef_index_get db' key = Inr i \<and>
    (\<forall>key'. ef_key_hash key' \<noteq> ef_key_hash key \<longrightarrow> ef_index_get db' key' = ef_index_get db key') \<and>
    (\<forall>j < max_slots (sb db). status (db_slot db' j) = status (db_slot db j) \<and> payload (db_slot db' j) = payload (db_slot db j)) \<and>
    (\<forall>ids. free_list_inv db ids \<longrightarrow> free_list_inv db' ids) \<and>
    index_ready db' \<and> index_points db' \<and> index_has_room db'"
proof -
  obtain f where f: "index_ready f" "index_points f" "same_data db f" "dom (index_lookup f) = dom (index_lookup db)" "index_has_room f"
    "card (insert (ef_key_hash key) (dom (index_lookup f))) < unat (hash_capacity f)"
    "put_locked (locked f) (ef_key_hash key) (ef_slot_to_offset f i) = (EF_OK, db')"
    by (rule put_cases[OF assms])
  have wf: "wf_layout f" using f(1) by (simp add: index_ready_def)
  have i: "i < max_slots (sb f)" using assms(5) f(3) by (simp add: same_data_def)
  note P = put_locked_ready[OF f(1,5) i f(7)]
  have off: "ef_offset_to_slot_id db' = ef_offset_to_slot_id f" "ef_slot_to_offset db' = ef_slot_to_offset f"
    using P(4) by (intro offset_cong; simp add: same_layout_def)+
  have get: "ef_index_get db' k = (if ef_key_hash k = ef_key_hash key then Inr i else ef_index_get f k)" for k
    using index_get_lookup[OF P(1)] index_get_lookup[OF f(1)] offset_to_slot_id_roundtrip[OF wf i] off(1)
    by (simp add: P(2) split: option.split)
  have "index_points db'" using f(2) i by (auto simp: index_points_def P(2,5) off split: if_splits)
  moreover have "index_inv db'" using P(1) by (simp add: index_ready_def)
  then have "index_has_room db'"
    using f(6) P(4) by (intro room_if_few) (simp_all add: P(2) same_layout_def)
  moreover have "free_list_inv db' ids" if "free_list_inv f ids" for ids
    using that P(3) by (subst free_list_inv_cong[OF P(4)]) (simp_all add: P(5))
  ultimately show ?thesis using get f(3) P(1,3) by (auto simp: same_data_def)
qed

theorem index_put_grows_then_get_witness:
  "\<forall>env. \<exists>db'. ef_index_put env sample_grow [107] 2 = (EF_OK, db') \<and> ef_index_get db' [107] = Inr 2"
proof
  fix env
  obtain db' where run: "ef_index_put env sample_grow [107] 2 = (EF_OK, db')" by (rule sample_grow_put)
  have "2 < max_slots (sb sample_grow)" by (simp add: sample_grow_def)
  from run index_put_grows_then_get[OF sample_grow_ready(1-4) this run]
  show "\<exists>db'. ef_index_put env sample_grow [107] 2 = (EF_OK, db') \<and> ef_index_get db' [107] = Inr 2" by blast
qed

end
