(* ===== verification/Grow_Props.thy ===== *)
theory Grow_Props
  imports Grow Open_Props Txn_Abort
begin

text \<open>
  Growing the slot area: the new slots go to the front of the free list, the old ones and the
  index stay as they are. The undo log is not moved along.
\<close>

subsection \<open>Appending slots\<close>

text \<open>One new slot: what it becomes, and what the rest keeps.\<close>

lemma append_slot_facts:
  fixes i :: u64 and db :: ef_db
  assumes wf: "wf_layout db"
  defines "d \<equiv> append_slot (unat i) db"
  shows "same_layout db d"
    "sb d = (sb db)\<lparr>free_list_head := ef_slot_to_offset db i, free_count := free_count (sb db) + 1\<rparr>"
    "status (db_slot d i) = EF_STATUS_FREE" "next_offset (db_slot d i) = free_list_head (sb db)"
    "j \<noteq> i \<Longrightarrow> db_slot d j = db_slot db j" "table d = table db" "\<exists>m. d = db\<lparr>mem := m\<rparr>"
proof -
  have p: "64 \<le> db_slot_ptr db k" for k using wf wf_layout_base_ge slot_ptr_ge le_trans by blast
  define z where "z = mem_set (mem db) (db_slot_ptr db i) 0 64"
  have sbz: "sb_of z = sb db" unfolding z_def by (rule sb_of_mem_set[OF p])
  have zo: "slot_at z (db_slot_ptr db j) = db_slot db j" if "j \<noteq> i" for j
    unfolding z_def using slot_at_store_other[of "unat i" "unat j" 0 "replicate 64 0"] unat_inj_slot[of i j] that by (auto simp: mem_set_store)
  let ?n = "set_next_offset (set_status z (db_slot_ptr db i) EF_STATUS_FREE) (db_slot_ptr db i) (free_list_head (sb db))"
  have "ef_slot_to_offset (db\<lparr>mem := ?n\<rparr>) = ef_slot_to_offset db"
    using p[of i] sbz by (intro same_layout_offset) (simp add: same_layout_def)
  then have off: "ef_slot_to_offset (db\<lparr>mem := ?n\<rparr>) i = ef_slot_to_offset db i" by simp
  have d: "d = db\<lparr>mem := ef_sb_free_count_inc (set_free_list_head (set_next_offset (set_status z (db_slot_ptr db i) EF_STATUS_FREE)
      (db_slot_ptr db i) (free_list_head (sb db))) (ef_slot_to_offset db i))\<rparr>"
    using p[of i] sbz by (simp add: d_def append_slot_def Let_def off z_def[symmetric])
  show "\<exists>m. d = db\<lparr>mem := m\<rparr>" by (rule exI, rule d)
  show sb: "sb d = (sb db)\<lparr>free_list_head := ef_slot_to_offset db i, free_count := free_count (sb db) + 1\<rparr>"
    using p[of i] sbz by (simp add: d)
  show "same_layout db d" using sb by (simp add: same_layout_def) (simp add: d)
  show "status (db_slot d i) = EF_STATUS_FREE" "next_offset (db_slot d i) = free_list_head (sb db)"
    using p by (simp_all add: d)
  show "j \<noteq> i \<Longrightarrow> db_slot d j = db_slot db j"
    using p zo unat_inj_slot[of i j] by (simp add: d)
  have "table_of z 64 (unat (hash_capacity db)) = table db"
    using table_end[OF wf, of i] by (simp add: z_def table_def mem_set_store table_of_store_disjoint)
  then show "table d = table db"
    using table_end[OF wf, of i] p by (simp add: d table_def)
qed

lemma append_slot_inv:
  assumes inv: "free_list_inv db ids" and i: "i < max_slots (sb db)" "i \<notin> set ids" and room: "Suc (length ids) < 2 ^ 32"
  shows "free_list_inv (append_slot (unat i) db) (i # ids)"
proof -
  have wf: "wf_layout db" using inv by (simp add: free_list_inv_def)
  note s = append_slot_facts[OF wf, where i = i]
  let ?d = "append_slot (unat i) db"
  have "db_slot ?d j = db_slot db j" if "j \<in> set ids" for j using that i(2) by (intro s(5)) auto
  then have "free_chain ?d (free_list_head (sb db)) ids = free_chain db (free_list_head (sb db)) ids"
    by (intro free_chain_cong[OF s(1)]) simp
  then have "free_chain ?d (free_list_head (sb ?d)) (i # ids)"
    using inv s(2-4) i(1) by (simp add: free_list_inv_def same_layout_offset[OF s(1)])
  then show ?thesis
    using inv s(2) same_layout_wf[OF s(1)] i(2) room by (simp add: free_list_inv_def add.commute)
qed

definition grown :: "ef_db \<Rightarrow> ef_db \<Rightarrow> u64 list \<Rightarrow> u64 list \<Rightarrow> bool" where
  "grown db db' new ids \<longleftrightarrow>
     free_list_inv db' (rev new @ ids) \<and> same_layout db db' \<and> table db' = table db \<and>
     (\<forall>j. j \<notin> set new \<longrightarrow> db_slot db' j = db_slot db j) \<and> (\<exists>m. db' = db\<lparr>mem := m\<rparr>) \<and>
     (\<exists>h c. sb db' = (sb db)\<lparr>free_list_head := h, free_count := c\<rparr>)"

lemma append_fold:
  assumes "free_list_inv db ids" "\<forall>i \<in> set new. i < max_slots (sb db)" "distinct (new @ ids)" "length (new @ ids) < 2 ^ 32"
  shows "grown db (fold append_slot (map unat new) db) new ids"
  using assms
proof (induction new arbitrary: db ids)
  case Nil
  have "\<exists>h c. sb db = (sb db)\<lparr>free_list_head := h, free_count := c\<rparr>"
    by (intro exI[of _ "free_list_head (sb db)"] exI[of _ "free_count (sb db)"]) simp
  moreover have "\<exists>m. db = db\<lparr>mem := m\<rparr>" by (rule exI[of _ "mem db"]) simp
  ultimately show ?case using Nil by (simp add: grown_def same_layout_def)
next
  case (Cons i new)
  let ?d = "append_slot (unat i) db"
  have wf: "wf_layout db" using Cons.prems(1) by (simp add: free_list_inv_def)
  note s = append_slot_facts[OF wf, where i = i]
  have "free_list_inv ?d (i # ids)" using Cons.prems by (intro append_slot_inv) simp_all
  moreover have "max_slots (sb ?d) = max_slots (sb db)" by (simp add: s(2))
  ultimately have IH: "grown ?d (fold append_slot (map unat new) ?d) new (i # ids)"
    using Cons.prems by (intro Cons.IH) auto
  let ?e = "fold append_slot (map unat new) ?d"
  have "db_slot ?e j = db_slot db j" if "j \<notin> set (i # new)" for j
  proof -
    have "db_slot ?e j = db_slot ?d j" using IH that by (simp add: grown_def)
    also have "\<dots> = db_slot db j" using that by (intro s(5)) simp
    finally show ?thesis .
  qed
  moreover obtain m m' where "?d = db\<lparr>mem := m\<rparr>" "?e = ?d\<lparr>mem := m'\<rparr>" using s(7) IH unfolding grown_def by blast
  then have "?e = db\<lparr>mem := m'\<rparr>" by simp
  moreover have "\<exists>h c. sb ?e = (sb db)\<lparr>free_list_head := h, free_count := c\<rparr>"
  proof -
    obtain h c where "sb ?e = (sb ?d)\<lparr>free_list_head := h, free_count := c\<rparr>" using IH unfolding grown_def by blast
    then show ?thesis by (intro exI[of _ h] exI[of _ c]) (simp add: s(2))
  qed
  moreover have "same_layout db ?e" using s(1) IH by (simp add: grown_def same_layout_def)
  ultimately show ?case using IH s(6) unfolding grown_def by auto
qed

subsection \<open>Growth of a memory database\<close>

text \<open>The buffer holds the file with \<open>n\<close> slots.\<close>

definition grow_fits :: "ef_db \<Rightarrow> u64 \<Rightarrow> bool" where
  "grow_fits db n \<longleftrightarrow>
     max_slots (sb db) < n \<and> backend db = EF_BACKEND_MEMORY \<and>
     64 + 16 * unat (hash_capacity db) + 64 * unat n + 32 + 32 * unat (undo_log_slots db) \<le> unat (map_capacity db)"

lemma expected_size_nat:
  assumes "64 + 16 * unat cap + 64 * unat n + 32 + 32 * unat k < 2 ^ 64"
  shows "unat (ef_expected_file_size n cap k) = 64 + 16 * unat cap + 64 * unat n + 32 + 32 * unat k"
proof -
  have "unat (ucast cap * 16 :: u64) = 16 * unat cap" "unat (ucast k * 32 :: u64) = 32 * unat k"
    using unat_u32_bound[of cap] unat_u32_bound[of k] by (simp_all add: unat_word_ariths unsigned_ucast_eq take_bit_nat_eq_self)
  then show ?thesis using assms by (simp add: ef_expected_file_size_def unat_word_ariths)
qed

text \<open>The handle just before the new slots are linked.\<close>

definition grow_start :: "ef_db \<Rightarrow> u64 \<Rightarrow> ef_db" where
  "grow_start db n =
     (let new_size = ef_expected_file_size n (hash_capacity db) (undo_log_slots db);
          old_size = ef_expected_file_size (max_slots (sb db)) (hash_capacity db) (undo_log_slots db)
      in db\<lparr>file_size := new_size,
            mem := set_max_slots (mem_set (mem db) (unat old_size) 0 (unat (new_size - old_size))) n\<rparr>)"

lemma grow_start_facts:
  assumes wf: "wf_layout db" and fit: "grow_fits db n"
  shows "wf_layout (grow_start db n)" "sb (grow_start db n) = (sb db)\<lparr>max_slots := n\<rparr>" "table (grow_start db n) = table db"
    "j < max_slots (sb db) \<Longrightarrow> db_slot (grow_start db n) j = db_slot db j"
    "j < max_slots (sb db) \<Longrightarrow> ef_slot_to_offset (grow_start db n) j = ef_slot_to_offset db j"
proof -
  let ?k = "undo_log_slots db" and ?c = "hash_capacity db" and ?old = "max_slots (sb db)"
  have lt: "unat ?old < unat n" using fit by (simp add: grow_fits_def word_less_nat_alt)
  have b: "64 + 16 * unat ?c + 64 * unat n + 32 + 32 * unat ?k < 2 ^ 64"
    using fit unat_u64_bound[of "map_capacity db"] by (simp add: grow_fits_def)
  then have new: "unat (ef_expected_file_size n ?c ?k) = 64 + 16 * unat ?c + 64 * unat n + 32 + 32 * unat ?k"
    by (rule expected_size_nat)
  have old: "unat (ef_expected_file_size ?old ?c ?k) = 64 + 16 * unat ?c + 64 * unat ?old + 32 + 32 * unat ?k"
    using b lt by (intro expected_size_nat) simp
  define m where "m = mem_set (mem db) (unat (ef_expected_file_size ?old ?c ?k)) 0
      (unat (ef_expected_file_size n ?c ?k - ef_expected_file_size ?old ?c ?k))"
  have g: "grow_start db n = db\<lparr>file_size := ef_expected_file_size n ?c ?k, mem := set_max_slots m n\<rparr>"
    by (simp add: grow_start_def Let_def m_def)
  have low: "m x = mem db x" if "x < 64 + 16 * unat ?c + 64 * unat ?old" for x
    using that old by (simp add: m_def mem_set_def)
  have "sb_of m = sb db" by (rule sb_of_cong) (simp add: low)
  then show sb: "sb (grow_start db n) = (sb db)\<lparr>max_slots := n\<rparr>" by (simp add: g)
  have base: "unat (slots_base db) = 64 + 16 * unat ?c" by (rule wf_layout_base[OF wf])
  have "slot_ptr (unat (slots_base db)) (unat n) \<le> unat (ef_expected_file_size n ?c ?k)"
    using new base by (simp add: slot_ptr_def EF_SLOT_SIZE_def)
  then have "layout_ok (mapped db) ?c (hash_index db) (slots_base db) (ef_expected_file_size n ?c ?k) n"
    using wf unfolding wf_layout_def layout_ok_def by blast
  then show "wf_layout (grow_start db n)" unfolding wf_layout_def sb by (simp add: g)
  have "table_of m 64 (unat ?c) = table db"
    unfolding table_def table_of_def by (rule map_cong[OF refl], rule entry_at_cong) (simp add: low)
  then show "table (grow_start db n) = table db" by (simp add: table_def g)
  assume j: "j < ?old"
  have "slot_at m (db_slot_ptr db j) = db_slot db j"
    using slot_ptr_less[of "unat j" "unat ?old" "unat (slots_base db)"] j base
    by (intro slot_at_cong low) (simp add: word_less_nat_alt slot_ptr_def EF_SLOT_SIZE_def)
  moreover have "64 \<le> db_slot_ptr db j" using wf wf_layout_base_ge slot_ptr_ge le_trans by blast
  ultimately show "db_slot (grow_start db n) j = db_slot db j" by (simp add: g)
  have "\<not> n \<le> j" "\<not> ?old \<le> j" using j fit by (auto simp: grow_fits_def)
  then show "ef_slot_to_offset (grow_start db n) j = ef_slot_to_offset db j"
    using sb by (simp add: ef_slot_to_offset_def) (simp add: g)
qed

lemma new_slot_ids:
  fixes a b :: u64
  shows "[unat a..<unat b] = map unat (map of_nat [unat a..<unat b] :: u64 list)"
proof -
  have "map (unat \<circ> (of_nat :: nat \<Rightarrow> u64)) [unat a..<unat b] = [unat a..<unat b]"
    using unat_u64_bound[of b] by (intro map_idI) (simp add: unat_of_nat take_bit_nat_eq_self)
  then show ?thesis by simp
qed

lemma grow_ok:
  fixes n :: u64
  assumes inv: "free_list_inv db ids" and fit: "grow_fits db n" and w: "\<not> readonly db" "\<not> txn_active db"
    and room: "length ids + (unat n - unat (max_slots (sb db))) < 2 ^ 32"
  defines "new \<equiv> map of_nat [unat (max_slots (sb db))..<unat n] :: u64 list"
  obtains d db' where "ef_grow env db n = (EF_OK, db')" "grown (grow_start db n) d new ids"
    "db' = ef_set_error (ef_db_mark_meta_dirty d) EF_OK"
proof -
  have wf: "wf_layout db" using inv by (simp add: free_list_inv_def)
  note g = grow_start_facts[OF wf fit]
  have lt: "\<not> n \<le> max_slots (sb db)" and mem: "backend db = EF_BACKEND_MEMORY" using fit by (auto simp: grow_fits_def)
  let ?s = "grow_start db n" and ?d = "fold append_slot (map unat new) (grow_start db n)"
  have old: "i < max_slots (sb db) \<and> status (db_slot db i) = EF_STATUS_FREE" if "i \<in> set ids" for i
    using inv that free_chain_slots by (auto simp: free_list_inv_def)
  have "free_chain ?s off ids" if "free_chain db off ids" for off
    using that old
  proof (induction ids arbitrary: off)
    case (Cons i rest)
    then have i: "i < max_slots (sb db)" by simp
    moreover have "i < n" using i lt by simp
    ultimately show ?case using Cons g(2) g(4)[OF i] g(5)[OF i] by simp
  qed simp
  then have "free_list_inv ?s ids" using inv g(1,2) by (simp add: free_list_inv_def)
  moreover have "\<forall>i \<in> set new. i < max_slots (sb ?s)"
    using unat_u64_bound[of n] by (auto simp: new_def g(2) word_less_nat_alt unat_of_nat take_bit_nat_eq_self)
  moreover have "distinct (new @ ids)"
  proof -
    have "distinct (map unat new)" unfolding new_def new_slot_ids[symmetric] by simp
    then have "distinct new" by (simp only: distinct_map)
    moreover have "i \<notin> set ids" if "i \<in> set new" for i
      using that old[of i] unat_u64_bound[of n] by (auto simp: new_def word_less_nat_alt unat_of_nat take_bit_nat_eq_self)
    ultimately show ?thesis using inv by (auto simp: free_list_inv_def)
  qed
  moreover have "length (new @ ids) < 2 ^ 32" using room by (simp add: new_def)
  ultimately have G: "grown ?s ?d new ids" by (rule append_fold)
  have "unat (ef_expected_file_size n (hash_capacity db) (undo_log_slots db)) \<le> unat (map_capacity db)"
    using fit unat_u64_bound[of "map_capacity db"] by (subst expected_size_nat) (simp_all add: grow_fits_def)
  then have "\<not> map_capacity db < ef_expected_file_size n (hash_capacity db) (undo_log_slots db)"
    by (simp add: word_less_nat_alt)
  then have "ef_grow env db n = (EF_OK, ef_set_error (ef_db_mark_meta_dirty ?d) EF_OK)"
    using w lt mem wf unfolding ef_grow_def ef_grow_append_slots_def new_def new_slot_ids[symmetric]
    by (simp add: ef_db_require_write_def ef_txn_active_def grow_start_def Let_def)
  with G that show thesis by blast
qed

subsection \<open>Properties\<close>

definition sample_pool_grow :: ef_db where
  "sample_pool_grow = sample_queue\<lparr>map_capacity := 10000, undo_log_base := 576, undo_log_slots := 8\<rparr>"

lemma sample_pool_grow_inv:
  "free_list_inv sample_pool_grow [0, 1, 2]" "grow_fits sample_pool_grow 6" "\<not> readonly sample_pool_grow" "\<not> txn_active sample_pool_grow"
  "max_slots (sb sample_pool_grow) = 4"
proof -
  have "free_list_inv sample_pool_grow [0, 1, 2] = free_list_inv sample_queue [0, 1, 2]"
    by (rule free_list_inv_cong) (simp_all add: sample_pool_grow_def same_layout_def)
  then show "free_list_inv sample_pool_grow [0, 1, 2]" using sample_queue_free by simp
  show m: "max_slots (sb sample_pool_grow) = 4" by (simp add: sample_pool_grow_def sb_sample_queue)
  show "grow_fits sample_pool_grow 6" using m by (simp add: grow_fits_def) (simp add: sample_pool_grow_def sample_queue_def)
  show "\<not> readonly sample_pool_grow" "\<not> txn_active sample_pool_grow" by (simp_all add: sample_pool_grow_def sample_queue_def)
qed

text \<open>
  C14: growing a database in a buffer that is large enough succeeds. The free list then consists of
  the new slots, the last one first, followed by the old free slots, and \<^verbatim>\<open>free_count\<close> counts them
  all; the old slots and the index are byte for byte what they were.
\<close>

theorem grow_appends_slots:
  assumes "free_list_inv db ids" "grow_fits db n" "\<not> readonly db" "\<not> txn_active db"
    "length ids + (unat n - unat (max_slots (sb db))) < 2 ^ 32"
  shows "\<exists>db'. ef_grow env db n = (EF_OK, db') \<and> max_slots (sb db') = n \<and>
    free_list_inv db' (rev (map of_nat [unat (max_slots (sb db))..<unat n]) @ ids) \<and>
    (\<forall>j < max_slots (sb db). db_slot db' j = db_slot db j) \<and> table db' = table db"
proof -
  let ?new = "map of_nat [unat (max_slots (sb db))..<unat n] :: u64 list"
  obtain d db' where run: "ef_grow env db n = (EF_OK, db')" and G: "grown (grow_start db n) d ?new ids"
    and db': "db' = ef_set_error (ef_db_mark_meta_dirty d) EF_OK"
    by (rule grow_ok[OF assms])
  have wf: "wf_layout db" using assms(1) by (simp add: free_list_inv_def)
  note g = grow_start_facts[OF wf assms(2)]
  have "free_list_inv db' (rev ?new @ ids) = free_list_inv d (rev ?new @ ids)"
    by (rule free_list_inv_cong) (simp_all add: db' same_layout_def)
  moreover have "db_slot db' j = db_slot db j" if "j < max_slots (sb db)" for j
  proof -
    have "j \<notin> set ?new" using that unat_u64_bound[of n] by (auto simp: word_less_nat_alt unat_of_nat take_bit_nat_eq_self)
    then have "db_slot d j = db_slot (grow_start db n) j" using G by (simp add: grown_def)
    then show ?thesis using g(4)[OF that] by (simp add: db')
  qed
  moreover have "table db' = table db" using G g(3) by (simp add: grown_def db' table_def)
  moreover have "max_slots (sb db') = n" using G g(2) by (simp add: grown_def db' same_layout_def)
  ultimately show ?thesis using run G by (simp add: grown_def)
qed

theorem grow_appends_slots_witness:
  "\<forall>env. \<exists>db'. ef_grow env sample_pool_grow 6 = (EF_OK, db') \<and> free_list_inv db' [5, 4, 0, 1, 2]"
proof
  fix env
  have "length [0 :: u64, 1, 2] + (unat (6 :: u64) - unat (max_slots (sb sample_pool_grow))) < 2 ^ 32"
    by (simp add: sample_pool_grow_inv(5))
  from grow_appends_slots[OF sample_pool_grow_inv(1-4) this, of env]
  show "\<exists>db'. ef_grow env sample_pool_grow 6 = (EF_OK, db') \<and> free_list_inv db' [5, 4, 0, 1, 2]"
    by (auto simp: sample_pool_grow_inv(5) upt_rec)
qed

text \<open>The log bytes are zeroed by \<^verbatim>\<open>ef_txn_begin\<close>, wherever \<open>undo_log_base\<close> points.\<close>

lemma begin_zeroes:
  assumes wf: "wf_layout db" and v: "EF_SCHEMA_VERSION \<le> schema_version (sb db)" and f: "\<not> readonly db" "\<not> txn_active db" "txn_lock (sb db) = 0"
    and base: "64 \<le> unat (undo_log_base db)"
  obtains db2 where "ef_txn_begin pid db = (EF_OK, db2)" "same_layout db db2"
    "sb db2 = (sb db)\<lparr>txn_lock := 1, sb_txn_state := EF_TXN_STATE_ACTIVE\<rparr>"
    "\<forall>x. unat (undo_log_base db) \<le> x \<and> x < unat (undo_log_base db) + unat (undo_log_bytes db) \<longrightarrow> mem db2 x = 0"
proof -
  define m where "m = set_sb_txn_state (set_txn_lock (mem db) 1) EF_TXN_STATE_ACTIVE"
  define d where "d = db\<lparr>txn_state := EF_TXN_STATE_ACTIVE, txn_active := True, txn_writer_pid := pid,
      mem := mem_set m (unat (undo_log_base db)) 0 (unat (undo_log_bytes db)), undo_tail := EF_UNDO_HEADER_SIZE, undo_record_count := 0\<rparr>"
  have m: "mapped db" "undo_log_base db \<noteq> 0" using wf base by auto
  have run: "ef_txn_begin pid db = (EF_OK, ef_set_error (ef_db_mark_meta_dirty (ef_db_mark_meta_dirty d)) EF_OK)"
    using v f m by (simp add: ef_txn_begin_def txn_lock_take Let_def ef_sb_txn_state_store_def ef_undo_reset_def
        ef_undo_header_ptr_def undo_log_bytes_def d_def m_def not_less)
  have sbm: "sb_of m = (sb db)\<lparr>txn_lock := 1, sb_txn_state := EF_TXN_STATE_ACTIVE\<rparr>" by (simp add: m_def)
  then have sbd: "sb d = (sb db)\<lparr>txn_lock := 1, sb_txn_state := EF_TXN_STATE_ACTIVE\<rparr>"
    using base by (simp add: d_def sb_of_mem_set)
  then have "same_layout db d" by (simp add: same_layout_def) (simp add: d_def)
  then have "same_layout db (ef_set_error (ef_db_mark_meta_dirty (ef_db_mark_meta_dirty d)) EF_OK)" by (simp add: same_layout_def)
  moreover have "mem d x = 0" if "unat (undo_log_base db) \<le> x" "x < unat (undo_log_base db) + unat (undo_log_bytes db)" for x
    using that by (simp add: d_def mem_set_def)
  ultimately show thesis using that[OF run] sbd by simp
qed

lemma zero_slot: "(\<And>x. p \<le> x \<Longrightarrow> x < p + 64 \<Longrightarrow> m x = 0) \<Longrightarrow> status (slot_at m p) = 0 \<and> next_offset (slot_at m p) = 0"
proof -
  assume "\<And>x. p \<le> x \<Longrightarrow> x < p + 64 \<Longrightarrow> m x = 0"
  then have "slot_at m p = slot_at (\<lambda>_. 0) p" by (intro slot_at_cong) simp
  then show ?thesis by (simp add: slot_at_def word_loads load_bytes_def map_replicate_const)
qed

lemma undo_log_bytes_nat: "unat (undo_log_bytes db) = 32 + 32 * unat (undo_log_slots db)"
  using unat_u32_bound[of "undo_log_slots db"]
  by (simp add: undo_log_bytes_def ef_undo_size_defs unat_word_ariths unsigned_ucast_eq take_bit_nat_eq_self)

lemma new_slots_last:
  fixes old n :: u64
  assumes "unat old < unat n"
  shows "map of_nat [unat old..<unat n] = map of_nat [unat old..<unat n - 1] @ [n - 1]"
proof -
  obtain k where k: "unat n = Suc k" "unat old \<le> k" using assms by (cases "unat n") auto
  have "unat (n - 1) = unat n - 1" using assms by (intro unat_minus_one) auto
  then have "of_nat k = n - 1" using k by auto
  then show ?thesis using k by simp
qed

text \<open>
  C25: growth leaves \<^verbatim>\<open>undo_log_base\<close> where the slot area used to end, that is on the first new slot. The
  next \<^verbatim>\<open>ef_txn_begin\<close> clears the log and with it the new slots, of which the last one is the head
  of the free list: the list then ends after its head, while \<^verbatim>\<open>free_count\<close> still counts every free
  slot. All other free slots are lost to the allocator.
\<close>

theorem grow_then_begin_loses_pool:
  assumes inv: "free_list_inv db ids" and fit: "grow_fits db n" and w: "\<not> readonly db" "\<not> txn_active db"
    and room: "length ids + (unat n - unat (max_slots (sb db))) < 2 ^ 32"
    and log: "unat (undo_log_base db) = db_slot_ptr db (max_slots (sb db))"
      "64 * (unat n - unat (max_slots (sb db))) \<le> 32 + 32 * unat (undo_log_slots db)"
    and ready: "EF_SCHEMA_VERSION \<le> schema_version (sb db)" "txn_lock (sb db) = 0"
  shows "\<exists>db1 db2. ef_grow env db n = (EF_OK, db1) \<and> ef_txn_begin pid db1 = (EF_OK, db2) \<and>
    free_chain db2 (free_list_head (sb db2)) [n - 1] \<and>
    free_count (sb db2) = of_nat (length ids + (unat n - unat (max_slots (sb db))))"
proof -
  let ?old = "max_slots (sb db)" and ?new = "map of_nat [unat (max_slots (sb db))..<unat n] :: u64 list"
  obtain d db1 where run: "ef_grow env db n = (EF_OK, db1)" and G: "grown (grow_start db n) d ?new ids"
    and db1: "db1 = ef_set_error (ef_db_mark_meta_dirty d) EF_OK"
    by (rule grow_ok[OF inv fit w room])
  have wf: "wf_layout db" using inv by (simp add: free_list_inv_def)
  note g = grow_start_facts[OF wf fit]
  obtain m h c where d: "d = (grow_start db n)\<lparr>mem := m\<rparr>" and sbm: "sb_of m = (sb db)\<lparr>max_slots := n, free_list_head := h, free_count := c\<rparr>"
    using G g(2) unfolding grown_def by auto
  have "same_layout (grow_start db n) db1" using G by (simp add: grown_def db1 same_layout_def)
  then have wf1: "wf_layout db1" using g(1) same_layout_wf by blast
  have D: "undo_log_base db1 = undo_log_base db" "undo_log_bytes db1 = undo_log_bytes db" "slots_base db1 = slots_base db"
    "\<not> readonly db1" "\<not> txn_active db1" "sb db1 = (sb db)\<lparr>max_slots := n, free_list_head := h, free_count := c\<rparr>"
    using w by (simp_all add: db1 d sbm undo_log_bytes_def) (simp_all add: grow_start_def Let_def)
  have base: "64 \<le> unat (undo_log_base db1)" using log(1) D(1) slot_ptr_ge[of "unat (slots_base db)"] wf_layout_base_ge[OF wf] le_trans by metis
  have v: "EF_SCHEMA_VERSION \<le> schema_version (sb db1)" "txn_lock (sb db1) = 0" using ready by (simp_all add: D(6))
  obtain db2 where bgn: "ef_txn_begin pid db1 = (EF_OK, db2)" and lay: "same_layout db1 db2"
    and sb2: "sb db2 = (sb db1)\<lparr>txn_lock := 1, sb_txn_state := EF_TXN_STATE_ACTIVE\<rparr>"
    and zero: "\<forall>x. unat (undo_log_base db1) \<le> x \<and> x < unat (undo_log_base db1) + unat (undo_log_bytes db1) \<longrightarrow> mem db2 x = 0"
    by (rule begin_zeroes[OF wf1 v(1) D(4,5) v(2) base, where pid = pid])
  have lt: "unat ?old < unat n" using fit by (simp add: grow_fits_def word_less_nat_alt)
  then have n1: "unat (n - 1) = unat n - 1" by (intro unat_minus_one) auto
  note bytes = undo_log_bytes_nat[of db]
  have sl: "status (db_slot db2 (n - 1)) = 0 \<and> next_offset (db_slot db2 (n - 1)) = 0"
    using lay D(1-3) log bytes lt n1
    by (intro zero_slot zero[rule_format] conjI) (simp_all add: same_layout_def slot_ptr_def EF_SLOT_SIZE_def)
  have inv1: "free_list_inv d (rev ?new @ ids)" using G by (simp add: grown_def)
  have "h = ef_slot_to_offset d (n - 1)" using new_slots_last[OF lt] free_list_inv_head(1)[of d "n - 1"] inv1 by (simp add: d sbm)
  moreover have "ef_slot_to_offset db2 = ef_slot_to_offset d"
    using same_layout_offset[OF lay] same_layout_offset[of d db1] by (simp add: db1 same_layout_def)
  moreover have "n - 1 < n" using lt n1 by (simp add: word_less_nat_alt)
  ultimately have "free_chain db2 (free_list_head (sb db2)) [n - 1]" using sl by (simp add: sb2 D(6) EF_STATUS_FREE_def)
  moreover have "c = of_nat (length ids + (unat n - unat ?old))"
    using inv1 by (simp add: free_list_inv_def d sbm add.commute)
  ultimately show ?thesis using run bgn by (simp add: sb2 D(6))
qed

theorem grow_then_begin_loses_pool_witness:
  "\<forall>env pid. \<exists>db1 db2. ef_grow env sample_pool_grow 6 = (EF_OK, db1) \<and> ef_txn_begin pid db1 = (EF_OK, db2) \<and>
     free_chain db2 (free_list_head (sb db2)) [5] \<and> free_count (sb db2) = 5"
proof (intro allI)
  fix env pid
  note s = sample_pool_grow_inv
  have sb: "sb sample_pool_grow = sb sample_queue" by (simp add: sample_pool_grow_def)
  show "\<exists>db1 db2. ef_grow env sample_pool_grow 6 = (EF_OK, db1) \<and> ef_txn_begin pid db1 = (EF_OK, db2) \<and>
     free_chain db2 (free_list_head (sb db2)) [5] \<and> free_count (sb db2) = 5"
    using grow_then_begin_loses_pool[OF s(1-4), of env pid] s(5)
    by (simp add: sb sb_sample_queue) (simp add: sample_pool_grow_def sample_queue_def slot_ptr_def EF_SLOT_SIZE_def)
qed

end
