(* ===== verification/Reopen.thy ===== *)
theory Reopen
  imports Rehash_Props
begin

text \<open>
  Closing a database and opening what it left in its buffer: the slots, the index and the queue
  survive, the free list is built anew from the status of the slots.
\<close>

subsection \<open>What rebuilding the free list leaves alone\<close>

lemma pool_write_relink:
  assumes "64 \<le> unat (slots_base db)"
  shows "pool_write db (fst (relink_free_slot k (db, c)))"
proof -
  let ?p = "slot_ptr (unat (slots_base db)) k"
  let ?d = "db\<lparr>mem := set_next_offset (mem db) ?p (free_list_head (sb db))\<rparr>"
  have "a < ?p" if "a < unat (slots_base db)" for a using that slot_ptr_ge less_le_trans by blast
  then have "pool_write db ?d"
    by (intro pool_write_slots[OF assms]) (simp add: set_next_offset_def store_u64_def store_bytes_frame trans_less_add1)
  from pool_write_trans[OF this pool_write_head[of ?d "ef_slot_to_offset db (of_nat k)"]]
  show ?thesis by (simp add: relink_free_slot_def Let_def pool_write_refl)
qed

text \<open>Status and payload stay everywhere, and links outside the free list.\<close>

definition relinked :: "ef_db \<Rightarrow> ef_db \<Rightarrow> bool" where
  "relinked db db' \<longleftrightarrow>
     pool_write db db' \<and>
     (\<forall>k. status (slot_n db' k) = status (slot_n db k) \<and> payload (slot_n db' k) = payload (slot_n db k) \<and>
          (status (slot_n db k) \<noteq> EF_STATUS_FREE \<longrightarrow> next_offset (slot_n db' k) = next_offset (slot_n db k)))"

lemma pool_write_wf: "pool_write db db' \<Longrightarrow> wf_layout db \<Longrightarrow> wf_layout db'"
  unfolding pool_write_def wf_layout_def by auto

lemma relinked_pool: "relinked a b \<Longrightarrow> pool_write a b"
  by (simp add: relinked_def)

lemmas relinked_wf = pool_write_wf[OF relinked_pool]

lemma relinked_trans:
  assumes "relinked a b" "relinked b c"
  shows "relinked a c"
proof -
  have "pool_write a c" using pool_write_trans[OF assms[THEN relinked_pool]] .
  moreover have "status (slot_n c k) = status (slot_n a k) \<and> payload (slot_n c k) = payload (slot_n a k) \<and>
      (status (slot_n a k) \<noteq> EF_STATUS_FREE \<longrightarrow> next_offset (slot_n c k) = next_offset (slot_n a k))" for k
    using assms[unfolded relinked_def] by (elim conjE allE[where x = k]) simp
  ultimately show ?thesis by (simp add: relinked_def)
qed

lemma relinked_base: "relinked a b \<Longrightarrow> slots_base b = slots_base a"
  by (simp add: relinked_def pool_write_base)

lemma relinked_step:
  assumes "64 \<le> unat (slots_base db)"
  shows "relinked db (fst (relink_free_slot k (db, c)))"
proof -
  have p: "64 \<le> slot_ptr (unat (slots_base db)) j" for j using assms slot_ptr_ge le_trans by blast
  have "slot_at (set_next_offset m (slot_ptr b k) v) (slot_ptr b j) =
      (if j = k then (slot_at m (slot_ptr b k))\<lparr>next_offset := v\<rparr> else slot_at m (slot_ptr b j))" for m b v j
    by simp
  then show ?thesis
    unfolding relinked_def using pool_write_relink[OF assms, of k c] p by (auto simp: relink_free_slot_def Let_def)
qed

lemma relinked_fold:
  "64 \<le> unat (slots_base db) \<Longrightarrow> relinked db (fst (fold relink_free_slot ks (db, c)))"
proof (induction ks arbitrary: db c)
  case Nil
  then show ?case by (simp add: relinked_def pool_write_refl)
next
  case (Cons k ks)
  obtain d e where d: "relink_free_slot k (db, c) = (d, e)" by fastforce
  have r: "relinked db d" using relinked_step[OF Cons.prems, of k c] d by simp
  then have "64 \<le> unat (slots_base d)" using Cons.prems relinked_base[OF r] by simp
  from relinked_trans[OF r Cons.IH[OF this]] d show ?case by simp
qed

text \<open>A write to the superblock that changes no field a pool write may not change.\<close>

lemma relinked_sb:
  assumes "wf_layout db" "pool_write db (db\<lparr>mem := m\<rparr>)" "\<And>p. 64 \<le> p \<Longrightarrow> slot_at m p = slot_at (mem db) p"
  shows "relinked db (db\<lparr>mem := m\<rparr>)"
proof -
  have "64 \<le> slot_ptr (unat (slots_base db)) j" for j using assms(1) wf_layout_base_ge slot_ptr_ge le_trans by blast
  then show ?thesis using assms(2,3) by (simp add: relinked_def)
qed

lemma rebuild_refreshes:
  assumes wf: "wf_layout db" and v: "schema_version (sb db) \<noteq> 0"
  obtains d where "relinked db d" "wf_layout d" "snd (ef_rebuild_free_list db) = ef_db_refresh_checksums d"
proof -
  define d0 where "d0 = upd_mem (\<lambda>m. set_free_list_head m 0) db"
  define ks where "ks = (let n = unat (max_slots (sb d0)) in if n < 2 ^ 63 then rev [0..<n] else [])"
  obtain d1 c where d1: "fold relink_free_slot ks (d0, 0) = (d1, c)" by fastforce
  define d2 where "d2 = upd_mem (\<lambda>m. ef_sb_free_count_store m (ucast c)) d1"
  define d3 where "d3 = upd_mem ef_sb_checksum_store d2"
  have r0: "relinked db d0" unfolding d0_def by (rule relinked_sb[OF wf pool_write_head]) simp
  have wf0: "wf_layout d0" using relinked_wf[OF r0 wf] .
  then have r1: "relinked d0 d1" using relinked_fold[of d0 ks 0] d1 by simp
  have wf1: "wf_layout d1" using relinked_wf[OF r1 wf0] .
  have r2: "relinked d1 d2" unfolding d2_def by (rule relinked_sb[OF wf1 pool_write_count]) (simp add: ef_sb_free_count_store_def)
  have wf2: "wf_layout d2" using relinked_wf[OF r2 wf1] .
  have r3: "relinked d2 d3" unfolding d3_def by (rule relinked_sb[OF wf2 pool_write_checksum]) simp
  have wf3: "wf_layout d3" using relinked_wf[OF r3 wf2] .
  have "relinked db d1" using relinked_trans r0 r1 by blast
  then have "schema_version (sb d1) \<noteq> 0" using v unfolding relinked_def pool_write_def by auto
  then have "d3 = upd_mem (\<lambda>m. ef_upgrade_superblock m c) d1" by (simp add: d3_def d2_def ef_upgrade_superblock_def)
  then have "snd (ef_rebuild_free_list db) = ef_db_refresh_checksums d3"
    using wf d1 by (auto simp: ef_rebuild_free_list_def Let_def d0_def ks_def split: if_splits)
  moreover have "relinked db d3" using r0 r1 r2 r3 relinked_trans by metis
  ultimately show thesis using that wf3 by blast
qed

lemma relinked_rebuild:
  assumes "wf_layout db" "schema_version (sb db) \<noteq> 0"
  shows "relinked db (snd (ef_rebuild_free_list db))"
proof -
  obtain d where d: "relinked db d" "wf_layout d" "snd (ef_rebuild_free_list db) = ef_db_refresh_checksums d"
    by (rule rebuild_refreshes[OF assms])
  have "relinked d (ef_db_refresh_checksums d)"
    using pool_write_refresh[of d] d(2) refresh_checksums_slots[OF d(2)] by (simp add: relinked_def)
  then show ?thesis using d(1,3) relinked_trans by metis
qed

subsection \<open>Closing\<close>

text \<open>
  A handle between operations whose superblock is in order. The checksum is either due at close or
  valid already, and is not 0, which stands for a missing one.
\<close>

definition storable :: "ef_db \<Rightarrow> bool" where
  "storable db \<longleftrightarrow>
     wf_layout db \<and> \<not> readonly db \<and> ef_magic_valid (mem db) \<and> slot_size (sb db) = 64 \<and>
     schema_version (sb db) = EF_SCHEMA_VERSION \<and> unat (max_slots (sb db)) < 2 ^ 32 \<and>
     ef_hash_capacity_from_sb (mem db) = hash_capacity db \<and> ef_hash_capacity_valid (hash_capacity db) \<and>
     file_size db = ef_expected_file_size (max_slots (sb db)) (hash_capacity db) 4096 \<and>
     sb_txn_state (sb db) \<noteq> EF_TXN_STATE_ACTIVE \<and>
     (if sb_meta_dirty db then ef_sb_checksum_compute (mem db) \<noteq> 0 else ef_sb_checksum_valid (mem db))"

lemma hash_capacity_v5:
  "schema_version (sb_of m) = EF_SCHEMA_VERSION \<Longrightarrow> ef_hash_capacity_from_sb m = ucast (hash_cap16 (sb_of m))"
  by (simp add: ef_hash_capacity_from_sb_def ef_sb_hash_capacity_load_def ef_sb_uses_v4_index_layout_def ef_version_defs)

lemma close_image:
  assumes "storable db"
  defines "m \<equiv> io_mem (ef_close db)"
  obtains k where "sb_of m = (sb db)\<lparr>sb_checksum := k\<rparr>" "\<And>a. 64 \<le> a \<Longrightarrow> m a = mem db a"
    "ef_sb_checksum_valid m" "ef_hash_capacity_from_sb m = hash_capacity db"
proof (cases "sb_meta_dirty db")
  case True
  have d: "mapped db" "\<not> readonly db" using assms(1) by (simp_all add: storable_def)
  then have m: "m = ef_sb_checksum_store (mem db)"
    using True by (simp add: m_def ef_close_def ef_db_commit_meta_def Let_def ef_port_close_def ef_db_to_io_def io_empty_def)
  obtain k where k: "m = set_sb_checksum (mem db) k" "flags (sb db) AND EF_FLAG_SB_CRC \<noteq> 0 \<longrightarrow> k = ef_sb_checksum_compute (mem db)"
    by (cases "flags (sb db) AND EF_FLAG_SB_CRC = 0") (simp_all add: m ef_sb_checksum_store_def)
  have "ef_sb_checksum_valid m"
    using k assms(1) True by (simp add: ef_sb_checksum_valid_def checksum_compute_set storable_def)
  moreover have "ef_hash_capacity_from_sb m = hash_capacity db"
    using assms(1) hash_capacity_v5[of "mem db"] hash_capacity_v5[of m] by (simp add: k(1) storable_def)
  moreover have "m a = mem db a" if "64 \<le> a" for a
    using that by (simp add: k(1) set_sb_checksum_def store_u32_def store_bytes_frame)
  ultimately show thesis using that[of k] by (simp add: k(1))
next
  case False
  have m: "m = mem db"
    using assms(1) False by (simp add: m_def ef_close_def ef_db_commit_meta_def Let_def ef_port_close_def ef_db_to_io_def io_empty_def storable_def)
  then show thesis using that[of "sb_checksum (sb db)"] assms(1) False by (simp add: storable_def)
qed

subsection \<open>Opening again\<close>

lemma image_facts:
  assumes st: "storable db"
  defines "m \<equiv> io_mem (ef_close db)"
  shows "schema_version (sb_of m) = EF_SCHEMA_VERSION" "slot_size (sb_of m) = 64" "max_slots (sb_of m) = max_slots (sb db)"
    "ef_magic_valid m" "ef_sb_txn_state_load m \<noteq> EF_TXN_STATE_ACTIVE" "ef_hash_capacity_from_sb m = hash_capacity db"
    "ef_validate_superblock m (file_size db) = EF_OK"
proof -
  obtain k where sbm: "sb_of m = (sb db)\<lparr>sb_checksum := k\<rparr>" and valid: "ef_sb_checksum_valid m"
    and cap: "ef_hash_capacity_from_sb m = hash_capacity db"
    unfolding m_def by (rule close_image[OF st]) blast
  show v: "schema_version (sb_of m) = EF_SCHEMA_VERSION" "slot_size (sb_of m) = 64" "max_slots (sb_of m) = max_slots (sb db)"
    "ef_magic_valid m" "ef_sb_txn_state_load m \<noteq> EF_TXN_STATE_ACTIVE" "ef_hash_capacity_from_sb m = hash_capacity db"
    using st cap by (simp_all add: sbm storable_def ef_magic_valid_def ef_sb_txn_state_load_def)
  show "ef_validate_superblock m (file_size db) = EF_OK"
    unfolding ef_validate_superblock_def Let_def v(1-3,6)
    using v(4) valid st by (simp add: storable_def EF_SLOT_SIZE_def EF_UNDO_LOG_DEFAULT_SLOTS_def)
qed

text \<open>The handle before the free list is rebuilt: nothing to migrate, nothing to recover.\<close>

lemma open_existing:
  assumes st: "storable db" and "env_calloc env" "ef_hash_capacity_valid cap" "file_size db \<le> buffer_size"
  obtains d where
    "ef_open_memory_hash env (io_mem (ef_close db)) buffer_size n cap False =
       Inr (ef_set_error (snd (ef_rebuild_free_list d)) EF_OK)"
    "mem d = io_mem (ef_close db)" "same_layout db d" "hash_entry_count d = 0" "index_seq d = 0"
    "\<not> readonly d" "\<not> txn_active d"
proof -
  define m where "m = io_mem (ef_close db)"
  define N where "N = file_size db"
  note v = image_facts[OF st, folded m_def] and cap = image_facts(6)[OF st, folded m_def]
  define db0 where "db0 = (ef_db_bind_io ef_db_zero \<lparr>io_mem = m, io_mapped = True, map_size = N,
     io_capacity = N, io_backend = EF_BACKEND_MEMORY, io_readonly = False\<rparr>)\<lparr>file_size := N, map_capacity := buffer_size\<rparr>"
  define d where "d = ef_db_bind_slots_layout db0"
  have wf: "wf_layout db" using st by (simp add: storable_def)
  have db0: "mem db0 = m" "mapped db0" "file_size db0 = N" "\<not> readonly db0" "backend db0 = EF_BACKEND_MEMORY"
    "hash_entry_count db0 = 0" "index_seq db0 = 0" "\<not> txn_active db0"
    by (simp_all add: db0_def ef_db_bind_io_def ef_db_bind_slots_layout_def ef_db_zero_def Let_def)
  have d: "mem d = m" "mapped d" "file_size d = N" "\<not> readonly d" "hash_entry_count d = 0" "index_seq d = 0" "\<not> txn_active d"
    "hash_capacity d = hash_capacity db" "undo_log_slots d = 4096"
    using db0 by (simp_all add: d_def ef_db_bind_slots_layout_def Let_def cap EF_UNDO_LOG_DEFAULT_SLOTS_def)
  have "slots_base d = 64 + ucast (hash_capacity db) * 16" "hash_index d = (if hash_capacity db = 0 then None else Some 64)"
    using db0(1,2) by (simp_all add: d_def ef_db_bind_slots_layout_def Let_def cap word_gt_0)
  then have lay: "same_layout db d"
    using wf by (simp add: same_layout_def wf_layout_def layout_ok_def d(1-3,8) v(3) N_def)
  have N: "N = ef_expected_file_size (max_slots (sb db)) (hash_capacity db) 4096" "N \<le> buffer_size"
    using st assms(4) by (simp_all add: N_def storable_def)
  have wfd: "wf_layout d" using wf same_layout_wf[OF lay] by simp
  have "ef_validate_superblock m N = EF_OK" unfolding N_def by (rule v(7))
  moreover have "migrate_on_open d = (EF_OK, d)"
    using v(1) by (simp add: migrate_on_open_def d(1)) (simp add: ef_version_defs)
  moreover have "ef_txn_recover_from_stale_lock env d = (EF_OK, d)"
    unfolding ef_txn_recover_from_stale_lock_def d(1) using v(5) by simp
  moreover obtain d2 where r: "ef_rebuild_free_list d = (EF_OK, d2)"
    using rebuild_free_list_inv(1)[OF wfd refl] st lay by (cases "ef_rebuild_free_list d") (simp add: same_layout_def storable_def)
  moreover have "\<not> file_size d2 < ef_expected_file_size (max_slots (sb d2)) (ef_hash_capacity_from_sb (mem d2)) (undo_log_slots d2)"
  proof -
    have "schema_version (sb d) \<noteq> 0" using v(1) d(1) by (simp add: ef_version_defs)
    from relinked_pool[OF relinked_rebuild[OF wfd this]] obtain m' h c k' where
      d2: "d2 = d\<lparr>mem := m'\<rparr>" "sb_of m' = (sb_of m)\<lparr>free_list_head := h, free_count := c, sb_checksum := k'\<rparr>"
      unfolding r snd_conv pool_write_def d(1) by blast
    have "ef_hash_capacity_from_sb m' = ef_hash_capacity_from_sb m"
      using v(1) by (simp add: hash_capacity_v5 d2(2))
    then show ?thesis using d N(1) v(3) by (simp add: d2 cap)
  qed
  ultimately have run: "ef_db_init_mapped env db0 False n' cap = (EF_OK, d2)" for n'
    using v(1) by (simp add: ef_db_init_mapped_def db0(1,3,4) d_def[symmetric] d(1))
  have "N \<noteq> 0" using wf_layout_end[OF wf] wf_layout_base_ge[OF wf] by (auto simp: N_def slot_ptr_def)
  then have "ef_open_memory_hash env m buffer_size n cap False = Inr (ef_set_error d2 EF_OK)"
    using assms(2,3) v(1-4) N(2) run
    by (simp add: ef_open_memory_hash_def ef_port_open_memory_def Let_def db0_def[symmetric] cap N(1)[symmetric] not_less[symmetric]
        EF_SLOT_SIZE_def EF_UNDO_LOG_DEFAULT_SLOTS_def)
  then show thesis using that[of d] lay d r by (simp add: m_def)
qed

text \<open>From the handle that was closed to the one that is handed out.\<close>

lemma reopened:
  assumes "storable db" "mem d = io_mem (ef_close db)" "same_layout db d"
  defines "d2 \<equiv> snd (ef_rebuild_free_list d)"
  obtains m h c k where "d2 = d\<lparr>mem := m\<rparr>" "\<forall>a. 64 \<le> a \<and> a < unat (slots_base db) \<longrightarrow> m a = mem db a"
    "sb_of m = (sb db)\<lparr>free_list_head := h, free_count := c, sb_checksum := k\<rparr>"
    "\<forall>j. status (slot_n d2 j) = status (slot_n db j) \<and> payload (slot_n d2 j) = payload (slot_n db j) \<and>
       (status (slot_n db j) \<noteq> EF_STATUS_FREE \<longrightarrow> next_offset (slot_n d2 j) = next_offset (slot_n db j))"
    "free_list_inv d2 (free_ids db [0..<unat (max_slots (sb db))])"
proof -
  have wf: "wf_layout db" and wfd: "wf_layout d" using assms(1) same_layout_wf[OF assms(3)] by (simp_all add: storable_def)
  obtain k0 where m0: "sb d = (sb db)\<lparr>sb_checksum := k0\<rparr>" "\<And>a. 64 \<le> a \<Longrightarrow> mem d a = mem db a"
    using close_image[OF assms(1)] unfolding assms(2) by metis
  have slots: "slot_n d j = slot_n db j" for j
  proof -
    have "64 \<le> slot_ptr (unat (slots_base db)) j" using wf wf_layout_base_ge slot_ptr_ge le_trans by blast
    then show ?thesis using assms(3) m0(2) by (simp add: same_layout_def) (rule slot_at_cong, simp)
  qed
  have "schema_version (sb d) \<noteq> 0" using assms(1) m0(1) by (simp add: storable_def) (simp add: ef_version_defs)
  note r = relinked_rebuild[OF wfd this, folded d2_def, unfolded relinked_def]
  have base: "slots_base d = slots_base db" using assms(3) by (simp add: same_layout_def)
  from r obtain m h c k where d2: "d2 = d\<lparr>mem := m\<rparr>" "\<forall>a. 64 \<le> a \<and> a < unat (slots_base d) \<longrightarrow> m a = mem d a"
    "sb_of m = (sb d)\<lparr>free_list_head := h, free_count := c, sb_checksum := k\<rparr>" unfolding pool_write_def by blast
  have "free_list_inv d2 (free_ids d [0..<unat (max_slots (sb db))])"
    unfolding d2_def by (rule rebuild_free_list_inv(2)[OF wfd]) (use assms(1) m0(1) in \<open>simp_all add: storable_def\<close>)
  then show thesis using that[where m = m and h = h and c = c and k = k] r d2 m0 base slots by simp
qed

subsection \<open>Property\<close>

text \<open>
  C8: what a caller has stored survives closing and opening again. Opening the buffer that
  \<^verbatim>\<open>ef_close\<close> leaves behind succeeds; \<^verbatim>\<open>ef_index_get\<close> answers as before for every key; every slot keeps
  status and payload, and its link unless it is free; the free list is exactly the list of the slots
  that are marked free; and the superblock, with the ends of the queue, is the same but for the
  free list and the checksum. What does not survive is the count of the index entries, which starts
  at 0 again.
\<close>

theorem reopen_keeps_data:
  assumes "storable db" "index_ready db" "env_calloc env" "ef_hash_capacity_valid cap" "file_size db \<le> buffer_size"
  shows "\<exists>db' h c k. ef_open_memory_hash env (io_mem (ef_close db)) buffer_size n cap False = Inr db' \<and>
    (\<forall>key. ef_index_get db' key = ef_index_get db key) \<and> index_points db' = index_points db \<and>
    (\<forall>j < max_slots (sb db). status (db_slot db' j) = status (db_slot db j) \<and> payload (db_slot db' j) = payload (db_slot db j) \<and>
       (status (db_slot db j) \<noteq> EF_STATUS_FREE \<longrightarrow> next_offset (db_slot db' j) = next_offset (db_slot db j))) \<and>
    free_list_inv db' (filter (\<lambda>j. status (db_slot db j) = EF_STATUS_FREE) (map of_nat [0..<unat (max_slots (sb db))])) \<and>
    sb db' = (sb db)\<lparr>free_list_head := h, free_count := c, sb_checksum := k\<rparr> \<and> hash_entry_count db' = 0"
proof -
  have wf: "wf_layout db" and N: "unat (max_slots (sb db)) < 2 ^ 32" using assms(1) by (simp_all add: storable_def)
  obtain d where run: "ef_open_memory_hash env (io_mem (ef_close db)) buffer_size n cap False =
      Inr (ef_set_error (snd (ef_rebuild_free_list d)) EF_OK)"
    and d: "mem d = io_mem (ef_close db)" "same_layout db d" "hash_entry_count d = 0" "index_seq d = 0"
    by (rule open_existing[OF assms(1,3-5)])
  obtain m h c k where d2: "snd (ef_rebuild_free_list d) = d\<lparr>mem := m\<rparr>"
    and m: "\<forall>a. 64 \<le> a \<and> a < unat (slots_base db) \<longrightarrow> m a = mem db a"
    "sb_of m = (sb db)\<lparr>free_list_head := h, free_count := c, sb_checksum := k\<rparr>"
    and s: "\<forall>j. status (slot_n (snd (ef_rebuild_free_list d)) j) = status (slot_n db j) \<and>
       payload (slot_n (snd (ef_rebuild_free_list d)) j) = payload (slot_n db j) \<and>
       (status (slot_n db j) \<noteq> EF_STATUS_FREE \<longrightarrow> next_offset (slot_n (snd (ef_rebuild_free_list d)) j) = next_offset (slot_n db j))"
    and free: "free_list_inv (snd (ef_rebuild_free_list d)) (free_ids db [0..<unat (max_slots (sb db))])"
    by (rule reopened[OF assms(1) d(1,2)])
  define e where "e = ef_set_error (d\<lparr>mem := m\<rparr>) EF_OK"
  have ids: "filter (\<lambda>j. status (db_slot db j) = EF_STATUS_FREE) (map of_nat [0..<unat (max_slots (sb db))]) =
      free_ids db [0..<unat (max_slots (sb db))]"
    unfolding filter_map o_def using N by (intro arg_cong[of _ _ "map of_nat"] filter_cong) (simp_all add: unat_of_nat_u64)
  have lay: "same_layout db e" using d(2) m(2) by (simp add: e_def same_layout_def)
  have "entry_at (mem e) 64 p = entry_at (mem db) 64 p" if "p < unat (hash_capacity db)" for p
    using that wf_layout_base[OF wf] by (simp add: e_def, intro entry_at_cong m(1)[rule_format]) simp_all
  moreover have "hash_index e = hash_index db" "hash_capacity e = hash_capacity db" "hash_index db = (if hash_capacity db = 0 then None else Some 64)"
    using lay wf by (simp_all add: same_layout_def wf_layout_def layout_ok_def)
  ultimately have ix: "index_lookup e = index_lookup db" "index_inv e = index_inv db" using index_facts_table[of e db] by blast+
  have off: "ef_offset_to_slot_id e = ef_offset_to_slot_id db" "ef_slot_to_offset e = ef_slot_to_offset db"
    using lay by (intro offset_cong; simp add: same_layout_def)+
  have inv: "index_inv e" "even (index_seq e)" using assms(2) ix(2) d(4) by (simp_all add: index_ready_def e_def)
  have "ef_index_get e key = ef_index_get db key" for key
    unfolding index_get_stable[OF inv] index_get_lookup[OF assms(2)] ix(1) off ..
  moreover have "index_points e = index_points db" using lay by (simp add: index_points_def ix(1) off(2) same_layout_def)
  moreover have "free_list_inv e (free_ids db [0..<unat (max_slots (sb db))])"
    using free[unfolded d2] free_list_inv_cong[of "d\<lparr>mem := m\<rparr>" e] by (simp add: same_layout_def e_def)
  moreover have "sb e = (sb db)\<lparr>free_list_head := h, free_count := c, sb_checksum := k\<rparr>" "hash_entry_count e = 0"
    "\<forall>j. status (slot_n e j) = status (slot_n db j) \<and> payload (slot_n e j) = payload (slot_n db j) \<and>
       (status (slot_n db j) \<noteq> EF_STATUS_FREE \<longrightarrow> next_offset (slot_n e j) = next_offset (slot_n db j))"
    using m(2) d(3) s[unfolded d2] by (simp_all add: e_def)
  ultimately show ?thesis unfolding run d2 ids e_def[symmetric]
    by - (rule exI[of _ e], rule exI[of _ h], rule exI[of _ c], rule exI[of _ k], simp)
qed

text \<open>Slot 2 is in use when the database is closed; the other slots are free.\<close>

definition sample_saved :: ef_db where
  "sample_saved = sample_db\<lparr>mem := set_status (set_hash_cap16 (set_slot_size (set_magic sample_mem [69, 78, 68, 70]) 64) 16) (slot_ptr 320 2) EF_STATUS_USED,
     file_size := 131680, map_capacity := 131680\<rparr>"

lemma sample_saved_sb: "sb sample_saved = (sb sample_db)\<lparr>magic := [69, 78, 68, 70], slot_size := 64, hash_cap16 := 16\<rparr>"
proof -
  have "64 \<le> slot_ptr 320 k" for k using slot_ptr_ge[of 320 k] by linarith
  then show ?thesis by (simp add: sample_saved_def del: sb_sample)
qed

lemma sample_saved_wf: "wf_layout sample_saved"
  by (simp add: wf_layout_def layout_ok_def sample_saved_sb) (simp add: sample_saved_def slot_ptr_def EF_SLOT_SIZE_def)

lemma sample_saved_status: "status (slot_at (mem sample_saved) (slot_ptr 320 j)) = (if j = 2 then EF_STATUS_USED else 0)"
proof -
  have p: "64 \<le> slot_ptr 320 k" for k using slot_ptr_ge[of 320 k] by linarith
  moreover have "slot_at (set_magic sample_mem [69, 78, 68, 70]) (slot_ptr 320 k) = slot_at sample_mem (slot_ptr 320 k)" for k
    unfolding set_magic_def by (intro slot_at_store_disjoint disjI1) (simp add: slot_ptr_def)
  ultimately show ?thesis by (simp add: sample_saved_def)
qed

lemma sample_saved_ready: "index_ready sample_saved"
proof -
  have z: "zero_index sample_saved"
    by (simp add: zero_index_def sample_saved_def set_status_def set_hash_cap16_def set_slot_size_def set_magic_def
        store_u16_def store_u32_def store_bytes_frame slot_ptr_def)
  have "hash_capacity sample_saved \<noteq> 0" "ef_hash_capacity_valid (hash_capacity sample_saved)"
    by (simp_all add: sample_saved_def ef_hash_capacity_valid_def)
  note i = zero_index_empty[OF sample_saved_wf z this]
  show ?thesis
    using i sample_saved_wf by (simp add: index_ready_def index_counted_def sample_saved_sb) (simp add: sample_saved_def EF_SCHEMA_VERSION_def)
qed

lemma sample_saved_storable: "storable sample_saved"
proof -
  have "ef_hash_capacity_from_sb (mem sample_saved) = 16"
    by (subst hash_capacity_v5) (simp_all add: sample_saved_sb)
  then show ?thesis
    using sample_saved_wf
    by (simp add: storable_def sample_saved_sb ef_magic_valid_def ef_sb_checksum_valid_def EF_TXN_STATE_ACTIVE_def)
       (simp add: sample_saved_def ef_hash_capacity_valid_def ef_expected_file_size_def)
qed

theorem reopen_keeps_data_witness:
  "\<exists>db'. ef_open_memory_hash \<lparr>env_open = True, env_fstat = True, env_ftruncate = (\<lambda>_. True), env_mmap = (\<lambda>_. True), env_msync = True,
      env_malloc = (\<lambda>_. True), env_calloc = True\<rparr> (io_mem (ef_close sample_saved)) 131680 0 0 False = Inr db' \<and>
    free_list_inv db' [0, 1, 3] \<and> status (db_slot db' 2) = EF_STATUS_USED"
proof -
  let ?env = "\<lparr>env_open = True, env_fstat = True, env_ftruncate = (\<lambda>_. True), env_mmap = (\<lambda>_. True), env_msync = True,
      env_malloc = (\<lambda>_. True), env_calloc = True\<rparr>"
  have st: "status (db_slot sample_saved i) = (if unat i = 2 then EF_STATUS_USED else 0)" for i
    using sample_saved_status[of "unat i"] by (simp add: sample_saved_def)
  have ids: "filter (\<lambda>j. status (db_slot sample_saved j) = EF_STATUS_FREE) (map of_nat [0..<unat (max_slots (sb sample_saved))]) = [0, 1, 3]"
    unfolding st by (simp add: sample_saved_sb upt_rec EF_STATUS_FREE_def EF_STATUS_USED_def)
  have "ef_hash_capacity_valid 0" "file_size sample_saved \<le> 131680" "2 < max_slots (sb sample_saved)"
    by (simp_all add: ef_hash_capacity_valid_def sample_saved_sb) (simp add: sample_saved_def)
  then show ?thesis
    using reopen_keeps_data[OF sample_saved_storable sample_saved_ready, of ?env 0 131680 0] st[of 2] unfolding ids by auto
qed

end
