(* ===== verification/Other_Builds.thy ===== *)
theory Other_Builds
  imports Atomics Quiet_State Open Crc_Pclmul
begin

text \<open>
  The branches of the source that other builds compile: the MSVC and the plain versions of
  \<^verbatim>\<open>ef_atomic_unaligned.h\<close>, the locks and the slot pool without atomic instructions
  (\<^verbatim>\<open>EF_HAS_HW_ATOMICS\<close> is 0), the file functions of a build without file I/O, and the checksum
  entry points of a processor other than x86-64. Each is compared with the branch of the GCC build,
  which the rest of the development models.
\<close>

subsection \<open>Atomics under MSVC\<close>

text \<open>
  An aligned access is a volatile one with a barrier behind it. The interlocked intrinsics work on
  signed values of the same width; a cast keeps the bits. They return the previous value.
\<close>

definition ef_atomic_load_u64_msvc :: "mem \<Rightarrow> nat \<Rightarrow> u64" where
  "ef_atomic_load_u64_msvc m ptr =
     (if ef_atomic_ptr_is_aligned ptr 8 then load_u64 m ptr else le_word (load_bytes m ptr 8))"

definition ef_atomic_store_u64_msvc :: "mem \<Rightarrow> nat \<Rightarrow> u64 \<Rightarrow> mem" where
  "ef_atomic_store_u64_msvc m ptr value_v =
     (if ef_atomic_ptr_is_aligned ptr 8 then store_u64 m ptr value_v
      else store_bytes m ptr (le_bytes 8 value_v))"

definition ef_atomic_load_u32_msvc :: "mem \<Rightarrow> nat \<Rightarrow> u32" where
  "ef_atomic_load_u32_msvc m ptr =
     (if ef_atomic_ptr_is_aligned ptr 4 then load_u32 m ptr else le_word (load_bytes m ptr 4))"

definition ef_atomic_store_u32_msvc :: "mem \<Rightarrow> nat \<Rightarrow> u32 \<Rightarrow> mem" where
  "ef_atomic_store_u32_msvc m ptr value_v =
     (if ef_atomic_ptr_is_aligned ptr 4 then store_u32 m ptr value_v
      else store_bytes m ptr (le_bytes 4 value_v))"

definition ef_atomic_load_u16_msvc :: "mem \<Rightarrow> nat \<Rightarrow> u16" where
  "ef_atomic_load_u16_msvc m ptr =
     (if ef_atomic_ptr_is_aligned ptr 2 then load_u16 m ptr else le_word (load_bytes m ptr 2))"

definition ef_atomic_store_u16_msvc :: "mem \<Rightarrow> nat \<Rightarrow> u16 \<Rightarrow> mem" where
  "ef_atomic_store_u16_msvc m ptr value_v =
     (if ef_atomic_ptr_is_aligned ptr 2 then store_u16 m ptr value_v
      else store_bytes m ptr (le_bytes 2 value_v))"

definition interlocked_compare_exchange64 :: "mem \<Rightarrow> nat \<Rightarrow> u64 \<Rightarrow> u64 \<Rightarrow> u64 \<times> mem" where
  "interlocked_compare_exchange64 m ptr desired exp =
     (let prev = load_u64 m ptr in (prev, if prev = exp then store_u64 m ptr desired else m))"

definition interlocked_compare_exchange :: "mem \<Rightarrow> nat \<Rightarrow> u32 \<Rightarrow> u32 \<Rightarrow> u32 \<times> mem" where
  "interlocked_compare_exchange m ptr desired exp =
     (let prev = load_u32 m ptr in (prev, if prev = exp then store_u32 m ptr desired else m))"

definition interlocked_exchange_add :: "mem \<Rightarrow> nat \<Rightarrow> u32 \<Rightarrow> u32 \<times> mem" where
  "interlocked_exchange_add m ptr delta =
     (let prev = load_u32 m ptr in (prev, store_u32 m ptr (prev + delta)))"

text \<open>The loop for unaligned pointers is the text of the GCC branch.\<close>

definition ef_atomic_cas_u64_msvc :: "mem \<Rightarrow> nat \<Rightarrow> u64 \<Rightarrow> u64 \<Rightarrow> (bool \<times> u64 \<times> mem) option" where
  "ef_atomic_cas_u64_msvc m ptr expected desired =
     (if ef_atomic_ptr_is_aligned ptr 8 then
        (case interlocked_compare_exchange64 m ptr desired expected of
           (prev, m) \<Rightarrow> if prev = expected then Some (True, expected, m) else Some (False, prev, m))
      else cas_loop_u64 m ptr expected desired)"

definition ef_atomic_cas_u32_msvc :: "mem \<Rightarrow> nat \<Rightarrow> u32 \<Rightarrow> u32 \<Rightarrow> (bool \<times> u32 \<times> mem) option" where
  "ef_atomic_cas_u32_msvc m ptr expected desired =
     (if ef_atomic_ptr_is_aligned ptr 4 then
        (case interlocked_compare_exchange m ptr desired expected of
           (prev, m) \<Rightarrow> if prev = expected then Some (True, expected, m) else Some (False, prev, m))
      else cas_loop_u32 m ptr expected desired)"

partial_function (option) fetch_add_loop_msvc :: "mem \<Rightarrow> nat \<Rightarrow> u32 \<Rightarrow> (u32 \<times> mem) option" where
  "fetch_add_loop_msvc m ptr delta =
     (let prev = le_word (load_bytes m ptr 4) in
      case ef_atomic_cas_u32_msvc m ptr prev (prev + delta) of
        None \<Rightarrow> None
      | Some (ok, prev, m) \<Rightarrow> if ok then Some (prev, m) else fetch_add_loop_msvc m ptr delta)"

definition ef_atomic_fetch_add_u32_msvc :: "mem \<Rightarrow> nat \<Rightarrow> u32 \<Rightarrow> (u32 \<times> mem) option" where
  "ef_atomic_fetch_add_u32_msvc m ptr delta =
     (if ef_atomic_ptr_is_aligned ptr 4 then Some (interlocked_exchange_add m ptr delta)
      else fetch_add_loop_msvc m ptr delta)"

subsection \<open>Plain accesses\<close>

text \<open>
  Without atomics a 32-bit or 64-bit word is read and written through a typed pointer. C leaves that
  undefined when the pointer is not aligned for the type, which is \<open>None\<close> here. The functions for 16
  and 8 bits copy bytes and work everywhere.
\<close>

definition deref :: "nat \<Rightarrow> nat \<Rightarrow> 'a \<Rightarrow> 'a option" where
  "deref ptr alignment r = (if ef_atomic_ptr_is_aligned ptr alignment then Some r else None)"

definition ef_atomic_load_u64_plain :: "mem \<Rightarrow> nat \<Rightarrow> u64 option" where
  "ef_atomic_load_u64_plain m ptr = deref ptr 8 (load_u64 m ptr)"

definition ef_atomic_store_u64_plain :: "mem \<Rightarrow> nat \<Rightarrow> u64 \<Rightarrow> mem option" where
  "ef_atomic_store_u64_plain m ptr value_v = deref ptr 8 (store_u64 m ptr value_v)"

definition ef_atomic_cas_u64_plain :: "mem \<Rightarrow> nat \<Rightarrow> u64 \<Rightarrow> u64 \<Rightarrow> (bool \<times> u64 \<times> mem) option" where
  "ef_atomic_cas_u64_plain m ptr expected desired =
     deref ptr 8
       (if load_u64 m ptr \<noteq> expected then (False, load_u64 m ptr, m) else (True, expected, store_u64 m ptr desired))"

definition ef_atomic_load_u32_plain :: "mem \<Rightarrow> nat \<Rightarrow> u32 option" where
  "ef_atomic_load_u32_plain m ptr = deref ptr 4 (load_u32 m ptr)"

definition ef_atomic_store_u32_plain :: "mem \<Rightarrow> nat \<Rightarrow> u32 \<Rightarrow> mem option" where
  "ef_atomic_store_u32_plain m ptr value_v = deref ptr 4 (store_u32 m ptr value_v)"

definition ef_atomic_cas_u32_plain :: "mem \<Rightarrow> nat \<Rightarrow> u32 \<Rightarrow> u32 \<Rightarrow> (bool \<times> u32 \<times> mem) option" where
  "ef_atomic_cas_u32_plain m ptr expected desired =
     deref ptr 4
       (if load_u32 m ptr \<noteq> expected then (False, load_u32 m ptr, m) else (True, expected, store_u32 m ptr desired))"

definition ef_atomic_load_u16_plain :: "mem \<Rightarrow> nat \<Rightarrow> u16" where
  "ef_atomic_load_u16_plain m ptr = le_word (load_bytes m ptr 2)"

definition ef_atomic_store_u16_plain :: "mem \<Rightarrow> nat \<Rightarrow> u16 \<Rightarrow> mem" where
  "ef_atomic_store_u16_plain m ptr value_v = store_bytes m ptr (le_bytes 2 value_v)"

definition ef_atomic_load_u8_plain :: "mem \<Rightarrow> nat \<Rightarrow> u8" where
  "ef_atomic_load_u8_plain m ptr = hd (load_bytes m ptr 1)"

definition ef_atomic_store_u8_plain :: "mem \<Rightarrow> nat \<Rightarrow> u8 \<Rightarrow> mem" where
  "ef_atomic_store_u8_plain m ptr value_v = store_bytes m ptr [value_v]"

partial_function (option) ef_atomic_cas_u8_plain :: "mem \<Rightarrow> nat \<Rightarrow> u8 \<Rightarrow> u8 \<Rightarrow> (bool \<times> u8 \<times> mem) option" where
  "ef_atomic_cas_u8_plain m ptr expected desired =
     (let cur = hd (load_bytes m ptr 1) in
      if cur \<noteq> expected then Some (False, cur, m)
      else
        let m = store_bytes m ptr [desired];
            cur = hd (load_bytes m ptr 1)
        in if cur = desired then Some (True, expected, m) else ef_atomic_cas_u8_plain m ptr cur desired)"

subsection \<open>Locks and pool without atomics\<close>

definition ef_sb_queue_lock_acquire_plain :: "mem \<Rightarrow> ef_err \<times> mem" where
  "ef_sb_queue_lock_acquire_plain m =
     (if \<not> ef_sb_uses_v4_index_layout m then
        if load_u32 m 60 \<noteq> 0 then (EF_ERR_QUEUE_BUSY, m) else (EF_OK, store_u32 m 60 1)
      else if ef_atomic_load_u8_plain m 58 \<noteq> 0 then (EF_ERR_QUEUE_BUSY, m)
      else (EF_OK, ef_atomic_store_u8_plain m 58 1))"

definition ef_sb_index_write_lock_acquire_plain :: "mem \<Rightarrow> ef_err \<times> mem" where
  "ef_sb_index_write_lock_acquire_plain m =
     (if \<not> ef_sb_uses_v4_index_layout m then (EF_ERR_BAD_VERSION, m)
      else if ef_atomic_load_u8_plain m 59 \<noteq> 0 then (EF_ERR_INDEX_BUSY, m)
      else (EF_OK, ef_atomic_store_u8_plain m 59 1))"

definition ef_sb_txn_lock_try_acquire_plain :: "mem \<Rightarrow> ef_err \<times> mem" where
  "ef_sb_txn_lock_try_acquire_plain m =
     (if schema_version (sb_of m) < EF_SCHEMA_VERSION then (EF_ERR_BAD_VERSION, m)
      else if ef_atomic_load_u8_plain m 60 \<noteq> 0 then (EF_ERR_TXN_BUSY, m)
      else (EF_OK, ef_atomic_store_u8_plain m 60 1))"

text \<open>The checksum to record is read before the slot is changed, not after it as in the atomic branch.\<close>

definition ef_alloc_slot_ex_plain :: "ef_db \<Rightarrow> u32 \<Rightarrow> (ef_err + u64) \<times> ef_db" where
  "ef_alloc_slot_ex_plain db alloc_flags =
     (let clear_payload = alloc_flags AND EF_ALLOC_ZERO_PAYLOAD \<noteq> 0;
          has_seqlock = mapped db \<and> EF_SCHEMA_VERSION \<le> schema_version (sb db);
          unlock = (\<lambda>db. if has_seqlock then upd_mem ef_sb_index_write_lock_release db else db)
      in
      (case ef_db_require_write db of
         (err, db) \<Rightarrow>
           if err \<noteq> EF_OK then (Inl err, db)
           else if \<not> mapped db then (Inl EF_ERR_NULL_ARG, ef_set_error db EF_ERR_NULL_ARG)
           else
             let (err, m) = (if has_seqlock then ef_sb_index_write_lock_acquire_plain (mem db) else (EF_OK, mem db));
                 db = db\<lparr>mem := m\<rparr>
             in
             if err \<noteq> EF_OK then (Inl err, ef_set_error db err)
             else if free_list_head (sb db) = 0 \<or> ef_sb_free_count_load (mem db) = 0
             then (Inl EF_ERR_SLOT_FULL, unlock (ef_set_error db EF_ERR_SLOT_FULL))
             else
               (case ef_offset_to_ptr db (free_list_head (sb db)) of
                  (None, db) \<Rightarrow> (Inl (last_err db), unlock db)
                | (Some p, db) \<Rightarrow>
                    (case ef_offset_to_slot_id db (free_list_head (sb db)) of
                       Inl err \<Rightarrow> (Inl err, unlock (ef_set_error db err))
                     | Inr slot_id \<Rightarrow>
                         let prior_crc = header_crc (slot_at (mem db) p);
                             db = upd_mem (\<lambda>m. set_free_list_head m (next_offset (slot_at m p))) db;
                             db = upd_mem (\<lambda>m. set_next_offset m p 0) db;
                             db = upd_mem (\<lambda>m. set_status m p EF_STATUS_USED) db;
                             db = (if clear_payload then clear_payload_at db p else db);
                             db = upd_mem ef_sb_free_count_dec db;
                             db = ef_slot_header_crc_store db slot_id p;
                             db = ef_db_mark_meta_dirty db;
                             db = (if ef_txn_active db then
                                     let db = snd (ef_txn_record_slot_alloc db slot_id EF_STATUS_FREE prior_crc)
                                     in snd (ef_txn_record_free_count db (-1))
                                   else db)
                         in (Inr slot_id, unlock (ef_set_error db EF_OK))))))"

definition ef_return_slot_to_pool_plain :: "ef_env \<Rightarrow> ef_db \<Rightarrow> u64 \<Rightarrow> nat \<Rightarrow> ef_err \<times> ef_db" where
  "ef_return_slot_to_pool_plain env db slot_id p =
     (case ef_index_remove_by_slot env db slot_id of
        (err, db) \<Rightarrow>
          if err \<noteq> EF_OK then (err, ef_set_error db err)
          else
            let off = ef_slot_to_offset db slot_id;
                db = upd_mem (\<lambda>m. set_next_offset m p (free_list_head (sb_of m))) db;
                db = upd_mem (\<lambda>m. set_free_list_head m off) db;
                db = upd_mem (\<lambda>m. set_status m p EF_STATUS_FREE) db;
                db = upd_mem (\<lambda>m. set_header_crc m p 0) db;
                db = clear_payload_at db p;
                db = upd_mem ef_sb_free_count_inc db;
                db = ef_db_mark_meta_dirty db
            in (EF_OK, ef_set_error db EF_OK))"

subsection \<open>Without file I/O, and on other processors\<close>

text \<open>Opening a file is refused; \<^verbatim>\<open>*db_out\<close> is cleared.\<close>

definition ef_open_ex_hash_nofile :: "u64 \<Rightarrow> u32 \<Rightarrow> ef_err + ef_db" where
  "ef_open_ex_hash_nofile initial_slots cap = Inl EF_ERR_IO"

definition ef_open_ex_nofile :: "u64 \<Rightarrow> ef_err + ef_db" where
  "ef_open_ex_nofile initial_slots = Inl EF_ERR_IO"

definition ef_open_nofile :: "u64 \<Rightarrow> ef_db option" where
  "ef_open_nofile initial_slots = None"

definition ef_open_readonly_ex_nofile :: "ef_err + ef_db" where
  "ef_open_readonly_ex_nofile = Inl EF_ERR_IO"

definition ef_open_readonly_nofile :: "ef_db option" where
  "ef_open_readonly_nofile = None"

definition ef_crc32_pclmul_available_msvc :: "u32 \<Rightarrow> bool" where
  "ef_crc32_pclmul_available_msvc info2 \<longleftrightarrow>
     drop_bit 1 info2 AND 1 \<noteq> 0 \<and> drop_bit 20 info2 AND 1 \<noteq> 0 \<and> drop_bit 9 info2 AND 1 \<noteq> 0"

definition ef_crc32_pclmul_available_generic :: bool where
  "ef_crc32_pclmul_available_generic = False"

definition ef_crc32_update_pclmul_generic :: "u32 \<Rightarrow> u8 list \<Rightarrow> u32" where
  "ef_crc32_update_pclmul_generic crc bytes = ef_crc32_update_slice4 crc bytes"

subsection \<open>The builds agree\<close>

lemma load_byte: "hd (load_bytes m p (Suc 0)) = m p"
  by (simp add: load_bytes_def)

lemma store_byte: "store_bytes m p [v] = m(p := v)"
  by (auto simp: store_bytes_def)

lemma msvc_loads:
  "ef_atomic_load_u64_msvc m p = load_u64 m p" "ef_atomic_load_u32_msvc m p = load_u32 m p" "ef_atomic_load_u16_msvc m p = load_u16 m p"
  by (simp_all add: ef_atomic_load_u64_msvc_def ef_atomic_load_u32_msvc_def ef_atomic_load_u16_msvc_def load_defs)

lemma msvc_stores:
  "ef_atomic_store_u64_msvc m p w = store_u64 m p w" "ef_atomic_store_u32_msvc m p v = store_u32 m p v"
  "ef_atomic_store_u16_msvc m p u = store_u16 m p u"
  by (simp_all add: ef_atomic_store_u64_msvc_def ef_atomic_store_u32_msvc_def ef_atomic_store_u16_msvc_def store_defs)

lemmas plain_defs = ef_atomic_load_u64_plain_def ef_atomic_store_u64_plain_def ef_atomic_cas_u64_plain_def
  ef_atomic_load_u32_plain_def ef_atomic_store_u32_plain_def ef_atomic_cas_u32_plain_def
  ef_atomic_load_u16_plain_def ef_atomic_store_u16_plain_def ef_atomic_load_u8_plain_def ef_atomic_store_u8_plain_def

lemma msvc_cas:
  "ef_atomic_cas_u64_msvc m p e d = ef_atomic_cas_u64 m p e d" "ef_atomic_cas_u32_msvc m p f v = ef_atomic_cas_u32 m p f v"
  by (simp_all add: ef_atomic_cas_u64_msvc_def ef_atomic_cas_u64_def ef_atomic_cas_u32_msvc_def ef_atomic_cas_u32_def
      interlocked_compare_exchange64_def interlocked_compare_exchange_def compare_exchange_u64_def compare_exchange_u32_def Let_def)

lemma msvc_fetch_add: "ef_atomic_fetch_add_u32_msvc m p d = ef_atomic_fetch_add_u32 m p d"
  unfolding fetch_add
  by (simp add: ef_atomic_fetch_add_u32_msvc_def interlocked_exchange_add_def fetch_add_loop_msvc.simps msvc_cas cas_u32
      compare_exchange_u32_def load_u32_def Let_def)

lemma plain_cas_u8: "ef_atomic_cas_u8_plain m p e v = Some (if m p = e then (True, e, m(p := v)) else (False, m p, m))"
  by (subst ef_atomic_cas_u8_plain.simps) (simp add: load_byte store_byte Let_def)

lemma spin_cas_u32_eq:
  "spin_cas_u32 n a m = (if n = 0 \<or> load_u32 m a \<noteq> 0 then (False, m) else (True, store_u32 m a 1))"
  by (induction n) auto

lemma plain_locks:
  "ef_sb_queue_lock_acquire_plain m = ef_sb_queue_lock_acquire m"
  "ef_sb_index_write_lock_acquire_plain m = ef_sb_index_write_lock_acquire m"
  "ef_sb_txn_lock_try_acquire_plain m = ef_sb_txn_lock_try_acquire m"
  by (simp_all add: ef_sb_queue_lock_acquire_plain_def ef_sb_queue_lock_acquire_def ef_sb_index_write_lock_acquire_plain_def
      ef_sb_index_write_lock_acquire_def ef_sb_txn_lock_try_acquire_plain_def ef_sb_txn_lock_try_acquire_def spin_cas_u8_eq
      spin_cas_u32_eq EF_SB_INDEX_SPIN_MAX_def ef_atomic_load_u8_plain_def ef_atomic_store_u8_plain_def load_byte store_byte
      load_u8_def store_u8_upd)

text \<open>The stores that return a slot go to different places, so their order does not matter.\<close>

lemma push_order:
  assumes "64 \<le> p" "p + 4 \<le> a" "a + n \<le> p + 56"
  shows "set_free_list_head (set_status (set_next_offset (mem_set (set_header_crc m p 0) a 0 n) p h) p s) off =
    mem_set (set_header_crc (set_status (set_free_list_head (set_next_offset m p h) off) p s) p 0) a 0 n"
  using assms by (auto simp: set_free_list_head_def set_slot_defs store_u32_def store_u64_def store_bytes_def mem_set_def fun_eq_iff)

lemma plain_return:
  assumes p: "64 \<le> p"
  shows "ef_return_slot_to_pool_plain env db i p = ef_return_slot_to_pool env db i p"
proof -
  obtain err d where r: "ef_index_remove_by_slot env db i = (err, d)" by fastforce
  let ?a = "ef_slot_payload_ptr d p" and ?n = "ef_payload_capacity d"
  have an: "p + 4 \<le> ?a" "?a + ?n \<le> p + 56"
    by (simp_all add: ef_slot_payload_ptr_def ef_payload_capacity_def EF_PAYLOAD_SIZE_def EF_PAYLOAD_SIZE_LEGACY_def)
  have cp: "clear_payload_at (d\<lparr>mem := m\<rparr>) p = d\<lparr>mem := mem_set m ?a 0 ?n\<rparr>" if "schema_version (sb_of m) = schema_version (sb d)" for m
    using that by (simp add: clear_payload_at_def ef_slot_payload_ptr_def ef_payload_capacity_def)
  have sb: "sb_of (mem_set (set_header_crc (mem d) p 0) ?a 0 ?n) = sb d"
    using p an(1) by (simp add: sb_of_mem_set)
  show ?thesis
    using p push_order[OF p an, of "mem d" "free_list_head (sb d)" EF_STATUS_FREE "ef_slot_to_offset d i"]
    by (simp add: ef_return_slot_to_pool_plain_def ef_return_slot_to_pool_def r ef_free_list_push_atomic_def slot_write_defs(2,3)
        Let_def cp sb)
qed

lemma plain_alloc: "\<not> txn_active db \<Longrightarrow> ef_alloc_slot_ex_plain db f = ef_alloc_slot_ex db f"
  unfolding ef_alloc_slot_ex_plain_def ef_alloc_slot_ex_def ef_free_list_pop_atomic_def plain_locks Let_def
  by (auto simp: slot_write_defs ef_db_require_write_def ef_offset_to_ptr_def ef_txn_active_def split: sum.splits prod.splits if_splits)

text \<open>
  As long as nobody interferes, the MSVC versions are the GCC versions on every pointer.
\<close>

lemma msvc_agrees:
  "ef_atomic_load_u64_msvc m p = ef_atomic_load_u64 m p" "ef_atomic_load_u32_msvc m p = ef_atomic_load_u32 m p"
  "ef_atomic_load_u16_msvc m p = ef_atomic_load_u16 m p" "ef_atomic_store_u64_msvc m p w = ef_atomic_store_u64 m p w"
  "ef_atomic_store_u32_msvc m p v = ef_atomic_store_u32 m p v" "ef_atomic_store_u16_msvc m p u = ef_atomic_store_u16 m p u"
  "ef_atomic_cas_u64_msvc m p e w = ef_atomic_cas_u64 m p e w" "ef_atomic_cas_u32_msvc m p f v = ef_atomic_cas_u32 m p f v"
  "ef_atomic_fetch_add_u32_msvc m p v = ef_atomic_fetch_add_u32 m p v"
  by (simp_all add: msvc_loads msvc_stores atomic_loads atomic_stores msvc_cas msvc_fetch_add)

text \<open>
  The plain versions are the GCC versions as well: for 8 and 16 bits everywhere, for 32 and 64 bits
  exactly on the aligned pointers; elsewhere they are undefined.
\<close>

lemma plain_agrees:
  "ef_atomic_load_u8_plain m p = ef_atomic_load_u8 m p" "Some (ef_atomic_store_u8_plain m p b) = ef_atomic_store_u8 m p b"
  "ef_atomic_cas_u8_plain m p g b = ef_atomic_cas_u8 m p g b"
  "ef_atomic_load_u16_plain m p = ef_atomic_load_u16 m p" "ef_atomic_store_u16_plain m p u = ef_atomic_store_u16 m p u"
  "ef_atomic_load_u64_plain m p = deref p 8 (ef_atomic_load_u64 m p)"
  "ef_atomic_store_u64_plain m p w = deref p 8 (ef_atomic_store_u64 m p w)"
  "ef_atomic_cas_u64_plain m p e w = (if ef_atomic_ptr_is_aligned p 8 then ef_atomic_cas_u64 m p e w else None)"
  "ef_atomic_load_u32_plain m p = deref p 4 (ef_atomic_load_u32 m p)"
  "ef_atomic_store_u32_plain m p v = deref p 4 (ef_atomic_store_u32 m p v)"
  "ef_atomic_cas_u32_plain m p f v = (if ef_atomic_ptr_is_aligned p 4 then ef_atomic_cas_u32 m p f v else None)"
  by (simp_all add: atomic_loads atomic_stores cas_u64 cas_u32 byte_ops_are_plain plain_cas_u8 plain_defs deref_def load_byte store_byte
      load_u16_def store_u16_def compare_exchange_u64_def compare_exchange_u32_def)

text \<open>
  C40: compiled without atomic instructions, the locks and the slot pool do what the atomic version
  does when it runs alone: the three locks are taken and refused alike, returning a slot leaves
  the same memory although it stores in another order, and outside a transaction an allocation
  has the same result, byte for byte. Inside a transaction the two differ in the checksum they record.
\<close>

theorem plain_pool_agrees:
  assumes "64 \<le> p" "\<not> txn_active db"
  shows "ef_alloc_slot_ex_plain db alloc_flags = ef_alloc_slot_ex db alloc_flags \<and>
    ef_return_slot_to_pool_plain env db' i p = ef_return_slot_to_pool env db' i p \<and>
    ef_sb_queue_lock_acquire_plain m = ef_sb_queue_lock_acquire m \<and>
    ef_sb_index_write_lock_acquire_plain m = ef_sb_index_write_lock_acquire m \<and>
    ef_sb_txn_lock_try_acquire_plain m = ef_sb_txn_lock_try_acquire m"
  using plain_alloc[OF assms(2)] plain_return[OF assms(1)] plain_locks by blast

theorem plain_pool_agrees_witness:
  "ef_alloc_slot_ex_plain sample_db 1 = ef_alloc_slot_ex sample_db 1"
  using plain_pool_agrees[of 320 sample_db] by simp

end
