(* ===== verification/Port.thy ===== *)
theory Port
  imports Open
begin

text \<open>
  The port layer \<^verbatim>\<open>ef_port.c\<close> with its resources: the file descriptor, the mapped view and, on Windows,
  the handle of the file mapping. Both branches are modelled, POSIX and Win32. An operation takes and
  returns the \<^verbatim>\<open>struct ef_io\<close> together with the history of what it did to the operating system; what
  the system calls answer is a parameter.

  The functions of \<^verbatim>\<open>Open\<close> and \<^verbatim>\<open>Index\<close> describe the same layer by its results only; both branches
  are shown to implement them.
\<close>

subsection \<open>State\<close>

text \<open>Pointers and descriptors count by being there or not: \<^verbatim>\<open>fd >= 0\<close>, \<^verbatim>\<open>map_addr != NULL\<close>, \<^verbatim>\<open>map_handle != NULL\<close>.\<close>

record port_io =
  fd :: bool
  map_addr :: bool
  port_size :: u64
  port_capacity :: u64
  port_backend :: ef_backend
  port_readonly :: bool
  map_handle :: bool

text \<open>
  What the layer did, oldest first. The calls whose result the code ignores are recorded when they are
  made: \<^verbatim>\<open>munmap\<close>, \<^verbatim>\<open>close\<close>, \<^verbatim>\<open>UnmapViewOfFile\<close>, \<^verbatim>\<open>CloseHandle\<close> and the flushes of \<^verbatim>\<open>ef_port_close\<close> and
  \<^verbatim>\<open>ef_port_unmap_file\<close>. The others are recorded when they succeed.
\<close>

datatype os_event =
  Opened | Closed | Resized u64 | Mapped u64 | Unmapped | Flushed | Buffers_flushed | Handle_created | Handle_closed

type_synonym port = "port_io \<times> os_event list"

text \<open>\<^verbatim>\<open>memset (io, 0, sizeof (*io)); io->fd = -1\<close>\<close>

definition io_clear :: port_io where
  "io_clear = \<lparr>fd = False, map_addr = False, port_size = 0, port_capacity = 0, port_backend = EF_BACKEND_NONE,
     port_readonly = False, map_handle = False\<rparr>"

datatype ef_sync_mode = EF_SYNC_FULL | EF_SYNC_ASYNC

subsection \<open>POSIX\<close>

definition ef_port_close_posix :: "port \<Rightarrow> port" where
  "ef_port_close_posix = (\<lambda>(io, h).
     let h = (if port_backend io = EF_BACKEND_FILE then
                let h = (if map_addr io then
                           let h = (if \<not> port_readonly io then h @ [Flushed] else h) in h @ [Unmapped]
                         else h)
                in if fd io then h @ [Closed] else h
              else h)
     in (io_clear, h))"

definition ef_port_open_file_posix :: "ef_env \<Rightarrow> u64 \<Rightarrow> u64 \<Rightarrow> (ef_err + bool) \<times> port" where
  "ef_port_open_file_posix env st_size want_size =
     (let io = io_clear\<lparr>port_backend := EF_BACKEND_FILE\<rparr> in
      if \<not> env_open env then (Inl EF_ERR_IO, io, [])
      else
        let io = io\<lparr>fd := True\<rparr>; h = [Opened] in
        if \<not> env_fstat env then (Inl EF_ERR_IO, ef_port_close_posix (io, h))
        else
          let is_new = st_size = 0 in
          if is_new \<and> \<not> env_ftruncate env want_size then (Inl EF_ERR_IO, ef_port_close_posix (io, h))
          else
            let h = (if is_new then h @ [Resized want_size] else h);
                msize = (if is_new then want_size else st_size)
            in
            if \<not> env_mmap env msize then (Inl EF_ERR_MMAP, ef_port_close_posix (io, h))
            else (Inr is_new, io\<lparr>map_addr := True, port_size := msize, port_capacity := msize, port_readonly := False\<rparr>,
                  h @ [Mapped msize]))"

definition ef_port_unmap_file_posix :: "port \<Rightarrow> ef_err \<times> port" where
  "ef_port_unmap_file_posix = (\<lambda>(io, h).
     if \<not> map_addr io then (EF_OK, io, h)
     else let h = (if \<not> port_readonly io then h @ [Flushed] else h)
          in (EF_OK, io\<lparr>map_addr := False\<rparr>, h @ [Unmapped]))"

definition ef_port_map_file_posix :: "ef_env \<Rightarrow> port \<Rightarrow> u64 \<Rightarrow> bool \<Rightarrow> ef_err \<times> port" where
  "ef_port_map_file_posix env = (\<lambda>(io, h) msize ro.
     if \<not> env_mmap env msize then (EF_ERR_MMAP, io\<lparr>map_addr := False\<rparr>, h)
     else (EF_OK, io\<lparr>map_addr := True, port_size := msize, port_readonly := ro\<rparr>, h @ [Mapped msize]))"

definition ef_port_open_file_existing_posix :: "ef_env \<Rightarrow> u64 \<Rightarrow> bool \<Rightarrow> ef_err \<times> port" where
  "ef_port_open_file_existing_posix env st_size ro =
     (let io = io_clear\<lparr>port_backend := EF_BACKEND_FILE\<rparr> in
      if \<not> env_open env then (EF_ERR_IO, io, [])
      else
        let io = io\<lparr>fd := True\<rparr>; h = [Opened] in
        if \<not> env_fstat env then (EF_ERR_IO, ef_port_close_posix (io, h))
        else if st_size = 0 then (EF_ERR_FILE_SIZE, ef_port_close_posix (io, h))
        else
          (case ef_port_map_file_posix env (io, h) st_size ro of
             (err, io, h) \<Rightarrow>
               if err \<noteq> EF_OK then (EF_ERR_MMAP, ef_port_close_posix (io, h))
               else (EF_OK, io\<lparr>port_capacity := st_size\<rparr>, h)))"

definition ef_port_grow_file_posix :: "ef_env \<Rightarrow> port \<Rightarrow> u64 \<Rightarrow> ef_err \<times> port" where
  "ef_port_grow_file_posix env = (\<lambda>(io, h) new_size.
     if port_backend io \<noteq> EF_BACKEND_FILE then (EF_ERR_NULL_ARG, io, h)
     else if port_readonly io then (EF_ERR_READONLY, io, h)
     else if new_size \<le> port_size io then (EF_ERR_GROW, io, h)
     else
       (case ef_port_unmap_file_posix (io, h) of
          (err, io, h) \<Rightarrow>
            if err \<noteq> EF_OK then (EF_ERR_IO, io, h)
            else if \<not> env_ftruncate env new_size then (EF_ERR_IO, io, h)
            else
              (case ef_port_map_file_posix env (io, h @ [Resized new_size]) new_size False of
                 (err, io, h) \<Rightarrow>
                   if err \<noteq> EF_OK then (EF_ERR_MMAP, io, h)
                   else (EF_OK, io\<lparr>port_capacity := new_size\<rparr>, h))))"

definition ef_port_sync_posix :: "ef_env \<Rightarrow> port \<Rightarrow> ef_sync_mode \<Rightarrow> ef_err \<times> port" where
  "ef_port_sync_posix env = (\<lambda>(io, h) mode.
     if \<not> map_addr io then (EF_ERR_NULL_ARG, io, h)
     else if port_backend io = EF_BACKEND_MEMORY then (EF_OK, io, h)
     else if port_readonly io then (EF_OK, io, h)
     else if \<not> env_msync env then (EF_ERR_IO, io, h)
     else (EF_OK, io, h @ [Flushed]))"

subsection \<open>Win32\<close>

text \<open>The answers of \<^verbatim>\<open>_open\<close>, \<^verbatim>\<open>_fstat64\<close>, \<^verbatim>\<open>_chsize_s\<close>, \<^verbatim>\<open>_get_osfhandle\<close>, \<^verbatim>\<open>CreateFileMappingA\<close>,
  \<^verbatim>\<open>MapViewOfFile\<close>, \<^verbatim>\<open>FlushViewOfFile\<close> and \<^verbatim>\<open>FlushFileBuffers\<close>.\<close>

record win_env =
  win_open :: bool
  win_fstat :: bool
  win_chsize :: "u64 \<Rightarrow> bool"
  win_osfhandle :: bool
  win_create_mapping :: "u64 \<Rightarrow> bool"
  win_map_view :: "u64 \<Rightarrow> bool"
  win_flush_view :: bool
  win_flush_buffers :: bool

text \<open>The results of both flushes are ignored.\<close>

definition ef_port_flush_win32 :: "win_env \<Rightarrow> port \<Rightarrow> port" where
  "ef_port_flush_win32 env = (\<lambda>(io, h).
     let h = (if map_addr io then h @ [Flushed] else h) in
     if \<not> fd io then (io, h)
     else (io, if win_osfhandle env then h @ [Buffers_flushed] else h))"

definition ef_port_sync_win32 :: "win_env \<Rightarrow> port \<Rightarrow> ef_sync_mode \<Rightarrow> ef_err \<times> port" where
  "ef_port_sync_win32 env = (\<lambda>(io, h) mode.
     if \<not> win_flush_view env then (EF_ERR_IO, io, h)
     else
       let h = h @ [Flushed] in
       if mode = EF_SYNC_ASYNC then (EF_OK, io, h)
       else if \<not> fd io then (EF_ERR_IO, io, h)
       else if \<not> win_osfhandle env then (EF_ERR_IO, io, h)
       else if \<not> win_flush_buffers env then (EF_ERR_IO, io, h)
       else (EF_OK, io, h @ [Buffers_flushed]))"

definition ef_port_close_win :: "win_env \<Rightarrow> port \<Rightarrow> port" where
  "ef_port_close_win env = (\<lambda>(io, h).
     let (io, h) = (if port_backend io = EF_BACKEND_FILE then
           let (io, h) = (if \<not> port_readonly io then ef_port_flush_win32 env (io, h) else (io, h));
               h = (if map_addr io then h @ [Unmapped] else h);
               h = (if map_handle io then h @ [Handle_closed] else h)
           in (io, if fd io then h @ [Closed] else h)
         else (io, h))
     in (io_clear, h))"

definition ef_port_open_file_win :: "win_env \<Rightarrow> u64 \<Rightarrow> u64 \<Rightarrow> (ef_err + bool) \<times> port" where
  "ef_port_open_file_win env st_size want_size =
     (let io = io_clear\<lparr>port_backend := EF_BACKEND_FILE\<rparr> in
      if \<not> win_open env then (Inl EF_ERR_IO, io, [])
      else
        let io = io\<lparr>fd := True\<rparr>; h = [Opened] in
        if \<not> win_fstat env then (Inl EF_ERR_IO, ef_port_close_win env (io, h))
        else
          let is_new = st_size = 0 in
          if is_new \<and> \<not> win_chsize env want_size then (Inl EF_ERR_IO, ef_port_close_win env (io, h))
          else
            let h = (if is_new then h @ [Resized want_size] else h);
                msize = (if is_new then want_size else st_size)
            in
            if \<not> win_osfhandle env then (Inl EF_ERR_IO, ef_port_close_win env (io, h))
            else if \<not> win_create_mapping env msize then (Inl EF_ERR_MMAP, ef_port_close_win env (io, h))
            else
              let h = h @ [Handle_created] in
              if \<not> win_map_view env msize
              then (Inl EF_ERR_MMAP, ef_port_close_win env (io, h @ [Handle_closed]))
              else (Inr is_new, io\<lparr>map_addr := True, map_handle := True, port_size := msize, port_capacity := msize,
                      port_readonly := False\<rparr>, h @ [Mapped msize]))"

definition ef_port_unmap_file_win :: "win_env \<Rightarrow> port \<Rightarrow> ef_err \<times> port" where
  "ef_port_unmap_file_win env = (\<lambda>(io, h).
     if \<not> map_addr io then (EF_OK, io, h)
     else
       let (io, h) = (if \<not> port_readonly io then ef_port_flush_win32 env (io, h) else (io, h));
           h = h @ [Unmapped];
           h = (if map_handle io then h @ [Handle_closed] else h);
           io = io\<lparr>map_handle := False\<rparr>
       in (EF_OK, io\<lparr>map_addr := False\<rparr>, h))"

definition ef_port_map_file_win :: "win_env \<Rightarrow> port \<Rightarrow> u64 \<Rightarrow> bool \<Rightarrow> ef_err \<times> port" where
  "ef_port_map_file_win env = (\<lambda>(io, h) msize ro.
     if \<not> win_osfhandle env then (EF_ERR_IO, io, h)
     else if \<not> win_create_mapping env msize then (EF_ERR_MMAP, io, h)
     else
       let h = h @ [Handle_created] in
       if \<not> win_map_view env msize then (EF_ERR_MMAP, io\<lparr>map_addr := False\<rparr>, h @ [Handle_closed])
       else (EF_OK, io\<lparr>map_addr := True, map_handle := True, port_size := msize, port_readonly := ro\<rparr>, h @ [Mapped msize]))"

definition ef_port_open_file_existing_win :: "win_env \<Rightarrow> u64 \<Rightarrow> bool \<Rightarrow> ef_err \<times> port" where
  "ef_port_open_file_existing_win env st_size ro =
     (let io = io_clear\<lparr>port_backend := EF_BACKEND_FILE\<rparr> in
      if \<not> win_open env then (EF_ERR_IO, io, [])
      else
        let io = io\<lparr>fd := True\<rparr>; h = [Opened] in
        if \<not> win_fstat env then (EF_ERR_IO, ef_port_close_win env (io, h))
        else if st_size = 0 then (EF_ERR_FILE_SIZE, ef_port_close_win env (io, h))
        else
          (case ef_port_map_file_win env (io, h) st_size ro of
             (err, io, h) \<Rightarrow>
               if err \<noteq> EF_OK then (EF_ERR_MMAP, ef_port_close_win env (io, h))
               else (EF_OK, io\<lparr>port_capacity := st_size\<rparr>, h)))"

definition ef_port_grow_file_win :: "win_env \<Rightarrow> port \<Rightarrow> u64 \<Rightarrow> ef_err \<times> port" where
  "ef_port_grow_file_win env = (\<lambda>(io, h) new_size.
     if port_backend io \<noteq> EF_BACKEND_FILE then (EF_ERR_NULL_ARG, io, h)
     else if port_readonly io then (EF_ERR_READONLY, io, h)
     else if new_size \<le> port_size io then (EF_ERR_GROW, io, h)
     else
       (case ef_port_unmap_file_win env (io, h) of
          (err, io, h) \<Rightarrow>
            if err \<noteq> EF_OK then (EF_ERR_IO, io, h)
            else if \<not> win_chsize env new_size then (EF_ERR_IO, io, h)
            else
              (case ef_port_map_file_win env (io, h @ [Resized new_size]) new_size False of
                 (err, io, h) \<Rightarrow>
                   if err \<noteq> EF_OK then (EF_ERR_MMAP, io, h)
                   else (EF_OK, io\<lparr>port_capacity := new_size\<rparr>, h))))"

definition ef_port_sync_win :: "win_env \<Rightarrow> port \<Rightarrow> ef_sync_mode \<Rightarrow> ef_err \<times> port" where
  "ef_port_sync_win env = (\<lambda>(io, h) mode.
     if \<not> map_addr io then (EF_ERR_NULL_ARG, io, h)
     else if port_backend io = EF_BACKEND_MEMORY then (EF_OK, io, h)
     else if port_readonly io then (EF_OK, io, h)
     else ef_port_sync_win32 env (io, h) mode)"

subsection \<open>Growth of a handle\<close>

text \<open>
  \<^verbatim>\<open>ef_grow\<close> and \<^verbatim>\<open>ef_index_rehash_to\<close> call \<^verbatim>\<open>ef_port_grow_file\<close> on a copy of the handle's \<^verbatim>\<open>struct ef_io\<close>
  and take the copy over when it succeeds. When it fails the copy is dropped: the handle keeps the
  fields it had, although the operating system has seen the calls.
\<close>

definition grow_handle :: "('e \<Rightarrow> port \<Rightarrow> u64 \<Rightarrow> ef_err \<times> port) \<Rightarrow> 'e \<Rightarrow> port \<Rightarrow> u64 \<Rightarrow> ef_err \<times> port" where
  "grow_handle grow e = (\<lambda>(io, h) new_size.
     case grow e (io, h) new_size of
       (err, io', h') \<Rightarrow> if err \<noteq> EF_OK then (err, io, h') else (EF_OK, io', h'))"

text \<open>
  What a handle can have gone through between a successful open and the close: any number of growths
  and syncs, each with its own answers of the system. The number counts the growths that failed with
  \<^verbatim>\<open>EF_ERR_IO\<close> or \<^verbatim>\<open>EF_ERR_MMAP\<close>, which is after the old view was given up.
\<close>

inductive port_reach ::
  "('e \<Rightarrow> u64 \<Rightarrow> u64 \<Rightarrow> (ef_err + bool) \<times> port) \<Rightarrow> ('e \<Rightarrow> u64 \<Rightarrow> bool \<Rightarrow> ef_err \<times> port) \<Rightarrow>
   ('e \<Rightarrow> port \<Rightarrow> u64 \<Rightarrow> ef_err \<times> port) \<Rightarrow> ('e \<Rightarrow> port \<Rightarrow> ef_sync_mode \<Rightarrow> ef_err \<times> port) \<Rightarrow> port \<Rightarrow> nat \<Rightarrow> bool"
  for opn existing grow sync
where
  opened: "opn e st_size want = (Inr is_new, s) \<Longrightarrow> port_reach opn existing grow sync s 0"
| opened_existing: "existing e st_size ro = (EF_OK, s) \<Longrightarrow> port_reach opn existing grow sync s 0"
| grown: "port_reach opn existing grow sync s k \<Longrightarrow> grow_handle grow e s n = (err, s') \<Longrightarrow>
    port_reach opn existing grow sync s' (if err = EF_ERR_IO \<or> err = EF_ERR_MMAP then Suc k else k)"
| synced: "port_reach opn existing grow sync s k \<Longrightarrow> sync e s mode = (err, s') \<Longrightarrow> port_reach opn existing grow sync s' k"

subsection \<open>Resources\<close>

definition view_count :: "os_event list \<Rightarrow> nat" where
  "view_count h = length (filter (\<lambda>e. \<exists>n. e = Mapped n) h)"

text \<open>
  The books are closed with \<open>k\<close> releases too many: every descriptor was closed once, and \<open>k\<close> more
  views were given back than taken, and on Windows (\<open>win\<close>) as many mapping handles. With \<open>k = 0\<close>
  everything was given back exactly once.
\<close>

definition released_with :: "bool \<Rightarrow> nat \<Rightarrow> os_event list \<Rightarrow> bool" where
  "released_with win k h \<longleftrightarrow>
     count_list h Closed = count_list h Opened \<and> count_list h Unmapped = view_count h + k \<and>
     count_list h Handle_closed = count_list h Handle_created + (if win then k else 0)"

text \<open>An open handle holds its descriptor, a view and, on Windows, a mapping handle.\<close>

definition holds :: "bool \<Rightarrow> nat \<Rightarrow> port \<Rightarrow> bool" where
  "holds win k = (\<lambda>(io, h).
     port_backend io = EF_BACKEND_FILE \<and> fd io \<and> map_addr io \<and> map_handle io = win \<and>
     count_list h Opened = count_list h Closed + 1 \<and> view_count h + k = count_list h Unmapped + 1 \<and>
     count_list h Handle_created + (if win then k else 0) = count_list h Handle_closed + of_bool win)"

lemma view_count_simps [simp]:
  "view_count [] = 0" "view_count (h @ h') = view_count h + view_count h'" "view_count (e # h) = (case e of Mapped _ \<Rightarrow> Suc (view_count h) | _ \<Rightarrow> view_count h)"
  by (auto simp: view_count_def split: os_event.split)

lemma count_append [simp]: "count_list (h @ h') e = count_list h e + count_list h' e"
  by (induction h) auto

lemma io_clear_simps [simp]:
  "\<not> fd io_clear" "\<not> map_addr io_clear" "\<not> map_handle io_clear" "port_backend io_clear = EF_BACKEND_NONE"
  "\<not> port_readonly io_clear"
  by (simp_all add: io_clear_def)

text \<open>What the layer above relies on.\<close>

locale file_port =
  fixes opn :: "'e \<Rightarrow> u64 \<Rightarrow> u64 \<Rightarrow> (ef_err + bool) \<times> port"
    and existing :: "'e \<Rightarrow> u64 \<Rightarrow> bool \<Rightarrow> ef_err \<times> port"
    and grow :: "'e \<Rightarrow> port \<Rightarrow> u64 \<Rightarrow> ef_err \<times> port"
    and sync :: "'e \<Rightarrow> port \<Rightarrow> ef_sync_mode \<Rightarrow> ef_err \<times> port"
    and close :: "'e \<Rightarrow> port \<Rightarrow> port"
    and win :: bool
  assumes opn_ok: "opn e st_size want = (Inr is_new, s) \<Longrightarrow> holds win 0 s"
    and opn_failed: "opn e st_size want = (Inl err, s) \<Longrightarrow> released_with win 0 (snd s)"
    and existing_ok: "existing e st_size ro = (EF_OK, s) \<Longrightarrow> holds win 0 s"
    and existing_failed: "existing e st_size ro = (err, s) \<Longrightarrow> err \<noteq> EF_OK \<Longrightarrow> released_with win 0 (snd s)"
    and grow_ok: "holds win k s \<Longrightarrow> grow e s n = (EF_OK, s') \<Longrightarrow> holds win k s'"
    and grow_lost: "holds win k s \<Longrightarrow> grow e s n = (err, s') \<Longrightarrow> err = EF_ERR_IO \<or> err = EF_ERR_MMAP \<Longrightarrow>
      holds win (Suc k) (fst s, snd s')"
    and grow_refused: "holds win k s \<Longrightarrow> grow e s n = (err, s') \<Longrightarrow> err \<noteq> EF_OK \<Longrightarrow> err \<noteq> EF_ERR_IO \<Longrightarrow>
      err \<noteq> EF_ERR_MMAP \<Longrightarrow> snd s' = snd s"
    and sync_holds: "holds win k s \<Longrightarrow> sync e s mode = (err, s') \<Longrightarrow> holds win k s'"
    and close_releases: "holds win k s \<Longrightarrow> released_with win k (snd (close e s))"
begin

lemma grow_handle_holds:
  assumes h: "holds win k s" and run: "grow_handle grow e s n = (err, s')"
  shows "holds win (if err = EF_ERR_IO \<or> err = EF_ERR_MMAP then Suc k else k) s'"
proof -
  obtain io hist where s: "s = (io, hist)" by fastforce
  obtain r io' h' where g: "grow e s n = (r, io', h')" using prod_cases3 by blast
  show ?thesis
  proof (cases "r = EF_OK")
    case True
    then show ?thesis using run g grow_ok[OF h] by (auto simp: grow_handle_def s)
  next
    case False
    then have e: "err = r" "s' = (io, h')" using run g by (simp_all add: grow_handle_def s)
    show ?thesis
    proof (cases "r = EF_ERR_IO \<or> r = EF_ERR_MMAP")
      case True
      then show ?thesis using grow_lost[OF h g True] by (simp add: e s)
    next
      case refused: False
      then have "h' = hist" using grow_refused[OF h g False] by (simp add: s)
      then show ?thesis using h refused by (simp add: e s)
    qed
  qed
qed

lemma reach_holds: "port_reach opn existing grow sync s k \<Longrightarrow> holds win k s"
  by (induction rule: port_reach.induct) (blast intro: opn_ok existing_ok grow_handle_holds sync_holds)+

lemma close_after: "port_reach opn existing grow sync s k \<Longrightarrow> released_with win k (snd (close e s))"
  by (rule close_releases[OF reach_holds])

end

lemmas port_books = holds_def released_with_def Let_def

subsection \<open>POSIX\<close>

lemma grow_posix_cases:
  assumes h: "holds False k (io, h)" and run: "ef_port_grow_file_posix env (io, h) n = (err, io', h')"
  obtains "err = EF_OK" "io' = io\<lparr>port_size := n, port_capacity := n\<rparr>" "h' = h @ [Flushed, Unmapped, Resized n, Mapped n]"
  | "err = EF_ERR_IO" "h' = h @ [Flushed, Unmapped]" | "err = EF_ERR_MMAP" "h' = h @ [Flushed, Unmapped, Resized n]"
  | "err \<noteq> EF_OK" "err \<noteq> EF_ERR_IO" "err \<noteq> EF_ERR_MMAP" "h' = h"
  using assms
  by (cases "port_readonly io"; cases "n \<le> port_size io"; cases "env_ftruncate env n"; cases "env_mmap env n")
     (auto simp: holds_def ef_port_grow_file_posix_def ef_port_unmap_file_posix_def ef_port_map_file_posix_def)

interpretation posix: file_port ef_port_open_file_posix ef_port_open_file_existing_posix ef_port_grow_file_posix ef_port_sync_posix
  "\<lambda>_ :: ef_env. ef_port_close_posix" False
proof
  fix e :: ef_env and st_size want n :: u64 and ro is_new :: bool and s s' :: port and k err mode
  note o = ef_port_open_file_posix_def ef_port_open_file_existing_posix_def ef_port_map_file_posix_def ef_port_close_posix_def
  show "ef_port_open_file_posix e st_size want = (Inr is_new, s) \<Longrightarrow> holds False 0 s"
    "ef_port_open_file_posix e st_size want = (Inl err, s) \<Longrightarrow> released_with False 0 (snd s)"
    by (auto simp: o port_books split: if_splits)
  show "ef_port_open_file_existing_posix e st_size ro = (EF_OK, s) \<Longrightarrow> holds False 0 s"
    "ef_port_open_file_existing_posix e st_size ro = (err, s) \<Longrightarrow> err \<noteq> EF_OK \<Longrightarrow> released_with False 0 (snd s)"
    by (auto simp: o port_books split: if_splits)
  assume h: "holds False k s"
  obtain io hist where s: "s = (io, hist)" by fastforce
  obtain io' hist' where s': "s' = (io', hist')" by fastforce
  note g = grow_posix_cases[OF h[unfolded s], of e n err io' hist', folded s s']
  show "ef_port_grow_file_posix e s n = (EF_OK, s') \<Longrightarrow> holds False k s'"
    by (erule grow_posix_cases[OF h[unfolded s], of e n EF_OK io' hist', folded s s']) (use h in \<open>auto simp: s s' holds_def\<close>)
  show "ef_port_grow_file_posix e s n = (err, s') \<Longrightarrow> err = EF_ERR_IO \<or> err = EF_ERR_MMAP \<Longrightarrow> holds False (Suc k) (fst s, snd s')"
    by (erule g) (use h in \<open>auto simp: s s' holds_def\<close>)
  show "ef_port_grow_file_posix e s n = (err, s') \<Longrightarrow> err \<noteq> EF_OK \<Longrightarrow> err \<noteq> EF_ERR_IO \<Longrightarrow> err \<noteq> EF_ERR_MMAP \<Longrightarrow> snd s' = snd s"
    by (erule g) (auto simp: s s')
  show "ef_port_sync_posix e s mode = (err, s') \<Longrightarrow> holds False k s'"
    using h by (auto simp: s holds_def ef_port_sync_posix_def split: if_splits)
  show "released_with False k (snd (ef_port_close_posix s))"
    using h by (auto simp: s port_books ef_port_close_posix_def)
qed

subsection \<open>Win32\<close>

lemma unmap_win:
  assumes "holds True k (io, h)" "\<not> port_readonly io"
  shows "ef_port_unmap_file_win env (io, h) = (EF_OK, io\<lparr>map_handle := False, map_addr := False\<rparr>,
    h @ [Flushed] @ (if win_osfhandle env then [Buffers_flushed] else []) @ [Unmapped, Handle_closed])"
  using assms by (simp add: holds_def ef_port_unmap_file_win_def ef_port_flush_win32_def)

lemma grow_win_cases:
  assumes h: "holds True k (io, h)" and run: "ef_port_grow_file_win env (io, h) n = (err, io', h')"
  obtains hf where "err = EF_OK" "io' = io\<lparr>port_size := n, port_capacity := n\<rparr>" "set hf \<subseteq> {Flushed, Buffers_flushed}"
    "h' = h @ hf @ [Unmapped, Handle_closed, Resized n, Handle_created, Mapped n]"
  | hf hr where "err = EF_ERR_IO \<or> err = EF_ERR_MMAP" "set hf \<subseteq> {Flushed, Buffers_flushed}" "hr \<in> {[], [Resized n], [Resized n, Handle_created, Handle_closed]}"
    "h' = h @ hf @ [Unmapped, Handle_closed] @ hr"
  | "err \<noteq> EF_OK" "err \<noteq> EF_ERR_IO" "err \<noteq> EF_ERR_MMAP" "h' = h"
proof (cases "port_readonly io \<or> n \<le> port_size io")
  case True
  then show thesis using that(3) assms by (auto simp: holds_def ef_port_grow_file_win_def split: if_splits)
next
  case False
  then have r: "\<not> port_readonly io" by simp
  let ?hf = "[Flushed] @ (if win_osfhandle env then [Buffers_flushed] else [])"
  have f: "port_backend io = EF_BACKEND_FILE" "set ?hf \<subseteq> {Flushed, Buffers_flushed}" using h by (auto simp: holds_def)
  note d = ef_port_grow_file_win_def unmap_win[OF h r] ef_port_map_file_win_def Let_def
  show thesis
  proof (cases "win_chsize env n \<and> win_osfhandle env \<and> win_create_mapping env n \<and> win_map_view env n")
    case True
    then show thesis using that(1)[of ?hf] f h run False by (auto simp: d holds_def)
  next
    case failed: False
    let ?hr = "drop (length h + length ?hf + 2) h'"
    show thesis
      by (rule that(2)[of ?hf ?hr]) (use f run False failed in \<open>auto simp: d split: if_splits\<close>)
  qed
qed

lemma count_flushes:
  assumes "set hf \<subseteq> {Flushed, Buffers_flushed}"
  shows "view_count hf = 0" "e \<noteq> Flushed \<Longrightarrow> e \<noteq> Buffers_flushed \<Longrightarrow> count_list hf e = 0"
  using assms by (auto simp: view_count_def filter_empty_conv count_list_0_iff)

interpretation win: file_port ef_port_open_file_win ef_port_open_file_existing_win ef_port_grow_file_win ef_port_sync_win
  ef_port_close_win True
proof
  fix e :: win_env and st_size want n :: u64 and ro is_new :: bool and s s' :: port and k err mode
  note o = ef_port_open_file_win_def ef_port_open_file_existing_win_def ef_port_map_file_win_def ef_port_close_win_def
    ef_port_flush_win32_def
  show "ef_port_open_file_win e st_size want = (Inr is_new, s) \<Longrightarrow> holds True 0 s"
    "ef_port_open_file_win e st_size want = (Inl err, s) \<Longrightarrow> released_with True 0 (snd s)"
    by (auto simp: o port_books split: if_splits)
  show "ef_port_open_file_existing_win e st_size ro = (EF_OK, s) \<Longrightarrow> holds True 0 s"
    "ef_port_open_file_existing_win e st_size ro = (err, s) \<Longrightarrow> err \<noteq> EF_OK \<Longrightarrow> released_with True 0 (snd s)"
    by (auto simp: o port_books split: if_splits)
  assume h: "holds True k s"
  obtain io hist where s: "s = (io, hist)" by fastforce
  obtain io' hist' where s': "s' = (io', hist')" by fastforce
  note g = grow_win_cases[OF h[unfolded s], of e n err io' hist', folded s s']
  show "ef_port_grow_file_win e s n = (EF_OK, s') \<Longrightarrow> holds True k s'"
    by (erule grow_win_cases[OF h[unfolded s], of e n EF_OK io' hist', folded s s'])
       (use h in \<open>auto simp: s s' holds_def count_flushes\<close>)
  show "ef_port_grow_file_win e s n = (err, s') \<Longrightarrow> err = EF_ERR_IO \<or> err = EF_ERR_MMAP \<Longrightarrow> holds True (Suc k) (fst s, snd s')"
    by (erule g) (use h in \<open>auto simp: s s' holds_def count_flushes\<close>)
  show "ef_port_grow_file_win e s n = (err, s') \<Longrightarrow> err \<noteq> EF_OK \<Longrightarrow> err \<noteq> EF_ERR_IO \<Longrightarrow> err \<noteq> EF_ERR_MMAP \<Longrightarrow> snd s' = snd s"
    by (erule g) (auto simp: s s')
  show "ef_port_sync_win e s mode = (err, s') \<Longrightarrow> holds True k s'"
    using h by (auto simp: s holds_def ef_port_sync_win_def ef_port_sync_win32_def Let_def split: if_splits)
  show "released_with True k (snd (ef_port_close_win e s))"
    using h by (auto simp: s port_books ef_port_close_win_def ef_port_flush_win32_def)
qed

subsection \<open>Properties\<close>

text \<open>
  C15: what the port layer takes from the operating system and gives back, on POSIX and on Windows,
  whatever the system answers. An open that fails has given back all it had taken, exactly once.
  After a successful open and any number of growths and syncs of the handle, closing it closes the
  descriptor exactly once, and it gives back the views and the mapping handles: each exactly
  once if no growth failed with \<^verbatim>\<open>EF_ERR_IO\<close> or \<^verbatim>\<open>EF_ERR_MMAP\<close>. Each of the \<open>k\<close> growths that did fail so
  makes one view, and on Windows one mapping handle, be released once too often, because the handle
  keeps the address and the mapping handle that the failed growth has given up.
\<close>

theorem port_never_leaks:
  "(ef_port_open_file_posix e st_size want = (Inl err, s) \<longrightarrow> released_with False 0 (snd s)) \<and>
   (ef_port_open_file_win w st_size want = (Inl err, s) \<longrightarrow> released_with True 0 (snd s)) \<and>
   (ef_port_open_file_existing_posix e st_size ro = (err, s) \<and> err \<noteq> EF_OK \<longrightarrow> released_with False 0 (snd s)) \<and>
   (ef_port_open_file_existing_win w st_size ro = (err, s) \<and> err \<noteq> EF_OK \<longrightarrow> released_with True 0 (snd s)) \<and>
   (port_reach ef_port_open_file_posix ef_port_open_file_existing_posix ef_port_grow_file_posix ef_port_sync_posix s k \<longrightarrow>
      released_with False k (snd (ef_port_close_posix s))) \<and>
   (port_reach ef_port_open_file_win ef_port_open_file_existing_win ef_port_grow_file_win ef_port_sync_win s k \<longrightarrow>
      released_with True k (snd (ef_port_close_win w s)))"
  by (intro conjI impI; (elim conjE)?)
     (erule posix.opn_failed win.opn_failed posix.close_after win.close_after | (erule posix.existing_failed, assumption) |
      (erule win.existing_failed, assumption))+

text \<open>
  On Windows: a new file whose view cannot be mapped; and a file that is opened, grown, grown in vain
  and closed, with one view and one mapping handle released twice.
\<close>

definition sample_win :: win_env where
  "sample_win = \<lparr>win_open = True, win_fstat = True, win_chsize = (\<lambda>n. n < 16384), win_osfhandle = True,
     win_create_mapping = (\<lambda>_. True), win_map_view = (\<lambda>n. n < 16384), win_flush_view = True, win_flush_buffers = True\<rparr>"

lemma sample_win_opened:
  "ef_port_open_file_win sample_win 4096 0 = (Inr False, \<lparr>fd = True, map_addr = True, port_size = 4096, port_capacity = 4096,
     port_backend = EF_BACKEND_FILE, port_readonly = False, map_handle = True\<rparr>, [Opened, Handle_created, Mapped 4096])"
  by (simp add: ef_port_open_file_win_def io_clear_def sample_win_def)

lemma sample_win_grown:
  fixes io h
  defines "io n \<equiv> \<lparr>fd = True, map_addr = True, port_size = n, port_capacity = n, port_backend = EF_BACKEND_FILE,
    port_readonly = False, map_handle = True\<rparr>"
  shows "grow_handle ef_port_grow_file_win sample_win (io 4096, h) 8192 =
      (EF_OK, io 8192, h @ [Flushed, Buffers_flushed, Unmapped, Handle_closed, Resized 8192, Handle_created, Mapped 8192])"
    "grow_handle ef_port_grow_file_win sample_win (io 8192, h) 16384 =
      (EF_ERR_IO, io 8192, h @ [Flushed, Buffers_flushed, Unmapped, Handle_closed])"
  by (simp_all add: io_def grow_handle_def ef_port_grow_file_win_def ef_port_unmap_file_win_def ef_port_map_file_win_def
      ef_port_flush_win32_def sample_win_def)

theorem port_never_leaks_witness:
  "(\<exists>s. ef_port_open_file_win sample_win 0 16383 = (Inr True, s)) \<and>
   (\<exists>s. ef_port_open_file_existing_win sample_win 16384 False = (EF_ERR_MMAP, s) \<and> released_with True 0 (snd s)) \<and>
   (\<exists>s s'. port_reach ef_port_open_file_win ef_port_open_file_existing_win ef_port_grow_file_win ef_port_sync_win s 0 \<and>
      released_with True 0 (snd (ef_port_close_win sample_win s)) \<and>
      grow_handle ef_port_grow_file_win sample_win s 16384 = (EF_ERR_IO, s') \<and>
      released_with True 1 (snd (ef_port_close_win sample_win s')))"
proof -
  let ?R = "port_reach ef_port_open_file_win ef_port_open_file_existing_win ef_port_grow_file_win ef_port_sync_win"
  obtain s where s: "ef_port_open_file_existing_win sample_win 16384 False = (EF_ERR_MMAP, s)"
    by (simp add: ef_port_open_file_existing_win_def ef_port_map_file_win_def sample_win_def)
  obtain s0 where o: "ef_port_open_file_win sample_win 4096 0 = (Inr False, s0)" by (simp add: sample_win_opened)
  have "?R s0 0" by (rule port_reach.opened) (rule o)
  moreover obtain s1 s2 where g: "grow_handle ef_port_grow_file_win sample_win s0 8192 = (EF_OK, s1)"
    "grow_handle ef_port_grow_file_win sample_win s1 16384 = (EF_ERR_IO, s2)"
    using o sample_win_grown by (auto simp: sample_win_opened)
  ultimately have r1: "?R s1 0" using port_reach.grown[OF _ g(1)] by simp
  then have r2: "?R s2 1" using port_reach.grown[OF _ g(2)] by simp
  have "released_with True 0 (snd s)" "released_with True 0 (snd (ef_port_close_win sample_win s1))"
    "released_with True 1 (snd (ef_port_close_win sample_win s2))"
    using port_never_leaks[of _ 16384 _ EF_ERR_MMAP s sample_win False] port_never_leaks[of _ _ _ _ s1 sample_win _ 0]
      port_never_leaks[of _ _ _ _ s2 sample_win _ 1] s r1 r2 by simp_all
  moreover have "\<exists>s. ef_port_open_file_win sample_win 0 16383 = (Inr True, s)"
    by (simp add: ef_port_open_file_win_def sample_win_def)
  ultimately show ?thesis
    using s r1 g(2) by (intro conjI) (assumption | (rule exI, rule conjI, assumption, assumption) |
      (rule exI[of _ s1], rule exI[of _ s2], intro conjI, assumption+))+
qed

subsection \<open>The rest of the model\<close>

text \<open>What the rest of the model sees of a \<^verbatim>\<open>struct ef_io\<close>, and of the Windows calls.\<close>

definition io_of :: "mem \<Rightarrow> port_io \<Rightarrow> ef_io" where
  "io_of bytes io = \<lparr>io_mem = bytes, io_mapped = map_addr io, map_size = port_size io, io_capacity = port_capacity io,
     io_backend = port_backend io, io_readonly = port_readonly io\<rparr>"

definition as_posix :: "win_env \<Rightarrow> ef_env" where
  "as_posix w = \<lparr>env_open = win_open w, env_fstat = win_fstat w, env_ftruncate = win_chsize w,
     env_mmap = (\<lambda>n. win_create_mapping w n \<and> win_map_view w n), env_msync = win_flush_view w \<and> win_flush_buffers w,
     env_malloc = (\<lambda>_. True), env_calloc = True\<rparr>"

definition opened_as :: "mem \<Rightarrow> u64 \<Rightarrow> (ef_err + bool) \<times> port \<Rightarrow> ef_err + (ef_io \<times> bool)" where
  "opened_as bytes want = (\<lambda>(r, io, h).
     case r of Inl err \<Rightarrow> Inl err | Inr is_new \<Rightarrow> Inr (io_of (if is_new then mem_set bytes 0 0 (unat want) else bytes) io, is_new))"

definition existing_as :: "mem \<Rightarrow> ef_err \<times> port \<Rightarrow> ef_err + ef_io" where
  "existing_as bytes = (\<lambda>(err, io, h). if err = EF_OK then Inr (io_of bytes io) else Inl err)"

definition port_of :: "ef_db \<Rightarrow> port_io" where
  "port_of db = \<lparr>fd = (backend db = EF_BACKEND_FILE), map_addr = mapped db, port_size = file_size db,
     port_capacity = map_capacity db, port_backend = backend db, port_readonly = readonly db,
     map_handle = (backend db = EF_BACKEND_FILE)\<rparr>"

text \<open>
  Both branches implement the operations on which the rest of the development rests. On POSIX,
  opening, opening an existing file, growing and syncing have the results that the functions of
  \<^verbatim>\<open>Open\<close> and \<^verbatim>\<open>Index\<close> give for the same answers of the system, and after a growth the handle has the
  same fields; on Windows the same holds as long as the runtime knows the handle of its descriptor,
  with a file mapping and its view together in the place of \<^verbatim>\<open>mmap\<close>, and for the full sync in the
  place of \<^verbatim>\<open>msync\<close>.
\<close>

lemma ports_open_as_modelled:
  "opened_as bytes want (ef_port_open_file_posix env st_size want) = ef_port_open_file env bytes st_size want"
  "win_osfhandle w \<Longrightarrow>
     opened_as bytes want (ef_port_open_file_win w st_size want) = ef_port_open_file (as_posix w) bytes st_size want"
  "existing_as bytes (ef_port_open_file_existing_posix env st_size ro) = ef_port_open_file_existing env bytes st_size ro"
  "win_osfhandle w \<Longrightarrow>
     existing_as bytes (ef_port_open_file_existing_win w st_size ro) = ef_port_open_file_existing (as_posix w) bytes st_size ro"
  by (auto simp: ef_port_open_file_posix_def ef_port_open_file_win_def ef_port_open_file_def ef_port_close_posix_def
      ef_port_open_file_existing_posix_def ef_port_open_file_existing_win_def ef_port_map_file_posix_def ef_port_map_file_win_def
      ef_port_open_file_existing_def io_of_def io_clear_def as_posix_def opened_as_def existing_as_def Let_def split: prod.split)

lemma ports_grow_as_modelled:
  assumes "mapped db" "ef_port_grow_file env db n = (err, db')"
  shows "\<exists>h'. grow_handle ef_port_grow_file_posix env (port_of db, h) n = (err, port_of db', h')"
    "env = as_posix w \<Longrightarrow> win_osfhandle w \<Longrightarrow>
       \<exists>h'. grow_handle ef_port_grow_file_win w (port_of db, h) n = (err, port_of db', h')"
  using assms
  by (auto simp: grow_handle_def ef_port_grow_file_posix_def ef_port_unmap_file_posix_def ef_port_map_file_posix_def
      ef_port_grow_file_win_def ef_port_unmap_file_win_def ef_port_flush_win32_def ef_port_map_file_win_def ef_port_grow_file_def
      port_of_def as_posix_def Let_def split: if_splits)

lemma ports_sync_as_modelled:
  "fst (ef_port_sync_posix env (port_of db, h) mode) = ef_port_sync env db"
  "win_osfhandle w \<Longrightarrow> backend db = EF_BACKEND_FILE \<Longrightarrow>
     fst (ef_port_sync_win w (port_of db, h) EF_SYNC_FULL) = ef_port_sync (as_posix w) db"
  by (simp_all add: ef_port_sync_posix_def ef_port_sync_win_def ef_port_sync_win32_def ef_port_sync_def port_of_def as_posix_def Let_def)

end
