(* ===== verification/Txn_Links.thy ===== *)
theory Txn_Links
  imports Txn_Props Slot_Writes
begin

text \<open>
  Transactions that rewrite the links of slots. Each \<^verbatim>\<open>ef_set_next_offset\<close> that changes a link appends
  a record with the old one; a slot may be written several times. The replay runs from the newest
  record to the oldest, so that the oldest value of each link wins.
\<close>

text \<open>A caller that sets links one after the other and stops at the first error.\<close>

fun set_links :: "(u64 \<times> u64) list \<Rightarrow> ef_db \<Rightarrow> ef_err \<times> ef_db" where
  "set_links [] db = (EF_OK, db)"
| "set_links ((i, off) # ws) db =
     (case ef_set_next_offset db i off of (err, db) \<Rightarrow> if err \<noteq> EF_OK then (err, db) else set_links ws db)"

definition link_rec :: "ef_db \<Rightarrow> u64 \<times> u64 \<Rightarrow> ef_undo_record" where
  "link_rec db = (\<lambda>(i, v). undo_rec EF_UNDO_KIND_SLOT_NEXT (ef_slot_to_offset db i) 0 (Some (le_bytes 8 v @ replicate 4 0)))"

text \<open>The link of slot \<open>j\<close> once the log \<open>olds\<close> has been replayed.\<close>

definition old_next :: "ef_db \<Rightarrow> (u64 \<times> u64) list \<Rightarrow> u64 \<Rightarrow> u64" where
  "old_next db olds j = (case map_of olds j of Some v \<Rightarrow> v | None \<Rightarrow> next_offset (db_slot db j))"

text \<open>The slots of \<open>db0\<close>, but for links that the log \<open>olds\<close> restores.\<close>

definition restorable :: "ef_db \<Rightarrow> ef_db \<Rightarrow> (u64 \<times> u64) list \<Rightarrow> bool" where
  "restorable db0 db olds \<longleftrightarrow>
     (\<forall>j < max_slots (sb db0). status (db_slot db j) = status (db_slot db0 j) \<and> payload (db_slot db j) = payload (db_slot db0 j) \<and>
        old_next db olds j = next_offset (db_slot db0 j)) \<and>
     (\<forall>i \<in> fst ` set olds. i < max_slots (sb db0))"

definition relinking :: "ef_db \<Rightarrow> ef_db \<Rightarrow> (u64 \<times> u64) list \<Rightarrow> bool" where
  "relinking db0 db olds \<longleftrightarrow>
     in_txn db (map (link_rec db0) olds) \<and> same_layout db0 db \<and> sb db = sb db0 \<and> table db = table db0 \<and>
     hash_entry_count db = hash_entry_count db0 \<and> undo_log_slots db = undo_log_slots db0 \<and> restorable db0 db olds"

lemma same_layout_trans: "same_layout a b \<Longrightarrow> same_layout b c \<Longrightarrow> same_layout a c"
  by (simp add: same_layout_def)

subsection \<open>Writing a link\<close>

definition write_link :: "ef_db \<Rightarrow> u64 \<Rightarrow> u64 \<Rightarrow> ef_db" where
  "write_link db i v = ef_slot_header_crc_store (ef_slot_next_offset_store db (db_slot_ptr db i) v) i (db_slot_ptr db i)"

lemma write_link_puts:
  assumes "wf_layout db"
  shows "puts db (write_link db i v) i (seal db i ((db_slot db i)\<lparr>next_offset := v\<rparr>))"
proof -
  let ?d = "ef_slot_next_offset_store db (db_slot_ptr db i) v"
  have p: "puts db ?d i ((db_slot db i)\<lparr>next_offset := v\<rparr>)"
    using puts_next[OF assms] by (simp add: ef_slot_next_offset_store_def)
  note c = puts_crc[OF puts_wf[OF p assms], of i]
  have "seal ?d = seal db" by (rule flags_cong(1)[OF puts_flags[OF p]])
  then show ?thesis using puts_trans[OF p c] puts_slot[OF p, of i] puts_ptr[OF p, of i] by (simp add: write_link_def)
qed

lemma write_link_kept:
  assumes "undo_area_ok db" "i < max_slots (sb db)"
  shows "log_kept db (write_link db i v)" "mem_only db (write_link db i v)"
proof -
  have "mem (write_link db i v) x = mem db x" if "unat (undo_log_base db) \<le> x" for x
    using le_trans[OF undo_above_slot[OF assms] that]
    by (simp add: write_link_def above_slot ef_slot_next_offset_store_def)
  then show "log_kept db (write_link db i v)"
    by (simp add: log_kept_def) (simp add: write_link_def ef_slot_next_offset_store_def)
  have "write_link db i v = db\<lparr>mem := mem (write_link db i v)\<rparr>"
    by (simp add: write_link_def ef_slot_next_offset_store_def ef_slot_header_crc_store_def)
  then show "mem_only db (write_link db i v)" using mem_only_intros(2)[of db] by metis
qed

lemma relinking_error:
  assumes "relinking db0 db olds"
  shows "relinking db0 (ef_set_error db e) olds"
proof -
  have "in_txn (ef_set_error db e) recs = in_txn db recs" for recs
    by (simp add: in_txn_def log_holds_error undo_area_ok_def wf_layout_def)
  moreover have "restorable db0 (ef_set_error db e) olds = restorable db0 db olds"
    by (simp add: restorable_def old_next_def split: option.split)
  moreover have "same_layout db (ef_set_error db e)" by (simp add: same_layout_def)
  moreover have "table (ef_set_error db e) = table db" by (simp add: table_def)
  ultimately show ?thesis using assms same_layout_trans by (auto simp: relinking_def)
qed

text \<open>A link may be overwritten once its old value is in the log, or if it does not change.\<close>

lemma relinking_write:
  assumes r: "relinking db0 db olds" and i: "i < max_slots (sb db0)" and old: "i \<in> fst ` set olds \<or> v = next_offset (db_slot db i)"
  shows "relinking db0 (write_link db i v) olds"
proof -
  let ?d = "write_link db i v"
  have t: "in_txn db (map (link_rec db0) olds)" and sb: "sb db = sb db0" using r by (simp_all add: relinking_def)
  note f = in_txn_facts[OF t]
  note p = write_link_puts[OF f(2), of i v] and k = write_link_kept[OF f(1), of i v]
  have kept: "log_kept db ?d" "mem_only db ?d" using k i sb by simp_all
  have lay: "same_layout db ?d" and tab: "touches db ?d {i}" "sb ?d = sb db" using p touches_layout by (auto simp: puts_def)
  have "undo_area_ok ?d" using undo_area_kept[OF lay kept(1)] f(1) by simp
  then have "in_txn ?d (map (link_rec db0) olds)"
    using t log_kept_holds(3)[OF kept(1)] tab by (simp add: in_txn_def touches_def)
  moreover have "restorable db0 ?d olds"
  proof -
    have "old_next ?d olds j = old_next db olds j" for j
      using old puts_slot[OF p, of j] map_of_eq_None_iff[of olds j] by (auto simp: old_next_def split: option.split)
    moreover have "status (db_slot ?d j) = status (db_slot db j)" "payload (db_slot ?d j) = payload (db_slot db j)" for j
      using puts_slot[OF p, of j] by simp_all
    moreover have "restorable db0 db olds" using r by (simp add: relinking_def)
    ultimately show ?thesis unfolding restorable_def by metis
  qed
  moreover have "table ?d = table db" "hash_entry_count ?d = hash_entry_count db" "undo_log_slots ?d = undo_log_slots db"
    using tab(1) kept(1) by (simp_all add: touches_def log_kept_def)
  ultimately show ?thesis
    using r tab(2) same_layout_trans[OF _ lay] unfolding relinking_def by metis
qed

lemma relinking_record:
  assumes r: "relinking db0 db olds" and i: "i < max_slots (sb db0)" and room: "length olds < unat (undo_log_slots db0)"
  shows "relinking db0 (snd (ef_txn_record_slot_next db i (next_offset (db_slot db i)))) (olds @ [(i, next_offset (db_slot db i))])"
proof -
  let ?v = "next_offset (db_slot db i)"
  have t: "in_txn db (map (link_rec db0) olds)" and lay: "same_layout db0 db" and slots: "undo_log_slots db = undo_log_slots db0"
    and sb: "sb db = sb db0" using r by (simp_all add: relinking_def)
  note f = in_txn_facts[OF t]
  have rm: "length (map (link_rec db0) olds) < unat (undo_log_slots db)" using room slots by simp
  obtain d where d: "ef_undo_record_append db EF_UNDO_KIND_SLOT_NEXT (ef_slot_to_offset db i) 0 (Some (le_bytes 8 ?v @ replicate 4 0)) = (EF_OK, d)"
    "log_only db d" "log_holds d (map (link_rec db0) olds @ [undo_rec EF_UNDO_KIND_SLOT_NEXT (ef_slot_to_offset db i) 0 (Some (le_bytes 8 ?v @ replicate 4 0))])"
    by (rule append_ok[OF f(1,5,7) rm, where kind = EF_UNDO_KIND_SLOT_NEXT and target = "ef_slot_to_offset db i" and aux_v = 0
          and before_bytes = "Some (le_bytes 8 ?v @ replicate 4 0)"]) auto
  note g = log_only_facts[OF f(1) d(2)]
  have run: "snd (ef_txn_record_slot_next db i ?v) = d" using d(1) f(5) by (simp add: ef_txn_record_slot_next_def ef_txn_active_def)
  have "log_holds d (map (link_rec db0) (olds @ [(i, ?v)]))"
    using d(3) same_layout_offset[OF lay] by (simp add: link_rec_def)
  then have "in_txn d (map (link_rec db0) (olds @ [(i, ?v)]))" using t g(1,5-7) by (simp add: in_txn_def)
  moreover have "restorable db0 d (olds @ [(i, ?v)])"
  proof -
    have "old_next d (olds @ [(i, ?v)]) j = old_next db olds j \<and> db_slot d j = db_slot db j" if "j < max_slots (sb db0)" for j
      using that g(2)[of j] sb by (auto simp: old_next_def map_add_def split: option.split)
    then show ?thesis using r i by (simp add: relinking_def restorable_def)
  qed
  ultimately show ?thesis
    unfolding run relinking_def using r g(1,4,8,10) same_layout_trans[OF lay g(3)] by (simp add: relinking_def)
qed

subsection \<open>Setting links in a transaction\<close>

lemma set_next_step:
  assumes r: "relinking db0 db olds" and room: "length olds < unat (undo_log_slots db0)"
    and run: "ef_set_next_offset db i off = (err, db')"
  obtains olds' where "relinking db0 db' olds'" "length olds' \<le> length olds + 1"
proof -
  have f: "\<not> readonly db" "txn_active db" "sb db = sb db0" using r by (simp_all add: relinking_def in_txn_def)
  obtain q d where g: "ef_get_slot db i = (q, d)" by fastforce
  obtain e where d: "d = ef_set_error db e" and q: "q = Some p \<Longrightarrow> i < max_slots (sb db) \<and> p = db_slot_ptr db i" for p
    using get_slot_result[OF g] by blast
  have rd: "relinking db0 d olds" unfolding d by (rule relinking_error[OF r])
  have sd: "db_slot_ptr d i = db_slot_ptr db i" "db_slot d i = db_slot db i" "txn_active d" using f(2) by (simp_all add: d)
  show thesis
  proof (cases "q = None \<or> (\<exists>x. db' = ef_set_error d x)")
    case True
    then have "\<exists>x. db' = ef_set_error d x \<or> db' = d" using run g f(1) by (auto simp: ef_set_next_offset_def ef_db_require_write_def)
    then show thesis using that[of olds] rd relinking_error by auto
  next
    case False
    then obtain p where p: "q = Some p" by auto
    let ?v = "next_offset (db_slot d i)"
    define d1 where "d1 = (if ?v \<noteq> off then snd (ef_txn_record_slot_next d i ?v) else d)"
    define olds1 where "olds1 = (if ?v \<noteq> off then olds @ [(i, ?v)] else olds)"
    have i: "i < max_slots (sb db0)" using q[OF p] f(3) by simp
    have r1: "relinking db0 d1 olds1" using relinking_record[OF rd i room] rd by (simp add: d1_def olds1_def)
    then have base: "slots_base d1 = slots_base d" using rd by (simp add: relinking_def same_layout_def)
    have db': "db' = ef_set_error (write_link d1 i off) EF_OK"
      using run g f(1) False p q[OF p] sd(1,3) base
      by (auto simp: ef_set_next_offset_def ef_db_require_write_def ef_slot_next_offset_load_def ef_txn_active_def write_link_def d1_def Let_def
          split: if_splits sum.splits)
    have "i \<in> fst ` set olds1 \<or> off = next_offset (db_slot d1 i)"
      by (cases "?v = off") (simp_all add: olds1_def d1_def)
    from relinking_error[OF relinking_write[OF r1 i this]] show thesis
      using that[of olds1] by (simp add: db' olds1_def)
  qed
qed

lemma set_links_ok:
  assumes "relinking db0 db olds" "length olds + length ws \<le> unat (undo_log_slots db0)" "set_links ws db = (err, db')"
  obtains olds' where "relinking db0 db' olds'"
  using assms
proof (induction ws arbitrary: db olds thesis)
  case Nil
  then show thesis by simp
next
  case (Cons w ws)
  obtain i off where w: "w = (i, off)" by fastforce
  obtain e d where d: "ef_set_next_offset db i off = (e, d)" by fastforce
  have room: "length olds < unat (undo_log_slots db0)" using Cons.prems(3) by simp
  obtain olds1 where r: "relinking db0 d olds1" "length olds1 \<le> length olds + 1"
    by (rule set_next_step[OF Cons.prems(2) room d])
  show thesis
  proof (cases "e = EF_OK")
    case True
    then have run: "set_links ws d = (err, db')" using Cons.prems(4) w d by simp
    have len: "length olds1 + length ws \<le> unat (undo_log_slots db0)" using r(2) Cons.prems(3) by simp
    show thesis by (rule Cons.IH[OF _ r(1) len run]) (rule Cons.prems(1))
  next
    case False
    then show thesis using Cons.prems(1,4) w d r(1) by auto
  qed
qed

text \<open>A write to a used slot succeeds.\<close>

lemma set_next_ok:
  assumes r: "relinking db0 db olds" and room: "length olds < unat (undo_log_slots db0)" and i: "i < max_slots (sb db0)"
    and fl: "flags (sb db0) = 0" and u: "status (db_slot db0 i) = EF_STATUS_USED"
    and no: "\<forall>j < max_slots (sb db0). status (db_slot db0 j) \<noteq> EF_STATUS_OVERFLOW" and off: "off = ef_slot_to_offset db0 j" "j < max_slots (sb db0)"
  shows "fst (ef_set_next_offset db i off) = EF_OK" "next_offset (db_slot (snd (ef_set_next_offset db i off)) i) = off"
proof -
  let ?d = "ef_set_error db EF_OK"
  have t: "in_txn db (map (link_rec db0) olds)" and R: "same_layout db0 db" "sb db = sb db0" "restorable db0 db olds"
    using r by (simp_all add: relinking_def)
  note f = in_txn_facts[OF t]
  have st: "status (db_slot db k) = status (db_slot db0 k)" if "k < max_slots (sb db0)" for k using R(3) that by (simp add: restorable_def)
  have g: "ef_get_slot db i = (Some (db_slot_ptr db i), ?d)"
    using f(8) i R(2) fl by (intro get_slot_ok) (simp_all add: ef_slot_header_crc_valid_def)
  have chain: "\<not> ef_slot_has_overflow_chain ?d (db_slot_ptr db i)"
    using no st R(2) by (auto simp: ef_slot_has_overflow_chain_def Let_def split: sum.split)
  have o: "ef_offset_to_slot_id ?d off = Inr j"
    using offset_to_slot_id_roundtrip[OF f(2), of j] off R(2) same_layout_offset[OF R(1)] offset_cong(2)[of ?d db] by simp
  let ?v = "next_offset (db_slot ?d i)"
  define d1 where "d1 = (if ?v \<noteq> off then snd (ef_txn_record_slot_next ?d i ?v) else ?d)"
  have "relinking db0 d1 (if ?v \<noteq> off then olds @ [(i, ?v)] else olds)"
    using relinking_record[OF relinking_error[OF r] i room, of EF_OK] relinking_error[OF r] by (simp add: d1_def)
  then have D: "wf_layout d1" "slots_base d1 = slots_base db"
    using R(1) in_txn_facts(2) by (auto simp: relinking_def same_layout_def)
  have "ef_set_next_offset db i off = (EF_OK, ef_set_error (write_link d1 i off) EF_OK)"
    using g f(4,5) u st[OF i] chain o D(2)
    by (simp add: ef_set_next_offset_def ef_db_require_write_def ef_slot_next_offset_load_def ef_txn_active_def write_link_def d1_def Let_def)
  then show "fst (ef_set_next_offset db i off) = EF_OK" "next_offset (db_slot (snd (ef_set_next_offset db i off)) i) = off"
    using puts_slot[OF write_link_puts[OF D(1), of i off], of i] by simp_all
qed

subsection \<open>Replay\<close>

lemma undo_apply_next:
  assumes rec: "undo_record_of (mem db) p = link_rec db0 (i, v)" and lay: "same_layout db0 db"
    and wf: "wf_layout db" and i: "i < max_slots (sb db)"
  shows "undo_apply env db p = (EF_OK, write_link (ef_set_error db EF_OK) i v)"
proof -
  have b: "load_bytes (mem db) (p + 20) 12 = le_bytes 8 v @ replicate 4 0"
    using arg_cong[OF rec, of before] by (simp add: undo_record_of_def link_rec_def undo_rec_def)
  have "load_bytes (mem db) (p + 20) 8 = take 8 (load_bytes (mem db) (p + 20) 12)"
    by (simp add: load_bytes_def take_map)
  then have v: "load_u64 (mem db) (p + 20) = v" by (simp add: b load_u64_def le_word_le_bytes)
  have k: "undo_kind (undo_record_of (mem db) p) = EF_UNDO_KIND_SLOT_NEXT" "target_offset (undo_record_of (mem db) p) = ef_slot_to_offset db i"
    using rec same_layout_offset[OF lay] by (simp_all add: link_rec_def undo_rec_def)
  show ?thesis
    using k v offset_to_slot_id_roundtrip[OF wf i] peek_ok[of db i] i wf
    by (simp add: undo_apply_def Let_def ef_undo_kind_defs ef_undo_restore_slot_next_def write_link_def)
qed

definition relinked_back :: "ef_db \<Rightarrow> ef_db \<Rightarrow> (u64 \<times> u64) list \<Rightarrow> bool" where
  "relinked_back db d olds \<longleftrightarrow>
     mem_only db d \<and> log_kept db d \<and> same_layout db d \<and> sb d = sb db \<and> table d = table db \<and>
     (\<forall>j. status (db_slot d j) = status (db_slot db j) \<and> payload (db_slot d j) = payload (db_slot db j) \<and>
        next_offset (db_slot d j) = old_next db olds j)"

lemma relinked_back_step:
  assumes ok: "undo_area_ok db" and i: "i < max_slots (sb db)"
    and b: "relinked_back (write_link (ef_set_error db EF_OK) i v) d olds"
  shows "relinked_back db d (olds @ [(i, v)])"
proof -
  let ?a = "ef_set_error db EF_OK" and ?b = "write_link (ef_set_error db EF_OK) i v"
  have oka: "undo_area_ok ?a" using ok by (simp add: undo_area_ok_def wf_layout_def)
  then have wfa: "wf_layout ?a" by (simp add: undo_area_ok_def)
  note p = write_link_puts[OF wfa, of i v] and k = write_link_kept[OF oka, of i v]
  have a: "mem_only db ?a" "log_kept db ?a" "same_layout db ?a" "sb ?a = sb db" "table ?a = table db"
    using mem_only_intros(3) by (simp_all add: log_kept_def same_layout_def table_def)
  have ab: "mem_only ?a ?b" "log_kept ?a ?b" "same_layout ?a ?b" "sb ?b = sb ?a" "table ?b = table ?a"
    using k i p touches_layout by (auto simp: puts_def touches_def)
  have slot: "db_slot ?b j = (if j = i then seal ?a i ((db_slot db i)\<lparr>next_offset := v\<rparr>) else db_slot db j)" for j
    using puts_slot[OF p, of j] by simp
  have "mem_only db d" "log_kept db d" "same_layout db d" "sb d = sb db" "table d = table db"
    using b a ab mem_only_trans log_kept_trans same_layout_trans unfolding relinked_back_def by metis+
  moreover have "old_next ?b olds j = old_next db (olds @ [(i, v)]) j" for j
    by (auto simp: old_next_def slot map_add_def split: option.split)
  moreover have "status (db_slot ?b j) = status (db_slot db j)" "payload (db_slot ?b j) = payload (db_slot db j)" for j
    by (simp_all add: slot)
  ultimately show ?thesis using b unfolding relinked_back_def by simp
qed

lemma replay_links:
  assumes "undo_area_ok db" "same_layout db0 db" "log_ahead db (map (link_rec db0) olds)" "\<forall>i \<in> fst ` set olds. i < max_slots (sb db)"
  obtains d where "replay_loop env (unat (undo_log_base db)) (of_nat (32 + 32 * length (map (link_rec db0) olds))) db = (EF_OK, d)"
    "relinked_back db d olds"
  using assms
proof (induction olds arbitrary: db thesis rule: rev_induct)
  case Nil
  have "mem_only db db" "log_kept db db" "same_layout db db" using mem_only_intros(1) by (simp_all add: log_kept_def same_layout_def)
  then have "relinked_back db db []" by (simp add: relinked_back_def old_next_def)
  then show thesis using Nil.prems(1) replay_done[of env "unat (undo_log_base db)" db] by simp
next
  case (snoc w olds)
  obtain i v where w: "w = (i, v)" by fastforce
  let ?recs = "map (link_rec db0) olds"
  define b where "b = write_link (ef_set_error db EF_OK) i v"
  have i: "i < max_slots (sb db)" and wf: "wf_layout db" using snoc.prems(2,5) by (simp_all add: w undo_area_ok_def)
  have log: "log_ahead db (?recs @ [link_rec db0 (i, v)])" using snoc.prems(4) by (simp add: w)
  have ap: "undo_apply env db (rec_ptr db (length ?recs)) = (EF_OK, b)"
    unfolding b_def by (rule undo_apply_next[OF log_ahead_last(2)[OF log] snoc.prems(3) wf i])
  have oka: "undo_area_ok (ef_set_error db EF_OK)" using snoc.prems(2) by (simp add: undo_area_ok_def wf_layout_def)
  have kept: "log_kept (ef_set_error db EF_OK) b" "same_layout (ef_set_error db EF_OK) b" "sb b = sb db"
    using write_link_kept(1)[OF oka, of i v] write_link_puts[of "ef_set_error db EF_OK" i v] oka i touches_layout
    by (auto simp: b_def undo_area_ok_def puts_def)
  then have kb: "log_kept db b" "same_layout db b" by (simp_all add: log_kept_def same_layout_def)
  have okb: "undo_area_ok b" using undo_area_kept[OF kb(2,1)] snoc.prems(2) by simp
  have logb: "log_ahead b ?recs" using log_kept_holds(2)[OF kb(1)] log_ahead_last(1)[OF log] by simp
  have base: "undo_log_base b = undo_log_base db" using kb(1) by (simp add: log_kept_def)
  obtain d where d: "replay_loop env (unat (undo_log_base b)) (of_nat (32 + 32 * length ?recs)) b = (EF_OK, d)" "relinked_back b d olds"
    using snoc.IH[OF _ okb same_layout_trans[OF snoc.prems(3) kb(2)] logb] snoc.prems(5) kept(3) by auto
  have "replay_loop env (unat (undo_log_base db)) (of_nat (32 + 32 * length (?recs @ [link_rec db0 (i, v)]))) db = (EF_OK, d)"
    unfolding replay_last[OF log] using ap d(1) base by (simp only: prod.case) simp
  moreover have "relinked_back db d (olds @ [(i, v)])" using relinked_back_step[OF snoc.prems(2) i] d(2) by (simp add: b_def)
  ultimately show thesis using snoc.prems(1) by (simp only: w map_append list.map)
qed

subsection \<open>Abort\<close>

text \<open>The state in which the replay of an abort starts.\<close>

definition aborting :: "ef_db \<Rightarrow> ef_db" where
  "aborting db = db\<lparr>mem := set_sb_txn_state (mem db) EF_TXN_STATE_ABORTING, txn_state := EF_TXN_STATE_ABORTING\<rparr>"

lemma aborting_facts:
  assumes "in_txn db recs"
  shows "same_layout db (aborting db)" "log_kept db (aborting db)" "undo_area_ok (aborting db)" "log_image (aborting db) recs"
    "sb (aborting db) = (sb db)\<lparr>sb_txn_state := EF_TXN_STATE_ABORTING\<rparr>" "readonly (aborting db) = readonly db"
    "txn_active (aborting db)" "table (aborting db) = table db" "hash_entry_count (aborting db) = hash_entry_count db"
    "index_seq (aborting db) = index_seq db" "\<And>j. db_slot (aborting db) j = db_slot db j"
proof -
  note f = in_txn_facts[OF assms]
  have a: "aborting db = db\<lparr>mem := set_sb_txn_state (mem db) EF_TXN_STATE_ABORTING, txn_state := EF_TXN_STATE_ABORTING, last_err := last_err db\<rparr>"
    by (simp add: aborting_def)
  note s = state_byte[OF f(1) a]
  show "same_layout db (aborting db)" "log_kept db (aborting db)" "undo_area_ok (aborting db)"
    "sb (aborting db) = (sb db)\<lparr>sb_txn_state := EF_TXN_STATE_ABORTING\<rparr>" by (rule s)+
  show "log_image (aborting db) recs" using f(7) log_kept_holds(1)[OF s(2)] by (simp add: log_holds_def)
  show "readonly (aborting db) = readonly db" "txn_active (aborting db)" "table (aborting db) = table db"
    "hash_entry_count (aborting db) = hash_entry_count db" "index_seq (aborting db) = index_seq db"
    using f(5) by (simp_all add: aborting_def table_def)
  show "db_slot (aborting db) j = db_slot db j" for j using slot_base_64[OF f(2), of j] by (simp add: aborting_def)
qed

lemma abort_closes:
  assumes t: "in_txn db recs" and d: "ef_undo_replay_reverse env (aborting db) = (EF_OK, d)"
    and D: "log_kept (aborting db) d" "same_layout (aborting db) d" "sb d = sb (aborting db)"
  obtains e where "ef_txn_abort env db = (EF_OK, e)" "closed d e" "\<not> txn_active e" "index_seq e = index_seq d"
    "undo_log_slots e = undo_log_slots d" "sb e = (sb db)\<lparr>txn_lock := 0, sb_txn_state := EF_TXN_STATE_NONE\<rparr>"
proof -
  note f = in_txn_facts[OF t] and a = aborting_facts[OF t]
  have okd: "undo_area_ok d" using a(3) undo_area_kept[OF D(2,1)] by simp
  have "EF_SCHEMA_VERSION \<le> schema_version (sb d)" using D(3) f(3) a(5) by simp
  note c = finish_closed[OF okd this]
  define e where "e = ef_set_error (txn_finish d) EF_OK"
  have "closed d e" "\<not> txn_active e" "undo_log_slots e = undo_log_slots d" using c by (simp_all add: e_def closed_result)
  moreover have "index_seq e = index_seq d"
    by (simp add: e_def txn_finish_def Let_def ef_undo_reset_def ef_db_mark_meta_dirty_def ef_set_error_def split: option.split)
  moreover have "db\<lparr>txn_state := EF_TXN_STATE_ABORTING, mem := set_sb_txn_state (mem db) EF_TXN_STATE_ABORTING\<rparr> = aborting db"
    by (simp add: aborting_def)
  then have "ef_txn_abort env db = (EF_OK, e)"
    using f(3,5) d by (simp add: ef_txn_abort_def ef_sb_txn_state_store_def leD e_def)
  moreover have "sb e = (sb db)\<lparr>txn_lock := 0, sb_txn_state := EF_TXN_STATE_NONE\<rparr>"
    using calculation(1) D(3) a(5) by (simp add: closed_def)
  ultimately show thesis using that by blast
qed

lemma abort_links:
  assumes r: "relinking db0 db olds"
  obtains d where "ef_txn_abort env db = (EF_OK, d)" "\<not> txn_active d"
    "sb d = (sb db0)\<lparr>txn_lock := 0, sb_txn_state := EF_TXN_STATE_NONE\<rparr>" "same_layout db0 d" "table d = table db0"
    "hash_entry_count d = hash_entry_count db0" "undo_area_ok d" "\<not> readonly d"
    "\<forall>j < max_slots (sb db0). status (db_slot d j) = status (db_slot db0 j) \<and> payload (db_slot d j) = payload (db_slot db0 j) \<and>
       next_offset (db_slot d j) = next_offset (db_slot db0 j)"
proof -
  let ?a = "aborting db"
  have t: "in_txn db (map (link_rec db0) olds)" and R: "same_layout db0 db" "sb db = sb db0" "table db = table db0"
    "hash_entry_count db = hash_entry_count db0" "restorable db0 db olds" using r by (simp_all add: relinking_def)
  note f = in_txn_facts[OF t] and a = aborting_facts[OF t]
  have ids: "\<forall>i \<in> fst ` set olds. i < max_slots (sb ?a)" using R(2,5) a(5) by (simp add: restorable_def)
  obtain d where d: "ef_undo_replay_reverse env ?a = (EF_OK, d)" "relinked_back ?a d olds"
    using replay_links[OF a(3) same_layout_trans[OF R(1) a(1)] log_image_ahead[OF a(4)] ids, of env] replay_start[OF a(3,4)] by metis
  have D: "log_kept ?a d" "same_layout ?a d" "sb d = sb ?a" "table d = table ?a" "mem_only ?a d" using d(2) by (simp_all add: relinked_back_def)
  obtain e where e: "ef_txn_abort env db = (EF_OK, e)" "closed d e" "\<not> txn_active e"
    "sb e = (sb db)\<lparr>txn_lock := 0, sb_txn_state := EF_TXN_STATE_NONE\<rparr>"
    by (rule abort_closes[OF t d(1) D(1-3)])
  have sbd: "sb d = (sb db0)\<lparr>sb_txn_state := EF_TXN_STATE_ABORTING\<rparr>" using D(3) a(5) R(2) by simp
  have "status (db_slot e j) = status (db_slot db0 j) \<and> payload (db_slot e j) = payload (db_slot db0 j) \<and>
      next_offset (db_slot e j) = next_offset (db_slot db0 j)" if j: "j < max_slots (sb db0)" for j
  proof -
    have "db_slot e j = db_slot d j" using e(2) j sbd by (simp add: closed_def)
    moreover have "old_next ?a olds j = old_next db olds j" by (simp add: old_next_def a(11) split: option.split)
    ultimately show ?thesis using d(2) R(5) j a(11)[of j] by (simp add: relinked_back_def restorable_def)
  qed
  moreover have "same_layout d e" using e(2) by (simp add: closed_def)
  from same_layout_trans[OF same_layout_trans[OF same_layout_trans[OF R(1) a(1)] D(2)] this] have "same_layout db0 e" .
  moreover have "table e = table db0" "hash_entry_count e = hash_entry_count db0" "\<not> readonly e" "undo_area_ok e"
    using e(2) D(4) R(3,4) a(6,8,9) mem_only_fields(6,7)[OF D(5)] f(4) by (simp_all add: closed_def)
  ultimately show thesis using that[OF e(1,3)] e(4) R(2) by simp
qed

text \<open>The transaction of a caller up to its end.\<close>

lemma links_in_txn:
  assumes ready: "txn_ready db" and inv: "free_list_inv db ids" and bgn: "ef_txn_begin pid db = (EF_OK, db1)"
    and run: "set_links ws db1 = (err, db2)" and room: "length ws \<le> unat (undo_log_slots db)"
  obtains olds where "free_list_inv db1 ids" "same_layout db db1" "table db1 = table db" "hash_entry_count db1 = hash_entry_count db"
    "sb db1 = (sb db)\<lparr>txn_lock := 1, sb_txn_state := EF_TXN_STATE_ACTIVE\<rparr>" "\<forall>j < max_slots (sb db). db_slot db1 j = db_slot db j"
    "relinking db1 db2 olds"
proof -
  have b: "in_txn db1 [] \<and> free_list_inv db1 ids \<and> same_layout db db1 \<and> table db1 = table db \<and>
    undo_log_slots db1 = undo_log_slots db \<and> hash_entry_count db1 = hash_entry_count db \<and>
    sb db1 = (sb db)\<lparr>txn_lock := 1, sb_txn_state := EF_TXN_STATE_ACTIVE\<rparr> \<and>
    (\<forall>j < max_slots (sb db). db_slot db1 j = db_slot db j)"
    by (rule begin_ok[OF ready inv, where pid = pid]) (use bgn in simp)
  have "relinking db1 db1 []"
    using b by (simp add: relinking_def restorable_def old_next_def same_layout_def)
  then obtain olds where r: "relinking db1 db2 olds"
    using set_links_ok[OF _ _ run] room b by (metis add_0 list.size(3))
  show thesis by (rule that[of olds]) (use b r in simp_all)
qed

subsection \<open>Properties\<close>

text \<open>
  C20: a transaction that rewrites links, as many as the undo log has records and some perhaps several
  times, is undone by an abort: every slot has its old status, payload and link, the free list and the index are what
  they were, and the next transaction can begin. It makes no difference whether the caller got
  through or stopped at an error. Beyond the log the code goes on without recording.
\<close>

theorem txn_abort_restores_links:
  assumes ready: "txn_ready db" and inv: "free_list_inv db ids" and bgn: "ef_txn_begin pid db = (EF_OK, db1)"
    and run: "set_links ws db1 = (err, db2)" and room: "length ws \<le> unat (undo_log_slots db)"
  shows "\<exists>db3. ef_txn_abort env db2 = (EF_OK, db3) \<and> txn_ready db3 \<and> free_list_inv db3 ids \<and> table db3 = table db \<and>
    (\<forall>j < max_slots (sb db). status (db_slot db3 j) = status (db_slot db j) \<and> payload (db_slot db3 j) = payload (db_slot db j) \<and>
       next_offset (db_slot db3 j) = next_offset (db_slot db j))"
proof -
  obtain olds where b: "free_list_inv db1 ids" "same_layout db db1" "table db1 = table db" "hash_entry_count db1 = hash_entry_count db"
    "sb db1 = (sb db)\<lparr>txn_lock := 1, sb_txn_state := EF_TXN_STATE_ACTIVE\<rparr>" "\<forall>j < max_slots (sb db). db_slot db1 j = db_slot db j"
    and r: "relinking db1 db2 olds"
    by (rule links_in_txn[OF ready inv bgn run room])
  obtain d where d: "ef_txn_abort env db2 = (EF_OK, d)" "\<not> txn_active d"
    "sb d = (sb db1)\<lparr>txn_lock := 0, sb_txn_state := EF_TXN_STATE_NONE\<rparr>" "same_layout db1 d" "table d = table db1"
    "hash_entry_count d = hash_entry_count db1" "undo_area_ok d" "\<not> readonly d"
    "\<forall>j < max_slots (sb db1). status (db_slot d j) = status (db_slot db1 j) \<and> payload (db_slot d j) = payload (db_slot db1 j) \<and>
       next_offset (db_slot d j) = next_offset (db_slot db1 j)"
    by (rule abort_links[OF r])
  have wf: "wf_layout d" using d(7) by (simp add: undo_area_ok_def)
  have "quiet db" using ready by (simp add: txn_ready_def)
  moreover have "hash_capacity d = hash_capacity db" using d(4) b by (simp add: same_layout_def)
  ultimately have "txn_ready d" using d(2,3,6-8) wf b by (simp add: txn_ready_def quiet_def)
  moreover have "free_list_inv d ids"
  proof -
    have i: "free_list_inv db1 ids" using b by simp
    have "free_chain d off ids = free_chain db1 off ids" for off
      using d(9) pool_max[OF i] by (intro free_chain_cong[OF d(4)]) simp
    then show ?thesis using i wf d(3) by (simp add: free_list_inv_def)
  qed
  ultimately show ?thesis using d(1,5,9) b by auto
qed

text \<open>Slot 3 is in use; its link is set to slot 0 and then to slot 1.\<close>

definition sample_links :: ef_db where
  "sample_links = sample_txn\<lparr>mem := set_status (mem sample_txn) (slot_ptr 320 3) EF_STATUS_USED\<rparr>"

lemma sample_links_puts: "puts sample_txn sample_links 3 ((db_slot sample_txn 3)\<lparr>status := EF_STATUS_USED\<rparr>)"
  using puts_status[OF sample_txn_wf, of 3 EF_STATUS_USED]
  by (simp add: sample_links_def ef_slot_status_store_def sample_txn_def sample_queue_def)

lemma sample_links_state:
  "txn_ready sample_links" "free_list_inv sample_links [0, 1, 2]" "sb sample_links = sb sample_txn"
  "undo_log_slots sample_links = 8"
proof -
  note p = sample_links_puts
  show sb: "sb sample_links = sb sample_txn" using p by (simp add: puts_def)
  show "undo_log_slots sample_links = 8" by (simp add: sample_links_def sample_txn_def)
  show "free_list_inv sample_links [0, 1, 2]" using puts_free[OF p, of "[0, 1, 2]"] sample_txn_free by simp
  have "quiet sample_links" using puts_quiet[OF p] sample_txn_ready by (simp add: txn_ready_def)
  moreover have "undo_area_ok sample_links"
    using sample_txn_ready puts_wf[OF p sample_txn_wf] sb by (simp add: txn_ready_def undo_area_ok_def) (simp add: sample_links_def)
  ultimately show "txn_ready sample_links" using sample_txn_ready sb by (simp add: txn_ready_def)
qed

lemma sample_links_slots:
  "db_slot sample_links 3 = \<lparr>status = EF_STATUS_USED, header_crc = 0, payload = replicate 48 0, next_offset = 0\<rparr>"
  "status (db_slot sample_links j) \<noteq> EF_STATUS_OVERFLOW"
proof -
  have p: "64 \<le> slot_ptr 320 k" for k using slot_ptr_ge[of 320 k] by linarith
  have "db_slot sample_txn 3 = db_slot sample_db 3"
    unfolding sample_txn_slots using sample_queue_touches unfolding touches_def by (elim conjE allE[of _ 3]) simp
  then show "db_slot sample_links 3 = \<lparr>status = EF_STATUS_USED, header_crc = 0, payload = replicate 48 0, next_offset = 0\<rparr>"
    using sample_links_puts p by (simp add: puts_def)
  have "status (db_slot sample_txn j) = 0"
    using p by (simp add: sample_txn_slots) (simp add: sample_queue_def)
  then show "status (db_slot sample_links j) \<noteq> EF_STATUS_OVERFLOW"
    using puts_slot[OF sample_links_puts, of j] by (simp add: EF_STATUS_USED_def EF_STATUS_OVERFLOW_def)
qed

lemma sample_links_run:
  assumes b: "ef_txn_begin 7 sample_links = (EF_OK, db1)"
  obtains db2 where "set_links [(3, 320), (3, 384)] db1 = (EF_OK, db2)" "next_offset (db_slot db2 3) = 384"
proof -
  have B: "in_txn db1 [] \<and> same_layout sample_links db1 \<and> undo_log_slots db1 = 8 \<and>
    sb db1 = (sb sample_links)\<lparr>txn_lock := 1, sb_txn_state := EF_TXN_STATE_ACTIVE\<rparr> \<and>
    (\<forall>j < max_slots (sb sample_links). db_slot db1 j = db_slot sample_links j)"
    by (rule begin_ok[OF sample_links_state(1,2), where pid = 7]) (use b sample_links_state(4) in simp)
  have m: "max_slots (sb db1) = 4" "flags (sb db1) = 0" "max_slots (sb sample_links) = 4"
    using B by (simp_all add: sample_links_state(3) sample_txn_sb)
  have slot: "db_slot db1 j = db_slot sample_links j" if "j < 4" for j using B that m(3) by simp
  have r: "relinking db1 db1 []" using B by (simp add: relinking_def restorable_def old_next_def same_layout_def)
  have "ef_slot_to_offset db1 = ef_slot_to_offset sample_links" using B same_layout_offset by blast
  also have "\<dots> = ef_slot_to_offset sample_txn" by (rule puts_offset[OF sample_links_puts])
  finally have off: "320 = ef_slot_to_offset db1 0" "384 = ef_slot_to_offset db1 1"
    by (simp_all add: ef_slot_to_offset_def sample_txn_sb push_bit_eq_mult word_le_nat_alt) (simp_all add: sample_txn_def sample_queue_def)
  have st: "status (db_slot db1 3) = EF_STATUS_USED" "\<forall>j < max_slots (sb db1). status (db_slot db1 j) \<noteq> EF_STATUS_OVERFLOW"
    using arg_cong[OF slot[of 3], of status] sample_links_slots(1) slot m(1) sample_links_slots(2) by simp_all
  have room: "length ([] :: (u64 \<times> u64) list) < unat (undo_log_slots db1)" "3 < max_slots (sb db1)" "0 < max_slots (sb db1)" "1 < max_slots (sb db1)"
    using B m(1) by simp_all
  obtain d where d: "ef_set_next_offset db1 3 320 = (EF_OK, d)"
    using set_next_ok(1)[OF r room(1,2) m(2) st off(1) room(3)] by (metis prod.collapse)
  obtain olds where r1: "relinking db1 d olds" "length olds \<le> 1" using set_next_step[OF r room(1) d] by auto
  have "length olds < unat (undo_log_slots db1)" using r1(2) B by simp
  note w = set_next_ok[OF r1(1) this room(2) m(2) st off(2) room(4)]
  obtain d2 where d2: "ef_set_next_offset d 3 384 = (EF_OK, d2)" using w(1) by (metis prod.collapse)
  show thesis
    by (rule that[of d2]) (use d d2 w(2) in simp_all)
qed

theorem txn_abort_restores_links_witness:
  "\<forall>env. \<exists>db1 db2 db3. ef_txn_begin 7 sample_links = (EF_OK, db1) \<and> set_links [(3, 320), (3, 384)] db1 = (EF_OK, db2) \<and>
     next_offset (db_slot db2 3) = 384 \<and> ef_txn_abort env db2 = (EF_OK, db3) \<and> next_offset (db_slot db3 3) = 0 \<and>
     free_list_inv db3 [0, 1, 2]"
proof
  fix env
  obtain db1 where b: "ef_txn_begin 7 sample_links = (EF_OK, db1)" by (rule begin_ok[OF sample_links_state(1,2)])
  obtain db2 where r: "set_links [(3, 320), (3, 384)] db1 = (EF_OK, db2)" "next_offset (db_slot db2 3) = 384"
    by (rule sample_links_run[OF b])
  have room: "length [(3 :: u64, 320 :: u64), (3, 384)] \<le> unat (undo_log_slots sample_links)" by (simp add: sample_links_state(4))
  obtain db3 where d: "ef_txn_abort env db2 = (EF_OK, db3)" "free_list_inv db3 [0, 1, 2]"
    "\<forall>j < max_slots (sb sample_links). next_offset (db_slot db3 j) = next_offset (db_slot sample_links j)"
    using txn_abort_restores_links[OF sample_links_state(1,2) b r(1) room, of env] by blast
  have "next_offset (db_slot db3 3) = next_offset (db_slot sample_links 3)"
    by (rule d(3)[rule_format]) (simp add: sample_links_state(3) sample_txn_sb)
  then have "next_offset (db_slot db3 3) = 0" using sample_links_slots(1) by simp
  then show "\<exists>db1 db2 db3. ef_txn_begin 7 sample_links = (EF_OK, db1) \<and> set_links [(3, 320), (3, 384)] db1 = (EF_OK, db2) \<and>
     next_offset (db_slot db2 3) = 384 \<and> ef_txn_abort env db2 = (EF_OK, db3) \<and> next_offset (db_slot db3 3) = 0 \<and>
     free_list_inv db3 [0, 1, 2]"
    using b r d(1,2) by blast
qed



end
