(* ===== verification/Txn_Index.thy ===== *)
theory Txn_Index
  imports Txn_Links Rehash_Props
begin

text \<open>
  Transactions that write the index. An insertion of a new key appends a record with the slot; the
  replay removes whatever entry it finds for that slot. An insertion that overwrites a key appends
  no record.
\<close>

subsection \<open>The index inside a transaction\<close>

text \<open>\<open>index_sound\<close>: what \<open>index_ready\<close> says of the index itself. It does not depend on the transaction.\<close>

definition index_sound :: "ef_db \<Rightarrow> bool" where
  "index_sound db \<longleftrightarrow> index_inv db \<and> index_counted db \<and> even (index_seq db)"

abbreviation outside :: "ef_db \<Rightarrow> ef_db" where
  "outside db \<equiv> db\<lparr>txn_active := False\<rparr>"

lemma index_txn_flag [simp]:
  "index_inv (db\<lparr>txn_active := b\<rparr>) = index_inv db" "index_lookup (db\<lparr>txn_active := b\<rparr>) = index_lookup db"
  "index_has_room (db\<lparr>txn_active := b\<rparr>) = index_has_room db" "ef_slot_to_offset (db\<lparr>txn_active := b\<rparr>) = ef_slot_to_offset db"
  "locked (db\<lparr>txn_active := b\<rparr>) = (locked db)\<lparr>txn_active := b\<rparr>" "same_layout (db\<lparr>txn_active := b\<rparr>) d = same_layout db d"
  "same_layout d (db\<lparr>txn_active := b\<rparr>) = same_layout d db" "wf_layout (db\<lparr>txn_active := b\<rparr>) = wf_layout db"
  by (auto simp: index_inv_def index_lookup_def index_has_room_def ef_index_find_entry_unlocked_def fun_eq_iff ef_slot_to_offset_def
      locked_def same_layout_def wf_layout_def Let_def split: option.split)

lemma outside_ready:
  assumes "index_ready (outside db)"
  shows "index_sound db" "wf_layout db" "\<not> readonly db"
  using assms by (simp_all add: index_ready_def index_sound_def index_counted_def)

lemma txn_outside_ready: "in_txn db recs \<Longrightarrow> index_sound db \<Longrightarrow> index_ready (outside db)"
  using in_txn_facts[of db recs] by (simp add: index_ready_def index_sound_def index_counted_def)

text \<open>\<open>only_index db d\<close>: nothing has changed but the index, its counters and the handle's flags.\<close>

definition only_index :: "ef_db \<Rightarrow> ef_db \<Rightarrow> bool" where
  "only_index db d \<longleftrightarrow>
     same_layout db d \<and> sb d = sb db \<and> readonly d = readonly db \<and> txn_active d = txn_active db \<and>
     undo_log_base d = undo_log_base db \<and> undo_log_slots d = undo_log_slots db \<and>
     (\<forall>j < max_slots (sb db). db_slot d j = db_slot db j)"

lemma only_index_refl: "only_index db db"
  by (simp add: only_index_def same_layout_def)

lemma only_index_trans: "only_index a b \<Longrightarrow> only_index b c \<Longrightarrow> only_index a c"
  unfolding only_index_def using same_layout_trans by simp blast

text \<open>The facts about the index depend on the table and on two counters.\<close>

lemma same_entries:
  assumes "table b = table a" "hash_capacity b = hash_capacity a" "p < unat (hash_capacity a)"
  shows "entry_at (mem b) 64 p = entry_at (mem a) 64 p"
  using arg_cong[OF assms(1), of "\<lambda>t. t ! p"] assms(2,3) by (simp add: table_def nth_table_of)

lemma index_same:
  assumes "wf_layout a" "same_layout a b" "table b = table a" "hash_entry_count b = hash_entry_count a" "index_seq b = index_seq a"
  shows "index_lookup b = index_lookup a" "index_sound b = index_sound a" "index_has_room b = index_has_room a"
proof -
  have e: "entry_at (mem b) 64 p = entry_at (mem a) 64 p" if "p < unat (hash_capacity a)" for p
    using same_entries[OF assms(3) _ that] assms(2) by (simp add: same_layout_def)
  note h = index_hash_64[OF assms(1)]
  show look: "index_lookup b = index_lookup a" using index_facts_table(1)[OF _ _ e h] assms(2) by (simp add: same_layout_def)
  have "index_inv b = index_inv a" using index_facts_table(2)[OF _ _ e h] assms(2) by (simp add: same_layout_def)
  then show "index_sound b = index_sound a" using assms(4,5) look by (simp add: index_sound_def index_counted_def)
  have "index_has_room x \<longleftrightarrow> (\<exists>h. hash_index x = Some h \<and> (\<exists>e < unat (hash_capacity x). \<not> occ (entry_at (mem x) h) e))" for x
    by (simp add: index_has_room_def split: option.split)
  then show "index_has_room b = index_has_room a"
    using assms(2) h e by (auto simp: same_layout_def occ_def split: if_splits)
qed

lemma only_index_log:
  assumes "undo_area_ok db" "log_only db d"
  shows "only_index db d" "index_lookup d = index_lookup db" "index_sound d = index_sound db" "index_has_room d = index_has_room db"
proof -
  note f = log_only_facts[OF assms]
  show "only_index db d" using f by (simp add: only_index_def)
  have wf: "wf_layout db" using assms(1) by (simp add: undo_area_ok_def)
  have seq: "index_seq d = index_seq db" using assms(2) by (auto simp: log_only_def)
  show "index_lookup d = index_lookup db" "index_sound d = index_sound db" "index_has_room d = index_has_room db"
    by (rule index_same[OF wf f(3,4,8) seq])+
qed

text \<open>A write section around a table operation.\<close>

lemma section_frame:
  assumes ok: "undo_area_ok db" and lock: "index_write_lock (sb db) = 0" and w: "table_write (locked db) d"
    and x: "x = ef_db_mark_meta_dirty (unlocked (d\<lparr>hash_entry_count := c\<rparr>))"
  shows "only_index db x" "log_kept db x"
proof -
  obtain m c' where d: "d = (locked db)\<lparr>mem := m, hash_entry_count := c'\<rparr>"
    and out: "\<And>y. y < 64 \<or> 64 + 16 * unat (hash_capacity (locked db)) \<le> y \<Longrightarrow> m y = mem (locked db) y"
    using w unfolding table_write_def by blast
  have wf: "wf_layout db" using ok by (simp add: undo_area_ok_def)
  have lwf: "wf_layout (locked db)" by (rule locked_facts(4)[OF wf])
  note st = table_write_facts[OF w lwf]
  have sbd: "sb d = (sb db)\<lparr>index_write_lock := 1\<rparr>" using st(1) by (simp add: locked_def)
  have sbx: "sb x = sb db" using sbd lock by (simp add: x unlocked_def)
  have p: "64 \<le> db_slot_ptr db j" for j by (rule slot_base_64[OF wf])
  have slot: "db_slot x j = db_slot db j" for j
    using st(2)[of j] p[of j] by (simp add: x unlocked_def d) (simp add: locked_def)
  show "only_index db x"
    using sbx slot by (simp add: only_index_def same_layout_def) (simp add: x unlocked_def d locked_def)
  have "mem x y = mem db y" if "unat (undo_log_base db) \<le> y" for y
  proof -
    have "64 + 16 * unat (hash_capacity db) \<le> y" using that undo_above_base[OF ok] wf_layout_base[OF wf] by simp
    then show ?thesis using out[of y] by (simp add: x unlocked_def d above_sb) (simp add: locked_def above_sb)
  qed
  then show "log_kept db x" by (simp add: log_kept_def) (simp add: x unlocked_def d locked_def)
qed


subsection \<open>Insertion in a transaction\<close>

definition put_rec :: "ef_db \<Rightarrow> u8 list \<times> u64 \<Rightarrow> ef_undo_record" where
  "put_rec db = (\<lambda>(key, i). undo_rec EF_UNDO_KIND_INDEX_PUT (ef_slot_to_offset db i) 0
     (Some (le_bytes 8 (ef_key_hash key) @ replicate 4 0)))"

lemma write_begin_ok:
  assumes "wf_layout db" "EF_SCHEMA_VERSION \<le> schema_version (sb db)" "index_write_lock (sb db) = 0"
  shows "ef_index_write_begin db = (EF_OK, locked db)"
  using assms
  by (simp add: ef_index_write_begin_def ef_index_has_seqlock_def index_lock_take
      ef_sb_index_write_seq_begin_def ef_sb_uses_v4_index_layout_def locked_def)

text \<open>A successful insertion did not need the table to grow.\<close>

lemma put_run_txn:
  assumes t: "in_txn db recs" and inv: "index_inv db" and i: "i < max_slots (sb db)" and run: "ef_index_put env db key i = (EF_OK, db')"
  shows "put_locked (locked db) (ef_key_hash key) (ef_slot_to_offset db i) = (EF_OK, db')"
    "index_lookup db (ef_key_hash key) = None \<Longrightarrow> \<not> ef_index_needs_grow (hash_entry_count db) (hash_capacity db)"
proof -
  note f = in_txn_facts[OF t]
  from inv obtain h where h: "hash_index db = Some h" by (rule index_invD)
  have calm: "\<not> (ef_index_needs_grow (hash_entry_count db) (hash_capacity db) \<and> key_absent db (ef_key_hash key))"
    using run h f(4,5) by (auto simp: ef_index_put_def ef_index_require_write_def Let_def ef_txn_active_def)
  then show "index_lookup db (ef_key_hash key) = None \<Longrightarrow> \<not> ef_index_needs_grow (hash_entry_count db) (hash_capacity db)"
    by (simp add: key_absent_lookup)
  have off: "ef_slot_to_offset (locked db) i = ef_slot_to_offset db i"
    by (rule offset_cong(1)[THEN fun_cong]) (simp_all add: locked_def)
  have "key_absent (locked db) (ef_key_hash key) = key_absent db (ef_key_hash key)"
    using locked_facts(1)[OF f(2)] by (simp add: key_absent_lookup)
  then show "put_locked (locked db) (ef_key_hash key) (ef_slot_to_offset db i) = (EF_OK, db')"
    using run f(4) calm write_begin_ok[OF f(2,3,6)] off slot_offset_neq_0[OF f(2) i]
    by (auto simp: ef_index_put_def ef_index_require_write_def Let_def ef_txn_active_def locked_def)
qed

lemma put_entry_flag:
  "ef_index_put_entry (db\<lparr>txn_active := b\<rparr>) kh off =
     (case ef_index_put_entry db kh off of (err, added, d) \<Rightarrow> (err, added, d\<lparr>txn_active := b\<rparr>))"
  by (simp add: ef_index_put_entry_def Let_def split: option.split prod.split)

lemma put_locked_ok:
  assumes "ef_index_put_entry db kh off = (EF_OK, added, d)"
    and "x = ef_db_mark_meta_dirty (ef_index_write_end (d\<lparr>hash_entry_count := hash_entry_count d + (if added then 1 else 0)\<rparr>))"
  shows "put_locked db kh off = (EF_OK, if txn_active x \<and> added then snd (ef_txn_record_index_put x kh off) else x)"
  using assms by (simp add: put_locked_def Let_def ef_txn_active_def)

text \<open>The insertion is the one outside a transaction, followed by the record of a new key.\<close>

lemma put_locked_txn:
  assumes t: "in_txn db recs" and s: "index_sound db" and room: "index_has_room db" and i: "i < max_slots (sb db)"
    and run: "put_locked (locked db) (ef_key_hash key) (ef_slot_to_offset db i) = (EF_OK, db')"
  obtains d where "put_locked (locked (outside db)) (ef_key_hash key) (ef_slot_to_offset db i) = (EF_OK, outside d)"
    "only_index db d" "log_kept db d"
    "db' = (if index_lookup db (ef_key_hash key) = None then snd (ef_txn_record_index_put d (ef_key_hash key) (ef_slot_to_offset db i)) else d)"
proof -
  let ?kh = "ef_key_hash key" and ?off = "ef_slot_to_offset db i"
  note f = in_txn_facts[OF t]
  note lf = locked_facts[OF f(2)]
  obtain err added d where put: "ef_index_put_entry (locked db) ?kh ?off = (err, added, d)" using prod_cases3 by blast
  have ok: "err = EF_OK" using run put by (auto simp: put_locked_def Let_def split: if_splits)
  have w: "table_write (locked db) d" by (rule put_entry_table_write[OF lf(4) put])
  note st = table_write_facts[OF w lf(4)]
  have dv: "mapped d" "EF_SCHEMA_VERSION \<le> schema_version (sb d)" "txn_active d"
    using st(1,3,6) f(3,5,8) by (simp_all add: same_layout_def locked_def)
  define y where "y = d\<lparr>hash_entry_count := hash_entry_count d + (if added then 1 else 0)\<rparr>"
  define x where "x = ef_db_mark_meta_dirty (unlocked y)"
  have yv: "mapped y" "EF_SCHEMA_VERSION \<le> schema_version (sb y)" "txn_active y" using dv by (simp_all add: y_def)
  have e: "ef_index_write_end y = unlocked y" "ef_index_write_end (outside y) = unlocked (outside y)"
    using yv(1,2) by (intro write_end_eq; simp)+
  have flag: "ef_db_mark_meta_dirty (unlocked (outside y)) = outside x" "txn_active x" "\<not> txn_active (outside x)"
    using yv(3) by (simp_all add: ef_db_mark_meta_dirty_def unlocked_def x_def)
  have added: "added \<longleftrightarrow> index_lookup db ?kh = None"
    using put_entry_map[OF _ _ slot_offset_neq_0[OF f(2) i] put[unfolded ok]] lf(1-3) s room by (simp add: index_sound_def)
  have out: "ef_index_put_entry (locked (outside db)) ?kh ?off = (EF_OK, added, outside d)"
    using put ok by (simp add: put_entry_flag)
  have yo: "(outside d)\<lparr>hash_entry_count := hash_entry_count (outside d) + (if added then 1 else 0)\<rparr> = outside y" by (simp add: y_def)
  have "put_locked (locked (outside db)) ?kh ?off = (EF_OK, outside x)"
    using put_locked_ok[OF out refl] unfolding yo e(2) flag(1) using flag(3) by simp
  moreover have "db' = (if index_lookup db ?kh = None then snd (ef_txn_record_index_put x ?kh ?off) else x)"
    using put_locked_ok[OF put[unfolded ok] refl] run unfolding y_def[symmetric] e(1) x_def[symmetric] using flag(2) added by simp
  ultimately show thesis using that section_frame[OF f(1,6) w x_def[unfolded y_def]] by blast
qed

lemma room_after_put:
  assumes "index_inv db" "index_counted db" "wf_layout db" "\<not> ef_index_needs_grow (hash_entry_count db) (hash_capacity db)"
  shows "unat (hash_entry_count db) + 1 < unat (hash_capacity db)"
proof -
  have less: "unat (hash_entry_count db) < unat (hash_capacity db)" by (rule room_if_no_grow(2)[OF assms])
  then have one: "unat (hash_entry_count db + 1) = unat (hash_entry_count db) + 1"
    using unat_u32_bound[of "hash_capacity db"] by (simp add: unat_word_ariths)
  have "unat (ucast (hash_entry_count db + 1) * 4 :: u64) = unat (hash_entry_count db + 1) * 4"
    "unat (ucast (hash_capacity db) * 3 :: u64) = unat (hash_capacity db) * 3"
    using unat_u32_bound[of "hash_entry_count db + 1"] unat_u32_bound[of "hash_capacity db"]
    by (simp_all add: unat_mult_u64)
  then have "(unat (hash_entry_count db) + 1) * 4 \<le> unat (hash_capacity db) * 3"
    using assms(4) one by (simp add: ef_index_needs_grow_def ef_policy_defs not_less word_le_nat_alt)
  moreover have "(n + 1) * 4 \<le> c * 3 \<Longrightarrow> n < c \<Longrightarrow> n + 1 < c" for n c :: nat by presburger
  ultimately show ?thesis using less by blast
qed

lemma put_in_txn:
  assumes t: "in_txn db recs" and s: "index_sound db" and room: "index_has_room db" and i: "i < max_slots (sb db)"
    and log: "index_lookup db (ef_key_hash key) = None \<Longrightarrow> length recs < unat (undo_log_slots db)"
    and run: "ef_index_put env db key i = (EF_OK, db')"
  shows "in_txn db' (recs @ (if index_lookup db (ef_key_hash key) = None then [put_rec db (key, i)] else []))" "index_sound db'"
    "index_lookup db' = (index_lookup db)(ef_key_hash key \<mapsto> ef_slot_to_offset db i)" "only_index db db'" "index_has_room db'"
proof -
  let ?kh = "ef_key_hash key" and ?off = "ef_slot_to_offset db i"
  note f = in_txn_facts[OF t]
  have inv: "index_inv db" using s by (simp add: index_sound_def)
  note run' = put_run_txn[OF t inv i run]
  obtain d where d: "put_locked (locked (outside db)) ?kh ?off = (EF_OK, outside d)" "only_index db d" "log_kept db d"
    and db': "db' = (if index_lookup db ?kh = None then snd (ef_txn_record_index_put d ?kh ?off) else d)"
    by (rule put_locked_txn[OF t s room i run'(1)])
  have "put_locked (locked (outside db)) ?kh (ef_slot_to_offset (outside db) i) = (EF_OK, outside d)" using d(1) by simp
  note p = put_locked_ready[OF txn_outside_ready[OF t s] _ _ this]
  have D: "index_sound d" "index_lookup d = (index_lookup db)(?kh \<mapsto> ?off)"
    using outside_ready(1)[OF p(1)] p(2) room i by simp_all
  have okd: "undo_area_ok d" using f(1) undo_area_kept[of db d] d(2,3) by (simp add: only_index_def)
  have td: "in_txn d recs"
    using t okd d(2) log_kept_holds(3)[OF d(3)] by (simp add: in_txn_def only_index_def)
  have roomd: "index_has_room d"
  proof (rule room_if_few)
    show "index_inv d" using D(1) by (simp add: index_sound_def)
    have cap: "hash_capacity d = hash_capacity db" using d(2) by (simp add: only_index_def same_layout_def)
    have fin: "finite (dom (index_lookup db))" by (rule finite_dom[OF inv])
    show "card (dom (index_lookup d)) < unat (hash_capacity d)"
    proof (cases "index_lookup db ?kh = None")
      case True
      then have "dom (index_lookup d) = insert ?kh (dom (index_lookup db))" "?kh \<notin> dom (index_lookup db)" unfolding D(2) by auto
      then have "card (dom (index_lookup d)) = card (dom (index_lookup db)) + 1" using fin by simp
      then show ?thesis using room_after_put[OF inv _ f(2) run'(2)[OF True]] s cap by (simp add: index_sound_def index_counted_def)
    next
      case False
      then have "dom (index_lookup d) = dom (index_lookup db)" unfolding D(2) by auto
      then show ?thesis using few_if_room[OF inv room] cap by simp
    qed
  qed
  have "in_txn db' (recs @ (if index_lookup db ?kh = None then [put_rec db (key, i)] else [])) \<and> index_sound db' \<and>
    index_lookup db' = index_lookup d \<and> only_index d db' \<and> index_has_room db'"
  proof (cases "index_lookup db ?kh")
    case None
    obtain d' where d': "ef_undo_record_append d EF_UNDO_KIND_INDEX_PUT ?off 0 (Some (le_bytes 8 ?kh @ replicate 4 0)) = (EF_OK, d')"
      "log_only d d'" "log_holds d' (recs @ [undo_rec EF_UNDO_KIND_INDEX_PUT ?off 0 (Some (le_bytes 8 ?kh @ replicate 4 0))])"
      using append_ok[OF okd in_txn_facts(5,7)[OF td], where kind = EF_UNDO_KIND_INDEX_PUT and target = ?off and aux_v = 0
          and before_bytes = "Some (le_bytes 8 ?kh @ replicate 4 0)"] log[OF None] d(2) by (auto simp: only_index_def)
    have "db' = d'" using db' None d'(1) in_txn_facts(5)[OF td] by (simp add: ef_txn_record_index_put_def ef_txn_active_def)
    moreover have "in_txn d' (recs @ [put_rec db (key, i)])"
      using td d'(3) log_only_facts[OF okd d'(2)] by (simp add: in_txn_def put_rec_def)
    ultimately show ?thesis using None only_index_log[OF okd d'(2)] D(1) roomd by simp
  next
    case (Some v)
    then show ?thesis using db' td D(1) roomd only_index_refl by simp
  qed
  then show "in_txn db' (recs @ (if index_lookup db ?kh = None then [put_rec db (key, i)] else []))" "index_sound db'"
    "index_lookup db' = (index_lookup db)(?kh \<mapsto> ?off)" "only_index db db'" "index_has_room db'"
    using only_index_trans[OF d(2)] D(2) by auto
qed


subsection \<open>Removal by slot\<close>

lemma remove_by_hash_flag:
  "ef_index_remove_by_hash (db\<lparr>txn_active := b\<rparr>) kh =
     (case ef_index_remove_by_hash db kh of (err, d) \<Rightarrow> (err, d\<lparr>txn_active := b\<rparr>))"
  by (simp add: ef_index_remove_by_hash_def Let_def split: option.split)

lemma entry_with_offset_cases:
  "entry_with_offset m h ks off = None \<longleftrightarrow> (\<forall>k \<in> set ks. slot_offset (entry_at m h k) \<noteq> off)"
  "entry_with_offset m h ks off = Some e \<Longrightarrow> \<exists>k \<in> set ks. entry_at m h k = e \<and> slot_offset e = off"
  by (induction ks) (auto split: if_splits)

text \<open>The scan finds the only key of a slot.\<close>

lemma entry_of_slot:
  assumes wf: "wf_layout db" and inv: "index_inv db" and off: "off \<noteq> 0" and look: "index_lookup db kh = Some off"
    and uniq: "\<And>k. index_lookup db k = Some off \<Longrightarrow> k = kh"
  obtains e where "entry_with_offset (mem db) 64 [0..<unat (hash_capacity db)] off = Some e" "key_hash e = kh"
proof -
  have h: "hash_index db = Some 64" using inv index_hash_64[OF wf] by (auto simp: index_inv_def split: option.splits if_splits)
  note it = index_lookup_iff[OF inv h]
  have "\<exists>k < unat (hash_capacity db). slot_offset (entry_at (mem db) 64 k) = off"
    using it[of kh off] look by (auto simp: entries_def) (metis ef_hash_entry.select_convs(2))
  then obtain e where e: "entry_with_offset (mem db) 64 [0..<unat (hash_capacity db)] off = Some e"
    using entry_with_offset_cases(1)[of "mem db" 64 "[0..<unat (hash_capacity db)]" off]
    by (cases "entry_with_offset (mem db) 64 [0..<unat (hash_capacity db)] off") auto
  then obtain k where k: "k < unat (hash_capacity db)" "entry_at (mem db) 64 k = e" "slot_offset e = off"
    using entry_with_offset_cases(2) by fastforce
  then have "e \<in> entries (hash_capacity db) (entry_at (mem db) 64)"
    using off by (auto simp: entries_def occ_def ef_hash_entry_empty_def)
  then have "index_lookup db (key_hash e) = Some off" using it[of "key_hash e" off] k(3) by (cases e) simp
  then show thesis using that[OF e] uniq by simp
qed

lemma remove_by_slot_sound:
  assumes r: "index_ready (outside db)" and ok: "undo_area_ok db" and i: "i < max_slots (sb db)"
    and look: "index_lookup db (ef_key_hash key) = Some (ef_slot_to_offset db i)"
    and uniq: "\<And>k. index_lookup db k = Some (ef_slot_to_offset db i) \<Longrightarrow> k = ef_key_hash key"
    and calm: "ef_index_pick_shrink_capacity (hash_entry_count db - 1) (hash_capacity db) = 0"
  obtains d where "ef_index_remove_by_slot env db i = (EF_OK, d)" "index_sound d"
    "index_lookup d = (index_lookup db)(ef_key_hash key := None)" "only_index db d" "log_kept db d"
proof -
  let ?kh = "ef_key_hash key" and ?off = "ef_slot_to_offset db i"
  have R: "wf_layout db" "EF_SCHEMA_VERSION \<le> schema_version (sb db)" "\<not> readonly db" "index_write_lock (sb db) = 0" "index_inv db"
    using r by (simp_all add: index_ready_def)
  from R(5) obtain h where h: "hash_index db = Some h" "hash_capacity db \<noteq> 0" by (rule index_invD)
  have h64: "hash_index db = Some 64" using h index_hash_64[OF R(1)] by simp
  note lf = locked_facts[OF R(1)]
  have off: "ef_slot_to_offset (locked db) i = ?off" "?off \<noteq> 0"
    using slot_offset_neq_0[OF R(1) i] by (auto intro!: offset_cong(1)[THEN fun_cong] simp: locked_def)
  obtain e where e: "entry_with_offset (mem (locked db)) 64 [0..<unat (hash_capacity (locked db))] ?off = Some e" "key_hash e = ?kh"
  proof -
    have "index_inv (locked db)" "index_lookup (locked db) ?kh = Some ?off" using lf(1,2) R(5) look by simp_all
    then show thesis by (rule entry_of_slot[OF lf(4) _ off(2)]) (erule uniq[folded lf(1)], rule that)
  qed
  obtain err x where rem: "ef_index_remove_by_hash (locked db) ?kh = (err, x)" by fastforce
  have e_ok: "err = EF_OK" using remove_result(1)[of "locked db" ?kh] rem lf(1,2) R(5) look by simp
  define d where "d = ef_db_mark_meta_dirty (unlocked x)"
  have w: "table_write (locked db) x" by (rule remove_table_write[OF lf(4) rem])
  note st = table_write_facts[OF w lf(4)]
  have xv: "mapped x" "EF_SCHEMA_VERSION \<le> schema_version (sb x)" "hash_capacity x = hash_capacity db"
    using st(1,3) R(1,2) by (simp_all add: same_layout_def locked_def)
  obtain d0 where d0: "ef_index_remove env (outside db) key = (EF_OK, d0)" "index_ready d0" "index_lookup d0 = (index_lookup db)(?kh := None)"
    using remove_ready[OF r, of key env] look calm by auto
  have cnt: "hash_entry_count x = hash_entry_count db - 1"
  proof -
    have "0 < card (dom (index_lookup db))" using look finite_dom[OF R(5)] by (auto simp: card_gt_0_iff)
    then have "0 < hash_entry_count db" using r by (simp add: index_ready_def index_counted_def word_less_nat_alt)
    then show ?thesis using rem[unfolded e_ok] h
      by (auto simp: ef_index_remove_by_hash_def Let_def locked_def split: option.splits)
  qed
  have calm': "shrink_if_sparse env y (hash_entry_count x) (hash_capacity x) = y" for y
    using calm cnt xv(3) by (simp add: shrink_if_sparse_def ef_index_shrink_def)
  have run: "ef_index_remove_by_slot env db i = (EF_OK, d)"
    using R(3) write_begin_ok[OF R(1,2,4)] h h64 off e rem e_ok write_end_eq[OF xv(1,2)] calm'
    by (simp add: ef_index_remove_by_slot_def ef_index_require_write_def Let_def d_def) (simp add: locked_def)
  have "ef_index_write_end (outside x) = outside (unlocked x)" using write_end_eq[of "outside x"] xv(1,2) by (simp add: unlocked_def)
  moreover have "ef_db_mark_meta_dirty (outside (unlocked x)) = outside d" by (simp add: ef_db_mark_meta_dirty_def d_def)
  moreover have "ef_index_write_begin (outside db) = (EF_OK, outside (locked db))"
    using write_begin_ok[of "outside db"] R by simp
  moreover have "ef_index_remove_by_hash (outside (locked db)) ?kh = (EF_OK, outside x)" using rem e_ok by (simp add: remove_by_hash_flag)
  moreover have "hash_index (locked db) = Some h" "hash_capacity (locked db) \<noteq> 0" using h by (simp_all add: locked_def)
  ultimately have "d0 = outside d"
    using d0(1) R(3) calm' by (simp add: ef_index_remove_def ef_index_require_write_def Let_def ef_txn_active_def)
  then show thesis
    using that[OF run] d0(2,3) outside_ready(1)[of d] section_frame[OF ok R(4) w, of d "hash_entry_count x"] by (simp add: d_def)
qed


subsection \<open>Replay\<close>

text \<open>The keys of a transaction on top of an index \<open>base\<close>: new keys for slots without a key.\<close>

definition key_map :: "ef_db \<Rightarrow> (u8 list \<times> u64) list \<Rightarrow> u64 \<rightharpoonup> u64" where
  "key_map db ps = map_of (map (\<lambda>(key, i). (ef_key_hash key, ef_slot_to_offset db i)) ps)"

definition new_keys :: "ef_db \<Rightarrow> (u8 list \<times> u64) list \<Rightarrow> bool" where
  "new_keys db ps \<longleftrightarrow>
     distinct (map (ef_key_hash \<circ> fst) ps) \<and> distinct (map snd ps) \<and>
     (\<forall>(key, i) \<in> set ps. index_lookup db (ef_key_hash key) = None \<and> i < max_slots (sb db) \<and>
        ef_slot_to_offset db i \<notin> ran (index_lookup db))"

lemma undo_apply_put:
  assumes rec: "undo_record_of (mem db) p = put_rec db0 (key, i)" and lay: "same_layout db0 db"
    and wf: "wf_layout db" and i: "i < max_slots (sb db)" and run: "ef_index_remove_by_slot env db i = (EF_OK, d)"
  shows "undo_apply env db p = (EF_OK, d)"
proof -
  have "undo_kind (undo_record_of (mem db) p) = EF_UNDO_KIND_INDEX_PUT" "target_offset (undo_record_of (mem db) p) = ef_slot_to_offset db i"
    using rec same_layout_offset[OF lay] by (simp_all add: put_rec_def undo_rec_def)
  then show ?thesis
    using offset_to_slot_id_roundtrip[OF wf i] run by (simp add: undo_apply_def Let_def ef_undo_kind_defs)
qed

text \<open>The last key that was added is the only one of its slot.\<close>

lemma last_key:
  assumes wf: "wf_layout db0" and new: "new_keys db0 (ps @ [(key, i)])" and look: "l = index_lookup db0 ++ key_map db0 (ps @ [(key, i)])"
  shows "l (ef_key_hash key) = Some (ef_slot_to_offset db0 i)" "\<And>k. l k = Some (ef_slot_to_offset db0 i) \<Longrightarrow> k = ef_key_hash key"
    "l(ef_key_hash key := None) = index_lookup db0 ++ key_map db0 ps" "new_keys db0 ps"
proof -
  let ?kh = "ef_key_hash key" and ?off = "ef_slot_to_offset db0"
  have i: "i < max_slots (sb db0)" "index_lookup db0 ?kh = None" "?off i \<notin> ran (index_lookup db0)"
    using new by (simp_all add: new_keys_def)
  have fresh: "?kh \<notin> (ef_key_hash \<circ> fst) ` set ps" "i \<notin> snd ` set ps" using new by (simp_all add: new_keys_def)
  then have none: "key_map db0 ps ?kh = None" by (force simp: key_map_def map_of_eq_None_iff)
  have km: "key_map db0 (ps @ [(key, i)]) = [?kh \<mapsto> ?off i] ++ key_map db0 ps" by (simp add: key_map_def)
  show "l ?kh = Some (?off i)" using none by (simp add: look km map_add_def)
  show "l(?kh := None) = index_lookup db0 ++ key_map db0 ps"
    using none i(2) by (auto simp: look km map_add_def fun_eq_iff split: option.split)
  show "new_keys db0 ps" using new by (simp add: new_keys_def)
  fix k assume k: "l k = Some (?off i)"
  have "index_lookup db0 k \<noteq> Some (?off i)" using i(3) by (auto simp: ran_def)
  moreover have "key_map db0 ps k \<noteq> Some (?off i)"
  proof
    assume "key_map db0 ps k = Some (?off i)"
    then obtain key' j where j: "(key', j) \<in> set ps" "?off j = ?off i" by (auto simp: key_map_def dest!: map_of_SomeD)
    then have "j < max_slots (sb db0)" using new by (auto simp: new_keys_def)
    then have "j = i" using offset_to_slot_id_roundtrip[OF wf] i(1) j(2) by (metis sum.inject(2))
    then show False using fresh(2) j(1) by force
  qed
  ultimately show "k = ?kh" using k by (auto simp: look km map_add_def split: option.splits if_splits)
qed

lemma replay_puts:
  assumes "undo_area_ok db" "same_layout db0 db" "wf_layout db0" "max_slots (sb db) = max_slots (sb db0)"
    and "log_ahead db (map (put_rec db0) ps)" "index_ready (outside db)"
    and "new_keys db0 ps" "index_lookup db = index_lookup db0 ++ key_map db0 ps"
    and "index_counted db0" "ef_index_pick_shrink_capacity (hash_entry_count db0) (hash_capacity db0) = 0"
  obtains d where "replay_loop env (unat (undo_log_base db)) (of_nat (32 + 32 * length (map (put_rec db0) ps))) db = (EF_OK, d)"
    "index_sound d" "index_lookup d = index_lookup db0" "only_index db d" "log_kept db d"
  using assms
proof (induction ps arbitrary: db thesis rule: rev_induct)
  case Nil
  have "index_lookup db = index_lookup db0" using Nil.prems(9) by (simp add: key_map_def)
  then show thesis
    using Nil.prems(1)[of db] replay_done[of env "unat (undo_log_base db)" db] outside_ready(1)[OF Nil.prems(7)] only_index_refl
    by (simp add: log_kept_def)
next
  case (snoc w ps)
  obtain key i where w: "w = (key, i)" by fastforce
  let ?recs = "map (put_rec db0) ps" and ?kh = "ef_key_hash key"
  note new = snoc.prems(8)[unfolded w]
  note L = last_key[OF snoc.prems(4) new snoc.prems(9)[unfolded w]]
  have i: "i < max_slots (sb db)" and off: "ef_slot_to_offset db0 i = ef_slot_to_offset db i"
    using new snoc.prems(5) same_layout_offset[OF snoc.prems(3)] by (simp_all add: new_keys_def)
  have wf: "wf_layout db" using snoc.prems(2) by (simp add: undo_area_ok_def)
  have cap: "hash_capacity db = hash_capacity db0" using snoc.prems(3) by (simp add: same_layout_def)
  have calm: "ef_index_pick_shrink_capacity (hash_entry_count db - 1) (hash_capacity db) = 0"
  proof -
    let ?l = "index_lookup db"
    have inv: "index_inv db" "index_counted db" using snoc.prems(7) by (simp_all add: index_ready_def index_counted_def)
    have fin: "finite (dom ?l)" by (rule finite_dom[OF inv(1)])
    have card: "card (dom (?l(?kh := None))) = card (dom ?l) - 1" using fin L(1) by (simp add: card_Diff_singleton domIff)
    have "dom (index_lookup db0) \<subseteq> dom (?l(?kh := None))" unfolding L(3) by auto
    then have "card (dom (index_lookup db0)) \<le> card (dom (?l(?kh := None)))" using fin by (intro card_mono) simp_all
    moreover have pos: "0 < card (dom ?l)" using L(1) fin by (auto simp: card_gt_0_iff)
    moreover have "hash_entry_count db \<noteq> 0" using pos inv(2) by (auto simp: index_counted_def)
    then have "unat (hash_entry_count db - 1) = unat (hash_entry_count db) - 1" by (rule unat_minus_one)
    ultimately have "hash_entry_count db0 \<le> hash_entry_count db - 1"
      using card inv(2) snoc.prems(10) by (simp add: word_le_nat_alt index_counted_def)
    from pick_shrink_mono[OF snoc.prems(11) this] show ?thesis by (simp add: cap)
  qed
  obtain b where b: "ef_index_remove_by_slot env db i = (EF_OK, b)" "index_sound b"
    "index_lookup b = (index_lookup db)(?kh := None)" "only_index db b" "log_kept db b"
    using remove_by_slot_sound[OF snoc.prems(7,2) i, of key env] L(1,2) off calm by metis
  have log: "log_ahead db (?recs @ [put_rec db0 (key, i)])" using snoc.prems(6) by (simp add: w)
  have ap: "undo_apply env db (rec_ptr db (length ?recs)) = (EF_OK, b)"
    by (rule undo_apply_put[OF log_ahead_last(2)[OF log] snoc.prems(3) wf i b(1)])
  have B: "same_layout db b" "sb b = sb db" "readonly b = readonly db" "undo_log_base b = undo_log_base db"
    using b(4) by (simp_all add: only_index_def)
  have okb: "undo_area_ok b" using snoc.prems(2) undo_area_kept[OF B(1) b(5)] by simp
  have rb: "index_ready (outside b)"
    using snoc.prems(7) b(2) B same_layout_wf[OF B(1)] by (simp add: index_ready_def index_sound_def index_counted_def)
  have logb: "log_ahead b ?recs" using log_ahead_last(1)[OF log] log_kept_holds(2)[OF b(5)] by simp
  obtain d where d: "replay_loop env (unat (undo_log_base b)) (of_nat (32 + 32 * length ?recs)) b = (EF_OK, d)"
    "index_sound d" "index_lookup d = index_lookup db0" "only_index b d" "log_kept b d"
    by (rule snoc.IH[OF _ okb same_layout_trans[OF snoc.prems(3) B(1)] snoc.prems(4) _ logb rb L(4) _ snoc.prems(10,11)])
      (use B(2) snoc.prems(5) b(3) L(3) in simp_all)
  have "replay_loop env (unat (undo_log_base db)) (of_nat (32 + 32 * length (?recs @ [put_rec db0 (key, i)]))) db = (EF_OK, d)"
    unfolding replay_last[OF log] using ap d(1) B(4) by (simp only: prod.case) simp
  then show thesis
    using snoc.prems(1)[of d] d(2,3) only_index_trans[OF b(4) d(4)] log_kept_trans[OF b(5) d(5)] by (simp only: w map_append list.map)
qed


subsection \<open>Whole transactions\<close>

text \<open>A caller that stores keys one after the other and stops at the first error.\<close>

fun put_keys :: "ef_env \<Rightarrow> (u8 list \<times> u64) list \<Rightarrow> ef_db \<Rightarrow> ef_err \<times> ef_db" where
  "put_keys env [] db = (EF_OK, db)"
| "put_keys env ((key, i) # ps) db =
     (case ef_index_put env db key i of (err, db) \<Rightarrow> if err \<noteq> EF_OK then (err, db) else put_keys env ps db)"

definition indexing :: "ef_db \<Rightarrow> ef_db \<Rightarrow> (u8 list \<times> u64) list \<Rightarrow> bool" where
  "indexing db0 db ps \<longleftrightarrow>
     in_txn db (map (put_rec db0) ps) \<and> index_sound db \<and> only_index db0 db \<and> index_lookup db = index_lookup db0 ++ key_map db0 ps"

lemma indexing_put:
  assumes x: "indexing db0 db qs" and new: "new_keys db0 (qs @ (key, i) # ps)" and room: "length qs < unat (undo_log_slots db0)"
    and run: "ef_index_put env db key i = (EF_OK, d)"
  shows "indexing db0 d (qs @ [(key, i)])"
proof -
  let ?kh = "ef_key_hash key"
  have t: "in_txn db (map (put_rec db0) qs)" and s: "index_sound db" and o: "only_index db0 db"
    and l: "index_lookup db = index_lookup db0 ++ key_map db0 qs" using x by (simp_all add: indexing_def)
  have lay: "same_layout db0 db" "sb db = sb db0" "undo_log_slots db = undo_log_slots db0" using o by (simp_all add: only_index_def)
  have "?kh \<notin> (ef_key_hash \<circ> fst) ` set qs" using new by (auto simp: new_keys_def)
  then have km: "key_map db0 qs ?kh = None" by (force simp: key_map_def map_of_eq_None_iff)
  then have none: "index_lookup db ?kh = None" using new l by (auto simp: new_keys_def)
  have i: "i < max_slots (sb db)" using new lay(2) by (auto simp: new_keys_def)
  have inv: "index_inv db" "index_counted db" using s by (simp_all add: index_sound_def)
  have has: "index_has_room db"
    by (rule room_if_no_grow(1)[OF inv in_txn_facts(2)[OF t] put_run_txn(2)[OF t inv(1) i run none]])
  have rm: "length (map (put_rec db0) qs) < unat (undo_log_slots db)" using room lay(3) by simp
  note p = put_in_txn[OF t s has i rm run]
  have off: "ef_slot_to_offset db i = ef_slot_to_offset db0 i" using same_layout_offset[OF lay(1)] by simp
  have "put_rec db (key, i) = put_rec db0 (key, i)" using off by (simp add: put_rec_def)
  then have "in_txn d (map (put_rec db0) (qs @ [(key, i)]))" using p(1) none by simp
  moreover have "index_lookup d = index_lookup db0 ++ key_map db0 (qs @ [(key, i)])"
    using p(3) l km off by (auto simp: key_map_def map_add_def fun_eq_iff split: option.splits)
  ultimately show ?thesis using p(2) only_index_trans[OF o p(4)] by (simp add: indexing_def)
qed

lemma put_keys_ok:
  assumes "indexing db0 db qs" "new_keys db0 (qs @ ps)" "length (qs @ ps) \<le> unat (undo_log_slots db0)" "put_keys env ps db = (EF_OK, db')"
  shows "indexing db0 db' (qs @ ps)"
  using assms
proof (induction ps arbitrary: qs db)
  case (Cons w ps)
  obtain key i where w: "w = (key, i)" by fastforce
  obtain err d where d: "ef_index_put env db key i = (err, d)" by fastforce
  have ok: "err = EF_OK" "put_keys env ps d = (EF_OK, db')" using Cons.prems(4) d by (auto simp: w split: if_splits)
  have "indexing db0 d (qs @ [(key, i)])"
    using indexing_put[OF Cons.prems(1) Cons.prems(2)[unfolded w] _ d[unfolded ok(1)]] Cons.prems(3) by simp
  from Cons.IH[OF this] show ?case using Cons.prems(2,3) ok(2) by (simp add: w)
qed simp

lemma begin_index:
  assumes ready: "txn_ready db" and inv: "free_list_inv db ids" and s: "index_sound db" and bgn: "ef_txn_begin pid db = (EF_OK, db1)"
  shows "in_txn db1 []" "free_list_inv db1 ids" "index_sound db1" "index_lookup db1 = index_lookup db" "index_has_room db1 = index_has_room db"
    "same_layout db db1" "sb db1 = (sb db)\<lparr>txn_lock := 1, sb_txn_state := EF_TXN_STATE_ACTIVE\<rparr>" "undo_log_slots db1 = undo_log_slots db"
    "hash_entry_count db1 = hash_entry_count db" "\<And>j. j < max_slots (sb db) \<Longrightarrow> db_slot db1 j = db_slot db j" "table db1 = table db"
proof -
  have b: "in_txn db1 [] \<and> free_list_inv db1 ids \<and> same_layout db db1 \<and> table db1 = table db \<and>
    undo_log_slots db1 = undo_log_slots db \<and> hash_entry_count db1 = hash_entry_count db \<and>
    sb db1 = (sb db)\<lparr>txn_lock := 1, sb_txn_state := EF_TXN_STATE_ACTIVE\<rparr> \<and> (\<forall>j < max_slots (sb db). db_slot db1 j = db_slot db j)"
    by (rule begin_ok[OF ready inv, where pid = pid]) (use bgn in simp)
  have seq: "index_seq db1 = index_seq db"
    using bgn by (auto simp: ef_txn_begin_def ef_undo_reset_def ef_db_mark_meta_dirty_def ef_set_error_def Let_def
        split: if_splits prod.splits option.splits)
  have wf: "wf_layout db" using ready quiet_wf by (simp add: txn_ready_def)
  note e = index_same[OF wf]
  show "index_sound db1" "index_lookup db1 = index_lookup db" "index_has_room db1 = index_has_room db" using e[of db1] b seq s by simp_all
  show "in_txn db1 []" "free_list_inv db1 ids" "same_layout db db1" "undo_log_slots db1 = undo_log_slots db" "table db1 = table db"
    "sb db1 = (sb db)\<lparr>txn_lock := 1, sb_txn_state := EF_TXN_STATE_ACTIVE\<rparr>" "hash_entry_count db1 = hash_entry_count db"
    "\<And>j. j < max_slots (sb db) \<Longrightarrow> db_slot db1 j = db_slot db j" using b by simp_all
qed


subsection \<open>Abort\<close>

text \<open>A replay that changed the index only gives a handle for the next transaction, with the index it left.\<close>

lemma abort_index:
  assumes t: "in_txn db recs" and d: "ef_undo_replay_reverse env (aborting db) = (EF_OK, d)" "index_sound d" "only_index (aborting db) d"
    "log_kept (aborting db) d" and calm: "ef_index_pick_shrink_capacity (hash_entry_count d) (hash_capacity d) = 0"
  obtains e where "ef_txn_abort env db = (EF_OK, e)" "txn_ready e" "index_sound e" "index_lookup e = index_lookup d" "same_layout db e"
    "sb e = (sb db)\<lparr>txn_lock := 0, sb_txn_state := EF_TXN_STATE_NONE\<rparr>" "\<And>j. j < max_slots (sb db) \<Longrightarrow> db_slot e j = db_slot db j"
proof -
  note f = in_txn_facts[OF t] and a = aborting_facts[OF t]
  have D: "same_layout (aborting db) d" "sb d = sb (aborting db)" "readonly d = readonly (aborting db)"
    "\<And>j. j < max_slots (sb db) \<Longrightarrow> db_slot d j = db_slot db j" using d(3) a(5,11) by (simp_all add: only_index_def)
  obtain e where e: "ef_txn_abort env db = (EF_OK, e)" "closed d e" "\<not> txn_active e" "index_seq e = index_seq d"
    "sb e = (sb db)\<lparr>txn_lock := 0, sb_txn_state := EF_TXN_STATE_NONE\<rparr>"
    by (rule abort_closes[OF t d(1,4) D(1,2)])
  have E: "same_layout d e" "table e = table d" "hash_entry_count e = hash_entry_count d" "readonly e = readonly d" "undo_area_ok e"
    "\<And>j. j < max_slots (sb d) \<Longrightarrow> db_slot e j = db_slot d j" using e(2) by (simp_all add: closed_def)
  have wfe: "wf_layout e" using E(5) by (simp add: undo_area_ok_def)
  have wfd: "wf_layout d" using same_layout_wf[OF E(1)] wfe by simp
  note x = index_same[OF wfd E(1-3) e(4)]
  have "hash_capacity e = hash_capacity d" using E(1) by (simp add: same_layout_def)
  then have "txn_ready e" using wfe e(3,5) E(3,4,5) D(3) a(6) f(3,4,6) calm by (simp add: txn_ready_def quiet_def)
  moreover have "same_layout db e" by (rule same_layout_trans[OF same_layout_trans[OF a(1) D(1)] E(1)])
  moreover have "db_slot e j = db_slot db j" if "j < max_slots (sb db)" for j using E(6)[of j] D(2) D(4)[of j] that a(5) by simp
  ultimately show thesis using that[OF e(1)] x(1,2) d(2) e(5) by simp
qed

lemma same_get:
  assumes "index_sound a" "index_sound b" "same_layout a b" "index_lookup b = index_lookup a"
  shows "ef_index_get b key = ef_index_get a key"
proof -
  have "ef_offset_to_slot_id b = ef_offset_to_slot_id a" using assms(3) by (intro offset_cong(2)) (simp_all add: same_layout_def)
  then show ?thesis using assms by (simp add: index_get_stable index_sound_def split: option.split)
qed

lemma indexing_start:
  assumes t: "in_txn db []" and s: "index_sound db"
  shows "indexing db db []"
  using assms only_index_refl by (simp add: indexing_def key_map_def)

text \<open>Keys stored in a transaction are found before its end.\<close>

lemma indexing_get:
  assumes x: "indexing db0 db ps" and new: "new_keys db0 ps" and p: "(key, i) \<in> set ps"
  shows "ef_index_get db key = Inr i"
proof -
  have t: "in_txn db (map (put_rec db0) ps)" and s: "index_sound db" and o: "only_index db0 db"
    and l: "index_lookup db = index_lookup db0 ++ key_map db0 ps" using x by (simp_all add: indexing_def)
  have lay: "same_layout db0 db" "sb db = sb db0" using o by (simp_all add: only_index_def)
  have "distinct (map fst (map (\<lambda>(key, i). (ef_key_hash key, ef_slot_to_offset db0 i)) ps))"
    using new by (simp add: new_keys_def comp_def split_def)
  then have "key_map db0 ps (ef_key_hash key) = Some (ef_slot_to_offset db0 i)"
    unfolding key_map_def using p by (intro map_of_is_SomeI) force+
  then have "index_lookup db (ef_key_hash key) = Some (ef_slot_to_offset db i)"
    using l same_layout_offset[OF lay(1)] by simp
  moreover have "i < max_slots (sb db)" using new p lay(2) by (auto simp: new_keys_def)
  ultimately show ?thesis
    using s offset_to_slot_id_roundtrip[OF in_txn_facts(2)[OF t]] by (simp add: index_get_stable index_sound_def)
qed

lemma abort_indexing:
  assumes x: "indexing db0 db ps" and new: "new_keys db0 ps" and s0: "index_sound db0" and wf: "wf_layout db0"
    and calm: "ef_index_pick_shrink_capacity (hash_entry_count db0) (hash_capacity db0) = 0"
  obtains e where "ef_txn_abort env db = (EF_OK, e)" "txn_ready e" "index_sound e" "index_lookup e = index_lookup db0" "same_layout db0 e"
    "sb e = (sb db0)\<lparr>txn_lock := 0, sb_txn_state := EF_TXN_STATE_NONE\<rparr>" "\<And>j. j < max_slots (sb db0) \<Longrightarrow> db_slot e j = db_slot db0 j"
proof -
  let ?a = "aborting db"
  have t: "in_txn db (map (put_rec db0) ps)" and s: "index_sound db" and o: "only_index db0 db"
    and l: "index_lookup db = index_lookup db0 ++ key_map db0 ps" using x by (simp_all add: indexing_def)
  note f = in_txn_facts[OF t] and a = aborting_facts[OF t]
  have lay: "same_layout db0 db" "sb db = sb db0" "\<And>j. j < max_slots (sb db0) \<Longrightarrow> db_slot db j = db_slot db0 j"
    using o by (simp_all add: only_index_def)
  note i = index_same[OF f(2) a(1,8,9,10)]
  have wfa: "wf_layout ?a" using a(3) by (simp add: undo_area_ok_def)
  have ra: "index_ready (outside ?a)"
    using i(2) s wfa a(5,6) f(3,4,6) by (simp add: index_ready_def index_sound_def index_counted_def)
  have c0: "index_counted db0" using s0 by (simp add: index_sound_def)
  have look: "index_lookup ?a = index_lookup db0 ++ key_map db0 ps" using i(1) l by simp
  have max: "max_slots (sb ?a) = max_slots (sb db0)" using a(5) lay(2) by simp
  obtain d where d: "replay_loop env (unat (undo_log_base ?a)) (of_nat (32 + 32 * length (map (put_rec db0) ps))) ?a = (EF_OK, d)"
    "index_sound d" "index_lookup d = index_lookup db0" "only_index ?a d" "log_kept ?a d"
    by (rule replay_puts[OF a(3) same_layout_trans[OF lay(1) a(1)] wf max log_image_ahead[OF a(4)] ra new look c0 calm])
  have rep: "ef_undo_replay_reverse env ?a = (EF_OK, d)" using d(1) replay_start[OF a(3,4)] by simp
  have "unat (hash_entry_count d) = unat (hash_entry_count db0)" using d(2,3) c0 by (simp add: index_sound_def index_counted_def)
  then have "hash_entry_count d = hash_entry_count db0" by (rule unsigned_word_eqI)
  moreover have "hash_capacity d = hash_capacity db0" using d(4) a(1) lay(1) by (simp add: only_index_def same_layout_def)
  ultimately have cd: "ef_index_pick_shrink_capacity (hash_entry_count d) (hash_capacity d) = 0" using calm by simp
  show thesis
    by (rule abort_index[OF t rep d(2,4,5) cd, of thesis]) (use that d(3) lay same_layout_trans in auto)
qed

lemma same_pool:
  assumes inv: "free_list_inv a ids" and lay: "same_layout a b" and wf: "wf_layout b" and slots: "\<And>j. j < max_slots (sb a) \<Longrightarrow> db_slot b j = db_slot a j"
    and sb: "free_list_head (sb b) = free_list_head (sb a)" "free_count (sb b) = free_count (sb a)"
  shows "free_list_inv b ids"
proof -
  have "free_chain b off ids = free_chain a off ids" for off
    using slots pool_max[OF inv] by (intro free_chain_cong[OF lay]) simp
  then show ?thesis using inv wf sb by (simp add: free_list_inv_def)
qed

text \<open>An insertion succeeds if a bucket from the key's home on is empty.\<close>

lemma put_txn_ok:
  assumes t: "in_txn db recs" and inv: "index_inv db" and i: "i < max_slots (sb db)"
    and grow: "\<not> ef_index_needs_grow (hash_entry_count db) (hash_capacity db)"
    and e: "ef_hash_home (hash_capacity db) (ef_key_hash key) \<le> e" "e < unat (hash_capacity db)" "\<not> occ (entry_at (mem db) 64) e"
  obtains db' where "ef_index_put env db key i = (EF_OK, db')"
proof -
  let ?kh = "ef_key_hash key" and ?off = "ef_slot_to_offset db i"
  note f = in_txn_facts[OF t]
  note lf = locked_facts[OF f(2)]
  from inv obtain h where h: "hash_index db = Some h" "hash_capacity db \<noteq> 0" by (rule index_invD)
  then have h64: "hash_index (locked db) = Some 64" using index_hash_64[OF f(2)] by (simp add: locked_def)
  have "fst (ef_index_put_entry (locked db) ?kh ?off) = EF_OK"
    by (rule put_entry_ok[OF _ h64]) (use lf(2) inv e in \<open>simp_all add: locked_def lock_entries\<close>)
  then obtain added d where put: "ef_index_put_entry (locked db) ?kh ?off = (EF_OK, added, d)"
    by (cases "ef_index_put_entry (locked db) ?kh ?off") auto
  have off: "ef_slot_to_offset (locked db) i = ?off" by (rule offset_cong(1)[THEN fun_cong]) (simp_all add: locked_def)
  have "\<not> ef_index_needs_grow (hash_entry_count (locked db)) (hash_capacity (locked db))" using grow by (simp add: locked_def)
  then have "ef_index_put env db key i = put_locked (locked db) ?kh ?off"
    using f(4) grow write_begin_ok[OF f(2,3,6)] off slot_offset_neq_0[OF f(2) i]
    by (simp add: ef_index_put_def ef_index_require_write_def Let_def)
  then show thesis using that put_locked_ok[OF put refl] by simp
qed

subsection \<open>Properties\<close>

text \<open>
  C21: a transaction that stores new keys for slots without a key, as many as the undo log has records,
  is undone by an abort. Before it every new key is found; after it \<^verbatim>\<open>ef_index_get\<close> gives every key its old answer,
  slots and free list are what they were, and the next transaction can begin.
\<close>

theorem txn_abort_removes_new_keys:
  assumes ready: "txn_ready db" and inv: "free_list_inv db ids" and snd: "index_sound db" and bgn: "ef_txn_begin pid db = (EF_OK, db1)"
    and run: "put_keys env ps db1 = (EF_OK, db2)" and new: "new_keys db ps" and room: "length ps \<le> unat (undo_log_slots db)"
  shows "(\<forall>(key, i) \<in> set ps. ef_index_get db2 key = Inr i) \<and>
    (\<exists>db3. ef_txn_abort env db2 = (EF_OK, db3) \<and> txn_ready db3 \<and> index_sound db3 \<and> free_list_inv db3 ids \<and>
       (\<forall>key. ef_index_get db3 key = ef_index_get db key) \<and> (\<forall>j < max_slots (sb db). db_slot db3 j = db_slot db j))"
proof -
  note b = begin_index[OF ready inv snd bgn]
  have new1: "new_keys db1 ps" using new b(4,7) same_layout_offset[OF b(6)] by (simp add: new_keys_def)
  have x: "indexing db1 db2 ps"
    using put_keys_ok[OF indexing_start[OF b(1,3)], of ps env db2] new1 run room b(8) by simp
  have q: "quiet db" "hash_capacity db1 = hash_capacity db" using ready b(6) by (simp_all add: txn_ready_def same_layout_def)
  then have calm: "ef_index_pick_shrink_capacity (hash_entry_count db1) (hash_capacity db1) = 0" using b(9) by (simp add: quiet_def)
  obtain e where e: "ef_txn_abort env db2 = (EF_OK, e)" "txn_ready e" "index_sound e" "index_lookup e = index_lookup db1" "same_layout db1 e"
    "sb e = (sb db1)\<lparr>txn_lock := 0, sb_txn_state := EF_TXN_STATE_NONE\<rparr>" "\<And>j. j < max_slots (sb db1) \<Longrightarrow> db_slot e j = db_slot db1 j"
    using abort_indexing[OF x new1 b(3) in_txn_facts(2)[OF b(1)] calm] by metis
  have wf: "wf_layout e" using e(2) quiet_wf by (simp add: txn_ready_def)
  have "free_list_inv e ids" by (rule same_pool[OF b(2) e(5) wf e(7)]) (simp_all add: e(6))
  moreover have "ef_index_get e key = ef_index_get db key" for key
    using same_get[OF snd e(3) same_layout_trans[OF b(6) e(5)]] e(4) b(4) by simp
  moreover have "db_slot e j = db_slot db j" if "j < max_slots (sb db)" for j using e(7)[of j] b(7) b(10)[of j] that by simp
  ultimately show ?thesis using e(1-3) indexing_get[OF x new1] by blast
qed

text \<open>
  C23: a transaction that stores a key that is already there is not undone by an abort, because
  \<^verbatim>\<open>ef_index_put\<close> records only new keys: after the abort the key still leads to the new slot.
\<close>

theorem txn_abort_keeps_overwritten_key:
  assumes ready: "txn_ready db" and inv: "free_list_inv db ids" and snd: "index_sound db" "index_has_room db"
    and old: "ef_index_get db key = Inr i\<^sub>0" and bgn: "ef_txn_begin pid db = (EF_OK, db1)"
    and i: "i < max_slots (sb db)" and run: "ef_index_put env db1 key i = (EF_OK, db2)"
  shows "\<exists>db3. ef_txn_abort env db2 = (EF_OK, db3) \<and> txn_ready db3 \<and> ef_index_get db3 key = Inr i"
proof -
  note b = begin_index[OF ready inv snd(1) bgn]
  have "index_lookup db (ef_key_hash key) \<noteq> None" using old snd(1) index_get_stable[of db key] by (auto simp: index_sound_def split: option.splits)
  then obtain v where some: "index_lookup db1 (ef_key_hash key) = Some v" using b(4) by auto
  have i1: "i < max_slots (sb db1)" and room1: "index_has_room db1" using i b(7) snd(2) b(5) by simp_all
  note p = put_in_txn[OF b(1,3) room1 i1 _ run]
  have t: "in_txn db2 []" and s: "index_sound db2" and l: "index_lookup db2 (ef_key_hash key) = Some (ef_slot_to_offset db1 i)"
    and lay: "same_layout db1 db2" "sb db2 = sb db1"
    using p some by (simp_all add: only_index_def)
  have count: "hash_entry_count db2 = hash_entry_count db1"
  proof -
    have "dom (index_lookup db2) = dom (index_lookup db1)" using p(3) some by auto
    then have "unat (hash_entry_count db2) = unat (hash_entry_count db1)" using s b(3) by (simp add: index_sound_def index_counted_def)
    then show ?thesis by (rule unsigned_word_eqI)
  qed
  have q: "quiet db" "hash_capacity db2 = hash_capacity db" using ready b(6) lay(1) by (simp_all add: txn_ready_def same_layout_def)
  then have calm: "ef_index_pick_shrink_capacity (hash_entry_count db2) (hash_capacity db2) = 0" using b(9) count by (simp add: quiet_def)
  have "new_keys db2 []" by (simp add: new_keys_def)
  then obtain e where e: "ef_txn_abort env db2 = (EF_OK, e)" "txn_ready e" "index_sound e" "index_lookup e = index_lookup db2" "same_layout db2 e"
    using abort_indexing[OF indexing_start[OF t s] _ s in_txn_facts(2)[OF t] calm] by metis
  have wf: "wf_layout e" using e(2) quiet_wf by (simp add: txn_ready_def)
  have "ef_slot_to_offset db1 i = ef_slot_to_offset e i" "i < max_slots (sb e)"
    using same_layout_offset[OF e(5)] same_layout_offset[OF lay(1)] e(5) lay(2) i1 by (simp_all add: same_layout_def)
  then have "ef_index_get e key = Inr i"
    using e(3,4) l offset_to_slot_id_roundtrip[OF wf] by (simp add: index_get_stable index_sound_def)
  then show ?thesis using e(1,2) by blast
qed


text \<open>The example with an empty index, and with one key in bucket 10.\<close>

lemma sample_txn_index: "index_inv sample_txn" "index_lookup sample_txn = Map.empty" "index_has_room sample_txn" "index_sound sample_txn"
  "p < 16 \<Longrightarrow> \<not> occ (entry_at (mem sample_txn) 64) p"
proof -
  have "table_of (mem sample_txn) 64 16 = table_of sample_mem 64 16"
    using sample_queue_touches by (auto simp: touches_def table_def same_layout_def sample_txn_def)
  from arg_cong[OF this, of "\<lambda>t. t ! p" for p]
  have e: "entry_at (mem sample_txn) 64 p = entry_at sample_mem 64 p" if "p < 16" for p using that by (metis nth_table_of)
  have f: "hash_index sample_txn = Some 64" "hash_capacity sample_txn = 16" by (simp_all add: sample_txn_def sample_queue_def)
  note t = index_facts_table[of sample_txn sample_db]
  show inv: "index_inv sample_txn" using t(2) e f by simp
  show l: "index_lookup sample_txn = Map.empty" using t(1) e f sample_empty_index by (simp add: fun_eq_iff)
  show "p < 16 \<Longrightarrow> \<not> occ (entry_at (mem sample_txn) 64) p" using e sample_not_occ by (simp add: occ_def)
  show "index_has_room sample_txn" using e f sample_not_occ by (auto simp: index_has_room_def occ_def intro: exI[of _ 0])
  show "index_sound sample_txn" using inv l by (simp add: index_sound_def index_counted_def) (simp add: sample_txn_def sample_queue_def)
qed


definition sample_keyed :: ef_db where
  "sample_keyed = sample_txn\<lparr>mem := set_entry (mem sample_txn) 64 10 (ef_key_hash [107]) 384, hash_entry_count := 1\<rparr>"

lemma sample_home: "ef_hash_home 16 (ef_key_hash [107]) = 10"
  by code_simp

lemma sample_keyed_state:
  "txn_ready sample_keyed" "free_list_inv sample_keyed [0, 1, 2]" "index_sound sample_keyed" "index_has_room sample_keyed"
  "index_lookup sample_keyed = [ef_key_hash [107] \<mapsto> 384]" "max_slots (sb sample_keyed) = 4" "undo_log_slots sample_keyed = 8"
  "hash_capacity sample_keyed = 16" "hash_entry_count sample_keyed = 1" "\<not> occ (entry_at (mem sample_keyed) 64) 15"
  "wf_layout sample_keyed" "ef_slot_to_offset sample_keyed 1 = 384"
proof -
  let ?kh = "ef_key_hash [107]"
  define k where "k = sample_txn\<lparr>mem := set_entry (mem sample_txn) 64 10 ?kh 384\<rparr>"
  have s: "sample_keyed = k\<lparr>hash_entry_count := 1\<rparr>" by (simp add: sample_keyed_def k_def)
  have f: "hash_index sample_txn = Some 64" "hash_capacity sample_txn = 16" by (simp_all add: sample_txn_def sample_queue_def)
  have "put_loop 64 16 ?kh 384 10 10 \<lparr>key_hash = ?kh, slot_offset = 384\<rparr> (mem sample_txn) =
      (EF_OK, True, set_entry (mem sample_txn) 64 10 ?kh 384)"
    using put_loop_turn(2)[of 10 10 16 "mem sample_txn" 64] sample_txn_index(5)[of 10] by simp
  then have put: "ef_index_put_entry sample_txn ?kh 384 = (EF_OK, True, k)"
    using f sample_home by (simp add: ef_index_put_entry_def Let_def k_def)
  note m = put_entry_map[OF sample_txn_index(1,3) _ put]
  note w = table_write_facts[OF put_entry_table_write[OF sample_txn_wf put] sample_txn_wf]
  have ki: "index_inv sample_keyed = index_inv k" "index_lookup sample_keyed = index_lookup k" "index_has_room sample_keyed = index_has_room k"
    using index_facts_cong[of sample_keyed k] f by (simp_all add: s k_def)
  show look: "index_lookup sample_keyed = [?kh \<mapsto> 384]" using m sample_txn_index(2) ki(2) by simp
  show max: "max_slots (sb sample_keyed) = 4" "undo_log_slots sample_keyed = 8" "hash_capacity sample_keyed = 16" "hash_entry_count sample_keyed = 1"
    using w(1) by (simp_all add: s sample_txn_sb) (simp_all add: k_def sample_txn_def sample_queue_def)
  have sb: "sb sample_keyed = sb sample_txn" using w(1) by (simp add: s)
  have lay: "same_layout sample_txn sample_keyed" using w(3) by (simp add: s same_layout_def)
  show wf: "wf_layout sample_keyed" using same_layout_wf[OF lay] sample_txn_wf by simp
  have slot: "db_slot sample_keyed j = db_slot sample_txn j" for j using w(2)[of j] by (simp add: s)
  show "free_list_inv sample_keyed [0, 1, 2]" by (rule same_pool[OF sample_txn_free lay wf slot]) (simp_all add: sb)
  have "card (dom [?kh \<mapsto> (384 :: u64)]) = 1" by simp
  then show snd: "index_sound sample_keyed"
    using m ki(1) look max(4) by (simp add: index_sound_def index_counted_def) (simp add: s k_def sample_txn_def sample_queue_def)
  show "index_has_room sample_keyed"
    using snd look max(3) by (intro room_if_few) (simp_all add: index_sound_def)
  have "ef_index_pick_shrink_capacity 1 16 = 0" by code_simp
  moreover have "undo_area_ok sample_keyed"
    using sample_txn_ready lay wf by (simp add: txn_ready_def undo_area_ok_def sb) (simp add: s k_def)
  ultimately show "txn_ready sample_keyed"
    using sample_txn_ready wf max by (simp add: txn_ready_def quiet_def sb) (simp add: s k_def)
  show "\<not> occ (entry_at (mem sample_keyed) 64) 15"
    using sample_txn_index(5)[of 15] by (simp add: s k_def occ_def entry_at_upd_entry)
  show "ef_slot_to_offset sample_keyed 1 = 384"
    using max(1) by (simp add: ef_slot_to_offset_def push_bit_eq_mult word_le_nat_alt) (simp add: s k_def sample_txn_def sample_queue_def)
qed

theorem txn_abort_removes_new_keys_witness:
  "\<forall>env. \<exists>db1 db2 db3. ef_txn_begin 7 sample_txn = (EF_OK, db1) \<and> put_keys env [([107], 1)] db1 = (EF_OK, db2) \<and>
     ef_index_get db2 [107] = Inr 1 \<and> ef_txn_abort env db2 = (EF_OK, db3) \<and> ef_index_get db3 [107] = Inl EF_ERR_NOT_FOUND"
proof
  fix env
  obtain db1 where b: "ef_txn_begin 7 sample_txn = (EF_OK, db1)" by (rule begin_ok[OF sample_txn_ready sample_txn_free])
  note B = begin_index[OF sample_txn_ready sample_txn_free sample_txn_index(4) b]
  have f: "hash_capacity db1 = 16" "hash_entry_count db1 = 0" "max_slots (sb db1) = 4"
    using B(6,9) by (simp_all add: same_layout_def sample_txn_sb) (simp_all add: sample_txn_def sample_queue_def)
  have "hash_capacity sample_txn = 16" by (simp add: sample_txn_def sample_queue_def)
  then have free: "\<not> occ (entry_at (mem db1) 64) 15" using same_entries[OF B(11), of 15] f(1) sample_txn_index(5)[of 15] by (simp add: occ_def)
  obtain db2 where p: "ef_index_put env db1 [107] 1 = (EF_OK, db2)"
    by (rule put_txn_ok[OF B(1), where env = env and key = "[107]" and i = 1 and e = 15])
      (use B(3) f free sample_home in \<open>simp_all add: index_sound_def ef_index_needs_grow_def ef_policy_defs\<close>)
  have new: "new_keys sample_txn [([107], 1)]" by (simp add: new_keys_def sample_txn_index sample_txn_sb)
  have get: "ef_index_get sample_txn [107] = Inl EF_ERR_NOT_FOUND"
    using sample_txn_index(2,4) by (simp add: index_get_stable index_sound_def)
  have run: "put_keys env [([107], 1)] db1 = (EF_OK, db2)" using p by simp
  from txn_abort_removes_new_keys[OF sample_txn_ready sample_txn_free sample_txn_index(4) b run new]
  show "\<exists>db1 db2 db3. ef_txn_begin 7 sample_txn = (EF_OK, db1) \<and> put_keys env [([107], 1)] db1 = (EF_OK, db2) \<and>
     ef_index_get db2 [107] = Inr 1 \<and> ef_txn_abort env db2 = (EF_OK, db3) \<and> ef_index_get db3 [107] = Inl EF_ERR_NOT_FOUND"
    using b run get sample_txn_log by auto
qed

theorem txn_abort_keeps_overwritten_key_witness:
  "\<forall>env. \<exists>db1 db2 db3. ef_index_get sample_keyed [107] = Inr 1 \<and> ef_txn_begin 7 sample_keyed = (EF_OK, db1) \<and>
     ef_index_put env db1 [107] 2 = (EF_OK, db2) \<and> ef_txn_abort env db2 = (EF_OK, db3) \<and> ef_index_get db3 [107] = Inr 2"
proof
  fix env
  note S = sample_keyed_state
  obtain db1 where b: "ef_txn_begin 7 sample_keyed = (EF_OK, db1)" by (rule begin_ok[OF S(1,2)])
  note B = begin_index[OF S(1-3) b]
  have f: "hash_capacity db1 = 16" "hash_entry_count db1 = 1" "max_slots (sb db1) = 4" using B(6,9) S by (simp_all add: same_layout_def)
  have free: "\<not> occ (entry_at (mem db1) 64) 15" using same_entries[OF B(11), of 15] f(1) S(8,10) by (simp add: occ_def)
  obtain db2 where p: "ef_index_put env db1 [107] 2 = (EF_OK, db2)"
    by (rule put_txn_ok[OF B(1), where env = env and key = "[107]" and i = 2 and e = 15])
      (use B(3) f free sample_home in \<open>simp_all add: index_sound_def ef_index_needs_grow_def ef_policy_defs\<close>)
  have get: "ef_index_get sample_keyed [107] = Inr 1"
    using S(3,5) offset_to_slot_id_roundtrip[OF S(11), of 1] S(6,12) by (simp add: index_get_stable index_sound_def)
  have "(2 :: u64) < max_slots (sb sample_keyed)" using S(6) by simp
  from txn_abort_keeps_overwritten_key[OF S(1-4) get b this p]
  show "\<exists>db1 db2 db3. ef_index_get sample_keyed [107] = Inr 1 \<and> ef_txn_begin 7 sample_keyed = (EF_OK, db1) \<and>
     ef_index_put env db1 [107] 2 = (EF_OK, db2) \<and> ef_txn_abort env db2 = (EF_OK, db3) \<and> ef_index_get db3 [107] = Inr 2"
    using b p get by blast
qed

end
