(* ===== verification/Chase.thy ===== *)
theory Chase
  imports Slots Slot_Writes Queue_Props
begin

text \<open>
  Following the links of slots. What \<^verbatim>\<open>ef_chase_n\<close> visits is a sequence of slots, each of which the one
  before it names as its next; the sequence ends at a slot without a link or goes round in a ring. The
  function remembers the first 64 offsets only, which decides what it finds out about a ring.
\<close>

text \<open>\<open>n\<close> links can be followed from \<open>s 0\<close>, all of them leaving used slots.\<close>

definition link_path :: "ef_db \<Rightarrow> (nat \<Rightarrow> u64) \<Rightarrow> nat \<Rightarrow> bool" where
  "link_path db s n \<longleftrightarrow>
     (\<forall>i \<le> n. s i < max_slots (sb db)) \<and>
     (\<forall>i < n. status (db_slot db (s i)) = EF_STATUS_USED \<and> next_offset (db_slot db (s i)) = ef_slot_to_offset db (s (Suc i)))"

text \<open>The slots that the function remembers when it comes to the \<open>i\<close>-th one.\<close>

abbreviation remembered :: "(nat \<Rightarrow> u64) \<Rightarrow> nat \<Rightarrow> u64 list" where
  "remembered s i \<equiv> map s [0..<min i EF_CHASE_VISIT_CACHE]"

lemma remember_next:
  "(if length (map f (remembered s i)) < EF_CHASE_VISIT_CACHE then map f (remembered s i) @ [f (s i)] else map f (remembered s i)) =
     map f (remembered s (Suc i))"
  by (auto simp: min_def le_Suc_eq not_le)

lemma link_path_le: "link_path db s n \<Longrightarrow> k \<le> n \<Longrightarrow> link_path db s k"
  by (simp add: link_path_def)

lemma remembered_offset:
  assumes "wf_layout db" "link_path db s i"
  shows "ef_slot_to_offset db (s i) \<in> set (map (ef_slot_to_offset db) (remembered s i)) \<longleftrightarrow> s i \<in> set (remembered s i)"
proof -
  have "s j < max_slots (sb db)" if "j \<le> i" for j using assms(2) that by (simp add: link_path_def)
  then show ?thesis using slot_to_offset_inj[OF assms(1)] by fastforce
qed

lemma chase_loop_step:
  assumes wf: "wf_layout db" and path: "link_path db s (Suc i)" and new: "s i \<notin> set (remembered s i)"
  shows "chase_loop db (map (ef_slot_to_offset db) (remembered s i)) i (Suc n) (ef_slot_to_offset db (s i)) =
    chase_loop db (map (ef_slot_to_offset db) (remembered s (Suc i))) (Suc i) n (ef_slot_to_offset db (s (Suc i)))"
proof -
  have p: "s i < max_slots (sb db)" "s (Suc i) < max_slots (sb db)" "status (db_slot db (s i)) = EF_STATUS_USED"
    "next_offset (db_slot db (s i)) = ef_slot_to_offset db (s (Suc i))"
    using path by (simp_all add: link_path_def)
  have "ef_slot_to_offset db (s i) \<notin> set (map (ef_slot_to_offset db) (remembered s i))"
    using new remembered_offset[OF wf link_path_le[OF path]] by simp
  then show ?thesis
    unfolding remember_next[of "ef_slot_to_offset db" s i, symmetric]
    using p(3,4) slot_offset_neq_0[OF wf p(2)] unat_slot_offset[OF wf p(1)] by (simp only: chase_loop.simps Let_def) simp
qed

text \<open>As long as it meets no slot that it remembers, the loop follows the path.\<close>

lemma chase_loop_path:
  assumes wf: "wf_layout db" and path: "link_path db s k" and new: "\<And>i. i < k \<Longrightarrow> s i \<notin> set (remembered s i)"
  shows "chase_loop db [] 0 (k + n) (ef_slot_to_offset db (s 0)) =
    chase_loop db (map (ef_slot_to_offset db) (remembered s k)) k n (ef_slot_to_offset db (s k))"
  using path new
proof (induction k arbitrary: n)
  case (Suc k)
  have "chase_loop db [] 0 (Suc k + n) (ef_slot_to_offset db (s 0)) =
      chase_loop db (map (ef_slot_to_offset db) (remembered s k)) k (Suc n) (ef_slot_to_offset db (s k))"
    using Suc.IH[of "Suc n"] link_path_le[OF Suc.prems(1)] Suc.prems(2) by simp
  also have "\<dots> = chase_loop db (map (ef_slot_to_offset db) (remembered s (Suc k))) (Suc k) n (ef_slot_to_offset db (s (Suc k)))"
    using Suc.prems by (intro chase_loop_step[OF wf]) simp_all
  finally show ?case .
qed simp

text \<open>The code's limit on the number of slots visited.\<close>

definition chase_limit :: "u32 \<Rightarrow> nat" where
  "chase_limit hops = min (unat hops) (unat EF_CHASE_MAX_DEPTH)"

lemma chase_n_loop:
  assumes "wf_layout db" "i < max_slots (sb db)" "hops \<noteq> 0"
  shows "ef_chase_n db (ef_slot_to_offset db i) hops =
    (case chase_loop db [] 0 (chase_limit hops) (ef_slot_to_offset db i) of
       Inl err \<Rightarrow> (None, ef_set_error db err)
     | Inr (Inl (p, n)) \<Rightarrow> (Some (p, of_nat n), ef_set_error db EF_OK)
     | Inr (Inr off) \<Rightarrow>
         if EF_CHASE_MAX_DEPTH < hops then (None, ef_set_error db EF_ERR_CHASE_DEPTH)
         else (Some (unat off, hops), ef_set_error db EF_OK))"
proof -
  have "unat (if EF_CHASE_MAX_DEPTH < hops then EF_CHASE_MAX_DEPTH else hops) = chase_limit hops"
    by (simp add: chase_limit_def word_less_nat_alt)
  then show ?thesis
    using slot_offset_rel(1-3)[OF assms(1,2)] assms(3)
    by (simp add: ef_chase_n_def Let_def leD not_le) (auto split: sum.splits)
qed

lemma chase_limit_pos: "hops \<noteq> 0 \<Longrightarrow> 0 < chase_limit hops"
  by (simp add: chase_limit_def EF_CHASE_MAX_DEPTH_def unat_gt_0)

lemma chase_limit_small: "\<not> EF_CHASE_MAX_DEPTH < hops \<Longrightarrow> chase_limit hops = unat hops"
  by (simp add: chase_limit_def word_less_nat_alt)

lemma chase_hops_out:
  assumes wf: "wf_layout db" and path: "link_path db s (chase_limit hops)" and h: "hops \<noteq> 0"
    and new: "\<And>i. i < chase_limit hops \<Longrightarrow> s i \<notin> set (remembered s i)"
  shows "ef_chase_n db (ef_slot_to_offset db (s 0)) hops =
    (if EF_CHASE_MAX_DEPTH < hops then (None, ef_set_error db EF_ERR_CHASE_DEPTH)
     else (Some (db_slot_ptr db (s (unat hops)), hops), ef_set_error db EF_OK))"
proof -
  have id: "s i < max_slots (sb db)" if "i \<le> chase_limit hops" for i using path that by (simp add: link_path_def)
  have "chase_loop db [] 0 (chase_limit hops) (ef_slot_to_offset db (s 0)) = Inr (Inr (ef_slot_to_offset db (s (chase_limit hops))))"
    using chase_loop_path[OF wf path new, of 0] by simp
  then show ?thesis
    using chase_n_loop[OF wf id[of 0] h] unat_slot_offset[OF wf id, of "chase_limit hops"] chase_limit_small[of hops] by auto
qed

lemma not_remembered: "inj_on s {..<n} \<Longrightarrow> i < n \<Longrightarrow> s i \<notin> set (remembered s i)"
  by (auto dest!: inj_onD)

text \<open>A chain that ends.\<close>

lemma chase_chain:
  assumes wf: "wf_layout db" and path: "link_path db s k" and d: "inj_on s {..k}" and h: "hops \<noteq> 0"
    and last: "status (db_slot db (s k)) = EF_STATUS_USED" "next_offset (db_slot db (s k)) = 0"
  shows "ef_chase_n db (ef_slot_to_offset db (s 0)) hops =
    (if k < min (unat hops) 1024 then (Some (db_slot_ptr db (s k), of_nat (k + 1)), ef_set_error db EF_OK)
     else if 1024 < hops then (None, ef_set_error db EF_ERR_CHASE_DEPTH)
     else (Some (db_slot_ptr db (s (unat hops)), hops), ef_set_error db EF_OK))"
proof -
  have new: "s i \<notin> set (remembered s i)" if "i \<le> k" for i
    using not_remembered[of s "Suc k" i] d that by (simp add: lessThan_Suc_atMost)
  have id: "s i < max_slots (sb db)" if "i \<le> k" for i using path that by (simp add: link_path_def)
  show ?thesis
  proof (cases "k < chase_limit hops")
    case True
    then obtain n where n: "chase_limit hops = k + Suc n" using less_iff_Suc_add by fastforce
    have "ef_slot_to_offset db (s k) \<notin> set (map (ef_slot_to_offset db) (remembered s k))"
      using new remembered_offset[OF wf path] by simp
    then have "chase_loop db [] 0 (chase_limit hops) (ef_slot_to_offset db (s 0)) = Inr (Inl (db_slot_ptr db (s k), Suc k))"
      unfolding n using chase_loop_path[OF wf path, of "Suc n"] new last unat_slot_offset[OF wf id, of k] by (simp add: Let_def)
    then show ?thesis using chase_n_loop[OF wf id[of 0] h] True by (simp add: chase_limit_def EF_CHASE_MAX_DEPTH_def)
  next
    case False
    then have "chase_limit hops \<le> k" by simp
    then have "ef_chase_n db (ef_slot_to_offset db (s 0)) hops =
      (if EF_CHASE_MAX_DEPTH < hops then (None, ef_set_error db EF_ERR_CHASE_DEPTH)
       else (Some (db_slot_ptr db (s (unat hops)), hops), ef_set_error db EF_OK))"
      using link_path_le[OF path] new by (intro chase_hops_out[OF wf _ h]) simp_all
    moreover have "\<not> k < min (unat hops) 1024" using False by (simp add: chase_limit_def EF_CHASE_MAX_DEPTH_def)
    ultimately show ?thesis by (simp only: if_False EF_CHASE_MAX_DEPTH_def)
  qed
qed

text \<open>A ring.\<close>

lemma chase_ring:
  assumes wf: "wf_layout db" and path: "\<forall>n. link_path db s n" and ring: "0 < l" "\<forall>i \<ge> m. s (i + l) = s i" "inj_on s {..<m + l}"
    and h: "hops \<noteq> 0"
  shows "ef_chase_n db (ef_slot_to_offset db (s 0)) hops =
    (if m < 64 \<and> m + l < min (unat hops) 1024 then (None, ef_set_error db EF_ERR_CHASE_CYCLE)
     else if 1024 < hops then (None, ef_set_error db EF_ERR_CHASE_DEPTH)
     else (Some (db_slot_ptr db (s (unat hops)), hops), ef_set_error db EF_OK))"
proof (cases "m < 64 \<and> m + l < chase_limit hops")
  case True
  then obtain n where n: "chase_limit hops = (m + l) + Suc n" using less_iff_Suc_add by fastforce
  have "s (m + l) \<in> set (remembered s (m + l))" using ring(1,2) True by (auto simp: EF_CHASE_VISIT_CACHE_def)
  then have "ef_slot_to_offset db (s (m + l)) \<in> set (map (ef_slot_to_offset db) (remembered s (m + l)))" by force
  then have "chase_loop db [] 0 (chase_limit hops) (ef_slot_to_offset db (s 0)) = Inl EF_ERR_CHASE_CYCLE"
    unfolding n using chase_loop_path[OF wf spec[OF path], of "m + l" "Suc n"] not_remembered[OF ring(3)] by simp
  moreover have "s 0 < max_slots (sb db)" using path by (auto simp: link_path_def)
  ultimately show ?thesis
    using chase_n_loop[OF wf _ h, of "s 0"] True by (simp add: chase_limit_def EF_CHASE_MAX_DEPTH_def)
next
  case False
  have round: "\<exists>j < m + l. m \<le> j \<and> s i = s j" if "m + l \<le> i" for i
    using that
  proof (induction i rule: less_induct)
    case (less i)
    have eq: "s i = s (i - l)" using ring(2)[rule_format, of "i - l"] less.prems ring(1) by simp
    show ?case
    proof (cases "m + l \<le> i - l")
      case True
      then show ?thesis using less.IH[of "i - l"] eq ring(1) less.prems by auto
    next
      case False
      then show ?thesis using eq less.prems by (intro exI[of _ "i - l"]) auto
    qed
  qed
  have "s i \<notin> set (remembered s i)" if i: "i < chase_limit hops" for i
  proof (cases "i < m + l")
    case True
    then show ?thesis by (rule not_remembered[OF ring(3)])
  next
    case out: False
    then have "64 \<le> m" using False i by auto
    obtain j where j: "j < m + l" "m \<le> j" "s i = s j" using round[of i] out by auto
    then have "s j \<noteq> s k" if "k < 64" for k using inj_onD[OF ring(3), of j k] that \<open>64 \<le> m\<close> by auto
    then show ?thesis unfolding j(3) by (force simp: EF_CHASE_VISIT_CACHE_def)
  qed
  from chase_hops_out[OF wf spec[OF path] h this]
  have "ef_chase_n db (ef_slot_to_offset db (s 0)) hops =
    (if EF_CHASE_MAX_DEPTH < hops then (None, ef_set_error db EF_ERR_CHASE_DEPTH)
     else (Some (db_slot_ptr db (s (unat hops)), hops), ef_set_error db EF_OK))" .
  moreover have "\<not> (m < 64 \<and> m + l < min (unat hops) 1024)" using False by (simp add: chase_limit_def EF_CHASE_MAX_DEPTH_def)
  ultimately show ?thesis by (simp only: if_False EF_CHASE_MAX_DEPTH_def)
qed

subsection \<open>Properties\<close>

text \<open>
  C27: following links along a chain of used slots that ends after \<open>k\<close> links. If the hops run out first,
  \<^verbatim>\<open>ef_chase_n\<close> gives the slot that many links away; otherwise it gives the last slot of the chain,
  with the number of slots visited, which is one more than the number of links followed; a request
  for more than 1024 hops fails if the chain is longer than that.
\<close>

theorem chase_n_follows_chain:
  assumes wf: "wf_layout db" and path: "link_path db s k" and d: "inj_on s {..k}" and h: "hops \<noteq> 0"
    and last: "status (db_slot db (s k)) = EF_STATUS_USED" "next_offset (db_slot db (s k)) = 0"
  shows "ef_chase_n db (ef_slot_to_offset db (s 0)) hops =
    (if k < min (unat hops) 1024 then (Some (db_slot_ptr db (s k), of_nat (k + 1)), ef_set_error db EF_OK)
     else if 1024 < hops then (None, ef_set_error db EF_ERR_CHASE_DEPTH)
     else (Some (db_slot_ptr db (s (unat hops)), hops), ef_set_error db EF_OK))"
  by (rule chase_chain[OF assms])

text \<open>Three used slots in a row, the last of which links to \<open>off\<close>.\<close>

definition sample_row :: "u64 \<Rightarrow> ef_db" where
  "sample_row off = sample_db\<lparr>mem := foldl (\<lambda>m (k, nxt). set_next_offset (set_status m (slot_ptr 320 k) EF_STATUS_USED) (slot_ptr 320 k) nxt)
     sample_mem [(0, 384), (1, 448), (2, off)]\<rparr>"

lemma sample_row_state:
  "wf_layout (sample_row off)" "max_slots (sb (sample_row off)) = 4" "slots_base (sample_row off) = 320"
  "ef_slot_to_offset (sample_row off) 0 = 320" "ef_slot_to_offset (sample_row off) 1 = 384" "ef_slot_to_offset (sample_row off) 2 = 448"
proof -
  have p: "64 \<le> slot_ptr 320 k" for k using slot_ptr_ge[of 320 k] by linarith
  have sb: "sb (sample_row off) = sb sample_db" using p by (simp add: sample_row_def)
  show "max_slots (sb (sample_row off)) = 4" "slots_base (sample_row off) = 320" using sb by (simp, simp add: sample_row_def)
  show "wf_layout (sample_row off)" using sample_wf sb by (simp add: wf_layout_def) (simp add: sample_row_def)
  show "ef_slot_to_offset (sample_row off) 0 = 320" "ef_slot_to_offset (sample_row off) 1 = 384" "ef_slot_to_offset (sample_row off) 2 = 448"
    by (simp_all add: ef_slot_to_offset_def sb push_bit_eq_mult word_le_nat_alt) (simp_all add: sample_row_def)
qed

lemma sample_row_slots:
  "k < 3 \<Longrightarrow> status (slot_at (mem (sample_row off)) (slot_ptr 320 k)) = EF_STATUS_USED"
  "k < 3 \<Longrightarrow> next_offset (slot_at (mem (sample_row off)) (slot_ptr 320 k)) = [384, 448, off] ! k"
proof -
  have p: "64 \<le> slot_ptr 320 k" for k using slot_ptr_ge[of 320 k] by linarith
  assume "k < 3"
  then have "k = 0 \<or> k = 1 \<or> k = 2" by auto
  then show "status (slot_at (mem (sample_row off)) (slot_ptr 320 k)) = EF_STATUS_USED"
    "next_offset (slot_at (mem (sample_row off)) (slot_ptr 320 k)) = [384, 448, off] ! k"
    using p by (auto simp: sample_row_def)
qed

theorem chase_n_follows_chain_witness:
  "ef_chase_n (sample_row 0) 320 2 = (Some (448, 2), ef_set_error (sample_row 0) EF_OK) \<and>
   ef_chase_n (sample_row 0) 320 9 = (Some (448, 3), ef_set_error (sample_row 0) EF_OK)"
proof -
  have s: "i = 0 \<or> i = 1" if "i < 2" for i :: nat using that by auto
  have path: "link_path (sample_row 0) of_nat 2"
    by (auto simp: link_path_def sample_row_state word_less_nat_alt unat_of_nat_u64 sample_row_slots dest!: s)
  have d: "inj_on (of_nat :: nat \<Rightarrow> u64) {..2}" by (auto simp: inj_on_def le_Suc_eq numeral_2_eq_2)
  note c = chase_n_follows_chain[OF sample_row_state(1) path d]
  have "status (slot_at (mem (sample_row 0)) 448) = EF_STATUS_USED" "next_offset (slot_at (mem (sample_row 0)) 448) = 0"
    using sample_row_slots[of 2 0] by (simp_all add: slot_ptr_def EF_SLOT_SIZE_def)
  then show ?thesis using c[of 2] c[of 9] by (simp add: sample_row_state slot_ptr_def EF_SLOT_SIZE_def)
qed

text \<open>
  C28: following links round a ring that the sequence enters after \<open>m\<close> slots and that has \<open>l\<close> slots.
  The ring is reported exactly if it begins among the first 64 slots and the hops suffice to come
  back to its beginning. Otherwise the function goes round until the hops run out: up to 1024 it
  succeeds with the slot reached, above that it reports the depth.
\<close>

theorem chase_n_ring:
  assumes wf: "wf_layout db" and path: "\<forall>n. link_path db s n" and ring: "0 < l" "\<forall>i \<ge> m. s (i + l) = s i" "inj_on s {..<m + l}"
    and h: "hops \<noteq> 0"
  shows "ef_chase_n db (ef_slot_to_offset db (s 0)) hops =
    (if m < 64 \<and> m + l < min (unat hops) 1024 then (None, ef_set_error db EF_ERR_CHASE_CYCLE)
     else if 1024 < hops then (None, ef_set_error db EF_ERR_CHASE_DEPTH)
     else (Some (db_slot_ptr db (s (unat hops)), hops), ef_set_error db EF_OK))"
  by (rule chase_ring[OF assms])

theorem chase_n_ring_witness:
  "ef_chase_n (sample_row 384) 320 9 = (None, ef_set_error (sample_row 384) EF_ERR_CHASE_CYCLE) \<and>
   ef_chase_n (sample_row 384) 320 3 = (Some (384, 3), ef_set_error (sample_row 384) EF_OK)"
proof -
  let ?s = "\<lambda>i :: nat. if i = 0 then 0 :: u64 else if odd i then 1 else 2"
  have path: "\<forall>n. link_path (sample_row 384) ?s n"
    by (auto simp: link_path_def sample_row_state sample_row_slots)
  have d: "inj_on ?s {..<1 + 2}" by (auto simp: inj_on_def less_Suc_eq numeral_2_eq_2)
  note c = chase_n_ring[OF sample_row_state(1) path _ _ d]
  show ?thesis using c[of 9] c[of 3] by (simp add: sample_row_state slot_ptr_def EF_SLOT_SIZE_def)
qed

end
