(* ===== verification/Session.thy ===== *)
theory Session
  imports Reopen Blob_Props Grow_Props Chase Checksums
begin

text \<open>
  The operations of the public interface one after the other, on a database in memory without an index:
  what a caller knows between two calls. A session is the handle with its layout, its superblock and its free
  list; every operation keeps it and says what becomes of the slot it is about, checksum included.
\<close>

definition session :: "ef_db \<Rightarrow> u64 \<Rightarrow> u64 list \<Rightarrow> bool" where
  "session db n ids \<longleftrightarrow>
     quiet db \<and> free_list_inv db ids \<and> hash_capacity db = 0 \<and> (\<exists>h k x. sb db = new_sb n 0 h k x) \<and>
     file_size db = ef_expected_file_size n 0 4096 \<and> backend db = EF_BACKEND_MEMORY \<and> undo_log_slots db = 4096 \<and>
     unat n < 2 ^ 31"

text \<open>A slot with its checksum.\<close>

definition slot_with :: "u64 \<Rightarrow> u32 \<Rightarrow> u8 list \<Rightarrow> u64 \<Rightarrow> ef_slot" where
  "slot_with i st pl nxt =
     (let s = \<lparr>status = st, header_crc = 0, payload = pl, next_offset = nxt\<rparr> in s\<lparr>header_crc := ef_slot_header_crc_compute i s\<rparr>)"

text \<open>Its checksum is not 0, the value of a missing one.\<close>

definition crc_present :: "u64 \<Rightarrow> ef_slot \<Rightarrow> bool" where
  "crc_present i s \<longleftrightarrow> ef_slot_header_crc_compute i s \<noteq> 0"

lemma slot_with_fields [simp]:
  "status (slot_with i st pl nxt) = st" "payload (slot_with i st pl nxt) = pl" "next_offset (slot_with i st pl nxt) = nxt"
  by (simp_all add: slot_with_def)

lemma crc_present_cong:
  "status s = status t \<Longrightarrow> payload s = payload t \<Longrightarrow> next_offset s = next_offset t \<Longrightarrow> crc_present i s = crc_present i t"
  using crc_compute_cong[of s t i] by (simp add: crc_present_def)

lemma session_facts:
  assumes "session db n ids"
  shows "quiet db" "wf_layout db" "free_list_inv db ids" "max_slots (sb db) = n" "flags (sb db) = EF_FLAG_SB_CRC OR EF_FLAG_SLOT_CRC"
    "\<not> readonly db" "\<not> txn_active db" "mapped db" "schema_version (sb db) = EF_SCHEMA_VERSION"
  using assms quiet_wf[of db] by (auto simp: session_def quiet_def new_sb_def)

lemma session_seal:
  assumes "session db n ids"
  shows "seal db i s = s\<lparr>header_crc := ef_slot_header_crc_compute i s\<rparr>" "crc_ok db i s = crc_present i s"
  using session_facts(5)[OF assms] by (simp_all add: seal_def crc_ok_def crc_present_def EF_FLAG_SB_CRC_def EF_FLAG_SLOT_CRC_def)

lemma session_slot:
  assumes "session db n ids"
  shows "seal db i s = slot_with i (status s) (payload s) (next_offset s)"
proof -
  have "ef_slot_header_crc_compute i s = ef_slot_header_crc_compute i \<lparr>status = status s, header_crc = 0, payload = payload s, next_offset = next_offset s\<rparr>"
    by (rule crc_compute_cong) simp_all
  then show ?thesis by (simp add: session_seal[OF assms] slot_with_def)
qed

lemma session_valid:
  assumes "session db n ids" "db_slot db i = slot_with i st pl nxt" "crc_present i (slot_with i st pl nxt)"
  shows "sealed db i" "ef_slot_header_crc_valid db i (db_slot db i)"
proof -
  show s: "sealed db i" using session_slot[OF assms(1), of i "db_slot db i"] assms(2) by (simp add: sealed_def)
  show "ef_slot_header_crc_valid db i (db_slot db i)"
    by (rule sealed_valid[OF s]) (simp add: session_seal(2)[OF assms(1)] assms(2,3))
qed

lemma session_unindexed: "session db n ids \<Longrightarrow> unindexed db i"
  by (simp add: session_def unindexed_def table_def table_of_def)

lemma session_length:
  assumes "session db n ids"
  shows "length ids \<le> unat n"
proof -
  note f = session_facts[OF assms]
  have d: "distinct ids" and m: "\<forall>j \<in> set ids. unat j < unat n"
    using f(3,4) pool_max[OF f(3)] by (auto simp: free_list_inv_def word_less_nat_alt)
  have "length ids = card (set (map unat ids))"
    using d distinct_card[of "map unat ids"] by (simp add: distinct_map inj_on_def word_unat_eq_iff)
  also have "\<dots> \<le> card {..<unat n}" using m by (intro card_mono) auto
  finally show ?thesis by simp
qed

lemma session_change:
  assumes s: "session db n ids" and t: "touches db db' S" and sb: "sb db' = new_sb n 0 h k x" and inv: "free_list_inv db' ids'"
  shows "session db' n ids'"
proof -
  have "schema_version (sb db') = schema_version (sb db)" "index_write_lock (sb db') = index_write_lock (sb db)"
    using s sb by (auto simp: session_def new_sb_def)
  then have "quiet db'" using session_facts(1)[OF s] by (subst quiet_cong[OF t]) simp_all
  then show ?thesis using s t inv sb by (auto simp: session_def touches_def same_layout_def)
qed

lemma session_touches:
  assumes "session db n ids" "touches db db' S" "same_sb db db'" "free_list_inv db' ids'"
  shows "session db' n ids'"
proof -
  obtain h k x h' k' where "sb db = new_sb n 0 h k x" "sb db' = (sb db)\<lparr>free_list_head := h', free_count := k'\<rparr>"
    using assms(1,3) unfolding session_def same_sb_def by blast
  then have "sb db' = new_sb n 0 h' k' x" by (simp add: new_sb_def)
  then show ?thesis by (rule session_change[OF assms(1,2) _ assms(4)])
qed

lemma session_puts:
  assumes "session db n ids" "puts db db' i s" "i \<notin> set ids"
  shows "session db' n ids"
  using assms puts_free[OF assms(2,3)] session_facts(3)[OF assms(1)]
  by (intro session_touches[OF assms(1)]) (auto simp: puts_def intro: same_sb_eq)

lemma session_error: "session db n ids \<Longrightarrow> session (ef_set_error db e) n ids"
  using session_facts(3)[of db n ids] free_list_inv_touches[OF touches_error[of db e "{}"], of ids]
  by (intro session_touches[OF _ touches_error[of db e "{}"]]) (simp_all add: same_sb_eq)

subsection \<open>Slots\<close>

lemma session_get:
  assumes "session db n ids" "i < n" "db_slot db i = slot_with i st pl nxt" "crc_present i (slot_with i st pl nxt)"
  shows "ef_get_slot db i = (Some (db_slot_ptr db i), ef_set_error db EF_OK)"
  using session_facts(4,8)[OF assms(1)] assms(2) by (intro get_slot_ok session_valid[OF assms(1,3,4)]) simp_all

lemma session_alloc:
  assumes s: "session db n (i # ids)"
  obtains db' where "ef_alloc_slot db = (Inr i, db')" "session db' n ids" "sb_meta_dirty db'" "touches db db' {i}"
    "db_slot db' i = slot_with i EF_STATUS_USED (replicate 48 0) 0"
proof -
  note f = session_facts[OF s]
  obtain r db' where run: "ef_alloc_slot_ex db EF_ALLOC_ZERO_PAYLOAD = (r, db')" by fastforce
  note A = alloc_slot_ok[OF f(1,3) run]
  have "same_sb db db'" using A(5) unfolding same_sb_def by blast
  then have s': "session db' n ids" by (rule session_touches[OF s A(2) _ A(4)])
  have "db_slot db' i = seal db' i (db_slot db' i)" using alloc_sealed[OF f(1,3) run] by (simp add: sealed_def)
  also have "\<dots> = slot_with i EF_STATUS_USED (replicate 48 0) 0"
    unfolding session_slot[OF s'] using A(6-8) by (simp add: EF_ALLOC_ZERO_PAYLOAD_def)
  finally have slot: "db_slot db' i = slot_with i EF_STATUS_USED (replicate 48 0) 0" .
  have "sb_meta_dirty db'"
    using run alloc_slot_run[OF f(1,3), of EF_ALLOC_ZERO_PAYLOAD] f(2,5,6) slot_base_64[OF f(2), of i]
    by (auto simp: pop_state_def Let_def ef_db_mark_meta_dirty_def ef_sb_free_count_dec_def EF_FLAG_SB_CRC_def EF_FLAG_SLOT_CRC_def)
  with that[OF _ s' _ A(2) slot] show thesis using run A(1) by (simp add: ef_alloc_slot_def)
qed

lemma store_bytes_none: "store_bytes m p [] = m"
  by (auto simp: store_bytes_def fun_eq_iff)

text \<open>Writing a payload: the rest of the payload is cleared, the link stays.\<close>

lemma session_payload:
  assumes s: "session db n ids" and i: "i < n" "i \<notin> set ids" and slot: "db_slot db i = slot_with i EF_STATUS_USED pl nxt"
    and crc: "crc_present i (slot_with i EF_STATUS_USED pl nxt)" and len: "length data \<le> 48"
  obtains db' where "ef_write_payload db i (Some data) (of_nat (length data)) = (EF_OK, db')" "session db' n ids"
    "puts db db' i (slot_with i EF_STATUS_USED (pad48 data) nxt)"
proof -
  note f = session_facts[OF s]
  define b where "b = ef_set_error db EF_OK"
  have sb: "session b n ids" unfolding b_def by (rule session_error[OF s])
  note fb = session_facts[OF sb]
  have v: "EF_SCHEMA_VERSION \<le> schema_version (sb b)" "mapped b" using fb by simp_all
  define a where "a = upd_mem (\<lambda>m. store_bytes m (db_slot_ptr b i + 8) data) b"
  define c where "c = (if length data < 48 then upd_mem (\<lambda>m. mem_set m (db_slot_ptr b i + 8 + length data) 0 (48 - length data)) a else a)"
  have C: "puts b c i ((db_slot b i)\<lparr>payload := pad48 data\<rparr>)" unfolding c_def a_def by (rule puts_pad[OF fb(2) len])
  define d where "d = ef_slot_status_store c (db_slot_ptr c i) EF_STATUS_USED"
  have D: "puts b d i ((db_slot b i)\<lparr>payload := pad48 data, status := EF_STATUS_USED\<rparr>)"
    unfolding d_def using puts_trans[OF C puts_status[OF puts_wf[OF C fb(2)]]] puts_slot[OF C, of i] by simp
  define e where "e = ef_slot_header_crc_store d i (db_slot_ptr d i)"
  have E: "puts b e i (seal d i (db_slot d i))" unfolding e_def by (rule puts_trans[OF D puts_crc[OF puts_wf[OF D fb(2)]]])
  have sd: "session d n ids" by (rule session_puts[OF sb D i(2)])
  have E': "puts b (ef_set_error e EF_OK) i (slot_with i EF_STATUS_USED (pad48 data) nxt)"
    using puts_error[OF E] unfolding session_slot[OF sd] by (simp add: puts_slot[OF D]) (simp add: b_def slot)
  have n: "unat (of_nat (length data) :: u8) = length data" using len by (simp add: unat_of_nat take_bit_nat_eq_self)
  have pos: "0 < (of_nat (length data) :: u8) \<longleftrightarrow> data \<noteq> []" using n by (simp add: word_less_nat_alt)
  have sl: "slots_base c = slots_base b" "slots_base d = slots_base b"
    using touches_layout[of b c "{i}"] touches_layout[of b d "{i}"] C D by (simp_all add: puts_def same_layout_def)
  have peek: "ef_peek_slot db i = (Some (db_slot_ptr b i), b)" using peek_ok[of db i] f(4,8) i(1) by (simp add: b_def)
  have st: "status (db_slot b i) = EF_STATUS_USED" using slot by (simp add: b_def)
  have val: "ef_slot_header_crc_valid b i (db_slot b i)" using session_valid(2)[OF sb _ crc] slot by (simp add: b_def)
  have "ef_write_payload db i (Some data) (of_nat (length data)) = (EF_OK, ef_set_error e EF_OK)"
    unfolding ef_write_payload_def
    using f(6,8) fb(7) peek i(1) f(4) len val st
    by (cases "data = []") (simp_all add: pos a_def store_bytes_none ef_db_require_write_def Let_def n v5_payload[OF v] v5_payload(2)[of db] f(9) EF_PAYLOAD_SIZE_def
        ef_txn_active_def e_def d_def c_def sl ef_status_defs)
  moreover have "puts db (ef_set_error e EF_OK) i (slot_with i EF_STATUS_USED (pad48 data) nxt)"
    using E' touches_trans[OF touches_error[of db EF_OK "{}"], of "ef_set_error e EF_OK" "{i}" "{i}"] by (simp add: puts_def b_def)
  moreover have "session (ef_set_error e EF_OK) n ids" by (rule session_puts[OF sb E' i(2)])
  ultimately show thesis using that by blast
qed

text \<open>Setting the link of a slot that has none.\<close>

lemma session_link:
  assumes s: "session db n ids" and i: "i < n" "i \<notin> set ids" and slot: "db_slot db i = slot_with i EF_STATUS_USED pl 0"
    and crc: "crc_present i (slot_with i EF_STATUS_USED pl 0)" and j: "j < n"
  obtains db' where "ef_set_next_offset db i (ef_slot_to_offset db j) = (EF_OK, db')" "session db' n ids"
    "puts db db' i (slot_with i EF_STATUS_USED pl (ef_slot_to_offset db j))"
proof -
  note f = session_facts[OF s]
  define b where "b = ef_set_error db EF_OK"
  have sb: "session b n ids" unfolding b_def by (rule session_error[OF s])
  note fb = session_facts[OF sb]
  let ?o = "ef_slot_to_offset db j"
  define c where "c = ef_slot_next_offset_store b (db_slot_ptr b i) ?o"
  have C: "puts b c i ((db_slot b i)\<lparr>next_offset := ?o\<rparr>)" unfolding c_def ef_slot_next_offset_store_def by (rule puts_next[OF fb(2)])
  define e where "e = ef_slot_header_crc_store c i (db_slot_ptr c i)"
  have E: "puts b e i (seal c i (db_slot c i))" unfolding e_def by (rule puts_trans[OF C puts_crc[OF puts_wf[OF C fb(2)]]])
  have E': "puts b (ef_set_error e EF_OK) i (slot_with i EF_STATUS_USED pl ?o)"
    using puts_error[OF E] unfolding session_slot[OF session_puts[OF sb C i(2)]] by (simp add: puts_slot[OF C]) (simp add: b_def slot)
  have get: "ef_get_slot db i = (Some (db_slot_ptr b i), b)" using session_get[OF s i(1) slot crc] by (simp add: b_def)
  have sl: "status (db_slot b i) = EF_STATUS_USED" "next_offset (db_slot b i) = 0" using slot by (simp_all add: b_def)
  have "ef_offset_to_slot_id b ?o = Inr j"
    using offset_to_slot_id_roundtrip[OF f(2), of j] j f(4) offset_cong(2)[of b db] by (simp add: b_def)
  moreover have "slots_base c = slots_base b" using touches_layout[of b c "{i}"] C by (simp add: puts_def same_layout_def)
  ultimately have "ef_set_next_offset db i ?o = (EF_OK, ef_set_error e EF_OK)"
    unfolding ef_set_next_offset_def using f(6) get sl fb(7) slot_offset_neq_0[OF f(2), of j] j f(4)
    by (simp add: ef_db_require_write_def ef_slot_has_overflow_chain_def ef_slot_next_offset_load_def ef_txn_active_def Let_def e_def c_def)
  moreover have "puts db (ef_set_error e EF_OK) i (slot_with i EF_STATUS_USED pl ?o)"
    using E' touches_trans[OF touches_error[of db EF_OK "{}"], of "ef_set_error e EF_OK" "{i}" "{i}"] by (simp add: puts_def b_def)
  moreover have "session (ef_set_error e EF_OK) n ids" by (rule session_puts[OF sb E' i(2)])
  ultimately show thesis using that by blast
qed

subsection \<open>Sync\<close>

lemma checksum_store_field: "\<exists>x. ef_sb_checksum_store m = set_sb_checksum m x"
  by (simp add: ef_sb_checksum_store_def) blast

lemma session_sync:
  assumes s: "session db n ids"
  obtains db' where "ef_sync_ex env db = (EF_OK, db')" "session db' n ids" "touches (db\<lparr>sb_meta_dirty := False\<rparr>) db' {}"
proof -
  note f = session_facts[OF s]
  have be: "backend db = EF_BACKEND_MEMORY" using s by (simp add: session_def)
  define a where "a = db\<lparr>sb_meta_dirty := False\<rparr>"
  obtain x where x: "ef_sb_checksum_store (mem db) = set_sb_checksum (mem db) x" using checksum_store_field by blast
  define d where "d = ef_set_error (if sb_meta_dirty db then a\<lparr>mem := set_sb_checksum (mem db) x\<rparr> else db) EF_OK"
  have run: "ef_sync_ex env db = (EF_OK, d)"
    using f(6,8) be by (simp add: ef_sync_ex_def ef_db_commit_meta_def ef_port_sync_def Let_def x d_def a_def ef_set_error_def)
  have t: "touches a d {}"
    using slot_base_64[OF f(2)] by (simp add: d_def a_def touches_def same_layout_def table_def)
  have "free_list_inv a ids = free_list_inv db ids" by (rule free_list_inv_cong) (simp_all add: a_def same_layout_def)
  moreover have "quiet a = quiet db" by (simp add: quiet_def a_def)
  ultimately have sa: "session a n ids" using s by (simp add: session_def) (simp add: a_def)
  obtain h k y where "sb a = new_sb n 0 h k y" using sa unfolding session_def by blast
  then have sbd: "sb d = new_sb n 0 h k (if sb_meta_dirty db then x else y)" by (simp add: d_def a_def new_sb_def)
  have "free_list_inv d ids = free_list_inv a ids"
    using sbd \<open>sb a = _\<close> touches_slot[OF t] by (intro free_list_inv_cong[OF touches_layout[OF t]]) (simp_all add: new_sb_def)
  then have "session d n ids" using session_facts(3)[OF sa] by (intro session_change[OF sa t sbd]) simp
  with run t that show thesis by (simp add: a_def)
qed

subsection \<open>Blobs\<close>

lemma session_blob:
  assumes s: "session db n ids" and i: "i < n" "i \<notin> set ids" and slot: "db_slot db i = slot_with i EF_STATUS_USED (replicate 48 0) 0"
    and crc: "\<forall>j \<in> set (i # take k ids). crc_present j fresh_slot"
    and k: "k = overflow_slots (length data - 40)" "k \<le> length ids" "length data < 2 ^ 32"
  obtains db' where "ef_write_blob env db i (Some data) (length data) = Some (EF_OK, db')" "session db' n (drop k ids)"
    "touches db db' (set (i # take k ids))" "blob_at db' i (take k ids) data"
proof -
  note f = session_facts[OF s]
  have c: "crc_present i (slot_with i EF_STATUS_USED (replicate 48 0) 0)"
    using crc crc_present_cong[of fresh_slot "slot_with i EF_STATUS_USED (replicate 48 0) 0" i] by (simp add: fresh_slot_def)
  have len: "length ids < 2 ^ 31" using session_length[OF s] s by (simp add: session_def)
  have "freeable db i [] ids"
    using f(1,3,4) i len slot session_unindexed[OF s] by (simp add: freeable_def free_list_inv_def)
  then have w: "blob_writable db i [] ids (length data)"
    using session_valid(2)[OF s slot c] crc k c
    by (simp add: blob_writable_def session_seal(2)[OF s] slot) (simp add: slot_with_def Let_def)
  obtain db' where d: "ef_write_blob env db i (Some data) (length data) = Some (EF_OK, db')"
    "touches db db' (set (i # [] @ take k (rev [] @ ids)))" "same_sb db db'" "free_list_inv db' (drop k (rev [] @ ids))"
    "blob_at db' i (take k (rev [] @ ids)) data"
    unfolding k(1) by (rule write_blob_ok[OF w, where env = env])
  have "session db' n (drop k ids)" using session_touches[OF s d(2,3)] d(4) by simp
  then show thesis using that[OF d(1)] d(2,5) by simp
qed

text \<open>Reading changes nothing but the last error.\<close>

definition only_error :: "ef_db \<Rightarrow> ef_db \<Rightarrow> bool" where
  "only_error db db' \<longleftrightarrow> (\<exists>e. db' = ef_set_error db e)"

lemma only_error_intros:
  "only_error db db" "only_error db d \<Longrightarrow> only_error db (ef_set_error d e)" "only_error db d \<Longrightarrow> only_error d d' \<Longrightarrow> only_error db d'"
proof -
  show "only_error db db" unfolding only_error_def by (rule exI[of _ "last_err db"]) (simp add: ef_set_error_def)
  show "only_error db d \<Longrightarrow> only_error db (ef_set_error d e)" "only_error db d \<Longrightarrow> only_error d d' \<Longrightarrow> only_error db d'"
    unfolding only_error_def by (auto simp: set_error_twice)
qed

lemma get_slot_error: "only_error db (snd (ef_get_slot db i))"
  using get_slot_result[of db i "fst (ef_get_slot db i)" "snd (ef_get_slot db i)"] by (simp add: only_error_def)

lemma read_loop_error: "only_error db (snd (read_loop db need cap off copied))"
proof (induction "need - copied" arbitrary: db off copied rule: less_induct)
  case less
  show ?case
  proof (cases "copied < need \<and> copied < cap \<and> off \<noteq> 0 \<and> 0 < ef_blob_overflow_chunk_cap db")
    case False
    then have "read_loop db need cap off copied = (Inr [], db)" by (subst read_loop.simps) (rule if_not_P)
    then show ?thesis by (simp add: only_error_intros)
  next
    case True
    obtain q d where g: "ef_get_slot db (projr (ef_offset_to_slot_id db off)) = (q, d)" by fastforce
    then have d: "only_error db d" using get_slot_error by (metis snd_conv)
    define n where "n = min (min (need - copied) (ef_blob_overflow_chunk_cap d)) (cap - copied)"
    have "ef_blob_overflow_chunk_cap d = ef_blob_overflow_chunk_cap db"
      using d by (auto simp: only_error_def ef_blob_overflow_chunk_cap_def)
    then have "need - (copied + n) < need - copied" unfolding n_def using True by (intro read_progress) simp_all
    then have rest: "only_error db (snd (read_loop d need cap off' (copied + n)))" for off'
      using only_error_intros(3)[OF d] less by blast
    show ?thesis
    proof (cases "isl (ef_offset_to_slot_id db off)")
      case False
      then have o: "ef_offset_to_slot_id db off = Inr (projr (ef_offset_to_slot_id db off))" by (simp add: sum.collapse(2))
      show ?thesis
        using True g d rest only_error_intros(2)
        by (subst read_loop.simps, subst o)
          (simp add: Let_def n_def split: option.split prod.split sum.split, metis snd_conv)
    qed (use True in \<open>subst read_loop.simps, auto simp: isl_def only_error_intros\<close>)
  qed
qed

lemma read_blob_error: "only_error db (snd (ef_read_blob db i cap))"
proof -
  obtain q d where g: "ef_get_slot db i = (q, d)" by fastforce
  then have d: "only_error db d" "only_error db (ef_set_error d e)" for e using get_slot_error only_error_intros(2) by (metis snd_conv)+
  have r: "only_error db db' \<and> only_error db (ef_set_error db' EF_OK)" if "read_loop d need bc off k = (r, db')" for need bc off k r db'
    using that read_loop_error[of d need bc off k] d(1) only_error_intros(2,3) by (metis snd_conv)
  show ?thesis
    unfolding ef_read_blob_def g using d r by (simp add: Let_def split: option.split prod.split sum.split)
qed

subsection \<open>Closing and opening again\<close>

lemma refresh_touches:
  assumes "wf_layout db"
  shows "touches db (fold refresh_slot_crc ks db) (of_nat ` set ks) \<and> sb (fold refresh_slot_crc ks db) = sb db"
  using assms
proof (induction ks arbitrary: db)
  case Nil
  show ?case by (simp add: touches_refl)
next
  case (Cons k ks)
  let ?d = "refresh_slot_crc k db"
  have t: "touches db ?d {of_nat k}" "sb ?d = sb db"
    using puts_crc[OF Cons.prems, of "of_nat k"] by (simp_all add: refresh_slot_crc_def puts_def touches_refl)
  have "wf_layout ?d" using Cons.prems same_layout_wf[OF touches_layout[OF t(1)]] by simp
  note IH = Cons.IH[OF this]
  have "touches db (fold refresh_slot_crc ks ?d) (of_nat ` set (k # ks))"
    by (rule touches_trans[OF t(1) conjunct1[OF IH]]) auto
  then show ?case using IH t(2) by simp
qed

text \<open>The checksums that the last step of an open computes.\<close>

lemma refresh_seals:
  assumes wf: "wf_layout db" and i: "i < max_slots (sb db)" and st: "ef_slot_status_has_crc (status (db_slot db i))"
  shows "sealed (ef_db_refresh_checksums db) i"
proof (cases "flags (sb db) AND EF_FLAG_SLOT_CRC = 0")
  case True
  then have "flags (sb (ef_db_refresh_checksums db)) AND EF_FLAG_SLOT_CRC = 0"
    using refresh_checksums_slots(2)[OF wf] by auto
  then show ?thesis by (simp add: sealed_def seal_def)
next
  case False
  let ?k = "unat i" and ?n = "unat (max_slots (sb db))"
  have k: "?k < ?n" using i by (simp add: word_less_nat_alt)
  then have split: "[0..<?n] = [0..<?k] @ ?k # [Suc ?k..<?n]"
    by (metis upt_add_eq_append upt_conv_Cons less_imp_le_nat le0 le_add_diff_inverse)
  define a where "a = fold refresh_slot_crc [0..<?k] db"
  define b where "b = refresh_slot_crc ?k a"
  define c where "c = fold refresh_slot_crc [Suc ?k..<?n] b"
  have a: "touches db a (of_nat ` {0..<?k})" "sb a = sb db" using refresh_touches[OF wf, of "[0..<?k]"] by (simp_all add: a_def)
  have wfa: "wf_layout a" using wf same_layout_wf[OF touches_layout[OF a(1)]] by simp
  have ne: "i \<noteq> of_nat j" if "j < ?n" "j \<noteq> ?k" for j
    using that unat_u64_bound[of "max_slots (sb db)"] by (auto simp: unat_of_nat_u64)
  have miss: "i \<notin> of_nat ` S" if "S \<subseteq> {..<?n} - {?k}" for S :: "nat set"
  proof
    assume "i \<in> of_nat ` S"
    then obtain j where "j \<in> S" "i = of_nat j" by blast
    then show False using ne[of j] that by blast
  qed
  have out: "i \<notin> of_nat ` {0..<?k}" "i \<notin> of_nat ` set [Suc ?k..<?n]" using k by (intro miss; auto)+
  have "db_slot a i = db_slot db i" by (rule touches_slot[OF a(1) out(1)])
  then have B: "puts a b i (seal a i (db_slot a i))"
    using puts_crc[OF wfa, of i] st by (simp add: b_def refresh_slot_crc_def)
  note C = refresh_touches[OF puts_wf[OF B wfa], of "[Suc ?k..<?n]", folded c_def]
  have slot: "db_slot c i = db_slot b i" by (rule touches_slot[OF conjunct1[OF C] out(2)])
  have "sealed b i" using B by (simp add: sealed_def puts_slot[OF B] flags_cong(1)[OF puts_flags[OF B]])
  then have sc: "sealed c i" using sealed_cong[of c b i] slot C by simp
  have run: "ef_db_refresh_checksums db = upd_mem ef_sb_checksum_store c"
    using wf False by (simp add: ef_db_refresh_checksums_def Let_def split a_def b_def c_def)
  obtain x where x: "ef_sb_checksum_store (mem c) = set_sb_checksum (mem c) x" using checksum_store_field by blast
  have "64 \<le> db_slot_ptr c i" using slot_base_64[OF puts_wf[OF B wfa], of i] touches_layout[OF conjunct1[OF C]] by (simp add: same_layout_def)
  then show ?thesis using sealed_cong[of "upd_mem ef_sb_checksum_store c" c i] sc by (simp add: run x)
qed

text \<open>The bytes of a superblock without an index.\<close>

definition sb_bytes :: "u64 \<Rightarrow> u64 \<Rightarrow> u32 \<Rightarrow> u8 list" where
  "sb_bytes n h k = [69, 78, 68, 70] @ le_bytes 4 (64 :: u32) @ le_bytes 8 n @ le_bytes 8 h @ le_bytes 4 EF_SCHEMA_VERSION @
     le_bytes 4 (EF_FLAG_SB_CRC OR EF_FLAG_SLOT_CRC) @ le_bytes 4 k @ [0, 0, 0, 0] @ replicate 24 0"

lemma load_bytes_split: "load_bytes m a (i + j) = load_bytes m a i @ load_bytes m (a + i) j"
  by (intro nth_equalityI) (auto simp: load_bytes_def nth_append)

lemma load_bytes_field:
  "load_bytes m a 8 = le_bytes 8 (load_u64 m a)" "load_bytes m a 4 = le_bytes 4 (load_u32 m a)"
  "load_bytes m a 2 = le_bytes 2 (load_u16 m a)" "load_bytes m a (Suc 0) = [load_u8 m a]"
  by (simp_all add: load_u64_def load_u32_def load_u16_def load_u8_def le_bytes_le_word del: le_bytes.simps) (simp add: load_bytes_def)

lemma le_bytes_zero: "le_bytes n 0 = replicate n 0"
  by (induction n) simp_all

lemma session_checksum:
  assumes "sb_of m = new_sb n 0 h k x"
  shows "ef_sb_checksum_compute m = crc_bytewise 0xFFFFFFFF (sb_bytes n h k) XOR 0xFFFFFFFF"
proof -
  have f: "load_bytes m 0 4 = [69, 78, 68, 70]" "load_u32 m 4 = 64" "load_u64 m 8 = n" "load_u64 m 16 = h"
    "load_u32 m 24 = EF_SCHEMA_VERSION" "load_u32 m 28 = EF_FLAG_SB_CRC OR EF_FLAG_SLOT_CRC" "load_u32 m 32 = k"
    "load_u64 m 40 = 0" "load_u64 m 48 = 0" "load_u16 m 56 = 0" "load_u8 m 58 = 0" "load_u8 m 59 = 0" "load_u8 m 60 = 0" "load_u8 m 61 = 0"
    "load_u16 m 62 = 0"
    using assms by (simp_all add: sb_of_def new_sb_def)
  have "load_bytes m 0 (4 + (4 + (8 + (8 + (4 + (4 + 4)))))) = [69, 78, 68, 70] @ le_bytes 4 (64 :: u32) @ le_bytes 8 n @ le_bytes 8 h @
      le_bytes 4 EF_SCHEMA_VERSION @ le_bytes 4 (EF_FLAG_SB_CRC OR EF_FLAG_SLOT_CRC) @ le_bytes 4 k"
    by (simp only: load_bytes_split f(1)) (simp add: load_bytes_field f(2-7) del: le_bytes.simps)
  moreover have "load_bytes m 40 (8 + (8 + (2 + (1 + (1 + (1 + (1 + 2))))))) = replicate 24 0"
    by (simp only: load_bytes_split) (simp add: load_bytes_field f(8-15) le_bytes_zero replicate_add[symmetric] replicate_Suc[symmetric]
        del: replicate_Suc)
  ultimately show ?thesis
    by (simp add: sb_checksum_compute_bytes sb_bytes_def del: le_bytes.simps)
qed

lemma session_sb:
  assumes "session db n ids"
  obtains x where "sb db = new_sb n 0 (case ids of [] \<Rightarrow> 0 | i # _ \<Rightarrow> ef_slot_to_offset db i) (of_nat (length ids)) x"
proof -
  obtain h k x where "sb db = new_sb n 0 h k x" using assms unfolding session_def by blast
  moreover have "free_list_head (sb db) = (case ids of [] \<Rightarrow> 0 | i # _ \<Rightarrow> ef_slot_to_offset db i)" "free_count (sb db) = of_nat (length ids)"
    using session_facts(3)[OF assms] by (auto simp: free_list_inv_def split: list.split)
  ultimately show thesis using that[of x] by (simp add: new_sb_def)
qed

lemma session_storable:
  assumes s: "session db n ids" and d: "sb_meta_dirty db"
    and c: "crc_bytewise 0xFFFFFFFF (sb_bytes n (case ids of [] \<Rightarrow> 0 | i # _ \<Rightarrow> ef_slot_to_offset db i) (of_nat (length ids))) \<noteq> 0xFFFFFFFF"
  shows "storable db"
proof -
  obtain x where sb: "sb db = new_sb n 0 (case ids of [] \<Rightarrow> 0 | i # _ \<Rightarrow> ef_slot_to_offset db i) (of_nat (length ids)) x"
    by (rule session_sb[OF s])
  have cs: "ef_sb_checksum_compute (mem db) \<noteq> 0" using c session_checksum[OF sb] xor_ones_inj[of _ "0xFFFFFFFF"] by simp
  have "ef_hash_capacity_from_sb (mem db) = 0" by (subst hash_capacity_v5) (simp_all add: sb new_sb_def)
  then show ?thesis
    using s d cs session_facts(2,6)[OF s] sb
    by (simp add: storable_def session_def new_sb_def ef_magic_valid_def ef_hash_capacity_valid_def EF_TXN_STATE_ACTIVE_def)
qed

text \<open>What a slot in use looks like after the database has been closed and opened again.\<close>

lemma session_reopen:
  assumes s: "session db n ids" and st: "storable db" and env: "env_calloc env" and size: "ef_expected_file_size n 0 4096 \<le> buffer_size"
  obtains db' where "ef_open_memory env (io_mem (ef_close db)) buffer_size n' False = Inr db'" "mapped db'" "max_slots (sb db') = n"
    "\<forall>i < n. \<forall>pl nxt. db_slot db i = slot_with i EF_STATUS_USED pl nxt \<and> crc_present i (slot_with i EF_STATUS_USED pl nxt) \<longrightarrow>
       ef_get_slot db' i = (Some (db_slot_ptr db i), ef_set_error db' EF_OK) \<and> payload (slot_at (mem db') (db_slot_ptr db i)) = pl"
    "schema_version (sb db') = EF_SCHEMA_VERSION"
proof -
  have fs: "file_size db \<le> buffer_size" "ef_hash_capacity_valid 0" using s size by (simp_all add: session_def ef_hash_capacity_valid_def)
  obtain d where run: "ef_open_memory_hash env (io_mem (ef_close db)) buffer_size n' 0 False =
      Inr (ef_set_error (snd (ef_rebuild_free_list d)) EF_OK)" and d: "mem d = io_mem (ef_close db)" "same_layout db d"
    by (rule open_existing[OF st env fs(2,1), where n = n'])
  let ?r = "snd (ef_rebuild_free_list d)"
  obtain m h c k where r: "?r = d\<lparr>mem := m\<rparr>" "sb_of m = (sb db)\<lparr>free_list_head := h, free_count := c, sb_checksum := k\<rparr>"
    and slots: "\<forall>j. status (slot_n ?r j) = status (slot_n db j) \<and> payload (slot_n ?r j) = payload (slot_n db j) \<and>
       (status (slot_n db j) \<noteq> EF_STATUS_FREE \<longrightarrow> next_offset (slot_n ?r j) = next_offset (slot_n db j))"
    by (rule reopened[OF st d])
  define e where "e = ef_set_error ?r EF_OK"
  have wf: "wf_layout db" "wf_layout d" using session_facts(2)[OF s] same_layout_wf[OF d(2)] by simp_all
  have lay: "same_layout db e" using d(2) r by (simp add: e_def same_layout_def)
  have n: "max_slots (sb db) = n" "max_slots (sb d) = n" "mapped e" "schema_version (sb e) = EF_SCHEMA_VERSION" "flags (sb e) = flags (sb db)"
    using session_facts(4,8,9)[OF s] d(2) lay r by (simp_all add: same_layout_def e_def)
  have v: "schema_version (sb d) \<noteq> 0" using image_facts(1)[OF st] by (simp add: d(1) ef_version_defs)
  have "ef_get_slot e i = (Some (db_slot_ptr db i), ef_set_error e EF_OK) \<and> payload (slot_at (mem e) (db_slot_ptr db i)) = pl"
    if i: "i < n" and slot: "db_slot db i = slot_with i EF_STATUS_USED pl nxt" and crc: "crc_present i (slot_with i EF_STATUS_USED pl nxt)" for i pl nxt
  proof -
    have base: "slots_base ?r = slots_base db" using lay by (simp add: e_def same_layout_def)
    have S: "status (db_slot ?r i) = EF_STATUS_USED" "payload (db_slot ?r i) = pl" "next_offset (db_slot ?r i) = nxt"
      using slots[rule_format, of "unat i"] slot by (simp_all add: ef_status_defs)
    obtain d3 where d3: "relinked d d3" "wf_layout d3" "?r = ef_db_refresh_checksums d3" by (rule rebuild_refreshes[OF wf(2) v])
    have "status (db_slot d3 i) = EF_STATUS_USED" "max_slots (sb d3) = n"
      using refresh_checksums_slots(1)[OF d3(2)] refresh_checksums_slots(3)[OF d3(2), of "unat i"] S(1) d3(3) lay n(1) by (simp_all add: e_def same_layout_def)
    then have "sealed ?r i" using refresh_seals[OF d3(2), of i] i by (simp add: d3(3) ef_slot_status_has_crc_def)
    moreover have "crc_ok ?r i (db_slot ?r i)"
      using crc crc_present_cong[of "db_slot ?r i" "slot_with i EF_STATUS_USED pl nxt" i] S n(5)
      by (simp add: session_seal(2)[OF s, symmetric] flags_cong(2)[of ?r db] e_def)
    ultimately have "ef_slot_header_crc_valid ?r i (db_slot ?r i)" by (rule sealed_valid)
    then have "ef_slot_header_crc_valid e i (db_slot e i)" by (simp add: e_def ef_slot_header_crc_valid_def)
    then have "ef_get_slot e i = (Some (db_slot_ptr e i), ef_set_error e EF_OK)"
      using i n lay by (intro get_slot_ok) (simp_all add: same_layout_def)
    then show ?thesis using base S(2) by (simp add: e_def)
  qed
  moreover have "ef_open_memory env (io_mem (ef_close db)) buffer_size n' False = Inr e" using run by (simp add: ef_open_memory_def e_def)
  moreover have "max_slots (sb e) = n" using lay n(1) by (simp add: same_layout_def)
  ultimately show thesis using that[of e] n(3,4) by blast
qed

subsection \<open>Creation and growth\<close>

lemma session_open:
  assumes "env_calloc env" "unat n < 2 ^ 31" "ef_expected_file_size n 0 4096 \<le> buffer_size"
  obtains db where "ef_open_memory env buffer buffer_size n True = Inr db" "session db n (map of_nat [0..<unat n])" "map_capacity db = buffer_size"
proof -
  have "ef_hash_capacity_valid 0" "unat n < 2 ^ 32" using assms(2) by (simp_all add: ef_hash_capacity_valid_def)
  then obtain d where run: "ef_open_memory_hash env buffer buffer_size n 0 True = Inr (ef_set_error d EF_OK)"
    and d: "fresh d n 0" "\<not> readonly d" "\<not> txn_active d" "hash_entry_count d = 0" "backend d = EF_BACKEND_MEMORY" "map_capacity d = buffer_size"
    by (rule open_memory_fresh[OF assms(1) _ _ assms(3)])
  let ?e = "ef_set_error d EF_OK"
  have f: "fresh ?e n 0" by (rule fresh_error[OF d(1)])
  have "ef_index_pick_shrink_capacity 0 0 = 0" by code_simp
  then have "quiet ?e" using f d(2-4) by (simp add: quiet_def fresh_def undo_area_ok_def)
  then have "session ?e n (map of_nat [0..<unat n])" using f d(5) assms(2) unfolding session_def fresh_def by simp
  then show thesis using that run d(6) by (simp add: ef_open_memory_def)
qed

lemma session_grow:
  assumes s: "session db n ids" and n: "n < n'" "unat n' < 2 ^ 31" and size: "131168 + 64 * unat n' \<le> unat (map_capacity db)"
  obtains db' where "ef_grow env db n' = (EF_OK, db')" "session db' n' (rev (map of_nat [unat n..<unat n']) @ ids)" "sb_meta_dirty db'"
    "\<forall>j < n. db_slot db' j = db_slot db j" "slots_base db' = slots_base db"
proof -
  note f = session_facts[OF s]
  have fit: "grow_fits db n'" using s n(1) size f(4) by (simp add: session_def grow_fits_def)
  have room: "length ids + (unat n' - unat (max_slots (sb db))) < 2 ^ 32" using session_length[OF s] n f(4) by (simp add: word_less_nat_alt)
  let ?g = "grow_start db n'" and ?new = "map of_nat [unat n..<unat n'] :: u64 list"
  obtain d db' where run: "ef_grow env db n' = (EF_OK, db')" and G: "grown ?g d ?new ids"
    and db': "db' = ef_set_error (ef_db_mark_meta_dirty d) EF_OK"
    unfolding f(4)[symmetric] by (rule grow_ok[OF f(3) fit f(6,7) room, where env = env])
  note g = grow_start_facts[OF f(2) fit]
  obtain m where d: "d = ?g\<lparr>mem := m\<rparr>" using G by (auto simp: grown_def)
  have sbd: "sb db' = sb d" by (simp add: db')
  obtain h c x where "sb d = new_sb n' 0 h c x"
    using G g(2) s by (auto simp: grown_def session_def new_sb_def)
  moreover have inv: "free_list_inv db' (rev ?new @ ids)"
    using G free_list_inv_cong[of d db' "rev ?new @ ids"] by (simp add: grown_def db' same_layout_def)
  moreover have fields: "hash_capacity db' = hash_capacity db" "file_size db' = ef_expected_file_size n' (hash_capacity db) (undo_log_slots db)"
    "backend db' = backend db" "undo_log_slots db' = undo_log_slots db" "readonly db' = readonly db" "txn_active db' = txn_active db"
    "hash_entry_count db' = hash_entry_count db" "slots_base db' = slots_base db" "mapped db' = mapped db"
    by (simp_all add: db' d grow_start_def Let_def)
  moreover have "wf_layout db'" using inv by (simp add: free_list_inv_def)
  ultimately have s': "session db' n' (rev ?new @ ids)"
    using s n(2) sbd by (auto simp: session_def quiet_def new_sb_def)
  have "flags (sb d) = 3" "\<not> readonly d" "mapped d"
    using session_facts(5,6,8)[OF s'] sbd by (simp_all add: db' EF_FLAG_SB_CRC_def EF_FLAG_SLOT_CRC_def)
  then have dirty: "sb_meta_dirty db'" by (simp add: db' ef_db_mark_meta_dirty_def EF_FLAG_SB_CRC_def)
  have "db_slot db' j = db_slot db j" if "j < n" for j
  proof -
    have "j \<notin> set ?new" using that unat_u64_bound[of n'] by (auto simp: word_less_nat_alt unat_of_nat take_bit_nat_eq_self)
    then show ?thesis using G g(4)[of j] f(4) that by (simp add: grown_def db')
  qed
  then show thesis using that run s' dirty fields(8) by blast
qed

end
