(* ===== verification/Crc_Eval.thy ===== *)
theory Crc_Eval
  imports Crc
begin

text \<open>
  Evaluation of the bit-serial CRC-32 by rewriting, four bits at a time: \<open>crc_nib\<close> is what four bit steps do.
\<close>

definition nib_table :: "u32 list" where
  "nib_table = [0, 498536548, 997073096, 651767980, 1994146192, 1802195444, 1303535960, 1342533948, 3988292384, 4027552580,
     3604390888, 3412177804, 2607071920, 2262029012, 2685067896, 3183342108]"

definition crc_nib :: "u32 \<Rightarrow> u32" where
  "crc_nib c = drop_bit 4 c XOR nib_table ! unat (c AND 15)"

lemma nib_table_eq: "\<forall>k \<in> set [0..<16]. (crc_bit ^^ 4) (of_nat k) = nib_table ! k"
  by code_simp

lemma crc_nib_eq: "(crc_bit ^^ 4) c = crc_nib c"
proof -
  have a: "c AND 15 = take_bit 4 c" by (simp add: take_bit_eq_mask mask_eq_exp_minus_1)
  have c: "c = take_bit 4 c XOR push_bit 4 (drop_bit 4 c)" by (rule bit_word_eqI) (auto simp: bit_simps)
  have "unat (take_bit 4 c) < 16" using take_bit_nat_less_exp[of 4 "unat c"] by (simp add: unsigned_take_bit_eq)
  then have "(crc_bit ^^ 4) (take_bit 4 c) = nib_table ! unat (c AND 15)"
    using bspec[OF nib_table_eq, of "unat (take_bit 4 c)"] by (simp add: a)
  moreover have "(crc_bit ^^ 4) (push_bit 4 (drop_bit 4 c)) = drop_bit 4 c"
    by (subst crc_bits_shift, simp add: take_bit_push_bit) (rule bit_word_eqI, auto simp: bit_simps dest: bit_imp_le_length)
  ultimately show ?thesis by (subst c) (simp only: crc_bits_xor crc_nib_def, simp add: ac_simps)
qed

lemma crc_byte_nib: "crc_byte c b = crc_nib (crc_nib (c XOR ucast b))"
proof -
  have "(crc_bit ^^ 8) x = (crc_bit ^^ 4) ((crc_bit ^^ 4) x)" for x using funpow_add[of 4 4 crc_bit] by simp
  then show ?thesis by (simp add: crc_byte_def crc_nib_eq)
qed

lemma crc_bytewise_Cons: "crc_bytewise c (b # bs) = crc_bytewise (crc_nib (crc_nib (c XOR ucast b))) bs"
  by (simp add: crc_bytewise_def crc_byte_nib)

lemma crc_eval_zeros:
  "crc_bytewise c (replicate (numeral n) 0 @ bs) = crc_bytewise (crc_nib (crc_nib c)) (replicate (pred_numeral n) 0 @ bs)"
  "crc_bytewise c (replicate (numeral n) 0) = crc_bytewise (crc_nib (crc_nib c)) (replicate (pred_numeral n) 0)"
  by (simp_all add: numeral_eq_Suc crc_bytewise_Cons)

lemma crc_bytewise_Nil: "crc_bytewise c [] = c"
  by (simp add: crc_bytewise_def)

lemmas crc_eval = crc_bytewise_Cons crc_eval_zeros crc_bytewise_Nil crc_nib_def nib_table_def

end
