(* ===== verification/Embedded.thy ===== *)
theory Embedded
  imports Session Crc_Eval
begin

text \<open>
  The self-test program \<^verbatim>\<open>main_embedded.c\<close>: two static arenas, which start as zero bytes, and the
  public interface used one call after the other. What is printed is left out; what counts is the
  number of failed expectations and the exit code. \<open>None\<close> stands for a run that has no defined
  result: a call that does not return, or a string comparison on a null pointer. \<open>env k\<close> is what the
  operating system answers to the \<open>k\<close>-th open and to the calls that follow it, and \<open>out0\<close> what the
  uninitialised local buffer holds.
\<close>

definition expect_true :: "bool \<Rightarrow> nat \<Rightarrow> nat" where
  "expect_true cond failures = (if \<not> cond then failures + 1 else failures)"

definition expect_err :: "ef_err \<Rightarrow> ef_err \<Rightarrow> nat \<Rightarrow> nat" where
  "expect_err got want failures = (if got \<noteq> want then failures + 1 else failures)"

text \<open>\<^verbatim>\<open>strcmp(p, lit) == 0\<close> for a literal without zero bytes.\<close>

definition strcmp_eq :: "mem \<Rightarrow> nat \<Rightarrow> u8 list \<Rightarrow> bool" where
  "strcmp_eq m p lit \<longleftrightarrow> load_bytes m p (length lit + 1) = lit @ [0]"

text \<open>An error code and the out-parameter of a call, which keeps its old value on an error.\<close>

definition with_out :: "(ef_err + 'a) \<Rightarrow> 'a \<Rightarrow> ef_err \<times> 'a" where
  "with_out r old = (case r of Inl err \<Rightarrow> (err, old) | Inr v \<Rightarrow> (EF_OK, v))"

definition lit_head :: "u8 list" where "lit_head = [0x68, 0x65, 0x61, 0x64]"
definition lit_tail :: "u8 list" where "lit_tail = [0x74, 0x61, 0x69, 0x6C]"
definition lit_grown :: "u8 list" where "lit_grown = [0x67, 0x72, 0x6F, 0x77, 0x6E]"

definition EF_UNDO_LOG_DEFAULT_BYTES :: u64 where
  "EF_UNDO_LOG_DEFAULT_BYTES = 32 + of_nat EF_UNDO_LOG_DEFAULT_SLOTS * 32"

definition arena_size :: u64 where "arena_size = 64 + 32 * 64 + EF_UNDO_LOG_DEFAULT_BYTES"
definition grow_arena_size :: u64 where "grow_arena_size = 64 + 16 * 64 + EF_UNDO_LOG_DEFAULT_BYTES"

subsection \<open>Slots, links and the chase\<close>

text \<open>From the open of the arena to the first link; the result has both ids.\<close>

definition embedded_slots :: "ef_db \<Rightarrow> nat \<Rightarrow> nat \<times> u64 \<times> u64 \<times> ef_db" where
  "embedded_slots db failures =
     (let failures = expect_true (backend db = EF_BACKEND_MEMORY) failures;
          failures = expect_true (ef_count_free_slots db = 32) failures;
          (r, db) = ef_alloc_slot db;
          (err, id0) = with_out r 0;
          failures = expect_err err EF_OK failures;
          (err, db) = ef_write_payload db id0 (Some lit_head) 4;
          failures = expect_err err EF_OK failures;
          (r, db) = ef_alloc_slot db;
          (err, id1) = with_out r 0;
          failures = expect_err err EF_OK failures;
          (err, db) = ef_write_payload db id1 (Some lit_tail) 4;
          failures = expect_err err EF_OK failures;
          (err, db) = ef_set_next_offset db id0 (ef_slot_to_offset db id1);
          failures = expect_err err EF_OK failures
      in (failures, id0, id1, db))"

definition embedded_chase :: "ef_env \<Rightarrow> u64 \<Rightarrow> u64 \<Rightarrow> ef_db \<Rightarrow> nat \<Rightarrow> (nat \<times> ef_db) option" where
  "embedded_chase env id0 id1 db failures =
     (let (r, db) = ef_chase_n db (ef_slot_to_offset db id0) 1;
          failures = expect_true (r \<noteq> None) failures;
          hops = (case r of None \<Rightarrow> 0 | Some (_, n) \<Rightarrow> n);
          failures = expect_true (hops = 1) failures
      in (case r of
            None \<Rightarrow> None
          | Some (p, _) \<Rightarrow>
              let failures = expect_true (strcmp_eq (mem db) (ef_slot_payload_ptr db p) lit_tail) failures;
                  (s0, db) = ef_get_slot db id0;
                  (both, db) = (if s0 \<noteq> None then (case ef_get_slot db id1 of (s1, db) \<Rightarrow> (s1 \<noteq> None, db)) else (False, db));
                  failures = expect_true both failures;
                  (err, db) = ef_set_next_offset db id1 (ef_slot_to_offset db id0);
                  failures = expect_err err EF_OK failures;
                  (_, db) = ef_chase_n db (ef_slot_to_offset db id0) 4;
                  failures = expect_err (ef_last_error db) EF_ERR_CHASE_CYCLE failures;
                  (err, db) = ef_sync_ex env db;
                  failures = expect_err err EF_OK failures
              in Some (failures, db)))"

subsection \<open>The blob\<close>

definition blob_data :: "u8 list" where
  "blob_data = map (\<lambda>i. 0xA0 + (of_nat i AND 0x0F)) [0..<72]"

definition embedded_blob :: "ef_env \<Rightarrow> u8 list \<Rightarrow> ef_db \<Rightarrow> nat \<Rightarrow> (nat \<times> ef_db) option" where
  "embedded_blob env out0 db failures =
     (let (r, db) = ef_alloc_slot db;
          (err, blob_id) = with_out r 0;
          failures = expect_err err EF_OK failures
      in (case ef_write_blob env db blob_id (Some blob_data) 72 of
            None \<Rightarrow> None
          | Some (err, db) \<Rightarrow>
              let failures = expect_err err EF_OK failures;
                  (r, db) = ef_read_blob db blob_id (Some 72);
                  (err, out_len, bytes) = with_out r (0, []);
                  out = bytes @ drop (length bytes) out0;
                  failures = expect_err err EF_OK failures;
                  failures = expect_true (out_len = 72) failures;
                  failures = expect_true (out = blob_data) failures
              in Some (failures, db)))"

subsection \<open>Growth, and opening again\<close>

definition embedded_reopened_grown :: "ef_env \<Rightarrow> mem \<Rightarrow> u64 \<Rightarrow> nat \<Rightarrow> nat option" where
  "embedded_reopened_grown env arena seed_id failures =
     (case ef_open_memory env arena grow_arena_size 4 False of
        Inl err \<Rightarrow> Some (expect_err err EF_OK failures)
      | Inr db \<Rightarrow>
          let failures = expect_err EF_OK EF_OK failures;
              failures = expect_true (max_slots (sb db) = 12) failures
          in (case ef_get_slot db seed_id of
                (None, db) \<Rightarrow> None
              | (Some p, db) \<Rightarrow> Some (expect_true (strcmp_eq (mem db) (ef_slot_payload_ptr db p) lit_grown) failures)))"

definition embedded_grow :: "(nat \<Rightarrow> ef_env) \<Rightarrow> nat \<Rightarrow> nat option" where
  "embedded_grow env failures =
     (case ef_open_memory (env 1) (\<lambda>_. 0) grow_arena_size 4 True of
        Inl err \<Rightarrow> Some (expect_err err EF_OK failures)
      | Inr db \<Rightarrow>
          let failures = expect_err EF_OK EF_OK failures;
              (r, db) = ef_alloc_slot db;
              (err, seed_id) = with_out r 0;
              failures = expect_err err EF_OK failures;
              (err, db) = ef_write_payload db seed_id (Some lit_grown) 5;
              failures = expect_err err EF_OK failures;
              (err, db) = ef_grow (env 1) db 12;
              failures = expect_err err EF_OK failures;
              failures = expect_true (max_slots (sb db) = 12) failures;
              (r, db) = ef_alloc_slot db;
              (err, grown_id) = with_out r 0;
              failures = expect_err err EF_OK failures;
              failures = expect_true (grown_id = 11) failures
          in embedded_reopened_grown (env 2) (io_mem (ef_close db)) seed_id failures)"

definition embedded_reopen :: "ef_env \<Rightarrow> mem \<Rightarrow> u64 \<Rightarrow> nat \<Rightarrow> nat option" where
  "embedded_reopen env arena id0 failures =
     (case ef_open_memory env arena arena_size 32 False of
        Inl err \<Rightarrow> Some (expect_err err EF_OK failures)
      | Inr db \<Rightarrow>
          let failures = expect_err EF_OK EF_OK failures
          in (case ef_get_slot db id0 of
                (None, db) \<Rightarrow> None
              | (Some p, db) \<Rightarrow> Some (expect_true (strcmp_eq (mem db) (ef_slot_payload_ptr db p) lit_head) failures)))"

subsection \<open>The program\<close>

definition main_embedded :: "(nat \<Rightarrow> ef_env) \<Rightarrow> u8 list \<Rightarrow> nat option" where
  "main_embedded env out0 =
     (case ef_open_memory (env 0) (\<lambda>_. 0) arena_size 32 True of
        Inl err \<Rightarrow> Some 1
      | Inr db \<Rightarrow>
          let failures = expect_err EF_OK EF_OK 0;
              (failures, id0, id1, db) = embedded_slots db failures
          in (case embedded_chase (env 0) id0 id1 db failures of
                None \<Rightarrow> None
              | Some (failures, db) \<Rightarrow>
                  (case embedded_blob (env 0) out0 db failures of
                     None \<Rightarrow> None
                   | Some (failures, db) \<Rightarrow>
                       (case embedded_grow env failures of
                          None \<Rightarrow> None
                        | Some failures \<Rightarrow>
                            (case embedded_reopen (env 3) (io_mem (ef_close db)) id0 failures of
                               None \<Rightarrow> None
                             | Some failures \<Rightarrow> Some (if failures \<noteq> 0 then 1 else 0))))))"

subsection \<open>Checksums of the run\<close>

lemma crc_present_bytes:
  assumes "\<not> ef_slot_status_uses_link_crc st"
  shows "crc_present i (slot_with i st pl nxt) \<longleftrightarrow>
    crc_bytewise 0xFFFFFFFF (le_bytes 8 i @ le_bytes 4 st @ pl @ le_bytes 8 nxt) \<noteq> 0xFFFFFFFF"
  using assms xor_ones_inj[of "crc_bytewise 0xFFFFFFFF (le_bytes 8 i @ le_bytes 4 st @ pl @ le_bytes 8 nxt)" "0xFFFFFFFF"]
  by (simp add: crc_present_def ef_slot_header_crc_compute_def slot_crc_full_bytes)

lemma used_bytes:
  "crc_present i (slot_with i EF_STATUS_USED pl nxt) \<longleftrightarrow>
    crc_bytewise 0xFFFFFFFF (le_bytes 8 i @ le_bytes 4 EF_STATUS_USED @ pl @ le_bytes 8 nxt) \<noteq> 0xFFFFFFFF"
  by (rule crc_present_bytes) (simp add: ef_slot_status_uses_link_crc_def ef_status_defs)

lemma crc_fresh:
  "crc_present 0 (slot_with 0 EF_STATUS_USED (replicate 48 0) 0)" "crc_present 1 (slot_with 1 EF_STATUS_USED (replicate 48 0) 0)"
  "crc_present 2 (slot_with 2 EF_STATUS_USED (replicate 48 0) 0)" "crc_present 3 (slot_with 3 EF_STATUS_USED (replicate 48 0) 0)"
proof -
  have b: "le_bytes 8 (0 :: u64) @ le_bytes 4 EF_STATUS_USED @ replicate 48 0 @ le_bytes 8 (0 :: u64) = replicate 8 0 @ [1] @ replicate 59 0"
    "le_bytes 8 (1 :: u64) @ le_bytes 4 EF_STATUS_USED @ replicate 48 0 @ le_bytes 8 (0 :: u64) = [1] @ replicate 7 0 @ [1] @ replicate 59 0"
    "le_bytes 8 (2 :: u64) @ le_bytes 4 EF_STATUS_USED @ replicate 48 0 @ le_bytes 8 (0 :: u64) = [2] @ replicate 7 0 @ [1] @ replicate 59 0"
    "le_bytes 8 (3 :: u64) @ le_bytes 4 EF_STATUS_USED @ replicate 48 0 @ le_bytes 8 (0 :: u64) = [3] @ replicate 7 0 @ [1] @ replicate 59 0"
    by code_simp+
  show "crc_present 0 (slot_with 0 EF_STATUS_USED (replicate 48 0) 0)" "crc_present 1 (slot_with 1 EF_STATUS_USED (replicate 48 0) 0)"
    "crc_present 2 (slot_with 2 EF_STATUS_USED (replicate 48 0) 0)" "crc_present 3 (slot_with 3 EF_STATUS_USED (replicate 48 0) 0)"
    unfolding used_bytes b by (simp_all add: crc_eval)
qed

lemma crc_head:
  "crc_present 0 (slot_with 0 EF_STATUS_USED (pad48 lit_head) 0)" "crc_present 0 (slot_with 0 EF_STATUS_USED (pad48 lit_head) 128)"
proof -
  have b: "le_bytes 8 (0 :: u64) @ le_bytes 4 EF_STATUS_USED @ pad48 lit_head @ le_bytes 8 (0 :: u64) =
      replicate 8 0 @ [1, 0, 0, 0, 0x68, 0x65, 0x61, 0x64] @ replicate 52 0"
    "le_bytes 8 (0 :: u64) @ le_bytes 4 EF_STATUS_USED @ pad48 lit_head @ le_bytes 8 (128 :: u64) =
      replicate 8 0 @ [1, 0, 0, 0, 0x68, 0x65, 0x61, 0x64] @ replicate 44 0 @ [128] @ replicate 7 0"
    by code_simp+
  show "crc_present 0 (slot_with 0 EF_STATUS_USED (pad48 lit_head) 0)" "crc_present 0 (slot_with 0 EF_STATUS_USED (pad48 lit_head) 128)"
    unfolding used_bytes b by (simp_all add: crc_eval)
qed

lemma crc_tail: "crc_present 1 (slot_with 1 EF_STATUS_USED (pad48 lit_tail) 0)"
proof -
  have b: "le_bytes 8 (1 :: u64) @ le_bytes 4 EF_STATUS_USED @ pad48 lit_tail @ le_bytes 8 (0 :: u64) =
      [1] @ replicate 7 0 @ [1, 0, 0, 0, 0x74, 0x61, 0x69, 0x6C] @ replicate 52 0"
    by code_simp
  show ?thesis unfolding used_bytes b by (simp add: crc_eval)
qed

lemma crc_grown: "crc_present 0 (slot_with 0 EF_STATUS_USED (pad48 lit_grown) 0)"
proof -
  have b: "le_bytes 8 (0 :: u64) @ le_bytes 4 EF_STATUS_USED @ pad48 lit_grown @ le_bytes 8 (0 :: u64) =
      replicate 8 0 @ [1, 0, 0, 0, 0x67, 0x72, 0x6F, 0x77, 0x6E] @ replicate 51 0"
    by code_simp
  show ?thesis unfolding used_bytes b by (simp add: crc_eval)
qed

text \<open>The two slots of the blob.\<close>

definition blob_head :: "u8 list" where
  "blob_head = le_bytes 4 EF_BLOB_MAGIC @ le_bytes 4 (72 :: u32) @ take 40 blob_data"

lemma crc_blob_head: "crc_present 2 (slot_with 2 EF_STATUS_USED blob_head 256)"
proof -
  have b: "le_bytes 8 (2 :: u64) @ le_bytes 4 EF_STATUS_USED @ blob_head @ le_bytes 8 (256 :: u64) =
      [2, 0, 0, 0, 0, 0, 0, 0, 1, 0, 0, 0, 0x42, 0x4C, 0x4F, 0x42, 72, 0, 0, 0,
       0xA0, 0xA1, 0xA2, 0xA3, 0xA4, 0xA5, 0xA6, 0xA7, 0xA8, 0xA9, 0xAA, 0xAB, 0xAC, 0xAD, 0xAE, 0xAF,
       0xA0, 0xA1, 0xA2, 0xA3, 0xA4, 0xA5, 0xA6, 0xA7, 0xA8, 0xA9, 0xAA, 0xAB, 0xAC, 0xAD, 0xAE, 0xAF,
       0xA0, 0xA1, 0xA2, 0xA3, 0xA4, 0xA5, 0xA6, 0xA7, 0, 1, 0, 0, 0, 0, 0, 0]"
    by code_simp
  show ?thesis unfolding used_bytes b by (simp add: crc_eval)
qed

lemma crc_blob_rest: "crc_present 3 (slot_with 3 EF_STATUS_OVERFLOW (pad48 (take 48 (drop 40 blob_data))) 0)"
proof -
  have b: "le_bytes 8 (3 :: u64) @ le_bytes 4 EF_STATUS_OVERFLOW @ pad48 (take 48 (drop 40 blob_data)) @ le_bytes 8 (0 :: u64) =
      [3, 0, 0, 0, 0, 0, 0, 0, 2, 0, 0, 0,
       0xA8, 0xA9, 0xAA, 0xAB, 0xAC, 0xAD, 0xAE, 0xAF,
       0xA0, 0xA1, 0xA2, 0xA3, 0xA4, 0xA5, 0xA6, 0xA7, 0xA8, 0xA9, 0xAA, 0xAB, 0xAC, 0xAD, 0xAE, 0xAF,
       0xA0, 0xA1, 0xA2, 0xA3, 0xA4, 0xA5, 0xA6, 0xA7] @ replicate 24 0"
    by code_simp
  have "\<not> ef_slot_status_uses_link_crc EF_STATUS_OVERFLOW" by (simp add: ef_slot_status_uses_link_crc_def ef_status_defs)
  then show ?thesis unfolding crc_present_bytes b by (simp add: crc_eval crc_present_bytes b)
qed

text \<open>The two superblocks as they are closed.\<close>

lemma crc_superblocks:
  "crc_bytewise 0xFFFFFFFF (sb_bytes 32 320 28) \<noteq> 0xFFFFFFFF" "crc_bytewise 0xFFFFFFFF (sb_bytes 12 704 10) \<noteq> 0xFFFFFFFF"
proof -
  have b: "sb_bytes 32 320 28 = [69, 78, 68, 70, 64, 0, 0, 0, 32, 0, 0, 0, 0, 0, 0, 0, 64, 1, 0, 0, 0, 0, 0, 0, 5, 0, 0, 0, 3, 0, 0, 0, 28] @ replicate 31 0"
    "sb_bytes 12 704 10 = [69, 78, 68, 70, 64, 0, 0, 0, 12, 0, 0, 0, 0, 0, 0, 0, 192, 2, 0, 0, 0, 0, 0, 0, 5, 0, 0, 0, 3, 0, 0, 0, 10] @ replicate 31 0"
    by code_simp+
  show "crc_bytewise 0xFFFFFFFF (sb_bytes 32 320 28) \<noteq> 0xFFFFFFFF" "crc_bytewise 0xFFFFFFFF (sb_bytes 12 704 10) \<noteq> 0xFFFFFFFF"
    unfolding b by (simp_all add: crc_eval)
qed

end
