(* ===== verification/Embedded_Props.thy ===== *)
theory Embedded_Props
  imports Embedded
begin

text \<open>The self-test program run call by call: no expectation fails.\<close>

lemma session_base: "session db n ids \<Longrightarrow> slots_base db = 64"
  by (auto simp: session_def quiet_def wf_layout_def layout_ok_def)

lemma session_offset: "session db n ids \<Longrightarrow> i < n \<Longrightarrow> ef_slot_to_offset db i = 64 + push_bit 6 i"
  using session_base[of db n ids] session_facts(4,8)[of db n ids] by (simp add: ef_slot_to_offset_def leD)

lemma session_head: "session db n (i # ids) \<Longrightarrow> i < n \<and> i \<notin> set ids"
  using session_facts(3,4)[of db n "i # ids"] free_list_inv_head(2,5)[of db i ids] by auto

lemma session_payload_ptr: "session db n ids \<Longrightarrow> ef_slot_payload_ptr db p = p + 8"
  using session_facts(8,9)[of db n ids] v5_payload(1)[of db] by simp

lemma expect_ok [simp]: "expect_true True f = f" "expect_err e e f = f"
  by (simp_all add: expect_true_def expect_err_def)

lemma strcmp_payload:
  assumes "payload (slot_at m p) = pad48 lit" "length lit < 48"
  shows "strcmp_eq m (p + 8) lit"
  using assms payload_bytes[of "length lit + 1" m p] by (simp add: strcmp_eq_def pad48_def)

lemma with_out_simps [simp]: "with_out (Inl e) v = (e, v)" "with_out (Inr w) v = (EF_OK, w)"
  by (simp_all add: with_out_def)

definition linked_pair :: "ef_db \<Rightarrow> u64 list \<Rightarrow> u64 \<Rightarrow> bool" where
  "linked_pair db ids nxt \<longleftrightarrow>
     session db 32 ids \<and> distinct (0 # 1 # ids) \<and> db_slot db 0 = slot_with 0 EF_STATUS_USED (pad48 lit_head) 128 \<and>
     db_slot db 1 = slot_with 1 EF_STATUS_USED (pad48 lit_tail) nxt"

lemma slots_run:
  assumes s: "session db 32 (0 # 1 # ids)" and len: "length ids = 30"
  obtains db' where "embedded_slots db 0 = (0, 0, 1, db')" "linked_pair db' ids 0"
proof -
  have i: "0 \<notin> set (1 # ids)" using session_head[OF s] by simp
  obtain x where sb: "sb db = new_sb 32 0 (ef_slot_to_offset db 0) (of_nat (length (0 # 1 # ids))) x" using session_sb[OF s] by auto
  obtain d1 where d1: "ef_alloc_slot db = (Inr 0, d1)" "session d1 32 (1 # ids)" "db_slot d1 0 = slot_with 0 EF_STATUS_USED (replicate 48 0) 0"
    by (rule session_alloc[OF s])
  obtain d2 where d2: "ef_write_payload d1 0 (Some lit_head) (of_nat (length lit_head)) = (EF_OK, d2)" "session d2 32 (1 # ids)"
    "puts d1 d2 0 (slot_with 0 EF_STATUS_USED (pad48 lit_head) 0)"
    using session_payload[OF d1(2) _ i d1(3) crc_fresh(1), of lit_head] by (auto simp: lit_head_def)
  obtain d3 where d3: "ef_alloc_slot d2 = (Inr 1, d3)" "session d3 32 ids" "touches d2 d3 {1}"
    "db_slot d3 1 = slot_with 1 EF_STATUS_USED (replicate 48 0) 0"
    by (rule session_alloc[OF d2(2)])
  have j: "1 \<notin> set ids" using session_head[OF d2(2)] by simp
  obtain d4 where d4: "ef_write_payload d3 1 (Some lit_tail) (of_nat (length lit_tail)) = (EF_OK, d4)" "session d4 32 ids"
    "puts d3 d4 1 (slot_with 1 EF_STATUS_USED (pad48 lit_tail) 0)"
    using session_payload[OF d3(2) _ j d3(4) crc_fresh(2), of lit_tail] by (auto simp: lit_tail_def)
  have s0: "db_slot d4 0 = slot_with 0 EF_STATUS_USED (pad48 lit_head) 0"
    using puts_slot[OF d4(3), of 0] touches_slot[OF d3(3), of 0] puts_slot[OF d2(3), of 0] by simp
  have i': "0 \<notin> set ids" using i by simp
  obtain d5 where d5: "ef_set_next_offset d4 0 (ef_slot_to_offset d4 1) = (EF_OK, d5)" "session d5 32 ids"
    "puts d4 d5 0 (slot_with 0 EF_STATUS_USED (pad48 lit_head) (ef_slot_to_offset d4 1))"
    by (rule session_link[OF d4(2) _ i' s0 crc_head(1), of 1]) simp_all
  have off: "ef_slot_to_offset d4 1 = 128" using session_offset[OF d4(2), of 1] by (simp add: push_bit_eq_mult)
  have "linked_pair d5 ids 0"
    using d5(2) i j puts_slot[OF d5(3), of 0] puts_slot[OF d5(3), of 1] puts_slot[OF d4(3), of 1] session_facts(3)[OF d5(2)]
    by (simp add: linked_pair_def off free_list_inv_def)
  moreover have "backend db = EF_BACKEND_MEMORY" "ef_count_free_slots db = 32"
    using s session_facts(8)[OF s] sb len by (simp_all add: session_def ef_count_free_slots_def ef_sb_free_count_load_def new_sb_def)
  ultimately show thesis
    using that d1(1) d2(1) d3(1) d4(1) d5(1) by (simp add: embedded_slots_def lit_head_def lit_tail_def)
qed

definition pair_walk :: "nat \<Rightarrow> u64" where
  "pair_walk k = (if even k then 0 else 1)"

lemma pair_path:
  assumes "linked_pair db ids nxt"
  shows "link_path db pair_walk 1" "nxt = 64 \<Longrightarrow> link_path db pair_walk n"
proof -
  have s: "session db 32 ids" and s0: "db_slot db 0 = slot_with 0 EF_STATUS_USED (pad48 lit_head) 128"
    and s1: "db_slot db 1 = slot_with 1 EF_STATUS_USED (pad48 lit_tail) nxt"
    using assms by (simp_all add: linked_pair_def)
  have off: "ef_slot_to_offset db 0 = 64" "ef_slot_to_offset db 1 = 128" "max_slots (sb db) = 32"
    using session_offset[OF s, of 0] session_offset[OF s, of 1] session_facts(4)[OF s] by (simp_all add: push_bit_eq_mult)
  have m: "pair_walk k < max_slots (sb db)" for k by (simp add: pair_walk_def off(3))
  have e: "status (db_slot db (pair_walk k)) = EF_STATUS_USED \<and> next_offset (db_slot db (pair_walk k)) = ef_slot_to_offset db (pair_walk (Suc k))"
    if "even k \<or> nxt = 64" for k
    using that s0 s1 off by (cases "even k") (simp_all add: pair_walk_def)
  show "link_path db pair_walk 1" unfolding link_path_def using m e[of 0] by auto
  show "link_path db pair_walk n" if "nxt = 64" unfolding link_path_def using m e that by blast
qed

lemma chase_run:
  assumes p: "linked_pair db ids 0"
  obtains db' where "embedded_chase env 0 1 db 0 = Some (0, db')" "linked_pair db' ids 64"
proof -
  have s: "session db 32 ids" and s0: "db_slot db 0 = slot_with 0 EF_STATUS_USED (pad48 lit_head) 128"
    and s1: "db_slot db 1 = slot_with 1 EF_STATUS_USED (pad48 lit_tail) 0" and i: "1 \<notin> set ids"
    using p by (simp_all add: linked_pair_def)
  note f = session_facts[OF s]
  define d1 where "d1 = ef_set_error db EF_OK"
  have c1: "ef_chase_n db (ef_slot_to_offset db 0) 1 = (Some (db_slot_ptr db 1, 1), d1)"
  proof -
    have inj: "inj_on pair_walk {..1}" by (auto simp: pair_walk_def inj_on_def le_Suc_eq)
    have "status (db_slot db (pair_walk 1)) = EF_STATUS_USED" "next_offset (db_slot db (pair_walk 1)) = 0"
      using s1 by (simp_all add: pair_walk_def)
    from chase_chain[OF f(2) pair_path(1)[OF p] inj _ this, of 1] show ?thesis by (simp add: pair_walk_def d1_def)
  qed
  have S1: "session d1 32 ids" "ef_set_error d1 EF_OK = d1" unfolding d1_def by (rule session_error[OF s]) (simp add: set_error_twice)
  have e: "db_slot d1 0 = slot_with 0 EF_STATUS_USED (pad48 lit_head) 128" "db_slot d1 1 = slot_with 1 EF_STATUS_USED (pad48 lit_tail) 0"
    "slots_base d1 = slots_base db"
    using s0 s1 by (simp_all add: d1_def)
  have str: "strcmp_eq (mem d1) (ef_slot_payload_ptr d1 (db_slot_ptr db 1)) lit_tail"
    unfolding session_payload_ptr[OF S1(1)] by (rule strcmp_payload) (use e(2,3) in \<open>simp_all add: lit_tail_def\<close>)
  have g: "ef_get_slot d1 0 = (Some (db_slot_ptr db 0), d1)" "ef_get_slot d1 1 = (Some (db_slot_ptr db 1), d1)"
    using session_get[OF S1(1) _ e(1) crc_head(2)] session_get[OF S1(1) _ e(2) crc_tail] e(3) S1(2) by simp_all
  obtain d2 where d2: "ef_set_next_offset d1 1 (ef_slot_to_offset d1 0) = (EF_OK, d2)" "session d2 32 ids"
    "puts d1 d2 1 (slot_with 1 EF_STATUS_USED (pad48 lit_tail) (ef_slot_to_offset d1 0))"
    by (rule session_link[OF S1(1) _ i e(2) crc_tail, of 0]) simp_all
  have "ef_slot_to_offset d1 0 = 64" using session_offset[OF S1(1), of 0] by simp
  then have p2: "linked_pair d2 ids 64"
    using d2(2,3) p puts_slot[OF d2(3), of 0] puts_slot[OF d2(3), of 1] e(1) by (simp add: linked_pair_def)
  have c2: "ef_chase_n d2 (ef_slot_to_offset d2 0) 4 = (None, ef_set_error d2 EF_ERR_CHASE_CYCLE)"
  proof -
    have "\<forall>n. link_path d2 pair_walk n" using pair_path(2)[OF p2] by simp
    moreover have "\<forall>i \<ge> 0. pair_walk (i + 2) = pair_walk i" by (simp add: pair_walk_def)
    moreover have "inj_on pair_walk {..<0 + 2}" by (auto simp: pair_walk_def inj_on_def less_Suc_eq numeral_2_eq_2)
    ultimately show ?thesis
      using chase_ring[OF session_facts(2)[OF d2(2)], of pair_walk 2 0 4] by (simp add: pair_walk_def)
  qed
  obtain d3 where d3: "ef_sync_ex env (ef_set_error d2 EF_ERR_CHASE_CYCLE) = (EF_OK, d3)" "session d3 32 ids"
    "touches ((ef_set_error d2 EF_ERR_CHASE_CYCLE)\<lparr>sb_meta_dirty := False\<rparr>) d3 {}"
    by (rule session_sync[OF session_error[OF d2(2)]])
  have "db_slot d3 j = db_slot d2 j" for j using touches_slot[OF d3(3), of j] by simp
  then have "linked_pair d3 ids 64" using p2 d3(2) unfolding linked_pair_def by metis
  moreover have "embedded_chase env 0 1 db 0 = Some (0, d3)"
    using c1 str g d2(1) c2 d3(1) by (simp add: embedded_chase_def ef_last_error_def)
  ultimately show thesis using that by blast
qed

lemma blob_slots:
  assumes b: "blob_at db 2 [3] blob_data" and s: "session db 32 ids"
  shows "crc_present 2 (db_slot db 2)" "crc_present 3 (db_slot db 3)"
proof -
  have ch: "next_offset (db_slot db 2) = ef_slot_to_offset db 3" "status (db_slot db 2) = EF_STATUS_USED"
    "status (db_slot db 3) = EF_STATUS_OVERFLOW" "payload (db_slot db 3) = pad48 (take 48 (drop 40 blob_data))" "next_offset (db_slot db 3) = 0"
    and h: "head_payload (payload (db_slot db 2)) blob_data"
    using b by (simp_all add: blob_at_def)
  have len: "length blob_data = 72" by (simp add: blob_data_def)
  let ?pl = "payload (db_slot db 2)"
  have "?pl = take 4 ?pl @ take 4 (drop 4 ?pl) @ drop 8 ?pl"
    using append_take_drop_id[of 4 ?pl] append_take_drop_id[of 4 "drop 4 ?pl"] by simp
  also have "drop 8 ?pl = take 40 (drop 8 ?pl)" by simp
  also have "take 4 ?pl @ take 4 (drop 4 ?pl) @ take 40 (drop 8 ?pl) = blob_head" using h by (simp add: head_payload_def blob_head_def len)
  finally have "?pl = blob_head" .
  moreover have "ef_slot_to_offset db 3 = 256" using session_offset[OF s, of 3] by (simp add: push_bit_eq_mult)
  ultimately show "crc_present 2 (db_slot db 2)"
    using crc_blob_head crc_present_cong[of "db_slot db 2" "slot_with 2 EF_STATUS_USED blob_head 256" 2] ch(1,2) by simp
  show "crc_present 3 (db_slot db 3)"
    using crc_blob_rest crc_present_cong[of "db_slot db 3" "slot_with 3 EF_STATUS_OVERFLOW (pad48 (take 48 (drop 40 blob_data))) 0" 3] ch(3-5) by simp
qed

lemma blob_run:
  assumes p: "linked_pair db (2 # 3 # ids) nxt" and out: "length out0 = 72"
  obtains db' where "embedded_blob env out0 db 0 = Some (0, db')" "session db' 32 ids" "sb_meta_dirty db'"
    "db_slot db' 0 = slot_with 0 EF_STATUS_USED (pad48 lit_head) 128"
proof -
  have s: "session db 32 (2 # 3 # ids)" and s0: "db_slot db 0 = slot_with 0 EF_STATUS_USED (pad48 lit_head) 128"
    and dist: "distinct (0 # 1 # 2 # 3 # ids)"
    using p by (simp_all add: linked_pair_def)
  obtain d1 where d1: "ef_alloc_slot db = (Inr 2, d1)" "session d1 32 (3 # ids)" "sb_meta_dirty d1" "touches db d1 {2}"
    "db_slot d1 2 = slot_with 2 EF_STATUS_USED (replicate 48 0) 0"
    by (rule session_alloc[OF s])
  have len: "length blob_data = 72" by (simp add: blob_data_def)
  have k: "1 = overflow_slots (length blob_data - 40)" by (simp add: len overflow_slots_def)
  have crc: "\<forall>j \<in> set (2 # take 1 (3 # ids)). crc_present j fresh_slot"
    using crc_fresh(3,4) crc_present_cong[of fresh_slot "slot_with j EF_STATUS_USED (replicate 48 0) 0" j for j]
    by (simp add: fresh_slot_def)
  obtain d2 where d2: "ef_write_blob env d1 2 (Some blob_data) (length blob_data) = Some (EF_OK, d2)" "session d2 32 (drop 1 (3 # ids))"
    "touches d1 d2 (set (2 # take 1 (3 # ids)))" "blob_at d2 2 (take 1 (3 # ids)) blob_data"
    by (rule session_blob[OF d1(2) _ _ d1(5) crc k, where env = env]) (use dist len in simp_all)
  have S2: "session d2 32 ids" using d2(2) by simp
  have "crc_ok d2 j (db_slot d2 j)" if "j \<in> set [2, 3]" for j
    using blob_slots[OF d2(4)[simplified] S2] that by (auto simp: session_seal(2)[OF S2])
  then have read: "fst (ef_read_blob d2 2 (Some 72)) = Inr (72, blob_data)"
    using read_blob_ok[of d2 2 "[3]" blob_data 72] d2(4) session_facts(1)[OF S2] by (simp add: len)
  obtain e where e: "snd (ef_read_blob d2 2 (Some 72)) = ef_set_error d2 e" using read_blob_error[of d2 2 "Some 72"] by (auto simp: only_error_def)
  have rb: "ef_read_blob d2 2 (Some 72) = (Inr (72, blob_data), ef_set_error d2 e)" using read e by (simp add: prod_eq_iff)
  have "embedded_blob env out0 db 0 = Some (0, ef_set_error d2 e)"
    using d1(1) d2(1) rb out by (simp add: embedded_blob_def len)
  moreover have "db_slot d2 0 = slot_with 0 EF_STATUS_USED (pad48 lit_head) 128"
    using s0 touches_slot[OF d1(4), of 0] touches_slot[OF d2(3), of 0] by simp
  moreover have "sb_meta_dirty d2" using d1(3) d2(3) by (simp add: touches_def)
  ultimately show thesis using that[of "ef_set_error d2 e"] session_error[OF S2, of e] by simp
qed

lemma sizes:
  "ef_expected_file_size 32 0 4096 \<le> arena_size" "ef_expected_file_size 4 0 4096 \<le> grow_arena_size"
  "ef_expected_file_size 12 0 4096 \<le> grow_arena_size" "131168 + 64 * unat (12 :: u64) \<le> unat grow_arena_size"
  by (simp_all add: ef_expected_file_size_def arena_size_def grow_arena_size_def EF_UNDO_LOG_DEFAULT_BYTES_def EF_UNDO_LOG_DEFAULT_SLOTS_def)

text \<open>The payload of a slot in use is still there after closing and opening again.\<close>

lemma reopened_string:
  assumes s: "session db n (i # ids)" and d: "sb_meta_dirty db"
    and c: "crc_bytewise 0xFFFFFFFF (sb_bytes n (ef_slot_to_offset db i) (of_nat (Suc (length ids)))) \<noteq> 0xFFFFFFFF"
    and slot: "j < n" "db_slot db j = slot_with j EF_STATUS_USED (pad48 lit) nxt" "crc_present j (slot_with j EF_STATUS_USED (pad48 lit) nxt)"
    and lit: "length lit < 48" and env: "env_calloc env" and size: "ef_expected_file_size n 0 4096 \<le> buffer_size"
  obtains db' p d' where "ef_open_memory env (io_mem (ef_close db)) buffer_size n' False = Inr db'" "max_slots (sb db') = n"
    "ef_get_slot db' j = (Some p, d')" "strcmp_eq (mem d') (ef_slot_payload_ptr d' p) lit"
proof -
  have "storable db" by (rule session_storable[OF s d]) (use c in simp)
  then obtain db' where o: "ef_open_memory env (io_mem (ef_close db)) buffer_size n' False = Inr db'" "mapped db'" "max_slots (sb db') = n"
    "\<forall>i < n. \<forall>pl nxt. db_slot db i = slot_with i EF_STATUS_USED pl nxt \<and> crc_present i (slot_with i EF_STATUS_USED pl nxt) \<longrightarrow>
       ef_get_slot db' i = (Some (db_slot_ptr db i), ef_set_error db' EF_OK) \<and> payload (slot_at (mem db') (db_slot_ptr db i)) = pl"
    "schema_version (sb db') = EF_SCHEMA_VERSION"
    by (rule session_reopen[OF s _ env size, where n' = n'])
  have g: "ef_get_slot db' j = (Some (db_slot_ptr db j), ef_set_error db' EF_OK)" "payload (slot_at (mem db') (db_slot_ptr db j)) = pad48 lit"
    using o(4) slot by blast+
  have "strcmp_eq (mem db') (ef_slot_payload_ptr db' (db_slot_ptr db j)) lit"
    using strcmp_payload[OF g(2) lit] v5_payload(1)[of db'] o(2,5) by simp
  then show thesis using that[OF o(1,3) g(1)] by simp
qed

lemma reopen_run:
  assumes s: "session db 32 (4 # ids)" "length ids = 27" and d: "sb_meta_dirty db" and env: "env_calloc env"
    and slot: "db_slot db 0 = slot_with 0 EF_STATUS_USED (pad48 lit_head) 128"
  shows "embedded_reopen env (io_mem (ef_close db)) 0 0 = Some 0"
proof -
  have "ef_slot_to_offset db 4 = 320" using session_offset[OF s(1), of 4] by (simp add: push_bit_eq_mult)
  then have c: "crc_bytewise 0xFFFFFFFF (sb_bytes 32 (ef_slot_to_offset db 4) (of_nat (Suc (length ids)))) \<noteq> 0xFFFFFFFF"
    using crc_superblocks(1) s(2) by simp
  have lit: "length lit_head < 48" by (simp add: lit_head_def)
  obtain db' p d' where r: "ef_open_memory env (io_mem (ef_close db)) arena_size 32 False = Inr db'"
    "ef_get_slot db' 0 = (Some p, d')" "strcmp_eq (mem d') (ef_slot_payload_ptr d' p) lit_head"
    by (rule reopened_string[OF s(1) d c _ slot crc_head(2) lit env sizes(1), where n' = 32]) simp
  then show ?thesis by (simp add: embedded_reopen_def)
qed

lemma grow_run:
  assumes env: "env_calloc (env 1)" "env_calloc (env 2)"
  shows "embedded_grow env 0 = Some 0"
proof -
  obtain db where o: "ef_open_memory (env 1) (\<lambda>_. 0) grow_arena_size 4 True = Inr db" "session db 4 (map of_nat [0..<unat (4 :: u64)])"
    "map_capacity db = grow_arena_size"
    by (rule session_open[OF env(1) _ sizes(2)]) simp
  have ids: "map of_nat [0..<unat (4 :: u64)] = [0, 1, 2, 3 :: u64]"
    "rev (map of_nat [unat (4 :: u64)..<unat (12 :: u64)]) @ [1, 2, 3 :: u64] = [11, 10, 9, 8, 7, 6, 5, 4, 1, 2, 3]" by code_simp+
  obtain d1 where d1: "ef_alloc_slot db = (Inr 0, d1)" "session d1 4 [1, 2, 3]" "touches db d1 {0}"
    "db_slot d1 0 = slot_with 0 EF_STATUS_USED (replicate 48 0) 0"
    by (rule session_alloc[OF o(2)[unfolded ids]])
  obtain d2 where d2: "ef_write_payload d1 0 (Some lit_grown) (of_nat (length lit_grown)) = (EF_OK, d2)" "session d2 4 [1, 2, 3]"
    "puts d1 d2 0 (slot_with 0 EF_STATUS_USED (pad48 lit_grown) 0)"
    by (rule session_payload[OF d1(2) _ _ d1(4) crc_fresh(1), of lit_grown]) (simp_all add: lit_grown_def)
  have cap: "131168 + 64 * unat (12 :: u64) \<le> unat (map_capacity d2)"
    using sizes(4) o(3) d1(3) d2(3) by (simp add: puts_def touches_def)
  obtain d3 where d3: "ef_grow (env 1) d2 12 = (EF_OK, d3)" "session d3 12 (rev (map of_nat [unat (4 :: u64)..<unat (12 :: u64)]) @ [1, 2, 3])"
    "\<forall>j < 4. db_slot d3 j = db_slot d2 j"
    by (rule session_grow[OF d2(2) _ _ cap, where env = "env 1"]) simp_all
  obtain d4 where d4: "ef_alloc_slot d3 = (Inr 11, d4)" "session d4 12 [10, 9, 8, 7, 6, 5, 4, 1, 2, 3]" "sb_meta_dirty d4" "touches d3 d4 {11}"
    by (rule session_alloc[OF d3(2)[unfolded ids]])
  have "db_slot d3 0 = db_slot d2 0" by (rule d3(3)[rule_format]) simp
  then have slot: "db_slot d4 0 = slot_with 0 EF_STATUS_USED (pad48 lit_grown) 0"
    using touches_slot[OF d4(4), of 0] puts_slot[OF d2(3), of 0] by simp
  have "ef_slot_to_offset d4 10 = 704" using session_offset[OF d4(2), of 10] by (simp add: push_bit_eq_mult)
  then have c: "crc_bytewise 0xFFFFFFFF (sb_bytes 12 (ef_slot_to_offset d4 10) (of_nat (Suc (length [9, 8, 7, 6, 5, 4, 1, 2, 3 :: u64])))) \<noteq> 0xFFFFFFFF"
    using crc_superblocks(2) by simp
  have lit: "length lit_grown < 48" by (simp add: lit_grown_def)
  obtain db' p d' where r: "ef_open_memory (env 2) (io_mem (ef_close d4)) grow_arena_size 4 False = Inr db'" "max_slots (sb db') = 12"
    "ef_get_slot db' 0 = (Some p, d')" "strcmp_eq (mem d') (ef_slot_payload_ptr d' p) lit_grown"
    by (rule reopened_string[OF d4(2,3) c _ slot crc_grown lit env(2) sizes(3), where n' = 4]) simp
  then show ?thesis
    using o(1) d1(1) d2(1) d3(1) d4(1) session_facts(4)[OF d3(2)]
    by (simp add: embedded_grow_def embedded_reopened_grown_def lit_grown_def)
qed

subsection \<open>Property\<close>

text \<open>
  C9: the self-test program for embedded targets passes. If the allocations of the handles succeed,
  every expectation holds and the exit code is 0: allocation, payloads, links, the chase with its
  cycle, the sync, the blob that spans two slots, growth inside the arena, and the contents of both arenas after
  they have been closed and opened again. If the first allocation fails, the exit code is 1.
\<close>

theorem embedded_self_test:
  assumes "\<forall>k \<ge> 1. env_calloc (env k)" "length out0 = 72"
  shows "main_embedded env out0 = Some (if env_calloc (env 0) then 0 else 1)"
proof (cases "env_calloc (env 0)")
  case True
  obtain db where o: "ef_open_memory (env 0) (\<lambda>_. 0) arena_size 32 True = Inr db" "session db 32 (map of_nat [0..<unat (32 :: u64)])"
    by (rule session_open[OF True _ sizes(1)]) simp
  obtain ids :: "u64 list" where ids: "map of_nat [0..<unat (32 :: u64)] = 0 # 1 # 2 # 3 # 4 # ids" "length ids = 27"
  proof -
    have "map of_nat [0..<unat (32 :: u64)] = 0 # 1 # 2 # 3 # 4 # (map of_nat [5..<32] :: u64 list)" by code_simp
    then show thesis by (rule that) simp
  qed
  obtain d1 where d1: "embedded_slots db 0 = (0, 0, 1, d1)" "linked_pair d1 (2 # 3 # 4 # ids) 0"
    by (rule slots_run[OF o(2)[unfolded ids(1)]]) (simp add: ids(2))
  obtain d2 where d2: "embedded_chase (env 0) 0 1 d1 0 = Some (0, d2)" "linked_pair d2 (2 # 3 # 4 # ids) 64" by (rule chase_run[OF d1(2)])
  obtain d3 where d3: "embedded_blob (env 0) out0 d2 0 = Some (0, d3)" "session d3 32 (4 # ids)" "sb_meta_dirty d3"
    "db_slot d3 0 = slot_with 0 EF_STATUS_USED (pad48 lit_head) 128"
    by (rule blob_run[OF d2(2) assms(2)])
  have "embedded_grow env 0 = Some 0" "embedded_reopen (env 3) (io_mem (ef_close d3)) 0 0 = Some 0"
    using grow_run[of env] reopen_run[OF d3(2) ids(2) d3(3) _ d3(4), of "env 3"] assms(1) by simp_all
  then show ?thesis using True o(1) d1(1) d2(1) d3(1) by (simp add: main_embedded_def)
next
  case False
  then have "ef_open_memory (env 0) (\<lambda>_. 0) arena_size 32 True = Inl EF_ERR_OOM"
    using sizes(1) by (simp add: ef_open_memory_def ef_open_memory_hash_def ef_hash_capacity_valid_def Let_def EF_UNDO_LOG_DEFAULT_SLOTS_def)
  then show ?thesis using False by (simp add: main_embedded_def)
qed

theorem embedded_self_test_witness:
  "main_embedded (\<lambda>_. \<lparr>env_open = False, env_fstat = False, env_ftruncate = (\<lambda>_. False), env_mmap = (\<lambda>_. False), env_msync = False,
      env_malloc = (\<lambda>_. False), env_calloc = True\<rparr>) (replicate 72 9) = Some 0"
  by (subst embedded_self_test) simp_all

end
