(* ===== verification/Index_Shrink.thy ===== *)
theory Index_Shrink
  imports Index_Grow
begin

text \<open>
  Removing a key and shrinking the table. \<^verbatim>\<open>ef_index_remove\<close> shrinks a sparse table after the removal and
  ignores how that went. A shrink that fails early leaves everything as it is; one that fails while it
  puts the entries into the smaller table has lost a key.
\<close>

subsection \<open>A reinsertion that fails\<close>

lemma reinsert_fails:
  assumes "wf_layout d" "index_inv d" "distinct (map key_hash es)" "\<forall>e \<in> set es. slot_offset e \<noteq> 0"
    "\<forall>e \<in> set es. index_lookup d (key_hash e) = None"
    "card (dom (index_lookup d)) + length es \<le> unat (hash_capacity d)" "reinsert es d = (err, d')" "err \<noteq> EF_OK"
  shows "err = EF_ERR_INDEX_FULL \<and> table_write d d' \<and> dom (index_lookup d') \<subset> dom (index_lookup d) \<union> key_hash ` set es"
  using assms
proof (induction es arbitrary: d)
  case Nil
  then show ?case by simp
next
  case (Cons e es)
  obtain err' added b where put: "ef_index_put_entry d (key_hash e) (slot_offset e) = (err', added, b)" using prod_cases3 by blast
  have "card (dom (index_lookup d)) < unat (hash_capacity d)" using Cons.prems(6) by simp
  note room = room_if_few[OF Cons.prems(2) this]
  have off: "slot_offset e \<noteq> 0" using Cons.prems(4) by simp
  have tw: "table_write d b" by (rule put_entry_table_write[OF Cons.prems(1) put])
  note f = table_write_facts[OF tw Cons.prems(1)]
  show ?case
  proof (cases "err' = EF_OK")
    case False
    then have r: "err = err'" "d' = b" using Cons.prems(7) put by simp_all
    from put_entry_full[OF Cons.prems(2) room off put False]
    obtain v where v: "err' = EF_ERR_INDEX_FULL" "v \<noteq> key_hash e" "index_lookup d v \<noteq> None"
      "index_lookup b = (index_lookup d)(key_hash e \<mapsto> slot_offset e, v := None)" by blast
    then have "dom (index_lookup b) \<subseteq> insert (key_hash e) (dom (index_lookup d))" "v \<notin> dom (index_lookup b)" "v \<in> dom (index_lookup d)"
      by (auto split: if_splits)
    then show ?thesis using tw v(1) by (auto simp: r)
  next
    case True
    then have rest: "reinsert es b = (err, d')" using Cons.prems(7) put by simp
    have map: "index_inv b" "index_lookup b = (index_lookup d)(key_hash e \<mapsto> slot_offset e)"
      using put_entry_map[OF Cons.prems(2) room off put[unfolded True]] by simp_all
    have wfb: "wf_layout b" and cap: "hash_capacity b = hash_capacity d"
      using Cons.prems(1) same_layout_wf[OF f(3)] f(3) by (simp_all add: same_layout_def)
    have "card (dom (index_lookup b)) = Suc (card (dom (index_lookup d)))"
      using Cons.prems(5) finite_dom[OF Cons.prems(2)] by (simp add: map(2) domIff)
    then have "card (dom (index_lookup b)) + length es \<le> unat (hash_capacity b)" using Cons.prems(6) cap by simp
    moreover have "\<forall>x \<in> set es. key_hash x \<noteq> key_hash e" using Cons.prems(3) by (auto simp: image_iff)
    then have "\<forall>x \<in> set es. index_lookup b (key_hash x) = None" using Cons.prems(5) by (simp add: map(2))
    ultimately have "err = EF_ERR_INDEX_FULL \<and> table_write b d' \<and> dom (index_lookup d') \<subset> dom (index_lookup b) \<union> key_hash ` set es"
      using Cons.IH[OF wfb map(1)] Cons.prems(3,4,8) rest by simp
    moreover have "dom (index_lookup b) \<union> key_hash ` set es = dom (index_lookup d) \<union> key_hash ` set (e # es)"
      by (auto simp: map(2))
    ultimately show ?thesis using table_write_trans[OF tw] by simp
  qed
qed

text \<open>The same for the whole table that a rehash puts back.\<close>

lemma rehash_table_fails:
  assumes wf: "wf_layout db" and inv: "index_inv db" and pts: "index_points db" and s: "shifted db g cap" and z: "zero_index g"
    and cap: "cap \<noteq> 0" "ef_hash_capacity_valid cap" "card (dom (index_lookup db)) \<le> unat cap"
    and run: "reinsert (map (fix_entry (slots_base db) (slots_base g)) (live_entries (mem db) 64 (hash_capacity db))) g = (err, b)"
      "err \<noteq> EF_OK"
  shows "err = EF_ERR_INDEX_FULL" "table_write g b" "dom (index_lookup b) \<subset> dom (index_lookup db)"
proof -
  let ?es = "live_entries (mem db) 64 (hash_capacity db)" and ?f = "fix_entry (slots_base db) (slots_base g)"
  have wfg: "wf_layout g" and cg: "hash_capacity g = cap" using s by (simp_all add: shifted_def Let_def)
  have h: "hash_index db = Some 64" using inv index_hash_64[OF wf] by (auto simp: index_inv_def split: if_splits)
  note L = live_entries_map[OF inv h]
  have g: "index_inv g" "index_lookup g = Map.empty" by (rule zero_index_empty[OF wfg z]; simp add: cg cap)+
  have kf: "key_hash \<circ> ?f = key_hash" by (rule ext) (simp add: fix_entry_def)
  have "card (dom (index_lookup g)) + length (map ?f ?es) \<le> unat (hash_capacity g)"
    using cap(3) L(4) by (simp add: g(2) cg)
  moreover have "\<forall>e \<in> set (map ?f ?es). slot_offset e \<noteq> 0"
    using fixed_offsets[OF wf inv pts s] by auto
  ultimately have R: "err = EF_ERR_INDEX_FULL \<and> table_write g b \<and>
      dom (index_lookup b) \<subset> dom (index_lookup g) \<union> key_hash ` set (map ?f ?es)"
    using L(1) by (intro reinsert_fails[OF wfg g(1) _ _ _ _ run]) (auto simp: g(2) kf)
  have "dom (map_of (map (\<lambda>e. (key_hash e, slot_offset e)) ?es)) = key_hash ` set ?es"
    by (simp add: dom_map_of_conv_image_fst image_image)
  then have "key_hash ` set (map ?f ?es) = dom (index_lookup db)" by (simp add: L(3) fix_entry_def image_image)
  then show "err = EF_ERR_INDEX_FULL" "table_write g b" "dom (index_lookup b) \<subset> dom (index_lookup db)"
    using R by (simp_all add: g(2))
qed

subsection \<open>A shrink\<close>

lemma same_data_refl: "same_data db db"
  by (simp add: same_data_def)

lemma shrink_loses:
  assumes r: "index_ready db" and pts: "index_points db" and fit: "rehash_fits db"
    and cap: "cap \<noteq> 0" "ef_hash_capacity_valid cap" "card (dom (index_lookup db)) \<le> unat cap"
    and D: "resized (locked db) d (ef_index_file_size (max_slots (sb (locked db))) cap)"
    and B: "reinsert (map (fix_entry (slots_base (locked db)) (ef_index_slots_base cap))
        (live_entries (mem (locked db)) 64 (hash_capacity (locked db)))) (moved d (slots_base (locked db)) cap) = (err, b)"
      "err \<noteq> EF_OK"
  shows "err = EF_ERR_INDEX_FULL" "dom (index_lookup (ef_index_write_end b)) \<subset> dom (index_lookup db)"
proof -
  let ?l = "locked db"
  have R: "wf_layout db" "EF_SCHEMA_VERSION \<le> schema_version (sb db)" "index_inv db" using r by (simp_all add: index_ready_def)
  note lf = locked_facts[OF R(1)]
  have lsb: "sb ?l = (sb db)\<lparr>index_write_lock := 1\<rparr>" "slots_base ?l = slots_base db" by (simp_all add: locked_def)
  have D': "resized ?l d (ef_index_file_size (max_slots (sb db)) cap)" using D by (simp add: lsb)
  define g where "g = moved d (slots_base db) cap"
  note S = rehash_moved[OF r pts fit cap(1,2) D', folded g_def]
  have li: "index_inv ?l" using R(3) lf(2) by simp
  have lc: "card (dom (index_lookup ?l)) \<le> unat cap" using cap(3) lf(1) by simp
  note T = rehash_table_fails[OF lf(4) li S(4,1,2) cap(1,2) lc B(1)[unfolded S(3), folded g_def[folded lsb(2)]] B(2)]
  show "err = EF_ERR_INDEX_FULL" by (rule T(1))
  have wfg: "wf_layout g" using S(1) by (simp add: shifted_def)
  note W = table_write_facts[OF T(2) wfg]
  have wfb: "wf_layout b" using wfg same_layout_wf[OF W(3)] by simp
  have vb: "EF_SCHEMA_VERSION \<le> schema_version (sb b)" using W(1) S(1) R(2) by (simp add: shifted_def Let_def lsb)
  have "ef_index_write_end b = unlocked b" using wfb vb by (intro write_end_eq) simp_all
  then show "dom (index_lookup (ef_index_write_end b)) \<subset> dom (index_lookup db)"
    using T(3) locked_facts(5)[OF wfb] lf(1) by simp
qed

text \<open>
  A shrink that does not succeed: with \<^verbatim>\<open>EF_ERR_INDEX_FULL\<close> it has lost a key, with any other error
  nothing has changed.
\<close>

lemma shrink_fails:
  assumes r: "index_ready db" and pts: "index_points db" and fit: "rehash_fits db"
    and run: "ef_index_shrink env db cap = (err, db')" "err \<noteq> EF_OK"
  shows "if err = EF_ERR_INDEX_FULL then dom (index_lookup db') \<subset> dom (index_lookup db)
    else index_ready db' \<and> same_data db db' \<and> dom (index_lookup db') = dom (index_lookup db)"
proof (cases "cap < 1 \<or> cap AND (cap - 1) \<noteq> 0 \<or> 0xFFFF < cap")
  case True
  have "\<not> readonly db" "mapped db" using r by (simp_all add: index_ready_def)
  with True have "err = EF_ERR_GROW" "db' = db"
    using run by (auto simp: ef_index_shrink_def ef_index_rehash_to_def ef_index_require_write_def split: if_splits)
  then show ?thesis using r same_data_refl by simp
next
  case False
  then have chk: "\<not> cap < 1" "cap AND (cap - 1) = 0" "\<not> 0xFFFF < cap" and cap: "cap \<noteq> 0" "ef_hash_capacity_valid cap"
    by (auto simp: ef_hash_capacity_valid_def)
  have start: "ef_index_rehash_to env db cap True = (err, db')" using run cap by (simp add: ef_index_shrink_def)
  show ?thesis
  proof (cases "db' = ef_index_write_end (locked db) \<and> err \<noteq> EF_ERR_INDEX_FULL")
    case True
    moreover have "index_lookup (db\<lparr>index_seq := n\<rparr>) = index_lookup db" for n
      using index_facts_cong(1)[of "db\<lparr>index_seq := n\<rparr>" db] index_hash_64[of db] r by (simp add: index_ready_def)
    ultimately show ?thesis using same_data_unlocked(1,2,4)[OF r pts] by simp
  next
    case moved: False
    have mv: "rehash_move env (locked db) 64 cap = (err, db')" "backend (locked db) \<noteq> EF_BACKEND_FILE"
      and few: "card (dom (index_lookup db)) \<le> unat cap"
      using start moved run(2) r unfolding rehash_to_start[OF r chk]
      by (auto split: if_splits intro!: shrink_fits simp: index_ready_def)
    from mv(1) run(2) mv(2) show ?thesis
    proof (cases rule: rehash_move_fails)
      case early
      then show ?thesis using moved by simp
    next
      case (late d b)
      then show ?thesis using shrink_loses[OF r pts fit cap few] run(2) by (simp add: locked_def)
    qed
  qed
qed

text \<open>All that the last step of a removal can do.\<close>

lemma shrunk_outcome:
  assumes r: "index_ready db" and pts: "index_points db" and fit: "rehash_fits db"
    and run: "db' = shrink_if_sparse env db (hash_entry_count db) (hash_capacity db)"
  shows "if ef_index_should_shrink_snap db (hash_entry_count db) (hash_capacity db) \<and>
        fst (ef_index_shrink env db (ef_index_pick_shrink_capacity (hash_entry_count db) (hash_capacity db))) = EF_ERR_INDEX_FULL
    then dom (index_lookup db') \<subset> dom (index_lookup db)
    else index_ready db' \<and> (\<forall>key. ef_index_get db' key = ef_index_get db key) \<and> dom (index_lookup db') = dom (index_lookup db)"
proof (cases "ef_index_should_shrink_snap db (hash_entry_count db) (hash_capacity db)")
  case False
  then show ?thesis using run r by (simp add: shrink_if_sparse_def)
next
  case True
  let ?cap = "ef_index_pick_shrink_capacity (hash_entry_count db) (hash_capacity db)"
  obtain err d where s: "ef_index_shrink env db ?cap = (err, d)" by fastforce
  have d: "db' = d" using run True s by (simp add: shrink_if_sparse_def)
  show ?thesis
  proof (cases "err = EF_OK")
    case True
    then have "ef_index_rehash_to env db ?cap True = (EF_OK, d)" using s by (auto simp: ef_index_shrink_def split: if_splits)
    note K = rehash_to_ok[OF r pts fit this]
    then show ?thesis using s d True by (simp add: same_data_def)
  next
    case False
    then show ?thesis using shrink_fails[OF r pts fit s False] s d True by (simp add: same_data_def split: if_splits)
  qed
qed

subsection \<open>The example\<close>

text \<open>
  A table of 32 with the keys \<^verbatim>\<open>"e"\<close>, \<^verbatim>\<open>"p"\<close>, \<^verbatim>\<open>"@"\<close> and \<^verbatim>\<open>"x"\<close>, all at their homes 0, 15, 31 and 7. In a table of
  16 the homes of \<^verbatim>\<open>"p"\<close> and \<^verbatim>\<open>"@"\<close> are both 15.
\<close>

definition sparse_db :: ef_db where
  "sparse_db = sample_db\<lparr>slots_base := 576, hash_capacity := 32, map_capacity := 200000, file_size := 200000, hash_entry_count := 4,
     mem := set_entry (set_entry (set_entry (set_entry sample_mem 64 0 (ef_key_hash [101]) 576)
       64 15 (ef_key_hash [112]) 640) 64 31 (ef_key_hash [64]) 704) 64 7 (ef_key_hash [120]) 768\<rparr>"

lemma sparse_hashes:
  "ef_key_hash [101] = 12638182802509129152" "ef_key_hash [112] = 12638205892253321583"
  "ef_key_hash [64] = 12638223484439372959" "ef_key_hash [120] = 12638214688346347271"
  by code_simp+

lemma sparse_homes:
  "ef_hash_home 32 (ef_key_hash [101]) = 0" "ef_hash_home 32 (ef_key_hash [112]) = 15"
  "ef_hash_home 32 (ef_key_hash [64]) = 31" "ef_hash_home 32 (ef_key_hash [120]) = 7"
  "ef_hash_home 16 (ef_key_hash [101]) = 0" "ef_hash_home 16 (ef_key_hash [112]) = 15"
  "ef_hash_home 16 (ef_key_hash [64]) = 15"
  by (simp_all add: sparse_hashes ef_hash_home_def)

lemma sparse_entry:
  "entry_at (mem sparse_db) 64 p =
     (if p = 7 then \<lparr>key_hash = ef_key_hash [120], slot_offset = 768\<rparr> else if p = 31 then \<lparr>key_hash = ef_key_hash [64], slot_offset = 704\<rparr>
      else if p = 15 then \<lparr>key_hash = ef_key_hash [112], slot_offset = 640\<rparr>
      else if p = 0 then \<lparr>key_hash = ef_key_hash [101], slot_offset = 576\<rparr> else \<lparr>key_hash = 0, slot_offset = 0\<rparr>)"
  by (simp add: sparse_db_def)

text \<open>In any empty table of 16, putting back the three keys fails at the third.\<close>

lemma reinsert_wrapped:
  assumes g: "hash_index g = Some 64" "hash_capacity g = 16" "\<And>p. p < 16 \<Longrightarrow> entry_at (mem g) 64 p = \<lparr>key_hash = 0, slot_offset = 0\<rparr>"
    and off: "a \<noteq> 0" "b \<noteq> 0"
  shows "fst (reinsert [\<lparr>key_hash = ef_key_hash [101], slot_offset = a\<rparr>, \<lparr>key_hash = ef_key_hash [112], slot_offset = b\<rparr>,
      \<lparr>key_hash = ef_key_hash [64], slot_offset = c\<rparr>] g) = EF_ERR_INDEX_FULL"
proof -
  have pow: "(16 :: u32) AND (16 - 1) = 0" by simp
  let ?g1 = "g\<lparr>mem := set_entry (mem g) 64 0 (ef_key_hash [101]) a\<rparr>"
  let ?g2 = "?g1\<lparr>mem := set_entry (mem ?g1) 64 15 (ef_key_hash [112]) b\<rparr>"
  have 1: "ef_index_put_entry g (ef_key_hash [101]) a = (EF_OK, True, ?g1)"
    using g pow by (simp add: ef_index_put_entry_def Let_def sparse_homes put_loop.simps[of _ _ _ _ 0] ef_hash_entry_empty_def)
  have 2: "ef_index_put_entry ?g1 (ef_key_hash [112]) b = (EF_OK, True, ?g2)"
    using g pow by (simp add: ef_index_put_entry_def Let_def sparse_homes put_loop.simps[of _ _ _ _ 15] ef_hash_entry_empty_def)
  have d: "ef_key_hash [112] \<noteq> ef_key_hash [64]" "ef_key_hash [101] \<noteq> ef_key_hash [64]" by (simp_all add: sparse_hashes)
  have "put_loop 64 16 (ef_key_hash [64]) c 15 15 e (mem ?g2) = put_loop 64 16 (ef_key_hash [64]) c 16 15 e (mem ?g2)" for e
    using d off by (subst put_loop.simps) (simp add: ef_hash_entry_empty_def ef_hash_probe_dist_def sparse_homes Let_def)
  moreover have "put_loop 64 16 (ef_key_hash [64]) c 16 15 e (mem ?g2) =
      put_loop 64 16 (ef_key_hash [64]) c 17 0 \<lparr>key_hash = ef_key_hash [101], slot_offset = a\<rparr>
        (set_entry (mem ?g2) 64 0 (key_hash e) (slot_offset e))" for e
    using d off by (subst put_loop.simps) (simp add: ef_hash_entry_empty_def ef_hash_probe_dist_def sparse_homes Let_def)
  moreover have "fst (put_loop 64 16 (ef_key_hash [64]) c 17 0 e m) = EF_ERR_INDEX_FULL" for e m
    by (subst put_loop.simps) simp
  ultimately have "fst (put_loop 64 16 (ef_key_hash [64]) c 15 15 e (mem ?g2)) = EF_ERR_INDEX_FULL" for e by simp
  then have "fst (ef_index_put_entry ?g2 (ef_key_hash [64]) c) = EF_ERR_INDEX_FULL"
    using g pow by (simp add: ef_index_put_entry_def Let_def sparse_homes split: prod.split) (metis fst_conv)
  then show ?thesis by (simp add: 1 2 split: prod.split) auto
qed

lemma sparse_occ: "occ (entry_at (mem sparse_db) 64) p \<longleftrightarrow> p \<in> {0, 7, 15, 31}"
  by (auto simp: occ_def ef_hash_entry_empty_def sparse_entry)

lemma sparse_fields:
  "hash_index sparse_db = Some 64" "hash_capacity sparse_db = 32" "hash_entry_count sparse_db = 4"
  "max_slots (sb sparse_db) = 4" "schema_version (sb sparse_db) = EF_SCHEMA_VERSION" "index_write_lock (sb sparse_db) = 0"
  "backend sparse_db = EF_BACKEND_MEMORY" "map_capacity sparse_db = 200000" "slots_base sparse_db = 576"
  by (simp_all add: sparse_db_def)

lemma sparse_wf: "wf_layout sparse_db"
  by (simp add: sparse_db_def wf_layout_def layout_ok_def slot_ptr_def EF_SLOT_SIZE_def)

lemma sparse_index: "index_inv sparse_db"
proof -
  let ?T = "entry_at (mem sparse_db) 64"
  have "pdist 32 ?T p = 0" if "occ ?T p" for p
    using that by (auto simp: sparse_occ pdist_def sparse_entry ef_hash_probe_dist_def sparse_homes)
  then have "rh_order 32 ?T" unfolding rh_order_def by (metis less_numeral_extra(3))
  moreover have "rh_distinct 32 ?T"
    unfolding rh_distinct_def sparse_occ by (auto simp: sparse_entry sparse_hashes)
  moreover have "ef_hash_capacity_valid 32" by (simp add: ef_hash_capacity_valid_def)
  ultimately show ?thesis by (auto simp: index_inv_def rh_inv_def sparse_fields ef_hash_capacity_valid_def)
qed

lemma sparse_entries:
  "entries 32 (entry_at (mem sparse_db) 64) =
     {\<lparr>key_hash = ef_key_hash [101], slot_offset = 576\<rparr>, \<lparr>key_hash = ef_key_hash [112], slot_offset = 640\<rparr>,
      \<lparr>key_hash = ef_key_hash [64], slot_offset = 704\<rparr>, \<lparr>key_hash = ef_key_hash [120], slot_offset = 768\<rparr>}"
proof -
  have "entries 32 (entry_at (mem sparse_db) 64) = entry_at (mem sparse_db) 64 ` {0, 7, 15, 31}"
    by (auto simp: entries_def sparse_occ)
  then show ?thesis by (auto simp: sparse_entry)
qed

lemma sparse_lookup: "index_lookup sparse_db kh = Some off \<longleftrightarrow>
  \<lparr>key_hash = kh, slot_offset = off\<rparr> \<in> entries 32 (entry_at (mem sparse_db) 64)"
  using index_lookup_iff[OF sparse_index sparse_fields(1)] by (simp add: sparse_fields)

lemma sparse_offsets:
  "ef_slot_to_offset sparse_db 0 = 576" "ef_slot_to_offset sparse_db 1 = 640" "ef_slot_to_offset sparse_db 2 = 704"
  "ef_slot_to_offset sparse_db 3 = 768"
  by (simp_all add: ef_slot_to_offset_def sparse_db_def word_le_nat_alt)

lemma sparse_ready: "index_ready sparse_db" "index_points sparse_db" "rehash_fits sparse_db"
proof -
  have "{p. p < 32 \<and> occ (entry_at (mem sparse_db) 64) p} = {0, 7, 15, 31}" by (auto simp: sparse_occ)
  then have "card (dom (index_lookup sparse_db)) = 4" using card_dom[OF sparse_index sparse_fields(1)] by (simp add: sparse_fields)
  then show "index_ready sparse_db"
    using sparse_wf sparse_index by (simp add: index_ready_def index_counted_def sparse_fields) (simp add: sparse_db_def)
  show "index_points sparse_db"
    unfolding index_points_def sparse_fields sparse_lookup sparse_entries
    by (auto intro: exI[of _ "0::u64"] exI[of _ "1::u64"] exI[of _ "2::u64"] exI[of _ "3::u64"] simp: sparse_offsets)
  show "rehash_fits sparse_db" by (simp add: rehash_fits_def sparse_fields)
qed

lemma sparse_present: "index_lookup sparse_db (ef_key_hash [120]) \<noteq> None"
proof -
  have "index_lookup sparse_db (ef_key_hash [120]) = Some 768" by (simp add: sparse_lookup sparse_entries)
  then show ?thesis by simp
qed

lemma sparse_get: "ef_index_get sparse_db [120] = Inr 3"
proof -
  have "index_lookup sparse_db (ef_key_hash [120]) = Some 768" by (simp add: sparse_lookup sparse_entries)
  moreover have "ef_offset_to_slot_id sparse_db 768 = Inr 3"
    using offset_to_slot_id_roundtrip[OF sparse_wf, of 3] by (simp add: sparse_fields sparse_offsets)
  ultimately show ?thesis by (simp add: index_get_lookup[OF sparse_ready(1)])
qed

lemma sparse_removed:
  defines "db1 \<equiv> after_remove sparse_db [120]"
  shows "entry_at (mem db1) 64 p = (if p = 7 then \<lparr>key_hash = 0, slot_offset = 0\<rparr> else entry_at (mem sparse_db) 64 p)"
    "backend db1 = EF_BACKEND_MEMORY" "map_capacity db1 = 200000"
proof -
  have w: "ef_index_write_begin sparse_db = (EF_OK, locked sparse_db)" by (rule write_begin_ready[OF sparse_ready(1)])
  have e: "entry_at (mem (locked sparse_db)) 64 = entry_at (mem sparse_db) 64" by (simp add: locked_def lock_entries)
  have f: "hash_index (locked sparse_db) = Some 64" "hash_capacity (locked sparse_db) = 32" "hash_entry_count (locked sparse_db) = 4"
    by (simp_all add: locked_def sparse_fields)
  have "shift_loop 64 32 7 (mem (locked sparse_db)) = set_entry (mem (locked sparse_db)) 64 7 0 0"
    by (subst shift_loop.simps) (simp add: e sparse_entry ef_hash_entry_empty_def)
  then have "remove_loop 64 32 (ef_key_hash [120]) 7 32 (mem (locked sparse_db)) = Some (set_entry (mem (locked sparse_db)) 64 7 0 0)"
    using remove_loop.simps(2)[of 64 32 "ef_key_hash [120]" 7 31 "mem (locked sparse_db)"]
    by (simp add: e sparse_entry ef_hash_entry_empty_def)
  then have rem: "ef_index_remove_by_hash (locked sparse_db) (ef_key_hash [120]) =
      (EF_OK, (locked sparse_db)\<lparr>mem := set_entry (mem (locked sparse_db)) 64 7 0 0, hash_entry_count := 3\<rparr>)"
    by (simp add: ef_index_remove_by_hash_def f sparse_homes)
  let ?d = "(locked sparse_db)\<lparr>mem := set_entry (mem (locked sparse_db)) 64 7 0 0, hash_entry_count := 3\<rparr>"
  have "ef_index_write_end ?d = unlocked ?d"
    using sparse_wf by (intro write_end_eq) (simp_all add: locked_def sparse_fields)
  then have db1: "db1 = ef_db_mark_meta_dirty (unlocked ?d)" by (simp add: db1_def after_remove_def w rem)
  show "entry_at (mem db1) 64 p = (if p = 7 then \<lparr>key_hash = 0, slot_offset = 0\<rparr> else entry_at (mem sparse_db) 64 p)"
    using e by (simp add: db1 unlocked_def)
  show "backend db1 = EF_BACKEND_MEMORY" "map_capacity db1 = 200000"
    by (simp_all add: db1 unlocked_def locked_def sparse_fields)
qed

lemma sparse_capacity: "ef_index_pick_shrink_capacity 3 32 = 16"
  by (simp add: ef_index_pick_shrink_capacity_def ef_policy_defs Let_def round_up_loop.simps shrink_loop.simps)

lemma sparse_live:
  assumes "\<And>p. entry_at m 64 p = (if p = 7 then \<lparr>key_hash = 0, slot_offset = 0\<rparr> else entry_at (mem sparse_db) 64 p)"
  shows "live_entries m 64 32 = [\<lparr>key_hash = ef_key_hash [101], slot_offset = 576\<rparr>,
    \<lparr>key_hash = ef_key_hash [112], slot_offset = 640\<rparr>, \<lparr>key_hash = ef_key_hash [64], slot_offset = 704\<rparr>]"
proof -
  have "[0 ..< 32] = [0] @ [1 ..< 15] @ [15] @ [16 ..< 31] @ [31 :: nat]" by (simp add: upt_rec)
  moreover have "filter (\<lambda>e. \<not> ef_hash_entry_empty e) (map (entry_at m 64) [1 ..< 15]) = []"
    "filter (\<lambda>e. \<not> ef_hash_entry_empty e) (map (entry_at m 64) [16 ..< 31]) = []"
    by (auto simp: filter_empty_conv assms sparse_entry ef_hash_entry_empty_def)
  ultimately show ?thesis by (simp add: live_entries_def assms sparse_entry ef_hash_entry_empty_def)
qed

lemma rehash_move_stops:
  assumes es: "live_entries (mem db) 64 (hash_capacity db) = es" and sz: "ef_index_file_size (max_slots (sb db)) cap = sz"
    and go: "env_malloc env (ucast (of_nat (length es) :: u32) * 16)" "backend db = EF_BACKEND_MEMORY" "sz \<le> map_capacity db"
    and e: "fst (reinsert (map (fix_entry (slots_base db) (ef_index_slots_base cap)) es)
      (moved (db\<lparr>file_size := sz\<rparr>) (slots_base db) cap)) = e" "e \<noteq> EF_OK"
  shows "fst (rehash_move env db 64 cap) = e"
proof -
  obtain b where b: "reinsert (map (fix_entry (slots_base db) (ef_index_slots_base cap)) es)
      (moved (db\<lparr>file_size := sz\<rparr>) (slots_base db) cap) = (e, b)" using e(1) by (metis prod.collapse)
  have fe: "fix_entry x y = (\<lambda>e. e\<lparr>slot_offset := ef_index_fixup_offset (slot_offset e) x y\<rparr>)" for x y
    by (rule ext) (simp add: fix_entry_def)
  show ?thesis
    using go e(2) b[unfolded fe moved_def relocated_def]
    by (simp add: rehash_move_def Let_def es sz leD)
qed

lemma sparse_shrink:
  assumes mal: "env_malloc env 48"
  defines "db1 \<equiv> after_remove sparse_db [120]"
  shows "fst (ef_index_shrink env db1 16) = EF_ERR_INDEX_FULL"
proof -
  let ?l = "locked db1" and ?d = "(locked db1)\<lparr>file_size := ef_index_file_size 4 16\<rparr>"
  note R = remove_runs[OF sparse_ready(1) sparse_present, folded db1_def]
  have f: "hash_capacity db1 = 32" "hash_entry_count db1 = 3" "max_slots (sb db1) = 4" "slots_base db1 = 576"
    using R(5,6) by (simp_all add: same_layout_def sparse_fields)
  have lf: "hash_capacity ?l = 32" "max_slots (sb ?l) = 4" "slots_base ?l = 576" "backend ?l = EF_BACKEND_MEMORY" "map_capacity ?l = 200000"
    using f sparse_removed[folded db1_def] by (simp_all add: locked_def)
  have live: "live_entries (mem ?l) 64 32 = [\<lparr>key_hash = ef_key_hash [101], slot_offset = 576\<rparr>,
      \<lparr>key_hash = ef_key_hash [112], slot_offset = 640\<rparr>, \<lparr>key_hash = ef_key_hash [64], slot_offset = 704\<rparr>]"
    by (rule sparse_live) (simp add: locked_def sparse_removed[folded db1_def])
  have off: "ef_slot_to_offset db1 = ef_slot_to_offset sparse_db" using R(5) by (intro offset_cong) (simp_all add: same_layout_def)
  have pts: "index_points db1"
    using sparse_ready(2) by (auto simp: index_points_def R(3) off f sparse_fields split: if_splits)
  have fit: "rehash_fits db1" by (simp add: rehash_fits_def f)
  have "resized ?l ?d (ef_index_file_size (max_slots (sb db1)) 16)"
    unfolding resized_def by (intro exI[of _ "mem ?l"] exI[of _ "map_capacity ?l"]) (simp add: f)
  from rehash_moved[OF R(2) pts fit _ _ this] have S: "shifted ?l (moved ?d 576 16) 16" "zero_index (moved ?d 576 16)"
    by (simp_all add: ef_hash_capacity_valid_def f)
  then have wfg: "wf_layout (moved ?d 576 16)" "hash_capacity (moved ?d 576 16) = 16" by (simp_all add: shifted_def)
  have full: "fst (reinsert (map (fix_entry 576 (ef_index_slots_base 16)) (live_entries (mem ?l) 64 32)) (moved ?d 576 16)) = EF_ERR_INDEX_FULL"
  proof -
    have "hash_index (moved ?d 576 16) = Some 64" using index_hash_64[OF wfg(1)] by (simp add: wfg(2))
    moreover have "entry_at (mem (moved ?d 576 16)) 64 p = \<lparr>key_hash = 0, slot_offset = 0\<rparr>" if "p < 16" for p
      using zero_entry[OF wfg(1) S(2)] that by (simp add: wfg(2))
    ultimately show ?thesis
      using reinsert_wrapped[OF _ wfg(2)] by (simp add: live fix_entry_def ef_index_fixup_offset_def ef_index_slots_base_def)
  qed
  have "ef_index_file_size 4 16 \<le> 200000" by (simp add: ef_index_file_size_def)
  then have "fst (rehash_move env ?l 64 16) = EF_ERR_INDEX_FULL"
    by (intro rehash_move_stops[OF live[folded lf(1)] refl]) (use full mal live in \<open>simp_all add: lf\<close>)
  moreover have "\<not> (ucast (16 :: u32) * ucast EF_INDEX_REHASH_LOAD_FACTOR_NUM :: u64) \<le> ucast (3 :: u32) * ucast EF_INDEX_REHASH_LOAD_FACTOR_DEN"
    by (simp add: ef_policy_defs)
  ultimately show ?thesis using rehash_to_start[OF R(2), of 16 env True] by (simp add: ef_index_shrink_def f lf(4))
qed

subsection \<open>Properties\<close>

text \<open>
  C16: what \<^verbatim>\<open>ef_index_remove\<close> does to the other keys when it shrinks the table. The removal of a key that is
  present returns \<^verbatim>\<open>EF_OK\<close> in any case. Let \<open>db1\<close> be the handle after the removal proper. If no shrink is
  due, or it succeeds, or it is refused before it has moved anything, the key is gone and every key
  with another hash keeps its answer. But if the shrink fails with \<^verbatim>\<open>EF_ERR_INDEX_FULL\<close> while it puts the
  entries into the smaller table, a key that nobody removed is lost, and the caller is not told.
\<close>

theorem index_remove_and_shrink:
  assumes ready: "index_ready db" "index_points db" "rehash_fits db" and get: "ef_index_get db key = Inr i"
    and run: "ef_index_remove env db key = (err, db')"
  defines "db1 \<equiv> after_remove db key"
  shows "err = EF_OK \<and> index_lookup db' (ef_key_hash key) = None \<and>
    (if ef_index_should_shrink_snap db1 (hash_entry_count db1) (hash_capacity db1) \<and>
        fst (ef_index_shrink env db1 (ef_index_pick_shrink_capacity (hash_entry_count db1) (hash_capacity db1))) = EF_ERR_INDEX_FULL
     then \<exists>lost. lost \<noteq> ef_key_hash key \<and> index_lookup db lost \<noteq> None \<and> index_lookup db' lost = None
     else index_ready db' \<and> ef_index_get db' key = Inl EF_ERR_NOT_FOUND \<and>
       (\<forall>key'. ef_key_hash key' \<noteq> ef_key_hash key \<longrightarrow> ef_index_get db' key' = ef_index_get db key'))"
proof -
  have "index_lookup db (ef_key_hash key) \<noteq> None" using get index_get_lookup[OF ready(1), of key] by (auto split: option.splits)
  note R = remove_runs[OF ready(1) this, folded db1_def]
  have off: "ef_slot_to_offset db1 = ef_slot_to_offset db" "ef_offset_to_slot_id db1 = ef_offset_to_slot_id db"
    using R(5) by (intro offset_cong; simp add: same_layout_def)+
  have pts: "index_points db1" using ready(2) R(5) by (auto simp: index_points_def R(3) off same_layout_def split: if_splits)
  have fit: "rehash_fits db1" using ready(3) R(5) by (simp add: rehash_fits_def same_layout_def)
  have gets: "ef_index_get db1 k = (if ef_key_hash k = ef_key_hash key then Inl EF_ERR_NOT_FOUND else ef_index_get db k)" for k
    by (simp add: index_get_lookup[OF R(2)] index_get_lookup[OF ready(1)] R(3) off split: option.split)
  have run': "err = EF_OK" "db' = shrink_if_sparse env db1 (hash_entry_count db1) (hash_capacity db1)" using run R(1)[of env] by simp_all
  show ?thesis
    using shrunk_outcome[OF R(2) pts fit run'(2)] run'(1) gets R(3) by (auto simp: domIff split: if_splits)
qed

text \<open>In the example \<^verbatim>\<open>"x"\<close> is removed, and some other key disappears as well.\<close>

theorem index_remove_and_shrink_witness:
  "\<exists>db' lost. ef_index_remove \<lparr>env_open = True, env_fstat = True, env_ftruncate = \<lambda>_. True, env_mmap = \<lambda>_. True, env_msync = True,
       env_malloc = \<lambda>_. True, env_calloc = True\<rparr> sparse_db [120] = (EF_OK, db') \<and>
     lost \<noteq> ef_key_hash [120] \<and> index_lookup sparse_db lost \<noteq> None \<and> index_lookup db' lost = None"
proof -
  let ?env = "\<lparr>env_open = True, env_fstat = True, env_ftruncate = \<lambda>_. True, env_mmap = \<lambda>_. True, env_msync = True,
    env_malloc = \<lambda>_. True, env_calloc = True\<rparr>" and ?d = "after_remove sparse_db [120]"
  obtain err db' where run: "ef_index_remove ?env sparse_db [120] = (err, db')" by fastforce
  note R = remove_runs[OF sparse_ready(1) sparse_present]
  have f: "hash_capacity ?d = 32" "hash_entry_count ?d = 3" "hash_index ?d = Some 64"
    using R(5,6) by (simp_all add: same_layout_def sparse_fields)
  have "ef_index_should_shrink_snap ?d (hash_entry_count ?d) (hash_capacity ?d)"
    by (simp add: f ef_index_should_shrink_snap_def ef_policy_defs)
  moreover have "fst (ef_index_shrink ?env ?d (ef_index_pick_shrink_capacity (hash_entry_count ?d) (hash_capacity ?d))) = EF_ERR_INDEX_FULL"
    using sparse_shrink[of ?env] by (simp add: f sparse_capacity)
  ultimately show ?thesis using index_remove_and_shrink[OF sparse_ready sparse_get run] run by auto
qed

end
