(* ===== verification/Lock_Interleaving.thy ===== *)
theory Lock_Interleaving
  imports Atomics Sb_Layout
begin

text \<open>
  The byte locks of the superblock (queue lock, index write lock, transaction lock) when several
  threads or processes run at once. The other theories run a call as one piece; here a step is a
  single access to the shared mapping. \<^verbatim>\<open>ef_atomic_cas_u8\<close> and \<^verbatim>\<open>ef_atomic_store_u8\<close> read the aligned
  32-bit word around the byte, compute the word they want and swap it in; between the two accesses
  the word may change, through a neighbouring lock in the same word or any other write.

  An aligned 32-bit load and an aligned compare-and-swap are atomic, which is what the compiler's
  builtins give. The version test before the loops only reads and is left out: images of older
  versions have no byte locks.
\<close>

subsection \<open>One process\<close>

text \<open>
  Where a process is in its use of the lock: not in it; in the spin loop of an acquire with \<open>n\<close>
  attempts left; in the loop of \<^verbatim>\<open>ef_atomic_cas_u8\<close> with \<^verbatim>\<open>exp_word\<close>; turned away; holding the lock; at the
  start of \<^verbatim>\<open>ef_atomic_store_u8\<close> in the release; in its loop with \<^verbatim>\<open>exp_word\<close>.
\<close>

datatype lock_pc = Outside | Spin nat | Trying nat u32 | Busy | Held | Leaving | Releasing u32

definition word_of :: "nat \<Rightarrow> nat" where
  "word_of ptr = ptr - (ptr AND 3)"

text \<open>The next access of a process that uses the lock at \<open>ptr\<close>. Outside, turned away or holding, it waits for its client.\<close>

fun lock_step :: "nat \<Rightarrow> lock_pc \<Rightarrow> mem \<Rightarrow> lock_pc \<times> mem" where
  "lock_step ptr (Spin 0) m = (Busy, m)"
| "lock_step ptr (Spin (Suc n)) m = (Trying n (ef_atomic_load_u32 m (word_of ptr)), m)"
| "lock_step ptr (Trying n exp_word) m =
     (let align_off = ptr AND 3; cur_byte = ucast (drop_bit (align_off * 8) exp_word AND 0xFF) :: u8 in
      if cur_byte \<noteq> 0 then (Spin n, m)
      else case ef_atomic_cas_u32 m (word_of ptr) exp_word (des_word align_off exp_word 1) of
        None \<Rightarrow> (Trying n exp_word, m)
      | Some (ok, exp_word, m) \<Rightarrow> (if ok then Held else Trying n exp_word, m))"
| "lock_step ptr Leaving m = (Releasing (ef_atomic_load_u32 m (word_of ptr)), m)"
| "lock_step ptr (Releasing exp_word) m =
     (case ef_atomic_cas_u32 m (word_of ptr) exp_word (des_word (ptr AND 3) exp_word 0) of
        None \<Rightarrow> (Releasing exp_word, m)
      | Some (ok, exp_word, m) \<Rightarrow> (if ok then Outside else Releasing exp_word, m))"
| "lock_step ptr pc m = (pc, m)"

text \<open>From the successful swap of the acquire to the successful swap of the release.\<close>

fun owns :: "lock_pc \<Rightarrow> bool" where
  "owns Held = True"
| "owns Leaving = True"
| "owns (Releasing _) = True"
| "owns _ = False"

lemma cas_byte:
  "ef_atomic_cas_u32 m (word_of p) w (des_word (p AND 3) w v) =
     Some (if load_u32 m (word_of p) = w then (True, w, m(p := v)) else (False, load_u32 m (word_of p), m))"
  using store_word_byte[OF word_ptr(2), of m "word_of p" p v]
  by (auto simp: cas_u32 compare_exchange_u32_def word_of_def word_ptr(1) Let_def)

lemma byte_of_word: "ucast (drop_bit ((p AND 3) * 8) (load_u32 m (word_of p)) AND 0xFF) = m p"
  using word_byte[OF word_ptr(2), of p m "word_of p"] by (simp add: word_of_def word_ptr(1))

lemma try_step:
  "lock_step p (Trying n w) m =
     (if ucast (drop_bit ((p AND 3) * 8) w AND 0xFF) \<noteq> (0 :: u8) then (Spin n, m)
      else if load_u32 m (word_of p) = w then (Held, m(p := 1)) else (Trying n (load_u32 m (word_of p)), m))"
  by (simp add: cas_byte Let_def)

lemma release_step:
  "lock_step p (Releasing w) m =
     (if load_u32 m (word_of p) = w then (Outside, m(p := 0)) else (Releasing (load_u32 m (word_of p)), m))"
  by (simp add: cas_byte)

declare lock_step.simps(3,5) [simp del]

lemma quiet_step:
  assumes "\<And>n w. pc \<noteq> Trying n w" "\<And>w. pc \<noteq> Releasing w"
  shows "snd (lock_step p pc m) = m" "owns (fst (lock_step p pc m)) = owns pc"
  using assms by (cases "(p, pc, m)" rule: lock_step.cases; simp)+

text \<open>
  A step leaves the memory and the ownership alone, or takes the lock while its byte is 0, or gives it
  back. It never writes to another byte, whatever \<^verbatim>\<open>exp_word\<close> it works with.
\<close>

lemma lock_step_cases:
  assumes "lock_step p pc m = (pc', m')"
  obtains "m' = m" "owns pc' = owns pc" | "\<not> owns pc" "owns pc'" "m p = 0" "m' = m(p := 1)"
  | "owns pc" "\<not> owns pc'" "m' = m(p := 0)"
proof (cases pc)
  case (Trying n w)
  then have run: "(pc', m') = (if ucast (drop_bit ((p AND 3) * 8) w AND 0xFF) \<noteq> (0 :: u8) then (Spin n, m)
      else if load_u32 m (word_of p) = w then (Held, m(p := 1)) else (Trying n (load_u32 m (word_of p)), m))"
    using assms by (auto simp: try_step)
  show thesis
  proof (cases "load_u32 m (word_of p) = w")
    case True
    then have "m p = ucast (drop_bit ((p AND 3) * 8) w AND 0xFF)" using byte_of_word[of p m] by simp
    then show thesis using run Trying that(1,2) True by (simp split: if_splits)
  next
    case False
    then show thesis using run Trying that(1) by (simp split: if_splits)
  qed
next
  case (Releasing w)
  then show thesis using assms that(1,3) by (auto simp: release_step split: if_splits)
qed (use assms that(1) quiet_step[of pc p m] in \<open>simp_all only: fst_conv snd_conv lock_pc.distinct simp_thms\<close>)

subsection \<open>All processes\<close>

text \<open>
  Process \<open>i\<close> uses the lock at address \<open>adr i\<close>. A step is the next access of one process, its decision
  to acquire, to release or to give up, or a write of anybody that leaves the locks alone.
\<close>

inductive locks_step :: "('i \<Rightarrow> nat) \<Rightarrow> mem \<times> ('i \<Rightarrow> lock_pc) \<Rightarrow> mem \<times> ('i \<Rightarrow> lock_pc) \<Rightarrow> bool" for adr where
  Access: "lock_step (adr i) (pc i) m = (p, m') \<Longrightarrow> locks_step adr (m, pc) (m', pc(i := p))"
| Acquire: "pc i = Outside \<Longrightarrow> locks_step adr (m, pc) (m, pc(i := Spin EF_SB_INDEX_SPIN_MAX))"
| Release: "pc i = Held \<Longrightarrow> locks_step adr (m, pc) (m, pc(i := Leaving))"
| Give_up: "pc i = Busy \<Longrightarrow> locks_step adr (m, pc) (m, pc(i := Outside))"
| Write: "(\<And>i. m' (adr i) = m (adr i)) \<Longrightarrow> locks_step adr (m, pc) (m', pc)"

inductive_cases locks_step_cases: "locks_step adr (m, pc) (m', pc')"

text \<open>Every lock has at most one owner, and its byte is 1 if it has one and 0 otherwise.\<close>

definition locks_inv :: "('i \<Rightarrow> nat) \<Rightarrow> mem \<times> ('i \<Rightarrow> lock_pc) \<Rightarrow> bool" where
  "locks_inv adr = (\<lambda>(m, pc).
     (\<forall>i j. owns (pc i) \<longrightarrow> owns (pc j) \<longrightarrow> adr i = adr j \<longrightarrow> i = j) \<and>
     (\<forall>i. m (adr i) = (if \<exists>j. adr j = adr i \<and> owns (pc j) then 1 else 0)))"

lemma locks_invI:
  assumes "\<And>i j. owns (pc i) \<Longrightarrow> owns (pc j) \<Longrightarrow> adr i = adr j \<Longrightarrow> i = j"
    and "\<And>i j. adr j = adr i \<Longrightarrow> owns (pc j) \<Longrightarrow> m (adr i) = 1"
    and "\<And>i. (\<And>j. adr j = adr i \<Longrightarrow> \<not> owns (pc j)) \<Longrightarrow> m (adr i) = 0"
  shows "locks_inv adr (m, pc)"
  using assms unfolding locks_inv_def by fastforce

lemma locks_invD:
  assumes "locks_inv adr (m, pc)"
  shows "owns (pc i) \<Longrightarrow> owns (pc j) \<Longrightarrow> adr i = adr j \<Longrightarrow> i = j"
    "adr j = adr i \<Longrightarrow> owns (pc j) \<Longrightarrow> m (adr i) = 1" "(\<And>j. adr j = adr i \<Longrightarrow> \<not> owns (pc j)) \<Longrightarrow> m (adr i) = 0"
  using assms unfolding locks_inv_def by auto

text \<open>A change of one process that keeps its ownership and the lock bytes is harmless.\<close>

lemma locks_inv_keep:
  assumes inv: "locks_inv adr (m, pc)" and own: "\<And>j. owns (pc' j) = owns (pc j)" and bytes: "\<And>j. m' (adr j) = m (adr j)"
  shows "locks_inv adr (m', pc')"
  using inv by (simp add: locks_inv_def own bytes)

lemma locks_inv_take:
  assumes inv: "locks_inv adr (m, pc)" and p: "owns p" "m (adr i) = 0"
  shows "locks_inv adr (m(adr i := 1), pc(i := p))"
proof -
  have free: "\<not> owns (pc j)" if "adr j = adr i" for j using locks_invD(2)[OF inv that] p(2) by auto
  show ?thesis
  proof (rule locks_invI)
    show "j = k" if "owns ((pc(i := p)) j)" "owns ((pc(i := p)) k)" "adr j = adr k" for j k
      using that free locks_invD(1)[OF inv] by (auto split: if_splits)
    show "(m(adr i := 1)) (adr j) = 1" if "adr k = adr j" "owns ((pc(i := p)) k)" for j k
      using that locks_invD(2)[OF inv] by (auto split: if_splits)
    show "(m(adr i := 1)) (adr j) = 0" if "\<And>k. adr k = adr j \<Longrightarrow> \<not> owns ((pc(i := p)) k)" for j
    proof -
      have "i \<noteq> k \<and> \<not> owns (pc k)" if "adr k = adr j" for k using \<open>adr k = adr j \<Longrightarrow> \<not> owns ((pc(i := p)) k)\<close>[OF that] p(1) by (auto split: if_splits)
      then show ?thesis using locks_invD(3)[OF inv, of j] by (metis fun_upd_other)
    qed
  qed
qed

lemma locks_inv_drop:
  assumes inv: "locks_inv adr (m, pc)" and p: "owns (pc i)" "\<not> owns p"
  shows "locks_inv adr (m(adr i := 0), pc(i := p))"
proof -
  have only: "\<not> owns (pc j)" if "adr j = adr i" "j \<noteq> i" for j using locks_invD(1)[OF inv _ p(1) that(1)] that(2) by auto
  show ?thesis
  proof (rule locks_invI)
    show "j = k" if "owns ((pc(i := p)) j)" "owns ((pc(i := p)) k)" "adr j = adr k" for j k
      using that p(2) locks_invD(1)[OF inv] by (auto split: if_splits)
    show "(m(adr i := 0)) (adr j) = 1" if "adr k = adr j" "owns ((pc(i := p)) k)" for j k
      using that p(2) only locks_invD(2)[OF inv] by (auto split: if_splits)
    show "(m(adr i := 0)) (adr j) = 0" if "\<And>k. adr k = adr j \<Longrightarrow> \<not> owns ((pc(i := p)) k)" for j
      using that p locks_invD(3)[OF inv, of j] by (fastforce split: if_splits)
  qed
qed

lemma locks_inv_step:
  assumes step: "locks_step adr s s'" and inv: "locks_inv adr s"
  shows "locks_inv adr s'"
  using step inv
proof (induction rule: locks_step.induct)
  case (Access i pc m p m')
  from Access.hyps show ?case
  proof (cases rule: lock_step_cases)
    case 1
    then show ?thesis by (intro locks_inv_keep[OF Access.prems]) auto
  next
    case 2
    then show ?thesis using locks_inv_take[OF Access.prems] by simp
  next
    case 3
    then show ?thesis using locks_inv_drop[OF Access.prems] by simp
  qed
next
  case (Acquire pc i m)
  then show ?case by (intro locks_inv_keep[OF Acquire.prems]) auto
next
  case (Release pc i m)
  then show ?case by (intro locks_inv_keep[OF Release.prems]) auto
next
  case (Give_up pc i m)
  then show ?case by (intro locks_inv_keep[OF Give_up.prems]) auto
next
  case (Write m' m pc)
  then show ?case by (intro locks_inv_keep[OF Write.prems]) auto
qed

lemma locks_inv_reach: "(locks_step adr)\<^sup>*\<^sup>* s s' \<Longrightarrow> locks_inv adr s \<Longrightarrow> locks_inv adr s'"
  by (induction rule: rtranclp_induct) (auto intro: locks_inv_step)

subsection \<open>Alone\<close>

text \<open>
  When nothing comes between, a process in the spin loop is the acquire that the other theories use:
  it takes a lock that is free and is turned away from one that is not.
\<close>

definition solo :: "nat \<Rightarrow> nat \<Rightarrow> lock_pc \<times> mem \<Rightarrow> lock_pc \<times> mem" where
  "solo k ptr = (\<lambda>(pc, m). lock_step ptr pc m) ^^ k"

lemma solo_Suc: "solo (Suc k) p (pc, m) = solo k p (lock_step p pc m)"
  by (simp add: solo_def funpow_Suc_right del: funpow.simps(2))

lemma solo_0: "solo 0 p s = s"
  by (simp add: solo_def)

lemma solo_attempt:
  "solo 2 p (Spin (Suc n), m) = (if m p = 0 then (Held, m(p := 1)) else (Spin n, m))"
  by (simp add: numeral_2_eq_2 solo_Suc solo_0 atomic_loads byte_of_word try_step)

lemma solo_acquire:
  "solo (2 * n + 1) p (Spin n, m) = (if fst (spin_cas_u8 n p m) then Held else Busy, snd (spin_cas_u8 n p m))"
proof (induction n)
  case 0
  then show ?case by (simp add: solo_Suc solo_0)
next
  case (Suc n)
  have stay: "solo k p (Held, m') = (Held, m')" for k m' by (induction k) (simp_all add: solo_0 solo_Suc)
  have "solo (2 * Suc n + 1) p (Spin (Suc n), m) = solo (2 * n + 1) p (solo 2 p (Spin (Suc n), m))"
    by (simp add: solo_def funpow_add[symmetric, THEN fun_cong, unfolded comp_def] del: funpow.simps)
  then show ?case using Suc by (simp add: solo_attempt stay load_u8_def store_u8_upd fun_upd_def)
qed

subsection \<open>Properties\<close>

text \<open>
  C39: the byte locks exclude, at the grain of single accesses. Any number of processes use any number
  of byte locks, several of which may lie in one 32-bit word, and other writers change other bytes
  at any moment. In every reachable state a lock has at most one owner, its byte is 1 if it has
  one and 0 if not, so that no release is lost and no lock is left taken; whatever a process does
  next changes no byte but its lock, however old the word is that it has read; and a process that
  starts an attempt undisturbed has the lock after two accesses if nobody owns it.
\<close>

theorem byte_locks_exclude:
  assumes start: "\<And>i. pc0 i = Outside" "\<And>i. m0 (adr i) = 0" and reach: "(locks_step adr)\<^sup>*\<^sup>* (m0, pc0) (m, pc)"
  shows "(\<forall>i j. owns (pc i) \<and> owns (pc j) \<and> adr i = adr j \<longrightarrow> i = j) \<and>
    (\<forall>i. m (adr i) = (if \<exists>j. adr j = adr i \<and> owns (pc j) then 1 else 0)) \<and>
    (\<forall>i x. x \<noteq> adr i \<longrightarrow> snd (lock_step (adr i) (pc i) m) x = m x) \<and>
    (\<forall>i n. pc i = Spin (Suc n) \<and> (\<forall>j. adr j = adr i \<longrightarrow> \<not> owns (pc j)) \<longrightarrow>
       solo 2 (adr i) (pc i, m) = (Held, m(adr i := 1)))"
proof -
  have "locks_inv adr (m0, pc0)" using start by (simp add: locks_inv_def)
  from locks_inv_reach[OF reach this] have inv: "locks_inv adr (m, pc)" .
  have "snd (lock_step (adr i) (pc i) m) x = m x" if "x \<noteq> adr i" for i x
  proof -
    obtain p m' where run: "lock_step (adr i) (pc i) m = (p, m')" by fastforce
    from run show ?thesis by (cases rule: lock_step_cases) (use that run in auto)
  qed
  moreover have "solo 2 (adr i) (pc i, m) = (Held, m(adr i := 1))"
    if "pc i = Spin (Suc n)" "\<forall>j. adr j = adr i \<longrightarrow> \<not> owns (pc j)" for i n
    using that locks_invD(3)[OF inv, of i] by (simp add: solo_attempt)
  ultimately show ?thesis using inv unfolding locks_inv_def prod.case by blast
qed

text \<open>
  Process \<open>False\<close> uses the queue lock, process \<open>True\<close> the index write lock in the same word. The first reads
  the word, the second takes its lock, and the first has to read again before it takes its own.
\<close>

definition two_locks :: "bool \<Rightarrow> nat" where
  "two_locks b = (if b then 59 else 58)"

lemma stale_word: "load_u32 (\<lambda>_. 0) (word_of 58) \<noteq> load_u32 ((\<lambda>_. 0)(59 := 1)) (word_of 58)"
proof
  assume eq: "load_u32 (\<lambda>_. 0) (word_of 58) = load_u32 ((\<lambda>_. 0)(59 := 1)) (word_of 58)"
  have w: "word_of 58 = 56" by (simp add: word_of_def and_3)
  show False using word_byte[of 3 "\<lambda>_. 0" 56] word_byte[of 3 "(\<lambda>_. 0)(59 := 1)" 56] eq by (simp add: w)
qed

text \<open>One move of either process.\<close>

definition pcs :: "lock_pc \<Rightarrow> lock_pc \<Rightarrow> bool \<Rightarrow> lock_pc" where
  "pcs x y b = (if b then y else x)"

lemma pcs_upd: "(pcs x y)(False := x') = pcs x' y" "(pcs x y)(True := y') = pcs x y'"
  by (auto simp: pcs_def)

lemma two_locks_moves:
  "lock_step 58 x m = (x', m') \<Longrightarrow> locks_step two_locks (m, pcs x y) (m', pcs x' y)"
  "lock_step 59 y m = (y', m') \<Longrightarrow> locks_step two_locks (m, pcs x y) (m', pcs x y')"
  "locks_step two_locks (m, pcs Outside y) (m, pcs (Spin EF_SB_INDEX_SPIN_MAX) y)"
  "locks_step two_locks (m, pcs x Outside) (m, pcs x (Spin EF_SB_INDEX_SPIN_MAX))"
  using locks_step.Access[of two_locks False "pcs x y" m x' m'] locks_step.Access[of two_locks True "pcs x y" m y' m']
    locks_step.Acquire[of "pcs Outside y" False two_locks m] locks_step.Acquire[of "pcs x Outside" True two_locks m]
  by (simp_all add: pcs_upd two_locks_def pcs_def[of _ _ True] pcs_def[of _ _ False])

theorem byte_locks_exclude_witness:
  "\<exists>m. (locks_step two_locks)\<^sup>*\<^sup>* (\<lambda>_. 0, \<lambda>_. Outside) (m, pcs Held Held) \<and> m 58 = 1 \<and> m 59 = 1"
proof -
  let ?z = "\<lambda>_. 0 :: u8" and ?N = EF_SB_INDEX_SPIN_MAX and ?R = "(locks_step two_locks)\<^sup>*\<^sup>*"
  let ?m = "?z(59 := 1)" and ?w = "\<lambda>m. load_u32 m (word_of 58)"
  obtain n where n: "?N = Suc n" by (simp add: EF_SB_INDEX_SPIN_MAX_def)
  have a: "lock_step p (Spin ?N) m = (Trying n (load_u32 m (word_of p)), m)" for p m by (simp add: n atomic_loads)
  have b: "lock_step p (Trying n (load_u32 m (word_of p))) m = (Held, m(p := 1))" if "m p = 0" for p m
    using that by (simp add: try_step byte_of_word)
  have c: "lock_step 58 (Trying n (?w ?z)) ?m = (Trying n (?w ?m), ?m)"
    using stale_word byte_of_word[of 58 ?z] by (simp add: try_step)
  note go = rtranclp.rtrancl_into_rtrancl
  have "?R (?z, pcs Outside Outside) (?z, pcs (Spin ?N) Outside)" by (intro r_into_rtranclp two_locks_moves)
  from go[OF this two_locks_moves(1)[OF a]] have "?R (?z, pcs Outside Outside) (?z, pcs (Trying n (?w ?z)) Outside)" .
  from go[OF go[OF this two_locks_moves(4)] two_locks_moves(2)[OF a]]
  have "?R (?z, pcs Outside Outside) (?z, pcs (Trying n (?w ?z)) (Trying n (load_u32 ?z (word_of 59))))" .
  from go[OF this two_locks_moves(2)[OF b]] have "?R (?z, pcs Outside Outside) (?m, pcs (Trying n (?w ?z)) Held)" by simp
  from go[OF go[OF this two_locks_moves(1)[OF c]] two_locks_moves(1)[OF b]]
  have "?R (?z, pcs Outside Outside) (?m(58 := 1), pcs Held Held)" by simp
  then have r: "?R (?z, \<lambda>_. Outside) (?m(58 := 1), pcs Held Held)" by (simp add: pcs_def[abs_def])
  have "(?m(58 := 1)) (two_locks i) = 1" for i
    using byte_locks_exclude[of "\<lambda>_. Outside" ?z two_locks, OF _ _ r] by (auto simp: pcs_def)
  from this[of False] this[of True] r show ?thesis by (auto simp: two_locks_def)
qed

end
