(* ===== verification/Spec2Isabelle.thy ===== *)
theory Spec2Isabelle
  imports Execute Index_Api Txn_Machine Pool_Machine Layout_Props Checksums Crc_Equiv Atomics Open_Props Blob_Props Index_Grow Grow_Props Reopen Other_Builds Port Txn_Index Chase Embedded_Props Index_Shrink Lock_Interleaving
begin

text \<open>
  A verification of EndfieldsDB, the embedded database under \<^verbatim>\<open>src/src\<close>: a file or buffer of
  fixed-size slots with a free list, a Robin Hood hash index from string keys to slots, a FIFO
  queue, blobs that span several slots, and transactions with a persistent undo log.

  \<^bold>\<open>The program and its model.\<close> The file is mapped into memory and everything persistent is an
  offset into it, so the model's central state is the memory, a function from addresses to bytes,
  inside the record \<open>ef_db\<close> of the handle (\<^verbatim>\<open>struct ef_db\<close>). The packed structures are read from
  the bytes by \<open>sb_of\<close>, \<open>slot_at\<close>, \<open>entry_at\<close>, \<open>undo_record_of\<close> and written by one setter per field;
  integers have the width of the C types and wrap. A C function is the definition of the same name,
  which takes the handle and returns the error code and the new handle (or a sum type where it
  also returns a value). Answers of the operating system, the allocator and \<^verbatim>\<open>cpuid\<close> are
  parameters: \<open>ef_env\<close> and \<open>cpuid1\<close>. The main build modelled is GCC on x86-64 with atomics, file I/O and
  POSIX; what other builds replace is in \<^verbatim>\<open>Other_Builds\<close> and \<^verbatim>\<open>Port\<close>. A call is run by one thread without interference: a compare-and-swap loop is its
  successful round, and a spin lock that is held makes the call fail with the code's busy error.
  Interleaving of whole calls is modelled by the step relations of \<^verbatim>\<open>Txn_Machine\<close> and
  \<^verbatim>\<open>Pool_Machine\<close>, interleaving inside the lock operations by that of \<^verbatim>\<open>Lock_Interleaving\<close>. \<^verbatim>\<open>NULL\<close> arguments that cannot be expressed in the model's types are left out.

  \<^bold>\<open>Definitions, in the order of the calls.\<close>
  \<^item> \<^verbatim>\<open>Prelude\<close>: words, error codes, memory and its lemmas. \<^verbatim>\<open>Layout\<close>: the structures and constants of
    \<^verbatim>\<open>endfields.h\<close>, \<^verbatim>\<open>ef_index.h\<close>. \<^verbatim>\<open>Sb_Layout\<close>: \<^verbatim>\<open>ef_sb_layout.c\<close>, the packed superblock fields, the
    three spin locks and the migrations. \<^verbatim>\<open>Atomics\<close>: \<^verbatim>\<open>ef_atomic_unaligned.h\<close>.
  \<^item> \<^verbatim>\<open>Crc\<close>, \<^verbatim>\<open>Crc_Pclmul\<close>: \<^verbatim>\<open>ef_crc.c\<close> and \<^verbatim>\<open>ef_crc_pclmul.c\<close>.
  \<^item> \<^verbatim>\<open>Core\<close>: the handle, checksums and addressing of \<^verbatim>\<open>endfields.c\<close>.
  \<^item> \<^verbatim>\<open>Hash_Table\<close>, \<^verbatim>\<open>Index_Policy\<close>, \<^verbatim>\<open>Index\<close>: \<^verbatim>\<open>ef_index.c\<close> below its locks, its capacity policy, and its
    public operations with rehashing. \<^verbatim>\<open>Undo_Log\<close>: \<^verbatim>\<open>ef_undo.c\<close> and the record builders of \<^verbatim>\<open>ef_txn.c\<close>.
  \<^item> \<^verbatim>\<open>Slot_Pool\<close>, \<^verbatim>\<open>Slots\<close>: allocation, free list and slot operations of \<^verbatim>\<open>endfields.c\<close>. \<^verbatim>\<open>Grow\<close>:
    \<^verbatim>\<open>ef_grow.c\<close>. \<^verbatim>\<open>Blob\<close>: \<^verbatim>\<open>ef_blob.c\<close>. \<^verbatim>\<open>Queue\<close>: \<^verbatim>\<open>ef_queue.c\<close>.
  \<^item> \<^verbatim>\<open>Txn\<close>: \<^verbatim>\<open>ef_txn.c\<close> and the replay of \<^verbatim>\<open>ef_undo.c\<close>. \<^verbatim>\<open>Open\<close>: opening, creation and closing of
    \<^verbatim>\<open>endfields.c\<close> on \<^verbatim>\<open>ef_port.c\<close>. \<^verbatim>\<open>Execute\<close>: \<^verbatim>\<open>ef_execute.c\<close>.
  \<^item> \<^verbatim>\<open>Port\<close>: \<^verbatim>\<open>ef_port.c\<close> once more, for POSIX and for Windows, down to the system calls and with the history of
    the resources taken and given back, and the growth of a handle as \<^verbatim>\<open>ef_grow\<close> and \<^verbatim>\<open>ef_index_rehash_to\<close> do it
    on a copy. \<^verbatim>\<open>Lock_Interleaving\<close>: the byte operations of \<^verbatim>\<open>ef_atomic_unaligned.h\<close> one access at a time. \<^verbatim>\<open>Other_Builds\<close>: the MSVC and the plain branches of
    \<^verbatim>\<open>ef_atomic_unaligned.h\<close>, locks and slot pool of a build without atomics, the opens of a build without
    file I/O. \<^verbatim>\<open>Embedded\<close>: the program \<^verbatim>\<open>main_embedded.c\<close>, which uses most of the interface.

  \<^bold>\<open>What is shown.\<close>
  \<^item> Index. \<^verbatim>\<open>Robin_Hood\<close> and \<^verbatim>\<open>Hash_Delete\<close> show that insertion with displacement and backward-shift
    deletion keep the invariant \<open>rh_inv\<close>; \<^verbatim>\<open>Hash_Map\<close> makes of them updates of a finite map (the
    contract \<open>key_index\<close>), with the case of an insertion that gives up. \<^verbatim>\<open>Index_Api\<close> lifts this
    to put, get and remove with their locks and counters. \<^verbatim>\<open>Rehash_Move\<close> and \<^verbatim>\<open>Rehash_Props\<close> follow a
    rehash, which moves the slot area and rewrites every offset; \<^verbatim>\<open>Index_Grow\<close> puts both together
    for an insertion that lets the table grow, and \<^verbatim>\<open>Index_Shrink\<close> for a removal that lets it shrink,
    also when the shrink fails.
    Properties: \<^verbatim>\<open>Index_Map_Props\<close>, \<^verbatim>\<open>Index_Api\<close>, \<^verbatim>\<open>Index_Grow\<close>, \<^verbatim>\<open>Index_Shrink\<close>.
  \<^item> Slots. \<open>free_list_inv\<close> of \<^verbatim>\<open>Free_List\<close> ties links, head and count to a list of ids; pop and push
    meet the contract \<open>slot_stack\<close>; \<^verbatim>\<open>Free_List_Build\<close> covers building and rebuilding, \<^verbatim>\<open>Free_Slot\<close>
    freeing with overflow chains, and \<^verbatim>\<open>Pool_Machine\<close> every sequence of allocations and frees.
    \<^verbatim>\<open>Grow_Props\<close> shows what growth adds, and \<^verbatim>\<open>Chase\<close> what following links does on chains and on rings.
    Properties: \<^verbatim>\<open>Pool_Props\<close>, \<^verbatim>\<open>Free_Slot\<close>, \<^verbatim>\<open>Pool_Machine\<close>, \<^verbatim>\<open>Grow_Props\<close>, \<^verbatim>\<open>Chase\<close>.
  \<^item> Blobs. \<^verbatim>\<open>Slot_Writes\<close> has what a write to one slot changes, \<^verbatim>\<open>Blob_Chain\<close> the overflow chain as a list of
    slots, and \<^verbatim>\<open>Blob_Props\<close> the round trip of writing and reading.
  \<^item> Queue. \<^verbatim>\<open>Queue_Fifo\<close> relates the linked slots to a list of byte strings and \<^verbatim>\<open>Queue_Props\<close> shows that
    push and pop refine the abstract queue \<open>fifo\<close>, in the states \<open>quiet\<close> of \<^verbatim>\<open>Quiet_State\<close>.
  \<^item> Transactions. \<^verbatim>\<open>Undo_Props\<close> reads the log as a list of records; \<^verbatim>\<open>Txn_Alloc\<close> and \<^verbatim>\<open>Txn_Abort\<close> follow
    allocations in a transaction through abort and crash recovery, \<^verbatim>\<open>Txn_Links\<close> sequences of link
    writes through abort and through a crash inside the abort, and \<^verbatim>\<open>Txn_Index\<close> insertions into the
    index through abort; \<^verbatim>\<open>Txn_Machine\<close> shows mutual
    exclusion for any number of handles, that calls of the pool and the index are among the steps, and how opening a
    live database breaks it.
    Properties: \<^verbatim>\<open>Txn_Props\<close>, \<^verbatim>\<open>Txn_Links\<close>, \<^verbatim>\<open>Txn_Index\<close>, \<^verbatim>\<open>Txn_Machine\<close>.
  \<^item> Checksums. \<^verbatim>\<open>Crc\<close>, \<^verbatim>\<open>Crc_Fold\<close> and \<^verbatim>\<open>Crc_Equiv\<close> show that the table-driven and the carry-less path
    compute the bit-serial CRC-32; \<^verbatim>\<open>Checksums\<close> shows what the superblock and slot checksums detect.
  \<^item> Layout and opening. \<^verbatim>\<open>Layout_Props\<close>: addressing, locks (the contract \<open>spin_lock\<close>), capacities and
    migration. \<^verbatim>\<open>Create_Props\<close> and \<^verbatim>\<open>Open_Props\<close>: a new database is in the state from which the
    properties above start. \<^verbatim>\<open>Reopen\<close>: closing and opening again gives the data back.
    \<^verbatim>\<open>Samples\<close> has the small databases of the witnesses.
  \<^item> Builds and resources. \<^verbatim>\<open>Atomics\<close> and \<^verbatim>\<open>Other_Builds\<close>: the versions of the atomic operations and of the
    slot pool agree, as far as the plain ones are defined. \<^verbatim>\<open>Lock_Interleaving\<close>: the byte locks exclude each other
    for any interleaving of single accesses. \<^verbatim>\<open>Port\<close>: both ports have the results the model of \<^verbatim>\<open>Open\<close>
    and \<^verbatim>\<open>Index\<close> rests on, and give back what they take, exactly once unless a growth has failed.
  \<^item> The components together. \<^verbatim>\<open>Session\<close> describes a database between two calls and what each call makes of
    it, \<^verbatim>\<open>Crc_Eval\<close> evaluates checksums of concrete bytes, and \<^verbatim>\<open>Embedded_Props\<close> shows that the embedded
    self-test passes, from the first open to the last close.

  \<^bold>\<open>Loops and bounds.\<close> Loops with a bound of their own are recursive functions with a measure; the
  displacement and shift loops of the index end by the measures in \<^verbatim>\<open>Hash_Table\<close>. Loops that follow
  links in memory (blob chains) and the unaligned compare-and-swap are partial functions with \<open>None\<close>
  for a loop that does not return; \<^verbatim>\<open>Free_Slot\<close>, \<^verbatim>\<open>Blob_Props\<close> and \<^verbatim>\<open>Atomics\<close> show that releasing a chain,
  writing a blob and the compare-and-swap loops return. The retry loop of the sequence lock has the code's bound of 4096 attempts as fuel. Slot
  counts are assumed below \<open>2 ^ 32\<close> where the 32-bit free count is to be exact, and below \<open>2 ^ 40\<close>
  where the file size must not wrap. Properties of the queue, of freeing, of blobs and of transactions, and those of
  the removal of a key in \<^verbatim>\<open>Index_Api\<close>, assume that no shrink of the index is due; what a removal with a shrink does
  is in \<^verbatim>\<open>Index_Shrink\<close>. Properties of transactions assume
  that the undo log has room for their records, because the code goes on without recording when it is full. Properties of
  insertion assume an empty bucket. Slot checksums are assumed not to be 0 where the code takes 0 for a
  missing checksum.

  \<^bold>\<open>Not modelled.\<close> Interference between threads inside a call other than the lock operations, and memory ordering
  (the fences have no effect); the yields inside spin loops, the CPUID intrinsics of MSVC and the name of the platform, none of
  which has an effect on the state; the query of the process id, which is a parameter; the self-test and benchmark driver
  \<^verbatim>\<open>main.c\<close>, the tests and the benchmark, which only call the library and print. The dispatcher \<^verbatim>\<open>ef_execute\<close>
  and the undo of records other than allocations, links and new keys are defined but have no property.
\<close>

end
